(* ===== verification/Prelude.thy ===== *)
theory Prelude
  imports Main "HOL-Library.Word" "HOL-Library.List_Lexorder" "HOL-Library.Char_ord"
    "HOL-Library.Product_Lexorder" "HOL-Library.AList" "HOL-Library.Multiset"
begin

text \<open>
  Shared vocabulary of the development: the machine types, the error values of the Go code, the
  collections of simplification facts, and the generic lemmas on lists kept in strict key order.
  Almost every table of the producer (demand groups, source digests, file rows, entity runs, symbol
  rows) is a slice in strict key order that is read by \<^verbatim>\<open>sort.Search\<close>; the binary search is
  modelled here once as the loop of Go's standard library and shown to compute the map of the slice.
\<close>

section \<open>Types and collections\<close>

type_synonym u64 = "64 word"
type_synonym u16 = "16 word"
type_synonym u8 = "8 word"
type_synonym bytes = "u8 list"

text \<open>
  Go's error values. The sentinel errors that the code compares with \<^verbatim>\<open>errors.Is\<close> are
  constructors; every other \<^verbatim>\<open>fmt.Errorf\<close> is \<open>Errorf\<close> with the constant part of its format.
  \<open>Panic\<close> stands for a run-time panic (an index out of range), so that its absence is a theorem.
\<close>

datatype go_error =
    ErrGenerationMismatch
  | ErrNotFound
  | ErrSessionClosed
  | ErrSparseTransitionUnavailable
  | ErrModuleGraphUnavailable
  | ErrCanceled
  | ErrBackend string
  | Errorf string
  | Panic string

type_synonym 'a result = "go_error + 'a"

named_theorems go_defs \<open>definitions of the model that are unfolded by simp\<close>
named_theorems order_facts \<open>consequences of strict key order\<close>
named_theorems codec_simps \<open>round trips of the primitive codecs\<close>

section \<open>Result values\<close>

definition bind_result :: "'a result \<Rightarrow> ('a \<Rightarrow> 'b result) \<Rightarrow> 'b result" where
  "bind_result r f = (case r of Inl e \<Rightarrow> Inl e | Inr a \<Rightarrow> f a)"

lemma bind_result_simps [simp]:
  "bind_result (Inl e) f = Inl e"
  "bind_result (Inr a) f = f a"
  by (simp_all add: bind_result_def)

lemma bind_result_eq_Inr_iff:
  "bind_result r f = Inr b \<longleftrightarrow> (\<exists>a. r = Inr a \<and> f a = Inr b)"
  by (cases r) auto

lemma bind_result_eq_Inl_iff:
  "bind_result r f = Inl e \<longleftrightarrow> r = Inl e \<or> (\<exists>a. r = Inr a \<and> f a = Inl e)"
  by (cases r) auto

lemma bind_result_cong [fundef_cong]:
  "r = r' \<Longrightarrow> (\<And>a. r' = Inr a \<Longrightarrow> f a = f' a) \<Longrightarrow> bind_result r f = bind_result r' f'"
  by (cases r') auto

fun map_result :: "('a \<Rightarrow> 'b result) \<Rightarrow> 'a list \<Rightarrow> 'b list result" where
  "map_result f [] = Inr []"
| "map_result f (x # xs) =
     bind_result (f x) (\<lambda>y. bind_result (map_result f xs) (\<lambda>ys. Inr (y # ys)))"

lemma map_result_Inr: "(\<And>x. x \<in> set xs \<Longrightarrow> f x = Inr (g x)) \<Longrightarrow> map_result f xs = Inr (map g xs)"
  by (induction xs) auto

section \<open>sort.Search\<close>

text \<open>The loop of Go's \<^verbatim>\<open>sort.Search\<close>: binary search for the first index where \<open>f\<close> holds.\<close>

function search_loop :: "(nat \<Rightarrow> bool) \<Rightarrow> nat \<Rightarrow> nat \<Rightarrow> nat" where
  "search_loop f i j =
     (if i < j then
        (let h = (i + j) div 2 in
         if f h then search_loop f i h else search_loop f (Suc h) j)
      else i)"
  by pat_completeness auto
termination
  by (relation "measure (\<lambda>(f, i, j). j - i)") auto

declare search_loop.simps [simp del]

definition sort_Search :: "nat \<Rightarrow> (nat \<Rightarrow> bool) \<Rightarrow> nat" where
  "sort_Search n f = search_loop f 0 n"

lemma search_loop_spec:
  assumes "i \<le> j" and "\<And>a b. a \<le> b \<Longrightarrow> b < n \<Longrightarrow> f a \<Longrightarrow> f b"
    and "j \<le> n" and "\<And>a. a < i \<Longrightarrow> \<not> f a" and "\<And>a. j \<le> a \<Longrightarrow> a < n \<Longrightarrow> f a"
  shows "search_loop f i j \<le> n \<and> (\<forall>a < search_loop f i j. \<not> f a) \<and>
    (\<forall>a. search_loop f i j \<le> a \<longrightarrow> a < n \<longrightarrow> f a)"
  using assms
proof (induction f i j rule: search_loop.induct)
  case (1 f i j)
  let ?h = "(i + j) div 2"
  show ?case
  proof (cases "i < j")
    case False
    with "1.prems" show ?thesis by (subst (1 2 3) search_loop.simps) auto
  next
    case True
    then have h: "i \<le> ?h" "?h < j" by auto
    show ?thesis
    proof (cases "f ?h")
      case True
      have "search_loop f i j = search_loop f i ?h"
        using \<open>i < j\<close> True by (subst search_loop.simps) simp
      moreover have "search_loop f i ?h \<le> n \<and> (\<forall>a < search_loop f i ?h. \<not> f a) \<and>
        (\<forall>a. search_loop f i ?h \<le> a \<longrightarrow> a < n \<longrightarrow> f a)"
        using "1.IH"(1)[OF \<open>i < j\<close> refl True] h "1.prems" True by auto
      ultimately show ?thesis by simp
    next
      case False
      have "search_loop f i j = search_loop f (Suc ?h) j"
        using \<open>i < j\<close> False by (subst search_loop.simps) simp
      moreover have "\<And>a. a < Suc ?h \<Longrightarrow> \<not> f a"
        using False "1.prems"(2,3) h by (metis less_Suc_eq_le order_less_le_trans)
      then have "search_loop f (Suc ?h) j \<le> n \<and> (\<forall>a < search_loop f (Suc ?h) j. \<not> f a) \<and>
        (\<forall>a. search_loop f (Suc ?h) j \<le> a \<longrightarrow> a < n \<longrightarrow> f a)"
        by (intro "1.IH"(2)[OF \<open>i < j\<close> refl False]) (use h "1.prems" in \<open>auto\<close>)
      ultimately show ?thesis by simp
    qed
  qed
qed

lemma sort_Search_spec:
  assumes "\<And>a b. a \<le> b \<Longrightarrow> b < n \<Longrightarrow> f a \<Longrightarrow> f b"
  shows "sort_Search n f \<le> n" and "a < sort_Search n f \<Longrightarrow> \<not> f a"
    and "sort_Search n f \<le> a \<Longrightarrow> a < n \<Longrightarrow> f a"
  using search_loop_spec[of 0 n n f] assms by (auto simp: sort_Search_def)

section \<open>Slices in strict key order\<close>

definition strict_keys :: "('a \<Rightarrow> 'k::linorder) \<Rightarrow> 'a list \<Rightarrow> bool" where
  "strict_keys key xs \<longleftrightarrow> sorted_wrt (<) (map key xs)"

lemma strict_keys_Nil [simp]: "strict_keys key []"
  by (simp add: strict_keys_def)

lemma strict_keys_single [simp]: "strict_keys key [x]"
  by (simp add: strict_keys_def)

lemma strict_keys_Cons:
  "strict_keys key (x # xs) \<longleftrightarrow> (\<forall>y \<in> set xs. key x < key y) \<and> strict_keys key xs"
  by (auto simp: strict_keys_def)

lemma strict_keys_append:
  "strict_keys key (xs @ ys) \<longleftrightarrow>
     strict_keys key xs \<and> strict_keys key ys \<and> (\<forall>x \<in> set xs. \<forall>y \<in> set ys. key x < key y)"
  by (auto simp: strict_keys_def sorted_wrt_append)

lemma strict_keys_distinct [order_facts]: "strict_keys key xs \<Longrightarrow> distinct (map key xs)"
  by (simp add: strict_keys_def strict_sorted_iff)

lemma strict_keys_nth:
  "strict_keys key xs \<Longrightarrow> i < j \<Longrightarrow> j < length xs \<Longrightarrow> key (xs ! i) < key (xs ! j)"
  using sorted_wrt_nth_less[of "(<)" "map key xs" i j] by (simp add: strict_keys_def)

lemma strict_keys_nth_le:
  "strict_keys key xs \<Longrightarrow> i \<le> j \<Longrightarrow> j < length xs \<Longrightarrow> key (xs ! i) \<le> key (xs ! j)"
  using strict_keys_nth[of key xs i j] by (cases "i = j") auto

lemma strict_keys_iff_nth_Suc:
  "strict_keys key xs \<longleftrightarrow> (\<forall>i. Suc i < length xs \<longrightarrow> key (xs ! i) < key (xs ! Suc i))"
  by (simp add: strict_keys_def sorted_wrt_iff_nth_Suc_transp)

lemma strict_keys_filter: "strict_keys key xs \<Longrightarrow> strict_keys key (filter p xs)"
  by (induction xs) (auto simp: strict_keys_Cons)

lemma strict_keys_map: "strict_keys key (map f xs) \<longleftrightarrow> strict_keys (\<lambda>x. key (f x)) xs"
  by (simp add: strict_keys_def comp_def)

lemma strict_keys_sorted_list_of_set [simp]: "strict_keys (\<lambda>x. x) (sorted_list_of_set A)"
  by (simp add: strict_keys_def)

lemma strict_keys_unique:
  fixes key :: "'a \<Rightarrow> 'k::linorder"
  assumes "strict_keys key xs" and "strict_keys key ys" and "set xs = set ys"
  shows "xs = ys"
  using assms
proof (induction xs arbitrary: ys)
  case Nil
  then show ?case by simp
next
  case (Cons x xs)
  then obtain y ys' where ys: "ys = y # ys'"
    by (cases ys) auto
  have "x = y"
  proof (rule ccontr)
    assume "x \<noteq> y"
    then have "x \<in> set ys'" and "y \<in> set xs" using Cons.prems(3) ys by auto
    then have "key y < key x" and "key x < key y"
      using Cons.prems(1,2) ys by (auto simp: strict_keys_Cons)
    then show False by simp
  qed
  moreover have "x \<notin> set xs" and "y \<notin> set ys'"
    using Cons.prems(1,2) ys by (auto simp: strict_keys_Cons)
  then have "set xs = set ys'"
    using Cons.prems(3) ys \<open>x = y\<close> by auto
  then have "xs = ys'"
    using Cons.IH Cons.prems(1,2) ys by (simp add: strict_keys_Cons)
  ultimately show ?case using ys by simp
qed

text \<open>
  The lookup idiom of the code: \<^verbatim>\<open>i := sort.Search(len(xs), func(i int) bool { return xs[i].Key >= k })\<close>
  followed by a test that \<open>i\<close> is in range and its key is \<open>k\<close>.
\<close>

definition search_key :: "('a \<Rightarrow> 'k::linorder) \<Rightarrow> 'a list \<Rightarrow> 'k \<Rightarrow> nat" where
  "search_key key xs k = sort_Search (length xs) (\<lambda>i. k \<le> key (xs ! i))"

definition lookup_key :: "('a \<Rightarrow> 'k::linorder) \<Rightarrow> 'a list \<Rightarrow> 'k \<Rightarrow> 'a option" where
  "lookup_key key xs k =
     (let i = search_key key xs k in
      if i = length xs \<or> key (xs ! i) \<noteq> k then None else Some (xs ! i))"

text \<open>The map a keyed slice stands for.\<close>

definition map_by :: "('a \<Rightarrow> 'k) \<Rightarrow> 'a list \<Rightarrow> 'k \<rightharpoonup> 'a" where
  "map_by key xs = map_of (map (\<lambda>x. (key x, x)) xs)"

lemma map_by_simps [simp]:
  "map_by key [] = Map.empty"
  "map_by key (x # xs) = (map_by key xs)(key x \<mapsto> x)"
  by (simp_all add: map_by_def)

lemma map_by_append: "map_by key (xs @ ys) = map_by key ys ++ map_by key xs"
  by (simp add: map_by_def)

lemma dom_map_by: "dom (map_by key xs) = key ` set xs"
  by (simp add: map_by_def dom_map_of_conv_image_fst image_image)

lemma map_by_SomeD: "map_by key xs k = Some x \<Longrightarrow> x \<in> set xs \<and> key x = k"
  by (auto simp: map_by_def dest!: map_of_SomeD)

lemma map_by_eq_None_iff: "map_by key xs k = None \<longleftrightarrow> k \<notin> key ` set xs"
  by (metis domIff dom_map_by)

lemma map_by_eq_Some_iff:
  "strict_keys key xs \<Longrightarrow> map_by key xs k = Some x \<longleftrightarrow> x \<in> set xs \<and> key x = k"
  by (auto simp: map_by_def map_of_eq_Some_iff strict_keys_distinct comp_def)

lemma map_by_perm:
  assumes "distinct (map key xs)" and "distinct (map key ys)" and "set xs = set ys"
  shows "map_by key xs = map_by key ys"
proof
  fix k
  have "map_by key xs k = Some z \<longleftrightarrow> map_by key ys k = Some z" for z
    using assms map_of_eq_Some_iff[of "map (\<lambda>x. (key x, x)) xs" k z]
      map_of_eq_Some_iff[of "map (\<lambda>x. (key x, x)) ys" k z] by (simp add: map_by_def comp_def)
  then show "map_by key xs k = map_by key ys k" by (metis option.exhaust)
qed

lemma map_by_rev: "distinct (map key xs) \<Longrightarrow> map_by key (rev xs) = map_by key xs"
  by (rule map_by_perm) (simp_all add: rev_map[symmetric])

lemma map_by_map_keys:
  "(\<And>k. k \<in> set ks \<Longrightarrow> key (f k) = k) \<Longrightarrow>
   map_by key (map f ks) k = (if k \<in> set ks then Some (f k) else None)"
  by (induction ks) auto

lemma search_key_spec:
  assumes "strict_keys key xs"
  shows "search_key key xs k \<le> length xs"
    and "i < search_key key xs k \<Longrightarrow> key (xs ! i) < k"
    and "search_key key xs k \<le> i \<Longrightarrow> i < length xs \<Longrightarrow> k \<le> key (xs ! i)"
proof -
  have mono: "a \<le> b \<Longrightarrow> b < length xs \<Longrightarrow> k \<le> key (xs ! a) \<Longrightarrow> k \<le> key (xs ! b)" for a b
    using strict_keys_nth_le[OF assms] by (meson order_trans)
  note spec = sort_Search_spec[of "length xs" "\<lambda>i. k \<le> key (xs ! i)", OF mono]
  show "search_key key xs k \<le> length xs" by (simp add: search_key_def spec(1))
  show "i < search_key key xs k \<Longrightarrow> key (xs ! i) < k"
    unfolding search_key_def by (drule spec(2)[rotated 3]) (auto simp: not_le)
  show "search_key key xs k \<le> i \<Longrightarrow> i < length xs \<Longrightarrow> k \<le> key (xs ! i)"
    unfolding search_key_def by (rule spec(3))
qed

lemma search_key_take:
  "strict_keys key xs \<Longrightarrow> x \<in> set (take (search_key key xs k) xs) \<Longrightarrow> key x < k"
  using search_key_spec(2)[of key xs] by (auto simp: in_set_conv_nth)

lemma search_key_drop:
  assumes "strict_keys key xs" and "x \<in> set (drop (search_key key xs k) xs)"
  shows "k \<le> key x"
proof -
  obtain j where "j < length xs - search_key key xs k" and "x = xs ! (search_key key xs k + j)"
    using assms(2) search_key_spec(1)[OF assms(1)] by (auto simp: in_set_conv_nth)
  then show ?thesis
    using search_key_spec(3)[OF assms(1), of k "search_key key xs k + j"] by simp
qed

lemma search_key_hit_unique:
  assumes "strict_keys key xs" and "i < length xs" and "key (xs ! i) = k"
  shows "search_key key xs k = i"
proof -
  have "\<not> i < search_key key xs k"
    using search_key_spec(2)[OF assms(1), of i k] assms(3) by auto
  moreover have "\<not> search_key key xs k < i"
    using search_key_spec(3)[OF assms(1), of k "search_key key xs k"]
      strict_keys_nth[OF assms(1), of "search_key key xs k" i] assms(2,3) by auto
  ultimately show ?thesis by simp
qed

theorem lookup_key_map_by:
  assumes "strict_keys key xs"
  shows "lookup_key key xs k = map_by key xs k"
proof (cases "k \<in> key ` set xs")
  case True
  then obtain i where i: "i < length xs" "key (xs ! i) = k"
    by (auto simp: in_set_conv_nth)
  then have "search_key key xs k = i"
    by (rule search_key_hit_unique[OF assms])
  with i have "lookup_key key xs k = Some (xs ! i)"
    by (simp add: lookup_key_def)
  moreover have "map_by key xs k = Some (xs ! i)"
    using i assms by (simp add: map_by_eq_Some_iff)
  ultimately show ?thesis by simp
next
  case False
  then have "i < length xs \<Longrightarrow> key (xs ! i) \<noteq> k" for i
    using nth_mem by blast
  then have "lookup_key key xs k = None"
    using search_key_spec(1)[OF assms, of k] by (auto simp: lookup_key_def Let_def le_less)
  then show ?thesis
    using False map_by_eq_None_iff[of key xs k] by simp
qed

lemma lookup_key_eq_Some_iff:
  "strict_keys key xs \<Longrightarrow> lookup_key key xs k = Some x \<longleftrightarrow> x \<in> set xs \<and> key x = k"
  by (simp add: lookup_key_map_by map_by_eq_Some_iff)

lemma lookup_key_eq_None_iff:
  "strict_keys key xs \<Longrightarrow> lookup_key key xs k = None \<longleftrightarrow> k \<notin> key ` set xs"
  by (simp add: lookup_key_map_by map_by_eq_None_iff)

section \<open>Edits at the search position\<close>

definition insert_at :: "nat \<Rightarrow> 'a \<Rightarrow> 'a list \<Rightarrow> 'a list" where
  "insert_at i x xs = take i xs @ x # drop i xs"

definition delete_at :: "nat \<Rightarrow> 'a list \<Rightarrow> 'a list" where
  "delete_at i xs = take i xs @ drop (Suc i) xs"

lemma delete_insert_at: "i \<le> length xs \<Longrightarrow> delete_at i (insert_at i x xs) = xs"
  by (simp add: insert_at_def delete_at_def min_def)

lemma insert_delete_at: "i < length xs \<Longrightarrow> insert_at i (xs ! i) (delete_at i xs) = xs"
  by (simp add: insert_at_def delete_at_def min_def id_take_nth_drop[symmetric])

lemma map_insert_at: "map f (insert_at i x xs) = insert_at i (f x) (map f xs)"
  by (simp add: insert_at_def take_map drop_map)

lemma map_delete_at: "map f (delete_at i xs) = delete_at i (map f xs)"
  by (simp add: delete_at_def take_map drop_map)

lemma length_insert_at [simp]: "length (insert_at i x xs) = Suc (length xs)"
  by (simp add: insert_at_def)

lemma search_loop_le: "i \<le> j \<Longrightarrow> search_loop f i j \<le> j"
proof (induction f i j rule: search_loop.induct)
  case (1 f i j)
  show ?case
  proof (cases "i < j")
    case True
    let ?h = "(i + j) div 2"
    have "i \<le> ?h" "?h < j" using True by auto
    then show ?thesis
      using "1.IH"(1)[OF True refl] "1.IH"(2)[OF True refl] True
      by (subst search_loop.simps) (auto simp: Let_def)
  next
    case False
    then show ?thesis using "1.prems" by (subst search_loop.simps) simp
  qed
qed

lemma search_key_le [simp]: "search_key key xs k \<le> length xs"
  by (simp add: search_key_def sort_Search_def search_loop_le)

text \<open>The slot a key is found at, and the list split around it.\<close>

definition found_at :: "('a \<Rightarrow> 'k::linorder) \<Rightarrow> 'a list \<Rightarrow> 'k \<Rightarrow> nat \<Rightarrow> bool" where
  "found_at key xs k i \<longleftrightarrow> i < length xs \<and> key (xs ! i) = k"

lemma strict_keys_split:
  assumes "strict_keys key xs" and i_def: "i = search_key key xs k"
  shows "\<forall>x \<in> set (take i xs). key x < k"
    and "found_at key xs k i \<Longrightarrow> \<forall>x \<in> set (drop (Suc i) xs). k < key x"
    and "\<not> found_at key xs k i \<Longrightarrow> \<forall>x \<in> set (drop i xs). k < key x"
proof -
  show "\<forall>x \<in> set (take i xs). key x < k"
    using search_key_take[OF assms(1)] by (auto simp: i_def)
  have strict: "strict_keys key (drop i xs)"
    using assms(1) by (metis append_take_drop_id strict_keys_append)
  show "\<forall>x \<in> set (drop (Suc i) xs). k < key x" if "found_at key xs k i"
    using strict that by (auto simp: found_at_def strict_keys_Cons simp flip: Cons_nth_drop_Suc)
  show "\<forall>x \<in> set (drop i xs). k < key x" if no: "\<not> found_at key xs k i"
  proof
    fix x assume x: "x \<in> set (drop i xs)"
    then have i: "i < length xs" by (cases "i < length xs") auto
    then have "k < key (xs ! i)"
      using no search_key_spec(3)[OF assms(1), of k i] by (auto simp: found_at_def i_def)
    then show "k < key x"
      using x i strict by (auto simp: strict_keys_Cons simp flip: Cons_nth_drop_Suc)
  qed
qed

lemma map_by_eqI: "(\<And>x. x \<in> set xs \<Longrightarrow> key x \<noteq> k) \<Longrightarrow> map_by key xs k = None"
  by (auto simp: map_by_eq_None_iff)

lemma insert_at_strict:
  assumes "strict_keys key xs" and "\<not> found_at key xs (key x) (search_key key xs (key x))"
  shows "strict_keys key (insert_at (search_key key xs (key x)) x xs)"
    and "map_by key (insert_at (search_key key xs (key x)) x xs) = (map_by key xs)(key x \<mapsto> x)"
proof -
  let ?i = "search_key key xs (key x)"
  have xs: "xs = take ?i xs @ drop ?i xs" by simp
  note split = strict_keys_split(1,3)[OF assms(1) refl, of "key x"]
  have parts: "strict_keys key (take ?i xs)" "strict_keys key (drop ?i xs)"
    using assms(1) strict_keys_append[of key "take ?i xs" "drop ?i xs"] by auto
  show "strict_keys key (insert_at ?i x xs)"
    using parts split assms(2)
    by (fastforce simp: insert_at_def strict_keys_append strict_keys_Cons)
  have none: "map_by key (take ?i xs) (key x) = None"
    using split(1) by (intro map_by_eqI) auto
  have "map_by key xs = map_by key (drop ?i xs) ++ map_by key (take ?i xs)"
    by (metis xs map_by_append)
  then show "map_by key (insert_at ?i x xs) = (map_by key xs)(key x \<mapsto> x)"
    using none by (auto simp: insert_at_def map_by_append fun_eq_iff map_add_def split: option.split)
qed

lemma update_at_strict:
  assumes "strict_keys key xs" and "found_at key xs (key x) (search_key key xs (key x))"
  shows "strict_keys key (xs[search_key key xs (key x) := x])"
    and "map_by key (xs[search_key key xs (key x) := x]) = (map_by key xs)(key x \<mapsto> x)"
proof -
  let ?i = "search_key key xs (key x)"
  have i: "?i < length xs" "key (xs ! ?i) = key x" using assms(2) by (auto simp: found_at_def)
  have keys: "map key (xs[?i := x]) = map key xs"
    using i by (simp add: map_update list_update_same_conv)
  show strict: "strict_keys key (xs[?i := x])"
    using assms(1) keys by (simp add: strict_keys_def)
  show "map_by key (xs[?i := x]) = (map_by key xs)(key x \<mapsto> x)"
  proof
    fix k
    show "map_by key (xs[?i := x]) k = ((map_by key xs)(key x \<mapsto> x)) k"
    proof (cases "k = key x")
      case True
      then show ?thesis
        using i strict by (simp add: map_by_eq_Some_iff set_update_memI)
    next
      case False
      have "y \<in> set (xs[?i := x]) \<and> key y = k \<longleftrightarrow> y \<in> set xs \<and> key y = k" for y
        using i False by (auto simp: in_set_conv_nth nth_list_update) metis+
      then have "map_by key (xs[?i := x]) k = Some y \<longleftrightarrow> map_by key xs k = Some y" for y
        using assms(1) strict by (simp add: map_by_eq_Some_iff)
      then show ?thesis using False by (metis fun_upd_other option.exhaust)
    qed
  qed
qed

lemma delete_at_strict:
  assumes "strict_keys key xs" and "found_at key xs k (search_key key xs k)"
  shows "strict_keys key (delete_at (search_key key xs k) xs)"
    and "map_by key (delete_at (search_key key xs k) xs) = (map_by key xs)(k := None)"
proof -
  let ?i = "search_key key xs k"
  have i: "?i < length xs" "key (xs ! ?i) = k" using assms(2) by (auto simp: found_at_def)
  note split = strict_keys_split(1,2)[OF assms(1) refl, of k]
  have xs: "xs = take ?i xs @ xs ! ?i # drop (Suc ?i) xs" using i by (simp add: id_take_nth_drop)
  then have parts: "strict_keys key (take ?i xs)" "strict_keys key (drop (Suc ?i) xs)"
    using assms(1) strict_keys_append[of key "take ?i xs" "xs ! ?i # drop (Suc ?i) xs"]
    by (auto simp: strict_keys_Cons)
  show strict: "strict_keys key (delete_at ?i xs)"
    using parts split assms(2) by (fastforce simp: delete_at_def strict_keys_append)
  have none: "map_by key (take ?i xs) k = None" "map_by key (drop (Suc ?i) xs) k = None"
    using split assms(2) by (auto intro!: map_by_eqI)
  have "map_by key xs = (map_by key (drop (Suc ?i) xs))(k \<mapsto> xs ! ?i) ++ map_by key (take ?i xs)"
    by (metis i(2) map_by_append map_by_simps(2) xs)
  then show "map_by key (delete_at ?i xs) = (map_by key xs)(k := None)"
    using none by (auto simp: delete_at_def map_by_append fun_eq_iff map_add_def split: option.split)
qed

end
