(* ===== verification/Go_Std.thy ===== *)
theory Go_Std
  imports Prelude
begin

text \<open>
  The parts of Go's standard library the producer calls, modelled as they compute:
  \<^verbatim>\<open>filepath.Clean\<close> (on Unix, where the separator is the slash), \<^verbatim>\<open>binary.AppendUvarint\<close> and
  \<^verbatim>\<open>binary.Uvarint\<close>, \<^verbatim>\<open>utf8.ValidString\<close> and \<^verbatim>\<open>strings.ToValidUTF8\<close>, and the conversions between
  \<^verbatim>\<open>int\<close> and \<^verbatim>\<open>uint64\<close>. Go's \<^verbatim>\<open>int\<close> is HOL's \<^typ>\<open>int\<close>, its \<^verbatim>\<open>uint64\<close> a 64-bit word; a Go
  \<^verbatim>\<open>string\<close> is a list of bytes, HOL's \<^typ>\<open>string\<close>, ordered bytewise.
\<close>

unbundle bit_operations_syntax

section \<open>filepath.Clean\<close>

abbreviation slash :: char where "slash \<equiv> CHR ''/''"
abbreviation dot :: string where "dot \<equiv> ''.''"
abbreviation dotdot :: string where "dotdot \<equiv> ''..''"

fun split_path :: "string \<Rightarrow> string list" where
  "split_path [] = [[]]"
| "split_path (c # cs) =
     (if c = slash then [] # split_path cs
      else (case split_path cs of [] \<Rightarrow> [[c]] | x # xs \<Rightarrow> (c # x) # xs))"

fun join_path :: "string list \<Rightarrow> string" where
  "join_path [] = []"
| "join_path [x] = x"
| "join_path (x # y # xs) = x @ slash # join_path (y # xs)"

text \<open>
  The output buffer of \<^verbatim>\<open>filepath.Clean\<close> as a stack of path elements, innermost first: empty and
  dot elements are dropped, a dot-dot element removes the innermost real element, and is kept only
  at the front of a path that is not rooted.
\<close>

definition clean_step :: "bool \<Rightarrow> string list \<Rightarrow> string \<Rightarrow> string list" where
  "clean_step rooted out e =
     (if e = [] \<or> e = dot then out
      else if e = dotdot then
        (case out of [] \<Rightarrow> if rooted then [] else [dotdot]
         | x # rest \<Rightarrow> if x = dotdot then dotdot # out else rest)
      else e # out)"

definition Clean :: "string \<Rightarrow> string" where
  "Clean path =
     (if path = [] then dot
      else let rooted = (hd path = slash);
               body = join_path (rev (foldl (clean_step rooted) [] (split_path path)))
           in if rooted then slash # body else if body = [] then dot else body)"

text \<open>A stack in the shape that cleaning produces: real elements above leading dot-dots.\<close>

definition real_element :: "string \<Rightarrow> bool" where
  "real_element e \<longleftrightarrow> e \<noteq> [] \<and> e \<noteq> dot \<and> e \<noteq> dotdot \<and> slash \<notin> set e"

fun clean_stack :: "bool \<Rightarrow> string list \<Rightarrow> bool" where
  "clean_stack rooted [] = True"
| "clean_stack rooted (x # xs) =
     (if x = dotdot then \<not> rooted \<and> set xs \<subseteq> {dotdot}
      else real_element x \<and> clean_stack rooted xs)"

lemma clean_stack_dotdots: "\<not> rooted \<Longrightarrow> set xs \<subseteq> {dotdot} \<Longrightarrow> clean_stack rooted xs"
  by (induction xs) auto

lemma clean_step_stack:
  assumes "clean_stack rooted out" and "slash \<notin> set e"
  shows "clean_stack rooted (clean_step rooted out e)"
proof (cases out)
  case Nil
  then show ?thesis using assms by (auto simp: clean_step_def real_element_def)
next
  case (Cons x xs)
  then show ?thesis
    using assms clean_stack_dotdots[of rooted xs]
    by (auto simp: clean_step_def real_element_def split: if_splits)
qed

lemma split_path_no_slash: "e \<in> set (split_path p) \<Longrightarrow> slash \<notin> set e"
  by (induction p arbitrary: e) (auto split: if_splits list.splits)

lemma split_path_nonempty [simp]: "split_path p \<noteq> []"
  by (induction p) (auto split: list.splits)

lemma foldl_clean_stack:
  "clean_stack rooted out \<Longrightarrow> (\<And>e. e \<in> set es \<Longrightarrow> slash \<notin> set e) \<Longrightarrow>
     clean_stack rooted (foldl (clean_step rooted) out es)"
  by (induction es arbitrary: out) (auto simp: clean_step_stack)

lemma clean_stack_elements:
  "clean_stack rooted out \<Longrightarrow> e \<in> set out \<Longrightarrow> e \<noteq> [] \<and> e \<noteq> dot \<and> slash \<notin> set e"
  by (induction out) (auto simp: real_element_def split: if_splits)

lemma foldl_clean_rev: "clean_stack rooted out \<Longrightarrow> foldl (clean_step rooted) [] (rev out) = out"
proof (induction out)
  case Nil
  then show ?case by simp
next
  case (Cons x xs)
  have "clean_stack rooted xs"
    using Cons.prems clean_stack_dotdots[of rooted xs] by (auto split: if_splits)
  then have "foldl (clean_step rooted) [] (rev (x # xs)) = clean_step rooted xs x"
    using Cons.IH by simp
  also have "\<dots> = x # xs"
    using Cons.prems by (cases xs) (auto simp: clean_step_def real_element_def split: if_splits)
  finally show ?case .
qed

lemma split_path_append_slash:
  "slash \<notin> set e \<Longrightarrow> split_path (e @ slash # s) = e # split_path s"
  by (induction e) auto

lemma split_path_single: "slash \<notin> set e \<Longrightarrow> split_path e = [e]"
  by (induction e) auto

lemma split_join_path:
  "es \<noteq> [] \<Longrightarrow> (\<And>e. e \<in> set es \<Longrightarrow> slash \<notin> set e) \<Longrightarrow> split_path (join_path es) = es"
  by (induction es rule: join_path.induct) (auto simp: split_path_append_slash split_path_single)

lemma hd_join_path: "es \<noteq> [] \<Longrightarrow> hd es \<noteq> [] \<Longrightarrow> hd (join_path es) = hd (hd es)"
  by (cases es rule: join_path.cases) auto

lemma join_path_eq_Nil: "(\<And>e. e \<in> set es \<Longrightarrow> e \<noteq> []) \<Longrightarrow> join_path es = [] \<longleftrightarrow> es = []"
  by (cases es rule: join_path.cases) auto

text \<open>The path a clean stack stands for.\<close>

definition render_path :: "bool \<Rightarrow> string list \<Rightarrow> string" where
  "render_path rooted out =
     (if rooted then slash # join_path (rev out)
      else if join_path (rev out) = [] then dot else join_path (rev out))"

lemma Clean_render_path:
  assumes "clean_stack rooted out"
  shows "Clean (render_path rooted out) = render_path rooted out"
proof (cases "out = []")
  case True
  then show ?thesis
    by (cases rooted) (simp_all add: render_path_def Clean_def clean_step_def Let_def)
next
  case False
  let ?j = "join_path (rev out)"
  note el = clean_stack_elements[OF assms]
  have split: "split_path ?j = rev out"
    using False el by (intro split_join_path) auto
  have fold: "foldl (clean_step rooted) [] (split_path ?j) = out"
    by (simp add: split foldl_clean_rev[OF assms])
  have ne: "?j \<noteq> []"
    using False el join_path_eq_Nil[of "rev out"] by auto
  have "last out \<in> set out" using False by simp
  then have "hd (rev out) \<noteq> []" and "slash \<notin> set (hd (rev out))"
    using el[of "last out"] by (simp_all add: hd_rev)
  then have hd: "hd ?j \<noteq> slash"
    using False hd_join_path[of "rev out"] by (cases "hd (rev out)") auto
  have skip: "clean_step rooted [] [] = []"
    by (simp add: clean_step_def)
  show ?thesis
  proof (cases rooted)
    case True
    then show ?thesis
      using fold skip by (simp add: render_path_def Clean_def Let_def)
  next
    case False
    then show ?thesis
      using fold ne hd by (simp add: render_path_def Clean_def Let_def)
  qed
qed

lemma Clean_eq_render_path:
  obtains rooted out where "clean_stack rooted out" and "Clean p = render_path rooted out"
proof (cases "p = []")
  case True
  then show ?thesis using that[of False "[]"] by (simp add: Clean_def render_path_def)
next
  case False
  let ?out = "foldl (clean_step (hd p = slash)) [] (split_path p)"
  have "clean_stack (hd p = slash) ?out"
    by (rule foldl_clean_stack) (auto dest: split_path_no_slash)
  moreover have "Clean p = render_path (hd p = slash) ?out"
    using False by (simp add: Clean_def render_path_def Let_def)
  ultimately show ?thesis by (rule that)
qed

lemma Clean_idem [simp]: "Clean (Clean p) = Clean p"
  by (metis Clean_eq_render_path Clean_render_path)

lemma Clean_nonempty [simp]: "Clean p \<noteq> []"
  by (auto simp: Clean_def Let_def)

section \<open>Unsigned varints\<close>

text \<open>\<^verbatim>\<open>binary.AppendUvarint\<close>: seven bits per byte, low bits first, the high bit set on all but the last.\<close>

lemma drop_bit_7_less: "\<not> v < 0x80 \<Longrightarrow> unat (drop_bit 7 (v::u64)) < unat v"
proof -
  assume "\<not> v < 0x80"
  then have "0 < unat v" by (simp add: word_le_nat_alt not_less)
  then show ?thesis by (simp add: drop_bit_eq_div unat_div)
qed

function AppendUvarint :: "u64 \<Rightarrow> bytes" where
  "AppendUvarint v =
     (if v < 0x80 then [ucast v] else ucast (v OR 0x80) # AppendUvarint (drop_bit 7 v))"
  by pat_completeness auto
termination
  by (relation "measure unat") (auto simp: drop_bit_7_less)

declare AppendUvarint.simps [simp del]

text \<open>
  \<^verbatim>\<open>binary.Uvarint\<close>: \<open>i\<close> is the index of the next byte, \<open>x\<close> the value so far. The result is
  the value with the rest of the input, or the reason the Go function reports by a count of zero
  (truncated input) or below zero (more than 64 bits).
\<close>

datatype varint_error = Truncated | Overflow

fun uvarint_loop :: "nat \<Rightarrow> u64 \<Rightarrow> bytes \<Rightarrow> varint_error + (u64 \<times> bytes)" where
  "uvarint_loop i x [] = Inl Truncated"
| "uvarint_loop i x (b # bs) =
     (if i = 10 then Inl Overflow
      else if b < 0x80 then
        (if i = 9 \<and> b > 1 then Inl Overflow else Inr (x OR push_bit (7 * i) (ucast b), bs))
      else uvarint_loop (Suc i) (x OR push_bit (7 * i) (ucast (b AND 0x7f))) bs)"

definition Uvarint :: "bytes \<Rightarrow> varint_error + (u64 \<times> bytes)" where
  "Uvarint bs = uvarint_loop 0 0 bs"

lemma u8_less_0x80_iff: "(b::u8) < 0x80 \<longleftrightarrow> \<not> bit b 7"
proof -
  have "unat b < 2 ^ LENGTH(8)" by (rule unsigned_less)
  then have "unat b < 256" by simp
  then have "unat b div 128 = (if unat b < 128 then 0 else 1)"
    by (auto intro!: div_nat_eqI)
  then have "odd (unat b div 128) \<longleftrightarrow> \<not> unat b < 128" by simp
  moreover have "bit (unat b) 7 \<longleftrightarrow> odd (unat b div 2 ^ 7)"
    by (rule bit_iff_odd)
  moreover have "bit (unat b) 7 \<longleftrightarrow> bit b 7"
    by (simp add: bit_unsigned_iff)
  ultimately show ?thesis by (simp add: word_less_nat_alt)
qed

lemma bit_0x80: "bit (0x80::'a::len word) n \<longleftrightarrow> n = 7 \<and> 7 < LENGTH('a)"
  using bit_exp_iff[where 'a="'a word", of 7 n] by (auto simp: possible_bit_word)

lemma bit_128_int: "bit (128::int) n \<longleftrightarrow> n = 7"
  using bit_exp_iff[where 'a=int, of 7 n] by auto

lemma and_0x7f_take_bit: "(b::u8) AND 0x7f = take_bit 7 b"
  by (simp add: take_bit_eq_mask mask_eq_exp_minus_1)

lemma uvarint_high_bit: "\<not> (ucast ((v::u64) OR 0x80) :: u8) < 0x80"
  by (simp add: u8_less_0x80_iff bit_0x80 bit_simps)

lemma uvarint_low_bits: "ucast ((ucast ((v::u64) OR 0x80) :: u8) AND 0x7f) = take_bit 7 v"
  unfolding and_0x7f_take_bit by (intro bit_word_eqI) (auto simp: bit_simps bit_0x80 bit_128_int)

lemma push_bit_split7:
  "x OR push_bit s (take_bit 7 v) OR push_bit (s + 7) (drop_bit 7 v) = x OR push_bit s (v::u64)"
proof (rule bit_word_eqI)
  fix n assume "n < LENGTH(64)"
  show "bit (x OR push_bit s (take_bit 7 v) OR push_bit (s + 7) (drop_bit 7 v)) n =
    bit (x OR push_bit s v) n"
  proof (cases "s + 7 \<le> n")
    case True
    then have "7 + (n - (s + 7)) = n - s" by simp
    with True show ?thesis by (auto simp: bit_simps)
  next
    case False
    then show ?thesis by (auto simp: bit_simps)
  qed
qed

lemma ucast_small_u8: "(v::u64) < 0x80 \<Longrightarrow> ucast (ucast v :: u8) = v \<and> unat (ucast v :: u8) = unat v"
proof -
  assume "v < 0x80"
  then have "unat (ucast v :: u8) = unat v"
    by (simp add: word_less_nat_alt unsigned_ucast_eq take_bit_nat_eq_self)
  then show ?thesis
    by (simp add: unsigned_ucast_eq unsigned_take_bit_eq word_eq_iff_unsigned[where 'a=nat])
qed

lemma uvarint_loop_append:
  assumes "i \<le> 9" and "unat v < 2 ^ (64 - 7 * i)"
  shows "uvarint_loop i x (AppendUvarint v @ rest) = Inr (x OR push_bit (7 * i) v, rest)"
  using assms
proof (induction v arbitrary: i x rule: AppendUvarint.induct)
  case (1 v)
  show ?case
  proof (cases "v < 0x80")
    case True
    have "\<not> (i = 9 \<and> 1 < (ucast v :: u8))"
      using "1.prems" ucast_small_u8[OF True] by (auto simp: word_less_nat_alt)
    moreover have "(ucast v :: u8) < 0x80"
      using True ucast_small_u8[OF True] by (simp add: word_less_nat_alt)
    ultimately show ?thesis
      using True "1.prems"(1) ucast_small_u8[OF True] by (simp add: AppendUvarint.simps[of v])
  next
    case False
    then have big: "128 \<le> unat v" by (simp add: word_le_nat_alt not_less)
    have "i \<noteq> 9" using big "1.prems"(2) by auto
    then have i: "i \<le> 8" using "1.prems"(1) by simp
    have "unat (drop_bit 7 v) = unat v div 2 ^ 7"
      by (simp add: drop_bit_eq_div unat_div)
    moreover have "(2::nat) ^ (64 - 7 * i) = 2 ^ 7 * 2 ^ (64 - 7 * Suc i)"
    proof -
      have "64 - 7 * i = 7 + (64 - 7 * Suc i)" using i by simp
      then show ?thesis by (simp only: power_add)
    qed
    ultimately have "unat (drop_bit 7 v) < 2 ^ (64 - 7 * Suc i)"
      using "1.prems"(2) by (simp add: less_mult_imp_div_less mult.commute)
    then have "uvarint_loop (Suc i) y (AppendUvarint (drop_bit 7 v) @ rest) =
      Inr (y OR push_bit (7 * Suc i) (drop_bit 7 v), rest)" for y
      using i by (intro "1.IH"[OF False]) auto
    then show ?thesis
      using False i uvarint_high_bit[of v] push_bit_split7[of x "7 * i" v]
      by (simp add: AppendUvarint.simps[of v] uvarint_low_bits or.assoc add.commute)
  qed
qed

lemma Uvarint_AppendUvarint [codec_simps]: "Uvarint (AppendUvarint v @ rest) = Inr (v, rest)"
  using uvarint_loop_append[of 0 v 0 rest] unsigned_less[of v, where 'a=nat]
  by (simp add: Uvarint_def)

lemma AppendUvarint_nonempty [simp]: "AppendUvarint v \<noteq> []"
  by (subst AppendUvarint.simps) simp

lemma uvarint_loop_shorter: "uvarint_loop i x bs = Inr (v, rest) \<Longrightarrow> length rest < length bs"
  by (induction i x bs rule: uvarint_loop.induct) (auto split: if_splits)

lemma Uvarint_shorter: "Uvarint bs = Inr (v, rest) \<Longrightarrow> length rest < length bs"
  by (simp add: Uvarint_def uvarint_loop_shorter)

section \<open>UTF-8\<close>

definition code_of :: "char \<Rightarrow> nat" where
  "code_of c = of_char c"

definition in_range :: "nat \<Rightarrow> nat \<Rightarrow> char \<Rightarrow> bool" where
  "in_range lo hi c \<longleftrightarrow> lo \<le> code_of c \<and> code_of c \<le> hi"

text \<open>
  The length of the encoded rune at the head of a string, by the first-byte table and accept ranges
  of \<^verbatim>\<open>unicode/utf8\<close>; zero where no well-formed rune starts.
\<close>

definition rune_size :: "char \<Rightarrow> nat" where
  "rune_size a =
     (if code_of a < 0x80 then 1
      else if in_range 0xC2 0xDF a then 2
      else if in_range 0xE0 0xEF a then 3
      else if in_range 0xF0 0xF4 a then 4
      else 0)"

definition accept_low :: "char \<Rightarrow> nat" where
  "accept_low a = (if code_of a = 0xE0 then 0xA0 else if code_of a = 0xF0 then 0x90 else 0x80)"

definition accept_high :: "char \<Rightarrow> nat" where
  "accept_high a = (if code_of a = 0xED then 0x9F else if code_of a = 0xF4 then 0x8F else 0xBF)"

fun accept_tail :: "char \<Rightarrow> string \<Rightarrow> bool" where
  "accept_tail a [] = True"
| "accept_tail a (b # cs) =
     (in_range (accept_low a) (accept_high a) b \<and> list_all (in_range 0x80 0xBF) cs)"

fun rune_len :: "string \<Rightarrow> nat" where
  "rune_len [] = 0"
| "rune_len (a # s) =
     (let n = rune_size a in
      if 0 < n \<and> n \<le> Suc (length s) \<and> accept_tail a (take (n - 1) s) then n else 0)"

lemma rune_len_le: "rune_len s \<le> length s"
  by (cases s) (auto simp: Let_def)

lemma rune_len_take: "0 < rune_len s \<Longrightarrow> rune_len (take (rune_len s) s @ t) = rune_len s"
proof (cases s)
  case (Cons a u)
  assume "0 < rune_len s"
  then have n: "rune_len s = rune_size a" "0 < rune_size a" "rune_size a \<le> Suc (length u)"
    "accept_tail a (take (rune_size a - 1) u)"
    using Cons by (auto simp: Let_def split: if_splits)
  then obtain m where m: "rune_size a = Suc m" by (cases "rune_size a") auto
  have "take (rune_len s) s @ t = a # (take m u @ t)"
    using n m Cons by simp
  moreover have "take m (take m u @ t) = take m u"
    using n m by simp
  ultimately show ?thesis
    using n m by simp
qed simp

function ValidString :: "string \<Rightarrow> bool" where
  "ValidString s =
     (if s = [] then True
      else if 0 < rune_len s then ValidString (drop (rune_len s) s) else False)"
  by pat_completeness auto
termination
proof (relation "measure length")
  fix s :: string
  assume "\<not> s = []" and "0 < rune_len s"
  then show "(drop (rune_len s) s, s) \<in> measure length" by (cases s) auto
qed simp

declare ValidString.simps [simp del]

text \<open>\<^verbatim>\<open>strings.ToValidUTF8\<close>: every maximal run of bytes that start no rune becomes one replacement.\<close>

definition replacement_rune :: string where
  "replacement_rune = [char_of (0xEF::nat), char_of (0xBF::nat), char_of (0xBD::nat)]"

function to_valid_loop :: "bool \<Rightarrow> string \<Rightarrow> string" where
  "to_valid_loop invalid s =
     (if s = [] then []
      else if 0 < rune_len s then take (rune_len s) s @ to_valid_loop False (drop (rune_len s) s)
      else (if invalid then [] else replacement_rune) @ to_valid_loop True (tl s))"
  by pat_completeness auto
termination
proof (relation "measure (\<lambda>(i, s). length s)")
  fix invalid and s :: string
  assume "\<not> s = []"
  then show "0 < rune_len s \<Longrightarrow> ((False, drop (rune_len s) s), invalid, s) \<in> measure (\<lambda>(i, s). length s)"
    and "\<not> 0 < rune_len s \<Longrightarrow> ((True, tl s), invalid, s) \<in> measure (\<lambda>(i, s). length s)"
    by (cases s; simp)+
qed simp

declare to_valid_loop.simps [simp del]

definition ToValidUTF8 :: "string \<Rightarrow> string" where
  "ToValidUTF8 s = to_valid_loop False s"

lemma ValidString_rune_append:
  "0 < rune_len s \<Longrightarrow> ValidString t \<Longrightarrow> ValidString (take (rune_len s) s @ t)"
  using rune_len_take[of s t] rune_len_le[of s]
  by (subst ValidString.simps) (auto simp: min_def)

lemma ValidString_to_valid_loop: "ValidString (to_valid_loop invalid s)"
proof (induction invalid s rule: to_valid_loop.induct)
  case (1 invalid s)
  have repl: "ValidString t \<Longrightarrow> ValidString (replacement_rune @ t)" for t
  proof -
    have "rune_len replacement_rune = 3"
      by (simp add: replacement_rune_def code_of_def in_range_def rune_size_def accept_low_def
          accept_high_def)
    then show "ValidString t \<Longrightarrow> ?thesis"
      using ValidString_rune_append[of replacement_rune t] by (simp add: replacement_rune_def)
  qed
  consider "s = []" | "s \<noteq> []" "0 < rune_len s" | "s \<noteq> []" "rune_len s = 0" by auto
  then show ?case
  proof cases
    case 1
    then show ?thesis by (simp add: to_valid_loop.simps[of _ "[]"] ValidString.simps[of "[]"])
  next
    case 2
    then show ?thesis
      using "1.IH"(1) by (simp add: to_valid_loop.simps[of invalid s] ValidString_rune_append)
  next
    case 3
    then show ?thesis
      using "1.IH"(2) repl by (simp add: to_valid_loop.simps[of invalid s])
  qed
qed

lemma ValidString_ToValidUTF8 [simp]: "ValidString (ToValidUTF8 s)"
  by (simp add: ToValidUTF8_def ValidString_to_valid_loop)

lemma to_valid_loop_valid: "ValidString s \<Longrightarrow> to_valid_loop invalid s = s"
proof (induction invalid s rule: to_valid_loop.induct)
  case (1 invalid s)
  show ?case
  proof (cases "s = []")
    case True
    then show ?thesis by (simp add: to_valid_loop.simps)
  next
    case False
    then have "0 < rune_len s" and "ValidString (drop (rune_len s) s)"
      using "1.prems" False ValidString.simps[of s] by (auto split: if_splits)
    then show ?thesis
      using False "1.IH"(1) by (simp add: to_valid_loop.simps[of invalid s])
  qed
qed

lemma ToValidUTF8_valid: "ValidString s \<Longrightarrow> ToValidUTF8 s = s"
  by (simp add: ToValidUTF8_def to_valid_loop_valid)

lemma ToValidUTF8_idem [simp]: "ToValidUTF8 (ToValidUTF8 s) = ToValidUTF8 s"
  by (simp add: ToValidUTF8_valid)

section \<open>Integer conversions\<close>

text \<open>\<^verbatim>\<open>uint64(x)\<close> of an \<^verbatim>\<open>int\<close>, and \<^verbatim>\<open>int(x)\<close> of a \<^verbatim>\<open>uint64\<close> (two's complement).\<close>

definition uint64 :: "int \<Rightarrow> u64" where
  "uint64 x = word_of_int x"

definition go_int :: "u64 \<Rightarrow> int" where
  "go_int w = sint w"

lemma go_int_uint64 [codec_simps]: "- (2 ^ 63) \<le> x \<Longrightarrow> x < 2 ^ 63 \<Longrightarrow> go_int (uint64 x) = x"
  by (simp add: go_int_def uint64_def sint_sbintrunc' signed_take_bit_int_eq_self)

lemma uint_uint64: "0 \<le> x \<Longrightarrow> x < 2 ^ 64 \<Longrightarrow> uint (uint64 x) = x"
  by (simp add: uint64_def uint_word_of_int)

lemma uint64_add: "uint64 x + uint64 y = uint64 (x + y)"
  by (simp add: uint64_def)

end
