(* ===== verification/Facts.thy ===== *)
theory Facts
  imports Go_Std
begin

text \<open>
  The data model of the producer: \<^verbatim>\<open>internal/typefacts/model.go\<close> and the fact types of
  \<^verbatim>\<open>typefacts.go\<close>, with the row equality of \<^verbatim>\<open>facttable_equal.go\<close> that decides whether a row is sent
  again. A Go struct is a record whose fields carry a short prefix of the struct's name; a pointer is
  an option; a slice is a list, and an optional list where the code tells \<^verbatim>\<open>nil\<close> from an empty slice.
  Go's string-typed enumerations stay strings, so that the encoder's default branches are reachable.
\<close>

section \<open>Scalars\<close>

type_synonym SymbolID = string
type_synonym RuntimeSymbolID = string
type_synonym Callability = string
type_synonym ArrayShape = string
type_synonym ReferenceSpace = string

text \<open>
  A \<^verbatim>\<open>float64\<close> is its IEEE 754 bit pattern, what \<^verbatim>\<open>math.Float64bits\<close> returns; Go's \<^verbatim>\<open>==\<close> on it
  identifies the two zeros and distinguishes a NaN from itself.
\<close>

type_synonym float64 = u64

unbundle bit_operations_syntax

definition float64_abs :: "float64 \<Rightarrow> float64" where
  "float64_abs x = x AND 0x7FFFFFFFFFFFFFFF"

definition IsNaN :: "float64 \<Rightarrow> bool" where
  "IsNaN x \<longleftrightarrow> 0x7FF0000000000000 < float64_abs x"

definition IsInf :: "float64 \<Rightarrow> bool" where
  "IsInf x \<longleftrightarrow> float64_abs x = 0x7FF0000000000000"

definition float64_eq :: "float64 \<Rightarrow> float64 \<Rightarrow> bool" where
  "float64_eq x y \<longleftrightarrow>
     \<not> IsNaN x \<and> \<not> IsNaN y \<and> (x = y \<or> (float64_abs x = 0 \<and> float64_abs y = 0))"

definition CallabilityCallable :: Callability where "CallabilityCallable = ''callable''"
definition CallabilityUntypedCallable :: Callability where "CallabilityUntypedCallable = ''untypedCallable''"
definition CallabilityNonCallable :: Callability where "CallabilityNonCallable = ''nonCallable''"
definition CallabilityMixed :: Callability where "CallabilityMixed = ''mixed''"
definition CallabilityUnknown :: Callability where "CallabilityUnknown = ''unknown''"

datatype Constructability =
    ConstructabilityAbsent
  | ConstructabilityConstructable
  | ConstructabilityNonConstructable
  | ConstructabilityMixed
  | ConstructabilityUnknown

definition Constructability_IsPresent :: "Constructability \<Rightarrow> bool" where
  "Constructability_IsPresent c \<longleftrightarrow> c \<noteq> ConstructabilityAbsent"

fun Constructability_String :: "Constructability \<Rightarrow> string" where
  "Constructability_String ConstructabilityConstructable = ''constructable''"
| "Constructability_String ConstructabilityNonConstructable = ''nonConstructable''"
| "Constructability_String ConstructabilityMixed = ''mixed''"
| "Constructability_String ConstructabilityUnknown = ''unknown''"
| "Constructability_String ConstructabilityAbsent = []"

section \<open>Value domains\<close>

record RuntimeValueDomain =
  rvd_MayBeCallable :: bool
  rvd_MayBeUndefined :: bool
  rvd_MayBeOther :: bool
  rvd_Unknown :: bool

record PrimitiveValueDomain =
  pvd_bits :: u16

definition primitiveMayBeString :: u16 where "primitiveMayBeString = push_bit 0 1"
definition primitiveMayBeNumber :: u16 where "primitiveMayBeNumber = push_bit 1 1"
definition primitiveMayBeBoolean :: u16 where "primitiveMayBeBoolean = push_bit 2 1"
definition primitiveMayBeBigInt :: u16 where "primitiveMayBeBigInt = push_bit 3 1"
definition primitiveMayBeSymbol :: u16 where "primitiveMayBeSymbol = push_bit 4 1"
definition primitiveMayBeNull :: u16 where "primitiveMayBeNull = push_bit 5 1"
definition primitiveMayBeUndefined :: u16 where "primitiveMayBeUndefined = push_bit 6 1"
definition primitiveMayBeObject :: u16 where "primitiveMayBeObject = push_bit 7 1"
definition primitiveNumbersFinite :: u16 where "primitiveNumbersFinite = push_bit 8 1"
definition primitiveEmpty :: u16 where "primitiveEmpty = push_bit 9 1"

lemmas primitive_bits [go_defs] =
  primitiveMayBeString_def primitiveMayBeNumber_def primitiveMayBeBoolean_def
  primitiveMayBeBigInt_def primitiveMayBeSymbol_def primitiveMayBeNull_def
  primitiveMayBeUndefined_def primitiveMayBeObject_def primitiveNumbersFinite_def
  primitiveEmpty_def

definition boolDomainBit :: "bool \<Rightarrow> u16 \<Rightarrow> u16" where
  "boolDomainBit v b = (if v then b else 0)"

definition NewPrimitiveValueDomain ::
    "bool \<Rightarrow> bool \<Rightarrow> bool \<Rightarrow> bool \<Rightarrow> bool \<Rightarrow> bool \<Rightarrow> bool \<Rightarrow> bool \<Rightarrow> bool \<Rightarrow> PrimitiveValueDomain" where
  "NewPrimitiveValueDomain stringValue number boolean bigint symbol nullValue undefinedValue object numbersFinite =
     (let bits = boolDomainBit stringValue primitiveMayBeString OR
            boolDomainBit number primitiveMayBeNumber OR
            boolDomainBit boolean primitiveMayBeBoolean OR
            boolDomainBit bigint primitiveMayBeBigInt OR
            boolDomainBit symbol primitiveMayBeSymbol OR
            boolDomainBit nullValue primitiveMayBeNull OR
            boolDomainBit undefinedValue primitiveMayBeUndefined OR
            boolDomainBit object primitiveMayBeObject OR
            boolDomainBit (number \<and> numbersFinite) primitiveNumbersFinite
      in \<lparr>pvd_bits = (if bits = 0 then primitiveEmpty else bits)\<rparr>)"

definition UnknownPrimitiveValueDomain :: PrimitiveValueDomain where
  "UnknownPrimitiveValueDomain = \<lparr>pvd_bits = NOT 0\<rparr>"

definition pvd_has :: "u16 \<Rightarrow> PrimitiveValueDomain \<Rightarrow> bool" where
  "pvd_has b d \<longleftrightarrow> pvd_bits d AND b \<noteq> 0"

definition pvd_IsPresent :: "PrimitiveValueDomain \<Rightarrow> bool" where
  "pvd_IsPresent d \<longleftrightarrow> pvd_bits d \<noteq> 0"

definition pvd_NumbersAreFinite :: "PrimitiveValueDomain \<Rightarrow> bool" where
  "pvd_NumbersAreFinite d \<longleftrightarrow> pvd_has primitiveMayBeNumber d \<and> pvd_has primitiveNumbersFinite d"

definition pvd_Unknown :: "PrimitiveValueDomain \<Rightarrow> bool" where
  "pvd_Unknown d \<longleftrightarrow> pvd_bits d = NOT 0"

definition pvd_Union :: "PrimitiveValueDomain \<Rightarrow> PrimitiveValueDomain \<Rightarrow> PrimitiveValueDomain" where
  "pvd_Union d other =
     (if pvd_Unknown d \<or> pvd_Unknown other then UnknownPrimitiveValueDomain
      else let bits = (pvd_bits d OR pvd_bits other) AND NOT (primitiveEmpty OR primitiveNumbersFinite);
               bits = (if bits AND primitiveMayBeNumber \<noteq> 0 \<and>
                          (\<not> pvd_has primitiveMayBeNumber d \<or> pvd_NumbersAreFinite d) \<and>
                          (\<not> pvd_has primitiveMayBeNumber other \<or> pvd_NumbersAreFinite other)
                       then bits OR primitiveNumbersFinite else bits);
               bits = (if bits = 0 \<and> (pvd_IsPresent d \<or> pvd_IsPresent other)
                       then primitiveEmpty else bits)
           in \<lparr>pvd_bits = bits\<rparr>)"

section \<open>Rows\<close>

record Location =
  loc_Path :: string
  loc_StartByte :: int
  loc_EndByte :: int

record Declaration =
  decl_Name :: string
  decl_Kind :: string
  decl_Location :: Location

record TypeDescriptor =
  td_Text :: string
  td_OriginModule :: string
  td_AliasDeclarations :: "Declaration list"

record PrimitiveLiteralCandidate =
  plc_Kind :: string
  plc_String :: string
  plc_Number :: float64
  plc_Boolean :: bool

record ConstantValue =
  cv_Kind :: string
  cv_String :: string
  cv_Number :: float64

record TupleShape =
  ts_FixedLength :: int
  ts_ExactLength :: int
  ts_ExactLengthKnown :: bool
  ts_HasRest :: bool
  ts_ElementZero :: Callability
  ts_ElementZeroMinimumParameters :: int

record DeclarationOwner =
  own_Symbol :: SymbolID
  own_Name :: string
  own_Kind :: string
  own_Location :: Location

record ResolvedDeclaration =
  rd_Symbol :: SymbolID
  rd_Name :: string
  rd_Kind :: string
  rd_Location :: Location
  rd_Owners :: "DeclarationOwner list"
  rd_QualifiedName :: string
  rd_OriginModule :: string
  rd_SourceFile :: string
  rd_StandardLibrary :: bool

record ObjectConstructionProperty =
  ocp_Name :: string
  ocp_Witness :: string

record ObjectConstructionShape =
  ocs_RequiredProperties :: "ObjectConstructionProperty list"

record ParameterFact =
  par_Index :: int
  par_Symbol :: SymbolID
  par_Declaration :: "Declaration option"
  par_Rest :: bool
  par_Optional :: bool
  par_Callability :: Callability
  par_TypeDescriptor :: "TypeDescriptor option"
  par_ObjectShape :: "ObjectConstructionShape option"

record ArgumentMapping =
  am_ArgumentIndex :: int
  am_Status :: string
  am_Unresolved :: string
  am_Parameter :: "ParameterFact option"

record CallTargetSet =
  cts_Exhaustive :: bool
  cts_Candidates :: "ResolvedDeclaration list"

record Call =
  call_Target :: SymbolID
  call_ReturnTypeText :: string
  call_Validity :: string
  call_Kind :: string
  call_Declaration :: "ResolvedDeclaration option"
  call_Targets :: "CallTargetSet option"
  call_Arguments :: "ArgumentMapping list"

record EntityFact =
  ent_Location :: Location
  ent_Symbol :: SymbolID
  ent_SymbolUnresolved :: bool
  ent_TypeDescriptor :: "TypeDescriptor option"
  ent_ResolvedCall :: "Call option"
  ent_Callability :: Callability
  ent_RuntimeValueDomain :: "RuntimeValueDomain option"
  ent_PrimitiveValueDomain :: PrimitiveValueDomain
  ent_PrimitiveLiteralCandidates :: "PrimitiveLiteralCandidate list"
  ent_Constructability :: Constructability
  ent_CallResultDomain :: "RuntimeValueDomain option"
  ent_ConstantValue :: "ConstantValue option"
  ent_ArrayShape :: ArrayShape
  ent_TupleShape :: "TupleShape option"
  ent_LibraryTypes :: "string list option"
  ent_ReferenceSpace :: ReferenceSpace
  ent_RuntimeIdentity :: RuntimeSymbolID

record SymbolFact =
  sym_ID :: SymbolID
  sym_AliasTarget :: SymbolID
  sym_Declarations :: "Declaration list"
  sym_References :: "Location list"

record SourceCall =
  sc_Location :: Location
  sc_Callee :: Location
  sc_Arguments :: "Location list"
  sc_Target :: SymbolID

record SourceBinding =
  sb_Array :: bool
  sb_Names :: "Location list"
  sb_Initializer :: SourceCall

record SourceFunction =
  sf_Name :: Location
  sf_Body :: Location
  sf_Parameters :: "Location list"
  sf_Exported :: bool
  sf_Async :: bool
  sf_Arrow :: bool

record AsyncFunctionFact =
  af_Expression :: Location
  af_Symbol :: SymbolID
  af_Target :: SymbolID
  af_CanReturnAsync :: bool
  af_CallsAfterAwait :: "Location list"

record FileFact =
  file_Path :: string
  file_Calls :: "SourceCall list"
  file_Bindings :: "SourceBinding list"
  file_Functions :: "SourceFunction list"
  file_AsyncFunctions :: "AsyncFunctionFact list"

record SourceDigest =
  dig_Path :: string
  dig_SHA256 :: bytes

text \<open>The demand flags of one canonical entity.\<close>

record EntityDemand =
  dem_Location :: Location
  dem_QueryLocation :: "Location option"
  dem_Symbol :: bool
  dem_TypeDescriptor :: bool
  dem_ResolvedCall :: bool
  dem_Callability :: bool
  dem_Constructability :: bool
  dem_RuntimeValueDomain :: bool
  dem_PrimitiveValueDomain :: bool
  dem_PrimitiveLiteralCandidates :: bool
  dem_ParameterObjectShape :: bool
  dem_CallResultDomain :: bool
  dem_ConstantValue :: bool
  dem_ArrayShape :: bool
  dem_TupleShape :: bool
  dem_LibraryTypes :: bool
  dem_ReferenceSpace :: bool
  dem_RuntimeIdentity :: bool
  dem_References :: bool
  dem_Async :: bool
  dem_StructuralAccessor :: bool

section \<open>Row equality\<close>

text \<open>
  \<^verbatim>\<open>locationsEqual\<close> and \<^verbatim>\<open>entityFactsEqual\<close> return early when both slices share their backing
  array; sharing implies equal elements, so the model compares elements. The one element comparison
  that is not the identity is the one of floating-point numbers.
\<close>

definition locationsEqual :: "Location list \<Rightarrow> Location list \<Rightarrow> bool" where
  "locationsEqual left right \<longleftrightarrow> length left = length right \<and> left = right"

definition symbolFactEqual :: "SymbolFact \<Rightarrow> SymbolFact \<Rightarrow> bool" where
  "symbolFactEqual left right \<longleftrightarrow>
     sym_ID left = sym_ID right \<and> sym_AliasTarget left = sym_AliasTarget right \<and>
     sym_Declarations left = sym_Declarations right \<and>
     locationsEqual (sym_References left) (sym_References right)"

text \<open>The pointer comparison of the code: both nil, or both set and equal as values.\<close>

fun pointerEqual :: "('a \<Rightarrow> 'a \<Rightarrow> bool) \<Rightarrow> 'a option \<Rightarrow> 'a option \<Rightarrow> bool" where
  "pointerEqual eq (Some left) (Some right) = eq left right"
| "pointerEqual eq left right = (left = None \<and> right = None)"

definition typeDescriptorEqual :: "TypeDescriptor option \<Rightarrow> TypeDescriptor option \<Rightarrow> bool" where
  "typeDescriptorEqual = pointerEqual (\<lambda>left right.
     td_Text left = td_Text right \<and> td_OriginModule left = td_OriginModule right \<and>
     td_AliasDeclarations left = td_AliasDeclarations right)"

definition resolvedDeclarationEqual ::
    "ResolvedDeclaration option \<Rightarrow> ResolvedDeclaration option \<Rightarrow> bool" where
  "resolvedDeclarationEqual = pointerEqual (\<lambda>left right.
     rd_Symbol left = rd_Symbol right \<and> rd_Name left = rd_Name right \<and>
     rd_Kind left = rd_Kind right \<and> rd_Location left = rd_Location right \<and>
     rd_QualifiedName left = rd_QualifiedName right \<and>
     rd_OriginModule left = rd_OriginModule right \<and>
     rd_SourceFile left = rd_SourceFile right \<and>
     rd_StandardLibrary left = rd_StandardLibrary right \<and>
     rd_Owners left = rd_Owners right)"

definition callTargetSetEqual :: "CallTargetSet option \<Rightarrow> CallTargetSet option \<Rightarrow> bool" where
  "callTargetSetEqual = pointerEqual (\<lambda>left right.
     cts_Exhaustive left = cts_Exhaustive right \<and>
     list_all2 (\<lambda>l r. resolvedDeclarationEqual (Some l) (Some r))
       (cts_Candidates left) (cts_Candidates right))"

definition objectConstructionShapeEqual ::
    "ObjectConstructionShape option \<Rightarrow> ObjectConstructionShape option \<Rightarrow> bool" where
  "objectConstructionShapeEqual = pointerEqual (\<lambda>left right.
     ocs_RequiredProperties left = ocs_RequiredProperties right)"

definition parameterFactEqual :: "ParameterFact option \<Rightarrow> ParameterFact option \<Rightarrow> bool" where
  "parameterFactEqual = pointerEqual (\<lambda>left right.
     if par_Index left \<noteq> par_Index right \<or> par_Symbol left \<noteq> par_Symbol right \<or>
        par_Rest left \<noteq> par_Rest right \<or> par_Optional left \<noteq> par_Optional right \<or>
        par_Callability left \<noteq> par_Callability right \<or>
        \<not> objectConstructionShapeEqual (par_ObjectShape left) (par_ObjectShape right) \<or>
        \<not> typeDescriptorEqual (par_TypeDescriptor left) (par_TypeDescriptor right)
     then False
     else pointerEqual (=) (par_Declaration left) (par_Declaration right))"

definition argumentMappingEqual :: "ArgumentMapping \<Rightarrow> ArgumentMapping \<Rightarrow> bool" where
  "argumentMappingEqual left right \<longleftrightarrow>
     am_ArgumentIndex left = am_ArgumentIndex right \<and> am_Status left = am_Status right \<and>
     am_Unresolved left = am_Unresolved right \<and>
     parameterFactEqual (am_Parameter left) (am_Parameter right)"

definition resolvedCallEqual :: "Call option \<Rightarrow> Call option \<Rightarrow> bool" where
  "resolvedCallEqual = pointerEqual (\<lambda>left right.
     call_Target left = call_Target right \<and>
     call_ReturnTypeText left = call_ReturnTypeText right \<and>
     call_Validity left = call_Validity right \<and> call_Kind left = call_Kind right \<and>
     resolvedDeclarationEqual (call_Declaration left) (call_Declaration right) \<and>
     callTargetSetEqual (call_Targets left) (call_Targets right) \<and>
     list_all2 argumentMappingEqual (call_Arguments left) (call_Arguments right))"

definition runtimeValueDomainEqual ::
    "RuntimeValueDomain option \<Rightarrow> RuntimeValueDomain option \<Rightarrow> bool" where
  "runtimeValueDomainEqual = pointerEqual (=)"

definition tupleShapeEqual :: "TupleShape option \<Rightarrow> TupleShape option \<Rightarrow> bool" where
  "tupleShapeEqual = pointerEqual (=)"

definition constantValueEqual :: "ConstantValue option \<Rightarrow> ConstantValue option \<Rightarrow> bool" where
  "constantValueEqual = pointerEqual (\<lambda>left right.
     cv_Kind left = cv_Kind right \<and> cv_String left = cv_String right \<and>
     float64_eq (cv_Number left) (cv_Number right))"

definition literalCandidateEqual ::
    "PrimitiveLiteralCandidate \<Rightarrow> PrimitiveLiteralCandidate \<Rightarrow> bool" where
  "literalCandidateEqual left right \<longleftrightarrow>
     plc_Kind left = plc_Kind right \<and> plc_String left = plc_String right \<and>
     float64_eq (plc_Number left) (plc_Number right) \<and> plc_Boolean left = plc_Boolean right"

text \<open>The elements of a slice that may be nil.\<close>

definition elems :: "'a list option \<Rightarrow> 'a list" where
  "elems s = (case s of None \<Rightarrow> [] | Some xs \<Rightarrow> xs)"

lemma elems_simps [simp]: "elems None = []" "elems (Some xs) = xs"
  by (simp_all add: elems_def)

definition entityFactEqual :: "EntityFact \<Rightarrow> EntityFact \<Rightarrow> bool" where
  "entityFactEqual left right \<longleftrightarrow>
     ent_Location left = ent_Location right \<and> ent_Symbol left = ent_Symbol right \<and>
     ent_SymbolUnresolved left = ent_SymbolUnresolved right \<and>
     ent_Callability left = ent_Callability right \<and>
     ent_Constructability left = ent_Constructability right \<and>
     ent_ReferenceSpace left = ent_ReferenceSpace right \<and>
     ent_RuntimeIdentity left = ent_RuntimeIdentity right \<and>
     runtimeValueDomainEqual (ent_RuntimeValueDomain left) (ent_RuntimeValueDomain right) \<and>
     ent_PrimitiveValueDomain left = ent_PrimitiveValueDomain right \<and>
     list_all2 literalCandidateEqual (ent_PrimitiveLiteralCandidates left)
       (ent_PrimitiveLiteralCandidates right) \<and>
     runtimeValueDomainEqual (ent_CallResultDomain left) (ent_CallResultDomain right) \<and>
     constantValueEqual (ent_ConstantValue left) (ent_ConstantValue right) \<and>
     ent_ArrayShape left = ent_ArrayShape right \<and>
     tupleShapeEqual (ent_TupleShape left) (ent_TupleShape right) \<and>
     elems (ent_LibraryTypes left) = elems (ent_LibraryTypes right) \<and>
     typeDescriptorEqual (ent_TypeDescriptor left) (ent_TypeDescriptor right) \<and>
     resolvedCallEqual (ent_ResolvedCall left) (ent_ResolvedCall right)"

definition entityFactsEqual :: "EntityFact list \<Rightarrow> EntityFact list \<Rightarrow> bool" where
  "entityFactsEqual left right \<longleftrightarrow>
     length left = length right \<and> list_all2 entityFactEqual left right"

definition sourceCallEqual :: "SourceCall \<Rightarrow> SourceCall \<Rightarrow> bool" where
  "sourceCallEqual left right \<longleftrightarrow>
     sc_Location left = sc_Location right \<and> sc_Callee left = sc_Callee right \<and>
     sc_Target left = sc_Target right \<and> locationsEqual (sc_Arguments left) (sc_Arguments right)"

definition sourceBindingEqual :: "SourceBinding \<Rightarrow> SourceBinding \<Rightarrow> bool" where
  "sourceBindingEqual left right \<longleftrightarrow>
     sb_Array left = sb_Array right \<and> locationsEqual (sb_Names left) (sb_Names right) \<and>
     sourceCallEqual (sb_Initializer left) (sb_Initializer right)"

definition sourceFunctionEqual :: "SourceFunction \<Rightarrow> SourceFunction \<Rightarrow> bool" where
  "sourceFunctionEqual left right \<longleftrightarrow>
     sf_Name left = sf_Name right \<and> sf_Body left = sf_Body right \<and>
     sf_Exported left = sf_Exported right \<and> sf_Async left = sf_Async right \<and>
     sf_Arrow left = sf_Arrow right \<and> locationsEqual (sf_Parameters left) (sf_Parameters right)"

definition asyncFunctionFactEqual :: "AsyncFunctionFact \<Rightarrow> AsyncFunctionFact \<Rightarrow> bool" where
  "asyncFunctionFactEqual left right \<longleftrightarrow>
     af_Expression left = af_Expression right \<and> af_Symbol left = af_Symbol right \<and>
     af_Target left = af_Target right \<and> af_CanReturnAsync left = af_CanReturnAsync right \<and>
     locationsEqual (af_CallsAfterAwait left) (af_CallsAfterAwait right)"

definition fileFactEqual :: "FileFact \<Rightarrow> FileFact \<Rightarrow> bool" where
  "fileFactEqual left right \<longleftrightarrow>
     file_Path left = file_Path right \<and>
     list_all2 sourceCallEqual (file_Calls left) (file_Calls right) \<and>
     list_all2 sourceBindingEqual (file_Bindings left) (file_Bindings right) \<and>
     list_all2 sourceFunctionEqual (file_Functions left) (file_Functions right) \<and>
     list_all2 asyncFunctionFactEqual (file_AsyncFunctions left) (file_AsyncFunctions right)"

section \<open>What row equality decides\<close>

lemma pointerEqual_eq: "(\<And>l r. eq l r \<longleftrightarrow> l = r) \<Longrightarrow> pointerEqual eq = (=)"
  by (intro ext) (rename_tac x y, case_tac x; case_tac y; simp)

lemma list_all2_eqI: "(\<And>l r. eq l r \<longleftrightarrow> l = r) \<Longrightarrow> list_all2 eq xs ys \<longleftrightarrow> xs = ys"
proof -
  assume "\<And>l r. eq l r \<longleftrightarrow> l = r"
  then have "eq = (=)" by (intro ext) simp
  then show ?thesis by (simp add: list.rel_eq)
qed

lemma locationsEqual_eq [simp]: "locationsEqual left right \<longleftrightarrow> left = right"
  by (auto simp: locationsEqual_def)

lemma symbolFactEqual_eq [simp]: "symbolFactEqual left right \<longleftrightarrow> left = right"
  by (auto simp: symbolFactEqual_def)

lemma typeDescriptorEqual_eq [simp]: "typeDescriptorEqual = (=)"
  unfolding typeDescriptorEqual_def by (rule pointerEqual_eq) auto

lemma resolvedDeclarationEqual_eq [simp]: "resolvedDeclarationEqual = (=)"
  unfolding resolvedDeclarationEqual_def by (rule pointerEqual_eq) auto

lemma callTargetSetEqual_eq [simp]: "callTargetSetEqual = (=)"
  unfolding callTargetSetEqual_def by (rule pointerEqual_eq) (auto simp: list_all2_eq[symmetric])

lemma objectConstructionShapeEqual_eq [simp]: "objectConstructionShapeEqual = (=)"
  unfolding objectConstructionShapeEqual_def by (rule pointerEqual_eq) auto

lemma parameterFactEqual_eq [simp]: "parameterFactEqual = (=)"
  unfolding parameterFactEqual_def by (rule pointerEqual_eq) (auto simp: pointerEqual_eq)

lemma argumentMappingEqual_eq [simp]: "argumentMappingEqual left right \<longleftrightarrow> left = right"
  by (auto simp: argumentMappingEqual_def)

lemma resolvedCallEqual_eq [simp]: "resolvedCallEqual = (=)"
  unfolding resolvedCallEqual_def
  by (rule pointerEqual_eq) (auto simp: list_all2_eqI[of argumentMappingEqual])

lemma runtimeValueDomainEqual_eq [simp]: "runtimeValueDomainEqual = (=)"
  unfolding runtimeValueDomainEqual_def by (rule pointerEqual_eq) auto

lemma tupleShapeEqual_eq [simp]: "tupleShapeEqual = (=)"
  unfolding tupleShapeEqual_def by (rule pointerEqual_eq) auto

lemma sourceCallEqual_eq [simp]: "sourceCallEqual left right \<longleftrightarrow> left = right"
  by (auto simp: sourceCallEqual_def)

lemma sourceBindingEqual_eq [simp]: "sourceBindingEqual left right \<longleftrightarrow> left = right"
  by (auto simp: sourceBindingEqual_def)

lemma sourceFunctionEqual_eq [simp]: "sourceFunctionEqual left right \<longleftrightarrow> left = right"
  by (auto simp: sourceFunctionEqual_def)

lemma asyncFunctionFactEqual_eq [simp]: "asyncFunctionFactEqual left right \<longleftrightarrow> left = right"
  by (auto simp: asyncFunctionFactEqual_def)

lemma fileFactEqual_eq [simp]: "fileFactEqual left right \<longleftrightarrow> left = right"
  by (auto simp: fileFactEqual_def list_all2_eqI[of sourceCallEqual]
      list_all2_eqI[of sourceBindingEqual] list_all2_eqI[of sourceFunctionEqual]
      list_all2_eqI[of asyncFunctionFactEqual])

text \<open>
  On floating-point payloads that are neither a NaN nor the negative zero, Go's \<^verbatim>\<open>==\<close> is the
  equality of bit patterns.
\<close>

definition float_plain :: "float64 \<Rightarrow> bool" where
  "float_plain x \<longleftrightarrow> \<not> IsNaN x \<and> x \<noteq> 0x8000000000000000"

lemma float64_abs_take_bit: "float64_abs x = take_bit 63 x"
  by (simp add: float64_abs_def take_bit_eq_mask mask_eq_exp_minus_1)

lemma float64_abs_0: "float64_abs x = 0 \<Longrightarrow> x = 0 \<or> x = 0x8000000000000000"
proof -
  assume "float64_abs x = 0"
  then have low: "\<not> bit x n" if "n < 63" for n
    using that by (metis bit_0_eq bit_take_bit_iff bot_apply bot_bool_def float64_abs_take_bit)
  have top: "bit (0x8000000000000000::u64) n \<longleftrightarrow> n = 63" for n
    using bit_exp_iff[where 'a=u64, of 63 n] by (auto simp: possible_bit_word)
  show ?thesis
  proof (cases "bit x 63")
    case True
    have "x = 0x8000000000000000"
    proof (rule bit_word_eqI)
      fix n assume "n < LENGTH(64)"
      then have "n < 63 \<or> n = 63" by auto
      then show "bit x n = bit (0x8000000000000000::u64) n"
        using True low[of n] top[of n] by auto
    qed
    then show ?thesis by simp
  next
    case False
    have "x = 0"
    proof (rule bit_word_eqI)
      fix n assume "n < LENGTH(64)"
      then have "n < 63 \<or> n = 63" by auto
      then show "bit x n = bit (0::u64) n"
        using False low[of n] by auto
    qed
    then show ?thesis by simp
  qed
qed

lemma float64_eq_plain: "float_plain x \<Longrightarrow> float_plain y \<Longrightarrow> float64_eq x y \<longleftrightarrow> x = y"
  by (auto simp: float_plain_def float64_eq_def dest: float64_abs_0)

definition entity_plain :: "EntityFact \<Rightarrow> bool" where
  "entity_plain e \<longleftrightarrow>
     pred_option (\<lambda>v. float_plain (cv_Number v)) (ent_ConstantValue e) \<and>
     list_all (\<lambda>c. float_plain (plc_Number c)) (ent_PrimitiveLiteralCandidates e)"

text \<open>The row with a nil library-type set identified with an empty one, as the encoder does.\<close>

definition entity_view :: "EntityFact \<Rightarrow> EntityFact" where
  "entity_view e = e\<lparr>ent_LibraryTypes := Some (elems (ent_LibraryTypes e))\<rparr>"

lemma literalCandidateEqual_plain:
  "float_plain (plc_Number left) \<Longrightarrow> float_plain (plc_Number right) \<Longrightarrow>
     literalCandidateEqual left right \<longleftrightarrow> left = right"
  by (auto simp: literalCandidateEqual_def float64_eq_plain)

lemma literalCandidatesEqual_plain:
  "list_all (\<lambda>c. float_plain (plc_Number c)) xs \<Longrightarrow> list_all (\<lambda>c. float_plain (plc_Number c)) ys \<Longrightarrow>
     list_all2 literalCandidateEqual xs ys \<longleftrightarrow> xs = ys"
  by (induction xs arbitrary: ys) (auto simp: literalCandidateEqual_plain list_all2_Cons1)

lemma constantValueEqual_plain:
  "pred_option (\<lambda>v. float_plain (cv_Number v)) a \<Longrightarrow> pred_option (\<lambda>v. float_plain (cv_Number v)) b \<Longrightarrow>
     constantValueEqual a b \<longleftrightarrow> a = b"
  by (cases a; cases b) (auto simp: constantValueEqual_def float64_eq_plain)

lemma entityFactEqual_plain:
  assumes "entity_plain left" and "entity_plain right"
  shows "entityFactEqual left right \<longleftrightarrow> entity_view left = entity_view right"
  using assms
  by (cases left; cases right)
     (auto simp: entity_plain_def entity_view_def entityFactEqual_def literalCandidatesEqual_plain
        constantValueEqual_plain)

lemma entityFactsEqual_plain:
  assumes "list_all entity_plain left" and "list_all entity_plain right"
  shows "entityFactsEqual left right \<longleftrightarrow> map entity_view left = map entity_view right"
proof -
  have "list_all2 entityFactEqual left right \<longleftrightarrow> map entity_view left = map entity_view right"
    using assms
  proof (induction left arbitrary: right)
    case Nil
    then show ?case by simp
  next
    case (Cons a left)
    then show ?case by (cases right) (simp_all add: entityFactEqual_plain)
  qed
  then show ?thesis by (auto simp: entityFactsEqual_def dest: list_all2_lengthD)
qed

section \<open>What the union of value domains computes\<close>

lemma bit_boolDomainBit: "bit (boolDomainBit v (push_bit k 1)) n \<longleftrightarrow> v \<and> n = k \<and> k < 16"
  by (auto simp: boolDomainBit_def bit_simps)

lemma bit_push_bit_1: "bit (push_bit k (1::'a::len word)) n \<longleftrightarrow> n = k \<and> k < LENGTH('a)"
  by (auto simp: bit_simps)

lemma bit_primitiveEmpty: "bit primitiveEmpty k \<longleftrightarrow> k = 9"
  unfolding primitiveEmpty_def bit_push_bit_1 by auto

lemma bit_primitiveNumbersFinite: "bit primitiveNumbersFinite k \<longleftrightarrow> k = 8"
  unfolding primitiveNumbersFinite_def bit_push_bit_1 by auto

lemma and_push_bit_1: "x AND push_bit k 1 \<noteq> 0 \<longleftrightarrow> bit x k" for x :: "'a::len word"
  by (metis and_exp_eq_0_iff_not_bit push_bit_of_1)

lemma bit_NewPrimitiveValueDomain:
  "bit (pvd_bits (NewPrimitiveValueDomain s n b g y u v j f)) k \<longleftrightarrow>
     (k = 0 \<and> s) \<or> (k = 1 \<and> n) \<or> (k = 2 \<and> b) \<or> (k = 3 \<and> g) \<or> (k = 4 \<and> y) \<or> (k = 5 \<and> u) \<or>
     (k = 6 \<and> v) \<or> (k = 7 \<and> j) \<or> (k = 8 \<and> n \<and> f) \<or>
     (k = 9 \<and> \<not> (s \<or> n \<or> b \<or> g \<or> y \<or> u \<or> v \<or> j))"
proof -
  define w where "w = boolDomainBit s primitiveMayBeString OR boolDomainBit n primitiveMayBeNumber OR
    boolDomainBit b primitiveMayBeBoolean OR boolDomainBit g primitiveMayBeBigInt OR
    boolDomainBit y primitiveMayBeSymbol OR boolDomainBit u primitiveMayBeNull OR
    boolDomainBit v primitiveMayBeUndefined OR boolDomainBit j primitiveMayBeObject OR
    boolDomainBit (n \<and> f) primitiveNumbersFinite"
  have bit_w: "bit w k \<longleftrightarrow> (k = 0 \<and> s) \<or> (k = 1 \<and> n) \<or> (k = 2 \<and> b) \<or> (k = 3 \<and> g) \<or> (k = 4 \<and> y) \<or>
     (k = 5 \<and> u) \<or> (k = 6 \<and> v) \<or> (k = 7 \<and> j) \<or> (k = 8 \<and> n \<and> f)" for k
    unfolding w_def primitive_bits bit_or_iff bit_boolDomainBit by auto
  have w0: "w = 0 \<longleftrightarrow> \<not> (s \<or> n \<or> b \<or> g \<or> y \<or> u \<or> v \<or> j)"
  proof
    assume "w = 0"
    then show "\<not> (s \<or> n \<or> b \<or> g \<or> y \<or> u \<or> v \<or> j)"
      using bit_w[of 0] bit_w[of 1] bit_w[of 2] bit_w[of 3] bit_w[of 4] bit_w[of 5] bit_w[of 6]
        bit_w[of 7] by simp
  next
    assume "\<not> (s \<or> n \<or> b \<or> g \<or> y \<or> u \<or> v \<or> j)"
    then show "w = 0" by (intro bit_word_eqI) (simp add: bit_w)
  qed
  have "pvd_bits (NewPrimitiveValueDomain s n b g y u v j f) = (if w = 0 then primitiveEmpty else w)"
    by (simp add: NewPrimitiveValueDomain_def w_def)
  then show ?thesis
  proof (cases "w = 0")
    case True
    then have none: "\<not> s" "\<not> n" "\<not> b" "\<not> g" "\<not> y" "\<not> u" "\<not> v" "\<not> j" using w0 by auto
    show ?thesis
      using True \<open>pvd_bits _ = _\<close> by (simp add: bit_primitiveEmpty none)
  next
    case False
    then have "s \<or> n \<or> b \<or> g \<or> y \<or> u \<or> v \<or> j" using w0 by blast
    then show ?thesis
      using False \<open>pvd_bits _ = _\<close> by (simp only: if_False bit_w not_True_eq_False simp_thms)
  qed
qed

lemma pvd_has_bit: "pvd_has (push_bit k 1) d \<longleftrightarrow> bit (pvd_bits d) k"
  unfolding pvd_has_def and_push_bit_1 ..

lemma New_not_Unknown: "\<not> pvd_Unknown (NewPrimitiveValueDomain s n b g y u v j f)"
proof
  assume "pvd_Unknown (NewPrimitiveValueDomain s n b g y u v j f)"
  then have "bit (pvd_bits (NewPrimitiveValueDomain s n b g y u v j f)) 10"
    by (simp add: pvd_Unknown_def)
  then show False by (simp add: bit_NewPrimitiveValueDomain)
qed

lemma New_IsPresent: "pvd_IsPresent (NewPrimitiveValueDomain s n b g y u v j f)"
proof -
  let ?d = "NewPrimitiveValueDomain s n b g y u v j f"
  have "pvd_bits ?d \<noteq> 0"
  proof
    assume "pvd_bits ?d = 0"
    then have none: "\<not> bit (pvd_bits ?d) k" for k by simp
    show False
      using none[of 0] none[of 1] none[of 2] none[of 3] none[of 4] none[of 5] none[of 6] none[of 7]
        none[of 9] by (simp add: bit_NewPrimitiveValueDomain)
  qed
  then show ?thesis by (simp add: pvd_IsPresent_def)
qed

lemma pvd_Union_New_bits:
  assumes "d = NewPrimitiveValueDomain s n b g y u v j f"
    and "e = NewPrimitiveValueDomain s' n' b' g' y' u' v' j' f'"
    and "r = NewPrimitiveValueDomain (s \<or> s') (n \<or> n') (b \<or> b') (g \<or> g') (y \<or> y') (u \<or> u') (v \<or> v')
      (j \<or> j') ((n \<longrightarrow> f) \<and> (n' \<longrightarrow> f'))"
  shows "pvd_bits (pvd_Union d e) = pvd_bits r"
proof (rule bit_word_eqI)
  fix k :: nat
  define m where "m = (pvd_bits d OR pvd_bits e) AND NOT (primitiveEmpty OR primitiveNumbersFinite)"
  define m' where "m' = (if (n \<or> n') \<and> (n \<longrightarrow> f) \<and> (n' \<longrightarrow> f') then m OR primitiveNumbersFinite else m)"
  note bits = bit_NewPrimitiveValueDomain[of s n b g y u v j f, folded assms(1)]
    bit_NewPrimitiveValueDomain[of s' n' b' g' y' u' v' j' f', folded assms(2)]
    bit_NewPrimitiveValueDomain[of "s \<or> s'" "n \<or> n'" "b \<or> b'" "g \<or> g'" "y \<or> y'" "u \<or> u'" "v \<or> v'"
      "j \<or> j'" "(n \<longrightarrow> f) \<and> (n' \<longrightarrow> f')", folded assms(3)]
  have bit_m: "bit m i \<longleftrightarrow> (bit (pvd_bits d) i \<or> bit (pvd_bits e) i) \<and> i \<noteq> 8 \<and> i \<noteq> 9" for i
    by (cases "i < 16")
       (auto simp: m_def bit_and_iff bit_not_iff bit_or_iff bit_primitiveEmpty
          bit_primitiveNumbersFinite possible_bit_word dest: bit_imp_le_length)
  have num: "m AND primitiveMayBeNumber \<noteq> 0 \<longleftrightarrow> n \<or> n'"
    unfolding primitiveMayBeNumber_def and_push_bit_1 bit_m bits by auto
  have fin: "pvd_has primitiveMayBeNumber d \<longleftrightarrow> n" "pvd_NumbersAreFinite d \<longleftrightarrow> n \<and> f"
    "pvd_has primitiveMayBeNumber e \<longleftrightarrow> n'" "pvd_NumbersAreFinite e \<longleftrightarrow> n' \<and> f'"
    unfolding pvd_NumbersAreFinite_def primitive_bits pvd_has_bit bits by auto
  have union: "pvd_Union d e = \<lparr>pvd_bits = (if m' = 0 then primitiveEmpty else m')\<rparr>"
    using New_not_Unknown[of s n b g y u v j f] New_not_Unknown[of s' n' b' g' y' u' v' j' f']
      New_IsPresent[of s n b g y u v j f]
    unfolding pvd_Union_def Let_def m_def[symmetric] fin num assms(1,2)[symmetric]
    by (auto simp: m'_def)
  have bit_m': "bit m' i \<longleftrightarrow> bit (pvd_bits r) i \<and> i \<noteq> 9" for i
  proof -
    have "i = 0 \<or> i = 1 \<or> i = 2 \<or> i = 3 \<or> i = 4 \<or> i = 5 \<or> i = 6 \<or> i = 7 \<or> i = 8 \<or> i = 9 \<or> 9 < i"
      by arith
    then show ?thesis
      by (elim disjE) (simp_all add: m'_def bit_or_iff bit_primitiveNumbersFinite bit_m bits)
  qed
  have m0: "m' = 0 \<longleftrightarrow> \<not> (s \<or> s' \<or> n \<or> n' \<or> b \<or> b' \<or> g \<or> g' \<or> y \<or> y' \<or> u \<or> u' \<or> v \<or> v' \<or> j \<or> j')"
  proof
    assume "m' = 0"
    then have "\<not> bit m' i" for i by simp
    then show "\<not> (s \<or> s' \<or> n \<or> n' \<or> b \<or> b' \<or> g \<or> g' \<or> y \<or> y' \<or> u \<or> u' \<or> v \<or> v' \<or> j \<or> j')"
      using bit_m'[of 0] bit_m'[of 1] bit_m'[of 2] bit_m'[of 3] bit_m'[of 4] bit_m'[of 5] bit_m'[of 6]
        bit_m'[of 7] by (simp add: bits)
  next
    assume "\<not> (s \<or> s' \<or> n \<or> n' \<or> b \<or> b' \<or> g \<or> g' \<or> y \<or> y' \<or> u \<or> u' \<or> v \<or> v' \<or> j \<or> j')"
    then show "m' = 0" by (intro bit_word_eqI) (simp add: bit_m' bits)
  qed
  have r9: "bit (pvd_bits r) 9 \<longleftrightarrow>
    \<not> (s \<or> s' \<or> n \<or> n' \<or> b \<or> b' \<or> g \<or> g' \<or> y \<or> y' \<or> u \<or> u' \<or> v \<or> v' \<or> j \<or> j')"
    by (simp add: bits)
  have none: "m' = 0 \<longleftrightarrow> bit (pvd_bits r) 9"
    using m0 r9 by (simp only:)
  show "bit (pvd_bits (pvd_Union d e)) k = bit (pvd_bits r) k"
    using union bit_m'[of k] none by (cases "m' = 0"; cases "k = 9") (simp_all add: bit_primitiveEmpty)
qed

end
