(* ===== verification/String_Table.thy ===== *)
theory String_Table
  imports Facts
begin

text \<open>
  The string dictionary of the compact frames (\<^verbatim>\<open>stringTableV3\<close> and \<^verbatim>\<open>stringUntableV3\<close> of
  \<^verbatim>\<open>protocolv3_compact.go\<close>): strings are interned in first-occurrence order, index 0 is the empty
  string, and invalid UTF-8 is replaced before interning. The interface the writers rely on is the
  locale \<open>dictionary\<close>; the table is its instance.
\<close>

section \<open>The table\<close>

record stringTableV3 =
  st_indexes :: "string \<rightharpoonup> u64"
  st_values :: "string list"

definition newStringTableV3 :: stringTableV3 where
  "newStringTableV3 = \<lparr>st_indexes = [[] \<mapsto> 0], st_values = [[]]\<rparr>"

definition sanitize :: "string \<Rightarrow> string" where
  "sanitize value = (if \<not> ValidString value then ToValidUTF8 value else value)"

definition intern :: "stringTableV3 \<Rightarrow> string \<Rightarrow> stringTableV3 \<times> u64" where
  "intern t value =
     (let value = sanitize value in
      case st_indexes t value of
        Some index \<Rightarrow> (t, index)
      | None \<Rightarrow>
          let index = of_nat (length (st_values t)) in
          (t\<lparr>st_indexes := (st_indexes t)(value \<mapsto> index), st_values := st_values t @ [value]\<rparr>, index))"

definition lookup :: "string list \<Rightarrow> u64 \<Rightarrow> string result" where
  "lookup t index =
     (if unat index \<ge> length t then Inl (Errorf ''compact string index out of range'')
      else Inr (t ! unat index))"

section \<open>The interface of a dictionary\<close>

text \<open>
  A writer interns strings one after the other and stores the indexes; a reader has the final list of
  strings. Indexes are 64 bits wide, so the laws speak of dictionaries that fit.
\<close>

locale dictionary =
  fixes enter :: "'t \<Rightarrow> string \<Rightarrow> 't \<times> u64"
    and strings :: "'t \<Rightarrow> string list"
    and ok :: "'t \<Rightarrow> bool"
  assumes enter_ok: "ok t \<Longrightarrow> length (strings t) < 2 ^ 64 \<Longrightarrow> ok (fst (enter t s))"
    and enter_extends: "\<exists>more. strings (fst (enter t s)) = strings t @ more \<and> length more \<le> 1"
    and enter_index: "ok t \<Longrightarrow> length (strings t) < 2 ^ 64 \<Longrightarrow>
      unat (snd (enter t s)) < length (strings (fst (enter t s))) \<and>
      strings (fst (enter t s)) ! unat (snd (enter t s)) = sanitize s"
begin

definition final :: "'t \<Rightarrow> string list \<Rightarrow> bool" where
  "final t table \<longleftrightarrow> (\<exists>more. table = strings t @ more)"

lemma final_strings: "final t (strings t)"
  by (simp add: final_def)

lemma final_enter: "final (fst (enter t s)) table \<Longrightarrow> final t table"
  using enter_extends[of t s] by (auto simp: final_def)

lemma enter_length: "length (strings (fst (enter t s))) \<le> Suc (length (strings t))"
  using enter_extends[of t s] by auto

lemma lookup_final:
  assumes "ok t" and "length (strings t) < 2 ^ 64" and "final (fst (enter t s)) table"
  shows "lookup table (snd (enter t s)) = Inr (sanitize s)"
  using assms(3) enter_index[OF assms(1,2), of s]
  by (auto simp: final_def lookup_def nth_append)

end

section \<open>The table implements the interface\<close>

definition table_ok :: "stringTableV3 \<Rightarrow> bool" where
  "table_ok t \<longleftrightarrow>
     (\<forall>v i. st_indexes t v = Some i \<longrightarrow> unat i < length (st_values t) \<and> st_values t ! unat i = v) \<and>
     (\<forall>v \<in> set (st_values t). st_indexes t v \<noteq> None) \<and>
     distinct (st_values t) \<and> st_values t \<noteq> [] \<and> hd (st_values t) = [] \<and>
     (\<forall>v \<in> set (st_values t). ValidString v)"

lemma table_ok_new: "table_ok newStringTableV3"
  by (auto simp: table_ok_def newStringTableV3_def ValidString.simps[of "[]"] split: if_splits)

lemma ValidString_sanitize [simp]: "ValidString (sanitize s)"
  by (simp add: sanitize_def)

lemma sanitize_valid [simp]: "ValidString s \<Longrightarrow> sanitize s = s"
  by (simp add: sanitize_def)

lemma sanitize_idem [simp]: "sanitize (sanitize s) = sanitize s"
  by simp

lemma unat_of_nat_length: "length xs < 2 ^ 64 \<Longrightarrow> unat (of_nat (length xs) :: u64) = length xs"
  by (simp add: unsigned_of_nat take_bit_nat_eq_self)

lemma table_ok_intern:
  assumes "table_ok t" and "length (st_values t) < 2 ^ 64"
  shows "table_ok (fst (intern t s))"
proof (cases "st_indexes t (sanitize s)")
  case None
  then have new: "sanitize s \<notin> set (st_values t)"
    using assms(1) by (auto simp: table_ok_def)
  let ?t = "fst (intern t s)"
  have t: "st_values ?t = st_values t @ [sanitize s]"
    "st_indexes ?t = (st_indexes t)(sanitize s \<mapsto> of_nat (length (st_values t)))"
    using None by (simp_all add: intern_def Let_def)
  have "st_indexes ?t v = Some i \<Longrightarrow> unat i < length (st_values ?t) \<and> st_values ?t ! unat i = v" for v i
    using assms(1) unat_of_nat_length[OF assms(2)]
    by (auto simp: t table_ok_def nth_append less_Suc_eq split: if_splits)
  then show ?thesis
    using assms(1) new by (auto simp: t table_ok_def)
next
  case (Some i)
  then show ?thesis using assms(1) by (simp add: intern_def Let_def)
qed

interpretation table: dictionary intern st_values table_ok
proof
  fix t s
  show "table_ok t \<Longrightarrow> length (st_values t) < 2 ^ 64 \<Longrightarrow> table_ok (fst (intern t s))"
    by (rule table_ok_intern)
  show "\<exists>more. st_values (fst (intern t s)) = st_values t @ more \<and> length more \<le> 1"
    by (auto simp: intern_def Let_def split: option.split)
  assume "table_ok t" and "length (st_values t) < 2 ^ 64"
  then show "unat (snd (intern t s)) < length (st_values (fst (intern t s))) \<and>
    st_values (fst (intern t s)) ! unat (snd (intern t s)) = sanitize s"
    using unat_of_nat_length[of "st_values t"]
    by (auto simp: intern_def Let_def table_ok_def nth_append split: option.split)
qed

end
