(* ===== verification/Compact_Demands.thy ===== *)
theory Compact_Demands
  imports String_Table
begin

text \<open>
  The compact demand frames of \<^verbatim>\<open>protocolv3_compact.go\<close>: the writer \<^verbatim>\<open>CompactDemandsV3From\<close>, the
  reader \<^verbatim>\<open>Expand\<close> with its counting pass \<^verbatim>\<open>demandShape\<close>, and the selective reader
  \<^verbatim>\<open>appendCompactDemandsWithFlag\<close>. Rows are varints: a header of flags and a query bit, the distance
  from the previous start, the length, and the query location where there is one. Offsets are kept at
  64 bits, so the overflow checks of the reader are the ones of the code. The query arena that
  \<^verbatim>\<open>Expand\<close> allocates from the counting pass is modelled by its size: an index past its end is the
  value \<open>Panic\<close>, which is shown not to occur.
\<close>

unbundle bit_operations_syntax

section \<open>Frames and flags\<close>

record CompactDemandGroupV3 =
  cg_Path :: u64
  cg_Demands :: bytes

record CompactDemandsV3 =
  cd_Groups :: "CompactDemandGroupV3 list"
  cd_Strings :: "string list"

definition demandFlagSymbol :: u64 where "demandFlagSymbol = push_bit 0 1"
definition demandFlagReferences :: u64 where "demandFlagReferences = push_bit 1 1"
definition demandFlagTypeDescriptor :: u64 where "demandFlagTypeDescriptor = push_bit 2 1"
definition demandFlagResolvedCall :: u64 where "demandFlagResolvedCall = push_bit 3 1"
definition demandFlagAsync :: u64 where "demandFlagAsync = push_bit 4 1"
definition demandFlagStructuralAccessor :: u64 where "demandFlagStructuralAccessor = push_bit 5 1"
definition demandFlagCallability :: u64 where "demandFlagCallability = push_bit 6 1"
definition demandFlagReferenceSpace :: u64 where "demandFlagReferenceSpace = push_bit 7 1"
definition demandFlagRuntimeIdentity :: u64 where "demandFlagRuntimeIdentity = push_bit 8 1"
definition demandFlagRuntimeValueDomain :: u64 where "demandFlagRuntimeValueDomain = push_bit 9 1"
definition demandFlagCallResultDomain :: u64 where "demandFlagCallResultDomain = push_bit 10 1"
definition demandFlagConstantValue :: u64 where "demandFlagConstantValue = push_bit 11 1"
definition demandFlagArrayShape :: u64 where "demandFlagArrayShape = push_bit 12 1"
definition demandFlagTupleShape :: u64 where "demandFlagTupleShape = push_bit 13 1"
definition demandFlagLibraryTypes :: u64 where "demandFlagLibraryTypes = push_bit 14 1"
definition demandFlagPrimitiveValueDomain :: u64 where "demandFlagPrimitiveValueDomain = push_bit 15 1"
definition demandFlagConstructability :: u64 where "demandFlagConstructability = push_bit 16 1"
definition demandFlagPrimitiveLiteralCandidates :: u64 where
  "demandFlagPrimitiveLiteralCandidates = push_bit 17 1"
definition demandFlagParameterObjectShape :: u64 where "demandFlagParameterObjectShape = push_bit 18 1"

lemmas demand_flag_defs =
  demandFlagSymbol_def demandFlagReferences_def demandFlagTypeDescriptor_def
  demandFlagResolvedCall_def demandFlagAsync_def demandFlagStructuralAccessor_def
  demandFlagCallability_def demandFlagReferenceSpace_def demandFlagRuntimeIdentity_def
  demandFlagRuntimeValueDomain_def demandFlagCallResultDomain_def demandFlagConstantValue_def
  demandFlagArrayShape_def demandFlagTupleShape_def demandFlagLibraryTypes_def
  demandFlagPrimitiveValueDomain_def demandFlagConstructability_def
  demandFlagPrimitiveLiteralCandidates_def demandFlagParameterObjectShape_def

definition flagIf :: "bool \<Rightarrow> u64 \<Rightarrow> u64" where
  "flagIf isset flag = (if isset then flag else 0)"

definition demandFlags :: "EntityDemand \<Rightarrow> u64" where
  "demandFlags d =
     flagIf (dem_Symbol d) demandFlagSymbol OR
     flagIf (dem_References d) demandFlagReferences OR
     flagIf (dem_TypeDescriptor d) demandFlagTypeDescriptor OR
     flagIf (dem_ResolvedCall d) demandFlagResolvedCall OR
     flagIf (dem_Async d) demandFlagAsync OR
     flagIf (dem_StructuralAccessor d) demandFlagStructuralAccessor OR
     flagIf (dem_Callability d) demandFlagCallability OR
     flagIf (dem_ReferenceSpace d) demandFlagReferenceSpace OR
     flagIf (dem_RuntimeIdentity d) demandFlagRuntimeIdentity OR
     flagIf (dem_RuntimeValueDomain d) demandFlagRuntimeValueDomain OR
     flagIf (dem_CallResultDomain d) demandFlagCallResultDomain OR
     flagIf (dem_ConstantValue d) demandFlagConstantValue OR
     flagIf (dem_ArrayShape d) demandFlagArrayShape OR
     flagIf (dem_TupleShape d) demandFlagTupleShape OR
     flagIf (dem_LibraryTypes d) demandFlagLibraryTypes OR
     flagIf (dem_PrimitiveValueDomain d) demandFlagPrimitiveValueDomain OR
     flagIf (dem_PrimitiveLiteralCandidates d) demandFlagPrimitiveLiteralCandidates OR
     flagIf (dem_ParameterObjectShape d) demandFlagParameterObjectShape OR
     flagIf (dem_Constructability d) demandFlagConstructability"

definition hasFlag :: "u64 \<Rightarrow> u64 \<Rightarrow> bool" where
  "hasFlag flags flag \<longleftrightarrow> flags AND flag \<noteq> 0"

definition demandOfFlags :: "string \<Rightarrow> u64 \<Rightarrow> u64 \<Rightarrow> u64 \<Rightarrow> EntityDemand" where
  "demandOfFlags path start stop flags =
     \<lparr>dem_Location = \<lparr>loc_Path = path, loc_StartByte = go_int start, loc_EndByte = go_int stop\<rparr>,
      dem_QueryLocation = None,
      dem_Symbol = hasFlag flags demandFlagSymbol,
      dem_TypeDescriptor = hasFlag flags demandFlagTypeDescriptor,
      dem_ResolvedCall = hasFlag flags demandFlagResolvedCall,
      dem_Callability = hasFlag flags demandFlagCallability,
      dem_Constructability = hasFlag flags demandFlagConstructability,
      dem_RuntimeValueDomain = hasFlag flags demandFlagRuntimeValueDomain,
      dem_PrimitiveValueDomain = hasFlag flags demandFlagPrimitiveValueDomain,
      dem_PrimitiveLiteralCandidates = hasFlag flags demandFlagPrimitiveLiteralCandidates,
      dem_ParameterObjectShape = hasFlag flags demandFlagParameterObjectShape,
      dem_CallResultDomain = hasFlag flags demandFlagCallResultDomain,
      dem_ConstantValue = hasFlag flags demandFlagConstantValue,
      dem_ArrayShape = hasFlag flags demandFlagArrayShape,
      dem_TupleShape = hasFlag flags demandFlagTupleShape,
      dem_LibraryTypes = hasFlag flags demandFlagLibraryTypes,
      dem_ReferenceSpace = hasFlag flags demandFlagReferenceSpace,
      dem_RuntimeIdentity = hasFlag flags demandFlagRuntimeIdentity,
      dem_References = hasFlag flags demandFlagReferences,
      dem_Async = hasFlag flags demandFlagAsync,
      dem_StructuralAccessor = hasFlag flags demandFlagStructuralAccessor\<rparr>"

section \<open>The writer\<close>

definition queryRow :: "stringTableV3 \<Rightarrow> Location option \<Rightarrow> stringTableV3 \<times> bytes" where
  "queryRow strings query =
     (case query of
        None \<Rightarrow> (strings, [])
      | Some q \<Rightarrow>
          let (strings, path) = intern strings (loc_Path q) in
          (strings, AppendUvarint path @ AppendUvarint (uint64 (loc_StartByte q)) @
             AppendUvarint (uint64 (loc_EndByte q - loc_StartByte q))))"

definition demandHeader :: "EntityDemand \<Rightarrow> u64" where
  "demandHeader d =
     push_bit 1 (demandFlags d) OR (if dem_QueryLocation d \<noteq> None then 1 else 0)"

definition compactDemandStep ::
    "EntityDemand \<Rightarrow> stringTableV3 \<times> CompactDemandGroupV3 list \<times> int \<Rightarrow>
     stringTableV3 \<times> CompactDemandGroupV3 list \<times> int" where
  "compactDemandStep d = (\<lambda>(strings, groups, previousStart).
     let loc = dem_Location d;
         (strings, path) = intern strings (loc_Path loc);
         fresh = (groups = [] \<or> cg_Path (last groups) \<noteq> path \<or> loc_StartByte loc < previousStart);
         groups = (if fresh then groups @ [\<lparr>cg_Path = path, cg_Demands = []\<rparr>] else groups);
         previousStart = (if fresh then 0 else previousStart);
         row = AppendUvarint (demandHeader d) @
           AppendUvarint (uint64 (loc_StartByte loc - previousStart)) @
           AppendUvarint (uint64 (loc_EndByte loc - loc_StartByte loc));
         (strings, query) = queryRow strings (dem_QueryLocation d);
         run = last groups
     in (strings,
         butlast groups @ [run\<lparr>cg_Demands := cg_Demands run @ row @ query\<rparr>],
         loc_StartByte loc))"

definition CompactDemandsV3From :: "EntityDemand list \<Rightarrow> CompactDemandsV3" where
  "CompactDemandsV3From demands =
     (case fold compactDemandStep demands (newStringTableV3, [], 0) of
        (strings, groups, _) \<Rightarrow> \<lparr>cd_Groups = groups, cd_Strings = st_values strings\<rparr>)"

section \<open>The readers\<close>

definition takeCompactUvarint :: "bytes \<Rightarrow> (u64 \<times> bytes) result" where
  "takeCompactUvarint input =
     (case Uvarint input of
        Inl Truncated \<Rightarrow> Inl (Errorf ''truncated compact demand varint'')
      | Inl Overflow \<Rightarrow> Inl (Errorf ''overflowing compact demand varint'')
      | Inr r \<Rightarrow> Inr r)"

text \<open>The header, start and end of one row, with the overflow check of the reader.\<close>

definition takeDemandRow :: "u64 \<Rightarrow> bytes \<Rightarrow> (u64 \<times> u64 \<times> u64 \<times> bytes) result" where
  "takeDemandRow previousStart packed =
     bind_result (takeCompactUvarint packed) (\<lambda>(header, rest).
     bind_result (takeCompactUvarint rest) (\<lambda>(startDelta, rest).
     bind_result (takeCompactUvarint rest) (\<lambda>(length, rest).
       let start = previousStart + startDelta in
       if start < previousStart \<or> start + length < start
       then Inl (Errorf ''compact demand location overflow'')
       else Inr (header, start, start + length, rest))))"

definition takeQueryRow :: "bytes \<Rightarrow> (u64 \<times> u64 \<times> u64 \<times> bytes) result" where
  "takeQueryRow rest =
     bind_result (takeCompactUvarint rest) (\<lambda>(pathIndex, rest).
     bind_result (takeCompactUvarint rest) (\<lambda>(start, rest).
     bind_result (takeCompactUvarint rest) (\<lambda>(length, rest).
       if start + length < start
       then Inl (Errorf ''compact demand query location overflow'')
       else Inr (pathIndex, start, start + length, rest))))"

lemma takeCompactUvarint_shorter:
  "takeCompactUvarint bs = Inr (v, rest) \<Longrightarrow> length rest < length bs"
  by (auto simp: takeCompactUvarint_def dest: Uvarint_shorter
      split: sum.splits varint_error.splits)

lemma takeDemandRow_shorter:
  "takeDemandRow p bs = Inr (h, s, e, rest) \<Longrightarrow> length rest < length bs"
  by (auto simp: takeDemandRow_def bind_result_eq_Inr_iff Let_def split: prod.splits if_splits
      dest!: takeCompactUvarint_shorter)

lemma takeQueryRow_shorter:
  "takeQueryRow bs = Inr (h, s, e, rest) \<Longrightarrow> length rest < length bs"
  by (auto simp: takeQueryRow_def bind_result_eq_Inr_iff split: prod.splits if_splits
      dest!: takeCompactUvarint_shorter)

function shapeRows :: "bytes \<Rightarrow> nat \<Rightarrow> nat \<Rightarrow> (nat \<times> nat) result" where
  "shapeRows packed demandCount queryCount =
     (if packed = [] then Inr (demandCount, queryCount)
      else bind_result (takeCompactUvarint packed) (\<lambda>(header, rest1).
       bind_result (takeCompactUvarint rest1) (\<lambda>(_, rest2).
       bind_result (takeCompactUvarint rest2) (\<lambda>(_, rest3).
         if header AND 1 \<noteq> 0 then
           bind_result (takeCompactUvarint rest3) (\<lambda>(_, rest4).
           bind_result (takeCompactUvarint rest4) (\<lambda>(_, rest5).
           bind_result (takeCompactUvarint rest5) (\<lambda>(_, rest6).
             shapeRows rest6 (Suc demandCount) (Suc queryCount))))
         else shapeRows rest3 (Suc demandCount) queryCount))))"
  by pat_completeness auto
termination
  by (relation "measure (\<lambda>(packed, d, q). length packed)") (auto dest!: takeCompactUvarint_shorter)

declare shapeRows.simps [simp del]

fun shapeGroups :: "CompactDemandGroupV3 list \<Rightarrow> nat \<Rightarrow> nat \<Rightarrow> (nat \<times> nat) result" where
  "shapeGroups [] d q = Inr (d, q)"
| "shapeGroups (g # gs) d q =
     bind_result (shapeRows (cg_Demands g) d q) (\<lambda>(d, q). shapeGroups gs d q)"

definition demandShape :: "CompactDemandsV3 \<Rightarrow> (nat \<times> nat) result" where
  "demandShape compact = shapeGroups (cd_Groups compact) 0 0"

function expandRows ::
    "string list \<Rightarrow> string \<Rightarrow> nat \<Rightarrow> bytes \<Rightarrow> u64 \<Rightarrow> nat \<Rightarrow> EntityDemand list \<Rightarrow>
     (EntityDemand list \<times> nat) result" where
  "expandRows strings path queryCount packed previousStart queryIndex demands =
     (if packed = [] then Inr (demands, queryIndex)
      else bind_result (takeDemandRow previousStart packed) (\<lambda>(header, start, stop, rest).
        let demand = demandOfFlags path start stop (drop_bit 1 header) in
        if header AND 1 \<noteq> 0 then
          bind_result (takeQueryRow rest) (\<lambda>(pathIndex, queryStart, queryStop, next).
          bind_result (lookup strings pathIndex) (\<lambda>queryPath.
            if queryIndex \<ge> queryCount then Inl (Panic ''index out of range: queries'')
            else expandRows strings path queryCount next start (Suc queryIndex)
              (demands @ [demand\<lparr>dem_QueryLocation := Some \<lparr>loc_Path = queryPath,
                 loc_StartByte = go_int queryStart, loc_EndByte = go_int queryStop\<rparr>\<rparr>])))
        else expandRows strings path queryCount rest start queryIndex (demands @ [demand])))"
  by pat_completeness auto
termination
  by (relation "measure (\<lambda>(s, p, c, packed, pr, qi, ds). length packed)")
     (auto dest!: takeDemandRow_shorter takeQueryRow_shorter)

declare expandRows.simps [simp del]

fun expandGroups ::
    "string list \<Rightarrow> nat \<Rightarrow> CompactDemandGroupV3 list \<Rightarrow> nat \<Rightarrow> EntityDemand list \<Rightarrow>
     (EntityDemand list \<times> nat) result" where
  "expandGroups strings queryCount [] queryIndex demands = Inr (demands, queryIndex)"
| "expandGroups strings queryCount (g # gs) queryIndex demands =
     bind_result (lookup strings (cg_Path g)) (\<lambda>path.
     bind_result (expandRows strings path queryCount (cg_Demands g) 0 queryIndex demands)
       (\<lambda>(demands, queryIndex). expandGroups strings queryCount gs queryIndex demands))"

definition Expand :: "CompactDemandsV3 \<Rightarrow> EntityDemand list result" where
  "Expand compact =
     bind_result (demandShape compact) (\<lambda>(demandCount, queryCount).
     bind_result (expandGroups (cd_Strings compact) queryCount (cd_Groups compact) 0 [])
       (\<lambda>(demands, _). Inr demands))"

function appendFlaggedRows ::
    "string list \<Rightarrow> string \<Rightarrow> u64 \<Rightarrow> bytes \<Rightarrow> u64 \<Rightarrow> EntityDemand list \<Rightarrow> EntityDemand list result" where
  "appendFlaggedRows strings path requiredFlag packed previousStart target =
     (if packed = [] then Inr target
      else bind_result (takeDemandRow previousStart packed) (\<lambda>(header, start, stop, rest).
        let flags = drop_bit 1 header;
            selected = hasFlag flags requiredFlag;
            demand = demandOfFlags path start stop flags in
        if header AND 1 \<noteq> 0 then
          bind_result (takeQueryRow rest) (\<lambda>(pathIndex, queryStart, queryStop, next).
            if selected then
              bind_result (lookup strings pathIndex) (\<lambda>queryPath.
                appendFlaggedRows strings path requiredFlag next start
                  (target @ [demand\<lparr>dem_QueryLocation := Some \<lparr>loc_Path = queryPath,
                     loc_StartByte = go_int queryStart, loc_EndByte = go_int queryStop\<rparr>\<rparr>]))
            else appendFlaggedRows strings path requiredFlag next start target)
        else appendFlaggedRows strings path requiredFlag rest start
               (if selected then target @ [demand] else target)))"
  by pat_completeness auto
termination
  by (relation "measure (\<lambda>(s, p, f, packed, pr, ds). length packed)")
     (auto dest!: takeDemandRow_shorter takeQueryRow_shorter)

declare appendFlaggedRows.simps [simp del]

definition appendCompactDemandsWithFlag ::
    "EntityDemand list \<Rightarrow> CompactDemandGroupV3 \<Rightarrow> string list \<Rightarrow> u64 \<Rightarrow> EntityDemand list result" where
  "appendCompactDemandsWithFlag target run stringTable requiredFlag =
     bind_result (lookup stringTable (cg_Path run)) (\<lambda>path.
       appendFlaggedRows stringTable path requiredFlag (cg_Demands run) 0 target)"

section \<open>The counting pass and the reader agree\<close>

lemma expandRows_shape:
  "expandRows strings path qc packed prev qi ds = Inr (ds', qi') \<Longrightarrow>
   \<exists>new. ds' = ds @ new \<and> qi' = qi + length (filter (\<lambda>d. dem_QueryLocation d \<noteq> None) new) \<and>
     shapeRows packed d q =
       Inr (d + length new, q + length (filter (\<lambda>d. dem_QueryLocation d \<noteq> None) new))"
proof (induction strings path qc packed prev qi ds arbitrary: d q rule: expandRows.induct)
  case (1 strings path qc packed prev qi ds)
  show ?case
  proof (cases "packed = []")
    case True
    then show ?thesis
      using "1.prems" by (simp add: expandRows.simps[of _ _ _ "[]"] shapeRows.simps[of "[]"])
  next
    case False
    with "1.prems" obtain header start stop rest where
      row: "takeDemandRow prev packed = Inr (header, start, stop, rest)"
      by (subst (asm) expandRows.simps) (auto simp: bind_result_eq_Inr_iff)
    then obtain r1 r2 a b where
      take: "takeCompactUvarint packed = Inr (header, r1)" "takeCompactUvarint r1 = Inr (a, r2)"
        "takeCompactUvarint r2 = Inr (b, rest)"
      by (auto simp: takeDemandRow_def bind_result_eq_Inr_iff Let_def split: if_splits)
    let ?d = "demandOfFlags path start stop (drop_bit 1 header)"
    show ?thesis
    proof (cases "header AND 1 \<noteq> 0")
      case True
      with "1.prems" False row obtain i qs qe next' qp where
        query: "takeQueryRow rest = Inr (i, qs, qe, next')" and path: "lookup strings i = Inr qp"
        and lt: "\<not> qi \<ge> qc" and
        rec: "expandRows strings path qc next' start (Suc qi) (ds @ [?d\<lparr>dem_QueryLocation :=
          Some \<lparr>loc_Path = qp, loc_StartByte = go_int qs, loc_EndByte = go_int qe\<rparr>\<rparr>]) = Inr (ds', qi')"
        by (subst (asm) expandRows.simps)
           (auto simp: bind_result_eq_Inr_iff Let_def split: if_splits)
      from query obtain r4 r5 v w where
        take2: "takeCompactUvarint rest = Inr (i, r4)" "takeCompactUvarint r4 = Inr (v, r5)"
          "takeCompactUvarint r5 = Inr (w, next')"
        by (auto simp: takeQueryRow_def bind_result_eq_Inr_iff split: if_splits)
      from "1.IH"(1)[OF False row refl refl refl refl True query refl refl refl path lt rec,
          of "Suc d" "Suc q"]
      show ?thesis
        using False take take2 True by (auto simp: shapeRows.simps[of packed])
    next
      case no: False
      with "1.prems" False row have
        rec: "expandRows strings path qc rest start qi (ds @ [?d]) = Inr (ds', qi')"
        by (subst (asm) expandRows.simps)
           (auto simp: bind_result_eq_Inr_iff Let_def split: if_splits)
      have "dem_QueryLocation ?d = None" by (simp add: demandOfFlags_def)
      with "1.IH"(2)[OF False row refl refl refl refl no rec, of "Suc d" q]
      show ?thesis
        using False take no by (auto simp: shapeRows.simps[of packed])
    qed
  qed
qed

lemma takeCompactUvarint_no_Panic: "takeCompactUvarint bs \<noteq> Inl (Panic m)"
  by (auto simp: takeCompactUvarint_def split: sum.splits varint_error.splits)

lemma takeDemandRow_no_Panic: "takeDemandRow p bs \<noteq> Inl (Panic m)"
  by (auto simp: takeDemandRow_def bind_result_eq_Inl_iff takeCompactUvarint_no_Panic Let_def
      split: prod.splits if_splits)

lemma takeQueryRow_no_Panic: "takeQueryRow bs \<noteq> Inl (Panic m)"
  by (auto simp: takeQueryRow_def bind_result_eq_Inl_iff takeCompactUvarint_no_Panic
      split: prod.splits if_splits)

lemma lookup_no_Panic: "lookup t i \<noteq> Inl (Panic m)"
  by (simp add: lookup_def)

lemmas no_Panic = takeCompactUvarint_no_Panic takeDemandRow_no_Panic takeQueryRow_no_Panic
  lookup_no_Panic

lemma shapeRows_mono: "shapeRows packed d q = Inr (d', q') \<Longrightarrow> q \<le> q'"
proof (induction packed d q rule: shapeRows.induct)
  case (1 packed d q)
  show ?case
  proof (cases "packed = []")
    case True
    then show ?thesis using "1.prems" by (simp add: shapeRows.simps[of "[]"])
  next
    case False
    with "1.prems" "1.IH" show ?thesis
      by (subst (asm) shapeRows.simps)
         (fastforce simp: bind_result_eq_Inr_iff split: if_splits dest: Suc_leD)
  qed
qed

lemma shapeRows_no_Panic: "shapeRows packed d q \<noteq> Inl (Panic m)"
proof (induction "length packed" arbitrary: packed d q rule: less_induct)
  case less
  show ?case
  proof
    assume "shapeRows packed d q = Inl (Panic m)"
    with less show False
      by (subst (asm) shapeRows.simps)
         (auto simp: bind_result_eq_Inl_iff no_Panic split: if_splits
            dest!: takeCompactUvarint_shorter)
  qed
qed

lemma expandRows_no_Panic:
  "shapeRows packed d q = Inr (d', q') \<Longrightarrow> qi + (q' - q) \<le> qc \<Longrightarrow>
     expandRows strings path qc packed prev qi ds \<noteq> Inl (Panic m)"
proof (induction strings path qc packed prev qi ds arbitrary: d q rule: expandRows.induct)
  case (1 strings path qc packed prev qi ds)
  show ?case
  proof
    assume panic: "expandRows strings path qc packed prev qi ds = Inl (Panic m)"
    then have False: "packed \<noteq> []" by (auto simp: expandRows.simps[of _ _ _ "[]"])
    with panic obtain header start stop rest where
      row: "takeDemandRow prev packed = Inr (header, start, stop, rest)"
      by (subst (asm) expandRows.simps) (auto simp: bind_result_eq_Inl_iff no_Panic)
    then obtain r1 r2 a b where
      take: "takeCompactUvarint packed = Inr (header, r1)" "takeCompactUvarint r1 = Inr (a, r2)"
        "takeCompactUvarint r2 = Inr (b, rest)"
      by (auto simp: takeDemandRow_def bind_result_eq_Inr_iff Let_def split: if_splits)
    let ?d = "demandOfFlags path start stop (drop_bit 1 header)"
    show False
    proof (cases "header AND 1 \<noteq> 0")
      case True
      from "1.prems"(1) False take True obtain i r4 v r5 w r6 where
        take2: "takeCompactUvarint rest = Inr (i, r4)" "takeCompactUvarint r4 = Inr (v, r5)"
          "takeCompactUvarint r5 = Inr (w, r6)"
        and shape: "shapeRows r6 (Suc d) (Suc q) = Inr (d', q')"
        by (subst (asm) shapeRows.simps) (auto simp: bind_result_eq_Inr_iff)
      have lt: "\<not> qi \<ge> qc" and le: "Suc qi + (q' - Suc q) \<le> qc"
        using shapeRows_mono[OF shape] "1.prems"(2) by auto
      from panic False row True lt take2 obtain qs qe qp where
        query: "takeQueryRow rest = Inr (i, qs, qe, r6)" and path: "lookup strings i = Inr qp" and
        rec: "expandRows strings path qc r6 start (Suc qi) (ds @ [?d\<lparr>dem_QueryLocation :=
          Some \<lparr>loc_Path = qp, loc_StartByte = go_int qs, loc_EndByte = go_int qe\<rparr>\<rparr>]) = Inl (Panic m)"
        by (subst (asm) expandRows.simps)
           (auto simp: bind_result_eq_Inl_iff no_Panic takeQueryRow_def split: if_splits)
      show False
        using "1.IH"(1)[OF False row refl refl refl refl True query refl refl refl path lt shape le] rec
        by contradiction
    next
      case no: False
      from panic False row no have
        rec: "expandRows strings path qc rest start qi (ds @ [?d]) = Inl (Panic m)"
        by (subst (asm) expandRows.simps) (auto simp: bind_result_eq_Inl_iff Let_def)
      have shape: "shapeRows rest (Suc d) q = Inr (d', q')"
        using "1.prems"(1) False take no by (subst (asm) shapeRows.simps) auto
      show False
        using "1.IH"(2)[OF False row refl refl refl refl no shape "1.prems"(2)] rec by contradiction
    qed
  qed
qed

lemma expandGroups_shape:
  "expandGroups strings qc gs qi ds = Inr (ds', qi') \<Longrightarrow>
   \<exists>new. ds' = ds @ new \<and> qi' = qi + length (filter (\<lambda>d. dem_QueryLocation d \<noteq> None) new) \<and>
     shapeGroups gs d q =
       Inr (d + length new, q + length (filter (\<lambda>d. dem_QueryLocation d \<noteq> None) new))"
proof (induction gs arbitrary: qi ds d q)
  case Nil
  then show ?case by simp
next
  case (Cons g gs)
  then obtain path ds1 qi1 where
    rows: "expandRows strings path qc (cg_Demands g) 0 qi ds = Inr (ds1, qi1)"
    and rest: "expandGroups strings qc gs qi1 ds1 = Inr (ds', qi')"
    by (auto simp: bind_result_eq_Inr_iff)
  from expandRows_shape[OF rows, of d q] obtain new1 where new1: "ds1 = ds @ new1"
    "qi1 = qi + length (filter (\<lambda>d. dem_QueryLocation d \<noteq> None) new1)"
    "shapeRows (cg_Demands g) d q =
       Inr (d + length new1, q + length (filter (\<lambda>d. dem_QueryLocation d \<noteq> None) new1))"
    by blast
  from Cons.IH[OF rest, of "d + length new1" "q + length (filter (\<lambda>d. dem_QueryLocation d \<noteq> None) new1)"]
  obtain new2 where "ds' = ds1 @ new2"
    "qi' = qi1 + length (filter (\<lambda>d. dem_QueryLocation d \<noteq> None) new2)"
    "shapeGroups gs (d + length new1) (q + length (filter (\<lambda>d. dem_QueryLocation d \<noteq> None) new1)) =
       Inr (d + length new1 + length new2,
         q + length (filter (\<lambda>d. dem_QueryLocation d \<noteq> None) new1) +
         length (filter (\<lambda>d. dem_QueryLocation d \<noteq> None) new2))"
    by blast
  with new1 show ?case by (intro exI[of _ "new1 @ new2"]) simp
qed

lemma shapeGroups_mono: "shapeGroups gs d q = Inr (d', q') \<Longrightarrow> q \<le> q'"
  by (induction gs arbitrary: d q) (auto simp: bind_result_eq_Inr_iff dest!: shapeRows_mono
      intro: order_trans)

lemma expandGroups_no_Panic:
  "shapeGroups gs d q = Inr (d', q') \<Longrightarrow> qi + (q' - q) \<le> qc \<Longrightarrow>
     expandGroups strings qc gs qi ds \<noteq> Inl (Panic m)"
proof (induction gs arbitrary: qi ds d q)
  case Nil
  then show ?case by simp
next
  case (Cons g gs)
  from Cons.prems(1) obtain d1 q1 where rows: "shapeRows (cg_Demands g) d q = Inr (d1, q1)"
    and rest: "shapeGroups gs d1 q1 = Inr (d', q')"
    by (auto simp: bind_result_eq_Inr_iff)
  have le: "q \<le> q1" "q1 \<le> q'"
    using shapeRows_mono[OF rows] shapeGroups_mono[OF rest] by auto
  have first: "expandRows strings path qc (cg_Demands g) 0 qi ds \<noteq> Inl (Panic m)" for path
    using Cons.prems(2) le by (intro expandRows_no_Panic[OF rows]) simp
  have "expandGroups strings qc gs qi1 ds1 \<noteq> Inl (Panic m)"
    if "expandRows strings path qc (cg_Demands g) 0 qi ds = Inr (ds1, qi1)" for path ds1 qi1
  proof -
    from expandRows_shape[OF that, of d q] rows have "qi1 = qi + (q1 - q)" by auto
    then show ?thesis
      using Cons.prems(2) le by (intro Cons.IH[OF rest]) simp
  qed
  then show ?case
    using first by (auto simp: bind_result_eq_Inl_iff no_Panic)
qed

lemma shapeGroups_no_Panic: "shapeGroups gs d q \<noteq> Inl (Panic m)"
  by (induction gs arbitrary: d q) (auto simp: bind_result_eq_Inl_iff shapeRows_no_Panic)

lemma Expand_no_Panic: "Expand compact \<noteq> Inl (Panic m)"
proof
  assume panic: "Expand compact = Inl (Panic m)"
  then obtain dc qc where shape: "demandShape compact = Inr (dc, qc)"
    and "expandGroups (cd_Strings compact) qc (cd_Groups compact) 0 [] = Inl (Panic m)"
    by (auto simp: Expand_def bind_result_eq_Inl_iff demandShape_def shapeGroups_no_Panic)
  then show False
    using expandGroups_no_Panic[of "cd_Groups compact" 0 0 dc qc 0 qc] by (simp add: demandShape_def)
qed

lemma Expand_demandShape:
  assumes "Expand compact = Inr ds"
  shows "demandShape compact =
    Inr (length ds, length (filter (\<lambda>d. dem_QueryLocation d \<noteq> None) ds))"
proof -
  from assms obtain dc qc qi where
    "expandGroups (cd_Strings compact) qc (cd_Groups compact) 0 [] = Inr (ds, qi)"
    by (auto simp: Expand_def bind_result_eq_Inr_iff)
  from expandGroups_shape[OF this, of 0 0] show ?thesis by (simp add: demandShape_def)
qed

end
