(* ===== verification/Compact_Roundtrip.thy ===== *)
theory Compact_Roundtrip
  imports Compact_Demands
begin

text \<open>
  The writer and the two readers of the compact demand frames agree: \<^verbatim>\<open>Expand\<close> returns the demands
  that \<^verbatim>\<open>CompactDemandsV3From\<close> was given, in their order and with their paths made valid UTF-8, and
  \<^verbatim>\<open>appendCompactDemandsWithFlag\<close> returns exactly the expanded demands that carry the flag.
\<close>

unbundle bit_operations_syntax

section \<open>Flags\<close>

lemma bit_flagIf: "bit (flagIf b (push_bit k 1)) n \<longleftrightarrow> b \<and> n = k \<and> k < 64"
  by (auto simp: flagIf_def bit_push_bit_1 simp del: push_bit_of_1 push_bit_numeral)

lemma hasFlag_push_bit: "hasFlag flags (push_bit k 1) \<longleftrightarrow> bit flags k"
  unfolding hasFlag_def by (rule and_push_bit_1)

lemma bit_demandFlags:
  "bit (demandFlags d) n \<longleftrightarrow>
     dem_Symbol d \<and> n = 0 \<or> dem_References d \<and> n = 1 \<or>
     dem_TypeDescriptor d \<and> n = 2 \<or> dem_ResolvedCall d \<and> n = 3 \<or>
     dem_Async d \<and> n = 4 \<or> dem_StructuralAccessor d \<and> n = 5 \<or>
     dem_Callability d \<and> n = 6 \<or> dem_ReferenceSpace d \<and> n = 7 \<or>
     dem_RuntimeIdentity d \<and> n = 8 \<or> dem_RuntimeValueDomain d \<and> n = 9 \<or>
     dem_CallResultDomain d \<and> n = 10 \<or> dem_ConstantValue d \<and> n = 11 \<or>
     dem_ArrayShape d \<and> n = 12 \<or> dem_TupleShape d \<and> n = 13 \<or>
     dem_LibraryTypes d \<and> n = 14 \<or> dem_PrimitiveValueDomain d \<and> n = 15 \<or>
     dem_PrimitiveLiteralCandidates d \<and> n = 17 \<or> dem_ParameterObjectShape d \<and> n = 18 \<or>
     dem_Constructability d \<and> n = 16"
  unfolding demandFlags_def demand_flag_defs bit_or_iff bit_flagIf by simp

lemma hasFlag_demandFlags:
  "hasFlag (demandFlags d) demandFlagSymbol = dem_Symbol d"
  "hasFlag (demandFlags d) demandFlagReferences = dem_References d"
  "hasFlag (demandFlags d) demandFlagTypeDescriptor = dem_TypeDescriptor d"
  "hasFlag (demandFlags d) demandFlagResolvedCall = dem_ResolvedCall d"
  "hasFlag (demandFlags d) demandFlagAsync = dem_Async d"
  "hasFlag (demandFlags d) demandFlagStructuralAccessor = dem_StructuralAccessor d"
  "hasFlag (demandFlags d) demandFlagCallability = dem_Callability d"
  "hasFlag (demandFlags d) demandFlagReferenceSpace = dem_ReferenceSpace d"
  "hasFlag (demandFlags d) demandFlagRuntimeIdentity = dem_RuntimeIdentity d"
  "hasFlag (demandFlags d) demandFlagRuntimeValueDomain = dem_RuntimeValueDomain d"
  "hasFlag (demandFlags d) demandFlagCallResultDomain = dem_CallResultDomain d"
  "hasFlag (demandFlags d) demandFlagConstantValue = dem_ConstantValue d"
  "hasFlag (demandFlags d) demandFlagArrayShape = dem_ArrayShape d"
  "hasFlag (demandFlags d) demandFlagTupleShape = dem_TupleShape d"
  "hasFlag (demandFlags d) demandFlagLibraryTypes = dem_LibraryTypes d"
  "hasFlag (demandFlags d) demandFlagPrimitiveValueDomain = dem_PrimitiveValueDomain d"
  "hasFlag (demandFlags d) demandFlagConstructability = dem_Constructability d"
  "hasFlag (demandFlags d) demandFlagPrimitiveLiteralCandidates = dem_PrimitiveLiteralCandidates d"
  "hasFlag (demandFlags d) demandFlagParameterObjectShape = dem_ParameterObjectShape d"
  unfolding demand_flag_defs hasFlag_push_bit bit_demandFlags by simp_all

lemma bit_demandHeader:
  "bit (demandHeader d) n \<longleftrightarrow>
     n = 0 \<and> dem_QueryLocation d \<noteq> None \<or> 0 < n \<and> n < 64 \<and> bit (demandFlags d) (n - 1)"
  unfolding demandHeader_def bit_or_iff bit_push_bit_iff
  by (cases n) (auto simp: bit_1_iff)

lemma demandHeader_flags: "drop_bit 1 (demandHeader d) = demandFlags d"
proof (rule bit_word_eqI)
  fix n assume "n < LENGTH(64)"
  have "\<not> bit (demandFlags d) 63" by (simp add: bit_demandFlags)
  then show "bit (drop_bit 1 (demandHeader d)) n = bit (demandFlags d) n"
    using \<open>n < LENGTH(64)\<close> unfolding bit_drop_bit_eq comp_def bit_demandHeader
    by (cases "n = 63") auto
qed

lemma demandHeader_query: "demandHeader d AND 1 \<noteq> 0 \<longleftrightarrow> dem_QueryLocation d \<noteq> None"
  using and_push_bit_1[of "demandHeader d" 0] bit_demandHeader[of d 0] by simp

section \<open>Rows\<close>

definition location_ok :: "Location \<Rightarrow> bool" where
  "location_ok l \<longleftrightarrow> 0 \<le> loc_StartByte l \<and> loc_StartByte l \<le> loc_EndByte l \<and> loc_EndByte l < 2 ^ 63"

definition demand_ok :: "EntityDemand \<Rightarrow> bool" where
  "demand_ok d \<longleftrightarrow> location_ok (dem_Location d) \<and>
     (case dem_QueryLocation d of None \<Rightarrow> True | Some q \<Rightarrow> location_ok q)"

definition sanitizeLocation :: "Location \<Rightarrow> Location" where
  "sanitizeLocation l = l\<lparr>loc_Path := sanitize (loc_Path l)\<rparr>"

definition sanitizeDemand :: "EntityDemand \<Rightarrow> EntityDemand" where
  "sanitizeDemand d = d\<lparr>dem_Location := sanitizeLocation (dem_Location d),
     dem_QueryLocation := map_option sanitizeLocation (dem_QueryLocation d)\<rparr>"

lemma takeCompactUvarint_append [codec_simps]:
  "takeCompactUvarint (AppendUvarint v @ rest) = Inr (v, rest)"
  by (simp add: takeCompactUvarint_def codec_simps)

lemma uint64_less_iff:
  "0 \<le> x \<Longrightarrow> x < 2 ^ 64 \<Longrightarrow> 0 \<le> y \<Longrightarrow> y < 2 ^ 64 \<Longrightarrow> uint64 x < uint64 y \<longleftrightarrow> x < y"
  by (simp add: word_less_def uint_uint64)

lemma takeDemandRow_append:
  assumes "0 \<le> p" and "p \<le> s" and "s \<le> e" and "e < 2 ^ 63"
  shows "takeDemandRow (uint64 p) (AppendUvarint h @ AppendUvarint (uint64 (s - p)) @
    AppendUvarint (uint64 (e - s)) @ rest) = Inr (h, uint64 s, uint64 e, rest)"
  using assms by (simp add: takeDemandRow_def codec_simps uint64_add uint64_less_iff)

lemma takeQueryRow_append:
  assumes "0 \<le> s" and "s \<le> e" and "e < 2 ^ 63"
  shows "takeQueryRow (AppendUvarint i @ AppendUvarint (uint64 s) @
    AppendUvarint (uint64 (e - s)) @ rest) = Inr (i, uint64 s, uint64 e, rest)"
  using assms by (simp add: takeQueryRow_def codec_simps uint64_add uint64_less_iff)

lemma demandOfFlags_demandFlags:
  assumes "location_ok (dem_Location d)"
  shows "demandOfFlags (sanitize (loc_Path (dem_Location d))) (uint64 (loc_StartByte (dem_Location d)))
      (uint64 (loc_EndByte (dem_Location d))) (demandFlags d) =
    d\<lparr>dem_Location := sanitizeLocation (dem_Location d), dem_QueryLocation := None\<rparr>"
  using assms
  by (simp add: demandOfFlags_def hasFlag_demandFlags sanitizeLocation_def location_ok_def go_int_uint64)

text \<open>
  \<open>rows_read strings path prev packed ds reached\<close>: reading \<open>packed\<close> after the start \<open>prev\<close> yields the
  demands \<open>ds\<close> and leaves the reader at the start \<open>reached\<close>, whatever follows.
\<close>

definition queries :: "EntityDemand list \<Rightarrow> nat" where
  "queries ds = length (filter (\<lambda>d. dem_QueryLocation d \<noteq> None) ds)"

lemma queries_simps [simp]: "queries [] = 0" "queries (xs @ ys) = queries xs + queries ys"
  by (simp_all add: queries_def)

definition rows_read ::
    "string list \<Rightarrow> string \<Rightarrow> u64 \<Rightarrow> bytes \<Rightarrow> EntityDemand list \<Rightarrow> u64 \<Rightarrow> bool" where
  "rows_read strings path prev packed ds reached \<longleftrightarrow>
     (\<forall>qc qi acc rest. qi + queries ds \<le> qc \<longrightarrow>
        expandRows strings path qc (packed @ rest) prev qi acc =
        expandRows strings path qc rest reached (qi + queries ds) (acc @ ds))"

lemma rows_read_Nil: "rows_read strings path prev [] [] prev"
  by (simp add: rows_read_def)

lemma rows_read_append:
  assumes "rows_read strings path a p ds b" and "rows_read strings path b q es c"
  shows "rows_read strings path a (p @ q) (ds @ es) c"
  using assms by (simp add: rows_read_def add.assoc)

lemma rows_read_row:
  assumes "demand_ok d" and "0 \<le> p" and "p \<le> loc_StartByte (dem_Location d)"
    and path: "path = sanitize (loc_Path (dem_Location d))"
    and query: "case dem_QueryLocation d of None \<Rightarrow> qbytes = [] | Some q \<Rightarrow>
      \<exists>i. lookup strings i = Inr (sanitize (loc_Path q)) \<and>
        qbytes = AppendUvarint i @ AppendUvarint (uint64 (loc_StartByte q)) @
          AppendUvarint (uint64 (loc_EndByte q - loc_StartByte q))"
  shows "rows_read strings path (uint64 p)
    ((AppendUvarint (demandHeader d) @
      AppendUvarint (uint64 (loc_StartByte (dem_Location d) - p)) @
      AppendUvarint (uint64 (loc_EndByte (dem_Location d) - loc_StartByte (dem_Location d)))) @ qbytes)
    [sanitizeDemand d] (uint64 (loc_StartByte (dem_Location d)))"
proof -
  let ?l = "dem_Location d"
  have loc: "location_ok ?l" using assms(1) by (simp add: demand_ok_def)
  then have row: "takeDemandRow (uint64 p) (AppendUvarint (demandHeader d) @
      AppendUvarint (uint64 (loc_StartByte ?l - p)) @
      AppendUvarint (uint64 (loc_EndByte ?l - loc_StartByte ?l)) @ rest) =
    Inr (demandHeader d, uint64 (loc_StartByte ?l), uint64 (loc_EndByte ?l), rest)" for rest
    using assms(2,3) by (intro takeDemandRow_append) (auto simp: location_ok_def)
  show ?thesis
  proof (cases "dem_QueryLocation d")
    case None
    then have "sanitizeDemand d = d\<lparr>dem_Location := sanitizeLocation ?l, dem_QueryLocation := None\<rparr>"
      by (simp add: sanitizeDemand_def)
    then show ?thesis
      using None query demandHeader_query[of d]
      by (auto simp: rows_read_def queries_def expandRows.simps[of _ _ _ "AppendUvarint _ @ _"] row
        demandHeader_flags[simplified] path demandOfFlags_demandFlags[OF loc])
  next
    case (Some q)
    with query obtain i where i: "lookup strings i = Inr (sanitize (loc_Path q))"
      "qbytes = AppendUvarint i @ AppendUvarint (uint64 (loc_StartByte q)) @
          AppendUvarint (uint64 (loc_EndByte q - loc_StartByte q))" by auto
    have q: "location_ok q" using assms(1) Some by (simp add: demand_ok_def)
    then have qrow: "takeQueryRow (AppendUvarint i @ AppendUvarint (uint64 (loc_StartByte q)) @
          AppendUvarint (uint64 (loc_EndByte q - loc_StartByte q)) @ rest) =
      Inr (i, uint64 (loc_StartByte q), uint64 (loc_EndByte q), rest)" for rest
      by (intro takeQueryRow_append) (auto simp: location_ok_def)
    have "sanitizeDemand d = d\<lparr>dem_Location := sanitizeLocation ?l, dem_QueryLocation :=
      Some \<lparr>loc_Path = sanitize (loc_Path q), loc_StartByte = go_int (uint64 (loc_StartByte q)),
        loc_EndByte = go_int (uint64 (loc_EndByte q))\<rparr>\<rparr>"
      using Some q by (simp add: sanitizeDemand_def sanitizeLocation_def location_ok_def go_int_uint64)
    then show ?thesis
      using Some i demandHeader_query[of d]
      by (auto simp: rows_read_def queries_def expandRows.simps[of _ _ _ "AppendUvarint _ @ _"] row qrow
        demandHeader_flags[simplified] path demandOfFlags_demandFlags[OF loc])
  qed
qed

section \<open>Groups\<close>

definition group_read :: "string list \<Rightarrow> CompactDemandGroupV3 \<Rightarrow> EntityDemand list \<Rightarrow> u64 \<Rightarrow> bool" where
  "group_read strings g ds reached \<longleftrightarrow>
     (\<exists>path. lookup strings (cg_Path g) = Inr path \<and>
        rows_read strings path 0 (cg_Demands g) ds reached)"

lemma expandGroups_read:
  "list_all2 (\<lambda>g ds. \<exists>reached. group_read strings g ds reached) gs dss \<Longrightarrow>
   qi + queries (concat dss) \<le> qc \<Longrightarrow>
   expandGroups strings qc gs qi acc = Inr (acc @ concat dss, qi + queries (concat dss))"
proof (induction gs dss arbitrary: qi acc rule: list_all2_induct)
  case Nil
  then show ?case by simp
next
  case (Cons g gs ds dss)
  then obtain path reached where path: "lookup strings (cg_Path g) = Inr path"
    and rows: "rows_read strings path 0 (cg_Demands g) ds reached"
    by (auto simp: group_read_def)
  have "expandRows strings path qc (cg_Demands g) 0 qi acc = Inr (acc @ ds, qi + queries ds)"
    using rows Cons.prems unfolding rows_read_def
    by (metis (no_types, lifting) add_leD1 add.assoc append_Nil2 concat.simps(2)
        expandRows.simps queries_simps(2))
  then show ?case
    using path Cons.IH[of "qi + queries ds" "acc @ ds"] Cons.prems by (simp add: add.assoc)
qed

lemma Expand_read:
  assumes "list_all2 (\<lambda>g ds. \<exists>reached. group_read (cd_Strings c) g ds reached) (cd_Groups c) dss"
  shows "Expand c = Inr (concat dss)"
proof -
  have run: "expandGroups (cd_Strings c) (queries (concat dss)) (cd_Groups c) 0 [] =
      Inr (concat dss, queries (concat dss))"
    using expandGroups_read[OF assms, of 0 "queries (concat dss)" "[]"] by simp
  from expandGroups_shape[OF run, of 0 0] have
    "demandShape c = Inr (length (concat dss), queries (concat dss))"
    by (auto simp: demandShape_def queries_def)
  then show ?thesis using run by (simp add: Expand_def)
qed

section \<open>The writer\<close>

definition writer_inv ::
    "stringTableV3 \<times> CompactDemandGroupV3 list \<times> int \<Rightarrow> EntityDemand list \<Rightarrow> bool" where
  "writer_inv = (\<lambda>(strings, groups, prev) ds.
     table_ok strings \<and> length (st_values strings) \<le> Suc (2 * length ds) \<and> 0 \<le> prev \<and>
     (\<forall>final. table.final strings final \<longrightarrow>
        (\<exists>dss. map sanitizeDemand ds = concat dss \<and>
           list_all2 (\<lambda>g ds. \<exists>reached. group_read final g ds reached) groups dss \<and>
           (groups \<noteq> [] \<longrightarrow> group_read final (last groups) (last dss) (uint64 prev)))))"

lemma writer_inv_start: "writer_inv (newStringTableV3, [], 0) []"
  by (auto simp: writer_inv_def table_ok_new) (simp add: newStringTableV3_def)

lemma queryRow_cases:
  assumes "table_ok strings" and "length (st_values strings) < 2 ^ 64"
    and "queryRow strings query = (strings', qbytes)"
  shows "table_ok strings'" and "length (st_values strings') \<le> Suc (length (st_values strings))"
    and "table.final strings' final \<Longrightarrow> table.final strings final"
    and "table.final strings' final \<Longrightarrow> case query of None \<Rightarrow> qbytes = [] | Some q \<Rightarrow>
      \<exists>i. lookup final i = Inr (sanitize (loc_Path q)) \<and>
        qbytes = AppendUvarint i @ AppendUvarint (uint64 (loc_StartByte q)) @
          AppendUvarint (uint64 (loc_EndByte q - loc_StartByte q))"
proof -
  show "table_ok strings'"
    using assms table.enter_ok[OF assms(1,2)]
    by (auto simp: queryRow_def split: option.splits prod.splits) (metis fst_conv)
  show "length (st_values strings') \<le> Suc (length (st_values strings))"
    using assms table.enter_length[of strings]
    by (auto simp: queryRow_def split: option.splits prod.splits) (metis fst_conv)
  show "table.final strings' final \<Longrightarrow> table.final strings final"
    using assms table.final_enter[of strings]
    by (auto simp: queryRow_def split: option.splits prod.splits) (metis fst_conv)
  show "table.final strings' final \<Longrightarrow> case query of None \<Rightarrow> qbytes = [] | Some q \<Rightarrow>
      \<exists>i. lookup final i = Inr (sanitize (loc_Path q)) \<and>
        qbytes = AppendUvarint i @ AppendUvarint (uint64 (loc_StartByte q)) @
          AppendUvarint (uint64 (loc_EndByte q - loc_StartByte q))"
    using assms(3) table.lookup_final[OF assms(1,2)]
    by (auto simp: queryRow_def split: option.splits prod.splits) (metis fst_conv snd_conv)
qed

lemma list_all2_snoc_last:
  assumes "list_all2 P (butlast gs) dss" and "P g ds"
  shows "list_all2 P (butlast gs @ [g]) (dss @ [ds])"
  using assms by (simp add: list_all2_appendI)

lemma writer_step:
  assumes inv: "writer_inv (strings, groups, prev) ds" and d: "demand_ok d"
    and small: "2 * length ds + 3 < 2 ^ 64"
  shows "writer_inv (compactDemandStep d (strings, groups, prev)) (ds @ [d])"
proof -
  let ?l = "dem_Location d"
  obtain strings1 path where enter: "intern strings (loc_Path ?l) = (strings1, path)"
    by (cases "intern strings (loc_Path ?l)")
  obtain strings2 qbytes where q: "queryRow strings1 (dem_QueryLocation d) = (strings2, qbytes)"
    by (cases "queryRow strings1 (dem_QueryLocation d)")
  have ok: "table_ok strings" "length (st_values strings) \<le> Suc (2 * length ds)" "0 \<le> prev"
    using inv by (auto simp: writer_inv_def)
  then have lt: "length (st_values strings) < 2 ^ 64" using small by simp
  have ok1: "table_ok strings1" "length (st_values strings1) \<le> Suc (Suc (2 * length ds))"
    using table.enter_ok[OF ok(1) lt, of "loc_Path ?l"] table.enter_length[of strings "loc_Path ?l"]
      ok(2) enter by auto
  then have lt1: "length (st_values strings1) < 2 ^ 64" using small by simp
  note query = queryRow_cases[OF ok1(1) lt1 q]
  define fresh where "fresh = (groups = [] \<or> cg_Path (last groups) \<noteq> path \<or> loc_StartByte ?l < prev)"
  define start where "start = (if fresh then 0 else prev)"
  define olds where "olds = (if fresh then groups else butlast groups)"
  define g where "g = (if fresh then \<lparr>cg_Path = path, cg_Demands = []\<rparr> else last groups)"
  define row where "row = (AppendUvarint (demandHeader d) @
      AppendUvarint (uint64 (loc_StartByte ?l - start)) @
      AppendUvarint (uint64 (loc_EndByte ?l - loc_StartByte ?l))) @ qbytes"
  have step: "compactDemandStep d (strings, groups, prev) =
      (strings2, olds @ [g\<lparr>cg_Demands := cg_Demands g @ row\<rparr>], loc_StartByte ?l)"
    unfolding compactDemandStep_def prod.case Let_def enter q fresh_def[symmetric]
    by (simp add: olds_def g_def row_def start_def)
  have range: "0 \<le> start" "start \<le> loc_StartByte ?l" "0 \<le> loc_StartByte ?l"
    using d ok(3) by (auto simp: start_def fresh_def demand_ok_def location_ok_def)
  have "\<exists>dss. map sanitizeDemand (ds @ [d]) = concat dss \<and>
      list_all2 (\<lambda>g ds. \<exists>reached. group_read final g ds reached)
        (olds @ [g\<lparr>cg_Demands := cg_Demands g @ row\<rparr>]) dss \<and>
      group_read final (g\<lparr>cg_Demands := cg_Demands g @ row\<rparr>) (last dss) (uint64 (loc_StartByte ?l))"
    if final: "table.final strings2 final" for final
  proof -
    have final1: "table.final strings1 final" using query(3)[OF final] .
    then have path: "lookup final path = Inr (sanitize (loc_Path ?l))"
      using table.lookup_final[OF ok(1) lt, of "loc_Path ?l" final] enter by simp
    have final0: "table.final strings final"
      using table.final_enter[of strings "loc_Path ?l" final] enter final1 by simp
    obtain dss cs where dss: "map sanitizeDemand ds = concat dss @ cs"
      "list_all2 (\<lambda>g ds. \<exists>reached. group_read final g ds reached) olds dss"
      "rows_read final (sanitize (loc_Path ?l)) 0 (cg_Demands g) cs (uint64 start)"
      "cg_Path g = path"
    proof (cases fresh)
      case True
      then show ?thesis
        using that[of _ "[]"] inv final0 rows_read_Nil
        by (fastforce simp: writer_inv_def olds_def g_def start_def uint64_def)
    next
      case False
      then have ne: "groups \<noteq> []" "cg_Path (last groups) = path" by (auto simp: fresh_def)
      from inv final0 ne obtain dss where dss: "map sanitizeDemand ds = concat dss"
        "list_all2 (\<lambda>g ds. \<exists>reached. group_read final g ds reached) groups dss"
        "group_read final (last groups) (last dss) (uint64 prev)"
        by (auto simp: writer_inv_def)
      have "dss \<noteq> []" using dss(2) ne by auto
      then have "concat dss = concat (butlast dss) @ last dss"
        by (metis append_butlast_last_id concat.simps concat_append append_Nil2)
      moreover have "list_all2 (\<lambda>g ds. \<exists>reached. group_read final g ds reached)
          (butlast groups) (butlast dss)"
        using dss(2) by (simp add: butlast_conv_take list_all2_lengthD[OF dss(2)])
      ultimately show ?thesis
        using that[of "butlast dss" "last dss"] dss(1,3) False ne path
        by (simp add: olds_def g_def start_def group_read_def)
    qed
    have "rows_read final (sanitize (loc_Path ?l)) (uint64 start) row [sanitizeDemand d]
        (uint64 (loc_StartByte ?l))"
      unfolding row_def by (rule rows_read_row[OF d range(1,2) refl query(4)[OF final]])
    from rows_read_append[OF dss(3) this] have
      "group_read final (g\<lparr>cg_Demands := cg_Demands g @ row\<rparr>) (cs @ [sanitizeDemand d])
        (uint64 (loc_StartByte ?l))"
      using dss(4) path by (simp add: group_read_def)
    then show ?thesis
      using dss(1,2) by (intro exI[of _ "dss @ [cs @ [sanitizeDemand d]]"])
        (auto intro: list_all2_appendI)
  qed
  moreover have "length (st_values strings2) \<le> Suc (2 * length (ds @ [d]))"
    using query(2) ok1(2) by simp
  ultimately show ?thesis
    using query(1) range(3) unfolding step by (simp add: writer_inv_def)
qed

lemma writer_inv_fold:
  "\<forall>d \<in> set ds. demand_ok d \<Longrightarrow> 2 * length ds + 1 < 2 ^ 64 \<Longrightarrow>
   writer_inv (fold compactDemandStep ds (newStringTableV3, [], 0)) ds"
proof (induction ds rule: rev_induct)
  case Nil
  then show ?case using writer_inv_start by simp
next
  case (snoc d ds)
  obtain strings groups prev where
    st: "fold compactDemandStep ds (newStringTableV3, [], 0) = (strings, groups, prev)"
    by (cases "fold compactDemandStep ds (newStringTableV3, [], 0)") auto
  have "writer_inv (strings, groups, prev) ds" using snoc st by simp
  then show ?case using writer_step[of strings groups prev ds d] snoc.prems st by simp
qed

section \<open>The selective reader\<close>

lemma demandFlags_demandOfFlags:
  "k < 19 \<Longrightarrow> bit (demandFlags (demandOfFlags path s e flags)) k = bit flags k"
  unfolding bit_demandFlags demandOfFlags_def demand_flag_defs hasFlag_push_bit
  by (simp add: less_Suc_eq numeral_eq_Suc) (elim disjE; simp)

lemma demandFlags_query [simp]: "demandFlags (d\<lparr>dem_QueryLocation := q\<rparr>) = demandFlags d"
  by (simp add: demandFlags_def)

lemma expandRows_prefix:
  "expandRows strings path qc packed prev qi ds = Inr (ds', qi') \<Longrightarrow> \<exists>new. ds' = ds @ new"
  using expandRows_shape by metis

lemma appendFlaggedRows_expandRows:
  "expandRows strings path qc packed prev qi acc = Inr (acc @ ds, qi') \<Longrightarrow> k < 19 \<Longrightarrow>
   appendFlaggedRows strings path (push_bit k 1) packed prev target =
     Inr (target @ filter (\<lambda>d. bit (demandFlags d) k) ds)"
proof (induction strings path qc packed prev qi acc arbitrary: ds target rule: expandRows.induct)
  case (1 strings path qc packed prev qi acc)
  show ?case
  proof (cases "packed = []")
    case True
    then show ?thesis
      using "1.prems" by (simp add: expandRows.simps[of _ _ _ "[]"] appendFlaggedRows.simps[of _ _ _ "[]"])
  next
    case False
    with "1.prems" obtain header start stop rest where
      row: "takeDemandRow prev packed = Inr (header, start, stop, rest)"
      by (subst (asm) expandRows.simps) (auto simp: bind_result_eq_Inr_iff)
    let ?d = "demandOfFlags path start stop (drop_bit 1 header)"
    have flag: "bit (demandFlags ?d) k = bit (drop_bit 1 header) k"
      using "1.prems"(2) by (rule demandFlags_demandOfFlags)
    show ?thesis
    proof (cases "header AND 1 \<noteq> 0")
      case True
      with "1.prems" False row obtain i qs qe next' qp where
        query: "takeQueryRow rest = Inr (i, qs, qe, next')" and path: "lookup strings i = Inr qp"
        and lt: "\<not> qi \<ge> qc" and
        rec: "expandRows strings path qc next' start (Suc qi) (acc @ [?d\<lparr>dem_QueryLocation :=
          Some \<lparr>loc_Path = qp, loc_StartByte = go_int qs, loc_EndByte = go_int qe\<rparr>\<rparr>]) = Inr (acc @ ds, qi')"
        by (subst (asm) expandRows.simps)
           (auto simp: bind_result_eq_Inr_iff Let_def split: if_splits)
      let ?q = "?d\<lparr>dem_QueryLocation :=
          Some \<lparr>loc_Path = qp, loc_StartByte = go_int qs, loc_EndByte = go_int qe\<rparr>\<rparr>"
      obtain new where new: "ds = ?q # new" using expandRows_prefix[OF rec] by auto
      have "expandRows strings path qc next' start (Suc qi) (acc @ [?q]) =
        Inr ((acc @ [?q]) @ new, qi')" using rec new by simp
      from "1.IH"(1)[OF False row refl refl refl refl True query refl refl refl path lt this "1.prems"(2)]
      show ?thesis
        using False row query path True flag new
        by (simp add: appendFlaggedRows.simps[of _ _ _ packed] hasFlag_push_bit
            del: push_bit_of_1 bit_drop_bit_eq)
    next
      case no: False
      with "1.prems" False row have
        rec: "expandRows strings path qc rest start qi (acc @ [?d]) = Inr (acc @ ds, qi')"
        by (subst (asm) expandRows.simps)
           (auto simp: bind_result_eq_Inr_iff Let_def split: if_splits)
      obtain new where new: "ds = ?d # new" using expandRows_prefix[OF rec] by auto
      have "expandRows strings path qc rest start qi (acc @ [?d]) = Inr ((acc @ [?d]) @ new, qi')"
        using rec new by simp
      from "1.IH"(2)[OF False row refl refl refl refl no this "1.prems"(2)]
      show ?thesis
        using False row no flag new
        by (simp add: appendFlaggedRows.simps[of _ _ _ packed] hasFlag_push_bit
            del: push_bit_of_1 bit_drop_bit_eq)
    qed
  qed
qed

lemma appendCompactDemandsWithFlag_flag:
  assumes "Expand \<lparr>cd_Groups = [g], cd_Strings = strings\<rparr> = Inr ds" and "k < 19"
  shows "appendCompactDemandsWithFlag target g strings (push_bit k 1) =
    Inr (target @ filter (\<lambda>d. hasFlag (demandFlags d) (push_bit k 1)) ds)"
proof -
  from assms(1) obtain path qc qi where "lookup strings (cg_Path g) = Inr path"
    "expandRows strings path qc (cg_Demands g) 0 0 [] = Inr ([] @ ds, qi)"
    by (auto simp: Expand_def bind_result_eq_Inr_iff)
  with appendFlaggedRows_expandRows[OF this(2) assms(2)] show ?thesis
    unfolding appendCompactDemandsWithFlag_def hasFlag_push_bit by simp
qed

section \<open>Properties\<close>

text \<open>
  C9. The compact demand frame loses nothing: expanding what \<^verbatim>\<open>CompactDemandsV3From\<close> wrote returns the
  demands that were given, in their order, with every flag and query location, and with paths made
  valid UTF-8; for every list of demands whose locations are ordered non-negative 63-bit ranges.
\<close>

theorem Expand_CompactDemandsV3From:
  assumes "\<forall>d \<in> set ds. demand_ok d" and "2 * length ds + 1 < 2 ^ 64"
  shows "Expand (CompactDemandsV3From ds) = Inr (map sanitizeDemand ds)"
proof -
  obtain strings groups prev where
    st: "fold compactDemandStep ds (newStringTableV3, [], 0) = (strings, groups, prev)"
    by (cases "fold compactDemandStep ds (newStringTableV3, [], 0)") auto
  from writer_inv_fold[OF assms] obtain dss where "map sanitizeDemand ds = concat dss"
    "list_all2 (\<lambda>g ds. \<exists>reached. group_read (st_values strings) g ds reached) groups dss"
    using table.final_strings[of strings] by (auto simp: st writer_inv_def)
  then show ?thesis
    using Expand_read[of "CompactDemandsV3From ds" dss] by (simp add: CompactDemandsV3From_def st)
qed

theorem Expand_CompactDemandsV3From_witness:
  "demand_ok (demandOfFlags ''a'' 9 12 5) \<and> demand_ok (demandOfFlags ''a'' 2 4 1) \<and>
   Expand (CompactDemandsV3From [demandOfFlags ''a'' 9 12 5, demandOfFlags ''a'' 2 4 1]) =
     Inr (map sanitizeDemand [demandOfFlags ''a'' 9 12 5, demandOfFlags ''a'' 2 4 1])"
proof -
  have ok: "demand_ok (demandOfFlags ''a'' 9 12 5)" "demand_ok (demandOfFlags ''a'' 2 4 1)" by code_simp+
  then show ?thesis
    using Expand_CompactDemandsV3From[of "[demandOfFlags ''a'' 9 12 5, demandOfFlags ''a'' 2 4 1]"] by simp
qed

text \<open>
  C25. The selective reader is the filter of the expanding one: for each of the nineteen demand flags,
  when a group expands, \<^verbatim>\<open>appendCompactDemandsWithFlag\<close> succeeds and appends exactly the expanded
  demands that carry the flag, in order.
\<close>

theorem appendCompactDemandsWithFlag_Expand:
  assumes "Expand \<lparr>cd_Groups = [g], cd_Strings = strings\<rparr> = Inr ds" and "k < 19"
  shows "appendCompactDemandsWithFlag target g strings (push_bit k 1) =
    Inr (target @ filter (\<lambda>d. hasFlag (demandFlags d) (push_bit k 1)) ds)"
  using assms by (rule appendCompactDemandsWithFlag_flag)

theorem appendCompactDemandsWithFlag_Expand_witness:
  "\<exists>ds. Expand \<lparr>cd_Groups = [\<lparr>cg_Path = 1, cg_Demands = [32, 1, 4, 2, 2, 3]\<rparr>],
        cd_Strings = [[], ''a'']\<rparr> = Inr ds \<and> map dem_Async ds = [True, False] \<and>
     appendCompactDemandsWithFlag [] \<lparr>cg_Path = 1, cg_Demands = [32, 1, 4, 2, 2, 3]\<rparr> [[], ''a'']
       (push_bit 4 1) = Inr [ds ! 0]"
proof -
  let ?g = "\<lparr>cg_Path = 1, cg_Demands = [32, 1, 4, 2, 2, 3]\<rparr> :: CompactDemandGroupV3"
  have run: "Expand \<lparr>cd_Groups = [?g], cd_Strings = [[], ''a'']\<rparr> =
    Inr [demandOfFlags ''a'' 1 5 16, demandOfFlags ''a'' 3 6 1]" by code_simp
  have "map dem_Async [demandOfFlags ''a'' 1 5 16, demandOfFlags ''a'' 3 6 1] = [True, False]"
    "filter (\<lambda>d. hasFlag (demandFlags d) (push_bit 4 1))
       [demandOfFlags ''a'' 1 5 16, demandOfFlags ''a'' 3 6 1] = [demandOfFlags ''a'' 1 5 16]"
    by code_simp+
  then show ?thesis
    using appendCompactDemandsWithFlag_Expand[OF run, of 4 "[]"] run
    by (intro exI[of _ "[demandOfFlags ''a'' 1 5 16, demandOfFlags ''a'' 3 6 1]"])
       (simp only: nth_Cons_0 append_Nil numeral_less_iff semiring_norm simp_thms refl)
qed

text \<open>
  \<^verbatim>\<open>Expand\<close> never indexes past the query arena it sized in its counting pass, on any input, well
  formed or not; and when it succeeds the counting pass gave exactly the number of demands and of
  query locations it returns.
\<close>

theorem Expand_arena:
  "Expand compact \<noteq> Inl (Panic m) \<and>
   (case Expand compact of Inl _ \<Rightarrow> True
    | Inr ds \<Rightarrow> demandShape compact = Inr (length ds, queries ds))"
  using Expand_no_Panic Expand_demandShape by (auto simp: queries_def split: sum.split)

end
