(* ===== verification/Demand_Store.thy ===== *)
theory Demand_Store
  imports Compact_Roundtrip
begin

text \<open>
  The session's retained demand set (\<^verbatim>\<open>session_demands.go\<close>), with the canonical form of a demand
  run (\<^verbatim>\<open>semantic_demand.go\<close>) and the expansion of a compact group (\<^verbatim>\<open>semantic_retained.go\<close>). The
  groups are a slice in strict path order that is edited in place under an undo log. The scratch slices
  that the store keeps between transactions only reuse memory and are not part of the state.
\<close>

section \<open>State\<close>

text \<open>A contribution is shared by pointer between a group and the retained store; the pointer is a number.\<close>

type_synonym contributionRef = nat

record demandGroup =
  dg_path :: string
  dg_demands :: "EntityDemand list option"
  dg_compact :: CompactDemandGroupV3
  dg_strings :: "string list option"
  dg_hash :: u64
  dg_contribution :: "contributionRef option"

definition zeroDemandGroup :: demandGroup where
  "zeroDemandGroup = \<lparr>dg_path = [], dg_demands = None, dg_compact = \<lparr>cg_Path = 0, cg_Demands = []\<rparr>,
     dg_strings = None, dg_hash = 0, dg_contribution = None\<rparr>"

record DemandGroup =
  DG_Path :: string
  DG_Demands :: "EntityDemand list"

datatype demandUndoKind = demandUndoReplace | demandUndoInsert | demandUndoRemove

record demandUndo =
  du_kind :: demandUndoKind
  du_index :: nat
  du_previous :: demandGroup

record retainedDemandStore =
  rds_groups :: "demandGroup list"

record retainedDemandTransaction =
  tx_undo :: "demandUndo list"
  tx_changedPaths :: "string list"
  tx_changedRuns :: "demandGroup list"
  tx_resetOld :: "demandGroup list"
  tx_reset :: bool
  tx_finished :: bool

section \<open>Canonical demand runs\<close>

definition demand_order :: "EntityDemand \<Rightarrow> int \<times> int" where
  "demand_order d = (loc_StartByte (dem_Location d), loc_EndByte (dem_Location d))"

definition cleanLocation :: "Location \<Rightarrow> Location" where
  "cleanLocation l = l\<lparr>loc_Path := Clean (loc_Path l)\<rparr>"

definition cleanDemand :: "EntityDemand \<Rightarrow> EntityDemand" where
  "cleanDemand d = d\<lparr>dem_Location := cleanLocation (dem_Location d),
     dem_QueryLocation := map_option cleanLocation (dem_QueryLocation d)\<rparr>"

definition unclean :: "string \<Rightarrow> Location \<Rightarrow> bool" where
  "unclean path l \<longleftrightarrow> loc_Path l \<noteq> path \<and> Clean (loc_Path l) \<noteq> loc_Path l"

text \<open>The scan for \<^verbatim>\<open>copyRequired\<close> and \<^verbatim>\<open>ordered\<close>, with the preceding demand.\<close>

fun canonicalScan ::
    "string \<Rightarrow> EntityDemand option \<Rightarrow> EntityDemand list \<Rightarrow> bool \<times> bool \<Rightarrow> bool \<times> bool" where
  "canonicalScan path previous [] acc = acc"
| "canonicalScan path previous (d # ds) (copyRequired, ordered) =
     (let copyRequired = (copyRequired \<or> unclean path (dem_Location d) \<or>
            (case dem_QueryLocation d of None \<Rightarrow> False | Some q \<Rightarrow> unclean path q));
          ordered = (case previous of None \<Rightarrow> ordered
            | Some p \<Rightarrow>
                if loc_StartByte (dem_Location d) < loc_StartByte (dem_Location p) \<or>
                   loc_StartByte (dem_Location p) = loc_StartByte (dem_Location d) \<and>
                   loc_EndByte (dem_Location d) < loc_EndByte (dem_Location p)
                then False else ordered)
      in canonicalScan path (Some d) ds (copyRequired, ordered))"

definition canonicalDemandRun :: "string \<Rightarrow> EntityDemand list \<Rightarrow> EntityDemand list" where
  "canonicalDemandRun path demands =
     (let (copyRequired, ordered) = canonicalScan path None demands (False, True) in
      if \<not> copyRequired \<and> ordered then demands
      else let canonical = map cleanDemand demands in
        if \<not> ordered then sort_key demand_order canonical else canonical)"

section \<open>Expansion of compact groups\<close>

definition isCompact :: "demandGroup \<Rightarrow> bool" where
  "isCompact g \<longleftrightarrow> dg_strings g \<noteq> None"

definition canonicalizeDemandRun :: "string \<Rightarrow> EntityDemand list \<Rightarrow> EntityDemand list" where
  "canonicalizeDemandRun path demands =
     map (\<lambda>d. d\<lparr>dem_Location := (dem_Location d)\<lparr>loc_Path := path\<rparr>,
        dem_QueryLocation := map_option cleanLocation (dem_QueryLocation d)\<rparr>) demands"

definition ensureExpanded :: "demandGroup \<Rightarrow> demandGroup result" where
  "ensureExpanded g =
     (if dg_demands g \<noteq> None \<or> \<not> isCompact g then Inr g
      else bind_result
        (Expand \<lparr>cd_Groups = [dg_compact g], cd_Strings = the (dg_strings g)\<rparr>)
        (\<lambda>demands. Inr (g\<lparr>dg_demands := Some (canonicalizeDemandRun (dg_path g) demands)\<rparr>)))"

definition releaseExpanded :: "demandGroup \<Rightarrow> demandGroup" where
  "releaseExpanded g = (if isCompact g then g\<lparr>dg_demands := None\<rparr> else g)"

definition appendAsyncDemands :: "demandGroup \<Rightarrow> EntityDemand list \<Rightarrow> EntityDemand list result" where
  "appendAsyncDemands g target =
     (if \<not> isCompact g then Inr (target @ filter dem_Async (elems (dg_demands g)))
      else let start = length target in
        bind_result (appendCompactDemandsWithFlag target (dg_compact g) (the (dg_strings g)) demandFlagAsync)
          (\<lambda>result. Inr (take start result @ canonicalizeDemandRun (dg_path g) (drop start result))))"

section \<open>Grouping a request's demands\<close>

text \<open>The run of demands of one path at the head of the list.\<close>

definition demand_path :: "EntityDemand \<Rightarrow> string" where
  "demand_path d = Clean (loc_Path (dem_Location d))"

text \<open>The scan of the request: \<open>None\<close> once a run is out of path order.\<close>

function canonicalRuns :: "EntityDemand list \<Rightarrow> DemandGroup list \<Rightarrow> DemandGroup list option" where
  "canonicalRuns [] scratch = Some scratch"
| "canonicalRuns (d # ds) scratch =
     (let path = demand_path d;
          run = d # takeWhile (\<lambda>e. demand_path e = path) ds;
          rest = dropWhile (\<lambda>e. demand_path e = path) ds
      in if scratch \<noteq> [] \<and> path \<le> DG_Path (last scratch) then None
         else canonicalRuns rest (scratch @ [\<lparr>DG_Path = path, DG_Demands = run\<rparr>]))"
  by pat_completeness auto
termination
  by (relation "measure (\<lambda>(ds, s). length ds)") (auto simp: le_imp_less_Suc length_dropWhile_le)

text \<open>The map built by the compatibility path.\<close>

definition groupDemands :: "EntityDemand list \<Rightarrow> string \<rightharpoonup> EntityDemand list" where
  "groupDemands changes =
     foldl (\<lambda>grouped d. grouped(demand_path d \<mapsto>
       (case grouped (demand_path d) of None \<Rightarrow> [] | Some ds \<Rightarrow> ds) @ [d])) Map.empty changes"

definition sessionChangedDemandRuns :: "EntityDemand list \<Rightarrow> DemandGroup list" where
  "sessionChangedDemandRuns changes =
     (case canonicalRuns changes [] of
        Some scratch \<Rightarrow> scratch
      | None \<Rightarrow>
          let grouped = groupDemands changes;
              paths = sorted_list_of_set (set (map demand_path changes))
          in map (\<lambda>path. \<lparr>DG_Path = path, DG_Demands = the (grouped path)\<rparr>) paths)"

fun compactPathsLoop :: "string list \<Rightarrow> string list \<Rightarrow> string list" where
  "compactPathsLoop written [] = written"
| "compactPathsLoop written (path # paths) =
     (if written \<noteq> [] \<and> last written = path then compactPathsLoop written paths
      else compactPathsLoop (written @ [path]) paths)"

definition compactSortedPaths :: "string list \<Rightarrow> string list" where
  "compactSortedPaths paths = compactPathsLoop [] paths"

section \<open>The transaction\<close>

type_synonym demandState = "retainedDemandStore \<times> retainedDemandTransaction"

definition tx_replace :: "demandGroup \<Rightarrow> demandState \<Rightarrow> demandState" where
  "tx_replace g = (\<lambda>(s, t).
     let groups = rds_groups s;
         index = search_key dg_path groups (dg_path g)
     in if index < length groups \<and> dg_path (groups ! index) = dg_path g
        then (s\<lparr>rds_groups := groups[index := g]\<rparr>,
              t\<lparr>tx_undo := tx_undo t @ [\<lparr>du_kind = demandUndoReplace, du_index = index,
                 du_previous = groups ! index\<rparr>]\<rparr>)
        else (s\<lparr>rds_groups := insert_at index g groups\<rparr>,
              t\<lparr>tx_undo := tx_undo t @ [\<lparr>du_kind = demandUndoInsert, du_index = index,
                 du_previous = zeroDemandGroup\<rparr>]\<rparr>))"

definition tx_remove :: "string \<Rightarrow> demandState \<Rightarrow> demandState" where
  "tx_remove path = (\<lambda>(s, t).
     let groups = rds_groups s;
         index = search_key dg_path groups path
     in if index = length groups \<or> dg_path (groups ! index) \<noteq> path then (s, t)
        else (s\<lparr>rds_groups := delete_at index groups\<rparr>,
              t\<lparr>tx_undo := tx_undo t @ [\<lparr>du_kind = demandUndoRemove, du_index = index,
                 du_previous = groups ! index\<rparr>]\<rparr>))"

definition beginRuns :: "demandGroup list \<Rightarrow> string list \<Rightarrow> bool \<Rightarrow> retainedDemandStore \<Rightarrow> demandState" where
  "beginRuns changedRuns removed reset s =
     (let changedPaths = compactSortedPaths (sort (map dg_path changedRuns @ map Clean removed));
          t = \<lparr>tx_undo = [], tx_changedPaths = changedPaths, tx_changedRuns = changedRuns,
               tx_resetOld = (if reset then rds_groups s else []), tx_reset = reset,
               tx_finished = False\<rparr>;
          s = (if reset then s\<lparr>rds_groups := []\<rparr> else s)
      in fold (\<lambda>path. tx_remove (Clean path)) removed (fold tx_replace changedRuns (s, t)))"

definition begin_demands :: "EntityDemand list \<Rightarrow> string list \<Rightarrow> bool \<Rightarrow> retainedDemandStore \<Rightarrow> demandState" where
  "begin_demands changes removed reset s =
     (let plainRuns = sessionChangedDemandRuns changes;
          changedRuns = map (\<lambda>run. zeroDemandGroup\<lparr>dg_path := Clean (DG_Path run),
            dg_demands := Some (canonicalDemandRun (Clean (DG_Path run)) (DG_Demands run))\<rparr>) plainRuns
      in beginRuns changedRuns removed reset s)"

fun firstDuplicate :: "demandGroup list \<Rightarrow> string option" where
  "firstDuplicate (a # b # gs) =
     (if dg_path a = dg_path b then Some (dg_path b) else firstDuplicate (b # gs))"
| "firstDuplicate gs = None"

definition compactGroup :: "string list \<Rightarrow> CompactDemandGroupV3 \<Rightarrow> demandGroup result" where
  "compactGroup strings g =
     bind_result (lookup strings (cg_Path g)) (\<lambda>path.
     bind_result (demandShape \<lparr>cd_Groups = [g], cd_Strings = strings\<rparr>) (\<lambda>_.
       Inr (zeroDemandGroup\<lparr>dg_path := Clean path, dg_compact := g, dg_strings := Some strings\<rparr>)))"

definition beginCompact ::
    "CompactDemandsV3 \<Rightarrow> string list \<Rightarrow> bool \<Rightarrow> retainedDemandStore \<Rightarrow> demandState result" where
  "beginCompact compact removed reset s =
     bind_result (map_result (compactGroup (cd_Strings compact)) (cd_Groups compact)) (\<lambda>changedRuns.
       let changedRuns = sort_key dg_path changedRuns in
       case firstDuplicate changedRuns of
         Some path \<Rightarrow> Inl (Errorf ''compact demand groups name a path twice; each path may appear once'')
       | None \<Rightarrow> Inr (beginRuns changedRuns removed reset s))"

definition tx_finish :: "demandState \<Rightarrow> demandState" where
  "tx_finish = (\<lambda>(s, t).
     if tx_finished t then (s, t)
     else (s, t\<lparr>tx_finished := True,
       tx_undo := map (\<lambda>_. \<lparr>du_kind = demandUndoReplace, du_index = 0,
         du_previous = zeroDemandGroup\<rparr>) (tx_undo t),
       tx_changedPaths := map (\<lambda>_. []) (tx_changedPaths t),
       tx_changedRuns := map (\<lambda>_. zeroDemandGroup) (tx_changedRuns t),
       tx_resetOld := []\<rparr>))"

definition tx_commit :: "demandState \<Rightarrow> demandState" where
  "tx_commit = tx_finish"

definition undoStep :: "demandUndo \<Rightarrow> demandGroup list \<Rightarrow> demandGroup list" where
  "undoStep u groups =
     (case du_kind u of
        demandUndoReplace \<Rightarrow> groups[du_index u := du_previous u]
      | demandUndoInsert \<Rightarrow> delete_at (du_index u) groups
      | demandUndoRemove \<Rightarrow> insert_at (du_index u) (du_previous u) groups)"

definition tx_rollback :: "demandState \<Rightarrow> demandState" where
  "tx_rollback = (\<lambda>(s, t).
     if tx_finished t then (s, t)
     else if tx_reset t then tx_finish (s\<lparr>rds_groups := tx_resetOld t\<rparr>, t)
     else tx_finish (s\<lparr>rds_groups := foldr undoStep (tx_undo t) (rds_groups s)\<rparr>, t))"

definition demands_at :: "string \<Rightarrow> retainedDemandStore \<Rightarrow> retainedDemandStore \<times> EntityDemand list option" where
  "demands_at path s =
     (let path = Clean path;
          index = search_key dg_path (rds_groups s) path
      in if index = length (rds_groups s) \<or> dg_path (rds_groups s ! index) \<noteq> path then (s, None)
         else case ensureExpanded (rds_groups s ! index) of
             Inl _ \<Rightarrow> (s, None)
           | Inr g \<Rightarrow> (s\<lparr>rds_groups := (rds_groups s)[index := g]\<rparr>, dg_demands g))"

section \<open>Canonical runs are the stable sort of the cleaned demands\<close>

lemma canonicalScan_fst:
  "fst (canonicalScan path p ds (c, b)) \<longleftrightarrow> c \<or> (\<exists>d \<in> set ds. unclean path (dem_Location d) \<or>
     (\<exists>q. dem_QueryLocation d = Some q \<and> unclean path q))"
  by (induction ds arbitrary: p c b) (auto split: option.splits)

lemma demand_order_le:
  "demand_order p \<le> demand_order d \<longleftrightarrow>
     \<not> (loc_StartByte (dem_Location d) < loc_StartByte (dem_Location p) \<or>
        loc_StartByte (dem_Location p) = loc_StartByte (dem_Location d) \<and>
        loc_EndByte (dem_Location d) < loc_EndByte (dem_Location p))"
  by (auto simp: demand_order_def)

lemma canonicalScan_snd:
  "snd (canonicalScan path p ds (c, b)) \<longleftrightarrow> b \<and>
     sorted (map demand_order (case p of None \<Rightarrow> ds | Some d \<Rightarrow> d # ds))"
proof (induction ds arbitrary: p c b)
  case Nil
  then show ?case by (cases p) auto
next
  case (Cons d ds)
  show ?case
    using Cons[of "Some d"]
    by (cases p) (simp_all add: Let_def sorted2 demand_order_le del: sorted_wrt.simps(2) sorted_simps(2))
qed

lemma cleanDemand_id:
  assumes "Clean path = path" and "\<not> unclean path (dem_Location d)"
    and "\<And>q. dem_QueryLocation d = Some q \<Longrightarrow> \<not> unclean path q"
  shows "cleanDemand d = d"
proof -
  have "cleanLocation l = l" if "\<not> unclean path l" for l
    using that assms(1) by (auto simp: unclean_def cleanLocation_def)
  then show ?thesis
    using assms(2,3) by (cases "dem_QueryLocation d") (auto simp: cleanDemand_def)
qed

lemma demand_order_cleanDemand [simp]: "demand_order (cleanDemand d) = demand_order d"
  by (simp add: demand_order_def cleanDemand_def cleanLocation_def)

lemma canonicalDemandRun_sort:
  assumes "Clean path = path"
  shows "canonicalDemandRun path ds = sort_key demand_order (map cleanDemand ds)"
proof -
  obtain c b where scan: "canonicalScan path None ds (False, True) = (c, b)"
    by (cases "canonicalScan path None ds (False, True)")
  have b: "b \<longleftrightarrow> sorted (map demand_order (map cleanDemand ds))"
    using canonicalScan_snd[of path None ds False True] scan by (simp add: comp_def)
  have "map cleanDemand ds = ds" if "\<not> c"
    using that canonicalScan_fst[of path None ds False True] scan cleanDemand_id[OF assms]
    by (intro map_idI) auto
  then show ?thesis
    using b sort_key_id_if_sorted[of demand_order "map cleanDemand ds"]
    by (auto simp: canonicalDemandRun_def scan Let_def)
qed

section \<open>Grouping\<close>

definition demandRuns :: "EntityDemand list \<Rightarrow> DemandGroup list" where
  "demandRuns changes =
     map (\<lambda>path. \<lparr>DG_Path = path, DG_Demands = filter (\<lambda>d. demand_path d = path) changes\<rparr>)
       (sorted_list_of_set (demand_path ` set changes))"

lemma groupDemands_filter:
  "groupDemands changes path =
     (if path \<in> demand_path ` set changes then Some (filter (\<lambda>d. demand_path d = path) changes) else None)"
proof (induction changes rule: rev_induct)
  case Nil
  then show ?case by (simp add: groupDemands_def)
next
  case (snoc d ds)
  have "groupDemands (ds @ [d]) = (groupDemands ds)(demand_path d \<mapsto>
      (case groupDemands ds (demand_path d) of None \<Rightarrow> [] | Some ds \<Rightarrow> ds) @ [d])"
    by (simp add: groupDemands_def)
  moreover have "filter (\<lambda>e. demand_path e = demand_path d) ds = []"
    if "demand_path d \<notin> demand_path ` set ds"
    using that by (auto simp: filter_empty_conv image_iff dest: sym)
  ultimately show ?case using snoc by (auto split: option.splits if_splits)
qed

text \<open>What the scan has read so far, and what it returns.\<close>

lemma canonicalRuns_spec:
  assumes "canonicalRuns ds scratch = Some runs" and "strict_keys DG_Path scratch"
  shows "\<exists>more. runs = scratch @ more \<and> strict_keys DG_Path runs \<and>
    (\<forall>run \<in> set more. DG_Demands run = filter (\<lambda>d. demand_path d = DG_Path run) ds) \<and>
    DG_Path ` set more = demand_path ` set ds"
  using assms
proof (induction ds scratch rule: canonicalRuns.induct)
  case (1 scratch)
  then show ?case by simp
next
  case (2 d ds scratch)
  let ?p = "demand_path d"
  let ?run = "\<lparr>DG_Path = ?p, DG_Demands = d # takeWhile (\<lambda>e. demand_path e = ?p) ds\<rparr>"
  let ?rest = "dropWhile (\<lambda>e. demand_path e = ?p) ds"
  have lt: "\<not> (scratch \<noteq> [] \<and> ?p \<le> DG_Path (last scratch))"
    and rec: "canonicalRuns ?rest (scratch @ [?run]) = Some runs"
    using "2.prems"(1) by (auto simp: Let_def split: if_splits)
  have below: "DG_Path r < ?p" if "r \<in> set scratch" for r
  proof -
    have ne: "scratch \<noteq> []" using that by auto
    then have "set scratch = set (butlast scratch @ [last scratch])" by simp
    then have "r \<in> set (butlast scratch) \<or> r = last scratch"
      using that by auto
    moreover have "r \<in> set (butlast scratch) \<Longrightarrow> DG_Path r < DG_Path (last scratch)"
      using "2.prems"(2) ne by (metis append_butlast_last_id strict_keys_append list.set_intros(1))
    ultimately show ?thesis using lt ne by auto
  qed
  then have strict: "strict_keys DG_Path (scratch @ [?run])"
    using "2.prems"(2) by (auto simp: strict_keys_append)
  from "2.IH"[OF refl refl refl lt rec strict] obtain more where
    more: "runs = (scratch @ [?run]) @ more" "strict_keys DG_Path runs"
      "\<forall>run \<in> set more. DG_Demands run = filter (\<lambda>d. demand_path d = DG_Path run) ?rest"
      "DG_Path ` set more = demand_path ` set ?rest" by blast
  have gone: "?p \<notin> demand_path ` set ?rest"
    using more(1,2,4) by (auto simp: strict_keys_append strict_keys_Cons simp flip: more(4))
  have tw: "\<forall>e \<in> set (takeWhile (\<lambda>e. demand_path e = ?p) ds). demand_path e = ?p"
    by (auto dest: set_takeWhileD)
  have split_filter: "filter P ds = filter P (takeWhile (\<lambda>e. demand_path e = ?p) ds) @ filter P ?rest" for P
    by (simp flip: filter_append)
  have other: "filter (\<lambda>e. demand_path e = q) ds = filter (\<lambda>e. demand_path e = q) ?rest" if "q \<noteq> ?p" for q
  proof -
    have "filter (\<lambda>e. demand_path e = q) (takeWhile (\<lambda>e. demand_path e = ?p) ds) = []"
      using tw that unfolding filter_empty_conv by blast
    then show ?thesis by (subst split_filter) simp
  qed
  have own: "filter (\<lambda>e. demand_path e = ?p) ds = takeWhile (\<lambda>e. demand_path e = ?p) ds"
  proof -
    have "filter (\<lambda>e. demand_path e = ?p) (takeWhile (\<lambda>e. demand_path e = ?p) ds) =
      takeWhile (\<lambda>e. demand_path e = ?p) ds" using tw unfolding filter_id_conv .
    moreover have "filter (\<lambda>e. demand_path e = ?p) ?rest = []"
      using gone by (auto simp: filter_empty_conv image_iff)
    ultimately show ?thesis by (subst split_filter) simp
  qed
  have "set ds = set (takeWhile (\<lambda>e. demand_path e = ?p) ds) \<union> set ?rest"
    by (metis set_append takeWhile_dropWhile_id)
  then have paths: "insert ?p (demand_path ` set ds) = insert ?p (demand_path ` set ?rest)"
    using tw unfolding image_Un by blast
  show ?case
  proof (intro exI[of _ "?run # more"] conjI)
    show "\<forall>run \<in> set (?run # more). DG_Demands run = filter (\<lambda>e. demand_path e = DG_Path run) (d # ds)"
      using more(3) own other gone more(4) by (auto simp: image_iff)
    show "DG_Path ` set (?run # more) = demand_path ` set (d # ds)"
      using more(4) paths by auto
  qed (use more in auto)
qed

lemma sessionChangedDemandRuns_eq: "sessionChangedDemandRuns changes = demandRuns changes"
proof (cases "canonicalRuns changes []")
  case None
  then show ?thesis
    by (auto simp: sessionChangedDemandRuns_def demandRuns_def Let_def groupDemands_filter)
next
  case (Some runs)
  from canonicalRuns_spec[OF this] have runs: "strict_keys DG_Path runs"
    "\<forall>run \<in> set runs. DG_Demands run = filter (\<lambda>d. demand_path d = DG_Path run) changes"
    "DG_Path ` set runs = demand_path ` set changes" by auto
  have "set runs = set (demandRuns changes)"
  proof (intro equalityI subsetI)
    fix r assume r: "r \<in> set runs"
    then have "r = \<lparr>DG_Path = DG_Path r, DG_Demands = filter (\<lambda>d. demand_path d = DG_Path r) changes\<rparr>"
      using runs(2) by (cases r) auto
    then show "r \<in> set (demandRuns changes)"
      using imageI[OF r, of DG_Path] runs(3) by (auto simp: demandRuns_def intro!: image_eqI[of r])
  next
    fix r assume "r \<in> set (demandRuns changes)"
    then obtain p where p: "p \<in> DG_Path ` set runs"
      "r = \<lparr>DG_Path = p, DG_Demands = filter (\<lambda>d. demand_path d = p) changes\<rparr>"
      using runs(3) by (auto simp: demandRuns_def)
    then obtain r' where "r' \<in> set runs" "DG_Path r' = p" by auto
    moreover then have "r' = r" using runs(2) p(2) by (cases r') auto
    ultimately show "r \<in> set runs" by simp
  qed
  moreover have "strict_keys DG_Path (demandRuns changes)"
    by (simp add: demandRuns_def strict_keys_map)
  ultimately show ?thesis
    using Some runs(1) strict_keys_unique by (fastforce simp: sessionChangedDemandRuns_def)
qed

lemma compactPathsLoop_remdups:
  "compactPathsLoop written paths = (if written = [] then remdups_adj paths
     else butlast written @ remdups_adj (last written # paths))"
proof (induction written paths rule: compactPathsLoop.induct)
  case (1 written)
  then show ?case by simp
next
  case (2 written path paths)
  then show ?case by (auto simp: butlast_append)
qed

lemma compactSortedPaths_remdups: "compactSortedPaths paths = remdups_adj paths"
  by (simp add: compactSortedPaths_def compactPathsLoop_remdups)

lemma sorted_remdups_adj_strict: "sorted xs \<Longrightarrow> strict_keys (\<lambda>x. x) (remdups_adj xs)"
proof (induction xs rule: remdups_adj.induct)
  case (3 x y xs)
  then show ?case
    by (auto simp: strict_keys_Cons order_less_le)
qed auto

lemma compactSortedPaths_sort: "compactSortedPaths (sort paths) = sorted_list_of_set (set paths)"
  unfolding compactSortedPaths_remdups
  by (rule strict_keys_unique[of "\<lambda>x. x"]) (auto intro: sorted_remdups_adj_strict)

section \<open>The effect of a transaction\<close>

text \<open>The abstract state: the demands each path has.\<close>

definition store_ok :: "retainedDemandStore \<Rightarrow> bool" where
  "store_ok s \<longleftrightarrow> strict_keys dg_path (rds_groups s) \<and> (\<forall>g \<in> set (rds_groups s). Clean (dg_path g) = dg_path g)"

definition demand_map :: "retainedDemandStore \<Rightarrow> string \<rightharpoonup> demandGroup" where
  "demand_map s = map_by dg_path (rds_groups s)"

lemma set_insert_at [simp]: "set (insert_at i x xs) = insert x (set xs)"
  by (simp add: insert_at_def) (metis Un_insert_right append_take_drop_id set_append)

lemma set_delete_at_subset: "set (delete_at i xs) \<subseteq> set xs"
  by (auto simp: delete_at_def dest: in_set_takeD in_set_dropD)

lemma tx_replace_effect:
  assumes "store_ok s" and "Clean (dg_path g) = dg_path g"
  shows "store_ok (fst (tx_replace g (s, t)))"
    and "demand_map (fst (tx_replace g (s, t))) = (demand_map s)(dg_path g \<mapsto> g)"
  using assms update_at_strict[of dg_path "rds_groups s" g] insert_at_strict[of dg_path "rds_groups s" g]
  by (auto simp: tx_replace_def Let_def store_ok_def demand_map_def found_at_def
      dest!: set_update_subset_insert[THEN subsetD])

lemma tx_remove_effect:
  assumes "store_ok s"
  shows "store_ok (fst (tx_remove p (s, t)))"
    and "demand_map (fst (tx_remove p (s, t))) = (demand_map s)(p := None)"
proof -
  let ?i = "search_key dg_path (rds_groups s) p"
  have ok: "strict_keys dg_path (rds_groups s)" using assms by (simp add: store_ok_def)
  show "store_ok (fst (tx_remove p (s, t)))"
    using assms delete_at_strict(1)[OF ok, of p] search_key_le[of dg_path "rds_groups s" p]
      set_delete_at_subset[of ?i "rds_groups s"]
    by (auto simp: tx_remove_def Let_def store_ok_def found_at_def order_le_less)
  show "demand_map (fst (tx_remove p (s, t))) = (demand_map s)(p := None)"
  proof (cases "found_at dg_path (rds_groups s) p ?i")
    case True
    then show ?thesis
      using delete_at_strict(2)[OF ok] by (auto simp: tx_remove_def Let_def demand_map_def found_at_def)
  next
    case False
    then have "lookup_key dg_path (rds_groups s) p = None"
      using search_key_le[of dg_path "rds_groups s" p]
      by (auto simp: lookup_key_def Let_def found_at_def order_le_less)
    then show ?thesis
      using False search_key_le[of dg_path "rds_groups s" p] lookup_key_map_by[OF ok]
      by (auto simp: tx_remove_def Let_def demand_map_def found_at_def order_le_less fun_upd_idem)
  qed
qed

lemma fold_tx_replace_effect:
  assumes "store_ok s" and "\<forall>g \<in> set gs. Clean (dg_path g) = dg_path g"
  shows "store_ok (fst (fold tx_replace gs (s, t))) \<and>
    demand_map (fst (fold tx_replace gs (s, t))) = demand_map s ++ map_by dg_path (rev gs)"
  using assms
proof (induction gs arbitrary: s t)
  case Nil
  then show ?case by simp
next
  case (Cons g gs)
  obtain s' t' where st: "tx_replace g (s, t) = (s', t')" by force
  then have "store_ok s'" "demand_map s' = (demand_map s)(dg_path g \<mapsto> g)"
    using tx_replace_effect[OF Cons.prems(1), of g t] Cons.prems(2) by auto
  then show ?case using Cons st by (simp add: map_by_append map_add_def fun_eq_iff split: option.split)
qed

lemma fold_tx_remove_effect:
  assumes "store_ok s"
  shows "store_ok (fst (fold (\<lambda>p. tx_remove (Clean p)) ps (s, t))) \<and>
    demand_map (fst (fold (\<lambda>p. tx_remove (Clean p)) ps (s, t))) = demand_map s |` (- Clean ` set ps)"
  using assms
proof (induction ps arbitrary: s t)
  case Nil
  then show ?case by simp
next
  case (Cons p ps)
  obtain s' t' where st: "tx_remove (Clean p) (s, t) = (s', t')" by force
  then have "store_ok s'" "demand_map s' = (demand_map s)(Clean p := None)"
    using tx_remove_effect[OF Cons.prems, of "Clean p" t] by auto
  then show ?case using Cons st by (auto simp: restrict_map_def fun_eq_iff)
qed

lemma store_ok_empty [simp]: "store_ok (s\<lparr>rds_groups := []\<rparr>)"
  by (simp add: store_ok_def)

lemma beginRuns_effect:
  assumes "store_ok s" and "\<forall>g \<in> set runs. Clean (dg_path g) = dg_path g"
  shows "store_ok (fst (beginRuns runs removed reset s))"
    and "demand_map (fst (beginRuns runs removed reset s)) =
      ((if reset then Map.empty else demand_map s) ++ map_by dg_path (rev runs))
        |` (- Clean ` set removed)"
proof -
  let ?s = "if reset then s\<lparr>rds_groups := []\<rparr> else s"
  have ok: "store_ok ?s" using assms(1) by simp
  obtain t where run: "beginRuns runs removed reset s =
      fold (\<lambda>path. tx_remove (Clean path)) removed (fold tx_replace runs (?s, t))"
    by (simp add: beginRuns_def Let_def)
  obtain s1 t1 where mid: "fold tx_replace runs (?s, t) = (s1, t1)" by force
  have "demand_map ?s = (if reset then Map.empty else demand_map s)"
    by (simp add: demand_map_def)
  then show "store_ok (fst (beginRuns runs removed reset s))"
    "demand_map (fst (beginRuns runs removed reset s)) =
      ((if reset then Map.empty else demand_map s) ++ map_by dg_path (rev runs))
        |` (- Clean ` set removed)"
    using fold_tx_replace_effect[OF ok assms(2), of t] fold_tx_remove_effect[of s1 removed t1] mid run
    by auto
qed

section \<open>Rollback\<close>

text \<open>
  Between the start of a transaction and its rollback the analysis writes the caches of the groups (the
  expansion of a compact group, its hash and its contribution) and nothing else: \<open>group_core\<close> is what it
  leaves alone.
\<close>

definition group_core :: "demandGroup \<Rightarrow> demandGroup" where
  "group_core g = g\<lparr>dg_hash := 0, dg_contribution := None,
     dg_demands := (if isCompact g then None else dg_demands g)\<rparr>"

definition undo_core :: "demandUndo \<Rightarrow> demandUndo" where
  "undo_core u = u\<lparr>du_previous := group_core (du_previous u)\<rparr>"

lemma map_undoStep: "map group_core (undoStep u gs) = undoStep (undo_core u) (map group_core gs)"
  by (simp add: undoStep_def undo_core_def map_update map_insert_at map_delete_at split: demandUndoKind.split)

lemma map_foldr_undoStep:
  "map group_core (foldr undoStep us gs) = foldr undoStep (map undo_core us) (map group_core gs)"
  by (induction us) (simp_all add: map_undoStep)

text \<open>The undo log of a step inverts the step.\<close>

definition undoes :: "demandState \<Rightarrow> demandState \<Rightarrow> bool" where
  "undoes st st' \<longleftrightarrow> (\<exists>us. tx_undo (snd st') = tx_undo (snd st) @ us \<and>
     foldr undoStep us (rds_groups (fst st')) = rds_groups (fst st) \<and>
     tx_reset (snd st') = tx_reset (snd st) \<and> tx_finished (snd st') = tx_finished (snd st) \<and>
     tx_resetOld (snd st') = tx_resetOld (snd st))"

lemma undoes_refl: "undoes st st"
  by (simp add: undoes_def)

lemma undoes_trans: "undoes a b \<Longrightarrow> undoes b c \<Longrightarrow> undoes a c"
  by (auto simp: undoes_def)

lemma undoes_tx_replace: "undoes st (tx_replace g st)"
  using delete_insert_at[OF search_key_le]
  by (auto simp: undoes_def tx_replace_def undoStep_def Let_def split: prod.split)

lemma undoes_tx_remove: "undoes st (tx_remove p st)"
  using search_key_le[of dg_path "rds_groups (fst st)" p]
  by (auto simp: undoes_def tx_remove_def undoStep_def Let_def order_le_less insert_delete_at split: prod.split)

lemma undoes_fold: "(\<And>x st. undoes st (f x st)) \<Longrightarrow> undoes st (fold f xs st)"
proof (induction xs arbitrary: st)
  case (Cons x xs)
  then show ?case using undoes_trans[of st "f x st" "fold f xs (f x st)"] by simp
qed (simp add: undoes_refl)

lemma rollback_beginRuns:
  assumes "beginRuns runs removed reset s = (s', t)"
    and "map group_core (rds_groups s'') = map group_core (rds_groups s')"
  shows "map group_core (rds_groups (fst (tx_rollback (s'', t)))) = map group_core (rds_groups s)"
proof -
  let ?s = "if reset then s\<lparr>rds_groups := []\<rparr> else s"
  define t0 where "t0 = \<lparr>tx_undo = [],
    tx_changedPaths = compactSortedPaths (sort (map dg_path runs @ map Clean removed)),
    tx_changedRuns = runs, tx_resetOld = (if reset then rds_groups s else []), tx_reset = reset,
    tx_finished = False\<rparr>"
  have t0: "tx_undo t0 = []" "tx_reset t0 = reset" "tx_finished t0 = False"
    "tx_resetOld t0 = (if reset then rds_groups s else [])"
    "(s', t) = fold (\<lambda>path. tx_remove (Clean path)) removed (fold tx_replace runs (?s, t0))"
    using assms(1) by (simp_all add: beginRuns_def Let_def t0_def)
  have "undoes (?s, t0) (s', t)"
    unfolding t0(5) by (intro undoes_trans[OF undoes_fold undoes_fold] undoes_tx_replace undoes_tx_remove)
  then have un: "foldr undoStep (tx_undo t) (rds_groups s') = rds_groups ?s" "tx_reset t = reset"
    "\<not> tx_finished t" "tx_resetOld t = (if reset then rds_groups s else [])"
    using t0(1-4) by (auto simp: undoes_def)
  show ?thesis
  proof (cases reset)
    case True
    then show ?thesis using un by (simp add: tx_rollback_def tx_finish_def)
  next
    case False
    have "map group_core (foldr undoStep (tx_undo t) (rds_groups s'')) =
        map group_core (foldr undoStep (tx_undo t) (rds_groups s'))"
      by (simp only: map_foldr_undoStep assms(2))
    then show ?thesis using un False by (simp add: tx_rollback_def tx_finish_def)
  qed
qed

section \<open>Async demands of a group\<close>

lemma canonicalizeDemandRun_filter:
  "(\<And>d l q. p (d\<lparr>dem_Location := l, dem_QueryLocation := q\<rparr>) = p d) \<Longrightarrow>
   filter p (canonicalizeDemandRun path ds) = canonicalizeDemandRun path (filter p ds)"
  by (simp add: canonicalizeDemandRun_def filter_map comp_def)

lemma appendAsyncDemands_expanded:
  assumes "ensureExpanded g = Inr g'" and "isCompact g \<Longrightarrow> dg_demands g = None"
  shows "appendAsyncDemands g target = Inr (target @ filter dem_Async (elems (dg_demands g')))"
proof (cases "isCompact g")
  case False
  then show ?thesis using assms(1) by (simp add: appendAsyncDemands_def ensureExpanded_def)
next
  case True
  then obtain ds where ds: "Expand \<lparr>cd_Groups = [dg_compact g], cd_Strings = the (dg_strings g)\<rparr> = Inr ds"
    "g' = g\<lparr>dg_demands := Some (canonicalizeDemandRun (dg_path g) ds)\<rparr>"
    using assms by (auto simp: ensureExpanded_def bind_result_eq_Inr_iff)
  have "appendCompactDemandsWithFlag target (dg_compact g) (the (dg_strings g)) demandFlagAsync =
      Inr (target @ filter dem_Async ds)"
    using appendCompactDemandsWithFlag_flag[OF ds(1), of 4] hasFlag_demandFlags(5)
    unfolding demandFlagAsync_def by simp
  then show ?thesis
    using True ds(2) by (simp add: appendAsyncDemands_def canonicalizeDemandRun_filter)
qed

section \<open>Effect of a request\<close>

definition canonicalGroup :: "EntityDemand list \<Rightarrow> string \<Rightarrow> demandGroup" where
  "canonicalGroup changes p = zeroDemandGroup\<lparr>dg_path := p, dg_demands :=
     Some (sort_key demand_order (map cleanDemand (filter (\<lambda>d. demand_path d = p) changes)))\<rparr>"

lemma begin_demands_runs:
  "begin_demands changes removed reset s =
     beginRuns (map (canonicalGroup changes) (sorted_list_of_set (demand_path ` set changes))) removed reset s"
proof -
  have "map (\<lambda>run. zeroDemandGroup\<lparr>dg_path := Clean (DG_Path run),
        dg_demands := Some (canonicalDemandRun (Clean (DG_Path run)) (DG_Demands run))\<rparr>)
      (sessionChangedDemandRuns changes) =
    map (canonicalGroup changes) (sorted_list_of_set (demand_path ` set changes))"
    by (auto simp: sessionChangedDemandRuns_eq demandRuns_def canonicalGroup_def canonicalDemandRun_sort
      demand_path_def)
  then show ?thesis by (simp add: begin_demands_def)
qed

lemma tx_changedPaths_step [simp]:
  "tx_changedPaths (snd (tx_replace g st)) = tx_changedPaths (snd st)"
  "tx_changedPaths (snd (tx_remove p st)) = tx_changedPaths (snd st)"
  by (simp_all add: tx_replace_def tx_remove_def Let_def split: prod.split)

lemma tx_changedPaths_replaces [simp]:
  "tx_changedPaths (snd (fold tx_replace gs st)) = tx_changedPaths (snd st)"
  by (induction gs arbitrary: st) simp_all

lemma tx_changedPaths_removes [simp]:
  "tx_changedPaths (snd (fold (\<lambda>p. tx_remove (f p)) ps st)) = tx_changedPaths (snd st)"
  by (induction ps arbitrary: st) simp_all

lemma tx_changedPaths_beginRuns:
  "tx_changedPaths (snd (beginRuns runs removed reset s)) =
     sorted_list_of_set (dg_path ` set runs \<union> Clean ` set removed)"
  by (simp add: beginRuns_def Let_def compactSortedPaths_sort)

lemma firstDuplicate_None:
  "sorted (map dg_path gs) \<Longrightarrow> firstDuplicate gs = None \<Longrightarrow> strict_keys dg_path gs"
proof (induction gs rule: firstDuplicate.induct)
  case (1 a b gs)
  then show ?case by (fastforce simp: strict_keys_Cons split: if_splits)
qed auto

lemma compactGroups_clean:
  "map_result (compactGroup strings) gs = Inr runs \<Longrightarrow> g \<in> set runs \<Longrightarrow> Clean (dg_path g) = dg_path g"
  by (induction gs arbitrary: runs) (auto simp: bind_result_eq_Inr_iff compactGroup_def)

lemma beginCompact_runs:
  assumes "store_ok s" and "beginCompact compact removed reset s = Inr (s', t)"
  shows "\<exists>runs. map_result (compactGroup (cd_Strings compact)) (cd_Groups compact) = Inr runs \<and>
    distinct (map dg_path runs) \<and> store_ok s' \<and>
    demand_map s' = ((if reset then Map.empty else demand_map s) ++ map_by dg_path runs)
      |` (- Clean ` set removed) \<and>
    tx_changedPaths t = sorted_list_of_set (dg_path ` set runs \<union> Clean ` set removed)"
proof -
  from assms(2) obtain runs where
    runs: "map_result (compactGroup (cd_Strings compact)) (cd_Groups compact) = Inr runs"
    and fresh: "firstDuplicate (sort_key dg_path runs) = None"
    and st: "beginRuns (sort_key dg_path runs) removed reset s = (s', t)"
    by (auto simp: beginCompact_def bind_result_eq_Inr_iff Let_def split: option.splits)
  have strict: "strict_keys dg_path (sort_key dg_path runs)"
    using firstDuplicate_None[OF _ fresh] by simp
  then have dist: "distinct (map dg_path runs)"
    using strict_keys_distinct by (metis distinct_map distinct_sort set_sort)
  have clean: "\<forall>g \<in> set (sort_key dg_path runs). Clean (dg_path g) = dg_path g"
    using compactGroups_clean[OF runs] by simp
  have "map_by dg_path (rev (sort_key dg_path runs)) = map_by dg_path runs"
    using dist strict_keys_distinct[OF strict] by (intro map_by_perm) (simp_all add: rev_map[symmetric])
  then show ?thesis
    using runs dist beginRuns_effect[OF assms(1) clean, of removed reset] st
      tx_changedPaths_beginRuns[of "sort_key dg_path runs" removed reset s] by auto
qed

text \<open>Every row of a compact group lies in the path of the group.\<close>

lemma expandRows_path:
  "expandRows strings path queryCount packed previousStart queryIndex demands = Inr (ds, n) \<Longrightarrow>
   \<forall>d \<in> set demands. loc_Path (dem_Location d) = path \<Longrightarrow> \<forall>d \<in> set ds. loc_Path (dem_Location d) = path"
proof (induction strings path queryCount packed previousStart queryIndex demands rule: expandRows.induct)
  case (1 strings path queryCount packed previousStart queryIndex demands)
  show ?case
  proof (cases "packed = []")
    case True
    then show ?thesis using "1.prems" by (simp add: expandRows.simps[of _ _ _ "[]"])
  next
    case False
    then obtain header start stop rest where row: "takeDemandRow previousStart packed = Inr (header, start, stop, rest)"
      using "1.prems"(1) by (auto simp: expandRows.simps[of _ _ _ packed] bind_result_eq_Inr_iff)
    show ?thesis
    proof (cases "header AND 1 = 0")
      case True
      have "expandRows strings path queryCount rest start queryIndex
          (demands @ [demandOfFlags path start stop (drop_bit 1 header)]) = Inr (ds, n)"
        using "1.prems"(1) False row True by (simp add: expandRows.simps[of _ _ _ packed] Let_def)
      then show ?thesis
        using "1.IH"(2)[OF False row refl refl refl refl] "1.prems"(2) True by (auto simp: demandOfFlags_def)
    next
      case odd: False
      then obtain pathIndex queryStart queryStop after queryPath where
        query: "takeQueryRow rest = Inr (pathIndex, queryStart, queryStop, after)" "lookup strings pathIndex = Inr queryPath"
        and more: "\<not> queryCount \<le> queryIndex"
        using "1.prems"(1) False row
        by (auto simp: expandRows.simps[of _ _ _ packed] Let_def bind_result_eq_Inr_iff split: if_splits)
      show ?thesis
        using "1.IH"(1)[OF False row refl refl refl refl odd query(1) refl refl refl query(2) more]
          "1.prems" False row odd query more
        by (auto simp: expandRows.simps[of _ _ _ packed] Let_def demandOfFlags_def)
    qed
  qed
qed

lemma map_result_member:
  "map_result f xs = Inr ys \<Longrightarrow> x \<in> set xs \<Longrightarrow> \<exists>y \<in> set ys. f x = Inr y"
  by (induction xs arbitrary: ys) (auto simp: bind_result_eq_Inr_iff)

lemma ensureExpanded_compact:
  assumes "compactGroup strings c = Inr g" and "Expand \<lparr>cd_Groups = [c], cd_Strings = strings\<rparr> = Inr ds"
  shows "ensureExpanded g = Inr (g\<lparr>dg_demands := Some (map cleanDemand ds)\<rparr>)"
proof -
  from assms(1) obtain path where path: "lookup strings (cg_Path c) = Inr path"
    and g: "g = zeroDemandGroup\<lparr>dg_path := Clean path, dg_compact := c, dg_strings := Some strings\<rparr>"
    by (auto simp: compactGroup_def bind_result_eq_Inr_iff)
  obtain count n where "expandRows strings path count (cg_Demands c) 0 0 [] = Inr (ds, n)"
    using assms(2) path by (auto simp: Expand_def bind_result_eq_Inr_iff)
  then have "\<forall>d \<in> set ds. loc_Path (dem_Location d) = path" by (rule expandRows_path) simp
  then have "canonicalizeDemandRun (Clean path) ds = map cleanDemand ds"
    by (auto simp: canonicalizeDemandRun_def cleanDemand_def cleanLocation_def)
  then show ?thesis using assms(2) by (simp add: ensureExpanded_def isCompact_def g zeroDemandGroup_def)
qed

section \<open>Properties\<close>

text \<open>
  C23. A demand request edits the retained set as a map: every path the request names has exactly the
  request's demands for it, cleaned and in stable (start, end) order; every removed path is gone, also
  one that the request names; every other path is as before, or gone when the request resets. The
  changed paths of the transaction are exactly the named and removed ones, once each and in order.
\<close>

theorem begin_demands_effect:
  assumes "store_ok s" and "begin_demands changes removed reset s = (s', t)"
  shows "store_ok s' \<and>
    demand_map s' p =
      (if p \<in> Clean ` set removed then None
       else if p \<in> demand_path ` set changes then Some (canonicalGroup changes p)
       else if reset then None else demand_map s p) \<and>
    tx_changedPaths t = sorted_list_of_set (demand_path ` set changes \<union> Clean ` set removed)"
proof -
  let ?runs = "map (canonicalGroup changes) (sorted_list_of_set (demand_path ` set changes))"
  have path [simp]: "dg_path (canonicalGroup changes q) = q" for q by (simp add: canonicalGroup_def)
  have st: "beginRuns ?runs removed reset s = (s', t)" using assms(2) by (simp add: begin_demands_runs)
  have clean: "\<forall>g \<in> set ?runs. Clean (dg_path g) = dg_path g" by (auto simp: demand_path_def)
  have runs: "map_by dg_path (rev ?runs) =
    (\<lambda>q. if q \<in> demand_path ` set changes then Some (canonicalGroup changes q) else None)"
    by (subst map_by_rev) (auto simp: map_by_map_keys comp_def fun_eq_iff)
  show ?thesis
    using beginRuns_effect[OF assms(1) clean, of removed reset] runs
      tx_changedPaths_beginRuns[of ?runs removed reset s] st
    by (auto simp: restrict_map_def map_add_def image_image)
qed

theorem begin_demands_effect_witness:
  "\<exists>s' t. begin_demands [demandOfFlags ''b/../a'' 7 9 1, demandOfFlags ''a'' 2 4 1] [''c''] False
     \<lparr>rds_groups = [zeroDemandGroup\<lparr>dg_path := ''c''\<rparr>]\<rparr> = (s', t) \<and> store_ok s' \<and>
     demand_map s' ''c'' = None \<and>
     map_option (\<lambda>g. map demand_order (the (dg_demands g))) (demand_map s' ''a'') = Some [(2, 4), (7, 9)]"
proof -
  let ?ds = "[demandOfFlags ''b/../a'' 7 9 1, demandOfFlags ''a'' 2 4 1]"
  let ?s = "\<lparr>rds_groups = [zeroDemandGroup\<lparr>dg_path := ''c''\<rparr>]\<rparr>"
  obtain s' t where st: "begin_demands ?ds [''c''] False ?s = (s', t)" by force
  have clean: "Clean ''b/../a'' = ''a''" "Clean ''a'' = ''a''" "Clean ''c'' = ''c''" by code_simp+
  have ok: "store_ok ?s" using clean(3) by (simp add: store_ok_def zeroDemandGroup_def)
  have "map demand_order (the (dg_demands (canonicalGroup ?ds ''a''))) = [(2, 4), (7, 9)]"
    using clean by (simp add: canonicalGroup_def demand_path_def demandOfFlags_def demand_order_def
      cleanDemand_def cleanLocation_def go_int_def)
  then show ?thesis
    using begin_demands_effect[OF ok st, of "''c''"] begin_demands_effect[OF ok st, of "''a''"] st clean
    by (auto simp: demand_path_def demandOfFlags_def)
qed

text \<open>
  C24. A compact request is accepted only when every group's path and rows decode and no two groups name
  the same clean path; then the named paths hold the groups as sent, the removed paths are gone and
  every other path is as before, or gone when the request resets.
\<close>

theorem beginCompact_effect:
  assumes "store_ok s" and "beginCompact compact removed reset s = Inr (s', t)"
  shows "\<exists>runs. map_result (compactGroup (cd_Strings compact)) (cd_Groups compact) = Inr runs \<and>
    distinct (map dg_path runs) \<and> store_ok s' \<and>
    demand_map s' = ((if reset then Map.empty else demand_map s) ++ map_by dg_path runs)
      |` (- Clean ` set removed) \<and>
    tx_changedPaths t = sorted_list_of_set (dg_path ` set runs \<union> Clean ` set removed)"
  using assms by (rule beginCompact_runs)

theorem beginCompact_effect_witness:
  "\<exists>s' t runs. beginCompact (CompactDemandsV3From [demandOfFlags ''a'' 2 4 1, demandOfFlags ''b'' 0 1 1])
     [''c''] True \<lparr>rds_groups = []\<rparr> = Inr (s', t) \<and> store_ok s' \<and>
     demand_map s' = map_by dg_path runs |` (- {''c''}) \<and> map dg_path runs = [''a'', ''b'']"
proof -
  let ?c = "CompactDemandsV3From [demandOfFlags ''a'' 2 4 1, demandOfFlags ''b'' 0 1 1]"
  have runs: "(case map_result (compactGroup (cd_Strings ?c)) (cd_Groups ?c) of Inl _ \<Rightarrow> []
      | Inr gs \<Rightarrow> map dg_path gs) = [''a'', ''b'']" by code_simp
  have "(case beginCompact ?c [''c''] True \<lparr>rds_groups = []\<rparr> of Inl _ \<Rightarrow> False | Inr _ \<Rightarrow> True)"
    by code_simp
  then obtain s' t where st: "beginCompact ?c [''c''] True \<lparr>rds_groups = []\<rparr> = Inr (s', t)"
    by (auto split: sum.splits)
  have ok: "store_ok \<lparr>rds_groups = []\<rparr>" by (simp add: store_ok_def)
  have clean: "Clean ''c'' = ''c''" by code_simp
  show ?thesis using beginCompact_effect[OF ok st] st runs clean by auto
qed

text \<open>
  C6. Rolling a transaction back restores the retained demand set exactly, whatever the analysis wrote
  to the caches of the groups in between: paths, demands and compact rows are those before the request,
  in the same order, for a sparse request, a compact one and a reset.
\<close>

theorem demands_rollback:
  assumes "begin_demands changes removed reset s = (s', t) \<or> beginCompact compact removed reset s = Inr (s', t)"
    and "map group_core (rds_groups s'') = map group_core (rds_groups s')"
  shows "map group_core (rds_groups (fst (tx_rollback (s'', t)))) = map group_core (rds_groups s)"
proof -
  from assms(1) obtain runs where "beginRuns runs removed reset s = (s', t)"
    by (auto simp: begin_demands_runs beginCompact_def bind_result_eq_Inr_iff Let_def split: option.splits)
  then show ?thesis using assms(2) by (rule rollback_beginRuns)
qed

theorem demands_rollback_witness:
  "\<exists>s' t. begin_demands [demandOfFlags ''a'' 2 4 1] [''c''] False
     \<lparr>rds_groups = [zeroDemandGroup\<lparr>dg_path := ''c''\<rparr>]\<rparr> = (s', t) \<and>
     map dg_path (rds_groups s') \<noteq> [''c''] \<and>
     map group_core (rds_groups (fst (tx_rollback (s', t)))) = [zeroDemandGroup\<lparr>dg_path := ''c''\<rparr>]"
proof -
  let ?s = "\<lparr>rds_groups = [zeroDemandGroup\<lparr>dg_path := ''c''\<rparr>]\<rparr>"
  obtain s' t where st: "begin_demands [demandOfFlags ''a'' 2 4 1] [''c''] False ?s = (s', t)" by force
  have "map dg_path (rds_groups (fst (begin_demands [demandOfFlags ''a'' 2 4 1] [''c''] False ?s))) \<noteq> [''c'']"
    by code_simp
  moreover have "map group_core (rds_groups ?s) = [zeroDemandGroup\<lparr>dg_path := ''c''\<rparr>]"
    by (simp add: group_core_def zeroDemandGroup_def isCompact_def)
  ultimately show ?thesis
    using demands_rollback[OF disjI1[OF st] refl] st by auto
qed

text \<open>
  C27. A compact group keeps the order its sender gave it. For every accepted compact request and every
  group of it whose path is not removed, the store holds that group, and its expansion is the expansion
  of the frame's group, row by row and in the sender's order, with only the paths cleaned. So the
  expanded run is the canonical one, which the plain request path establishes for every run, exactly
  when the sender's rows were in (start, end) order.
\<close>

theorem compact_run_order:
  assumes "store_ok s" and "beginCompact compact removed reset s = Inr (s', t)" and "c \<in> set (cd_Groups compact)"
    and "lookup (cd_Strings compact) (cg_Path c) = Inr path" and "Clean path \<notin> Clean ` set removed"
    and "Expand \<lparr>cd_Groups = [c], cd_Strings = cd_Strings compact\<rparr> = Inr ds"
  shows "\<exists>g g'. demand_map s' (Clean path) = Some g \<and> ensureExpanded g = Inr g' \<and>
    dg_demands g' = Some (map cleanDemand ds) \<and> map demand_order (map cleanDemand ds) = map demand_order ds \<and>
    (canonicalDemandRun (dg_path g') ds = map cleanDemand ds \<longleftrightarrow> sorted (map demand_order ds))"
proof -
  obtain runs where runs: "map_result (compactGroup (cd_Strings compact)) (cd_Groups compact) = Inr runs"
      "distinct (map dg_path runs)"
    and store: "demand_map s' = ((if reset then Map.empty else demand_map s) ++ map_by dg_path runs) |` (- Clean ` set removed)"
    using beginCompact_runs[OF assms(1,2)] by blast
  obtain g where g: "g \<in> set runs" "compactGroup (cd_Strings compact) c = Inr g"
    using map_result_member[OF runs(1) assms(3)] by blast
  then have path: "dg_path g = Clean path" using assms(4) by (auto simp: compactGroup_def bind_result_eq_Inr_iff)
  then have "map_by dg_path runs (Clean path) = Some g" using runs(2) g(1)
    by (auto simp: map_by_def map_of_eq_Some_iff comp_def intro: image_eqI[of _ _ g])
  then have "demand_map s' (Clean path) = Some g" using assms(5) by (simp add: store map_add_def)
  moreover have order: "map demand_order (map cleanDemand ds) = map demand_order ds"
    by (simp add: demand_order_def cleanDemand_def cleanLocation_def)
  moreover have "canonicalDemandRun (Clean path) ds = map cleanDemand ds \<longleftrightarrow> sorted (map demand_order ds)"
    using sort_key_id_if_sorted[of demand_order "map cleanDemand ds"] sorted_sort_key[of demand_order "map cleanDemand ds"]
    unfolding canonicalDemandRun_sort[OF Clean_idem] order[symmetric] by metis
  ultimately show ?thesis using ensureExpanded_compact[OF g(2) assms(6)] path by auto
qed

definition descendingEnds :: CompactDemandsV3 where
  "descendingEnds = CompactDemandsV3From [demandOfFlags ''a'' 0 5 1, demandOfFlags ''a'' 0 3 1]"

theorem compact_run_order_witness:
  "\<exists>s' t g g'. beginCompact descendingEnds [] False \<lparr>rds_groups = []\<rparr> = Inr (s', t) \<and>
     demand_map s' ''a'' = Some g \<and> ensureExpanded g = Inr g' \<and>
     map demand_order (the (dg_demands g')) = [(0, 5), (0, 3)]"
proof -
  let ?ds = "[demandOfFlags ''a'' 0 5 1, demandOfFlags ''a'' 0 3 1]"
  have ok: "store_ok \<lparr>rds_groups = []\<rparr>" by (simp add: store_ok_def)
  have "(case beginCompact descendingEnds [] False \<lparr>rds_groups = []\<rparr> of Inl _ \<Rightarrow> False | Inr _ \<Rightarrow> True)" by code_simp
  then obtain s' t where st: "beginCompact descendingEnds [] False \<lparr>rds_groups = []\<rparr> = Inr (s', t)"
    by (auto split: sum.splits)
  have "length (cd_Groups descendingEnds) = 1" by code_simp
  then obtain c where c: "cd_Groups descendingEnds = [c]" by (auto simp: length_Suc_conv)
  have "lookup (cd_Strings descendingEnds) (cg_Path (hd (cd_Groups descendingEnds))) = Inr ''a''"
    "Expand \<lparr>cd_Groups = [hd (cd_Groups descendingEnds)], cd_Strings = cd_Strings descendingEnds\<rparr> = Inr ?ds"
    "Clean ''a'' = ''a''" by code_simp+
  then show ?thesis
    using compact_run_order[OF ok st, of c "''a''" ?ds] st c by (auto simp: demandOfFlags_def demand_order_def go_int_def)
qed

text \<open>
  The async demands collected from a group are those of its expansion: for a plain group and for a
  compact one that is released, \<^verbatim>\<open>appendAsyncDemands\<close> appends exactly the async demands of the expanded
  run, with the same clean paths.
\<close>

theorem appendAsyncDemands_expands:
  assumes "ensureExpanded g = Inr g'" and "isCompact g \<longrightarrow> dg_demands g = None"
  shows "appendAsyncDemands g target = Inr (target @ filter dem_Async (elems (dg_demands g')))"
  using appendAsyncDemands_expanded[OF assms(1)] assms(2) by simp

theorem appendAsyncDemands_expands_witness:
  "\<exists>g g'. isCompact g \<and> dg_demands g = None \<and> ensureExpanded g = Inr g' \<and>
     appendAsyncDemands g [] = Inr (filter dem_Async (elems (dg_demands g'))) \<and>
     map dem_Async (elems (dg_demands g')) = [True, False]"
proof -
  let ?g = "zeroDemandGroup\<lparr>dg_path := ''a'', dg_compact := \<lparr>cg_Path = 1, cg_Demands = [32, 1, 4, 2, 2, 3]\<rparr>,
    dg_strings := Some [[], ''./a'']\<rparr>"
  have "(case ensureExpanded ?g of Inl _ \<Rightarrow> False
    | Inr g' \<Rightarrow> map dem_Async (elems (dg_demands g')) = [True, False])" by code_simp
  then obtain g' where g': "ensureExpanded ?g = Inr g'" "map dem_Async (elems (dg_demands g')) = [True, False]"
    by (auto split: sum.splits)
  have "isCompact ?g \<and> dg_demands ?g = None" by (simp add: isCompact_def zeroDemandGroup_def)
  then show ?thesis
    using appendAsyncDemands_expands[OF g'(1), of "[]"] g' by (intro exI[of _ ?g] exI[of _ g']) simp
qed

text \<open>
  \<^verbatim>\<open>canonicalDemandRun\<close> is the stable sort by start and end of the cleaned demands, whichever of its
  three branches runs (borrowing the run, cleaning a copy, or sorting it).
\<close>

theorem canonicalDemandRun_canonical:
  "canonicalDemandRun (Clean path) demands = sort_key demand_order (map cleanDemand demands)"
  by (simp add: canonicalDemandRun_sort)

text \<open>
  C26. Grouping a request by path gives one run per clean path, in path order, with the demands of that
  path in request order; the borrowing scan and the map of the compatibility path agree.
\<close>

theorem sessionChangedDemandRuns_groups:
  "sessionChangedDemandRuns changes =
     map (\<lambda>path. \<lparr>DG_Path = path, DG_Demands = filter (\<lambda>d. demand_path d = path) changes\<rparr>)
       (sorted_list_of_set (demand_path ` set changes))"
  by (simp add: sessionChangedDemandRuns_eq demandRuns_def)

end
