(* ===== verification/Retained_Store.thy ===== *)
theory Retained_Store
  imports Demand_Store
begin

text \<open>
  Retained contributions (\<^verbatim>\<open>retained_contributions.go\<close>): what one file contributes to a demand
  closure, the merge of an aligned semantic result into it, and the store of contributions with its
  two reverse indexes. The code shares contributions by pointer; here a pointer is an index into a heap
  of contributions. A Go map is an association list and a Go set a list without duplicates; the order
  in which Go iterates over them is not observed, since every loop over one inserts into or deletes
  from a map.
\<close>

section \<open>Contributions\<close>

type_synonym u32 = "32 word"

record retainedContribution =
  rc_demandHash :: u64
  rc_entities :: "EntityFact list option"
  rc_fullTier :: "u32 list"
  rc_roots :: "SymbolID list"
  rc_fullTierSymbols :: "SymbolID list"
  rc_descriptors :: "(SymbolID \<times> TypeDescriptor) list"
  rc_structural :: "SymbolID list"
  rc_dependencies :: "string list"
  rc_descriptorSymbols :: "SymbolID list"
  rc_durable :: bool
  rc_seedsPrepared :: bool

type_synonym contributionHeap = "retainedContribution list"

record SemanticDemandRunResult =
  srr_Entities :: "EntityFact list option"
  srr_Structural :: "SymbolID list"
  srr_Dependencies :: "string list"
  srr_Durable :: bool

text \<open>The roots and the descriptor of one entity row.\<close>

definition entityRoots :: "EntityFact \<Rightarrow> SymbolID list" where
  "entityRoots e =
     (if ent_Symbol e \<noteq> [] then [ent_Symbol e] else []) @
     (case ent_ResolvedCall e of None \<Rightarrow> []
      | Some c \<Rightarrow>
          (if call_Target c \<noteq> [] then [call_Target c] else []) @
          (case call_Targets c of None \<Rightarrow> []
           | Some ts \<Rightarrow> filter (\<lambda>s. s \<noteq> []) (map rd_Symbol (cts_Candidates ts))))"

definition entityDescriptor :: "EntityFact \<Rightarrow> (SymbolID \<times> TypeDescriptor) list" where
  "entityDescriptor e =
     (case ent_TypeDescriptor e of None \<Rightarrow> []
      | Some d \<Rightarrow> if ent_Symbol e \<noteq> [] then [(ent_Symbol e, d)] else [])"

definition prepareTransportSeeds :: "retainedContribution \<Rightarrow> retainedContribution" where
  "prepareTransportSeeds c =
     (case rc_entities c of None \<Rightarrow> c
      | Some entities \<Rightarrow>
          if rc_seedsPrepared c then c
          else c\<lparr>rc_roots := rc_roots c @ concat (map entityRoots entities),
                 rc_descriptors := rc_descriptors c @ concat (map entityDescriptor entities),
                 rc_fullTierSymbols := rc_fullTierSymbols c @
                   filter (\<lambda>s. s \<noteq> []) (map (\<lambda>i. ent_Symbol (entities ! unat i)) (rc_fullTier c)),
                 rc_seedsPrepared := True\<rparr>)"

definition releaseContributionRows :: "retainedContribution \<Rightarrow> retainedContribution" where
  "releaseContributionRows c =
     (if rc_entities c = None then c
      else (prepareTransportSeeds c)\<lparr>rc_entities := None, rc_fullTier := []\<rparr>)"

section \<open>Merging an aligned result\<close>

text \<open>
  Reading a slice: an index out of range is the run-time panic of Go. Every index expression of the
  merge below is such a read, at the index the code computes.
\<close>

definition slice_at :: "'a list \<Rightarrow> int \<Rightarrow> 'a result" where
  "slice_at xs index =
     (if 0 \<le> index \<and> index < int (length xs) then Inr (xs ! nat index)
      else Inl (Panic ''index out of range''))"

text \<open>The indexes of \<^verbatim>\<open>for index := range xs\<close>.\<close>

definition slice_range :: "'a list \<Rightarrow> int list" where
  "slice_range xs = map int [0..<length xs]"

definition validateCanonicalDependencyPaths :: "string \<Rightarrow> string list \<Rightarrow> unit result" where
  "validateCanonicalDependencyPaths owner paths =
     (if owner = [] \<or> Clean owner \<noteq> owner
      then Inl (Errorf ''semantic dependency owner is not clean and non-empty'')
      else bind_result
        (map_result (\<lambda>index.
           bind_result (slice_at paths index) (\<lambda>path.
           if path = [] \<or> Clean path \<noteq> path
           then Inl (Errorf ''semantic dependency path is not clean and non-empty'')
           else if path = owner then Inl (Errorf ''semantic dependency paths include owner'')
           else if index \<noteq> 0 then
             bind_result (slice_at paths (index - 1)) (\<lambda>previous.
             if path \<le> previous then Inl (Errorf ''semantic dependency paths are not strictly ordered'')
             else Inr ())
           else Inr ())) (slice_range paths))
        (\<lambda>_. Inr ()))"

definition zeroEntity :: "Location \<Rightarrow> EntityFact" where
  "zeroEntity l =
     \<lparr>ent_Location = l, ent_Symbol = [], ent_SymbolUnresolved = False, ent_TypeDescriptor = None,
      ent_ResolvedCall = None, ent_Callability = [], ent_RuntimeValueDomain = None,
      ent_PrimitiveValueDomain = \<lparr>pvd_bits = 0\<rparr>, ent_PrimitiveLiteralCandidates = [],
      ent_Constructability = ConstructabilityAbsent, ent_CallResultDomain = None,
      ent_ConstantValue = None, ent_ArrayShape = [], ent_TupleShape = None, ent_LibraryTypes = None,
      ent_ReferenceSpace = [], ent_RuntimeIdentity = []\<rparr>"

definition over :: "'a option \<Rightarrow> 'a option \<Rightarrow> 'a option" where
  "over target entity = (case entity of None \<Rightarrow> target | Some x \<Rightarrow> Some x)"

definition over_list :: "'a list \<Rightarrow> 'a list \<Rightarrow> 'a list" where
  "over_list target entity = (if entity \<noteq> [] then entity else target)"

definition mergeEntity :: "EntityFact \<Rightarrow> EntityFact \<Rightarrow> EntityFact" where
  "mergeEntity target entity = target\<lparr>
     ent_Symbol := over_list (ent_Symbol target) (ent_Symbol entity),
     ent_SymbolUnresolved :=
       (if ent_Symbol entity \<noteq> [] then False
        else if ent_SymbolUnresolved entity \<and> ent_Symbol target = [] then True
        else ent_SymbolUnresolved target),
     ent_TypeDescriptor := over (ent_TypeDescriptor target) (ent_TypeDescriptor entity),
     ent_ResolvedCall := over (ent_ResolvedCall target) (ent_ResolvedCall entity),
     ent_Callability := over_list (ent_Callability target) (ent_Callability entity),
     ent_Constructability := (if Constructability_IsPresent (ent_Constructability entity)
       then ent_Constructability entity else ent_Constructability target),
     ent_RuntimeValueDomain := over (ent_RuntimeValueDomain target) (ent_RuntimeValueDomain entity),
     ent_PrimitiveValueDomain := (if pvd_IsPresent (ent_PrimitiveValueDomain entity)
       then ent_PrimitiveValueDomain entity else ent_PrimitiveValueDomain target),
     ent_PrimitiveLiteralCandidates :=
       over_list (ent_PrimitiveLiteralCandidates target) (ent_PrimitiveLiteralCandidates entity),
     ent_CallResultDomain := over (ent_CallResultDomain target) (ent_CallResultDomain entity),
     ent_ConstantValue := over (ent_ConstantValue target) (ent_ConstantValue entity),
     ent_ArrayShape := over_list (ent_ArrayShape target) (ent_ArrayShape entity),
     ent_TupleShape := over (ent_TupleShape target) (ent_TupleShape entity),
     ent_LibraryTypes := over (ent_LibraryTypes target) (ent_LibraryTypes entity),
     ent_ReferenceSpace := over_list (ent_ReferenceSpace target) (ent_ReferenceSpace entity),
     ent_RuntimeIdentity := over_list (ent_RuntimeIdentity target) (ent_RuntimeIdentity entity)\<rparr>"

text \<open>
  The merge works in place. \<open>ms_entities\<close> is the array of \<^verbatim>\<open>result.Entities\<close>, whose first \<open>ms_rows\<close>
  elements are \<^verbatim>\<open>contribution.entities\<close>; a row that is appended overwrites the array. The structural
  symbols are compacted the same way. (An append past the end of the array would move it; it does not
  happen, because at most as many rows are written as were read.)
\<close>

record mergeState =
  ms_entities :: "EntityFact list"
  ms_rows :: nat
  ms_fullTier :: "u32 list"
  ms_structural :: "SymbolID list"
  ms_structuralRows :: nat

definition append_in_place :: "'a list \<Rightarrow> nat \<Rightarrow> 'a \<Rightarrow> 'a list" where
  "append_in_place array len x = take len array @ x # drop (Suc len) array"

definition contributed :: "mergeState \<Rightarrow> EntityFact list" where
  "contributed st = take (ms_rows st) (ms_entities st)"

text \<open>The row of the previous demand is extended when it is at the same location.\<close>

definition sameLocation :: "mergeState \<Rightarrow> EntityFact \<Rightarrow> bool result" where
  "sameLocation st entity =
     (let last = int (ms_rows st) - 1
      in if 0 \<le> last
         then bind_result (slice_at (contributed st) last) (\<lambda>row. Inr (ent_Location row = ent_Location entity))
         else Inr False)"

definition appendEntity :: "EntityFact \<Rightarrow> mergeState \<Rightarrow> mergeState" where
  "appendEntity row st =
     st\<lparr>ms_entities := append_in_place (ms_entities st) (ms_rows st) row, ms_rows := Suc (ms_rows st)\<rparr>"

definition mergeTarget :: "EntityDemand \<Rightarrow> EntityFact \<Rightarrow> mergeState \<Rightarrow> mergeState result" where
  "mergeTarget demand entity st =
     (let target = int (ms_rows st) - 1
      in bind_result (slice_at (contributed st) target) (\<lambda>row.
         Inr (st\<lparr>ms_entities := (ms_entities st)[nat target := mergeEntity row entity],
           ms_fullTier := (if ent_Symbol entity \<noteq> [] \<and> dem_References demand
             then ms_fullTier st @ [of_int (int (ms_rows st) - 1)] else ms_fullTier st)\<rparr>)))"

definition appendStructural :: "SymbolID \<Rightarrow> mergeState \<Rightarrow> mergeState" where
  "appendStructural symbol st =
     (if symbol \<noteq> [] then st\<lparr>ms_structural := append_in_place (ms_structural st) (ms_structuralRows st) symbol,
        ms_structuralRows := Suc (ms_structuralRows st)\<rparr>
      else st)"

text \<open>One iteration; \<open>n\<close> and \<open>m\<close> are the lengths of \<^verbatim>\<open>result.Entities\<close> and \<^verbatim>\<open>result.Structural\<close>.\<close>

definition mergeRow :: "EntityDemand list \<Rightarrow> nat \<Rightarrow> nat \<Rightarrow> int \<Rightarrow> mergeState \<Rightarrow> mergeState result" where
  "mergeRow demands n m index st =
     bind_result (slice_at demands index) (\<lambda>demand.
     bind_result (slice_at (take n (ms_entities st)) index) (\<lambda>entity.
     if ent_Location entity \<noteq> dem_Location demand
     then Inl (Errorf ''semantic demand run entity location mismatch'')
     else
       bind_result (sameLocation st entity) (\<lambda>same.
       bind_result (mergeTarget demand entity
         (if same then st else appendEntity (zeroEntity (ent_Location entity)) st)) (\<lambda>st.
       bind_result (slice_at (take m (ms_structural st)) index) (\<lambda>symbol.
       Inr (appendStructural symbol st))))))"

fun mergeRows :: "EntityDemand list \<Rightarrow> nat \<Rightarrow> nat \<Rightarrow> int list \<Rightarrow> mergeState \<Rightarrow> mergeState result" where
  "mergeRows demands n m [] st = Inr st"
| "mergeRows demands n m (index # rest) st =
     bind_result (mergeRow demands n m index st) (mergeRows demands n m rest)"

text \<open>The capacity of the full-tier slice, counted ahead of the merge.\<close>

definition fullTierCount :: "EntityDemand list \<Rightarrow> EntityFact list \<Rightarrow> nat result" where
  "fullTierCount demands entities =
     bind_result
       (map_result (\<lambda>index.
          bind_result (slice_at entities index) (\<lambda>entity.
          if ent_Symbol entity \<noteq> []
          then bind_result (slice_at demands index) (\<lambda>demand. Inr (if dem_References demand then 1 else 0))
          else Inr 0)) (slice_range demands))
       (\<lambda>counts. Inr (sum_list counts))"

text \<open>
  The second pass reads the row boundaries from the demands, since the answers have been compacted:
  \<open>entityIndex\<close> starts before the first row and advances at every change of the location.
\<close>

fun descriptorPass ::
    "EntityFact list \<Rightarrow> EntityDemand list \<Rightarrow> int list \<Rightarrow> int \<Rightarrow> SymbolID list \<Rightarrow> SymbolID list result" where
  "descriptorPass entities demands [] entityIndex symbols = Inr symbols"
| "descriptorPass entities demands (index # rest) entityIndex symbols =
     bind_result (slice_at demands index) (\<lambda>demand.
     bind_result
       (if index = 0 then Inr True
        else bind_result (slice_at demands (index - 1)) (\<lambda>previous. Inr (dem_Location demand \<noteq> dem_Location previous)))
       (\<lambda>boundary.
     let entityIndex = (if boundary then entityIndex + 1 else entityIndex)
     in if dem_TypeDescriptor demand then
          bind_result (slice_at entities entityIndex) (\<lambda>entity.
          descriptorPass entities demands rest entityIndex
            (if ent_Symbol entity \<noteq> [] then symbols @ [ent_Symbol entity] else symbols))
        else descriptorPass entities demands rest entityIndex symbols))"

definition prepareRetainedContribution ::
    "string \<Rightarrow> u64 \<Rightarrow> EntityDemand list \<Rightarrow> SemanticDemandRunResult \<Rightarrow> retainedContribution result" where
  "prepareRetainedContribution path hash demands result =
     (let entities = elems (srr_Entities result); structural = srr_Structural result
      in if length entities \<noteq> length demands \<or> length structural \<noteq> length demands
         then Inl (Errorf ''semantic demand run returned misaligned entities or structural symbols'')
         else
           bind_result (fullTierCount demands entities) (\<lambda>_.
           bind_result (validateCanonicalDependencyPaths path (srr_Dependencies result)) (\<lambda>_.
           bind_result (mergeRows demands (length entities) (length structural) (slice_range demands)
             \<lparr>ms_entities = entities, ms_rows = 0, ms_fullTier = [],
              ms_structural = structural, ms_structuralRows = 0\<rparr>) (\<lambda>st.
           bind_result (descriptorPass (contributed st) demands (slice_range demands) (- 1) []) (\<lambda>descriptorSymbols.
           Inr \<lparr>rc_demandHash = hash,
                rc_entities = map_option (\<lambda>_. contributed st) (srr_Entities result),
                rc_fullTier = ms_fullTier st, rc_roots = [], rc_fullTierSymbols = [], rc_descriptors = [],
                rc_structural = take (ms_structuralRows st) (ms_structural st),
                rc_dependencies = srr_Dependencies result,
                rc_descriptorSymbols = compactSortedPaths (sort descriptorSymbols),
                rc_durable = srr_Durable result, rc_seedsPrepared = False\<rparr>)))))"

section \<open>Reverse-index buckets\<close>

definition pathMembershipMapThreshold :: nat where "pathMembershipMapThreshold = 16"

record pathMembership =
  pm_small :: "string list"
  pm_large :: "string list option"

definition emptyMembership :: pathMembership where
  "emptyMembership = \<lparr>pm_small = [], pm_large = None\<rparr>"

definition pm_add :: "string \<Rightarrow> pathMembership \<Rightarrow> pathMembership" where
  "pm_add path m =
     (case pm_large m of
        Some large \<Rightarrow> m\<lparr>pm_large := Some (List.insert path large)\<rparr>
      | None \<Rightarrow>
          if path \<in> set (pm_small m) then m
          else if length (pm_small m) < pathMembershipMapThreshold
          then m\<lparr>pm_small := pm_small m @ [path]\<rparr>
          else \<lparr>pm_small = [],
                pm_large = Some (List.insert path (fold List.insert (pm_small m) []))\<rparr>)"

fun index_of :: "'a \<Rightarrow> 'a list \<Rightarrow> nat option" where
  "index_of x [] = None"
| "index_of x (y # ys) = (if y = x then Some 0 else map_option Suc (index_of x ys))"

definition pm_remove :: "string \<Rightarrow> pathMembership \<Rightarrow> pathMembership" where
  "pm_remove path m =
     (case pm_large m of
        Some large \<Rightarrow> m\<lparr>pm_large := Some (removeAll path large)\<rparr>
      | None \<Rightarrow>
          (case index_of path (pm_small m) of
             None \<Rightarrow> m
           | Some index \<Rightarrow> m\<lparr>pm_small := butlast ((pm_small m)[index := last (pm_small m)])\<rparr>))"

definition pm_paths :: "pathMembership \<Rightarrow> string list" where
  "pm_paths m = (case pm_large m of Some large \<Rightarrow> large | None \<Rightarrow> pm_small m)"

definition pm_len :: "pathMembership \<Rightarrow> nat" where
  "pm_len m = length (pm_paths m)"

section \<open>The store\<close>

record retainedContributionStore =
  rcs_byPath :: "(string \<times> contributionRef) list"
  rcs_dependentsByPath :: "(string \<times> pathMembership) list"
  rcs_descriptorUsers :: "(SymbolID \<times> pathMembership) list"

definition bucket :: "('k \<times> pathMembership) list \<Rightarrow> 'k \<Rightarrow> pathMembership" where
  "bucket index k = (case map_of index k of None \<Rightarrow> emptyMembership | Some m \<Rightarrow> m)"

definition bucketAdd ::
    "string \<Rightarrow> 'k \<Rightarrow> ('k \<times> pathMembership) list \<Rightarrow> ('k \<times> pathMembership) list" where
  "bucketAdd path k index = AList.update k (pm_add path (bucket index k)) index"

definition bucketRemove ::
    "string \<Rightarrow> 'k \<Rightarrow> ('k \<times> pathMembership) list \<Rightarrow> ('k \<times> pathMembership) list" where
  "bucketRemove path k index =
     (let users = pm_remove path (bucket index k) in
      if pm_len users = 0 then AList.delete k index else AList.update k users index)"

definition rcs_get :: "retainedContributionStore \<Rightarrow> string \<Rightarrow> contributionRef option" where
  "rcs_get s path = map_of (rcs_byPath s) path"

definition rcs_remove ::
    "contributionHeap \<Rightarrow> string \<Rightarrow> retainedContributionStore \<Rightarrow> retainedContributionStore" where
  "rcs_remove heap path s =
     (case rcs_get s path of
        None \<Rightarrow> s
      | Some ref \<Rightarrow>
          s\<lparr>rcs_byPath := AList.delete path (rcs_byPath s),
            rcs_dependentsByPath :=
              fold (bucketRemove path) (rc_dependencies (heap ! ref)) (rcs_dependentsByPath s),
            rcs_descriptorUsers :=
              fold (bucketRemove path) (rc_descriptorSymbols (heap ! ref)) (rcs_descriptorUsers s)\<rparr>)"

definition rcs_add ::
    "contributionHeap \<Rightarrow> string \<Rightarrow> contributionRef \<Rightarrow> retainedContributionStore \<Rightarrow> retainedContributionStore" where
  "rcs_add heap path ref s =
     (let s = (if rcs_get s path \<noteq> None then rcs_remove heap path s else s)
      in s\<lparr>rcs_byPath := AList.update path ref (rcs_byPath s),
           rcs_dependentsByPath :=
             fold (bucketAdd path) (rc_dependencies (heap ! ref)) (rcs_dependentsByPath s),
           rcs_descriptorUsers :=
             fold (bucketAdd path) (rc_descriptorSymbols (heap ! ref)) (rcs_descriptorUsers s)\<rparr>)"

text \<open>The set of paths is extended in place; the model returns it.\<close>

definition rcs_invalidate ::
    "contributionHeap \<Rightarrow> string list \<Rightarrow> retainedContributionStore \<Rightarrow>
     retainedContributionStore \<times> string list" where
  "rcs_invalidate heap paths s =
     (let direct = paths;
          paths = fold (\<lambda>path paths. fold List.insert (pm_paths (bucket (rcs_dependentsByPath s) path)) paths)
            direct paths
      in (fold (rcs_remove heap) paths s, paths))"

definition rcs_discard ::
    "contributionHeap \<Rightarrow> string list \<Rightarrow> retainedContributionStore \<Rightarrow> retainedContributionStore" where
  "rcs_discard heap paths s = fold (rcs_remove heap) paths s"

definition rcs_descriptorUsersOf :: "retainedContributionStore \<Rightarrow> SymbolID \<Rightarrow> string list" where
  "rcs_descriptorUsersOf s symbol = pm_paths (bucket (rcs_descriptorUsers s) symbol)"

definition durableRef :: "contributionHeap \<Rightarrow> demandGroup \<Rightarrow> bool" where
  "durableRef heap g = (case dg_contribution g of None \<Rightarrow> False | Some ref \<Rightarrow> rc_durable (heap ! ref))"

definition rcs_commit ::
    "contributionHeap \<Rightarrow> demandGroup list \<Rightarrow> retainedContributionStore \<Rightarrow> retainedContributionStore" where
  "rcs_commit heap groups s =
     (let desired = fold (\<lambda>g desired. if durableRef heap g then List.insert (dg_path g) desired else desired)
            groups [];
          s = fold (\<lambda>path s. if path \<in> set desired then s else rcs_remove heap path s)
            (map fst (rcs_byPath s)) s
      in fold (\<lambda>g s.
           if \<not> durableRef heap g \<or> rcs_get s (dg_path g) = dg_contribution g then s
           else rcs_add heap (dg_path g) (the (dg_contribution g)) s) groups s)"

definition rcs_reset :: "retainedContributionStore \<Rightarrow> retainedContributionStore" where
  "rcs_reset s = \<lparr>rcs_byPath = [], rcs_dependentsByPath = [], rcs_descriptorUsers = []\<rparr>"

section \<open>The interface of a path set\<close>

locale path_set =
  fixes add :: "string \<Rightarrow> 's \<Rightarrow> 's" and remove :: "string \<Rightarrow> 's \<Rightarrow> 's"
    and members :: "'s \<Rightarrow> string list" and ok :: "'s \<Rightarrow> bool" and empty :: 's
  assumes empty_ok: "ok empty" and members_empty: "members empty = []"
    and add_ok: "ok s \<Longrightarrow> ok (add p s)" and remove_ok: "ok s \<Longrightarrow> ok (remove p s)"
    and members_add: "ok s \<Longrightarrow> set (members (add p s)) = insert p (set (members s))"
    and members_remove: "ok s \<Longrightarrow> set (members (remove p s)) = set (members s) - {p}"
begin

lemma remove_absent: "ok s \<Longrightarrow> p \<notin> set (members s) \<Longrightarrow> set (members (remove p s)) = set (members s)"
  using members_remove by auto

lemma remove_add: "ok s \<Longrightarrow> set (members (remove p (add p s))) = set (members s) - {p}"
  using members_remove[OF add_ok] members_add by auto

lemma add_nonempty: "ok s \<Longrightarrow> members (add p s) \<noteq> []"
  using members_add[of s p] by auto

end

definition pm_ok :: "pathMembership \<Rightarrow> bool" where
  "pm_ok m \<longleftrightarrow> distinct (pm_paths m) \<and>
     (case pm_large m of None \<Rightarrow> length (pm_small m) \<le> pathMembershipMapThreshold | Some _ \<Rightarrow> pm_small m = [])"

lemma index_of_None: "index_of x xs = None \<longleftrightarrow> x \<notin> set xs"
  by (induction xs) auto

lemma index_of_Some: "index_of x xs = Some i \<Longrightarrow> i < length xs \<and> xs ! i = x"
  by (induction xs arbitrary: i) (auto split: if_splits)

text \<open>Removal by moving the last element into the hole.\<close>

lemma swap_remove_snoc:
  "i \<le> length xs \<Longrightarrow> mset (butlast ((xs @ [x])[i := x])) = mset (xs @ [x]) - {#(xs @ [x]) ! i#}"
  by (cases "i = length xs")
     (auto simp: list_update_append nth_append mset_update nth_mem_mset multiset_diff_union_assoc)

lemma swap_remove:
  assumes "i < length xs"
  shows "mset (butlast (xs[i := last xs])) = mset xs - {#xs ! i#}"
  using assms swap_remove_snoc[of i "butlast xs" "last xs"] by (cases xs rule: rev_cases) auto

interpretation buckets: path_set pm_add pm_remove pm_paths pm_ok emptyMembership
proof
  show "pm_ok emptyMembership" "pm_paths emptyMembership = []"
    by (simp_all add: pm_ok_def pm_paths_def emptyMembership_def)
  fix m p assume ok: "pm_ok m"
  have inserts: "distinct (fold List.insert xs ys) \<longleftrightarrow> distinct ys" "set (fold List.insert xs ys) = set xs \<union> set ys"
    for xs ys :: "string list" by (induction xs arbitrary: ys) auto
  show "pm_ok (pm_add p m)"
    using ok by (auto simp: pm_ok_def pm_add_def pm_paths_def inserts split: option.splits)
  show "set (pm_paths (pm_add p m)) = insert p (set (pm_paths m))"
    using ok by (auto simp: pm_ok_def pm_add_def pm_paths_def inserts split: option.splits)
  have swap: "distinct (butlast ((pm_small m)[i := last (pm_small m)])) \<and>
      set (butlast ((pm_small m)[i := last (pm_small m)])) = set (pm_small m) - {p}"
    if "index_of p (pm_small m) = Some i" and "pm_large m = None" for i
  proof -
    have d: "distinct (pm_small m)" using ok that by (simp add: pm_ok_def pm_paths_def)
    have i: "i < length (pm_small m)" "pm_small m ! i = p" using index_of_Some[OF that(1)] by auto
    have m: "mset (butlast ((pm_small m)[i := last (pm_small m)])) = mset (remove1 p (pm_small m))"
      using swap_remove[OF i(1)] i(2) by simp
    then have "distinct (butlast ((pm_small m)[i := last (pm_small m)]))"
      using d by (metis distinct_remove1 mset_eq_imp_distinct_iff)
    moreover have "set (butlast ((pm_small m)[i := last (pm_small m)])) = set (remove1 p (pm_small m))"
      using m by (rule mset_eq_setD)
    ultimately show ?thesis using d by simp
  qed
  show "set (pm_paths (pm_remove p m)) = set (pm_paths m) - {p}"
    using ok swap by (auto simp: pm_remove_def pm_paths_def index_of_None split: option.splits)
  show "pm_ok (pm_remove p m)"
    using ok swap by (auto simp: pm_ok_def pm_remove_def pm_paths_def distinct_removeAll split: option.splits)
qed

section \<open>The interface of a reverse index\<close>

text \<open>
  A reverse index tells, for a key, which paths use it. The store adds and removes one path under a list
  of keys at a time.
\<close>

locale reverse_index =
  fixes users :: "'i \<Rightarrow> 'k \<Rightarrow> string set"
    and add_user :: "string \<Rightarrow> 'k \<Rightarrow> 'i \<Rightarrow> 'i" and remove_user :: "string \<Rightarrow> 'k \<Rightarrow> 'i \<Rightarrow> 'i"
    and ok :: "'i \<Rightarrow> bool"
  assumes add_user_ok: "ok i \<Longrightarrow> ok (add_user p k i)"
    and remove_user_ok: "ok i \<Longrightarrow> ok (remove_user p k i)"
    and users_add: "ok i \<Longrightarrow> users (add_user p k i) k' = (if k' = k then insert p (users i k') else users i k')"
    and users_remove: "ok i \<Longrightarrow> users (remove_user p k i) k' = (if k' = k then users i k' - {p} else users i k')"
begin

lemma fold_add_user:
  "ok i \<Longrightarrow> ok (fold (add_user p) ks i) \<and>
     users (fold (add_user p) ks i) k = (if k \<in> set ks then insert p (users i k) else users i k)"
  by (induction ks arbitrary: i) (auto simp: add_user_ok users_add)

lemma fold_remove_user:
  "ok i \<Longrightarrow> ok (fold (remove_user p) ks i) \<and>
     users (fold (remove_user p) ks i) k = (if k \<in> set ks then users i k - {p} else users i k)"
  by (induction ks arbitrary: i) (auto simp: remove_user_ok users_remove)

text \<open>The index agrees with the forward relation from paths to the keys they use.\<close>

definition agrees :: "'i \<Rightarrow> (string \<Rightarrow> 'k list option) \<Rightarrow> bool" where
  "agrees i uses \<longleftrightarrow> ok i \<and> (\<forall>k p. p \<in> users i k \<longleftrightarrow> (\<exists>ks. uses p = Some ks \<and> k \<in> set ks))"

lemma agrees_remove:
  assumes "agrees i uses" and "uses p = Some ks"
  shows "agrees (fold (remove_user p) ks i) (uses(p := None))"
  using assms fold_remove_user[of i p ks] by (auto simp: agrees_def)

lemma agrees_add:
  assumes "agrees i uses" and "uses p = None"
  shows "agrees (fold (add_user p) ks i) (uses(p \<mapsto> ks))"
  using assms fold_add_user[of i p ks] by (auto simp: agrees_def split: if_splits)

end

definition bucketUsers :: "('k \<times> pathMembership) list \<Rightarrow> 'k \<Rightarrow> string set" where
  "bucketUsers index k = set (pm_paths (bucket index k))"

definition index_ok :: "('k \<times> pathMembership) list \<Rightarrow> bool" where
  "index_ok index \<longleftrightarrow> (\<forall>k m. map_of index k = Some m \<longrightarrow> pm_ok m \<and> pm_paths m \<noteq> [])"

lemma bucket_ok: "index_ok index \<Longrightarrow> pm_ok (bucket index k)"
  using buckets.empty_ok by (auto simp: index_ok_def bucket_def split: option.split)

lemma bucket_update: "bucket (AList.update k m index) k' = (if k' = k then m else bucket index k')"
  by (simp add: bucket_def update_conv')

lemma bucket_delete: "bucket (AList.delete k index) k' = (if k' = k then emptyMembership else bucket index k')"
  by (simp add: bucket_def delete_conv')

interpretation reverse: reverse_index bucketUsers bucketAdd bucketRemove index_ok
proof
  fix i :: "('k \<times> pathMembership) list" and p and k k' :: 'k
  assume ok: "index_ok i"
  note b = bucket_ok[OF ok]
  show "index_ok (bucketAdd p k i)"
    using ok buckets.add_ok[OF b] buckets.add_nonempty[OF b]
    by (auto simp: index_ok_def bucketAdd_def update_conv')
  show "index_ok (bucketRemove p k i)"
    using ok buckets.remove_ok[OF b]
    by (auto simp: index_ok_def bucketRemove_def Let_def pm_len_def update_conv' delete_conv')
  show "bucketUsers (bucketAdd p k i) k' = (if k' = k then insert p (bucketUsers i k') else bucketUsers i k')"
    using buckets.members_add[OF b] by (simp add: bucketUsers_def bucketAdd_def bucket_update)
  have removed: "set (pm_paths (pm_remove p (bucket i k))) = set (pm_paths (bucket i k)) - {p}"
    by (rule buckets.members_remove[OF b])
  then have last: "pm_paths (pm_remove p (bucket i k)) = [] \<longrightarrow> set (pm_paths (bucket i k)) \<subseteq> {p}"
    by (metis Diff_eq_empty_iff list.set(1))
  show "bucketUsers (bucketRemove p k i) k' = (if k' = k then bucketUsers i k' - {p} else bucketUsers i k')"
    using last by (cases "k' = k")
       (simp_all add: bucketUsers_def bucketRemove_def Let_def pm_len_def bucket_update bucket_delete
          buckets.members_empty removed)
qed

section \<open>The store keeps its indexes exact\<close>

definition uses_of :: "(retainedContribution \<Rightarrow> string list) \<Rightarrow> contributionHeap \<Rightarrow>
    retainedContributionStore \<Rightarrow> string \<Rightarrow> string list option" where
  "uses_of field heap s p = map_option (\<lambda>ref. field (heap ! ref)) (rcs_get s p)"

lemma rcs_get_fun: "rcs_get s = map_of (rcs_byPath s)"
  by (simp add: rcs_get_def fun_eq_iff)

definition rcs_ok :: "contributionHeap \<Rightarrow> retainedContributionStore \<Rightarrow> bool" where
  "rcs_ok heap s \<longleftrightarrow>
     reverse.agrees (rcs_dependentsByPath s) (uses_of rc_dependencies heap s) \<and>
     reverse.agrees (rcs_descriptorUsers s) (uses_of rc_descriptorSymbols heap s)"

lemma rcs_remove_effect:
  assumes "rcs_ok heap s"
  shows "rcs_ok heap (rcs_remove heap path s)"
    and "rcs_get (rcs_remove heap path s) = (rcs_get s)(path := None)"
proof -
  show get: "rcs_get (rcs_remove heap path s) = (rcs_get s)(path := None)"
    by (cases "rcs_get s path") (auto simp: rcs_remove_def rcs_get_fun delete_conv')
  show "rcs_ok heap (rcs_remove heap path s)"
  proof (cases "rcs_get s path")
    case None
    then show ?thesis using assms by (simp add: rcs_remove_def)
  next
    case (Some ref)
    have upd: "uses_of field heap (rcs_remove heap path s) = (uses_of field heap s)(path := None)" for field
      by (simp add: uses_of_def get fun_eq_iff)
    have old: "uses_of field heap s path = Some (field (heap ! ref))" for field
      using Some by (simp add: uses_of_def)
    show ?thesis
      using assms Some reverse.agrees_remove[of "rcs_dependentsByPath s" "uses_of rc_dependencies heap s" path "rc_dependencies (heap ! ref)"] old[of rc_dependencies]
        reverse.agrees_remove[of "rcs_descriptorUsers s" "uses_of rc_descriptorSymbols heap s" path "rc_descriptorSymbols (heap ! ref)"] old[of rc_descriptorSymbols] upd[of rc_dependencies] upd[of rc_descriptorSymbols]
      by (simp add: rcs_ok_def) (simp add: rcs_remove_def)
  qed
qed

lemma rcs_add_effect:
  assumes "rcs_ok heap s"
  shows "rcs_ok heap (rcs_add heap path ref s)"
    and "rcs_get (rcs_add heap path ref s) = (rcs_get s)(path \<mapsto> ref)"
proof -
  define s1 where "s1 = (if rcs_get s path \<noteq> None then rcs_remove heap path s else s)"
  have ok: "rcs_ok heap s1" and gone: "rcs_get s1 path = None" and get1: "(rcs_get s1)(path \<mapsto> ref) = (rcs_get s)(path \<mapsto> ref)"
    using assms rcs_remove_effect[OF assms] by (auto simp: s1_def)
  have add: "rcs_add heap path ref s = s1\<lparr>rcs_byPath := AList.update path ref (rcs_byPath s1),
      rcs_dependentsByPath := fold (bucketAdd path) (rc_dependencies (heap ! ref)) (rcs_dependentsByPath s1),
      rcs_descriptorUsers := fold (bucketAdd path) (rc_descriptorSymbols (heap ! ref)) (rcs_descriptorUsers s1)\<rparr>"
    by (simp add: rcs_add_def Let_def s1_def)
  show get: "rcs_get (rcs_add heap path ref s) = (rcs_get s)(path \<mapsto> ref)"
    using get1 by (simp add: add rcs_get_fun update_conv')
  have upd: "uses_of field heap (rcs_add heap path ref s) =
      (uses_of field heap s1)(path \<mapsto> field (heap ! ref))" for field
    using get get1 by (auto simp: uses_of_def fun_eq_iff) (metis fun_upd_other)+
  have none: "uses_of field heap s1 path = None" for field
    using gone by (simp add: uses_of_def)
  show "rcs_ok heap (rcs_add heap path ref s)"
    using ok reverse.agrees_add[of "rcs_dependentsByPath s1" "uses_of rc_dependencies heap s1" path "rc_dependencies (heap ! ref)"] none[of rc_dependencies]
      reverse.agrees_add[of "rcs_descriptorUsers s1" "uses_of rc_descriptorSymbols heap s1" path "rc_descriptorSymbols (heap ! ref)"] none[of rc_descriptorSymbols] upd[of rc_dependencies] upd[of rc_descriptorSymbols]
    by (simp add: rcs_ok_def) (simp add: add)
qed

lemma fold_rcs_remove_effect:
  "rcs_ok heap s \<Longrightarrow> rcs_ok heap (fold (rcs_remove heap) paths s) \<and>
     rcs_get (fold (rcs_remove heap) paths s) = rcs_get s |` (- set paths)"
proof (induction paths arbitrary: s)
  case (Cons p paths)
  then show ?case
    using rcs_remove_effect[OF Cons.prems, of p] by (auto simp: restrict_map_def fun_eq_iff)
qed (simp add: restrict_map_def)

lemma fold_insert_set: "set (fold List.insert xs ys) = set xs \<union> set ys"
  by (induction xs arbitrary: ys) auto

lemma invalidated_paths:
  "set (fold (\<lambda>path paths. fold List.insert (f path) paths) direct paths) =
     set paths \<union> (\<Union>path \<in> set direct. set (f path))"
  by (induction direct arbitrary: paths) (auto simp: fold_insert_set)

lemma rcs_invalidate_effect:
  assumes "rcs_ok heap s" and "rcs_invalidate heap paths s = (s', paths')"
  shows "rcs_ok heap s' \<and> rcs_get s' = rcs_get s |` (- set paths') \<and>
    set paths' = set paths \<union> {p. \<exists>ref d. rcs_get s p = Some ref \<and> d \<in> set paths \<and>
      d \<in> set (rc_dependencies (heap ! ref))}"
proof -
  have users: "p \<in> set (pm_paths (bucket (rcs_dependentsByPath s) d)) \<longleftrightarrow>
      (\<exists>ref. rcs_get s p = Some ref \<and> d \<in> set (rc_dependencies (heap ! ref)))" for p d
    using assms(1) by (auto simp: rcs_ok_def reverse.agrees_def bucketUsers_def uses_of_def)
  have paths': "paths' = fold (\<lambda>path paths. fold List.insert (pm_paths (bucket (rcs_dependentsByPath s) path)) paths)
      paths paths" and s': "s' = fold (rcs_remove heap) paths' s"
    using assms(2) by (auto simp: rcs_invalidate_def Let_def)
  have "set paths' = set paths \<union> (\<Union>d \<in> set paths. set (pm_paths (bucket (rcs_dependentsByPath s) d)))"
    unfolding paths' by (rule invalidated_paths)
  then have "set paths' = set paths \<union> {p. \<exists>ref d. rcs_get s p = Some ref \<and> d \<in> set paths \<and>
      d \<in> set (rc_dependencies (heap ! ref))}"
    using users by blast
  then show ?thesis using fold_rcs_remove_effect[OF assms(1), of paths'] s' by simp
qed

lemma desired_paths:
  "set (fold (\<lambda>g desired. if durableRef heap g then List.insert (dg_path g) desired else desired) groups acc) =
     set acc \<union> dg_path ` {g \<in> set groups. durableRef heap g}"
  by (induction groups arbitrary: acc) auto

lemma commit_removals:
  "rcs_ok heap s \<Longrightarrow>
   rcs_ok heap (fold (\<lambda>path s. if path \<in> D then s else rcs_remove heap path s) paths s) \<and>
   rcs_get (fold (\<lambda>path s. if path \<in> D then s else rcs_remove heap path s) paths s) =
     rcs_get s |` (- (set paths - D))"
proof (induction paths arbitrary: s)
  case (Cons p paths)
  show ?case
  proof (cases "p \<in> D")
    case True
    then have "insert p (set paths) - D = set paths - D" by auto
    then show ?thesis using Cons True by simp
  next
    case False
    have "rcs_get (rcs_remove heap p s) |` (- (set paths - D)) = rcs_get s |` (- (insert p (set paths) - D))"
      using rcs_remove_effect(2)[OF Cons.prems, of p] False by (auto simp: restrict_map_def fun_eq_iff)
    then show ?thesis using Cons.IH[OF rcs_remove_effect(1)[OF Cons.prems]] False by simp
  qed
qed (simp add: restrict_map_def)

lemma commit_additions:
  "rcs_ok heap s \<Longrightarrow> distinct (map dg_path groups) \<Longrightarrow>
   let s' = fold (\<lambda>g s. if \<not> durableRef heap g \<or> rcs_get s (dg_path g) = dg_contribution g then s
           else rcs_add heap (dg_path g) (the (dg_contribution g)) s) groups s
   in rcs_ok heap s' \<and> (\<forall>p. rcs_get s' p =
     (case map_by dg_path (filter (durableRef heap) groups) p of
        None \<Rightarrow> rcs_get s p | Some g \<Rightarrow> dg_contribution g))"
proof (induction groups arbitrary: s)
  case (Cons g groups)
  define s1 where "s1 = (if \<not> durableRef heap g \<or> rcs_get s (dg_path g) = dg_contribution g then s
           else rcs_add heap (dg_path g) (the (dg_contribution g)) s)"
  have ok: "rcs_ok heap s1" using rcs_add_effect(1)[OF Cons.prems(1)] Cons.prems(1) by (simp add: s1_def)
  have get: "rcs_get s1 p = (if durableRef heap g \<and> p = dg_path g then dg_contribution g else rcs_get s p)" for p
    using rcs_add_effect(2)[OF Cons.prems(1), of "dg_path g" "the (dg_contribution g)"]
    by (cases "dg_contribution g") (auto simp: s1_def durableRef_def)
  have fresh: "map_by dg_path (filter (durableRef heap) groups) (dg_path g) = None"
    using Cons.prems(2) by (auto simp: map_by_eq_None_iff image_iff)
  have rec: "fold (\<lambda>g s. if \<not> durableRef heap g \<or> rcs_get s (dg_path g) = dg_contribution g then s
           else rcs_add heap (dg_path g) (the (dg_contribution g)) s) (g # groups) s =
     fold (\<lambda>g s. if \<not> durableRef heap g \<or> rcs_get s (dg_path g) = dg_contribution g then s
           else rcs_add heap (dg_path g) (the (dg_contribution g)) s) groups s1"
    by (simp add: s1_def)
  show ?case
    using Cons.IH[OF ok] Cons.prems(2) get fresh unfolding rec Let_def by (auto split: option.split)
qed simp

lemma rcs_commit_effect:
  assumes "rcs_ok heap s" and "distinct (map dg_path groups)"
  shows "rcs_ok heap (rcs_commit heap groups s)"
    and "rcs_get (rcs_commit heap groups s) p =
      Option.bind (map_by dg_path (filter (durableRef heap) groups) p) dg_contribution"
proof -
  let ?D = "dg_path ` {g \<in> set groups. durableRef heap g}"
  define s1 where "s1 = fold (\<lambda>path s. if path \<in> ?D then s else rcs_remove heap path s) (map fst (rcs_byPath s)) s"
  have ok: "rcs_ok heap s1" and get: "rcs_get s1 = rcs_get s |` (- (set (map fst (rcs_byPath s)) - ?D))"
    using commit_removals[OF assms(1), of ?D "map fst (rcs_byPath s)"] by (simp_all add: s1_def)
  have gone: "rcs_get s1 p = None" if "p \<notin> ?D" for p
    using that map_of_eq_None_iff[of "rcs_byPath s" p] unfolding get
    by (auto simp: restrict_map_def rcs_get_fun)
  have run: "rcs_commit heap groups s =
    fold (\<lambda>g s. if \<not> durableRef heap g \<or> rcs_get s (dg_path g) = dg_contribution g then s
           else rcs_add heap (dg_path g) (the (dg_contribution g)) s) groups s1"
    by (simp add: rcs_commit_def desired_paths s1_def)
  show "rcs_ok heap (rcs_commit heap groups s)"
    using commit_additions[OF ok assms(2)] by (simp add: run Let_def)
  have "rcs_get (rcs_commit heap groups s) p =
     (case map_by dg_path (filter (durableRef heap) groups) p of
        None \<Rightarrow> rcs_get s1 p | Some g \<Rightarrow> dg_contribution g)"
    using commit_additions[OF ok assms(2)] by (simp add: run Let_def)
  moreover have "map_by dg_path (filter (durableRef heap) groups) p = None \<longleftrightarrow> p \<notin> ?D"
    by (auto simp: map_by_eq_None_iff)
  ultimately show "rcs_get (rcs_commit heap groups s) p =
      Option.bind (map_by dg_path (filter (durableRef heap) groups) p) dg_contribution"
    using gone[of p] by (auto split: option.split)
qed

section \<open>What the merge computes\<close>

text \<open>
  The merge of the answers at one location, field by field and without reference to the loop: the latest
  answer that has the field, and an unresolved symbol only when no answer has a symbol.
\<close>

definition latestPresent :: "('a \<Rightarrow> bool) \<Rightarrow> 'a \<Rightarrow> 'a list \<Rightarrow> 'a" where
  "latestPresent present absent xs = last (absent # filter present xs)"

definition answeredRow :: "Location \<Rightarrow> EntityFact list \<Rightarrow> EntityFact" where
  "answeredRow l answers =
     \<lparr>ent_Location = l,
      ent_Symbol = latestPresent (\<lambda>x. x \<noteq> []) [] (map ent_Symbol answers),
      ent_SymbolUnresolved = (list_all (\<lambda>e. ent_Symbol e = []) answers \<and> list_ex ent_SymbolUnresolved answers),
      ent_TypeDescriptor = latestPresent (\<lambda>x. x \<noteq> None) None (map ent_TypeDescriptor answers),
      ent_ResolvedCall = latestPresent (\<lambda>x. x \<noteq> None) None (map ent_ResolvedCall answers),
      ent_Callability = latestPresent (\<lambda>x. x \<noteq> []) [] (map ent_Callability answers),
      ent_RuntimeValueDomain = latestPresent (\<lambda>x. x \<noteq> None) None (map ent_RuntimeValueDomain answers),
      ent_PrimitiveValueDomain = latestPresent pvd_IsPresent \<lparr>pvd_bits = 0\<rparr> (map ent_PrimitiveValueDomain answers),
      ent_PrimitiveLiteralCandidates = latestPresent (\<lambda>x. x \<noteq> []) [] (map ent_PrimitiveLiteralCandidates answers),
      ent_Constructability = latestPresent Constructability_IsPresent ConstructabilityAbsent (map ent_Constructability answers),
      ent_CallResultDomain = latestPresent (\<lambda>x. x \<noteq> None) None (map ent_CallResultDomain answers),
      ent_ConstantValue = latestPresent (\<lambda>x. x \<noteq> None) None (map ent_ConstantValue answers),
      ent_ArrayShape = latestPresent (\<lambda>x. x \<noteq> []) [] (map ent_ArrayShape answers),
      ent_TupleShape = latestPresent (\<lambda>x. x \<noteq> None) None (map ent_TupleShape answers),
      ent_LibraryTypes = latestPresent (\<lambda>x. x \<noteq> None) None (map ent_LibraryTypes answers),
      ent_ReferenceSpace = latestPresent (\<lambda>x. x \<noteq> []) [] (map ent_ReferenceSpace answers),
      ent_RuntimeIdentity = latestPresent (\<lambda>x. x \<noteq> []) [] (map ent_RuntimeIdentity answers)\<rparr>"

text \<open>Adjacent demands at one location share a row: the row of a demand, and the answers of a row.\<close>

definition rowIndex :: "EntityDemand list \<Rightarrow> nat \<Rightarrow> nat" where
  "rowIndex demands i = length (remdups_adj (take (Suc i) (map dem_Location demands))) - 1"

definition rowAnswers :: "EntityDemand list \<Rightarrow> EntityFact list \<Rightarrow> nat \<Rightarrow> nat \<Rightarrow> EntityFact list" where
  "rowAnswers demands answers k j = map ((!) answers) (filter (\<lambda>i. rowIndex demands i = j) [0..<k])"

lemma answeredRow_Nil: "answeredRow l [] = zeroEntity l"
  by (simp add: answeredRow_def zeroEntity_def latestPresent_def)

lemma latestPresent_snoc:
  "latestPresent present absent (xs @ [x]) = (if present x then x else latestPresent present absent xs)"
  by (simp add: latestPresent_def)

lemma latestPresent_Nil: "latestPresent present absent [] = absent"
  by (simp add: latestPresent_def)

lemma latestPresent_string: "latestPresent (\<lambda>x. x \<noteq> []) [] xs = [] \<longleftrightarrow> list_all (\<lambda>x. x = []) xs"
  by (induction xs rule: rev_induct) (simp_all add: latestPresent_snoc latestPresent_Nil)

lemma mergeEntity_answeredRow: "mergeEntity (answeredRow l answers) e = answeredRow l (answers @ [e])"
  using latestPresent_string[of "map ent_Symbol answers"]
  by (auto simp: mergeEntity_def answeredRow_def latestPresent_snoc over_def over_list_def list_all_iff
      split: option.splits)

lemma answeredRow_location [simp]: "ent_Location (answeredRow l answers) = l"
  by (simp add: answeredRow_def)

section \<open>Row boundaries\<close>

lemma slice_at_nth: "i < length xs \<Longrightarrow> slice_at xs (int i) = Inr (xs ! i)"
  by (simp add: slice_at_def)

lemma remdups_adj_take_Suc:
  assumes "k < length xs"
  shows "remdups_adj (take (Suc k) xs) =
    remdups_adj (take k xs) @ (if 0 < k \<and> xs ! k = xs ! (k - 1) then [] else [xs ! k])"
proof (cases k)
  case 0
  then show ?thesis using assms by (cases xs) auto
next
  case (Suc i)
  then have "take (Suc k) xs = take i xs @ [xs ! i, xs ! k]" "take k xs = take i xs @ [xs ! i]"
    using assms by (simp_all add: take_Suc_conv_app_nth)
  then show ?thesis using Suc by (simp add: remdups_adj_append_two)
qed

lemma remdups_adj_map_inj_on: "inj_on f (set xs) \<Longrightarrow> remdups_adj (map f xs) = map f (remdups_adj xs)"
  by (induction xs rule: remdups_adj.induct) (auto simp: inj_on_def)

lemma length_remdups_adj_mono: "length (remdups_adj xs) \<le> length (remdups_adj (xs @ ys))"
  by (cases "xs = []") (simp_all add: remdups_adj_append'')

lemma rowIndex_less:
  assumes "i < k" "k \<le> length demands"
  shows "rowIndex demands i < length (remdups_adj (take k (map dem_Location demands)))"
proof -
  let ?locs = "map dem_Location demands"
  have "take k ?locs = take (Suc i) ?locs @ drop (Suc i) (take k ?locs)"
    using assms(1) by (metis append_take_drop_id min.absorb1 Suc_leI take_take)
  then have "length (remdups_adj (take (Suc i) ?locs)) \<le> length (remdups_adj (take k ?locs))"
    using length_remdups_adj_mono by metis
  moreover have "take (Suc i) ?locs \<noteq> []" using assms by auto
  then have "0 < length (remdups_adj (take (Suc i) ?locs))" by (metis length_greater_0_conv remdups_adj_Nil_iff)
  ultimately show ?thesis unfolding rowIndex_def by linarith
qed

lemma rowIndex_location:
  assumes "i < length demands"
  shows "remdups_adj (map dem_Location demands) ! rowIndex demands i = dem_Location (demands ! i)"
proof -
  let ?locs = "map dem_Location demands" and ?rows = "remdups_adj (take (Suc i) (map dem_Location demands))"
  have ne: "?rows \<noteq> []" using assms by auto
  have "remdups_adj ?locs = remdups_adj (take (Suc i) ?locs @ drop (Suc i) ?locs)" by simp
  also have "\<dots> = ?rows @ remdups_adj (dropWhile (\<lambda>y. y = last (take (Suc i) ?locs)) (drop (Suc i) ?locs))"
    using assms by (intro remdups_adj_append'') auto
  finally have "remdups_adj ?locs ! rowIndex demands i = ?rows ! (length ?rows - 1)"
    using ne by (simp add: rowIndex_def nth_append)
  also have "\<dots> = last ?rows" using ne by (rule last_conv_nth[symmetric])
  also have "\<dots> = last (take (Suc i) ?locs)" by (rule last_remdups_adj)
  also have "\<dots> = dem_Location (demands ! i)" using assms by (simp add: take_Suc_conv_app_nth)
  finally show ?thesis .
qed

lemma rowAnswers_Suc:
  "rowAnswers demands answers (Suc k) j = rowAnswers demands answers k j @ (if rowIndex demands k = j then [answers ! k] else [])"
  by (simp add: rowAnswers_def)

lemma rowAnswers_new:
  assumes "k \<le> length demands" "length (remdups_adj (take k (map dem_Location demands))) \<le> j"
  shows "rowAnswers demands answers k j = []"
  using rowIndex_less[of _ k demands] assms by (force simp: rowAnswers_def filter_empty_conv)

section \<open>The loop in place\<close>

text \<open>
  Before iteration \<open>k\<close> the array holds the merged rows in front and the unread answers from \<open>k\<close> on. The
  write cursor never overtakes the read cursor, so an answer is read before its slot is overwritten.
\<close>

definition merging :: "EntityDemand list \<Rightarrow> EntityFact list \<Rightarrow> SymbolID list \<Rightarrow> nat \<Rightarrow> mergeState \<Rightarrow> bool" where
  "merging demands answers symbols k st \<longleftrightarrow>
     length (ms_entities st) = length answers \<and> drop k (ms_entities st) = drop k answers \<and>
     ms_rows st = length (remdups_adj (take k (map dem_Location demands))) \<and>
     contributed st = map (\<lambda>j. answeredRow (remdups_adj (take k (map dem_Location demands)) ! j)
       (rowAnswers demands answers k j)) [0..<ms_rows st] \<and>
     ms_fullTier st = map (\<lambda>i. of_nat (rowIndex demands i))
       (filter (\<lambda>i. ent_Symbol (answers ! i) \<noteq> [] \<and> dem_References (demands ! i)) [0..<k]) \<and>
     length (ms_structural st) = length symbols \<and> drop k (ms_structural st) = drop k symbols \<and>
     ms_structuralRows st = length (filter (\<lambda>s. s \<noteq> []) (take k symbols)) \<and>
     take (ms_structuralRows st) (ms_structural st) = filter (\<lambda>s. s \<noteq> []) (take k symbols)"

lemma mergingD:
  assumes "merging demands answers symbols k st"
  shows "ms_structuralRows st = length (filter (\<lambda>s. s \<noteq> []) (take k symbols))"
    and "take (ms_structuralRows st) (ms_structural st) = filter (\<lambda>s. s \<noteq> []) (take k symbols)"
    and "contributed st = map (\<lambda>j. answeredRow (remdups_adj (take k (map dem_Location demands)) ! j)
       (rowAnswers demands answers k j)) [0..<length (remdups_adj (take k (map dem_Location demands)))]"
    and "ms_fullTier st = map (\<lambda>i. of_nat (rowIndex demands i))
       (filter (\<lambda>i. ent_Symbol (answers ! i) \<noteq> [] \<and> dem_References (demands ! i)) [0..<k])"
proof -
  note m = assms[unfolded merging_def]
  show "ms_structuralRows st = length (filter (\<lambda>s. s \<noteq> []) (take k symbols))"
    "take (ms_structuralRows st) (ms_structural st) = filter (\<lambda>s. s \<noteq> []) (take k symbols)"
    "ms_fullTier st = map (\<lambda>i. of_nat (rowIndex demands i))
       (filter (\<lambda>i. ent_Symbol (answers ! i) \<noteq> [] \<and> dem_References (demands ! i)) [0..<k])"
    using m by blast+
  have "ms_rows st = length (remdups_adj (take k (map dem_Location demands)))" using m by blast
  then show "contributed st = map (\<lambda>j. answeredRow (remdups_adj (take k (map dem_Location demands)) ! j)
       (rowAnswers demands answers k j)) [0..<length (remdups_adj (take k (map dem_Location demands)))]"
    using m by simp
qed

lemma nth_drop_eq: "drop k xs = drop k ys \<Longrightarrow> k < length xs \<Longrightarrow> length xs = length ys \<Longrightarrow> xs ! k = ys ! k"
  by (metis Cons_nth_drop_Suc list.inject)

lemma append_in_place_facts:
  assumes "len \<le> k" "k < length xs"
  shows "length (append_in_place xs len x) = length xs" "take (Suc len) (append_in_place xs len x) = take len xs @ [x]"
    "drop (Suc k) (append_in_place xs len x) = drop (Suc k) xs"
  using assms by (auto simp: append_in_place_def min_def Suc_diff_le)

lemma drop_Suc_eq: "drop k xs = drop k ys \<Longrightarrow> drop (Suc k) xs = drop (Suc k) ys"
  by (metis drop_drop plus_1_eq_Suc)

lemma rows_bound: "length (remdups_adj (take k xs)) \<le> k"
  by (rule order_trans[OF remdups_adj_length]) simp

lemma merging_structural:
  assumes "merging demands answers symbols k st" "k < length symbols"
  defines "st' \<equiv> appendStructural (symbols ! k) st"
  shows "length (ms_structural st') = length symbols \<and> drop (Suc k) (ms_structural st') = drop (Suc k) symbols \<and>
    ms_structuralRows st' = length (filter (\<lambda>s. s \<noteq> []) (take (Suc k) symbols)) \<and>
    take (ms_structuralRows st') (ms_structural st') = filter (\<lambda>s. s \<noteq> []) (take (Suc k) symbols)"
proof -
  note m = assms(1)[unfolded merging_def]
  have "length (filter (\<lambda>s. s \<noteq> []) (take k symbols)) \<le> k"
    by (rule order_trans[OF length_filter_le]) simp
  then have le: "ms_structuralRows st \<le> k" "k < length (ms_structural st)" using m assms(2) by simp_all
  have kept: "length (ms_structural st) = length symbols" "drop k (ms_structural st) = drop k symbols"
    using m by blast+
  note kept = this mergingD(1,2)[OF assms(1)]
  have more: "filter (\<lambda>s. s \<noteq> []) (take (Suc k) symbols) =
      filter (\<lambda>s. s \<noteq> []) (take k symbols) @ (if symbols ! k \<noteq> [] then [symbols ! k] else [])"
    using assms(2) by (simp add: take_Suc_conv_app_nth)
  show ?thesis
  proof (cases "symbols ! k = []")
    case True
    then show ?thesis using kept drop_Suc_eq[OF kept(2)] by (simp add: st'_def appendStructural_def more)
  next
    case False
    then show ?thesis
      using kept(1,3,4) append_in_place_facts[OF le] drop_Suc_eq[OF kept(2)]
      by (simp add: st'_def appendStructural_def more)
  qed
qed

text \<open>The row a demand extends, or starts.\<close>

lemma merging_row:
  assumes "merging demands answers symbols k st" "k < length demands" "length answers = length demands"
    and "ent_Location (answers ! k) = dem_Location (demands ! k)"
  defines "same \<equiv> 0 < k \<and> dem_Location (demands ! k) = dem_Location (demands ! (k - 1))"
  shows "sameLocation st (answers ! k) = Inr same"
    and "\<exists>st'. mergeTarget (demands ! k) (answers ! k)
        (if same then st else appendEntity (zeroEntity (ent_Location (answers ! k))) st) = Inr st' \<and>
      length (ms_entities st') = length answers \<and> drop (Suc k) (ms_entities st') = drop (Suc k) answers \<and>
      ms_rows st' = length (remdups_adj (take (Suc k) (map dem_Location demands))) \<and>
      contributed st' = map (\<lambda>j. answeredRow (remdups_adj (take (Suc k) (map dem_Location demands)) ! j)
        (rowAnswers demands answers (Suc k) j)) [0..<ms_rows st'] \<and>
      ms_fullTier st' = map (\<lambda>i. of_nat (rowIndex demands i))
        (filter (\<lambda>i. ent_Symbol (answers ! i) \<noteq> [] \<and> dem_References (demands ! i)) [0..<Suc k]) \<and>
      ms_structural st' = ms_structural st \<and> ms_structuralRows st' = ms_structuralRows st"
proof -
  let ?locs = "map dem_Location demands" and ?e = "answers ! k" and ?l = "dem_Location (demands ! k)"
  let ?rows = "remdups_adj (take k ?locs)"
  note m = assms(1)[unfolded merging_def]
  define r where "r = ms_rows st"
  have r: "r = length ?rows" "r \<le> k" "k < length (ms_entities st)" using m assms(2,3) rows_bound by (simp_all add: r_def)
  have contrib: "contributed st = map (\<lambda>j. answeredRow (?rows ! j) (rowAnswers demands answers k j)) [0..<r]"
    using m by (simp add: r_def)
  have empty: "r = 0 \<longleftrightarrow> k = 0" using r(1) assms(2) by auto
  have last_loc: "?rows ! (r - 1) = ?locs ! (k - 1)" if "0 < k"
  proof -
    have "?rows \<noteq> []" using r(1) empty that by auto
    then have "?rows ! (r - 1) = last ?rows" unfolding r(1) by (rule last_conv_nth[symmetric])
    also have "\<dots> = last (take k ?locs)" by (rule last_remdups_adj)
    finally have "?rows ! (r - 1) = last (take k ?locs)" .
    also have "\<dots> = ?locs ! (k - 1)" using that assms(2) by (cases k) (simp_all add: take_Suc_conv_app_nth)
    finally show ?thesis .
  qed
  show "sameLocation st ?e = Inr same"
  proof (cases "0 < k")
    case True
    then have "0 < r" using empty by simp
    then have "slice_at (contributed st) (int r - 1) =
        Inr (answeredRow (?rows ! (r - 1)) (rowAnswers demands answers k (r - 1)))"
      unfolding contrib by (simp add: slice_at_def nat_diff_distrib)
    then show ?thesis
      using True \<open>0 < r\<close> last_loc assms(2,4) by (auto simp: sameLocation_def Let_def same_def simp flip: r_def)
  next
    case False
    then show ?thesis using empty by (simp add: sameLocation_def Let_def same_def flip: r_def)
  qed
  have onward: "remdups_adj (take (Suc k) ?locs) = ?rows @ (if same then [] else [?l])"
    using remdups_adj_take_Suc[of k ?locs] assms(2) by (cases k) (auto simp: same_def)
  define st0 where "st0 = (if same then st else appendEntity (zeroEntity (ent_Location ?e)) st)"
  define t where "t = (if same then r - 1 else r)"
  have t: "rowIndex demands k = t" "t \<le> k" using onward r by (auto simp: rowIndex_def t_def)
  have rows0: "ms_rows st0 = Suc t"
    using empty by (auto simp: st0_def appendEntity_def t_def same_def r_def)
  have old0: "length (ms_entities st0) = length answers" "drop (Suc k) (ms_entities st0) = drop (Suc k) answers"
    "contributed st0 = (if same then contributed st else contributed st @ [zeroEntity ?l])"
    using m append_in_place_facts[OF r(2,3)] drop_Suc_eq[of k "ms_entities st" answers] assms(4)
    by (auto simp: st0_def appendEntity_def contributed_def r_def)
  have row0: "contributed st0 ! t = answeredRow ?l (rowAnswers demands answers k t)" "length (contributed st0) = Suc t"
  proof -
    show "length (contributed st0) = Suc t" using old0(3) contrib empty by (auto simp: t_def same_def)
    show "contributed st0 ! t = answeredRow ?l (rowAnswers demands answers k t)"
    proof (cases same)
      case True
      then have "0 < r" "?rows ! (r - 1) = ?l" using empty last_loc assms(2) by (auto simp: same_def)
      then show ?thesis using True old0(3) contrib by (simp add: t_def)
    next
      case False
      have "rowAnswers demands answers k r = []" using rowAnswers_new[of k demands r] r(1) assms(2) by simp
      then show ?thesis using False old0(3) contrib by (simp add: t_def nth_append answeredRow_Nil)
    qed
  qed
  let ?st = "st0\<lparr>ms_entities := (ms_entities st0)[t := mergeEntity (contributed st0 ! t) ?e],
      ms_fullTier := (if ent_Symbol ?e \<noteq> [] \<and> dem_References (demands ! k)
        then ms_fullTier st0 @ [of_int (int (ms_rows st0) - 1)] else ms_fullTier st0)\<rparr>"
  have "mergeTarget (demands ! k) ?e st0 = Inr ?st"
    using row0(2) by (simp add: mergeTarget_def slice_at_def rows0 Let_def)
  moreover have "contributed ?st = (contributed st0)[t := answeredRow ?l (rowAnswers demands answers (Suc k) t)]"
    by (simp add: contributed_def take_update_swap row0(1)[unfolded contributed_def] mergeEntity_answeredRow rowAnswers_Suc t(1))
  moreover have "(contributed st0)[t := answeredRow ?l (rowAnswers demands answers (Suc k) t)] =
      map (\<lambda>j. answeredRow (remdups_adj (take (Suc k) ?locs) ! j) (rowAnswers demands answers (Suc k) j)) [0..<Suc t]"
  proof (rule nth_equalityI)
    fix j assume "j < length ((contributed st0)[t := answeredRow ?l (rowAnswers demands answers (Suc k) t)])"
    then have j: "j < Suc t" using row0(2) by simp
    show "(contributed st0)[t := answeredRow ?l (rowAnswers demands answers (Suc k) t)] ! j =
        map (\<lambda>j. answeredRow (remdups_adj (take (Suc k) ?locs) ! j) (rowAnswers demands answers (Suc k) j)) [0..<Suc t] ! j"
    proof (cases "j = t")
      case True
      have "remdups_adj (take (Suc k) ?locs) ! t = ?l"
        using onward r(1) empty last_loc assms(2) by (auto simp: t_def nth_append same_def)
      then show ?thesis using True row0(2) by (simp add: nth_append)
    next
      case False
      then have "j < r" using j by (auto simp: t_def split: if_splits)
      moreover have "contributed st0 ! j = contributed st ! j"
        using old0(3) contrib \<open>j < r\<close> by (simp add: nth_append)
      ultimately show ?thesis
        using False j onward r(1) t(1) by (simp add: contrib nth_append rowAnswers_Suc)
    qed
  qed (use row0(2) in simp)
  moreover have "ms_fullTier st0 = ms_fullTier st" "ms_structural st0 = ms_structural st"
    "ms_structuralRows st0 = ms_structuralRows st"
    by (simp_all add: st0_def appendEntity_def)
  moreover have "length (remdups_adj (take (Suc k) ?locs)) = Suc t"
    using onward r(1) empty by (auto simp: t_def same_def)
  ultimately show "\<exists>st'. mergeTarget (demands ! k) ?e (if same then st else appendEntity (zeroEntity (ent_Location ?e)) st) = Inr st' \<and>
      length (ms_entities st') = length answers \<and> drop (Suc k) (ms_entities st') = drop (Suc k) answers \<and>
      ms_rows st' = length (remdups_adj (take (Suc k) ?locs)) \<and>
      contributed st' = map (\<lambda>j. answeredRow (remdups_adj (take (Suc k) ?locs) ! j)
        (rowAnswers demands answers (Suc k) j)) [0..<ms_rows st'] \<and>
      ms_fullTier st' = map (\<lambda>i. of_nat (rowIndex demands i))
        (filter (\<lambda>i. ent_Symbol (answers ! i) \<noteq> [] \<and> dem_References (demands ! i)) [0..<Suc k]) \<and>
      ms_structural st' = ms_structural st \<and> ms_structuralRows st' = ms_structuralRows st"
    using m old0(1,2) rows0 t by (intro exI[of _ ?st]) (simp add: st0_def)
qed

lemma mergeRow_step:
  assumes "merging demands answers symbols k st" "k < length demands"
    and "length answers = length demands" "length symbols = length demands"
  shows "if ent_Location (answers ! k) = dem_Location (demands ! k)
    then \<exists>st'. mergeRow demands (length answers) (length symbols) (int k) st = Inr st' \<and> merging demands answers symbols (Suc k) st'
    else \<exists>m. mergeRow demands (length answers) (length symbols) (int k) st = Inl (Errorf m)"
proof -
  note m = assms(1)[unfolded merging_def]
  have reads: "slice_at demands (int k) = Inr (demands ! k)"
    "slice_at (take (length answers) (ms_entities st)) (int k) = Inr (answers ! k)"
    "slice_at (take (length symbols) (ms_structural st)) (int k) = Inr (symbols ! k)"
    using m assms(2,3,4) nth_drop_eq[of k "ms_entities st" answers] nth_drop_eq[of k "ms_structural st" symbols]
    by (simp_all add: slice_at_nth)
  show ?thesis
  proof (cases "ent_Location (answers ! k) = dem_Location (demands ! k)")
    case False
    then show ?thesis by (auto simp: mergeRow_def reads)
  next
    case True
    note row = merging_row[OF assms(1,2,3) True]
    then obtain st' where st': "mergeTarget (demands ! k) (answers ! k)
        (if 0 < k \<and> dem_Location (demands ! k) = dem_Location (demands ! (k - 1)) then st
         else appendEntity (zeroEntity (ent_Location (answers ! k))) st) = Inr st'"
      "length (ms_entities st') = length answers" "drop (Suc k) (ms_entities st') = drop (Suc k) answers"
      "ms_rows st' = length (remdups_adj (take (Suc k) (map dem_Location demands)))"
      "contributed st' = map (\<lambda>j. answeredRow (remdups_adj (take (Suc k) (map dem_Location demands)) ! j)
        (rowAnswers demands answers (Suc k) j)) [0..<ms_rows st']"
      "ms_fullTier st' = map (\<lambda>i. of_nat (rowIndex demands i))
        (filter (\<lambda>i. ent_Symbol (answers ! i) \<noteq> [] \<and> dem_References (demands ! i)) [0..<Suc k])"
      "ms_structural st' = ms_structural st" "ms_structuralRows st' = ms_structuralRows st"
      by (elim exE conjE) (rule that)
    have "mergeRow demands (length answers) (length symbols) (int k) st = Inr (appendStructural (symbols ! k) st')"
      unfolding mergeRow_def reads bind_result_simps row(1) using True st'(1) reads(3) st'(7)
      by (simp del: slice_at_def)
    moreover have "k < length symbols" using assms(2,4) by simp
    from merging_structural[OF assms(1) this] have "merging demands answers symbols (Suc k) (appendStructural (symbols ! k) st')"
      using st'(2-) unfolding merging_def by (auto simp: appendStructural_def contributed_def)
    ultimately show ?thesis using True by auto
  qed
qed

lemma mergeRows_from:
  assumes "merging demands answers symbols k st" "k \<le> length demands"
    and "length answers = length demands" "length symbols = length demands"
  shows "if \<forall>i \<in> {k..<length demands}. ent_Location (answers ! i) = dem_Location (demands ! i)
    then \<exists>st'. mergeRows demands (length answers) (length symbols) (map int [k..<length demands]) st = Inr st' \<and>
      merging demands answers symbols (length demands) st'
    else \<exists>m. mergeRows demands (length answers) (length symbols) (map int [k..<length demands]) st = Inl (Errorf m)"
  using assms(1,2)
proof (induction "length demands - k" arbitrary: k st)
  case 0
  then show ?case by simp
next
  case (Suc n)
  then have k: "k < length demands" by simp
  have range: "[k..<length demands] = k # [Suc k..<length demands]" using k by (rule upt_conv_Cons)
  have split: "{k..<length demands} = insert k {Suc k..<length demands}" using k by auto
  note step = mergeRow_step[OF Suc.prems(1) k assms(3,4)]
  show ?case
  proof (cases "ent_Location (answers ! k) = dem_Location (demands ! k)")
    case False
    then show ?thesis using step unfolding range split by auto
  next
    case True
    then obtain st' where st': "mergeRow demands (length answers) (length symbols) (int k) st = Inr st'"
      "merging demands answers symbols (Suc k) st'"
      using step by auto
    have "n = length demands - Suc k" using Suc.hyps(2) by simp
    from Suc.hyps(1)[OF this st'(2)] show ?thesis using True st'(1) k unfolding range split by simp
  qed
qed

text \<open>The descriptor pass reads the row of every demand that asks for a descriptor.\<close>

lemma descriptorPass_from:
  assumes "length entities = length (remdups_adj (map dem_Location demands))" "k \<le> length demands"
  shows "descriptorPass entities demands (map int [k..<length demands])
      (int (length (remdups_adj (take k (map dem_Location demands)))) - 1) symbols =
    Inr (symbols @ filter (\<lambda>s. s \<noteq> []) (map (\<lambda>i. ent_Symbol (entities ! rowIndex demands i))
      (filter (\<lambda>i. dem_TypeDescriptor (demands ! i)) [k..<length demands])))"
  using assms(2)
proof (induction "length demands - k" arbitrary: k symbols)
  case 0
  then show ?case by simp
next
  case (Suc n)
  then have k: "k < length demands" by simp
  let ?locs = "map dem_Location demands"
  have range: "[k..<length demands] = k # [Suc k..<length demands]" using k by (rule upt_conv_Cons)
  have "n = length demands - Suc k" using Suc.hyps(2) by simp
  note IH = Suc.hyps(1)[OF this Suc_leI[OF k]]
  have reads: "slice_at demands (int k) = Inr (demands ! k)"
    "(if int k = 0 then Inr True else bind_result (slice_at demands (int k - 1))
        (\<lambda>previous. Inr (dem_Location (demands ! k) \<noteq> dem_Location previous))) =
     Inr (k = 0 \<or> dem_Location (demands ! k) \<noteq> dem_Location (demands ! (k - 1)))"
    using k by (auto simp: slice_at_def nat_diff_distrib)
  have index: "(if k = 0 \<or> dem_Location (demands ! k) \<noteq> dem_Location (demands ! (k - 1))
      then int (length (remdups_adj (take k ?locs))) - 1 + 1 else int (length (remdups_adj (take k ?locs))) - 1) =
    int (length (remdups_adj (take (Suc k) ?locs))) - 1"
    using remdups_adj_take_Suc[of k ?locs] k by auto
  have "rowIndex demands k < length entities"
    using rowIndex_less[of k "length demands" demands] k assms(1) by simp
  moreover have "int (length (remdups_adj (take (Suc k) ?locs))) - 1 = int (rowIndex demands k)"
  proof -
    have "take (Suc k) ?locs \<noteq> []" using k by auto
    then have "0 < length (remdups_adj (take (Suc k) ?locs))" by (metis length_greater_0_conv remdups_adj_Nil_iff)
    then show ?thesis unfolding rowIndex_def by linarith
  qed
  ultimately have "slice_at entities (int (length (remdups_adj (take (Suc k) ?locs))) - 1) = Inr (entities ! rowIndex demands k)"
    by (simp add: slice_at_nth)
  then show ?case
    unfolding range list.map descriptorPass.simps reads bind_result_simps index Let_def using IH by simp
qed

lemma fullTierCount_aligned:
  assumes "length answers = length demands"
  shows "\<exists>n. fullTierCount demands answers = Inr n"
proof -
  let ?f = "\<lambda>index. bind_result (slice_at answers index) (\<lambda>entity. if ent_Symbol entity \<noteq> []
      then bind_result (slice_at demands index) (\<lambda>demand. Inr (if dem_References demand then 1 else 0)) else Inr 0)"
  have "?f i = Inr (if ent_Symbol (answers ! nat i) \<noteq> [] \<and> dem_References (demands ! nat i) then 1 else (0::nat))"
    if "i \<in> set (slice_range demands)" for i
    using that assms by (auto simp: slice_range_def slice_at_def)
  then have "map_result ?f (slice_range demands) = Inr (map (\<lambda>i. if ent_Symbol (answers ! nat i) \<noteq> [] \<and>
      dem_References (demands ! nat i) then 1 else (0::nat)) (slice_range demands))"
    by (rule map_result_Inr)
  then show ?thesis by (simp add: fullTierCount_def)
qed

text \<open>The whole preparation, as what it computes.\<close>

definition mergedRows :: "EntityDemand list \<Rightarrow> EntityFact list \<Rightarrow> EntityFact list" where
  "mergedRows demands answers =
     map (\<lambda>j. answeredRow (remdups_adj (map dem_Location demands) ! j) (rowAnswers demands answers (length demands) j))
       [0..<length (remdups_adj (map dem_Location demands))]"

definition descriptorSymbolsOf :: "EntityDemand list \<Rightarrow> EntityFact list \<Rightarrow> SymbolID list" where
  "descriptorSymbolsOf demands answers =
     filter (\<lambda>s. s \<noteq> []) (map (\<lambda>i. ent_Symbol (mergedRows demands answers ! rowIndex demands i))
       (filter (\<lambda>i. dem_TypeDescriptor (demands ! i)) [0..<length demands]))"

lemma prepareRetainedContribution_result:
  assumes "length (elems (srr_Entities result)) = length demands" "length (srr_Structural result) = length demands"
    and "map ent_Location (elems (srr_Entities result)) = map dem_Location demands"
  shows "prepareRetainedContribution path hash demands result =
    bind_result (validateCanonicalDependencyPaths path (srr_Dependencies result)) (\<lambda>_.
      Inr \<lparr>rc_demandHash = hash,
        rc_entities = map_option (\<lambda>_. mergedRows demands (elems (srr_Entities result))) (srr_Entities result),
        rc_fullTier = map (\<lambda>i. of_nat (rowIndex demands i)) (filter (\<lambda>i. ent_Symbol (elems (srr_Entities result) ! i) \<noteq> [] \<and>
          dem_References (demands ! i)) [0..<length demands]),
        rc_roots = [], rc_fullTierSymbols = [], rc_descriptors = [],
        rc_structural = filter (\<lambda>s. s \<noteq> []) (srr_Structural result), rc_dependencies = srr_Dependencies result,
        rc_descriptorSymbols = compactSortedPaths (sort (descriptorSymbolsOf demands (elems (srr_Entities result)))),
        rc_durable = srr_Durable result, rc_seedsPrepared = False\<rparr>)"
proof -
  let ?es = "elems (srr_Entities result)" and ?locs = "map dem_Location demands"
  let ?st = "\<lparr>ms_entities = ?es, ms_rows = 0, ms_fullTier = [], ms_structural = srr_Structural result, ms_structuralRows = 0\<rparr>"
  have start: "merging demands ?es (srr_Structural result) 0 ?st"
    by (simp add: merging_def contributed_def)
  have "ent_Location (?es ! i) = dem_Location (demands ! i)" if "i < length demands" for i
    using assms(1,3) that by (metis length_map nth_map)
  then obtain st where st: "mergeRows demands (length ?es) (length (srr_Structural result)) (map int [0..<length demands]) ?st = Inr st"
    "merging demands ?es (srr_Structural result) (length demands) st"
    using mergeRows_from[OF start _ assms(1,2)] by auto
  then have rows: "contributed st = mergedRows demands ?es"
    "take (ms_structuralRows st) (ms_structural st) = filter (\<lambda>s. s \<noteq> []) (srr_Structural result)"
    "ms_fullTier st = map (\<lambda>i. of_nat (rowIndex demands i))
      (filter (\<lambda>i. ent_Symbol (?es ! i) \<noteq> [] \<and> dem_References (demands ! i)) [0..<length demands])"
    using mergingD(2-4)[OF st(2)] assms(1,2) by (simp_all add: mergedRows_def)
  have "descriptorPass (contributed st) demands (map int [0..<length demands]) (- 1) [] = Inr (descriptorSymbolsOf demands ?es)"
    using descriptorPass_from[of "contributed st" demands 0 "[]"] by (simp add: rows(1) descriptorSymbolsOf_def mergedRows_def)
  then show ?thesis
    using fullTierCount_aligned[OF assms(1)] assms(1,2) st(1) rows
    by (auto simp: prepareRetainedContribution_def slice_range_def Let_def)
qed

lemma map_result_Inl: "map_result f xs = Inl e \<Longrightarrow> \<exists>x \<in> set xs. f x = Inl e"
  by (induction xs) (auto simp: bind_result_eq_Inl_iff)

lemma validateCanonicalDependencyPaths_no_Panic: "validateCanonicalDependencyPaths path ds \<noteq> Inl (Panic m)"
proof
  assume "validateCanonicalDependencyPaths path ds = Inl (Panic m)"
  then obtain i where "i < length ds" and
    "bind_result (slice_at ds (int i)) (\<lambda>path'. if path' = [] \<or> Clean path' \<noteq> path'
       then Inl (Errorf ''semantic dependency path is not clean and non-empty'')
       else if path' = path then Inl (Errorf ''semantic dependency paths include owner'')
       else if int i \<noteq> 0 then bind_result (slice_at ds (int i - 1)) (\<lambda>previous.
         if path' \<le> previous then Inl (Errorf ''semantic dependency paths are not strictly ordered'') else Inr ())
       else Inr ()) = Inl (Panic m)"
    by (auto simp: validateCanonicalDependencyPaths_def bind_result_eq_Inl_iff slice_range_def
        dest!: map_result_Inl split: if_splits)
  then show False
    by (auto simp: slice_at_def bind_result_eq_Inl_iff split: if_splits)
qed

text \<open>An answer at another location is an error, found before the descriptor pass.\<close>

lemma prepareRetainedContribution_misaligned:
  assumes "length (elems (srr_Entities result)) \<noteq> length demands \<or> length (srr_Structural result) \<noteq> length demands \<or>
    map ent_Location (elems (srr_Entities result)) \<noteq> map dem_Location demands"
  shows "\<exists>e. prepareRetainedContribution path hash demands result = Inl e \<and> (\<forall>m. e \<noteq> Panic m)"
proof (cases "length (elems (srr_Entities result)) = length demands \<and> length (srr_Structural result) = length demands")
  case False
  then show ?thesis by (auto simp: prepareRetainedContribution_def Let_def)
next
  case True
  let ?es = "elems (srr_Entities result)"
  let ?st = "\<lparr>ms_entities = ?es, ms_rows = 0, ms_fullTier = [], ms_structural = srr_Structural result, ms_structuralRows = 0\<rparr>"
  have "merging demands ?es (srr_Structural result) 0 ?st"
    by (simp add: merging_def contributed_def)
  note from_start = mergeRows_from[OF this _ conjunct1[OF True] conjunct2[OF True]]
  have neg: "\<not> (\<forall>i \<in> {0..<length demands}. ent_Location (?es ! i) = dem_Location (demands ! i))"
  proof
    assume "\<forall>i \<in> {0..<length demands}. ent_Location (?es ! i) = dem_Location (demands ! i)"
    then have "map ent_Location ?es = map dem_Location demands" using True by (intro nth_equalityI) auto
    then show False using assms True by blast
  qed
  then obtain m where "mergeRows demands (length ?es) (length (srr_Structural result)) (map int [0..<length demands]) ?st = Inl (Errorf m)"
    using from_start[unfolded if_not_P[OF neg]] by blast
  then show ?thesis
    using fullTierCount_aligned[OF conjunct1[OF True]] validateCanonicalDependencyPaths_no_Panic[of path "srr_Dependencies result"] True
    by (cases "validateCanonicalDependencyPaths path (srr_Dependencies result)")
       (auto simp: prepareRetainedContribution_def slice_range_def Let_def)
qed

lemma prepareRetainedContribution_Inr:
  assumes "prepareRetainedContribution path hash demands result = Inr c"
  shows "length (elems (srr_Entities result)) = length demands"
    and "map ent_Location (elems (srr_Entities result)) = map dem_Location demands"
    and "elems (rc_entities c) = mergedRows demands (elems (srr_Entities result))"
    and "rc_structural c = filter (\<lambda>s. s \<noteq> []) (srr_Structural result)"
    and "rc_fullTier c = map (\<lambda>i. of_nat (rowIndex demands i))
      (filter (\<lambda>i. ent_Symbol (elems (srr_Entities result) ! i) \<noteq> [] \<and> dem_References (demands ! i)) [0..<length demands])"
    and "rc_descriptorSymbols c = compactSortedPaths (sort (descriptorSymbolsOf demands (elems (srr_Entities result))))"
proof -
  have aligned: "length (elems (srr_Entities result)) = length demands" "length (srr_Structural result) = length demands"
    "map ent_Location (elems (srr_Entities result)) = map dem_Location demands"
    using prepareRetainedContribution_misaligned[of result demands path hash] assms by auto
  then show "length (elems (srr_Entities result)) = length demands"
    "map ent_Location (elems (srr_Entities result)) = map dem_Location demands" by simp_all
  have c: "rc_entities c = map_option (\<lambda>_. mergedRows demands (elems (srr_Entities result))) (srr_Entities result)"
    "rc_structural c = filter (\<lambda>s. s \<noteq> []) (srr_Structural result)"
    "rc_fullTier c = map (\<lambda>i. of_nat (rowIndex demands i))
      (filter (\<lambda>i. ent_Symbol (elems (srr_Entities result) ! i) \<noteq> [] \<and> dem_References (demands ! i)) [0..<length demands])"
    "rc_descriptorSymbols c = compactSortedPaths (sort (descriptorSymbolsOf demands (elems (srr_Entities result))))"
    using assms unfolding prepareRetainedContribution_result[OF aligned] by (auto simp: bind_result_eq_Inr_iff)
  then show "rc_structural c = filter (\<lambda>s. s \<noteq> []) (srr_Structural result)"
    "rc_fullTier c = map (\<lambda>i. of_nat (rowIndex demands i))
      (filter (\<lambda>i. ent_Symbol (elems (srr_Entities result) ! i) \<noteq> [] \<and> dem_References (demands ! i)) [0..<length demands])"
    "rc_descriptorSymbols c = compactSortedPaths (sort (descriptorSymbolsOf demands (elems (srr_Entities result))))" by simp_all
  show "elems (rc_entities c) = mergedRows demands (elems (srr_Entities result))"
    using c(1) aligned(1) by (cases "srr_Entities result") (simp_all add: mergedRows_def)
qed

lemma mergedRows_locations: "map ent_Location (mergedRows demands answers) = remdups_adj (map dem_Location demands)"
  by (rule nth_equalityI) (simp_all add: mergedRows_def)

section \<open>Properties\<close>

text \<open>
  C31. Preparing a contribution never indexes out of range: whatever the backend returns, every read of the
  demands, of the array of answers that the merge overwrites while it reads it, of the structural symbols,
  of the merged rows in both passes and of the dependency paths is inside its slice, so
  \<^verbatim>\<open>prepareRetainedContribution\<close> succeeds or returns an error.
\<close>

theorem prepareRetainedContribution_no_Panic:
  "prepareRetainedContribution path hash demands result \<noteq> Inl (Panic m)"
proof (cases "length (elems (srr_Entities result)) = length demands \<and> length (srr_Structural result) = length demands \<and>
    map ent_Location (elems (srr_Entities result)) = map dem_Location demands")
  case True
  then show ?thesis
    using prepareRetainedContribution_result[of result demands path hash] validateCanonicalDependencyPaths_no_Panic
    by (auto simp: bind_result_eq_Inl_iff)
next
  case False
  then show ?thesis using prepareRetainedContribution_misaligned[of result demands path hash] by auto
qed

text \<open>
  C22. What a successful preparation retains, for every order of the demands. There is one row per maximal
  block of adjacent demands at one location, in the order of the blocks; each field of a row is the one of
  the latest answer of its block that has it, and the symbol is unresolved when an answer says so and no
  answer has a symbol. The full-tier indexes name, in order, the row of every answered symbol whose
  references are demanded; the structural symbols are the non-empty ones in order; the descriptor symbols
  are, once each and in order, the symbols of the rows some demand asks the descriptor of. On a run in
  canonical order over one file every location has one row, in strict order.
\<close>

theorem prepareRetainedContribution_merge:
  assumes "prepareRetainedContribution path hash demands result = Inr c"
  shows "let answers = elems (srr_Entities result); rows = elems (rc_entities c) in
    map ent_Location rows = remdups_adj (map dem_Location demands) \<and>
    (\<forall>j < length rows. rows ! j = answeredRow (ent_Location (rows ! j)) (rowAnswers demands answers (length demands) j)) \<and>
    (\<forall>i < length demands. rowIndex demands i < length rows \<and> ent_Location (rows ! rowIndex demands i) = dem_Location (demands ! i)) \<and>
    rc_fullTier c = map (\<lambda>i. of_nat (rowIndex demands i))
      (filter (\<lambda>i. ent_Symbol (answers ! i) \<noteq> [] \<and> dem_References (demands ! i)) [0..<length demands]) \<and>
    rc_structural c = filter (\<lambda>s. s \<noteq> []) (srr_Structural result) \<and>
    rc_descriptorSymbols c = sorted_list_of_set
      ((\<lambda>i. ent_Symbol (rows ! rowIndex demands i)) ` {i. i < length demands \<and> dem_TypeDescriptor (demands ! i)} - {[]}) \<and>
    (sorted (map demand_order demands) \<and> (\<forall>d \<in> set demands. loc_Path (dem_Location d) = path) \<longrightarrow>
      strict_keys (\<lambda>e. (loc_StartByte (ent_Location e), loc_EndByte (ent_Location e))) rows)"
proof -
  let ?answers = "elems (srr_Entities result)" and ?rows = "elems (rc_entities c)" and ?locs = "map dem_Location demands"
  note prepared = prepareRetainedContribution_Inr[OF assms]
  have locs: "map ent_Location ?rows = remdups_adj ?locs" by (simp add: prepared(3) mergedRows_locations)
  have row: "?rows ! j = answeredRow (ent_Location (?rows ! j)) (rowAnswers demands ?answers (length demands) j)"
    if "j < length ?rows" for j
    using that by (simp add: prepared(3) mergedRows_def)
  have index: "rowIndex demands i < length ?rows" "ent_Location (?rows ! rowIndex demands i) = dem_Location (demands ! i)"
    if "i < length demands" for i
  proof -
    show less: "rowIndex demands i < length ?rows"
      using rowIndex_less[of i "length demands" demands] that arg_cong[OF locs, of length] by simp
    then have "ent_Location (?rows ! rowIndex demands i) = map ent_Location ?rows ! rowIndex demands i" by simp
    then show "ent_Location (?rows ! rowIndex demands i) = dem_Location (demands ! i)"
      using rowIndex_location[OF that] by (simp add: locs)
  qed
  have "set (descriptorSymbolsOf demands ?answers) =
      (\<lambda>i. ent_Symbol (?rows ! rowIndex demands i)) ` {i. i < length demands \<and> dem_TypeDescriptor (demands ! i)} - {[]}"
    by (auto simp: descriptorSymbolsOf_def prepared(3))
  moreover have "strict_keys (\<lambda>e. (loc_StartByte (ent_Location e), loc_EndByte (ent_Location e))) ?rows"
    if "sorted (map demand_order demands)" "\<forall>d \<in> set demands. loc_Path (dem_Location d) = path"
  proof -
    let ?key = "\<lambda>l. (loc_StartByte l, loc_EndByte l)"
    have "map ?key ?locs = map demand_order demands" by (simp add: demand_order_def comp_def)
    moreover have "inj_on ?key (set ?locs)" using that(2) by (intro inj_onI) (auto intro: Location.equality)
    from remdups_adj_map_inj_on[OF this] have "remdups_adj (map ?key ?locs) = map ?key (remdups_adj ?locs)" .
    ultimately have "map ?key (remdups_adj ?locs) = remdups_adj (map demand_order demands)" by (simp only:)
    then have keys: "map (\<lambda>e. ?key (ent_Location e)) ?rows = remdups_adj (map demand_order demands)"
      using arg_cong[OF locs, of "map ?key"] by (simp add: comp_def)
    then show ?thesis
      using sorted_remdups_adj_strict[OF that(1)] keys by (simp add: strict_keys_def)
  qed
  ultimately show ?thesis
    using locs row index prepared(4,5,6) unfolding Let_def by (simp add: compactSortedPaths_sort)
qed

text \<open>Two answers at one location, the second without a symbol.\<close>

definition mergeExample :: "EntityDemand list \<times> SemanticDemandRunResult" where
  "mergeExample =
     ([demandOfFlags ''a'' 1 5 1, demandOfFlags ''a'' 1 5 4, demandOfFlags ''a'' 2 3 1],
      \<lparr>srr_Entities = Some [(zeroEntity \<lparr>loc_Path = ''a'', loc_StartByte = 1, loc_EndByte = 5\<rparr>)\<lparr>ent_Symbol := ''s''\<rparr>,
         (zeroEntity \<lparr>loc_Path = ''a'', loc_StartByte = 1, loc_EndByte = 5\<rparr>)\<lparr>ent_Callability := ''callable'', ent_SymbolUnresolved := True\<rparr>,
         zeroEntity \<lparr>loc_Path = ''a'', loc_StartByte = 2, loc_EndByte = 3\<rparr>],
       srr_Structural = [[], ''t'', []], srr_Dependencies = [''b''], srr_Durable = True\<rparr>)"

theorem prepareRetainedContribution_merge_witness:
  "\<exists>c. prepareRetainedContribution ''a'' 0 (fst mergeExample) (snd mergeExample) = Inr c \<and>
     length (elems (rc_entities c)) = 2 \<and> rc_structural c = [''t''] \<and> rc_descriptorSymbols c = [''s''] \<and>
     ent_Symbol (elems (rc_entities c) ! 0) = ''s'' \<and> \<not> ent_SymbolUnresolved (elems (rc_entities c) ! 0)"
proof -
  let ?ds = "fst mergeExample" and ?r = "snd mergeExample"
  have run: "case prepareRetainedContribution ''a'' 0 ?ds ?r of Inl _ \<Rightarrow> False
    | Inr c \<Rightarrow> length (elems (rc_entities c)) = 2 \<and> rc_descriptorSymbols c = [''s'']" by code_simp
  then obtain c where c: "prepareRetainedContribution ''a'' 0 ?ds ?r = Inr c" "length (elems (rc_entities c)) = 2"
    "rc_descriptorSymbols c = [''s'']"
    by (auto split: sum.splits)
  have merge: "\<forall>j < length (elems (rc_entities c)). elems (rc_entities c) ! j =
      answeredRow (ent_Location (elems (rc_entities c) ! j)) (rowAnswers ?ds (elems (srr_Entities ?r)) (length ?ds) j)"
    "rc_structural c = filter (\<lambda>s. s \<noteq> []) (srr_Structural ?r)"
    using prepareRetainedContribution_merge[OF c(1)] unfolding Let_def by blast+
  have "rowAnswers ?ds (elems (srr_Entities ?r)) (length ?ds) 0 = take 2 (elems (srr_Entities ?r))" by code_simp
  then have "elems (rc_entities c) ! 0 = answeredRow (ent_Location (elems (rc_entities c) ! 0)) (take 2 (elems (srr_Entities ?r)))"
    using merge(1) c(2) by (metis zero_less_numeral)
  moreover have "ent_Symbol (answeredRow l (take 2 (elems (srr_Entities ?r)))) = ''s''"
    "\<not> ent_SymbolUnresolved (answeredRow l (take 2 (elems (srr_Entities ?r))))" for l
    by (simp_all add: answeredRow_def mergeExample_def latestPresent_def zeroEntity_def elems_def)
  ultimately have "ent_Symbol (elems (rc_entities c) ! 0) = ''s''" "\<not> ent_SymbolUnresolved (elems (rc_entities c) ! 0)"
    by metis+
  moreover have "filter (\<lambda>s. s \<noteq> []) (srr_Structural ?r) = [''t'']" by code_simp
  ultimately show ?thesis using merge(2) c by metis
qed


text \<open>The histories of the store: contributions are allocated, their rows are released, and the store is edited.\<close>

inductive rcs_history :: "contributionHeap \<Rightarrow> retainedContributionStore \<Rightarrow> bool" where
  start: "rcs_history [] (rcs_reset s)"
| alloc: "rcs_history heap s \<Longrightarrow> rcs_history (heap @ [c]) s"
| release: "rcs_history heap s \<Longrightarrow> rcs_history (heap[ref := releaseContributionRows (heap ! ref)]) s"
| reset: "rcs_history heap s \<Longrightarrow> rcs_history heap (rcs_reset s)"
| invalidate: "rcs_history heap s \<Longrightarrow> rcs_invalidate heap paths s = (s', paths') \<Longrightarrow> rcs_history heap s'"
| discard: "rcs_history heap s \<Longrightarrow> rcs_history heap (rcs_discard heap paths s)"
| commit: "rcs_history heap s \<Longrightarrow> distinct (map dg_path groups) \<Longrightarrow>
    (\<forall>g \<in> set groups. \<forall>ref. dg_contribution g = Some ref \<longrightarrow> ref < length heap) \<Longrightarrow>
    rcs_history heap (rcs_commit heap groups s)"

definition refs_ok :: "contributionHeap \<Rightarrow> retainedContributionStore \<Rightarrow> bool" where
  "refs_ok heap s \<longleftrightarrow> (\<forall>p ref. rcs_get s p = Some ref \<longrightarrow> ref < length heap)"

lemma rcs_ok_heap:
  assumes "rcs_ok heap s" and "refs_ok heap s"
    and "\<And>ref. ref < length heap \<Longrightarrow> rc_dependencies (heap' ! ref) = rc_dependencies (heap ! ref) \<and>
      rc_descriptorSymbols (heap' ! ref) = rc_descriptorSymbols (heap ! ref)"
  shows "rcs_ok heap' s"
proof -
  have "uses_of rc_dependencies heap' s = uses_of rc_dependencies heap s"
    "uses_of rc_descriptorSymbols heap' s = uses_of rc_descriptorSymbols heap s"
    using assms(2,3) by (auto simp: uses_of_def refs_ok_def fun_eq_iff intro!: map_option_cong)
  then show ?thesis using assms(1) by (simp add: rcs_ok_def)
qed

lemma release_keeps_keys [simp]:
  "rc_dependencies (releaseContributionRows c) = rc_dependencies c"
  "rc_descriptorSymbols (releaseContributionRows c) = rc_descriptorSymbols c"
  "rc_durable (releaseContributionRows c) = rc_durable c"
  "rc_demandHash (releaseContributionRows c) = rc_demandHash c"
  "rc_structural (releaseContributionRows c) = rc_structural c"
  by (simp_all add: releaseContributionRows_def prepareTransportSeeds_def split: option.split)

lemma rcs_reset_ok: "rcs_ok heap (rcs_reset s) \<and> refs_ok heap (rcs_reset s)"
  by (auto simp: rcs_ok_def refs_ok_def rcs_reset_def reverse.agrees_def index_ok_def uses_of_def rcs_get_def
      bucketUsers_def bucket_def emptyMembership_def pm_paths_def)

lemma rcs_history_ok: "rcs_history heap s \<Longrightarrow> rcs_ok heap s \<and> refs_ok heap s"
proof (induction rule: rcs_history.induct)
  case (start s)
  then show ?case by (rule rcs_reset_ok)
next
  case (alloc heap s c)
  then show ?case using rcs_ok_heap[of heap s "heap @ [c]"] by (auto simp: refs_ok_def nth_append less_SucI)
next
  case (release heap s ref)
  let ?heap = "heap[ref := releaseContributionRows (heap ! ref)]"
  have "rc_dependencies (?heap ! r) = rc_dependencies (heap ! r) \<and>
      rc_descriptorSymbols (?heap ! r) = rc_descriptorSymbols (heap ! r)" if "r < length heap" for r
    using that by (cases "ref < length heap") (auto simp: nth_list_update)
  then have "rcs_ok ?heap s" using release.IH rcs_ok_heap[of heap s ?heap] by blast
  then show ?case using release.IH by (simp add: refs_ok_def)
next
  case (reset heap s)
  then show ?case using rcs_reset_ok by simp
next
  case (invalidate heap s paths s' paths')
  then show ?case
    using rcs_invalidate_effect[of heap s paths s' paths'] by (auto simp: refs_ok_def restrict_map_def split: if_splits)
next
  case (discard heap s paths)
  then show ?case
    using fold_rcs_remove_effect[of heap s paths]
    by (auto simp: rcs_discard_def refs_ok_def restrict_map_def split: if_splits)
next
  case (commit heap s groups)
  then show ?case
    using rcs_commit_effect[of heap s groups]
    by (auto simp: refs_ok_def bind_eq_Some_conv dest!: map_by_SomeD)
qed

text \<open>A one-contribution history: file \<^verbatim>\<open>a\<close> depends on \<^verbatim>\<open>b\<close> and demands the descriptor of \<^verbatim>\<open>s\<close>.\<close>

definition sampleContribution :: retainedContribution where
  "sampleContribution = \<lparr>rc_demandHash = 7, rc_entities = Some [], rc_fullTier = [], rc_roots = [],
     rc_fullTierSymbols = [], rc_descriptors = [], rc_structural = [], rc_dependencies = [''b''],
     rc_descriptorSymbols = [''s''], rc_durable = True, rc_seedsPrepared = False\<rparr>"

definition sampleGroup :: demandGroup where
  "sampleGroup = zeroDemandGroup\<lparr>dg_path := ''a'', dg_contribution := Some 0\<rparr>"

definition sampleStore :: retainedContributionStore where
  "sampleStore = rcs_commit [sampleContribution] [sampleGroup] \<lparr>rcs_byPath = [], rcs_dependentsByPath = [], rcs_descriptorUsers = []\<rparr>"

lemma sample_history: "rcs_history [sampleContribution] sampleStore"
  unfolding sampleStore_def
  using rcs_history.alloc[OF rcs_history.start, where c = sampleContribution]
  by (intro rcs_history.commit) (auto simp: sampleGroup_def zeroDemandGroup_def rcs_reset_def)

lemma sample_get: "rcs_get sampleStore ''a'' = Some 0"
  by (simp add: sampleStore_def rcs_commit_def sampleGroup_def sampleContribution_def zeroDemandGroup_def
    durableRef_def rcs_add_def rcs_get_def Let_def)

text \<open>
  C10. In every history of the store the two reverse indexes are exact: a path is in the bucket of a
  source path exactly when it is retained with that dependency, and in the bucket of a symbol exactly
  when its retained contribution demands that symbol's descriptor.
\<close>

theorem rcs_history_indexes:
  assumes "rcs_history heap s"
  shows "(p \<in> bucketUsers (rcs_dependentsByPath s) d \<longleftrightarrow>
      (\<exists>ref < length heap. rcs_get s p = Some ref \<and> d \<in> set (rc_dependencies (heap ! ref)))) \<and>
    (p \<in> set (rcs_descriptorUsersOf s symbol) \<longleftrightarrow>
      (\<exists>ref < length heap. rcs_get s p = Some ref \<and> symbol \<in> set (rc_descriptorSymbols (heap ! ref))))"
  using rcs_history_ok[OF assms]
  by (auto simp: rcs_ok_def reverse.agrees_def refs_ok_def uses_of_def bucketUsers_def rcs_descriptorUsersOf_def)

theorem rcs_history_indexes_witness:
  "rcs_history [sampleContribution] sampleStore \<and>
   ''a'' \<in> bucketUsers (rcs_dependentsByPath sampleStore) ''b'' \<and>
   ''a'' \<in> set (rcs_descriptorUsersOf sampleStore ''s'') \<and>
   ''b'' \<notin> bucketUsers (rcs_dependentsByPath sampleStore) ''a''"
proof -
  have "rcs_get sampleStore ''b'' = None" by code_simp
  then show ?thesis
    using rcs_history_indexes[OF sample_history, of "''a''" "''b''" "''s''"]
      rcs_history_indexes[OF sample_history, of "''b''" "''a''"] sample_get sample_history
    by (auto simp: sampleContribution_def)
qed

text \<open>
  C30. Invalidation removes the named paths and exactly their direct dependents, names all of them in
  the extended set, and leaves every other retained contribution as it is.
\<close>

theorem rcs_invalidate_direct:
  assumes "rcs_history heap s" and "rcs_invalidate heap paths s = (s', paths')"
  shows "set paths' = set paths \<union> {p. \<exists>ref. rcs_get s p = Some ref \<and>
      set (rc_dependencies (heap ! ref)) \<inter> set paths \<noteq> {}} \<and>
    rcs_get s' p = (if p \<in> set paths' then None else rcs_get s p)"
proof -
  have "{p. \<exists>ref d. rcs_get s p = Some ref \<and> d \<in> set paths \<and> d \<in> set (rc_dependencies (heap ! ref))} =
      {p. \<exists>ref. rcs_get s p = Some ref \<and> set (rc_dependencies (heap ! ref)) \<inter> set paths \<noteq> {}}"
    by auto
  then show ?thesis
    using rcs_history_ok[OF assms(1)] rcs_invalidate_effect[OF _ assms(2)] by (auto simp: restrict_map_def)
qed

theorem rcs_invalidate_direct_witness:
  "\<exists>s' paths'. rcs_history [sampleContribution] sampleStore \<and>
     rcs_invalidate [sampleContribution] [''b''] sampleStore = (s', paths') \<and>
     set paths' = {''a'', ''b''} \<and> rcs_get s' ''a'' = None"
proof -
  obtain s' paths' where run: "rcs_invalidate [sampleContribution] [''b''] sampleStore = (s', paths')" by force
  have only: "rcs_get sampleStore p = (if p = ''a'' then Some 0 else None)" for p
    by (simp add: sampleStore_def rcs_commit_def sampleGroup_def sampleContribution_def zeroDemandGroup_def
      durableRef_def rcs_add_def rcs_get_def Let_def)
  have "{p. \<exists>ref. rcs_get sampleStore p = Some ref \<and>
      set (rc_dependencies ([sampleContribution] ! ref)) \<inter> set [''b''] \<noteq> {}} = {''a''}"
    by (auto simp: only sampleContribution_def split: if_splits)
  then show ?thesis
    using rcs_invalidate_direct[OF sample_history run, of "''a''"] run sample_history
    by (intro exI[of _ s'] exI[of _ paths']) auto
qed

text \<open>
  Committing a closure leaves exactly the durable contributions of its groups: a path is retained
  if and only if its group's contribution is durable, and it is retained with that contribution.
\<close>

theorem rcs_commit_exact:
  assumes "rcs_history heap s" and "distinct (map dg_path groups)" and "g \<in> set groups"
  shows "rcs_get (rcs_commit heap groups s) (dg_path g) =
      (if durableRef heap g then dg_contribution g else None) \<and>
    (p \<notin> dg_path ` set groups \<longrightarrow> rcs_get (rcs_commit heap groups s) p = None)"
proof -
  have get: "rcs_get (rcs_commit heap groups s) q =
      Option.bind (map_by dg_path (filter (durableRef heap) groups) q) dg_contribution" for q
    using rcs_history_ok[OF assms(1)] rcs_commit_effect(2)[OF _ assms(2)] by blast
  have dist: "distinct (map dg_path (filter (durableRef heap) groups))"
    using assms(2) by (simp add: distinct_map_filter)
  have "map_by dg_path (filter (durableRef heap) groups) (dg_path g) = (if durableRef heap g then Some g else None)"
  proof (cases "durableRef heap g")
    case True
    then show ?thesis
      using map_of_eq_Some_iff[of "map (\<lambda>x. (dg_path x, x)) (filter (durableRef heap) groups)" "dg_path g" g]
        dist assms(3) by (auto simp: map_by_def comp_def)
  next
    case False
    have "dg_path h \<noteq> dg_path g" if "h \<in> set groups" "durableRef heap h" for h
      using that assms(2,3) False by (metis distinct_map inj_on_def)
    then show ?thesis using False by (force simp: map_by_eq_None_iff)
  qed
  moreover have "map_by dg_path (filter (durableRef heap) groups) p = None" if "p \<notin> dg_path ` set groups"
    using that by (auto simp: map_by_eq_None_iff)
  ultimately show ?thesis by (simp add: get)
qed

theorem rcs_commit_exact_witness:
  "rcs_history [sampleContribution] sampleStore \<and> durableRef [sampleContribution] sampleGroup \<and>
   rcs_get (rcs_commit [sampleContribution] [sampleGroup] sampleStore) ''a'' = Some 0 \<and>
   rcs_get (rcs_commit [sampleContribution] [sampleGroup] sampleStore) ''b'' = None"
  using rcs_commit_exact[OF sample_history, of "[sampleGroup]" sampleGroup "''b''"] sample_history
  by (simp add: durableRef_def sampleGroup_def sampleContribution_def zeroDemandGroup_def)

text \<open>
  The full-tier indexes of a contribution stay in range of its entity rows, so that preparing the
  transport seeds never reads past them, for every run of fewer than \<open>2 ^ 32\<close> demands.
\<close>

theorem prepareRetainedContribution_fullTier:
  assumes "prepareRetainedContribution path hash demands result = Inr c" and "length demands < 2 ^ 32"
  shows "\<forall>i \<in> set (rc_fullTier c). unat i < length (elems (rc_entities c))"
proof -
  have "unat (of_nat (rowIndex demands i) :: u32) < length (mergedRows demands (elems (srr_Entities result)))"
    if "i < length demands" for i
  proof -
    have "rowIndex demands i < length (remdups_adj (map dem_Location demands))"
      using rowIndex_less[of i "length demands" demands] that by simp
    moreover have "length (remdups_adj (map dem_Location demands)) \<le> length demands"
      by (rule order_trans[OF remdups_adj_length]) simp
    ultimately show ?thesis
      using assms(2) by (simp add: mergedRows_def unsigned_of_nat take_bit_nat_eq_self)
  qed
  then show ?thesis
    using prepareRetainedContribution_Inr(3,5)[OF assms(1)] by auto
qed

theorem prepareRetainedContribution_fullTier_witness:
  "\<exists>c. prepareRetainedContribution ''a'' 0 [demandOfFlags ''a'' 1 5 3]
     \<lparr>srr_Entities = Some [(zeroEntity \<lparr>loc_Path = ''a'', loc_StartByte = 1, loc_EndByte = 5\<rparr>)\<lparr>ent_Symbol := ''s''\<rparr>],
      srr_Structural = [[]], srr_Dependencies = [], srr_Durable = True\<rparr> = Inr c \<and>
     rc_fullTier c = [0] \<and> 0 < length (elems (rc_entities c))"
proof -
  let ?ds = "[demandOfFlags ''a'' 1 5 3]"
  let ?r = "\<lparr>srr_Entities = Some [(zeroEntity \<lparr>loc_Path = ''a'', loc_StartByte = 1, loc_EndByte = 5\<rparr>)\<lparr>ent_Symbol := ''s''\<rparr>],
      srr_Structural = [[]], srr_Dependencies = [], srr_Durable = True\<rparr>"
  have "case prepareRetainedContribution ''a'' 0 ?ds ?r of Inl _ \<Rightarrow> False | Inr c \<Rightarrow> rc_fullTier c = [0]"
    by code_simp
  then obtain c where c: "prepareRetainedContribution ''a'' 0 ?ds ?r = Inr c" "rc_fullTier c = [0]"
    by (auto split: sum.splits)
  then show ?thesis using prepareRetainedContribution_fullTier[OF c(1)] by (intro exI[of _ c]) auto
qed

end
