(* ===== verification/Wire_Codec.thy ===== *)
theory Wire_Codec
  imports String_Table
begin

text \<open>
  The primitives of the packed table transition (\<^verbatim>\<open>wire_transition_codec.go\<close>): a writer that appends
  varint-coded rows, interns every string into the transition's dictionary and hands full chunks to a
  flush callback, the location codec, and the prefix-coded dictionary. A method of \<^verbatim>\<open>packedWriter\<close> is a
  function on the writer; an action may also fail with an error. The arena behind the flush callback
  is a state of any type.
\<close>

section \<open>The writer\<close>

record 'a packedWriter =
  pw_bytes :: bytes
  pw_dict :: stringTableV3
  pw_flush :: "('a \<Rightarrow> bytes \<Rightarrow> go_error option \<times> 'a) option"
  pw_arena :: 'a
  pw_flushLimit :: int
  pw_flushed :: nat
  pw_err :: "go_error option"

definition flushNow :: "('a \<Rightarrow> bytes \<Rightarrow> go_error option \<times> 'a) \<Rightarrow> 'a packedWriter \<Rightarrow> 'a packedWriter" where
  "flushNow flush w =
     (case flush (pw_arena w) (pw_bytes w) of (err, arena) \<Rightarrow>
        w\<lparr>pw_arena := arena, pw_err := err,
          pw_flushed := (if err = None then pw_flushed w + length (pw_bytes w) else pw_flushed w),
          pw_bytes := []\<rparr>)"

definition maybeFlush :: "'a packedWriter \<Rightarrow> 'a packedWriter" where
  "maybeFlush w =
     (case pw_flush w of
        None \<Rightarrow> w
      | Some flush \<Rightarrow>
          if pw_err w \<noteq> None \<or> int (length (pw_bytes w)) < pw_flushLimit w then w else flushNow flush w)"

definition pw_finish :: "'a packedWriter \<Rightarrow> go_error option \<times> 'a packedWriter" where
  "pw_finish w =
     (let w = (case pw_flush w of
            Some flush \<Rightarrow> if pw_err w = None \<and> pw_bytes w \<noteq> [] then flushNow flush w else w
          | None \<Rightarrow> w)
      in (pw_err w, w))"

text \<open>
  Actions of the row writers: a result or the error that is returned early, and the writer, which keeps
  what was written before the error.
\<close>

type_synonym ('a, 'v) action = "'a packedWriter \<Rightarrow> 'v result \<times> 'a packedWriter"

definition ret :: "'v \<Rightarrow> ('a, 'v) action" where
  "ret v w = (Inr v, w)"

definition fail :: "go_error \<Rightarrow> ('a, 'v) action" where
  "fail e w = (Inl e, w)"

definition bindA :: "('a, 'v) action \<Rightarrow> ('v \<Rightarrow> ('a, 'u) action) \<Rightarrow> ('a, 'u) action" where
  "bindA m k w = (case m w of (Inl e, w') \<Rightarrow> (Inl e, w') | (Inr v, w') \<Rightarrow> k v w')"

definition liftR :: "'v result \<Rightarrow> ('a, 'v) action" where
  "liftR r w = (r, w)"

fun run_all :: "('a, unit) action list \<Rightarrow> ('a, unit) action" where
  "run_all [] = ret ()"
| "run_all (m # ms) = bindA m (\<lambda>_. run_all ms)"

fun loopA :: "('x \<Rightarrow> 's \<Rightarrow> ('a, 's) action) \<Rightarrow> 'x list \<Rightarrow> 's \<Rightarrow> ('a, 's) action" where
  "loopA f [] s = ret s"
| "loopA f (x # xs) s = bindA (f x s) (loopA f xs)"

text \<open>Evaluation of actions by pattern matching on the outcome of the first one.\<close>

fun thenA :: "'v result \<times> 'a packedWriter \<Rightarrow> ('v \<Rightarrow> ('a, 'u) action) \<Rightarrow> 'u result \<times> 'a packedWriter" where
  "thenA (Inl e, w) k = (Inl e, w)"
| "thenA (Inr v, w) k = k v w"

lemma bindA_code [code]: "bindA m k w = thenA (m w) k"
  by (cases "m w"; cases "fst (m w)") (auto simp: bindA_def)

lemma run_all_code [code]:
  "run_all [] w = (Inr (), w)" "run_all (m # ms) w = thenA (m w) (\<lambda>_. run_all ms)"
  by (simp_all add: ret_def bindA_code)

lemma loopA_code [code]:
  "loopA f [] s w = (Inr s, w)" "loopA f (x # xs) s w = thenA (f x s w) (loopA f xs)"
  by (simp_all add: ret_def bindA_code)

definition whenA :: "bool \<Rightarrow> ('a, unit) action \<Rightarrow> ('a, unit) action" where
  "whenA b m = (if b then m else ret ())"

definition failIf :: "bool \<Rightarrow> string \<Rightarrow> ('a, unit) action" where
  "failIf b msg = (if b then fail (Errorf msg) else ret ())"

section \<open>Primitive writes\<close>

definition pw_u64 :: "u64 \<Rightarrow> ('a, unit) action" where
  "pw_u64 value w = (Inr (), maybeFlush (w\<lparr>pw_bytes := pw_bytes w @ AppendUvarint value\<rparr>))"

text \<open>The zig-zag code of a signed number, on its two's-complement bits.\<close>

definition zigzag :: "u64 \<Rightarrow> u64" where
  "zigzag value = push_bit 1 value XOR signed_drop_bit 63 value"

definition pw_signed :: "u64 \<Rightarrow> ('a, unit) action" where
  "pw_signed value = pw_u64 (zigzag value)"

definition pw_raw :: "bytes \<Rightarrow> ('a, unit) action" where
  "pw_raw value w = (Inr (), maybeFlush (w\<lparr>pw_bytes := pw_bytes w @ value\<rparr>))"

definition pw_intern :: "string \<Rightarrow> ('a, u64) action" where
  "pw_intern value w = (case intern (pw_dict w) value of (dict, index) \<Rightarrow> (Inr index, w\<lparr>pw_dict := dict\<rparr>))"

definition pw_text :: "string \<Rightarrow> ('a, unit) action" where
  "pw_text value = bindA (pw_intern value) pw_u64"

definition pw_count :: "'x list \<Rightarrow> ('a, unit) action" where
  "pw_count xs = pw_u64 (of_nat (length xs))"

definition boolBit :: "bool \<Rightarrow> u64" where
  "boolBit value = (if value then 1 else 0)"

text \<open>TypeScript marks synthetic symbol names with the byte 0xfe, which no UTF-8 text has.\<close>

definition internalSymbolNamePrefix :: char where
  "internalSymbolNamePrefix = CHR 0xFE"

definition wireSymbolName :: "string \<Rightarrow> string" where
  "wireSymbolName name =
     (let name = (case name of
            c # rest \<Rightarrow> if c = internalSymbolNamePrefix then ''__'' @ rest else name
          | [] \<Rightarrow> name)
      in if \<not> ValidString name then ToValidUTF8 name else name)"

section \<open>Locations and declarations\<close>

record packedLocationState =
  ls_path :: u64
  ls_start :: u64
  ls_valid :: bool

definition noLocationState :: packedLocationState where
  "noLocationState = \<lparr>ls_path = 0, ls_start = 0, ls_valid = False\<rparr>"

definition internalLocation :: "Location \<Rightarrow> packedLocationState \<Rightarrow> ('a, packedLocationState) action" where
  "internalLocation location state =
     bindA (pw_intern (loc_Path location)) (\<lambda>path.
       let start = uint64 (loc_StartByte location) in
       bindA (if ls_valid state \<and> ls_path state = path
              then run_all [pw_u64 1, pw_signed (start - ls_start state)]
              else run_all [pw_u64 (push_bit 1 path), pw_u64 start]) (\<lambda>_.
       bindA (pw_u64 (uint64 (loc_EndByte location - loc_StartByte location))) (\<lambda>_.
       ret \<lparr>ls_path = path, ls_start = start, ls_valid = True\<rparr>)))"

definition internalLocations :: "Location list \<Rightarrow> ('a, unit) action" where
  "internalLocations locations =
     bindA (pw_count locations) (\<lambda>_. bindA (loopA internalLocation locations noLocationState) (\<lambda>_. ret ()))"

definition internalDeclaration :: "Declaration \<Rightarrow> packedLocationState \<Rightarrow> ('a, packedLocationState) action" where
  "internalDeclaration declaration state =
     bindA (pw_text (wireSymbolName (decl_Name declaration))) (\<lambda>_.
     bindA (pw_text (decl_Kind declaration)) (\<lambda>_. internalLocation (decl_Location declaration) state))"

definition internalDeclarations :: "Declaration list \<Rightarrow> ('a, unit) action" where
  "internalDeclarations declarations =
     bindA (pw_count declarations) (\<lambda>_.
       bindA (loopA internalDeclaration declarations noLocationState) (\<lambda>_. ret ()))"

definition internalTypeDescriptor :: "TypeDescriptor \<Rightarrow> ('a, unit) action" where
  "internalTypeDescriptor descriptor =
     run_all [pw_text (td_Text descriptor), pw_text (td_OriginModule descriptor),
       internalDeclarations (td_AliasDeclarations descriptor)]"

definition internalOwner :: "DeclarationOwner \<Rightarrow> packedLocationState \<Rightarrow> ('a, packedLocationState) action" where
  "internalOwner owner state =
     bindA (pw_text (own_Symbol owner)) (\<lambda>_.
     bindA (pw_text (wireSymbolName (own_Name owner))) (\<lambda>_.
     bindA (pw_text (own_Kind owner)) (\<lambda>_. internalLocation (own_Location owner) state)))"

definition internalResolvedDeclaration :: "ResolvedDeclaration \<Rightarrow> ('a, unit) action" where
  "internalResolvedDeclaration declaration =
     bindA (run_all [pw_text (rd_Symbol declaration), pw_text (wireSymbolName (rd_Name declaration)),
       pw_text (rd_Kind declaration)]) (\<lambda>_.
     bindA (internalLocation (rd_Location declaration) noLocationState) (\<lambda>state.
     bindA (pw_count (rd_Owners declaration)) (\<lambda>_.
     bindA (loopA internalOwner (rd_Owners declaration) state) (\<lambda>_.
     run_all [pw_text (rd_QualifiedName declaration), pw_text (rd_OriginModule declaration),
       pw_text (rd_SourceFile declaration), pw_u64 (boolBit (rd_StandardLibrary declaration))]))))"

definition internalSourceCall :: "SourceCall \<Rightarrow> ('a, unit) action" where
  "internalSourceCall call =
     bindA (internalLocation (sc_Location call) noLocationState) (\<lambda>state.
     bindA (internalLocation (sc_Callee call) state) (\<lambda>_.
     run_all [internalLocations (sc_Arguments call), pw_text (sc_Target call)]))"

section \<open>The dictionary\<close>

definition string_bytes :: "string \<Rightarrow> bytes" where
  "string_bytes s = map (\<lambda>c. of_nat (code_of c)) s"

text \<open>\<^verbatim>\<open>hex.Decode\<close> reads both cases.\<close>

definition fromHexChar :: "char \<Rightarrow> u8 option" where
  "fromHexChar c =
     (if in_range 48 57 c then Some (of_nat (code_of c - 48))
      else if in_range 97 102 c then Some (of_nat (code_of c - 87))
      else if in_range 65 70 c then Some (of_nat (code_of c - 55))
      else None)"

fun hex_Decode :: "string \<Rightarrow> bytes option" where
  "hex_Decode [] = Some []"
| "hex_Decode [c] = None"
| "hex_Decode (a # b # rest) =
     (case (fromHexChar a, fromHexChar b, hex_Decode rest) of
        (Some hi, Some lo, Some bs) \<Rightarrow> Some ((push_bit 4 hi OR lo) # bs)
      | _ \<Rightarrow> None)"

definition hashedPrefix :: string where
  "hashedPrefix = ''symbol:h:''"

definition packedHashedSymbol :: "string \<Rightarrow> bytes option" where
  "packedHashedSymbol symbol =
     (if take (length hashedPrefix) symbol \<noteq> hashedPrefix \<or> length symbol \<noteq> length hashedPrefix + 24 then None
      else hex_Decode (drop (length hashedPrefix) symbol))"

fun commonStringPrefix :: "string \<Rightarrow> string \<Rightarrow> nat" where
  "commonStringPrefix (a # left) (b # right) = (if a = b then Suc (commonStringPrefix left right) else 0)"
| "commonStringPrefix _ _ = 0"

definition dictionaryEntry :: "string \<Rightarrow> string \<Rightarrow> ('a, string) action" where
  "dictionaryEntry value previous =
     (case packedHashedSymbol value of
        Some digest \<Rightarrow> bindA (run_all [pw_u64 1, pw_raw digest]) (\<lambda>_. ret previous)
      | None \<Rightarrow>
          let prefix = commonStringPrefix previous value; suffix = drop prefix value in
          bindA (run_all [pw_u64 0, pw_u64 (of_nat prefix), pw_u64 (of_nat (length suffix)),
            pw_raw (string_bytes suffix)]) (\<lambda>_. ret value))"

definition appendPackedDictionary :: "stringTableV3 \<Rightarrow> ('a, unit) action" where
  "appendPackedDictionary dict =
     bindA (pw_u64 (of_nat (length (st_values dict)))) (\<lambda>_.
     bindA (loopA dictionaryEntry (st_values dict) []) (\<lambda>_. ret ()))"

end
