(* ===== verification/Symbol_Store.thy ===== *)
theory Symbol_Store
  imports Facts
begin

text \<open>
  The chunked symbol table (\<^verbatim>\<open>symbol_store.go\<close>) and the symbol interner with its handle sets
  (\<^verbatim>\<open>symbol_intern.go\<close>). A store is a list of chunks in symbol order; a patch rebuilds the chunks it
  touches and shares the others. A Go map of patches is an association list and a Go set a list;
  loops over them only insert into maps. Handles are natural numbers: the code's \<^verbatim>\<open>int32\<close> counter
  numbers the distinct identities of one process.
\<close>

section \<open>The interner\<close>

record symbolInterner =
  in_handles :: "SymbolID \<rightharpoonup> nat"
  in_count :: nat

definition newSymbolInterner :: symbolInterner where
  "newSymbolInterner = \<lparr>in_handles = Map.empty, in_count = 0\<rparr>"

definition in_handle :: "SymbolID \<Rightarrow> symbolInterner \<Rightarrow> symbolInterner \<times> nat" where
  "in_handle sid n =
     (case in_handles n sid of
        Some handle \<Rightarrow> (n, handle)
      | None \<Rightarrow> (n\<lparr>in_handles := (in_handles n)(sid \<mapsto> in_count n), in_count := in_count n + 1\<rparr>, in_count n))"

definition in_lookup :: "symbolInterner \<Rightarrow> SymbolID \<Rightarrow> nat option" where
  "in_lookup n sid = in_handles n sid"

record symbolHandleSet =
  hs_members :: "bool list"
  hs_count :: nat

text \<open>The scratch slice is given at its full capacity.\<close>

definition newSymbolHandleSet :: "symbolInterner \<Rightarrow> bool list \<Rightarrow> symbolHandleSet" where
  "newSymbolHandleSet n scratch =
     \<lparr>hs_members = replicate (if length scratch < in_count n then in_count n else length scratch) False,
      hs_count = 0\<rparr>"

definition hs_add :: "symbolInterner \<Rightarrow> nat \<Rightarrow> symbolHandleSet \<Rightarrow> symbolHandleSet \<times> bool" where
  "hs_add n handle s =
     (let members = (if length (hs_members s) \<le> handle
            then let next = max 64 (length (hs_members s) * 2);
                     next = max next (max (in_count n) (handle + 1))
                 in hs_members s @ replicate (next - length (hs_members s)) False
            else hs_members s)
      in if members ! handle then (s\<lparr>hs_members := members\<rparr>, False)
         else (\<lparr>hs_members = members[handle := True], hs_count = hs_count s + 1\<rparr>, True))"

definition hs_addID :: "SymbolID \<Rightarrow> symbolInterner \<times> symbolHandleSet \<Rightarrow> (symbolInterner \<times> symbolHandleSet) \<times> bool" where
  "hs_addID sid = (\<lambda>(n, s).
     let (n, handle) = in_handle sid n;
         (s, fresh) = hs_add n handle s
     in ((n, s), fresh))"

definition hs_contains :: "symbolHandleSet \<Rightarrow> nat \<Rightarrow> bool" where
  "hs_contains s handle \<longleftrightarrow> handle < length (hs_members s) \<and> hs_members s ! handle"

definition hs_containsID :: "symbolInterner \<Rightarrow> symbolHandleSet \<Rightarrow> SymbolID \<Rightarrow> bool" where
  "hs_containsID n s sid = (case in_lookup n sid of None \<Rightarrow> False | Some handle \<Rightarrow> hs_contains s handle)"

record changedSymbolSet =
  cs_set :: symbolHandleSet
  cs_ids :: "SymbolID list"

definition newChangedSymbolSet :: "symbolInterner \<Rightarrow> bool list \<Rightarrow> changedSymbolSet" where
  "newChangedSymbolSet n scratch = \<lparr>cs_set = newSymbolHandleSet n scratch, cs_ids = []\<rparr>"

definition cs_add :: "SymbolID \<Rightarrow> symbolInterner \<times> changedSymbolSet \<Rightarrow> symbolInterner \<times> changedSymbolSet" where
  "cs_add sid = (\<lambda>(n, c).
     let ((n, s), fresh) = hs_addID sid (n, cs_set c)
     in (n, c\<lparr>cs_set := s, cs_ids := (if fresh then cs_ids c @ [sid] else cs_ids c)\<rparr>))"

text \<open>The set of identities a handle set stands for.\<close>

definition interner_ok :: "symbolInterner \<Rightarrow> bool" where
  "interner_ok n \<longleftrightarrow> inj_on (in_handles n) (dom (in_handles n)) \<and> finite (dom (in_handles n)) \<and>
     (\<forall>sid h. in_handles n sid = Some h \<longrightarrow> h < in_count n) \<and>
     card (dom (in_handles n)) = in_count n"

definition hs_ids :: "symbolInterner \<Rightarrow> symbolHandleSet \<Rightarrow> SymbolID set" where
  "hs_ids n s = {sid. hs_containsID n s sid}"

definition hs_ok :: "symbolInterner \<Rightarrow> symbolHandleSet \<Rightarrow> bool" where
  "hs_ok n s \<longleftrightarrow> interner_ok n \<and> (\<forall>h. hs_contains s h \<longrightarrow> h < in_count n) \<and>
     hs_count s = card (hs_ids n s)"

lemma interner_ok_new: "interner_ok newSymbolInterner"
  by (simp add: interner_ok_def newSymbolInterner_def)

lemma in_handle_ok:
  assumes "interner_ok n" and "in_handle sid n = (n', h)"
  shows "interner_ok n'" and "in_handles n' sid = Some h" and "h < in_count n'"
    and "in_handles n \<subseteq>\<^sub>m in_handles n'"
    and "sid' \<noteq> sid \<Longrightarrow> in_handles n' sid' = in_handles n sid'"
    and "in_handles n sid = None \<Longrightarrow> h = in_count n"
proof -
  have "interner_ok n' \<and> in_handles n' sid = Some h \<and> h < in_count n' \<and> in_handles n \<subseteq>\<^sub>m in_handles n' \<and>
    (\<forall>sid'. sid' \<noteq> sid \<longrightarrow> in_handles n' sid' = in_handles n sid') \<and> (in_handles n sid = None \<longrightarrow> h = in_count n)"
  proof (cases "in_handles n sid")
    case None
    then have n': "in_handles n' = (in_handles n)(sid \<mapsto> in_count n)" "in_count n' = Suc (in_count n)" "h = in_count n"
      using assms(2) by (auto simp: in_handle_def)
    have lt: "in_handles n x = Some h \<Longrightarrow> h < in_count n" for x h
      using assms(1) by (simp add: interner_ok_def)
    have "inj_on (in_handles n') (dom (in_handles n'))"
      using assms(1) None lt unfolding n'(1) interner_ok_def inj_on_def
      by (auto simp: dom_def) (metis less_irrefl option.inject)+
    moreover have "card (dom (in_handles n')) = in_count n'"
      using assms(1) None by (simp add: n' interner_ok_def domIff)
    ultimately show ?thesis
      using assms(1) None lt by (auto simp: interner_ok_def n' map_le_def less_SucI)
  next
    case (Some k)
    then show ?thesis using assms by (auto simp: in_handle_def interner_ok_def)
  qed
  then show "interner_ok n'" "in_handles n' sid = Some h" "h < in_count n'" "in_handles n \<subseteq>\<^sub>m in_handles n'"
    "sid' \<noteq> sid \<Longrightarrow> in_handles n' sid' = in_handles n sid'" "in_handles n sid = None \<Longrightarrow> h = in_count n"
    by auto
qed

lemma hs_add_contains:
  assumes "hs_add n h s = (s', fresh)"
  shows "hs_contains s' k \<longleftrightarrow> k = h \<or> hs_contains s k"
    and "fresh \<longleftrightarrow> \<not> hs_contains s h" and "hs_count s' = (if fresh then hs_count s + 1 else hs_count s)"
  using assms
  by (auto simp: hs_add_def hs_contains_def Let_def nth_append nth_list_update split: if_splits)

lemma hs_addID_ids:
  assumes "hs_ok n s" and "hs_addID sid (n, s) = ((n', s'), fresh)"
  shows "hs_ok n' s'" and "hs_ids n' s' = insert sid (hs_ids n s)" and "fresh \<longleftrightarrow> sid \<notin> hs_ids n s"
proof -
  obtain h where h: "in_handle sid n = (n', h)" and add: "hs_add n' h s = (s', fresh)"
    using assms(2) by (auto simp: hs_addID_def Let_def split: prod.splits)
  have ok: "interner_ok n" using assms(1) by (simp add: hs_ok_def)
  note H = in_handle_ok[OF ok h]
  note A = hs_add_contains[OF add]
  have old: "hs_containsID n' s sid' \<longleftrightarrow> hs_containsID n s sid'" if "sid' \<noteq> sid" for sid'
    using H(5)[OF that] by (simp add: hs_containsID_def in_lookup_def)
  have self: "hs_contains s h \<longleftrightarrow> hs_containsID n s sid"
  proof (cases "in_handles n sid")
    case None
    then have "\<not> hs_contains s h" using H(6) assms(1) by (auto simp: hs_ok_def)
    then show ?thesis using None by (simp add: hs_containsID_def in_lookup_def)
  next
    case (Some k)
    then show ?thesis using h by (simp add: in_handle_def hs_containsID_def in_lookup_def)
  qed
  have inj: "in_handles n' sid' = Some h \<Longrightarrow> sid' = sid" for sid'
    using H(1,2) unfolding interner_ok_def inj_on_def by (metis domI)
  have ids: "hs_containsID n' s' sid' \<longleftrightarrow> sid' = sid \<or> hs_containsID n s sid'" for sid'
  proof (cases "sid' = sid")
    case True
    then show ?thesis using A(1) H(2) by (simp add: hs_containsID_def in_lookup_def)
  next
    case False
    then have "hs_containsID n' s' sid' \<longleftrightarrow> hs_containsID n' s sid'"
      using A(1) inj[of sid'] by (auto simp: hs_containsID_def in_lookup_def split: option.split)
    then show ?thesis using old[OF False] False by simp
  qed
  show set: "hs_ids n' s' = insert sid (hs_ids n s)" using ids by (auto simp: hs_ids_def)
  show fresh: "fresh \<longleftrightarrow> sid \<notin> hs_ids n s" using A(2) self by (simp add: hs_ids_def)
  have "finite (hs_ids n s)"
    using ok by (rule_tac finite_subset[of _ "dom (in_handles n)"])
      (auto simp: hs_ids_def hs_containsID_def in_lookup_def interner_ok_def split: option.splits)
  then have "hs_count s' = card (hs_ids n' s')"
    using A(3) fresh set assms(1) by (simp add: hs_ok_def card_insert_if)
  moreover have "in_count n \<le> in_count n'"
    using h by (auto simp: in_handle_def split: option.splits)
  ultimately show "hs_ok n' s'"
    using H(1,3) A(1) assms(1) by (auto simp: hs_ok_def intro: order_less_le_trans)
qed

lemma hs_new_ok:
  assumes "interner_ok n"
  shows "hs_ok n (newSymbolHandleSet n scratch) \<and> hs_ids n (newSymbolHandleSet n scratch) = {}"
proof -
  have none: "\<not> hs_contains (newSymbolHandleSet n scratch) h" for h
    by (auto simp: hs_contains_def newSymbolHandleSet_def)
  then have "hs_ids n (newSymbolHandleSet n scratch) = {}"
    by (auto simp: hs_ids_def hs_containsID_def split: option.splits)
  then show ?thesis using assms none by (simp add: hs_ok_def newSymbolHandleSet_def)
qed

section \<open>The chunked store\<close>

definition symbolFactChunkSize :: nat where "symbolFactChunkSize = 256"

record symbolFactStore =
  sfs_chunks :: "SymbolFact list list"
  sfs_length :: nat

text \<open>The slices of at most \<^verbatim>\<open>symbolFactChunkSize\<close> rows.\<close>

function chunked :: "'a list \<Rightarrow> 'a list list" where
  "chunked xs = (if xs = [] then [] else take symbolFactChunkSize xs # chunked (drop symbolFactChunkSize xs))"
  by pat_completeness auto
termination
  by (relation "measure length") (auto simp: symbolFactChunkSize_def)

declare chunked.simps [simp del]

definition newSymbolFactStore :: "SymbolFact list \<Rightarrow> symbolFactStore" where
  "newSymbolFactStore facts =
     (if facts = [] then \<lparr>sfs_chunks = [], sfs_length = 0\<rparr>
      else \<lparr>sfs_chunks = chunked facts, sfs_length = length facts\<rparr>)"

definition sfs_Len :: "symbolFactStore option \<Rightarrow> nat" where
  "sfs_Len s = (case s of None \<Rightarrow> 0 | Some s \<Rightarrow> sfs_length s)"

text \<open>The rows in the order \<^verbatim>\<open>Range\<close> visits them.\<close>

definition sfs_Range :: "symbolFactStore option \<Rightarrow> SymbolFact list" where
  "sfs_Range s = (case s of None \<Rightarrow> [] | Some s \<Rightarrow> concat (sfs_chunks s))"

definition chunkFor :: "symbolFactStore \<Rightarrow> SymbolID \<Rightarrow> nat" where
  "chunkFor s sid =
     (let index = sort_Search (length (sfs_chunks s)) (\<lambda>index. sid \<le> sym_ID (last (sfs_chunks s ! index)))
      in if index = length (sfs_chunks s) then length (sfs_chunks s) - 1 else index)"

definition sfs_Get :: "symbolFactStore option \<Rightarrow> SymbolID \<Rightarrow> SymbolFact option" where
  "sfs_Get s sid =
     (case s of None \<Rightarrow> None
      | Some s \<Rightarrow>
          if sfs_chunks s = [] then None
          else lookup_key sym_ID (sfs_chunks s ! chunkFor s sid) sid)"

text \<open>The rows of an affected chunk after the patch.\<close>

definition patchedRows ::
    "(SymbolID \<rightharpoonup> SymbolFact) \<Rightarrow> SymbolID set \<Rightarrow> SymbolFact list \<Rightarrow> SymbolFact list" where
  "patchedRows patches removed chunk =
     map (\<lambda>fact. case patches (sym_ID fact) of None \<Rightarrow> fact | Some replacement \<Rightarrow> replacement)
       (filter (\<lambda>fact. sym_ID fact \<notin> removed) chunk)"

definition additionsFor ::
    "symbolFactStore \<Rightarrow> (SymbolID \<times> SymbolFact) list \<Rightarrow> nat \<Rightarrow> SymbolFact list" where
  "additionsFor s patches chunkIndex =
     map snd (filter (\<lambda>(sid, _). sfs_Get (Some s) sid = None \<and> chunkFor s sid = chunkIndex) patches)"

definition patchChunk ::
    "symbolFactStore \<Rightarrow> (SymbolID \<times> SymbolFact) list \<Rightarrow> SymbolID list \<Rightarrow> nat set \<Rightarrow> nat \<Rightarrow> SymbolFact list list" where
  "patchChunk s patches removed affected chunkIndex =
     (let chunk = sfs_chunks s ! chunkIndex in
      if chunkIndex \<notin> affected then [chunk]
      else chunked (sort_key sym_ID
        (patchedRows (map_of patches) (set removed) chunk @ additionsFor s patches chunkIndex)))"

definition sfs_Patch ::
    "symbolFactStore option \<Rightarrow> symbolInterner \<Rightarrow> symbolHandleSet \<Rightarrow> (SymbolID \<times> SymbolFact) list \<Rightarrow>
     SymbolID list \<Rightarrow> symbolFactStore \<times> nat \<times> SymbolID list \<times> bool" where
  "sfs_Patch s n present patches removalCandidates =
     (if s = None \<or> sfs_chunks (the s) = [] then
        let store = newSymbolFactStore (sort_key sym_ID (map snd patches))
        in (store, 0, [], sfs_Len (Some store) = hs_count present)
      else
        let st = the s;
            removed = filter (\<lambda>sid. \<not> hs_containsID n present sid \<and> sfs_Get (Some st) sid \<noteq> None)
              removalCandidates;
            affected = set (map (\<lambda>(sid, _). chunkFor st sid) patches) \<union> set (map (chunkFor st) removed);
            pieces = map (patchChunk st patches removed affected) [0..<length (sfs_chunks st)];
            chunks = concat pieces;
            next = \<lparr>sfs_chunks = chunks, sfs_length = sum_list (map length chunks)\<rparr>;
            shared = length (filter (\<lambda>i. i \<notin> affected) [0..<length (sfs_chunks st)])
        in (next, shared, removed, sfs_Len (Some next) = hs_count present))"

definition sfs_PatchExisting ::
    "symbolFactStore option \<Rightarrow> (SymbolID \<times> SymbolFact) list \<Rightarrow> (symbolFactStore \<times> nat) option" where
  "sfs_PatchExisting s patches =
     (case s of None \<Rightarrow> None
      | Some st \<Rightarrow>
          if \<exists>(sid, _) \<in> set patches. sfs_Get s sid = None then None
          else
            let affected = set (map (\<lambda>(sid, _). chunkFor st sid) patches);
                chunks = map (\<lambda>i. if i \<notin> affected then sfs_chunks st ! i
                    else patchedRows (map_of patches) {} (sfs_chunks st ! i)) [0..<length (sfs_chunks st)]
            in Some (\<lparr>sfs_chunks = chunks, sfs_length = sfs_length st\<rparr>,
                 length (filter (\<lambda>i. i \<notin> affected) [0..<length (sfs_chunks st)])))"

section \<open>The store is a map\<close>

definition sfs_ok :: "symbolFactStore \<Rightarrow> bool" where
  "sfs_ok s \<longleftrightarrow> strict_keys sym_ID (concat (sfs_chunks s)) \<and> [] \<notin> set (sfs_chunks s) \<and>
     sfs_length s = length (concat (sfs_chunks s))"

definition sfs_map :: "symbolFactStore \<Rightarrow> SymbolID \<rightharpoonup> SymbolFact" where
  "sfs_map s = map_by sym_ID (concat (sfs_chunks s))"

lemma concat_chunked [simp]: "concat (chunked xs) = xs"
  by (induction xs rule: chunked.induct) (subst chunked.simps, simp)

lemma chunked_nonempty: "[] \<notin> set (chunked xs)"
  by (induction xs rule: chunked.induct)
     (subst chunked.simps, auto simp: symbolFactChunkSize_def take_eq_Nil)

lemma newSymbolFactStore_ok:
  "strict_keys sym_ID facts \<Longrightarrow> sfs_ok (newSymbolFactStore facts) \<and> sfs_map (newSymbolFactStore facts) = map_by sym_ID facts"
  using chunked_nonempty by (auto simp: newSymbolFactStore_def sfs_ok_def sfs_map_def)

lemma strict_keys_concat_nth:
  assumes "strict_keys key (concat cs)" and "i < j" and "j < length cs"
    and "x \<in> set (cs ! i)" and "y \<in> set (cs ! j)"
  shows "key x < key y"
proof -
  have "cs = take j cs @ cs ! j # drop (Suc j) cs" using assms(3) by (simp add: id_take_nth_drop)
  then have split: "concat cs = concat (take j cs) @ cs ! j @ concat (drop (Suc j) cs)"
    by (metis concat.simps(2) concat_append)
  have "cs ! i \<in> set (take j cs)"
    using assms(2,3) by (metis (no_types, lifting) in_set_conv_nth length_take min.absorb4 nth_take order.strict_trans)
  then have "x \<in> set (concat (take j cs))" using assms(4) by auto
  then show ?thesis using assms(1,5) unfolding split by (simp add: strict_keys_append) blast
qed

lemma in_concat_nth: "x \<in> set (concat cs) \<Longrightarrow> \<exists>j < length cs. x \<in> set (cs ! j)"
  by (auto simp: in_set_conv_nth) (metis in_set_conv_nth nth_mem)

lemma strict_keys_chunk: "strict_keys key (concat cs) \<Longrightarrow> c \<in> set cs \<Longrightarrow> strict_keys key c"
  by (induction cs) (auto simp: strict_keys_append)

text \<open>Where an identity belongs: monotone in the identity, and right for the rows that are there.\<close>

lemma chunkFor_spec:
  assumes "sfs_ok s" and "sfs_chunks s \<noteq> []"
  shows "chunkFor s sid < length (sfs_chunks s)"
    and "i < chunkFor s sid \<Longrightarrow> sym_ID (last (sfs_chunks s ! i)) < sid"
    and "i < length (sfs_chunks s) \<Longrightarrow> chunkFor s sid \<le> i \<Longrightarrow> Suc (chunkFor s sid) < length (sfs_chunks s) \<Longrightarrow>
      sid \<le> sym_ID (last (sfs_chunks s ! i))"
proof -
  let ?n = "length (sfs_chunks s)"
  let ?f = "\<lambda>i. sid \<le> sym_ID (last (sfs_chunks s ! i))"
  have mono: "?f b" if "a \<le> b" "b < ?n" "?f a" for a b
  proof (cases "a = b")
    case False
    have "sfs_chunks s ! a \<in> set (sfs_chunks s)" "sfs_chunks s ! b \<in> set (sfs_chunks s)" using that by auto
    then have "sfs_chunks s ! a \<noteq> []" "sfs_chunks s ! b \<noteq> []"
      using assms(1) by (auto simp: sfs_ok_def)
    then have "sym_ID (last (sfs_chunks s ! a)) < sym_ID (last (sfs_chunks s ! b))"
      using assms(1) that False by (intro strict_keys_concat_nth[of sym_ID "sfs_chunks s" a b]) (auto simp: sfs_ok_def)
    then show ?thesis using that by auto
  qed (use that in simp)
  note spec = sort_Search_spec[of ?n ?f, OF mono]
  let ?k = "sort_Search ?n ?f"
  have k: "?k \<le> ?n" by (rule spec(1)) auto
  have lt: "i < ?k \<Longrightarrow> \<not> ?f i" for i by (rule spec(2)) auto
  have ge: "?k \<le> i \<Longrightarrow> i < ?n \<Longrightarrow> ?f i" for i by (rule spec(3)) auto
  show "chunkFor s sid < ?n" using k assms(2) by (auto simp: chunkFor_def Let_def)
  show "i < chunkFor s sid \<Longrightarrow> sym_ID (last (sfs_chunks s ! i)) < sid"
    using lt[of i] k by (auto simp: chunkFor_def Let_def not_le split: if_splits)
  show "i < ?n \<Longrightarrow> chunkFor s sid \<le> i \<Longrightarrow> Suc (chunkFor s sid) < ?n \<Longrightarrow> sid \<le> sym_ID (last (sfs_chunks s ! i))"
    using ge[of i] by (auto simp: chunkFor_def Let_def split: if_splits)
qed

lemma chunkFor_mono:
  assumes "sfs_ok s" and "sfs_chunks s \<noteq> []" and "a \<le> b"
  shows "chunkFor s a \<le> chunkFor s b"
proof (rule ccontr)
  assume "\<not> chunkFor s a \<le> chunkFor s b"
  then have lt: "chunkFor s b < chunkFor s a" by simp
  then have "Suc (chunkFor s b) < length (sfs_chunks s)" using chunkFor_spec(1)[OF assms(1,2), of a] by linarith
  then have "b \<le> sym_ID (last (sfs_chunks s ! chunkFor s b))"
    using chunkFor_spec(1)[OF assms(1,2), of b] chunkFor_spec(3)[OF assms(1,2), of "chunkFor s b" b] by simp
  also have "\<dots> < a" using chunkFor_spec(2)[OF assms(1,2) lt] .
  finally show False using assms(3) by simp
qed

lemma chunkFor_row:
  assumes "sfs_ok s" and "i < length (sfs_chunks s)" and "r \<in> set (sfs_chunks s ! i)"
  shows "chunkFor s (sym_ID r) = i"
proof -
  have ne: "sfs_chunks s \<noteq> []" using assms(2) by auto
  have strict: "strict_keys sym_ID (concat (sfs_chunks s))" using assms(1) by (simp add: sfs_ok_def)
  have chunk: "sfs_chunks s ! j \<noteq> []" if "j < length (sfs_chunks s)" for j
    using assms(1) that by (metis nth_mem sfs_ok_def)
  have "strict_keys sym_ID (sfs_chunks s ! i)" using strict_keys_chunk[OF strict] assms(2) by simp
  then have last: "sym_ID r \<le> sym_ID (last (sfs_chunks s ! i))"
    using assms(3) chunk[OF assms(2)]
    by (cases "sfs_chunks s ! i" rule: rev_cases) (auto simp: strict_keys_append order_less_imp_le)
  let ?c = "chunkFor s (sym_ID r)"
  have "\<not> i < ?c" using chunkFor_spec(2)[OF assms(1) ne, of i "sym_ID r"] last by auto
  moreover have "\<not> ?c < i"
  proof
    assume lt: "?c < i"
    then have "sym_ID r \<le> sym_ID (last (sfs_chunks s ! ?c))"
      using chunkFor_spec(3)[OF assms(1) ne, of ?c "sym_ID r"] assms(2) by simp
    moreover have "sym_ID (last (sfs_chunks s ! ?c)) < sym_ID r"
      using lt assms(2,3) chunk[of ?c] by (intro strict_keys_concat_nth[OF strict lt]) auto
    ultimately show False by simp
  qed
  ultimately show ?thesis by simp
qed

lemma sfs_Get_map:
  assumes "sfs_ok s"
  shows "sfs_Get (Some s) sid = sfs_map s sid"
proof (cases "sfs_chunks s = []")
  case True
  then show ?thesis by (simp add: sfs_Get_def sfs_map_def)
next
  case False
  have strict: "strict_keys sym_ID (concat (sfs_chunks s))" using assms by (simp add: sfs_ok_def)
  let ?c = "chunkFor s sid"
  have c: "?c < length (sfs_chunks s)" using chunkFor_spec(1)[OF assms False] .
  have chunk: "strict_keys sym_ID (sfs_chunks s ! ?c)" using strict_keys_chunk[OF strict] c by simp
  have "lookup_key sym_ID (sfs_chunks s ! ?c) sid = Some f \<longleftrightarrow> sfs_map s sid = Some f" for f
  proof -
    have "f \<in> set (sfs_chunks s ! ?c) \<and> sym_ID f = sid \<longleftrightarrow> f \<in> set (concat (sfs_chunks s)) \<and> sym_ID f = sid"
    proof
      assume "f \<in> set (sfs_chunks s ! ?c) \<and> sym_ID f = sid"
      then show "f \<in> set (concat (sfs_chunks s)) \<and> sym_ID f = sid" using c by auto
    next
      assume f: "f \<in> set (concat (sfs_chunks s)) \<and> sym_ID f = sid"
      then obtain j where "j < length (sfs_chunks s)" "f \<in> set (sfs_chunks s ! j)"
        using in_concat_nth[of f "sfs_chunks s"] by auto
      moreover from this have "?c = j" using f chunkFor_row[OF assms] by blast
      ultimately show "f \<in> set (sfs_chunks s ! ?c) \<and> sym_ID f = sid" using f by simp
    qed
    then show ?thesis
      using chunk strict by (simp add: lookup_key_eq_Some_iff sfs_map_def map_by_eq_Some_iff)
  qed
  then have "lookup_key sym_ID (sfs_chunks s ! ?c) sid = sfs_map s sid" by (metis option.exhaust)
  then show ?thesis using False by (simp add: sfs_Get_def)
qed

section \<open>Patching\<close>

text \<open>Pieces whose rows belong to ascending chunks are in order together.\<close>

lemma strict_keys_pieces:
  assumes "\<And>i. i < n \<Longrightarrow> strict_keys key (concat (f i))"
    and "\<And>i x. i < n \<Longrightarrow> x \<in> set (concat (f i)) \<Longrightarrow> place (key x) = i"
    and "\<And>a b. a \<le> b \<Longrightarrow> place a \<le> (place b :: nat)"
  shows "strict_keys key (concat (concat (map f [0..<n])))"
  using assms(1,2)
proof (induction n)
  case (Suc n)
  have "key x < key y" if x: "x \<in> set (concat (concat (map f [0..<n])))" and y: "y \<in> set (concat (f n))" for x y
  proof (rule ccontr)
    assume "\<not> key x < key y"
    then have "place (key y) \<le> place (key x)" using assms(3) by simp
    moreover obtain i where "i < n" "x \<in> set (concat (f i))" using x by force
    then have "place (key x) < n" using Suc.prems(2)[of i x] by simp
    ultimately show False using Suc.prems(2)[of n y] y by simp
  qed
  moreover have "strict_keys key (concat (concat (map f [0..<n])))" using Suc by simp
  ultimately show ?case using Suc.prems(1)[of n] by (simp add: strict_keys_append)
qed simp

definition patches_ok :: "(SymbolID \<times> SymbolFact) list \<Rightarrow> bool" where
  "patches_ok patches \<longleftrightarrow> distinct (map fst patches) \<and> (\<forall>(sid, fact) \<in> set patches. sym_ID fact = sid)"

lemma patches_ok_map_of:
  "patches_ok patches \<Longrightarrow> map_of patches sid = Some f \<longleftrightarrow> (sid, f) \<in> set patches"
  "patches_ok patches \<Longrightarrow> map_of patches sid = Some f \<Longrightarrow> sym_ID f = sid"
  by (auto simp: patches_ok_def map_of_eq_Some_iff)

text \<open>The rows of a rebuilt chunk, as a set.\<close>

lemma rebuilt_rows:
  assumes "sfs_ok s" and "patches_ok patches" and "i < length (sfs_chunks s)"
  shows "f \<in> set (patchedRows (map_of patches) R (sfs_chunks s ! i) @ additionsFor s patches i) \<longleftrightarrow>
    chunkFor s (sym_ID f) = i \<and>
    (if sfs_map s (sym_ID f) = None then map_of patches (sym_ID f) = Some f
     else sym_ID f \<notin> R \<and>
       (case map_of patches (sym_ID f) of None \<Rightarrow> sfs_map s (sym_ID f) = Some f | Some g \<Rightarrow> f = g))"
proof -
  have strict: "strict_keys sym_ID (concat (sfs_chunks s))" using assms(1) by (simp add: sfs_ok_def)
  have row: "g \<in> set (sfs_chunks s ! i) \<longleftrightarrow> sfs_map s (sym_ID g) = Some g \<and> chunkFor s (sym_ID g) = i" for g
  proof
    assume g: "g \<in> set (sfs_chunks s ! i)"
    then have "g \<in> set (concat (sfs_chunks s))" using assms(3) by auto
    then show "sfs_map s (sym_ID g) = Some g \<and> chunkFor s (sym_ID g) = i"
      using chunkFor_row[OF assms(1,3) g] strict by (simp add: sfs_map_def map_by_eq_Some_iff)
  next
    assume g: "sfs_map s (sym_ID g) = Some g \<and> chunkFor s (sym_ID g) = i"
    then obtain j where "j < length (sfs_chunks s)" "g \<in> set (sfs_chunks s ! j)"
      using strict in_concat_nth[of g "sfs_chunks s"] by (auto simp: sfs_map_def map_by_eq_Some_iff)
    then show "g \<in> set (sfs_chunks s ! i)" using chunkFor_row[OF assms(1)] g by auto
  qed
  have ids: "sfs_map s sid = Some g \<Longrightarrow> sym_ID g = sid" for sid g
    by (auto simp: sfs_map_def dest: map_by_SomeD)
  have adds: "f \<in> set (additionsFor s patches i) \<longleftrightarrow>
      map_of patches (sym_ID f) = Some f \<and> sfs_map s (sym_ID f) = None \<and> chunkFor s (sym_ID f) = i"
    using assms(2) by (auto simp: additionsFor_def sfs_Get_map[OF assms(1)] patches_ok_map_of(1)[OF assms(2)]
      patches_ok_def image_iff)
  have "f \<in> set (patchedRows (map_of patches) R (sfs_chunks s ! i)) \<longleftrightarrow>
      (\<exists>g. sfs_map s (sym_ID g) = Some g \<and> chunkFor s (sym_ID g) = i \<and> sym_ID g \<notin> R \<and>
        f = (case map_of patches (sym_ID g) of None \<Rightarrow> g | Some h \<Rightarrow> h))"
    by (auto simp: patchedRows_def row)
  also have "\<dots> \<longleftrightarrow> chunkFor s (sym_ID f) = i \<and> sfs_map s (sym_ID f) \<noteq> None \<and> sym_ID f \<notin> R \<and>
      (case map_of patches (sym_ID f) of None \<Rightarrow> sfs_map s (sym_ID f) = Some f | Some g \<Rightarrow> f = g)"
    (is "?L \<longleftrightarrow> ?R")
  proof
    assume ?L
    then obtain g where g: "sfs_map s (sym_ID g) = Some g" "chunkFor s (sym_ID g) = i" "sym_ID g \<notin> R"
      "f = (case map_of patches (sym_ID g) of None \<Rightarrow> g | Some h \<Rightarrow> h)" by blast
    show ?R
    proof (cases "map_of patches (sym_ID g)")
      case None
      then have "f = g" using g(4) by simp
      then show ?thesis using g(1-3) None by simp
    next
      case (Some h)
      then have "f = h" using g(4) by simp
      then have "sym_ID f = sym_ID g" using patches_ok_map_of(2)[OF assms(2) Some] by simp
      then show ?thesis using g(1-3) Some \<open>f = h\<close> by simp
    qed
  next
    assume R: ?R
    then obtain g where g: "sfs_map s (sym_ID f) = Some g" by blast
    then have same: "sym_ID g = sym_ID f" by (rule ids)
    have "f = (case map_of patches (sym_ID g) of None \<Rightarrow> g | Some h \<Rightarrow> h)"
    proof (cases "map_of patches (sym_ID f)")
      case None
      then have "sfs_map s (sym_ID f) = Some f" using R by simp
      then show ?thesis using g None by simp
    next
      case (Some h)
      then show ?thesis using R unfolding same by simp
    qed
    moreover have "sfs_map s (sym_ID g) = Some g \<and> chunkFor s (sym_ID g) = i \<and> sym_ID g \<notin> R"
      using g R unfolding same by blast
    ultimately show ?L by blast
  qed
  finally show ?thesis using adds by auto
qed

lemma strict_keys_sort_key: "distinct (map key xs) \<Longrightarrow> strict_keys key (sort_key key xs)"
  by (simp add: strict_keys_def strict_sorted_iff distinct_map)

lemma patchedRows_ids:
  assumes "patches_ok patches"
  shows "map sym_ID (patchedRows (map_of patches) R chunk) = map sym_ID (filter (\<lambda>f. sym_ID f \<notin> R) chunk)"
  using patches_ok_map_of(2)[OF assms] by (auto simp: patchedRows_def split: option.split)

lemma rebuilt_distinct:
  assumes "sfs_ok s" and "patches_ok patches" and "i < length (sfs_chunks s)"
  shows "distinct (map sym_ID (patchedRows (map_of patches) R (sfs_chunks s ! i) @ additionsFor s patches i))"
proof -
  have "strict_keys sym_ID (sfs_chunks s ! i)"
    using assms(1,3) by (auto simp: sfs_ok_def intro: strict_keys_chunk[of _ "sfs_chunks s", OF _ nth_mem])
  then have "distinct (map sym_ID (filter (\<lambda>f. sym_ID f \<notin> R) (sfs_chunks s ! i)))"
    using strict_keys_distinct distinct_map_filter by blast
  moreover have adds: "map sym_ID (additionsFor s patches i) =
      map fst (filter (\<lambda>(sid, _). sfs_Get (Some s) sid = None \<and> chunkFor s sid = i) patches)"
    unfolding additionsFor_def map_map using assms(2) by (intro map_cong refl) (force simp: patches_ok_def)
  moreover have "distinct (map fst (filter (\<lambda>(sid, _). sfs_Get (Some s) sid = None \<and> chunkFor s sid = i) patches))"
    using assms(2) by (simp add: patches_ok_def distinct_map_filter)
  moreover have "sym_ID f \<notin> set (map sym_ID (additionsFor s patches i))" if "f \<in> set (sfs_chunks s ! i)" for f
  proof -
    have "f \<in> set (concat (sfs_chunks s))" using that assms(3) by auto
    then have "sfs_map s (sym_ID f) = Some f"
      using assms(1) by (simp add: sfs_map_def sfs_ok_def map_by_eq_Some_iff)
    then show ?thesis unfolding adds by (auto simp: sfs_Get_map[OF assms(1)])
  qed
  ultimately show ?thesis
    unfolding map_append patchedRows_ids[OF assms(2)] by auto
qed

text \<open>What a patched store maps an identity to.\<close>

definition patchedMap ::
    "symbolFactStore \<Rightarrow> (SymbolID \<times> SymbolFact) list \<Rightarrow> SymbolID set \<Rightarrow> SymbolID \<rightharpoonup> SymbolFact" where
  "patchedMap s patches R sid =
     (if sid \<in> R then None
      else case map_of patches sid of Some f \<Rightarrow> Some f | None \<Rightarrow> sfs_map s sid)"

lemma patchChunk_rows:
  assumes "sfs_ok s" and "patches_ok patches" and "i < length (sfs_chunks s)"
    and "\<forall>sid \<in> set removed. sfs_map s sid \<noteq> None"
    and "affected = set (map (\<lambda>(sid, _). chunkFor s sid) patches) \<union> set (map (chunkFor s) removed)"
  shows "strict_keys sym_ID (concat (patchChunk s patches removed affected i))"
    and "f \<in> set (concat (patchChunk s patches removed affected i)) \<longleftrightarrow>
      chunkFor s (sym_ID f) = i \<and> patchedMap s patches (set removed) (sym_ID f) = Some f"
proof -
  let ?rows = "\<lambda>R. patchedRows (map_of patches) R (sfs_chunks s ! i) @ additionsFor s patches i"
  have base: "strict_keys sym_ID (sfs_chunks s ! i)"
    using assms(1,3) by (auto simp: sfs_ok_def intro: strict_keys_chunk[of _ "sfs_chunks s", OF _ nth_mem])
  have rebuilt: "f \<in> set (?rows (set removed)) \<longleftrightarrow>
      chunkFor s (sym_ID f) = i \<and> patchedMap s patches (set removed) (sym_ID f) = Some f"
    unfolding rebuilt_rows[OF assms(1-3)] patchedMap_def using assms(4)
    by (auto split: option.splits)
  have same: "?rows (set removed) = sfs_chunks s ! i" if "i \<notin> affected"
  proof -
    have no_patch: "chunkFor s sid \<noteq> i" if "map_of patches sid \<noteq> None" for sid
      using that \<open>i \<notin> affected\<close> assms(5) by (force dest: map_of_SomeD)
    have no_removal: "chunkFor s sid \<noteq> i" if "sid \<in> set removed" for sid
      using that \<open>i \<notin> affected\<close> assms(5) by auto
    have row: "map_of patches (sym_ID g) = None \<and> sym_ID g \<notin> set removed" if "g \<in> set (sfs_chunks s ! i)" for g
      using no_patch[of "sym_ID g"] no_removal[of "sym_ID g"] chunkFor_row[OF assms(1,3) that] by blast
    have "additionsFor s patches i = []"
      using no_patch assms(2) by (force simp: additionsFor_def filter_empty_conv patches_ok_def)
    moreover have "filter (\<lambda>f. sym_ID f \<notin> set removed) (sfs_chunks s ! i) = sfs_chunks s ! i"
      using row by (simp add: filter_id_conv)
    ultimately show ?thesis using row by (simp add: patchedRows_def map_idI)
  qed
  have strict: "strict_keys sym_ID (sort_key sym_ID (?rows (set removed)))"
    using rebuilt_distinct[OF assms(1-3)] by (rule strict_keys_sort_key)
  show "strict_keys sym_ID (concat (patchChunk s patches removed affected i))"
    using base strict by (simp add: patchChunk_def Let_def)
  show "f \<in> set (concat (patchChunk s patches removed affected i)) \<longleftrightarrow>
      chunkFor s (sym_ID f) = i \<and> patchedMap s patches (set removed) (sym_ID f) = Some f"
  proof (cases "i \<in> affected")
    case True
    then show ?thesis using rebuilt by (simp add: patchChunk_def Let_def del: set_concat)
  next
    case False
    then show ?thesis using rebuilt unfolding same[OF False] by (simp add: patchChunk_def Let_def)
  qed
qed

lemma sfs_map_eq_Some: "sfs_ok s \<Longrightarrow> sfs_map s sid = Some f \<longleftrightarrow> f \<in> set (concat (sfs_chunks s)) \<and> sym_ID f = sid"
  by (simp add: sfs_map_def sfs_ok_def map_by_eq_Some_iff del: set_concat)

lemma patchedMap_id:
  "patches_ok patches \<Longrightarrow> patchedMap s patches R sid = Some f \<Longrightarrow> sym_ID f = sid"
  using patches_ok_map_of(2) by (auto simp: patchedMap_def sfs_map_def split: if_splits option.splits dest: map_by_SomeD)

lemma sfs_Patch_nonempty:
  assumes "sfs_ok st" and "sfs_chunks st \<noteq> []" and "patches_ok patches"
    and "sfs_Patch (Some st) n present patches candidates = (next', shared, removed, complete)"
  shows "sfs_ok next' \<and> sfs_map next' = patchedMap st patches (set removed)"
proof -
  let ?m = "length (sfs_chunks st)"
  define affected where "affected = set (map (\<lambda>(sid, _). chunkFor st sid) patches) \<union> set (map (chunkFor st) removed)"
  let ?piece = "patchChunk st patches removed affected"
  have removed: "removed = filter (\<lambda>sid. \<not> hs_containsID n present sid \<and> sfs_Get (Some st) sid \<noteq> None) candidates"
    and chunks: "sfs_chunks next' = concat (map ?piece [0..<?m])"
    and len: "sfs_length next' = sum_list (map length (sfs_chunks next'))"
    using assms(2,4) by (auto simp: sfs_Patch_def Let_def affected_def)
  have exist: "\<forall>sid \<in> set removed. sfs_map st sid \<noteq> None"
    by (auto simp: removed sfs_Get_map[OF assms(1)])
  note rows = patchChunk_rows[OF assms(1,3) _ exist affected_def]
  have strict: "strict_keys sym_ID (concat (sfs_chunks next'))"
    unfolding chunks
    by (rule strict_keys_pieces[where place = "chunkFor st"])
       (use rows chunkFor_mono[OF assms(1,2)] in \<open>auto simp del: set_concat\<close>)
  have ne: "[] \<notin> set (sfs_chunks next')"
    using assms(1) chunked_nonempty
    by (auto simp: chunks patchChunk_def Let_def sfs_ok_def split: if_splits) (metis nth_mem)
  have ok: "sfs_ok next'"
    using strict ne len by (simp add: sfs_ok_def length_concat)
  have "f \<in> set (concat (sfs_chunks next')) \<longleftrightarrow> patchedMap st patches (set removed) (sym_ID f) = Some f" for f
  proof -
    have "f \<in> set (concat (sfs_chunks next')) \<longleftrightarrow> (\<exists>i < ?m. f \<in> set (concat (?piece i)))"
      by (auto simp: chunks)
    then show ?thesis using rows(2) chunkFor_spec(1)[OF assms(1,2), of "sym_ID f"] by blast
  qed
  then have "sfs_map next' sid = Some f \<longleftrightarrow> patchedMap st patches (set removed) sid = Some f" for sid f
    using sfs_map_eq_Some[OF ok, of sid f] patchedMap_id[OF assms(3), of st "set removed" sid f] by blast
  then have "sfs_map next' = patchedMap st patches (set removed)"
    by (intro ext) (metis option.exhaust)
  then show ?thesis using ok by simp
qed

lemma patches_store:
  assumes "patches_ok patches"
  shows "sfs_ok (newSymbolFactStore (sort_key sym_ID (map snd patches))) \<and>
    sfs_map (newSymbolFactStore (sort_key sym_ID (map snd patches))) = map_of patches"
proof -
  have ids: "map sym_ID (map snd patches) = map fst patches"
    using assms by (auto simp: patches_ok_def)
  have dist: "distinct (map sym_ID (map snd patches))" using assms unfolding ids patches_ok_def by blast
  note strict = strict_keys_sort_key[OF dist]
  have "map_by sym_ID (sort_key sym_ID (map snd patches)) = map_by sym_ID (map snd patches)"
    using strict_keys_distinct[OF strict] dist by (intro map_by_perm) auto
  also have "map_by sym_ID (map snd patches) = map_of patches"
    using assms unfolding map_by_def map_map by (intro arg_cong[of _ _ map_of] map_idI) (auto simp: patches_ok_def)
  finally show ?thesis using newSymbolFactStore_ok[OF strict] by simp
qed

section \<open>Properties\<close>

text \<open>
  C32. The chunked store answers lookups as the map of its rows, and patching it is a map update: the
  removed identities are those candidates that are stored and no longer present, every other patched
  identity has its patch, and all other rows are as before; the rebuilt chunks keep the global order.
\<close>

theorem sfs_Patch_map:
  assumes "sfs_ok st" and "patches_ok patches"
    and "sfs_Patch (Some st) n present patches candidates = (next', shared, removed, complete)"
  shows "sfs_ok next' \<and>
    set removed = {sid \<in> set candidates. \<not> hs_containsID n present sid \<and> sfs_map st sid \<noteq> None} \<and>
    sfs_Get (Some next') sid =
      (if sid \<in> set removed then None
       else case map_of patches sid of Some f \<Rightarrow> Some f | None \<Rightarrow> sfs_Get (Some st) sid) \<and>
    (complete \<longleftrightarrow> length (concat (sfs_chunks next')) = hs_count present)"
proof (cases "sfs_chunks st = []")
  case True
  then have empty: "sfs_map st = Map.empty" by (simp add: sfs_map_def)
  then show ?thesis
    using True assms(3) patches_store[OF assms(2)]
    by (auto simp: sfs_Patch_def Let_def sfs_Get_map[OF assms(1)] sfs_Get_map sfs_Len_def sfs_ok_def
      split: option.split)
next
  case False
  note patch = sfs_Patch_nonempty[OF assms(1) False assms(2,3)]
  have "set removed = {sid \<in> set candidates. \<not> hs_containsID n present sid \<and> sfs_map st sid \<noteq> None}"
    "complete \<longleftrightarrow> sfs_length next' = hs_count present"
    using False assms(3) by (auto simp: sfs_Patch_def Let_def sfs_Get_map[OF assms(1)] sfs_Len_def)
  then show ?thesis
    using patch by (auto simp: sfs_Get_map patchedMap_def sfs_Get_map[OF assms(1)] sfs_ok_def split: option.split)
qed

theorem sfs_Patch_map_witness:
  "\<exists>st next' shared removed complete.
     sfs_map st ''a'' \<noteq> None \<and> sfs_map st ''c'' \<noteq> None \<and>
     sfs_Patch (Some st) newSymbolInterner (newSymbolHandleSet newSymbolInterner [])
       [(''b'', \<lparr>sym_ID = ''b'', sym_AliasTarget = [], sym_Declarations = [], sym_References = []\<rparr>)] [''c''] =
       (next', shared, removed, complete) \<and> sfs_ok next' \<and> set removed = {''c''} \<and>
     map_option sym_ID (sfs_Get (Some next') ''b'') = Some ''b'' \<and>
     sfs_Get (Some next') ''c'' = None \<and> sfs_Get (Some next') ''a'' = sfs_Get (Some st) ''a''"
proof -
  let ?row = "\<lambda>sid. \<lparr>sym_ID = sid, sym_AliasTarget = [], sym_Declarations = [], sym_References = []\<rparr>"
  let ?st = "newSymbolFactStore [?row ''a'', ?row ''c'']"
  let ?patches = "[(''b'', ?row ''b'')]"
  let ?run = "sfs_Patch (Some ?st) newSymbolInterner (newSymbolHandleSet newSymbolInterner []) ?patches [''c'']"
  have st: "sfs_ok ?st" "sfs_map ?st = map_by sym_ID [?row ''a'', ?row ''c'']"
    using newSymbolFactStore_ok[of "[?row ''a'', ?row ''c'']"] by (auto simp: strict_keys_Cons)
  have ok: "patches_ok ?patches" by (simp add: patches_ok_def)
  obtain next' shared removed complete where run: "?run = (next', shared, removed, complete)"
    by (cases ?run) auto
  note patch = sfs_Patch_map[OF st(1) ok run]
  have "set removed = {''c''}"
    using patch[of "''a''"] st(2) by (auto simp: hs_containsID_def in_lookup_def newSymbolInterner_def)
  moreover from this have "map_option sym_ID (sfs_Get (Some next') ''b'') = Some ''b''"
    "sfs_Get (Some next') ''c'' = None" "sfs_Get (Some next') ''a'' = sfs_Get (Some ?st) ''a''"
    using patch[of "''b''"] patch[of "''c''"] patch[of "''a''"] by simp_all
  moreover have "sfs_map ?st ''a'' \<noteq> None" "sfs_map ?st ''c'' \<noteq> None" by (simp_all add: st(2))
  ultimately show ?thesis using patch run by blast
qed

text \<open>
  \<^verbatim>\<open>PatchExisting\<close> refuses exactly the patches that name an identity the store does not hold;
  otherwise it replaces the named rows in place and keeps all others.
\<close>

theorem sfs_PatchExisting_map:
  assumes "sfs_ok st" and "patches_ok patches"
  shows "(case sfs_PatchExisting (Some st) patches of
      None \<Rightarrow> \<exists>sid \<in> fst ` set patches. sfs_map st sid = None
    | Some (next', shared) \<Rightarrow> fst ` set patches \<subseteq> dom (sfs_map st) \<and> sfs_ok next' \<and>
        sfs_map next' = sfs_map st ++ map_of patches)"
proof -
  let ?m = "length (sfs_chunks st)"
  define affected where "affected = set (map (\<lambda>(sid, _). chunkFor st sid) patches)"
  define chunks where "chunks = map (\<lambda>i. if i \<notin> affected then sfs_chunks st ! i
      else patchedRows (map_of patches) {} (sfs_chunks st ! i)) [0..<?m]"
  have same: "chunks = map (patchedRows (map_of patches) {}) (sfs_chunks st)"
  proof (rule nth_equalityI)
    fix i assume "i < length chunks"
    then have i: "i < ?m" by (simp add: chunks_def)
    have "patchedRows (map_of patches) {} (sfs_chunks st ! i) = sfs_chunks st ! i" if "i \<notin> affected"
    proof -
      have "map_of patches (sym_ID g) = None" if "g \<in> set (sfs_chunks st ! i)" for g
        using chunkFor_row[OF assms(1) i that] \<open>i \<notin> affected\<close>
        by (cases "map_of patches (sym_ID g)") (force simp: affected_def dest: map_of_SomeD)+
      then show ?thesis by (simp add: patchedRows_def map_idI)
    qed
    then show "chunks ! i = map (patchedRows (map_of patches) {}) (sfs_chunks st) ! i"
      using i by (simp add: chunks_def)
  qed (simp add: chunks_def)
  have ids: "map sym_ID (concat chunks) = map sym_ID (concat (sfs_chunks st))"
    unfolding same map_concat map_map comp_def patchedRows_ids[OF assms(2)] by simp
  let ?next = "\<lparr>sfs_chunks = chunks, sfs_length = sfs_length st\<rparr>"
  have ok: "sfs_ok ?next"
    using assms(1) ids map_eq_imp_length_eq[OF ids] unfolding sfs_ok_def strict_keys_def
    by (simp add: ids) (auto simp: same patchedRows_def)
  have "map_of (map (\<lambda>x. (sym_ID x, x)) (concat (map (patchedRows (map_of patches) {}) cs))) sid =
      (case map_of (map (\<lambda>x. (sym_ID x, x)) (concat cs)) sid of None \<Rightarrow> None
       | Some f \<Rightarrow> (case map_of patches sid of None \<Rightarrow> Some f | Some g \<Rightarrow> Some g))" for cs sid
  proof -
    have "map_of (map (\<lambda>x. (sym_ID x, x)) (patchedRows (map_of patches) {} xs)) sid =
      (case map_of (map (\<lambda>x. (sym_ID x, x)) xs) sid of None \<Rightarrow> None
       | Some f \<Rightarrow> (case map_of patches sid of None \<Rightarrow> Some f | Some g \<Rightarrow> Some g))" for xs
      using patches_ok_map_of(2)[OF assms(2)]
      by (induction xs) (auto simp: patchedRows_def split: option.splits)
    then show ?thesis
      by (induction cs) (auto simp: map_add_def split: option.splits)
  qed
  then have "sfs_map ?next sid = (case sfs_map st sid of None \<Rightarrow> None
       | Some f \<Rightarrow> (case map_of patches sid of None \<Rightarrow> Some f | Some g \<Rightarrow> Some g))" for sid
    by (simp add: sfs_map_def map_by_def same)
  moreover have "map_of patches sid = None"
    if "fst ` set patches \<subseteq> dom (sfs_map st)" and "sfs_map st sid = None" for sid
    using that by (metis domIff map_of_eq_None_iff subsetD)
  ultimately have "sfs_map ?next = sfs_map st ++ map_of patches" if "fst ` set patches \<subseteq> dom (sfs_map st)"
    using that by (auto simp: fun_eq_iff map_add_def split: option.split)
  moreover have "sfs_PatchExisting (Some st) patches =
      (if \<exists>sid \<in> fst ` set patches. sfs_map st sid = None then None
       else Some (?next, length (filter (\<lambda>i. i \<notin> affected) [0..<?m])))"
    unfolding sfs_PatchExisting_def chunks_def affected_def
    by (simp add: Let_def sfs_Get_map[OF assms(1)] case_prod_beta)
  ultimately show ?thesis using ok by (auto split: option.split)
qed

theorem sfs_PatchExisting_map_witness:
  "\<exists>next' shared. sfs_PatchExisting
     (Some (newSymbolFactStore [\<lparr>sym_ID = ''a'', sym_AliasTarget = [], sym_Declarations = [], sym_References = []\<rparr>]))
     [(''a'', \<lparr>sym_ID = ''a'', sym_AliasTarget = ''b'', sym_Declarations = [], sym_References = []\<rparr>)] =
       Some (next', shared) \<and> sfs_ok next' \<and> map_option sym_AliasTarget (sfs_map next' ''a'') = Some ''b''"
proof -
  let ?st = "newSymbolFactStore [\<lparr>sym_ID = ''a'', sym_AliasTarget = [], sym_Declarations = [], sym_References = []\<rparr>]"
  let ?patches = "[(''a'', \<lparr>sym_ID = ''a'', sym_AliasTarget = ''b'', sym_Declarations = [], sym_References = []\<rparr>)]"
  have st: "sfs_ok ?st" "sfs_map ?st ''a'' \<noteq> None"
    using newSymbolFactStore_ok[of "[\<lparr>sym_ID = ''a'', sym_AliasTarget = [], sym_Declarations = [], sym_References = []\<rparr>]"]
    by auto
  have ok: "patches_ok ?patches" by (simp add: patches_ok_def)
  note patch = sfs_PatchExisting_map[OF st(1) ok]
  show ?thesis
  proof (cases "sfs_PatchExisting (Some ?st) ?patches")
    case None
    then show ?thesis using patch st(2) by simp
  next
    case (Some r)
    then show ?thesis using patch by (cases r) (auto simp: map_add_def)
  qed
qed

text \<open>
  A handle set over the interner is a set of identities: adding one interns it if needed, reports
  whether it was new, makes it a member and changes no other membership, whatever growth of the backing
  slice it causes; the count is the size of the set, and handles of known identities never change.
\<close>

theorem hs_addID_set:
  assumes "hs_ok n s" and "hs_addID sid (n, s) = ((n', s'), fresh)"
  shows "hs_ok n' s' \<and> (\<forall>x. hs_containsID n' s' x \<longleftrightarrow> x = sid \<or> hs_containsID n s x) \<and>
    (fresh \<longleftrightarrow> \<not> hs_containsID n s sid) \<and> hs_count s' = card {x. hs_containsID n' s' x} \<and>
    in_handles n \<subseteq>\<^sub>m in_handles n'"
proof -
  obtain h where "in_handle sid n = (n', h)" using assms(2) by (auto simp: hs_addID_def Let_def split: prod.splits)
  then have "in_handles n \<subseteq>\<^sub>m in_handles n'" using in_handle_ok(4) assms(1) by (auto simp: hs_ok_def)
  moreover have "hs_containsID n' s' x \<longleftrightarrow> x = sid \<or> hs_containsID n s x" for x
    using hs_addID_ids(2)[OF assms] by (auto simp: hs_ids_def set_eq_iff)
  ultimately show ?thesis
    using hs_addID_ids(1,3)[OF assms] by (simp add: hs_ok_def hs_ids_def)
qed

theorem hs_addID_set_witness:
  "\<exists>n' s'. hs_ok newSymbolInterner (newSymbolHandleSet newSymbolInterner []) \<and>
     hs_addID ''a'' (newSymbolInterner, newSymbolHandleSet newSymbolInterner []) = ((n', s'), True) \<and>
     hs_containsID n' s' ''a'' \<and> \<not> hs_containsID n' s' ''b'' \<and> length (hs_members s') = 64"
proof -
  let ?s = "newSymbolHandleSet newSymbolInterner []"
  have ok: "hs_ok newSymbolInterner ?s" using hs_new_ok[OF interner_ok_new] by simp
  have none: "\<not> hs_containsID newSymbolInterner ?s x" for x
    by (simp add: hs_containsID_def in_lookup_def newSymbolInterner_def)
  obtain n' s' fresh where run: "hs_addID ''a'' (newSymbolInterner, ?s) = ((n', s'), fresh)"
    by (metis prod.collapse)
  then have "length (hs_members s') = 64"
    by (auto simp: hs_addID_def in_handle_def newSymbolInterner_def newSymbolHandleSet_def hs_add_def Let_def)
  then show ?thesis using hs_addID_set[OF ok run] none run ok by auto
qed

end
