(* ===== verification/Fact_Table.thy ===== *)
theory Fact_Table
  imports Demand_Store Symbol_Store
begin

text \<open>
  The private fact table of the producer (\<^verbatim>\<open>FactTable\<close> of \<^verbatim>\<open>model.go\<close>, with the symbol accessors of
  \<^verbatim>\<open>symbol_store.go\<close>), the transport manifests of \<^verbatim>\<open>transport_manifest.go\<close>, and the lookups the wire
  layer does on a table. The table keeps its source identities as digests: the field is what
  \<^verbatim>\<open>wireSourceDigests\<close> returns, whose lazy hashing of hand-built source bodies is not modelled. A Go set
  of paths or symbols is a list.
\<close>

record factTableTransportChanges =
  tc_baseGeneration :: u64
  tc_baseStateID :: u64
  tc_sourcePaths :: "string list"
  tc_entityPaths :: "string list"
  tc_filePaths :: "string list"
  tc_symbolIDs :: "SymbolID list"
  tc_exact :: bool

record FactTable =
  ft_Schema :: u64
  ft_Generation :: u64
  ft_ProjectID :: string
  ft_Entities :: "EntityFact list"
  ft_Symbols :: "SymbolFact list"
  ft_Files :: "FileFact list"
  ft_stateID :: u64
  ft_transport :: "factTableTransportChanges option"
  ft_symbols :: "symbolFactStore option"
  ft_sourceDigests :: "SourceDigest list"
  ft_pathSymbols :: "(string \<rightharpoonup> SymbolID list) option"
  ft_entityRuns :: "EntityFact list list option"

definition TypeFactsSchemaVersion :: u64 where "TypeFactsSchemaVersion = 1"

definition zeroFactTable :: FactTable where
  "zeroFactTable = \<lparr>ft_Schema = 0, ft_Generation = 0, ft_ProjectID = [], ft_Entities = [], ft_Symbols = [],
     ft_Files = [], ft_stateID = 0, ft_transport = None, ft_symbols = None, ft_sourceDigests = [],
     ft_pathSymbols = None, ft_entityRuns = None\<rparr>"

section \<open>Accessors\<close>

definition wireEntityCount :: "FactTable \<Rightarrow> nat" where
  "wireEntityCount t =
     (case ft_entityRuns t of
        None \<Rightarrow> length (ft_Entities t)
      | Some runs \<Rightarrow> sum_list (map length runs))"

text \<open>The rows in the order \<^verbatim>\<open>rangeWireEntities\<close> visits them.\<close>

definition wireEntities :: "FactTable \<Rightarrow> EntityFact list" where
  "wireEntities t = (case ft_entityRuns t of None \<Rightarrow> ft_Entities t | Some runs \<Rightarrow> concat runs)"

definition symbolFactsCount :: "FactTable \<Rightarrow> nat" where
  "symbolFactsCount t =
     (case ft_symbols t of Some s \<Rightarrow> sfs_Len (Some s) | None \<Rightarrow> length (ft_Symbols t))"

definition symbolFacts :: "FactTable \<Rightarrow> SymbolFact list" where
  "symbolFacts t = (case ft_symbols t of Some s \<Rightarrow> sfs_Range (Some s) | None \<Rightarrow> ft_Symbols t)"

definition canonicalSymbolFact :: "SymbolFact list \<Rightarrow> SymbolID \<Rightarrow> SymbolFact option" where
  "canonicalSymbolFact facts sid = lookup_key sym_ID facts sid"

definition canonicalSymbol :: "FactTable \<Rightarrow> SymbolID \<Rightarrow> SymbolFact option" where
  "canonicalSymbol t sid =
     (case ft_symbols t of Some s \<Rightarrow> sfs_Get (Some s) sid | None \<Rightarrow> canonicalSymbolFact (ft_Symbols t) sid)"

definition canonicalFileFact :: "FileFact list \<Rightarrow> string \<Rightarrow> FileFact option" where
  "canonicalFileFact facts path = lookup_key file_Path facts path"

definition entity_path :: "EntityFact \<Rightarrow> string" where
  "entity_path e = loc_Path (ent_Location e)"

text \<open>The end of the run that starts at an index, and the run itself.\<close>

fun entityRunEnd :: "string \<Rightarrow> EntityFact list \<Rightarrow> nat \<Rightarrow> nat" where
  "entityRunEnd path [] end' = end'"
| "entityRunEnd path (e # es) end' = (if entity_path e = path then entityRunEnd path es (Suc end') else end')"

definition entityPathEnd :: "EntityFact list \<Rightarrow> nat \<Rightarrow> nat" where
  "entityPathEnd entities start =
     entityRunEnd (entity_path (entities ! start)) (drop (Suc start) entities) (Suc start)"

definition canonicalEntityPath :: "EntityFact list \<Rightarrow> string \<Rightarrow> EntityFact list" where
  "canonicalEntityPath entities path =
     (let start = sort_Search (length entities) (\<lambda>index. path \<le> entity_path (entities ! index)) in
      if start = length entities \<or> entity_path (entities ! start) \<noteq> path then []
      else take (entityPathEnd entities start - start) (drop start entities))"

text \<open>The path of a run: the code reads its first row, so runs are not empty.\<close>

definition run_path :: "EntityFact list \<Rightarrow> string" where
  "run_path run = entity_path (hd run)"

definition wireTransitionEntityPath :: "FactTable \<Rightarrow> string \<Rightarrow> EntityFact list" where
  "wireTransitionEntityPath t path =
     (case ft_entityRuns t of
        None \<Rightarrow> canonicalEntityPath (ft_Entities t) path
      | Some runs \<Rightarrow> (case lookup_key run_path runs path of None \<Rightarrow> [] | Some run \<Rightarrow> run))"

definition wireTransitionSource :: "SourceDigest list \<Rightarrow> string \<Rightarrow> SourceDigest option" where
  "wireTransitionSource sources path = lookup_key dig_Path sources path"

section \<open>Manifests\<close>

definition cleanPaths :: "string list \<Rightarrow> string list" where
  "cleanPaths paths = fold (\<lambda>path acc. List.insert (Clean path) acc) paths []"

definition rustOwnedTransportManifest ::
    "FactTable option \<Rightarrow> string list option \<Rightarrow> factTableTransportChanges option" where
  "rustOwnedTransportManifest previous changedPaths =
     (case (previous, changedPaths) of
        (Some t, Some paths) \<Rightarrow>
          Some \<lparr>tc_baseGeneration = ft_Generation t, tc_baseStateID = ft_stateID t,
            tc_sourcePaths = cleanPaths paths, tc_entityPaths = cleanPaths paths,
            tc_filePaths = cleanPaths paths, tc_symbolIDs = [], tc_exact = True\<rparr>
      | _ \<Rightarrow> None)"

section \<open>Canonical tables\<close>

definition runs_ok :: "EntityFact list list \<Rightarrow> bool" where
  "runs_ok runs \<longleftrightarrow> strict_keys run_path runs \<and>
     (\<forall>run \<in> set runs. run \<noteq> [] \<and> (\<forall>e \<in> set run. entity_path e = run_path run))"

definition table_canonical :: "FactTable \<Rightarrow> bool" where
  "table_canonical t \<longleftrightarrow> strict_keys dig_Path (ft_sourceDigests t) \<and> strict_keys file_Path (ft_Files t) \<and>
     (case ft_entityRuns t of None \<Rightarrow> sorted (map entity_path (ft_Entities t)) | Some runs \<Rightarrow> runs_ok runs) \<and>
     (case ft_symbols t of None \<Rightarrow> strict_keys sym_ID (ft_Symbols t) | Some s \<Rightarrow> sfs_ok s)"

lemma set_cleanPaths [simp]: "set (cleanPaths paths) = Clean ` set paths"
proof -
  have "set (fold (\<lambda>path acc. List.insert (Clean path) acc) paths acc) = Clean ` set paths \<union> set acc" for acc
    by (induction paths arbitrary: acc) auto
  then show ?thesis by (simp add: cleanPaths_def)
qed

lemma canonicalSymbol_map:
  "table_canonical t \<Longrightarrow> canonicalSymbol t sid = map_by sym_ID (symbolFacts t) sid"
  by (auto simp: table_canonical_def canonicalSymbol_def symbolFacts_def canonicalSymbolFact_def
      lookup_key_map_by sfs_Get_map sfs_map_def sfs_Range_def split: option.splits)

lemma strict_symbolFacts: "table_canonical t \<Longrightarrow> strict_keys sym_ID (symbolFacts t)"
  by (auto simp: table_canonical_def symbolFacts_def sfs_ok_def sfs_Range_def split: option.splits)

lemma symbolFactsCount_length: "table_canonical t \<Longrightarrow> symbolFactsCount t = length (symbolFacts t)"
  by (auto simp: table_canonical_def symbolFactsCount_def symbolFacts_def sfs_Len_def sfs_Range_def
      sfs_ok_def split: option.splits)

text \<open>The rows of one path in a table whose rows are in path order.\<close>

lemma entityRunEnd_takeWhile:
  "entityRunEnd path es n = n + length (takeWhile (\<lambda>e. entity_path e = path) es)"
  by (induction es arbitrary: n) auto

lemma sorted_split_path:
  assumes "sorted (map entity_path es)"
  shows "takeWhile (\<lambda>e. entity_path e = p) (dropWhile (\<lambda>e. entity_path e < p) es) =
    filter (\<lambda>e. entity_path e = p) es"
  using assms
proof (induction es)
  case (Cons e es)
  show ?case
  proof (cases "entity_path e < p")
    case True
    then show ?thesis using Cons by auto
  next
    case False
    have "takeWhile (\<lambda>e. entity_path e = p) es = filter (\<lambda>e. entity_path e = p) es"
      if "\<forall>x \<in> set es. p \<le> entity_path x" "sorted (map entity_path es)" for es
      using that
    proof (induction es)
      case (Cons x es)
      show ?case
      proof (cases "entity_path x = p")
        case False
        then have "p < entity_path x" using Cons.prems(1) by (simp add: order_less_le)
        then have "filter (\<lambda>e. entity_path e = p) es = []" using Cons.prems(2) by (force simp: filter_empty_conv)
        then show ?thesis using False by simp
      qed (use Cons in simp)
    qed simp
    moreover have "\<forall>x \<in> set (e # es). p \<le> entity_path x" using Cons.prems False by auto
    ultimately have "takeWhile (\<lambda>e. entity_path e = p) (e # es) = filter (\<lambda>e. entity_path e = p) (e # es)"
      using Cons.prems by blast
    then show ?thesis using False by (simp only: dropWhile.simps if_False)
  qed
qed simp

lemma sort_Search_sorted:
  assumes "sorted (map key xs)"
  shows "drop (sort_Search (length xs) (\<lambda>i. k \<le> key (xs ! i))) xs = dropWhile (\<lambda>x. key x < k) xs"
    and "sort_Search (length xs) (\<lambda>i. k \<le> key (xs ! i)) \<le> length xs"
proof -
  let ?f = "\<lambda>i. k \<le> key (xs ! i)"
  let ?n = "sort_Search (length xs) ?f"
  have mono: "a \<le> b \<Longrightarrow> b < length xs \<Longrightarrow> ?f a \<Longrightarrow> ?f b" for a b
    using sorted_nth_mono[OF assms, of a b] by simp
  have n: "?n \<le> length xs" by (rule sort_Search_spec(1)) (rule mono)
  then show "?n \<le> length xs" .
  have below: "key (xs ! i) < k" if "i < ?n" for i
    using sort_Search_spec(2)[of "length xs" ?f i, OF mono] that by (auto simp: not_le)
  have "takeWhile (\<lambda>x. key x < k) xs = take ?n xs"
  proof (rule takeWhile_eq_take_P_nth)
    show "key (xs ! i) < k" if "i < ?n" "i < length xs" for i using below that by blast
    show "?n < length xs \<Longrightarrow> \<not> key (xs ! ?n) < k"
      using sort_Search_spec(3)[of "length xs" ?f ?n, OF mono] by (auto simp: not_less)
  qed
  then show "drop ?n xs = dropWhile (\<lambda>x. key x < k) xs"
    by (metis dropWhile_eq_drop length_take min.absorb2 n)
qed

lemma canonicalEntityPath_filter:
  assumes "sorted (map entity_path es)"
  shows "canonicalEntityPath es path = filter (\<lambda>e. entity_path e = path) es"
proof -
  let ?n = "sort_Search (length es) (\<lambda>i. path \<le> entity_path (es ! i))"
  note search = sort_Search_sorted[OF assms, of path]
  show ?thesis
  proof (cases "?n = length es \<or> entity_path (es ! ?n) \<noteq> path")
    case True
    then have "takeWhile (\<lambda>e. entity_path e = path) (drop ?n es) = []"
    proof
      assume "entity_path (es ! ?n) \<noteq> path"
      then show ?thesis
        using search(2) by (cases "?n < length es") (auto simp flip: Cons_nth_drop_Suc)
    qed simp
    then show ?thesis
      using True sorted_split_path[OF assms, of path] search(1) by (simp add: canonicalEntityPath_def Let_def)
  next
    case False
    then have n: "?n < length es" "entity_path (es ! ?n) = path" using search(2) by auto
    then have "drop ?n es = es ! ?n # drop (Suc ?n) es" by (simp add: Cons_nth_drop_Suc)
    then have "takeWhile (\<lambda>e. entity_path e = path) (drop ?n es) =
        take (Suc (length (takeWhile (\<lambda>e. entity_path e = path) (drop (Suc ?n) es)))) (drop ?n es)"
      using n(2) takeWhile_eq_take[of "\<lambda>e. entity_path e = path" "drop (Suc ?n) es"] by simp
    then show ?thesis
      using False sorted_split_path[OF assms, of path] search(1) n
      by (simp add: canonicalEntityPath_def Let_def entityPathEnd_def entityRunEnd_takeWhile)
  qed
qed

lemma wireTransitionEntityPath_filter:
  assumes "table_canonical t"
  shows "wireTransitionEntityPath t path = filter (\<lambda>e. entity_path e = path) (wireEntities t)"
proof (cases "ft_entityRuns t")
  case None
  then show ?thesis
    using assms by (simp add: table_canonical_def wireTransitionEntityPath_def wireEntities_def canonicalEntityPath_filter)
next
  case (Some runs)
  then have ok: "strict_keys run_path runs" "\<forall>run \<in> set runs. \<forall>e \<in> set run. entity_path e = run_path run"
    using assms by (auto simp: table_canonical_def runs_ok_def)
  have "filter (\<lambda>e. entity_path e = path) (concat runs) = (case map_by run_path runs path of None \<Rightarrow> [] | Some r \<Rightarrow> r)"
    using ok
  proof (induction runs)
    case (Cons run runs)
    have run: "filter (\<lambda>e. entity_path e = path) run = (if run_path run = path then run else [])"
      using Cons.prems(2) by (auto simp: filter_id_conv filter_empty_conv)
    have none: "filter (\<lambda>e. entity_path e = run_path run) (concat runs) = []"
    proof -
      have "run_path r \<noteq> run_path run" if "r \<in> set runs" for r
        using Cons.prems(1) that by (auto simp: strict_keys_Cons)
      then show ?thesis using Cons.prems(2) by (auto simp: filter_empty_conv)
    qed
    show ?case using Cons run none by (auto simp: strict_keys_Cons)
  qed simp
  then show ?thesis
    using Some ok(1) by (simp add: wireTransitionEntityPath_def wireEntities_def lookup_key_map_by)
qed

end
