(* ===== verification/Wire_Diff.thy ===== *)
theory Wire_Diff
  imports Fact_Table
begin

text \<open>
  Planning a wire transition (\<^verbatim>\<open>wire_transition_diff.go\<close>, and \<^verbatim>\<open>planSparseDelta\<close> of
  \<^verbatim>\<open>wire_transition.go\<close>): the cursor that walks the three path streams of a table, the full plan, the
  exact and the fallback delta of path rows and of symbol rows, and the sparse plan of the active
  protocol. The planner's slices of operations are the returned lists.
\<close>

section \<open>Operations\<close>

type_synonym wireTransitionCollectionOp = u64
definition wireTransitionUnchanged :: wireTransitionCollectionOp where "wireTransitionUnchanged = 0"
definition wireTransitionReplace :: wireTransitionCollectionOp where "wireTransitionReplace = 1"
definition wireTransitionRemove :: wireTransitionCollectionOp where "wireTransitionRemove = 2"

lemmas collection_op_defs [simp] =
  wireTransitionUnchanged_def wireTransitionReplace_def wireTransitionRemove_def

record wireTransitionPathOp =
  po_path :: string
  po_sourceOp :: wireTransitionCollectionOp
  po_source :: SourceDigest
  po_entityOp :: wireTransitionCollectionOp
  po_entities :: "EntityFact list"
  po_fileOp :: wireTransitionCollectionOp
  po_file :: FileFact

definition zeroSourceDigest :: SourceDigest where
  "zeroSourceDigest = \<lparr>dig_Path = [], dig_SHA256 = replicate 32 0\<rparr>"

definition zeroFileFact :: FileFact where
  "zeroFileFact = \<lparr>file_Path = [], file_Calls = [], file_Bindings = [], file_Functions = [], file_AsyncFunctions = []\<rparr>"

definition newPathOp :: "string \<Rightarrow> wireTransitionPathOp" where
  "newPathOp path = \<lparr>po_path = path, po_sourceOp = wireTransitionUnchanged, po_source = zeroSourceDigest,
     po_entityOp = wireTransitionUnchanged, po_entities = [], po_fileOp = wireTransitionUnchanged,
     po_file = zeroFileFact\<rparr>"

type_synonym wireTransitionSymbolOpTag = u64
definition wireTransitionReplaceSymbol :: wireTransitionSymbolOpTag where "wireTransitionReplaceSymbol = 0"
definition wireTransitionRemoveSymbol :: wireTransitionSymbolOpTag where "wireTransitionRemoveSymbol = 1"
definition wireTransitionReplaceReferencePath :: wireTransitionSymbolOpTag where
  "wireTransitionReplaceReferencePath = 2"

lemmas symbol_tag_defs [simp] =
  wireTransitionReplaceSymbol_def wireTransitionRemoveSymbol_def wireTransitionReplaceReferencePath_def

record wireTransitionSymbolOp =
  so_id :: SymbolID
  so_tag :: wireTransitionSymbolOpTag
  so_fact :: SymbolFact
  so_referencePath :: string
  so_references :: "Location list"

definition zeroSymbolFact :: SymbolFact where
  "zeroSymbolFact = \<lparr>sym_ID = [], sym_AliasTarget = [], sym_Declarations = [], sym_References = []\<rparr>"

definition replaceSymbolOp :: "SymbolFact \<Rightarrow> wireTransitionSymbolOp" where
  "replaceSymbolOp f = \<lparr>so_id = sym_ID f, so_tag = wireTransitionReplaceSymbol, so_fact = f,
     so_referencePath = [], so_references = []\<rparr>"

definition removeSymbolOp :: "SymbolID \<Rightarrow> wireTransitionSymbolOp" where
  "removeSymbolOp sid = \<lparr>so_id = sid, so_tag = wireTransitionRemoveSymbol, so_fact = zeroSymbolFact,
     so_referencePath = [], so_references = []\<rparr>"

definition referencePathOp :: "SymbolID \<Rightarrow> string \<Rightarrow> Location list \<Rightarrow> wireTransitionSymbolOp" where
  "referencePathOp sid path references = \<lparr>so_id = sid, so_tag = wireTransitionReplaceReferencePath,
     so_fact = zeroSymbolFact, so_referencePath = path, so_references = references\<rparr>"

section \<open>The rows of a path\<close>

record wireTransitionPathRows =
  pr_path :: string
  pr_source :: "SourceDigest option"
  pr_entities :: "EntityFact list"
  pr_file :: "FileFact option"

definition noPathRows :: "string \<Rightarrow> wireTransitionPathRows" where
  "noPathRows path = \<lparr>pr_path = path, pr_source = None, pr_entities = [], pr_file = None\<rparr>"

definition wireTransitionPathRowsAt :: "FactTable \<Rightarrow> string \<Rightarrow> wireTransitionPathRows" where
  "wireTransitionPathRowsAt t path =
     \<lparr>pr_path = path,
      pr_source = wireTransitionSource (ft_sourceDigests t) path,
      pr_entities = wireTransitionEntityPath t path,
      pr_file = canonicalFileFact (ft_Files t) path\<rparr>"

definition wireTransitionPathRowsDifference ::
    "wireTransitionPathRows \<Rightarrow> wireTransitionPathRows \<Rightarrow> bool \<Rightarrow> bool \<Rightarrow> bool \<Rightarrow> wireTransitionPathOp \<times> bool" where
  "wireTransitionPathRowsDifference previous next sourceCandidate entityCandidate fileCandidate =
     (let op = newPathOp (pr_path next);
          op = (if sourceCandidate then
              (case (pr_source previous, pr_source next) of
                 (Some _, None) \<Rightarrow> op\<lparr>po_sourceOp := wireTransitionRemove\<rparr>
               | (None, Some n) \<Rightarrow> op\<lparr>po_sourceOp := wireTransitionReplace, po_source := n\<rparr>
               | (Some p, Some n) \<Rightarrow>
                   if dig_SHA256 p \<noteq> dig_SHA256 n
                   then op\<lparr>po_sourceOp := wireTransitionReplace, po_source := n\<rparr> else op
               | (None, None) \<Rightarrow> op)
            else op);
          op = (if entityCandidate then
              (if pr_entities previous \<noteq> [] \<and> pr_entities next = []
               then op\<lparr>po_entityOp := wireTransitionRemove\<rparr>
               else if pr_entities next \<noteq> [] \<and> \<not> entityFactsEqual (pr_entities previous) (pr_entities next)
               then op\<lparr>po_entityOp := wireTransitionReplace, po_entities := pr_entities next\<rparr> else op)
            else op);
          op = (if fileCandidate then
              (case (pr_file previous, pr_file next) of
                 (Some _, None) \<Rightarrow> op\<lparr>po_fileOp := wireTransitionRemove\<rparr>
               | (None, Some n) \<Rightarrow> op\<lparr>po_fileOp := wireTransitionReplace, po_file := n\<rparr>
               | (Some p, Some n) \<Rightarrow>
                   if \<not> fileFactEqual p n
                   then op\<lparr>po_fileOp := wireTransitionReplace, po_file := n\<rparr> else op
               | (None, None) \<Rightarrow> op)
            else op)
      in (op, po_sourceOp op \<noteq> wireTransitionUnchanged \<or> po_entityOp op \<noteq> wireTransitionUnchanged \<or>
            po_fileOp op \<noteq> wireTransitionUnchanged))"

definition wireTransitionPathDifference ::
    "FactTable option \<Rightarrow> FactTable \<Rightarrow> string \<Rightarrow> bool \<Rightarrow> bool \<Rightarrow> bool \<Rightarrow> wireTransitionPathOp \<times> bool" where
  "wireTransitionPathDifference base target path sourceCandidate entityCandidate fileCandidate =
     (let previous = (case base of None \<Rightarrow> noPathRows path | Some t \<Rightarrow> wireTransitionPathRowsAt t path);
          next = wireTransitionPathRowsAt target path
      in wireTransitionPathRowsDifference previous next sourceCandidate entityCandidate fileCandidate)"

text \<open>An operation is appended only when something changed.\<close>

definition changedOp :: "'a \<times> bool \<Rightarrow> 'a list" where
  "changedOp r = (if snd r then [fst r] else [])"

section \<open>The path cursor\<close>

record wireTransitionTablePathCursor =
  wc_source :: nat
  wc_entity :: nat
  wc_file :: nat

definition newPathCursor :: wireTransitionTablePathCursor where
  "newPathCursor = \<lparr>wc_source = 0, wc_entity = 0, wc_file = 0\<rparr>"

definition wireTransitionEntityRunCount :: "FactTable \<Rightarrow> nat" where
  "wireTransitionEntityRunCount t =
     (case ft_entityRuns t of Some runs \<Rightarrow> length runs | None \<Rightarrow> length (ft_Entities t))"

definition wireTransitionEntityRunPath :: "FactTable \<Rightarrow> nat \<Rightarrow> string" where
  "wireTransitionEntityRunPath t i =
     (case ft_entityRuns t of Some runs \<Rightarrow> run_path (runs ! i) | None \<Rightarrow> entity_path (ft_Entities t ! i))"

definition wireTransitionEntityRun :: "FactTable \<Rightarrow> nat \<Rightarrow> EntityFact list" where
  "wireTransitionEntityRun t i =
     (case ft_entityRuns t of
        Some runs \<Rightarrow> runs ! i
      | None \<Rightarrow> take (entityPathEnd (ft_Entities t) i - i) (drop i (ft_Entities t)))"

definition cursor_valid :: "FactTable \<Rightarrow> wireTransitionTablePathCursor \<Rightarrow> bool" where
  "cursor_valid t c \<longleftrightarrow>
     wc_source c < length (ft_sourceDigests t) \<or> wc_entity c < wireTransitionEntityRunCount t \<or>
     wc_file c < length (ft_Files t)"

definition considerPath :: "string \<Rightarrow> string option \<Rightarrow> string option" where
  "considerPath candidate path =
     (case path of None \<Rightarrow> Some candidate | Some p \<Rightarrow> if candidate < p then Some candidate else Some p)"

definition cursor_path :: "FactTable \<Rightarrow> wireTransitionTablePathCursor \<Rightarrow> string" where
  "cursor_path t c =
     (let path = None;
          path = (if wc_source c < length (ft_sourceDigests t)
            then considerPath (dig_Path (ft_sourceDigests t ! wc_source c)) path else path);
          path = (if wc_entity c < wireTransitionEntityRunCount t
            then considerPath (wireTransitionEntityRunPath t (wc_entity c)) path else path);
          path = (if wc_file c < length (ft_Files t)
            then considerPath (file_Path (ft_Files t ! wc_file c)) path else path)
      in case path of None \<Rightarrow> [] | Some p \<Rightarrow> p)"

definition source_here :: "FactTable \<Rightarrow> wireTransitionTablePathCursor \<Rightarrow> bool" where
  "source_here t c \<longleftrightarrow>
     wc_source c < length (ft_sourceDigests t) \<and> dig_Path (ft_sourceDigests t ! wc_source c) = cursor_path t c"

definition entity_here :: "FactTable \<Rightarrow> wireTransitionTablePathCursor \<Rightarrow> bool" where
  "entity_here t c \<longleftrightarrow>
     wc_entity c < wireTransitionEntityRunCount t \<and> wireTransitionEntityRunPath t (wc_entity c) = cursor_path t c"

definition file_here :: "FactTable \<Rightarrow> wireTransitionTablePathCursor \<Rightarrow> bool" where
  "file_here t c \<longleftrightarrow>
     wc_file c < length (ft_Files t) \<and> file_Path (ft_Files t ! wc_file c) = cursor_path t c"

definition cursor_rows :: "FactTable \<Rightarrow> wireTransitionTablePathCursor \<Rightarrow> wireTransitionPathRows" where
  "cursor_rows t c =
     \<lparr>pr_path = cursor_path t c,
      pr_source = (if source_here t c then Some (ft_sourceDigests t ! wc_source c) else None),
      pr_entities = (if entity_here t c then wireTransitionEntityRun t (wc_entity c) else []),
      pr_file = (if file_here t c then Some (ft_Files t ! wc_file c) else None)\<rparr>"

definition cursor_next :: "FactTable \<Rightarrow> wireTransitionTablePathCursor \<Rightarrow> wireTransitionTablePathCursor" where
  "cursor_next t c =
     \<lparr>wc_source = (if source_here t c then wc_source c + 1 else wc_source c),
      wc_entity = (if entity_here t c
        then (case ft_entityRuns t of
                Some _ \<Rightarrow> wc_entity c + 1
              | None \<Rightarrow> entityPathEnd (ft_Entities t) (wc_entity c))
        else wc_entity c),
      wc_file = (if file_here t c then wc_file c + 1 else wc_file c)\<rparr>"

lemma cursor_path_here:
  "cursor_valid t c \<Longrightarrow> source_here t c \<or> entity_here t c \<or> file_here t c"
  by (auto simp: cursor_valid_def source_here_def entity_here_def file_here_def cursor_path_def Let_def
      considerPath_def split: option.splits)

lemma entityPathEnd_greater: "i < entityPathEnd es i"
  by (simp add: entityPathEnd_def entityRunEnd_takeWhile)

text \<open>The rows a cursor yields from its position on, by \<^verbatim>\<open>rows\<close> and \<^verbatim>\<open>next\<close> while it is valid.\<close>

function cursor_walk :: "FactTable \<Rightarrow> wireTransitionTablePathCursor \<Rightarrow> wireTransitionPathRows list" where
  "cursor_walk t c = (if cursor_valid t c then cursor_rows t c # cursor_walk t (cursor_next t c) else [])"
  by pat_completeness auto
termination
proof (relation "measure (\<lambda>(t, c). (length (ft_sourceDigests t) - wc_source c) +
    (wireTransitionEntityRunCount t - wc_entity c) + (length (ft_Files t) - wc_file c))")
  fix t c assume "cursor_valid t c"
  then have here: "source_here t c \<or> entity_here t c \<or> file_here t c" by (rule cursor_path_here)
  have s: "length (ft_sourceDigests t) - wc_source (cursor_next t c) \<le> length (ft_sourceDigests t) - wc_source c"
    "source_here t c \<Longrightarrow> length (ft_sourceDigests t) - wc_source (cursor_next t c) < length (ft_sourceDigests t) - wc_source c"
    by (auto simp: cursor_next_def source_here_def)
  have e: "wireTransitionEntityRunCount t - wc_entity (cursor_next t c) \<le> wireTransitionEntityRunCount t - wc_entity c"
    "entity_here t c \<Longrightarrow> wireTransitionEntityRunCount t - wc_entity (cursor_next t c) < wireTransitionEntityRunCount t - wc_entity c"
    using entityPathEnd_greater[of "wc_entity c" "ft_Entities t"]
    by (auto simp: cursor_next_def entity_here_def split: option.split)
  have f: "length (ft_Files t) - wc_file (cursor_next t c) \<le> length (ft_Files t) - wc_file c"
    "file_here t c \<Longrightarrow> length (ft_Files t) - wc_file (cursor_next t c) < length (ft_Files t) - wc_file c"
    by (auto simp: cursor_next_def file_here_def)
  have "(length (ft_sourceDigests t) - wc_source (cursor_next t c)) +
    (wireTransitionEntityRunCount t - wc_entity (cursor_next t c)) + (length (ft_Files t) - wc_file (cursor_next t c)) <
    (length (ft_sourceDigests t) - wc_source c) +
    (wireTransitionEntityRunCount t - wc_entity c) + (length (ft_Files t) - wc_file c)"
    using here
  proof (elim disjE)
    assume "source_here t c" from s(2)[OF this] e(1) f(1) show ?thesis by linarith
  next
    assume "entity_here t c" from e(2)[OF this] s(1) f(1) show ?thesis by linarith
  next
    assume "file_here t c" from f(2)[OF this] s(1) e(1) show ?thesis by linarith
  qed
  then show "((t, cursor_next t c), (t, c)) \<in> measure (\<lambda>(t, c). (length (ft_sourceDigests t) - wc_source c) +
    (wireTransitionEntityRunCount t - wc_entity c) + (length (ft_Files t) - wc_file c))"
    by (simp only: in_measure prod.case)
qed simp

declare cursor_walk.simps [simp del]

section \<open>Path plans\<close>

definition planFull :: "FactTable \<Rightarrow> string list" where
  "planFull target = map pr_path (cursor_walk target newPathCursor)"

definition sortUniqueWireTransitionPaths :: "string list \<Rightarrow> string list" where
  "sortUniqueWireTransitionPaths paths = compactPathsLoop [] (sort paths)"

definition manifestPaths :: "factTableTransportChanges \<Rightarrow> string list" where
  "manifestPaths m = sortUniqueWireTransitionPaths (tc_sourcePaths m @ tc_entityPaths m @ tc_filePaths m)"

definition planExactPathDelta ::
    "FactTable \<Rightarrow> FactTable \<Rightarrow> factTableTransportChanges \<Rightarrow> wireTransitionPathOp list" where
  "planExactPathDelta base target m =
     concat (map (\<lambda>path. changedOp (wireTransitionPathDifference (Some base) target path
       (path \<in> set (tc_sourcePaths m)) (path \<in> set (tc_entityPaths m)) (path \<in> set (tc_filePaths m))))
       (manifestPaths m))"

text \<open>The merge of the two cursors; each is the list of the rows it has still to yield.\<close>

fun fallbackPathLoop ::
    "wireTransitionPathRows list \<Rightarrow> wireTransitionPathRows list \<Rightarrow> wireTransitionPathOp list" where
  "fallbackPathLoop (p # previous) (n # next) =
     (if pr_path p < pr_path n then
        changedOp (wireTransitionPathRowsDifference p (noPathRows (pr_path p)) True True True) @
        fallbackPathLoop previous (n # next)
      else if pr_path n < pr_path p then
        changedOp (wireTransitionPathRowsDifference (noPathRows (pr_path n)) n True True True) @
        fallbackPathLoop (p # previous) next
      else
        changedOp (wireTransitionPathRowsDifference p n True True True) @ fallbackPathLoop previous next)"
| "fallbackPathLoop previous [] =
     concat (map (\<lambda>p. changedOp (wireTransitionPathRowsDifference p (noPathRows (pr_path p)) True True True)) previous)"
| "fallbackPathLoop [] next =
     concat (map (\<lambda>n. changedOp (wireTransitionPathRowsDifference (noPathRows (pr_path n)) n True True True)) next)"

definition planFallbackPathDelta :: "FactTable \<Rightarrow> FactTable \<Rightarrow> wireTransitionPathOp list" where
  "planFallbackPathDelta base target =
     fallbackPathLoop (cursor_walk base newPathCursor) (cursor_walk target newPathCursor)"

definition sparsePathOp :: "FactTable \<Rightarrow> factTableTransportChanges \<Rightarrow> string \<Rightarrow> wireTransitionPathOp" where
  "sparsePathOp target m path =
     (let rows = wireTransitionPathRowsAt target path;
          op = newPathOp path;
          op = (if path \<in> set (tc_sourcePaths m) then
              (case pr_source rows of
                 Some s \<Rightarrow> op\<lparr>po_sourceOp := wireTransitionReplace, po_source := s\<rparr>
               | None \<Rightarrow> op\<lparr>po_sourceOp := wireTransitionRemove\<rparr>)
            else op);
          op = (if path \<in> set (tc_entityPaths m) then
              (if pr_entities rows \<noteq> []
               then op\<lparr>po_entityOp := wireTransitionReplace, po_entities := pr_entities rows\<rparr>
               else op\<lparr>po_entityOp := wireTransitionRemove\<rparr>)
            else op);
          op = (if path \<in> set (tc_filePaths m) then
              (case pr_file rows of
                 Some f \<Rightarrow> op\<lparr>po_fileOp := wireTransitionReplace, po_file := f\<rparr>
               | None \<Rightarrow> op\<lparr>po_fileOp := wireTransitionRemove\<rparr>)
            else op)
      in op)"

section \<open>Symbol plans\<close>

definition referencePathEnd :: "Location list \<Rightarrow> string \<Rightarrow> nat" where
  "referencePathEnd references path = length (takeWhile (\<lambda>l. loc_Path l = path) references)"

lemma referencePathEnd_hd: "xs \<noteq> [] \<Longrightarrow> 0 < referencePathEnd xs (loc_Path (hd xs))"
  by (cases xs) (auto simp: referencePathEnd_def)

definition referenceStepPath :: "Location list \<Rightarrow> Location list \<Rightarrow> string" where
  "referenceStepPath previous next =
     (if previous = [] then loc_Path (hd next)
      else if next = [] then loc_Path (hd previous)
      else if loc_Path (hd previous) < loc_Path (hd next) then loc_Path (hd previous)
      else loc_Path (hd next))"

function planExactReferenceDelta ::
    "SymbolID \<Rightarrow> Location list \<Rightarrow> Location list \<Rightarrow> wireTransitionSymbolOp list" where
  "planExactReferenceDelta sid previous next =
     (if previous = [] \<and> next = [] then []
      else
        let path = referenceStepPath previous next;
            previousEnd = referencePathEnd previous path;
            nextEnd = referencePathEnd next path
        in (if \<not> locationsEqual (take previousEnd previous) (take nextEnd next)
            then [referencePathOp sid path (take nextEnd next)] else []) @
           planExactReferenceDelta sid (drop previousEnd previous) (drop nextEnd next))"
  by pat_completeness auto
termination
proof (relation "measure (\<lambda>(_, p, n). length p + length n)")
  fix sid :: SymbolID and previous "next" :: "Location list" and path previousEnd nextEnd
  assume ne: "\<not> (previous = [] \<and> next = [])" and path: "path = referenceStepPath previous next"
    and ends: "previousEnd = referencePathEnd previous path" "nextEnd = referencePathEnd next path"
  have le: "previousEnd \<le> length previous" "nextEnd \<le> length next"
    by (auto simp: ends referencePathEnd_def length_takeWhile_le)
  have "0 < previousEnd \<or> 0 < nextEnd"
    using ne referencePathEnd_hd[of previous] referencePathEnd_hd[of "next"]
    by (auto simp: ends path referenceStepPath_def)
  then show "((sid, drop previousEnd previous, drop nextEnd next), sid, previous, next) \<in>
      measure (\<lambda>(_, p, n). length p + length n)"
    using le by auto
qed simp

declare planExactReferenceDelta.simps [simp del]

definition exactSymbolOps :: "FactTable \<Rightarrow> FactTable \<Rightarrow> SymbolID \<Rightarrow> wireTransitionSymbolOp list" where
  "exactSymbolOps base target sid =
     (case (canonicalSymbol base sid, canonicalSymbol target sid) of
        (Some _, None) \<Rightarrow> [removeSymbolOp sid]
      | (None, Some n) \<Rightarrow> [(replaceSymbolOp n)\<lparr>so_id := sid\<rparr>]
      | (Some p, Some n) \<Rightarrow>
          if sym_AliasTarget p \<noteq> sym_AliasTarget n \<or> sym_Declarations p \<noteq> sym_Declarations n
          then [(replaceSymbolOp n)\<lparr>so_id := sid\<rparr>]
          else planExactReferenceDelta sid (sym_References p) (sym_References n)
      | (None, None) \<Rightarrow> [])"

definition planExactSymbolDelta ::
    "FactTable \<Rightarrow> FactTable \<Rightarrow> factTableTransportChanges \<Rightarrow> wireTransitionSymbolOp list" where
  "planExactSymbolDelta base target m = concat (map (exactSymbolOps base target) (sort (tc_symbolIDs m)))"

text \<open>
  A symbol cursor is the chunks it has not left and the row in the first of them. Whether two chunks
  share their rows in memory is the parameter \<open>shared\<close>; an empty chunk is a run-time panic.
\<close>

type_synonym symbolFactCursor = "SymbolFact list list \<times> nat"

definition newSymbolFactCursor :: "FactTable \<Rightarrow> symbolFactCursor" where
  "newSymbolFactCursor t =
     (case ft_symbols t of
        Some s \<Rightarrow> (sfs_chunks s, 0)
      | None \<Rightarrow> if ft_Symbols t = [] then ([], 0) else ([ft_Symbols t], 0))"

definition symbolCursor_next :: "symbolFactCursor \<Rightarrow> symbolFactCursor" where
  "symbolCursor_next = (\<lambda>(chunks, row).
     if row + 1 = length (hd chunks) then (tl chunks, 0) else (chunks, row + 1))"

definition cursor_left :: "symbolFactCursor \<Rightarrow> nat" where
  "cursor_left = (\<lambda>(chunks, row). sum_list (map (\<lambda>c. Suc (length c)) chunks) - row)"

lemma cursor_left_next:
  "chunks \<noteq> [] \<Longrightarrow> row < length (hd chunks) \<Longrightarrow> cursor_left (symbolCursor_next (chunks, row)) < cursor_left (chunks, row)"
  by (cases chunks) (auto simp: cursor_left_def symbolCursor_next_def)

function fallbackSymbolLoop ::
    "(SymbolFact list \<Rightarrow> SymbolFact list \<Rightarrow> bool) \<Rightarrow> symbolFactCursor \<Rightarrow> symbolFactCursor \<Rightarrow>
     wireTransitionSymbolOp list result" where
  "fallbackSymbolLoop shared (lc, lr) (rc, rr) =
     (if lc \<noteq> [] \<and> rc \<noteq> [] then
        (if lr = 0 \<and> rr = 0 \<and> hd lc \<noteq> [] \<and> length (hd lc) = length (hd rc) \<and> shared (hd lc) (hd rc)
         then fallbackSymbolLoop shared (tl lc, 0) (tl rc, 0)
         else if length (hd lc) \<le> lr \<or> length (hd rc) \<le> rr then Inl (Panic ''index out of range: chunk'')
         else
           let previous = hd lc ! lr; next = hd rc ! rr in
           if sym_ID previous < sym_ID next then
             bind_result (fallbackSymbolLoop shared (symbolCursor_next (lc, lr)) (rc, rr))
               (\<lambda>ops. Inr (removeSymbolOp (sym_ID previous) # ops))
           else if sym_ID next < sym_ID previous then
             bind_result (fallbackSymbolLoop shared (lc, lr) (symbolCursor_next (rc, rr)))
               (\<lambda>ops. Inr (replaceSymbolOp next # ops))
           else
             bind_result (fallbackSymbolLoop shared (symbolCursor_next (lc, lr)) (symbolCursor_next (rc, rr)))
               (\<lambda>ops. Inr ((if \<not> symbolFactEqual previous next then [replaceSymbolOp next] else []) @ ops)))
      else if lc \<noteq> [] then
        (if length (hd lc) \<le> lr then Inl (Panic ''index out of range: chunk'')
         else bind_result (fallbackSymbolLoop shared (symbolCursor_next (lc, lr)) (rc, rr))
           (\<lambda>ops. Inr (removeSymbolOp (sym_ID (hd lc ! lr)) # ops)))
      else if rc \<noteq> [] then
        (if length (hd rc) \<le> rr then Inl (Panic ''index out of range: chunk'')
         else bind_result (fallbackSymbolLoop shared (lc, lr) (symbolCursor_next (rc, rr)))
           (\<lambda>ops. Inr (replaceSymbolOp (hd rc ! rr) # ops)))
      else Inr [])"
  by pat_completeness auto
termination
proof (relation "measure (\<lambda>(shared, l, r). cursor_left l + cursor_left r)", goal_cases)
  case (2 shared lc lr rc rr)
  then show ?case by (cases lc; cases rc) (auto simp: cursor_left_def)
qed (auto simp: cursor_left_next add_less_mono not_le)

declare fallbackSymbolLoop.simps [simp del]

definition planFallbackSymbolDelta ::
    "(SymbolFact list \<Rightarrow> SymbolFact list \<Rightarrow> bool) \<Rightarrow> FactTable \<Rightarrow> FactTable \<Rightarrow> wireTransitionSymbolOp list result" where
  "planFallbackSymbolDelta shared base target =
     fallbackSymbolLoop shared (newSymbolFactCursor base) (newSymbolFactCursor target)"

section \<open>The plan of a delta\<close>

definition manifestApplies :: "FactTable \<Rightarrow> factTableTransportChanges \<Rightarrow> bool" where
  "manifestApplies base m \<longleftrightarrow> tc_exact m \<and> ft_stateID base \<noteq> 0 \<and>
     tc_baseGeneration m = ft_Generation base \<and> tc_baseStateID m = ft_stateID base"

definition planDelta ::
    "(SymbolFact list \<Rightarrow> SymbolFact list \<Rightarrow> bool) \<Rightarrow> FactTable \<Rightarrow> FactTable \<Rightarrow>
     (wireTransitionPathOp list \<times> wireTransitionSymbolOp list) result" where
  "planDelta shared base target =
     (case ft_transport target of
        Some m \<Rightarrow>
          if manifestApplies base m
          then Inr (planExactPathDelta base target m, planExactSymbolDelta base target m)
          else bind_result (planFallbackSymbolDelta shared base target)
            (\<lambda>symbols. Inr (planFallbackPathDelta base target, symbols))
      | None \<Rightarrow> bind_result (planFallbackSymbolDelta shared base target)
            (\<lambda>symbols. Inr (planFallbackPathDelta base target, symbols)))"

definition planSparseDelta ::
    "FactTable \<Rightarrow> FactTable \<Rightarrow> factTableTransportChanges \<Rightarrow>
     wireTransitionPathOp list \<times> wireTransitionSymbolOp list" where
  "planSparseDelta base target m =
     (map (sparsePathOp target m) (manifestPaths m), planExactSymbolDelta base target m)"

end
