(* ===== verification/Wire_Rows.thy ===== *)
theory Wire_Rows
  imports Wire_Codec Wire_Diff
begin

text \<open>
  The row writers of the packed table transition (\<^verbatim>\<open>wire_transition_rows.go\<close>): the closed code tables of
  the enumerations, the entity run with its schema-dependent optional fields, resolved calls and
  parameters, file bodies, and the path and symbol operations. Go's string enumerations are open, so
  every writer validates what it encodes and fails on a value outside its table.
\<close>

section \<open>Code tables\<close>

definition TypeFactsTableSchemaVersionV5 :: u64 where "TypeFactsTableSchemaVersionV5 = 5"
definition TypeFactsTableSchemaVersionV6 :: u64 where "TypeFactsTableSchemaVersionV6 = 6"
definition TypeFactsTableSchemaVersionV7 :: u64 where "TypeFactsTableSchemaVersionV7 = 7"
definition TypeFactsTableSchemaVersionV8 :: u64 where "TypeFactsTableSchemaVersionV8 = 8"
definition TypeFactsTableSchemaVersionV9 :: u64 where "TypeFactsTableSchemaVersionV9 = 9"
definition TypeFactsTableSchemaVersionV11 :: u64 where "TypeFactsTableSchemaVersionV11 = 11"
definition TypeFactsTableSchemaVersionV12 :: u64 where "TypeFactsTableSchemaVersionV12 = 12"
definition TypeFactsTableSchemaVersionV13 :: u64 where "TypeFactsTableSchemaVersionV13 = 13"
definition TypeFactsTableSchemaVersionV14 :: u64 where "TypeFactsTableSchemaVersionV14 = 14"
definition TypeFactsTableSchemaVersionV15 :: u64 where "TypeFactsTableSchemaVersionV15 = 15"
definition TypeFactsTableSchemaVersionV16 :: u64 where "TypeFactsTableSchemaVersionV16 = 16"
definition TypeFactsTableSchemaVersionV17 :: u64 where "TypeFactsTableSchemaVersionV17 = 17"

definition TypeFactsTableSchemaVersion :: u64 where
  "TypeFactsTableSchemaVersion = TypeFactsTableSchemaVersionV17"

lemmas schema_defs = TypeFactsTableSchemaVersionV5_def TypeFactsTableSchemaVersionV6_def
  TypeFactsTableSchemaVersionV7_def TypeFactsTableSchemaVersionV8_def TypeFactsTableSchemaVersionV9_def
  TypeFactsTableSchemaVersionV11_def TypeFactsTableSchemaVersionV12_def TypeFactsTableSchemaVersionV13_def
  TypeFactsTableSchemaVersionV14_def TypeFactsTableSchemaVersionV15_def TypeFactsTableSchemaVersionV16_def
  TypeFactsTableSchemaVersionV17_def TypeFactsTableSchemaVersion_def

text \<open>A closed code table gives the tag of a value, or an error for a value outside the table.\<close>

definition wireTransitionValidityCode :: "string \<Rightarrow> u64 result" where
  "wireTransitionValidityCode value =
     (if value = ''valid'' then Inr 0
      else if value = ''recovery'' then Inr 1
      else if value = ''unresolved'' then Inr 2
      else Inl (Errorf ''unknown resolved-call validity''))"

definition wireTransitionCallKindCode :: "string \<Rightarrow> u64 result" where
  "wireTransitionCallKindCode value =
     (if value = ''unknown'' then Inr 0
      else if value = ''call'' then Inr 1
      else if value = ''construct'' then Inr 2
      else Inl (Errorf ''unknown call kind''))"

definition wireTransitionMappingStatusCode :: "string \<Rightarrow> u64 result" where
  "wireTransitionMappingStatusCode value =
     (if value = ''resolved'' then Inr 0
      else if value = ''unresolved'' then Inr 1
      else Inl (Errorf ''unknown argument-mapping status''))"

definition wireTransitionMappingReasonCode :: "string \<Rightarrow> u64 result" where
  "wireTransitionMappingReasonCode value =
     (if value = [] then Inr 0
      else if value = ''callUnresolved'' then Inr 1
      else if value = ''recoverySignature'' then Inr 2
      else if value = ''compositeSignature'' then Inr 3
      else if value = ''spreadArgument'' then Inr 4
      else if value = ''parameterUnavailable'' then Inr 5
      else Inl (Errorf ''unknown argument-mapping reason''))"

definition wireTransitionCallabilityCode :: "Callability \<Rightarrow> u64 \<Rightarrow> u64 result" where
  "wireTransitionCallabilityCode value tableSchema =
     (let value = (if value = CallabilityUntypedCallable \<and> tableSchema < TypeFactsTableSchemaVersionV15
            then CallabilityUnknown else value)
      in if value = CallabilityCallable then Inr 0
         else if value = CallabilityNonCallable then Inr 1
         else if value = CallabilityMixed then Inr 2
         else if value = CallabilityUnknown then Inr 3
         else if value = CallabilityUntypedCallable then Inr 4
         else Inl (Errorf ''unknown callability''))"

fun wireTransitionConstructabilityCode :: "Constructability \<Rightarrow> u64 result" where
  "wireTransitionConstructabilityCode ConstructabilityConstructable = Inr 0"
| "wireTransitionConstructabilityCode ConstructabilityNonConstructable = Inr 1"
| "wireTransitionConstructabilityCode ConstructabilityMixed = Inr 2"
| "wireTransitionConstructabilityCode ConstructabilityUnknown = Inr 3"
| "wireTransitionConstructabilityCode ConstructabilityAbsent = Inl (Errorf ''unknown constructability'')"

definition wireTransitionArrayShapeCode :: "ArrayShape \<Rightarrow> u64 result" where
  "wireTransitionArrayShapeCode value =
     (if value = ''array'' then Inr 0
      else if value = ''notArray'' then Inr 1
      else if value = ''mixed'' then Inr 2
      else if value = ''unknown'' then Inr 3
      else Inl (Errorf ''unknown array shape''))"

definition wireTransitionReferenceSpaceCode :: "ReferenceSpace \<Rightarrow> u64 result" where
  "wireTransitionReferenceSpaceCode value =
     (if value = ''value'' then Inr 0
      else if value = ''type'' then Inr 1
      else if value = ''both'' then Inr 2
      else if value = ''neither'' then Inr 3
      else Inl (Errorf ''unknown reference space''))"

definition wireTransitionConstructionWitnessCode :: "string \<Rightarrow> u64 result" where
  "wireTransitionConstructionWitnessCode value =
     (if value = ''unknown'' then Inr 0
      else if value = ''emptyArray'' then Inr 1
      else if value = ''emptyObject'' then Inr 2
      else Inl (Errorf ''unknown construction witness''))"

definition bitIf :: "bool \<Rightarrow> nat \<Rightarrow> u64" where
  "bitIf b k = (if b then push_bit k 1 else 0)"

definition wireTransitionRuntimeValueDomainBits :: "RuntimeValueDomain \<Rightarrow> u64" where
  "wireTransitionRuntimeValueDomainBits value =
     bitIf (rvd_MayBeCallable value) 0 OR bitIf (rvd_MayBeUndefined value) 1 OR
     bitIf (rvd_MayBeOther value) 2 OR bitIf (rvd_Unknown value) 3"

definition wireTransitionPrimitiveValueDomainBits :: "PrimitiveValueDomain \<Rightarrow> u64" where
  "wireTransitionPrimitiveValueDomainBits value =
     boolBit (pvd_has primitiveMayBeString value) OR
     push_bit 1 (boolBit (pvd_has primitiveMayBeNumber value)) OR
     push_bit 2 (boolBit (pvd_has primitiveMayBeBoolean value)) OR
     push_bit 3 (boolBit (pvd_has primitiveMayBeBigInt value)) OR
     push_bit 4 (boolBit (pvd_has primitiveMayBeSymbol value)) OR
     push_bit 5 (boolBit (pvd_has primitiveMayBeNull value)) OR
     push_bit 6 (boolBit (pvd_has primitiveMayBeUndefined value)) OR
     push_bit 7 (boolBit (pvd_has primitiveMayBeObject value)) OR
     push_bit 8 (boolBit (pvd_Unknown value)) OR
     push_bit 9 (boolBit (pvd_NumbersAreFinite value))"

definition validateWireTransitionLocation :: "Location \<Rightarrow> unit result" where
  "validateWireTransitionLocation location =
     (if loc_StartByte location < 0 then Inl (Errorf ''negative start byte'')
      else if loc_EndByte location < loc_StartByte location then Inl (Errorf ''end byte precedes start byte'')
      else Inr ())"

section \<open>Resolved calls\<close>

definition writeObjectProperty :: "ObjectConstructionProperty \<Rightarrow> ('a, unit) action" where
  "writeObjectProperty property =
     bindA (pw_text (ocp_Name property)) (\<lambda>_.
     bindA (liftR (wireTransitionConstructionWitnessCode (ocp_Witness property))) pw_u64)"

definition parameterFlags :: "ParameterFact \<Rightarrow> u64 \<Rightarrow> u64" where
  "parameterFlags parameter tableSchema =
     bitIf (par_Declaration parameter \<noteq> None) 0 OR bitIf (par_Rest parameter) 1 OR
     bitIf (par_Optional parameter) 2 OR bitIf (par_TypeDescriptor parameter \<noteq> None) 3 OR
     bitIf (TypeFactsTableSchemaVersionV17 \<le> tableSchema \<and> par_ObjectShape parameter \<noteq> None) 4"

definition writeWireTransitionParameter :: "ParameterFact \<Rightarrow> u64 \<Rightarrow> ('a, unit) action" where
  "writeWireTransitionParameter parameter tableSchema =
     bindA (failIf (par_Index parameter < 0) ''negative parameter index'') (\<lambda>_.
     bindA (liftR (wireTransitionCallabilityCode (par_Callability parameter) tableSchema)) (\<lambda>callability.
     run_all
       [pw_u64 (uint64 (par_Index parameter)),
        pw_text (par_Symbol parameter),
        pw_u64 (parameterFlags parameter tableSchema),
        (case par_Declaration parameter of None \<Rightarrow> ret ()
         | Some d \<Rightarrow> bindA (internalDeclaration d noLocationState) (\<lambda>_. ret ())),
        pw_u64 callability,
        (case par_TypeDescriptor parameter of None \<Rightarrow> ret () | Some d \<Rightarrow> internalTypeDescriptor d),
        (case par_ObjectShape parameter of None \<Rightarrow> ret ()
         | Some shape \<Rightarrow> whenA (TypeFactsTableSchemaVersionV17 \<le> tableSchema)
             (run_all (pw_count (ocs_RequiredProperties shape) #
               map writeObjectProperty (ocs_RequiredProperties shape))))]))"

definition writeArgumentMapping :: "u64 \<Rightarrow> ArgumentMapping \<Rightarrow> ('a, unit) action" where
  "writeArgumentMapping tableSchema mapping =
     bindA (failIf (am_ArgumentIndex mapping < 0) ''argument mapping has negative argument index'') (\<lambda>_.
     bindA (liftR (wireTransitionMappingStatusCode (am_Status mapping))) (\<lambda>status.
     bindA (liftR (wireTransitionMappingReasonCode (am_Unresolved mapping))) (\<lambda>reason.
     bindA (failIf ((status = 0) \<noteq> (reason = 0)) ''argument mapping status and reason disagree'') (\<lambda>_.
     run_all
       [pw_u64 (uint64 (am_ArgumentIndex mapping)), pw_u64 status, pw_u64 reason,
        pw_u64 (boolBit (am_Parameter mapping \<noteq> None)),
        (case am_Parameter mapping of None \<Rightarrow> ret ()
         | Some p \<Rightarrow> writeWireTransitionParameter p tableSchema)]))))"

definition writeTargetCandidate :: "ResolvedDeclaration \<Rightarrow> ('a, unit) action" where
  "writeTargetCandidate candidate =
     bindA (failIf (rd_Symbol candidate = []) ''target candidate has no symbol'') (\<lambda>_.
       internalResolvedDeclaration candidate)"

definition writeTargetSet :: "CallTargetSet option \<Rightarrow> ('a, unit) action" where
  "writeTargetSet targets =
     bindA (pw_u64 (boolBit (targets \<noteq> None))) (\<lambda>_.
       (case targets of None \<Rightarrow> ret ()
        | Some ts \<Rightarrow>
            bindA (failIf (cts_Candidates ts = []) ''resolved-call target set has no candidates'') (\<lambda>_.
            run_all (pw_u64 (boolBit (cts_Exhaustive ts)) # pw_count (cts_Candidates ts) #
              map writeTargetCandidate (cts_Candidates ts)))))"

definition writeWireTransitionResolvedCall :: "Call \<Rightarrow> u64 \<Rightarrow> ('a, unit) action" where
  "writeWireTransitionResolvedCall call tableSchema =
     bindA (liftR (wireTransitionValidityCode (call_Validity call))) (\<lambda>validity.
     bindA (liftR (wireTransitionCallKindCode (call_Kind call))) (\<lambda>kind.
     run_all
       ([pw_text (call_Target call), pw_text (call_ReturnTypeText call), pw_u64 validity, pw_u64 kind,
         pw_u64 (boolBit (call_Declaration call \<noteq> None)),
         (case call_Declaration call of None \<Rightarrow> ret () | Some d \<Rightarrow> internalResolvedDeclaration d),
         whenA (TypeFactsTableSchemaVersionV6 \<le> tableSchema) (writeTargetSet (call_Targets call)),
         pw_count (call_Arguments call)] @
        map (writeArgumentMapping tableSchema) (call_Arguments call))))"

section \<open>Entity runs\<close>

text \<open>The codes a row needs, in the order in which the code looks them up; zero for an absent field.\<close>

record entityCodes =
  ec_callability :: u64
  ec_constructability :: u64
  ec_referenceSpace :: u64
  ec_arrayShape :: u64
  ec_tupleElementZero :: u64

definition optionalCode :: "bool \<Rightarrow> u64 result \<Rightarrow> u64 result" where
  "optionalCode present code = (if present then code else Inr 0)"

definition tupleElementZeroCode :: "u64 \<Rightarrow> TupleShape option \<Rightarrow> u64 result" where
  "tupleElementZeroCode tableSchema shape =
     (case shape of None \<Rightarrow> Inr 0
      | Some t \<Rightarrow>
          let elementZero = (if ts_ElementZero t = [] then CallabilityUnknown else ts_ElementZero t) in
          bind_result (wireTransitionCallabilityCode elementZero tableSchema) (\<lambda>code.
            if ts_FixedLength t < 0 \<or> ts_ElementZeroMinimumParameters t < 0 \<or> ts_ExactLength t < 0
            then Inl (Errorf ''entity has a negative tuple count'') else Inr code))"

definition encodeEntityCodes :: "string \<Rightarrow> u64 \<Rightarrow> EntityFact \<Rightarrow> entityCodes result" where
  "encodeEntityCodes path tableSchema entity =
     (if entity_path entity \<noteq> path then Inl (Errorf ''entity path differs from run path'')
      else bind_result (validateWireTransitionLocation (ent_Location entity)) (\<lambda>_.
        if ent_Symbol entity \<noteq> [] \<and> ent_SymbolUnresolved entity
        then Inl (Errorf ''entity cannot be both resolved and unresolved'')
        else
          bind_result (optionalCode (ent_Callability entity \<noteq> [])
            (wireTransitionCallabilityCode (ent_Callability entity) tableSchema)) (\<lambda>callability.
          bind_result (optionalCode (Constructability_IsPresent (ent_Constructability entity))
            (wireTransitionConstructabilityCode (ent_Constructability entity))) (\<lambda>constructability.
          bind_result (optionalCode (ent_ReferenceSpace entity \<noteq> [])
            (wireTransitionReferenceSpaceCode (ent_ReferenceSpace entity))) (\<lambda>referenceSpace.
          bind_result (optionalCode (ent_ArrayShape entity \<noteq> [])
            (wireTransitionArrayShapeCode (ent_ArrayShape entity))) (\<lambda>arrayShape.
          bind_result (tupleElementZeroCode tableSchema (ent_TupleShape entity)) (\<lambda>tupleElementZero.
          Inr \<lparr>ec_callability = callability, ec_constructability = constructability,
            ec_referenceSpace = referenceSpace, ec_arrayShape = arrayShape,
            ec_tupleElementZero = tupleElementZero\<rparr>))))))) "

definition entityFlags :: "u64 \<Rightarrow> EntityFact \<Rightarrow> u64" where
  "entityFlags tableSchema entity =
     bitIf (ent_TypeDescriptor entity \<noteq> None) 0 OR
     bitIf (ent_ResolvedCall entity \<noteq> None) 1 OR
     bitIf (ent_Callability entity \<noteq> []) 2 OR
     bitIf (ent_ReferenceSpace entity \<noteq> []) 3 OR
     bitIf (ent_RuntimeIdentity entity \<noteq> []) 4 OR
     bitIf (ent_RuntimeValueDomain entity \<noteq> None) 5 OR
     bitIf (TypeFactsTableSchemaVersionV7 \<le> tableSchema \<and> ent_CallResultDomain entity \<noteq> None) 7 OR
     bitIf (TypeFactsTableSchemaVersionV8 \<le> tableSchema \<and> ent_ConstantValue entity \<noteq> None) 8 OR
     bitIf (TypeFactsTableSchemaVersionV9 \<le> tableSchema \<and> ent_ArrayShape entity \<noteq> []) 9 OR
     bitIf (TypeFactsTableSchemaVersionV11 \<le> tableSchema \<and> ent_TupleShape entity \<noteq> None) 10 OR
     bitIf (TypeFactsTableSchemaVersionV12 \<le> tableSchema \<and> elems (ent_LibraryTypes entity) \<noteq> []) 11 OR
     bitIf (TypeFactsTableSchemaVersionV13 \<le> tableSchema \<and> pvd_IsPresent (ent_PrimitiveValueDomain entity)) 12 OR
     bitIf (TypeFactsTableSchemaVersionV14 \<le> tableSchema \<and>
       Constructability_IsPresent (ent_Constructability entity)) 13 OR
     bitIf (TypeFactsTableSchemaVersionV16 \<le> tableSchema \<and> ent_PrimitiveLiteralCandidates entity \<noteq> []) 14 OR
     bitIf (TypeFactsTableSchemaVersionV5 \<le> tableSchema \<and> ent_SymbolUnresolved entity) 6"

definition writeConstantValue :: "ConstantValue \<Rightarrow> ('a, unit) action" where
  "writeConstantValue value =
     (if cv_Kind value = ''string'' then run_all [pw_u64 0, pw_text (cv_String value)]
      else if cv_Kind value = ''number'' then run_all [pw_u64 1, pw_u64 (cv_Number value)]
      else fail (Errorf ''entity has unknown constant-value kind''))"

definition writeTupleShape :: "u64 \<Rightarrow> u64 \<Rightarrow> TupleShape \<Rightarrow> ('a, unit) action" where
  "writeTupleShape tableSchema elementZero shape =
     run_all
       [pw_u64 (push_bit 1 (uint64 (ts_FixedLength shape)) OR (if ts_HasRest shape then 1 else 0)),
        pw_u64 elementZero,
        pw_u64 (uint64 (ts_ElementZeroMinimumParameters shape)),
        whenA (TypeFactsTableSchemaVersionV13 \<le> tableSchema)
          (pw_u64 (if ts_ExactLengthKnown shape then uint64 (ts_ExactLength shape) + 1 else 0))]"

definition writeLiteralCandidate :: "PrimitiveLiteralCandidate \<Rightarrow> ('a, unit) action" where
  "writeLiteralCandidate candidate =
     (if plc_Kind candidate = ''string'' then run_all [pw_u64 0, pw_text (plc_String candidate)]
      else if plc_Kind candidate = ''number'' then
        (if IsNaN (plc_Number candidate) \<or> IsInf (plc_Number candidate)
         then fail (Errorf ''entity has non-finite primitive literal candidate'')
         else run_all [pw_u64 1, pw_u64 (plc_Number candidate)])
      else if plc_Kind candidate = ''boolean''
      then run_all [pw_u64 2, pw_u64 (if plc_Boolean candidate then 1 else 0)]
      else fail (Errorf ''entity has unknown primitive literal kind''))"

definition writeEntity :: "string \<Rightarrow> u64 \<Rightarrow> EntityFact \<Rightarrow> u64 \<Rightarrow> ('a, u64) action" where
  "writeEntity path tableSchema entity previousStart =
     bindA (liftR (encodeEntityCodes path tableSchema entity)) (\<lambda>codes.
       let start = uint64 (loc_StartByte (ent_Location entity)) in
       bindA (run_all
         [pw_signed (start - previousStart),
          pw_u64 (uint64 (loc_EndByte (ent_Location entity) - loc_StartByte (ent_Location entity))),
          pw_text (ent_Symbol entity),
          pw_u64 (entityFlags tableSchema entity),
          (case ent_TypeDescriptor entity of None \<Rightarrow> ret () | Some d \<Rightarrow> internalTypeDescriptor d),
          (case ent_ResolvedCall entity of None \<Rightarrow> ret ()
           | Some c \<Rightarrow> writeWireTransitionResolvedCall c tableSchema),
          whenA (ent_Callability entity \<noteq> []) (pw_u64 (ec_callability codes)),
          whenA (ent_ReferenceSpace entity \<noteq> []) (pw_u64 (ec_referenceSpace codes)),
          whenA (ent_RuntimeIdentity entity \<noteq> []) (pw_text (ent_RuntimeIdentity entity)),
          (case ent_RuntimeValueDomain entity of None \<Rightarrow> ret ()
           | Some d \<Rightarrow> pw_u64 (wireTransitionRuntimeValueDomainBits d)),
          (case ent_CallResultDomain entity of None \<Rightarrow> ret ()
           | Some d \<Rightarrow> whenA (TypeFactsTableSchemaVersionV7 \<le> tableSchema)
               (pw_u64 (wireTransitionRuntimeValueDomainBits d))),
          (case ent_ConstantValue entity of None \<Rightarrow> ret ()
           | Some v \<Rightarrow> whenA (TypeFactsTableSchemaVersionV8 \<le> tableSchema) (writeConstantValue v)),
          whenA (TypeFactsTableSchemaVersionV9 \<le> tableSchema \<and> ent_ArrayShape entity \<noteq> [])
            (pw_u64 (ec_arrayShape codes)),
          (case ent_TupleShape entity of None \<Rightarrow> ret ()
           | Some t \<Rightarrow> whenA (TypeFactsTableSchemaVersionV11 \<le> tableSchema)
               (writeTupleShape tableSchema (ec_tupleElementZero codes) t)),
          whenA (TypeFactsTableSchemaVersionV12 \<le> tableSchema \<and> elems (ent_LibraryTypes entity) \<noteq> [])
            (run_all (pw_count (elems (ent_LibraryTypes entity)) # map pw_text (elems (ent_LibraryTypes entity)))),
          whenA (TypeFactsTableSchemaVersionV13 \<le> tableSchema \<and> pvd_IsPresent (ent_PrimitiveValueDomain entity))
            (pw_u64 (wireTransitionPrimitiveValueDomainBits (ent_PrimitiveValueDomain entity))),
          whenA (TypeFactsTableSchemaVersionV14 \<le> tableSchema \<and>
              Constructability_IsPresent (ent_Constructability entity))
            (pw_u64 (ec_constructability codes)),
          whenA (TypeFactsTableSchemaVersionV16 \<le> tableSchema \<and> ent_PrimitiveLiteralCandidates entity \<noteq> [])
            (run_all (pw_count (ent_PrimitiveLiteralCandidates entity) #
              map writeLiteralCandidate (ent_PrimitiveLiteralCandidates entity)))])
       (\<lambda>_. ret start))"

definition writeWireTransitionEntityRun :: "string \<Rightarrow> EntityFact list \<Rightarrow> u64 \<Rightarrow> ('a, unit) action" where
  "writeWireTransitionEntityRun path entities tableSchema =
     bindA (pw_count entities) (\<lambda>_.
     bindA (loopA (writeEntity path tableSchema) entities 0) (\<lambda>_. ret ()))"

section \<open>File bodies\<close>

definition writeBinding :: "SourceBinding \<Rightarrow> ('a, unit) action" where
  "writeBinding binding =
     run_all [pw_u64 (bitIf (sb_Array binding) 0), internalLocations (sb_Names binding),
       internalSourceCall (sb_Initializer binding)]"

definition writeFunction :: "SourceFunction \<Rightarrow> ('a, unit) action" where
  "writeFunction function =
     bindA (internalLocation (sf_Name function) noLocationState) (\<lambda>state.
     bindA (internalLocation (sf_Body function) state) (\<lambda>_.
     run_all [internalLocations (sf_Parameters function),
       pw_u64 (bitIf (sf_Exported function) 0 OR bitIf (sf_Async function) 1 OR bitIf (sf_Arrow function) 2)]))"

definition writeAsyncFunction :: "AsyncFunctionFact \<Rightarrow> ('a, unit) action" where
  "writeAsyncFunction function =
     bindA (internalLocation (af_Expression function) noLocationState) (\<lambda>_.
     run_all [pw_text (af_Symbol function), pw_text (af_Target function),
       pw_u64 (bitIf (af_CanReturnAsync function) 0), internalLocations (af_CallsAfterAwait function)])"

definition writeWireTransitionFileBody :: "FileFact \<Rightarrow> ('a, unit) action" where
  "writeWireTransitionFileBody file =
     run_all
       [run_all (pw_count (file_Calls file) # map internalSourceCall (file_Calls file)),
        run_all (pw_count (file_Bindings file) # map writeBinding (file_Bindings file)),
        run_all (pw_count (file_Functions file) # map writeFunction (file_Functions file)),
        run_all (pw_count (file_AsyncFunctions file) # map writeAsyncFunction (file_AsyncFunctions file))]"

section \<open>Operations\<close>

definition validateWireTransitionCollectionOp :: "wireTransitionCollectionOp \<Rightarrow> unit result" where
  "validateWireTransitionCollectionOp operation =
     (if operation = wireTransitionUnchanged \<or> operation = wireTransitionReplace \<or> operation = wireTransitionRemove
      then Inr () else Inl (Errorf ''collection operation''))"

definition wireTransitionPathFlags :: "wireTransitionPathOp \<Rightarrow> u64 result" where
  "wireTransitionPathFlags operation =
     bind_result (validateWireTransitionCollectionOp (po_sourceOp operation)) (\<lambda>_.
     bind_result (validateWireTransitionCollectionOp (po_entityOp operation)) (\<lambda>_.
     bind_result (validateWireTransitionCollectionOp (po_fileOp operation)) (\<lambda>_.
     Inr (push_bit 0 (po_sourceOp operation) OR push_bit 2 (po_entityOp operation) OR
       push_bit 4 (po_fileOp operation)))))"

definition writeWireTransitionPathOp :: "wireTransitionPathOp \<Rightarrow> u64 \<Rightarrow> ('a, unit) action" where
  "writeWireTransitionPathOp operation tableSchema =
     bindA (failIf (po_path operation = []) ''path operation has an empty path'') (\<lambda>_.
     bindA (liftR (wireTransitionPathFlags operation)) (\<lambda>flags.
     run_all
       [pw_text (po_path operation), pw_u64 flags,
        whenA (po_sourceOp operation = wireTransitionReplace)
          (bindA (failIf (dig_Path (po_source operation) \<noteq> po_path operation)
            ''source replacement path differs from operation path'') (\<lambda>_.
            pw_raw (dig_SHA256 (po_source operation)))),
        whenA (po_entityOp operation = wireTransitionReplace)
          (writeWireTransitionEntityRun (po_path operation) (po_entities operation) tableSchema),
        whenA (po_fileOp operation = wireTransitionReplace)
          (bindA (failIf (file_Path (po_file operation) \<noteq> po_path operation)
            ''file replacement path differs from operation path'') (\<lambda>_.
            writeWireTransitionFileBody (po_file operation)))]))"

type_synonym wireTransitionMode = u64
definition wireTransitionFull :: wireTransitionMode where "wireTransitionFull = 0"
definition wireTransitionDelta :: wireTransitionMode where "wireTransitionDelta = 1"

definition validateReference :: "string \<Rightarrow> Location \<Rightarrow> ('a, unit) action" where
  "validateReference path reference =
     bindA (failIf (loc_Path reference \<noteq> path) ''reference path differs from operation path'') (\<lambda>_.
       liftR (validateWireTransitionLocation reference))"

definition writeWireTransitionSymbolOp ::
    "wireTransitionMode \<Rightarrow> wireTransitionSymbolOp \<Rightarrow> ('a, unit) action" where
  "writeWireTransitionSymbolOp mode operation =
     bindA (failIf (so_id operation = []) ''symbol operation has an empty ID'') (\<lambda>_.
     bindA (failIf (so_tag operation \<notin>
         {wireTransitionReplaceSymbol, wireTransitionRemoveSymbol, wireTransitionReplaceReferencePath})
       ''symbol operation tag'') (\<lambda>_.
     bindA (pw_intern (so_id operation)) (\<lambda>sid.
     bindA (if mode = wireTransitionFull
            then bindA (failIf (so_tag operation \<noteq> wireTransitionReplaceSymbol)
              ''full symbol operation tag, want replace'') (\<lambda>_. pw_u64 sid)
            else pw_u64 (push_bit 2 sid OR so_tag operation)) (\<lambda>_.
     if so_tag operation = wireTransitionReplaceSymbol then
       bindA (failIf (sym_ID (so_fact operation) \<noteq> so_id operation)
         ''symbol replacement ID differs from operation ID'') (\<lambda>_.
       run_all
         [pw_text (sym_AliasTarget (so_fact operation)),
          internalDeclarations (sym_Declarations (so_fact operation)),
          (if sym_AliasTarget (so_fact operation) = []
           then internalLocations (sym_References (so_fact operation)) else pw_u64 0)])
     else if so_tag operation = wireTransitionReplaceReferencePath then
       bindA (failIf (so_referencePath operation = []) ''symbol reference operation has an empty path'') (\<lambda>_.
       run_all (pw_text (so_referencePath operation) #
         map (validateReference (so_referencePath operation)) (so_references operation) @
         [internalLocations (so_references operation)]))
     else ret ()))))"

end
