(* ===== verification/Wire_Delta.thy ===== *)
theory Wire_Delta
  imports Wire_Diff Retained_Store
begin

text \<open>
  What the plans of a wire transition mean: a client that holds the rows of the base table and applies
  the planned operations in order holds the rows of the target table. The client is a map from paths to
  row collections and a map from symbols to rows; the merge of two ordered row streams is verified once,
  in the locale \<open>keyed_delta\<close>, and used for path rows and for symbol rows.
\<close>

section \<open>The cursor visits every path once, in order\<close>

text \<open>One step of an ordered stream past a path that is not after its head.\<close>

definition stream_step :: "('a \<Rightarrow> string) \<Rightarrow> string \<Rightarrow> 'a list \<Rightarrow> 'a list" where
  "stream_step key p xs = (if xs \<noteq> [] \<and> key (hd xs) = p then tl xs else xs)"

lemma stream_step:
  assumes "strict_keys key xs" and "\<forall>x \<in> set xs. p \<le> key x"
  shows "strict_keys key (stream_step key p xs)"
    and "\<forall>x \<in> set (stream_step key p xs). p < key x"
    and "map_by key xs p = (if xs \<noteq> [] \<and> key (hd xs) = p then Some (hd xs) else None)"
    and "q \<noteq> p \<Longrightarrow> map_by key (stream_step key p xs) q = map_by key xs q"
proof -
  have "strict_keys key (stream_step key p xs) \<and> (\<forall>x \<in> set (stream_step key p xs). p < key x) \<and>
    map_by key xs p = (if xs \<noteq> [] \<and> key (hd xs) = p then Some (hd xs) else None) \<and>
    (q \<noteq> p \<longrightarrow> map_by key (stream_step key p xs) q = map_by key xs q)"
  proof (cases xs)
    case (Cons x rest)
    show ?thesis
    proof (cases "key x = p")
      case True
      then show ?thesis using assms Cons by (auto simp: stream_step_def strict_keys_Cons)
    next
      case False
      then have "p < key x" using assms(2) Cons by (simp add: order_less_le)
      moreover from this have "\<forall>y \<in> set rest. p < key y"
        using assms(1) Cons by (auto simp: strict_keys_Cons)
      moreover from this have "map_by key rest p = None" by (intro map_by_eqI) auto
      ultimately show ?thesis using assms(1) Cons False by (auto simp: stream_step_def)
    qed
  qed (simp add: stream_step_def)
  then show "strict_keys key (stream_step key p xs)" "\<forall>x \<in> set (stream_step key p xs). p < key x"
    "map_by key xs p = (if xs \<noteq> [] \<and> key (hd xs) = p then Some (hd xs) else None)"
    "q \<noteq> p \<Longrightarrow> map_by key (stream_step key p xs) q = map_by key xs q" by auto
qed

lemma strict_keys_hd_le: "strict_keys key xs \<Longrightarrow> xs \<noteq> [] \<Longrightarrow> p \<le> key (hd xs) \<Longrightarrow> x \<in> set xs \<Longrightarrow> p \<le> key x"
  by (cases xs) (auto simp: strict_keys_Cons dest: order_le_less_trans)

lemma stream_least:
  assumes "strict_keys key (drop i xs)" and "i < length xs \<Longrightarrow> p \<le> key (xs ! i)"
  shows "\<forall>x \<in> set (drop i xs). p \<le> key x"
proof (cases "i < length xs")
  case True
  then show ?thesis
    using strict_keys_hd_le[OF assms(1), of p] assms(2) by (simp add: hd_drop_conv_nth)
qed simp

text \<open>The runs of a row list in path order.\<close>

function group_runs :: "EntityFact list \<Rightarrow> EntityFact list list" where
  "group_runs [] = []"
| "group_runs (e # es) =
     (e # takeWhile (\<lambda>x. entity_path x = entity_path e) es) #
       group_runs (dropWhile (\<lambda>x. entity_path x = entity_path e) es)"
  by pat_completeness auto
termination
  by (relation "measure length") (auto simp: le_imp_less_Suc length_dropWhile_le)

lemma concat_group_runs [simp]: "concat (group_runs es) = es"
  by (induction es rule: group_runs.induct) auto

lemma dropWhile_sorted_gt:
  assumes "sorted (map entity_path (e # es))" and "x \<in> set (dropWhile (\<lambda>x. entity_path x = entity_path e) es)"
  shows "entity_path e < entity_path x"
proof -
  let ?rest = "dropWhile (\<lambda>x. entity_path x = entity_path e) es"
  have ne: "?rest \<noteq> []" using assms(2) by (metis empty_iff empty_set)
  have "sorted (map entity_path ?rest)"
    using assms(1) sorted_append[of "map entity_path (takeWhile (\<lambda>x. entity_path x = entity_path e) es)" "map entity_path ?rest"]
    by (simp flip: map_append)
  moreover have "entity_path (hd ?rest) \<noteq> entity_path e" using hd_dropWhile[OF ne] by simp
  moreover have "entity_path e \<le> entity_path (hd ?rest)"
    using assms(1) set_dropWhileD[OF hd_in_set[OF ne]] by simp
  ultimately show ?thesis
    using assms(2) by (cases ?rest) (auto simp: order_less_le)
qed

lemma runs_ok_group_runs: "sorted (map entity_path es) \<Longrightarrow> runs_ok (group_runs es)"
proof (induction es rule: group_runs.induct)
  case (2 e es)
  let ?rest = "dropWhile (\<lambda>x. entity_path x = entity_path e) es"
  have "sorted (map entity_path ?rest)"
    using "2.prems" sorted_append[of "map entity_path (takeWhile (\<lambda>x. entity_path x = entity_path e) es)" "map entity_path ?rest"]
    by (simp flip: map_append)
  then have ok: "runs_ok (group_runs ?rest)" using "2.IH" by simp
  have "entity_path e < run_path run" if run: "run \<in> set (group_runs ?rest)" for run
  proof -
    have "run \<noteq> []" using ok run unfolding runs_ok_def by blast
    then have "hd run \<in> (\<Union>r \<in> set (group_runs ?rest). set r)" using run by (meson UN_I hd_in_set)
    then have "hd run \<in> set ?rest" unfolding set_concat[symmetric] concat_group_runs .
    then show ?thesis using dropWhile_sorted_gt[OF "2.prems"] by (simp add: run_path_def)
  qed
  then have strict: "strict_keys run_path (group_runs (e # es))"
    using conjunct1[OF ok[unfolded runs_ok_def]] by (simp add: strict_keys_Cons run_path_def)
  have "\<forall>x \<in> set (e # takeWhile (\<lambda>x. entity_path x = entity_path e) es). entity_path x = entity_path e"
    by (auto dest: set_takeWhileD)
  then have head: "\<forall>x \<in> set (hd (group_runs (e # es))). entity_path x = run_path (hd (group_runs (e # es)))"
    unfolding group_runs.simps list.sel run_path_def .
  have "run \<noteq> [] \<and> (\<forall>x \<in> set run. entity_path x = run_path run)" if "run \<in> set (group_runs (e # es))" for run
  proof (cases "run = hd (group_runs (e # es))")
    case True
    show ?thesis unfolding True using head by (metis group_runs.simps(2) list.discI list.sel(1))
  next
    case False
    then have "run \<in> set (group_runs ?rest)" using that by simp
    then show ?thesis using ok unfolding runs_ok_def by blast
  qed
  then show ?case using strict unfolding runs_ok_def by blast
qed (simp add: runs_ok_def)

text \<open>The runs the cursor has still to visit.\<close>

definition entity_stream :: "FactTable \<Rightarrow> nat \<Rightarrow> EntityFact list list" where
  "entity_stream t i = (case ft_entityRuns t of Some runs \<Rightarrow> drop i runs | None \<Rightarrow> group_runs (drop i (ft_Entities t)))"

lemma drop_entityPathEnd:
  assumes "i < length es"
  shows "take (entityPathEnd es i - i) (drop i es) = es ! i # takeWhile (\<lambda>x. entity_path x = entity_path (es ! i)) (drop (Suc i) es)"
    and "drop (entityPathEnd es i) es = dropWhile (\<lambda>x. entity_path x = entity_path (es ! i)) (drop (Suc i) es)"
proof -
  let ?P = "\<lambda>x. entity_path x = entity_path (es ! i)"
  have d: "drop i es = es ! i # drop (Suc i) es" using assms by (simp add: Cons_nth_drop_Suc)
  have len: "entityPathEnd es i = Suc i + length (takeWhile ?P (drop (Suc i) es))"
    by (simp add: entityPathEnd_def entityRunEnd_takeWhile)
  show "take (entityPathEnd es i - i) (drop i es) = es ! i # takeWhile ?P (drop (Suc i) es)"
    unfolding len d by (simp add: takeWhile_eq_take[symmetric])
  show "drop (entityPathEnd es i) es = dropWhile ?P (drop (Suc i) es)"
    unfolding len by (metis add.commute drop_drop dropWhile_eq_drop)
qed

lemma entity_stream_head:
  "wc_entity c < wireTransitionEntityRunCount t \<longleftrightarrow> entity_stream t (wc_entity c) \<noteq> []"
  "wc_entity c < wireTransitionEntityRunCount t \<Longrightarrow>
     run_path (hd (entity_stream t (wc_entity c))) = wireTransitionEntityRunPath t (wc_entity c) \<and>
     hd (entity_stream t (wc_entity c)) = wireTransitionEntityRun t (wc_entity c) \<and>
     tl (entity_stream t (wc_entity c)) = entity_stream t
       (case ft_entityRuns t of Some _ \<Rightarrow> wc_entity c + 1 | None \<Rightarrow> entityPathEnd (ft_Entities t) (wc_entity c))"
proof -
  let ?i = "wc_entity c"
  have group: "group_runs (drop ?i es) = (es ! ?i # takeWhile (\<lambda>x. entity_path x = entity_path (es ! ?i)) (drop (Suc ?i) es)) #
      group_runs (dropWhile (\<lambda>x. entity_path x = entity_path (es ! ?i)) (drop (Suc ?i) es))"
    if "?i < length es" for es using that by (simp flip: Cons_nth_drop_Suc)
  show "?i < wireTransitionEntityRunCount t \<longleftrightarrow> entity_stream t ?i \<noteq> []"
    using group[of "ft_Entities t"]
    by (cases "?i < length (ft_Entities t)")
       (auto simp: wireTransitionEntityRunCount_def entity_stream_def split: option.split)
  show "run_path (hd (entity_stream t ?i)) = wireTransitionEntityRunPath t ?i \<and>
     hd (entity_stream t ?i) = wireTransitionEntityRun t ?i \<and>
     tl (entity_stream t ?i) = entity_stream t
       (case ft_entityRuns t of Some _ \<Rightarrow> ?i + 1 | None \<Rightarrow> entityPathEnd (ft_Entities t) ?i)"
    if lt: "?i < wireTransitionEntityRunCount t"
  proof (cases "ft_entityRuns t")
    case None
    then have "?i < length (ft_Entities t)" using lt by (simp add: wireTransitionEntityRunCount_def)
    then show ?thesis
      using None group[of "ft_Entities t"] drop_entityPathEnd[of ?i "ft_Entities t"]
      by (simp add: entity_stream_def wireTransitionEntityRunPath_def wireTransitionEntityRun_def run_path_def)
  next
    case (Some runs)
    then show ?thesis
      using lt by (simp add: entity_stream_def wireTransitionEntityRunPath_def wireTransitionEntityRun_def
        wireTransitionEntityRunCount_def hd_drop_conv_nth tl_drop drop_Suc)
  qed
qed

definition streams_ok :: "FactTable \<Rightarrow> wireTransitionTablePathCursor \<Rightarrow> bool" where
  "streams_ok t c \<longleftrightarrow> strict_keys dig_Path (drop (wc_source c) (ft_sourceDigests t)) \<and>
     strict_keys run_path (entity_stream t (wc_entity c)) \<and> strict_keys file_Path (drop (wc_file c) (ft_Files t))"

definition stream_paths :: "FactTable \<Rightarrow> wireTransitionTablePathCursor \<Rightarrow> string set" where
  "stream_paths t c = dig_Path ` set (drop (wc_source c) (ft_sourceDigests t)) \<union>
     run_path ` set (entity_stream t (wc_entity c)) \<union> file_Path ` set (drop (wc_file c) (ft_Files t))"

definition stream_rows :: "FactTable \<Rightarrow> wireTransitionTablePathCursor \<Rightarrow> string \<Rightarrow> wireTransitionPathRows" where
  "stream_rows t c p =
     \<lparr>pr_path = p,
      pr_source = map_by dig_Path (drop (wc_source c) (ft_sourceDigests t)) p,
      pr_entities = (case map_by run_path (entity_stream t (wc_entity c)) p of None \<Rightarrow> [] | Some run \<Rightarrow> run),
      pr_file = map_by file_Path (drop (wc_file c) (ft_Files t)) p\<rparr>"

text \<open>The cursor's path is the least head of its three streams.\<close>

lemma cursor_path_least:
  assumes "streams_ok t c"
  shows "\<forall>x \<in> set (drop (wc_source c) (ft_sourceDigests t)). cursor_path t c \<le> dig_Path x"
    and "\<forall>x \<in> set (entity_stream t (wc_entity c)). cursor_path t c \<le> run_path x"
    and "\<forall>x \<in> set (drop (wc_file c) (ft_Files t)). cursor_path t c \<le> file_Path x"
proof -
  have s: "cursor_path t c \<le> dig_Path (ft_sourceDigests t ! wc_source c)" if "wc_source c < length (ft_sourceDigests t)"
    using that by (auto simp: cursor_path_def Let_def considerPath_def split: option.splits if_splits)
  have e: "cursor_path t c \<le> wireTransitionEntityRunPath t (wc_entity c)" if "wc_entity c < wireTransitionEntityRunCount t"
    using that by (auto simp: cursor_path_def Let_def considerPath_def split: option.splits if_splits)
  have f: "cursor_path t c \<le> file_Path (ft_Files t ! wc_file c)" if "wc_file c < length (ft_Files t)"
    using that by (auto simp: cursor_path_def Let_def considerPath_def split: option.splits if_splits)
  show "\<forall>x \<in> set (drop (wc_source c) (ft_sourceDigests t)). cursor_path t c \<le> dig_Path x"
    using assms s unfolding streams_ok_def by (intro stream_least) auto
  show "\<forall>x \<in> set (entity_stream t (wc_entity c)). cursor_path t c \<le> run_path x"
  proof (cases "wc_entity c < wireTransitionEntityRunCount t")
    case True
    have "entity_stream t (wc_entity c) \<noteq> []" using True entity_stream_head(1)[of c t] by blast
    moreover have "cursor_path t c \<le> run_path (hd (entity_stream t (wc_entity c)))"
      using e[OF True] conjunct1[OF entity_stream_head(2)[OF True]] by simp
    ultimately show ?thesis
      using assms strict_keys_hd_le[of run_path "entity_stream t (wc_entity c)" "cursor_path t c"]
      unfolding streams_ok_def by blast
  next
    case False
    then have "entity_stream t (wc_entity c) = []" using entity_stream_head(1)[of c t] by blast
    then show ?thesis by simp
  qed
  show "\<forall>x \<in> set (drop (wc_file c) (ft_Files t)). cursor_path t c \<le> file_Path x"
    using assms f unfolding streams_ok_def by (intro stream_least) auto
qed

text \<open>Advancing the cursor steps each stream past the path.\<close>

lemma cursor_next_streams:
  "drop (wc_source (cursor_next t c)) (ft_sourceDigests t) =
     stream_step dig_Path (cursor_path t c) (drop (wc_source c) (ft_sourceDigests t))"
  "entity_stream t (wc_entity (cursor_next t c)) =
     stream_step run_path (cursor_path t c) (entity_stream t (wc_entity c))"
  "drop (wc_file (cursor_next t c)) (ft_Files t) =
     stream_step file_Path (cursor_path t c) (drop (wc_file c) (ft_Files t))"
proof -
  show "drop (wc_source (cursor_next t c)) (ft_sourceDigests t) =
     stream_step dig_Path (cursor_path t c) (drop (wc_source c) (ft_sourceDigests t))"
    by (cases "wc_source c < length (ft_sourceDigests t)")
       (auto simp: cursor_next_def stream_step_def source_here_def hd_drop_conv_nth tl_drop drop_Suc)
  show "entity_stream t (wc_entity (cursor_next t c)) =
     stream_step run_path (cursor_path t c) (entity_stream t (wc_entity c))"
  proof (cases "wc_entity c < wireTransitionEntityRunCount t")
    case True
    have "entity_stream t (wc_entity c) \<noteq> []" using True entity_stream_head(1)[of c t] by blast
    then show ?thesis
      using True conjunct1[OF entity_stream_head(2)[OF True]]
        conjunct2[OF conjunct2[OF entity_stream_head(2)[OF True]]]
      by (simp add: cursor_next_def stream_step_def entity_here_def)
  next
    case False
    then have "entity_stream t (wc_entity c) = []" using entity_stream_head(1)[of c t] by blast
    then show ?thesis using False by (simp add: cursor_next_def stream_step_def entity_here_def)
  qed
  show "drop (wc_file (cursor_next t c)) (ft_Files t) =
     stream_step file_Path (cursor_path t c) (drop (wc_file c) (ft_Files t))"
    by (cases "wc_file c < length (ft_Files t)")
       (auto simp: cursor_next_def stream_step_def file_here_def hd_drop_conv_nth tl_drop drop_Suc)
qed

lemma stream_step_keys:
  assumes "strict_keys key xs" and "\<forall>x \<in> set xs. p \<le> key x"
  shows "key ` set (stream_step key p xs) = key ` set xs - {p}"
proof (cases xs)
  case (Cons x rest)
  have gt: "\<forall>y \<in> set rest. p < key y"
  proof
    fix y assume "y \<in> set rest"
    then have "key x < key y" "p \<le> key x" using assms Cons by (auto simp: strict_keys_Cons)
    then show "p < key y" by (rule order_le_less_trans[rotated])
  qed
  then show ?thesis using Cons by (auto simp: stream_step_def)
qed (simp add: stream_step_def)

lemma cursor_next_ok:
  assumes "streams_ok t c"
  shows "streams_ok t (cursor_next t c)"
    and "stream_paths t (cursor_next t c) = stream_paths t c - {cursor_path t c}"
    and "\<forall>p \<in> stream_paths t (cursor_next t c). cursor_path t c < p"
    and "q \<noteq> cursor_path t c \<Longrightarrow> stream_rows t (cursor_next t c) q = stream_rows t c q"
proof -
  note ok = assms[unfolded streams_ok_def]
  note least = cursor_path_least[OF assms]
  note src = stream_step[OF conjunct1[OF ok] least(1)]
  note ent = stream_step[OF conjunct1[OF conjunct2[OF ok]] least(2)]
  note fil = stream_step[OF conjunct2[OF conjunct2[OF ok]] least(3)]
  show "streams_ok t (cursor_next t c)"
    unfolding streams_ok_def cursor_next_streams using src(1) ent(1) fil(1) by blast
  show "stream_paths t (cursor_next t c) = stream_paths t c - {cursor_path t c}"
    unfolding stream_paths_def cursor_next_streams stream_step_keys[OF conjunct1[OF ok] least(1)]
      stream_step_keys[OF conjunct1[OF conjunct2[OF ok]] least(2)]
      stream_step_keys[OF conjunct2[OF conjunct2[OF ok]] least(3)] by (simp only: Un_Diff)
  show "\<forall>p \<in> stream_paths t (cursor_next t c). cursor_path t c < p"
    unfolding stream_paths_def cursor_next_streams using src(2) ent(2) fil(2) by blast
  show "stream_rows t (cursor_next t c) q = stream_rows t c q" if "q \<noteq> cursor_path t c"
    unfolding stream_rows_def cursor_next_streams using src(4)[OF that] ent(4)[OF that] fil(4)[OF that] by presburger
qed

lemma cursor_rows_stream:
  assumes "streams_ok t c"
  shows "cursor_rows t c = stream_rows t c (cursor_path t c)"
proof -
  note ok = assms[unfolded streams_ok_def]
  note least = cursor_path_least[OF assms]
  have src: "map_by dig_Path (drop (wc_source c) (ft_sourceDigests t)) (cursor_path t c) =
      (if source_here t c then Some (ft_sourceDigests t ! wc_source c) else None)"
    unfolding stream_step(3)[OF conjunct1[OF ok] least(1)] source_here_def by (auto simp: hd_drop_conv_nth)
  have fil: "map_by file_Path (drop (wc_file c) (ft_Files t)) (cursor_path t c) =
      (if file_here t c then Some (ft_Files t ! wc_file c) else None)"
    unfolding stream_step(3)[OF conjunct2[OF conjunct2[OF ok]] least(3)] file_here_def by (auto simp: hd_drop_conv_nth)
  have ent: "map_by run_path (entity_stream t (wc_entity c)) (cursor_path t c) =
      (if entity_here t c then Some (wireTransitionEntityRun t (wc_entity c)) else None)"
  proof (cases "wc_entity c < wireTransitionEntityRunCount t")
    case True
    have "entity_stream t (wc_entity c) \<noteq> []" using True entity_stream_head(1)[of c t] by blast
    then show ?thesis
      unfolding stream_step(3)[OF conjunct1[OF conjunct2[OF ok]] least(2)] entity_here_def
      using True conjunct1[OF entity_stream_head(2)[OF True]]
        conjunct1[OF conjunct2[OF entity_stream_head(2)[OF True]]] by simp
  next
    case False
    then have "entity_stream t (wc_entity c) = []" using entity_stream_head(1)[of c t] by blast
    then show ?thesis using False by (simp add: entity_here_def)
  qed
  show ?thesis unfolding cursor_rows_def stream_rows_def src fil ent by simp
qed

lemma cursor_valid_paths:
  "cursor_valid t c \<Longrightarrow> cursor_path t c \<in> stream_paths t c"
  "\<not> cursor_valid t c \<Longrightarrow> stream_paths t c = {}"
proof -
  have mem: "xs ! i \<in> set (drop i xs)" if "i < length xs" for i and xs :: "'a list"
    using that by (metis Cons_nth_drop_Suc list.set_intros(1))
  show "cursor_path t c \<in> stream_paths t c" if "cursor_valid t c"
    using cursor_path_here[OF that]
  proof (elim disjE)
    assume "source_here t c"
    then show ?thesis unfolding source_here_def stream_paths_def
      using mem[of "wc_source c" "ft_sourceDigests t"] by (metis UnI1 imageI)
  next
    assume e: "entity_here t c"
    then have lt: "wc_entity c < wireTransitionEntityRunCount t" by (simp add: entity_here_def)
    have "entity_stream t (wc_entity c) \<noteq> []" using lt entity_stream_head(1)[of c t] by blast
    then have "hd (entity_stream t (wc_entity c)) \<in> set (entity_stream t (wc_entity c))" by simp
    then show ?thesis
      using e conjunct1[OF entity_stream_head(2)[OF lt]] unfolding entity_here_def stream_paths_def
      by (metis UnI1 UnI2 imageI)
  next
    assume "file_here t c"
    then show ?thesis unfolding file_here_def stream_paths_def
      using mem[of "wc_file c" "ft_Files t"] by (metis UnI2 imageI)
  qed
  show "stream_paths t c = {}" if "\<not> cursor_valid t c"
    using that entity_stream_head(1)[of c t] by (simp add: cursor_valid_def stream_paths_def)
qed

lemma cursor_walk_spec:
  assumes "streams_ok t c"
  shows "strict_keys pr_path (cursor_walk t c) \<and> pr_path ` set (cursor_walk t c) = stream_paths t c \<and>
    (\<forall>r \<in> set (cursor_walk t c). r = stream_rows t c (pr_path r))"
  using assms
proof (induction t c rule: cursor_walk.induct)
  case (1 t c)
  show ?case
  proof (cases "cursor_valid t c")
    case True
    note IH = "1.IH"[OF True cursor_next_ok(1)[OF "1.prems"]]
    have walk: "cursor_walk t c = cursor_rows t c # cursor_walk t (cursor_next t c)"
      using True by (simp add: cursor_walk.simps)
    have path: "pr_path (cursor_rows t c) = cursor_path t c" by (simp add: cursor_rows_def)
    have paths: "pr_path ` set (cursor_walk t (cursor_next t c)) = stream_paths t c - {cursor_path t c}"
      using IH cursor_next_ok(2)[OF "1.prems"] by simp
    have gt: "cursor_path t c < pr_path r" if "r \<in> set (cursor_walk t (cursor_next t c))" for r
      using that IH cursor_next_ok(3)[OF "1.prems"] by blast
    have "r = stream_rows t c (pr_path r)" if r: "r \<in> set (cursor_walk t (cursor_next t c))" for r
    proof -
      have "r = stream_rows t (cursor_next t c) (pr_path r)" using IH r by blast
      moreover have "pr_path r \<noteq> cursor_path t c" using gt[OF r] by (rule less_imp_neq[symmetric])
      ultimately show ?thesis using cursor_next_ok(4)[OF "1.prems"] by metis
    qed
    moreover have "cursor_rows t c = stream_rows t c (pr_path (cursor_rows t c))"
      unfolding path by (rule cursor_rows_stream[OF "1.prems"])
    ultimately have rows: "\<forall>r \<in> set (cursor_walk t c). r = stream_rows t c (pr_path r)"
      unfolding walk by (metis set_ConsD)
    have "pr_path ` set (cursor_walk t c) = stream_paths t c"
      unfolding walk using paths path cursor_valid_paths(1)[OF True] by auto
    moreover have "strict_keys pr_path (cursor_walk t c)"
      unfolding walk using IH gt path by (simp add: strict_keys_Cons)
    ultimately show ?thesis using rows by blast
  next
    case False
    then show ?thesis using cursor_valid_paths(2)[OF False] by (simp add: cursor_walk.simps)
  qed
qed

section \<open>The rows of a canonical table\<close>

lemma filter_concat_runs:
  assumes "runs_ok runs"
  shows "filter (\<lambda>e. entity_path e = p) (concat runs) = (case map_by run_path runs p of None \<Rightarrow> [] | Some run \<Rightarrow> run)"
proof -
  have t: "table_canonical (zeroFactTable\<lparr>ft_entityRuns := Some runs\<rparr>)"
    using assms by (simp add: table_canonical_def zeroFactTable_def)
  show ?thesis
    using wireTransitionEntityPath_filter[OF t, of p] conjunct1[OF assms[unfolded runs_ok_def]]
    by (simp add: wireTransitionEntityPath_def wireEntities_def lookup_key_map_by)
qed

lemma entity_stream_table:
  assumes "table_canonical t"
  shows "runs_ok (entity_stream t 0)" and "concat (entity_stream t 0) = wireEntities t"
  using assms runs_ok_group_runs[of "ft_Entities t"]
  by (auto simp: table_canonical_def entity_stream_def wireEntities_def split: option.splits)

lemma table_streams_ok: "table_canonical t \<Longrightarrow> streams_ok t newPathCursor"
  using entity_stream_table(1)[of t]
  by (simp add: streams_ok_def newPathCursor_def table_canonical_def runs_ok_def)

lemma stream_rows_table:
  assumes "table_canonical t"
  shows "stream_rows t newPathCursor p = wireTransitionPathRowsAt t p"
proof -
  have "wireTransitionEntityPath t p = (case map_by run_path (entity_stream t 0) p of None \<Rightarrow> [] | Some run \<Rightarrow> run)"
    using filter_concat_runs[OF entity_stream_table(1)[OF assms], of p]
    by (simp add: entity_stream_table(2)[OF assms] wireTransitionEntityPath_filter[OF assms])
  then show ?thesis
    using assms by (simp add: stream_rows_def newPathCursor_def wireTransitionPathRowsAt_def table_canonical_def
        wireTransitionSource_def canonicalFileFact_def lookup_key_map_by)
qed

definition table_paths :: "FactTable \<Rightarrow> string set" where
  "table_paths t = dig_Path ` set (ft_sourceDigests t) \<union> entity_path ` set (wireEntities t) \<union> file_Path ` set (ft_Files t)"

lemma run_paths_concat:
  assumes "runs_ok runs"
  shows "run_path ` set runs = entity_path ` set (concat runs)"
proof -
  have ok: "run \<noteq> [] \<and> (\<forall>e \<in> set run. entity_path e = run_path run)" if "run \<in> set runs" for run
    using that assms unfolding runs_ok_def by blast
  show ?thesis
  proof (intro set_eqI iffI)
    fix p assume "p \<in> run_path ` set runs"
    then obtain run where run: "run \<in> set runs" "p = run_path run" by blast
    then have "hd run \<in> set (concat runs)" using ok[OF run(1)] by (auto intro!: bexI[of _ run])
    then show "p \<in> entity_path ` set (concat runs)" using run(2) unfolding run_path_def by blast
  next
    fix p assume "p \<in> entity_path ` set (concat runs)"
    then obtain e run where e: "run \<in> set runs" "e \<in> set run" "p = entity_path e" by auto
    then have "p = run_path run" using ok by metis
    then show "p \<in> run_path ` set runs" using e(1) by blast
  qed
qed

lemma stream_paths_table: "table_canonical t \<Longrightarrow> stream_paths t newPathCursor = table_paths t"
  using run_paths_concat[OF entity_stream_table(1)[of t]] entity_stream_table(2)[of t]
  by (simp add: stream_paths_def table_paths_def newPathCursor_def)

lemma table_walk:
  assumes "table_canonical t"
  shows "strict_keys pr_path (cursor_walk t newPathCursor)"
    and "pr_path ` set (cursor_walk t newPathCursor) = table_paths t"
    and "r \<in> set (cursor_walk t newPathCursor) \<Longrightarrow> r = wireTransitionPathRowsAt t (pr_path r)"
  using cursor_walk_spec[OF table_streams_ok[OF assms]]
  by (simp_all add: stream_paths_table[OF assms] flip: stream_rows_table[OF assms])

lemma rowsAt_other:
  assumes "table_canonical t" and "p \<notin> table_paths t"
  shows "wireTransitionPathRowsAt t p = noPathRows p"
proof -
  have "map_by dig_Path (ft_sourceDigests t) p = None" "map_by file_Path (ft_Files t) p = None"
    using assms(2) by (auto simp: table_paths_def map_by_eq_None_iff)
  moreover have "filter (\<lambda>e. entity_path e = p) (wireEntities t) = []"
    using assms(2) by (auto simp: table_paths_def filter_empty_conv)
  ultimately show ?thesis
    using assms(1) by (simp add: wireTransitionPathRowsAt_def noPathRows_def wireTransitionEntityPath_filter
      wireTransitionSource_def canonicalFileFact_def lookup_key_map_by table_canonical_def)
qed

section \<open>Two tables for the examples\<close>

definition exampleEntity :: "string \<Rightarrow> int \<Rightarrow> SymbolID \<Rightarrow> EntityFact" where
  "exampleEntity path i sid =
     (zeroEntity \<lparr>loc_Path = path, loc_StartByte = i, loc_EndByte = i + 1\<rparr>)\<lparr>ent_Symbol := sid\<rparr>"

definition exampleDigest :: "string \<Rightarrow> nat \<Rightarrow> SourceDigest" where
  "exampleDigest path n = \<lparr>dig_Path = path, dig_SHA256 = replicate 32 (of_nat n)\<rparr>"

definition exampleSymbol :: "SymbolID \<Rightarrow> string list \<Rightarrow> SymbolFact" where
  "exampleSymbol sid paths = \<lparr>sym_ID = sid, sym_AliasTarget = [], sym_Declarations = [],
     sym_References = map (\<lambda>p. \<lparr>loc_Path = p, loc_StartByte = 0, loc_EndByte = 1\<rparr>) paths\<rparr>"

definition exampleBase :: FactTable where
  "exampleBase = zeroFactTable\<lparr>ft_stateID := 1, ft_Generation := 1,
     ft_sourceDigests := [exampleDigest ''a'' 1, exampleDigest ''b'' 2],
     ft_Entities := [exampleEntity ''a'' 0 ''s1'', exampleEntity ''a'' 4 ''s2'', exampleEntity ''c'' 0 ''s3''],
     ft_Symbols := [exampleSymbol ''s1'' [''a'', ''b''], exampleSymbol ''s2'' [''a'']]\<rparr>"

definition exampleTarget :: FactTable where
  "exampleTarget = zeroFactTable\<lparr>ft_stateID := 2, ft_Generation := 2,
     ft_sourceDigests := [exampleDigest ''a'' 1, exampleDigest ''b'' 3],
     ft_entityRuns := Some [[exampleEntity ''a'' 0 ''s1'', exampleEntity ''a'' 4 ''s4''], [exampleEntity ''d'' 0 ''s5'']],
     ft_Files := [zeroFileFact\<lparr>file_Path := ''b''\<rparr>],
     ft_Symbols := [exampleSymbol ''s1'' [''a'', ''c''], exampleSymbol ''s4'' [''a'']]\<rparr>"

definition exampleManifest :: factTableTransportChanges where
  "exampleManifest = \<lparr>tc_baseGeneration = 1, tc_baseStateID = 1, tc_sourcePaths = [''b''],
     tc_entityPaths = [''d'', ''a'', ''c''], tc_filePaths = [''b''], tc_symbolIDs = [''s4'', ''s1'', ''s2''], tc_exact = True\<rparr>"

text \<open>
  C29: the full plan of a canonical table lists every path that owns a source identity, an entity row
  or a file body, each once and in order.
\<close>

theorem planFull_paths:
  assumes "table_canonical t"
  shows "planFull t = sorted_list_of_set (table_paths t)"
proof -
  have fin: "finite (table_paths t)" by (simp add: table_paths_def)
  have "sorted_wrt (<) (planFull t)"
    using table_walk(1)[OF assms] by (simp add: planFull_def strict_keys_def)
  moreover have "set (planFull t) = table_paths t" using table_walk(2)[OF assms] by (simp add: planFull_def)
  ultimately show ?thesis using fin by (metis strict_sorted_iff sorted_list_of_set.idem_if_sorted_distinct)
qed

theorem planFull_paths_witness: "planFull exampleTarget = [''a'', ''b'', ''d'']"
proof -
  have "table_canonical exampleTarget" by code_simp
  from planFull_paths[OF this] show ?thesis by simp code_simp
qed

section \<open>Merging two ordered row streams\<close>

text \<open>
  The merge that both fallback planners do, over the operations that delete, insert and update a row,
  and the contract of those operations: the state of a key is the value of its row, and applying an
  operation sets the state of that key only.
\<close>

fun merge_ops :: "('r \<Rightarrow> 'k::linorder) \<Rightarrow> ('r \<Rightarrow> 'o list) \<Rightarrow> ('r \<Rightarrow> 'o list) \<Rightarrow> ('r \<Rightarrow> 'r \<Rightarrow> 'o list) \<Rightarrow>
    'r list \<Rightarrow> 'r list \<Rightarrow> 'o list" where
  "merge_ops key del ins upd (p # ps) (n # ns) =
     (if key p < key n then del p @ merge_ops key del ins upd ps (n # ns)
      else if key n < key p then ins n @ merge_ops key del ins upd (p # ps) ns
      else upd p n @ merge_ops key del ins upd ps ns)"
| "merge_ops key del ins upd ps [] = concat (map del ps)"
| "merge_ops key del ins upd [] ns = concat (map ins ns)"

definition keyed_view :: "('r \<Rightarrow> 'k) \<Rightarrow> ('r \<Rightarrow> 'v) \<Rightarrow> 'v \<Rightarrow> 'r list \<Rightarrow> 'k \<Rightarrow> 'v" where
  "keyed_view key val none xs k = (case map_by key xs k of None \<Rightarrow> none | Some r \<Rightarrow> val r)"

lemma keyed_view_simps [simp]:
  "keyed_view key val none [] k = none"
  "keyed_view key val none (x # xs) k = (if key x = k then val x else keyed_view key val none xs k)"
  by (auto simp: keyed_view_def)

lemma keyed_view_absent: "k \<notin> key ` set xs \<Longrightarrow> keyed_view key val none xs k = none"
  by (simp add: keyed_view_def map_by_eq_None_iff[THEN iffD2])

lemma strict_keys_hd_notin: "strict_keys key (x # xs) \<Longrightarrow> k \<le> key x \<Longrightarrow> k \<notin> key ` set xs"
  by (auto simp: strict_keys_Cons)

lemma two_list_induct [case_names both left right]:
  "(\<And>p ps n ns. P ps (n # ns) \<Longrightarrow> P (p # ps) ns \<Longrightarrow> P ps ns \<Longrightarrow> P (p # ps) (n # ns)) \<Longrightarrow>
   (\<And>ps. P ps []) \<Longrightarrow> (\<And>n ns. P [] (n # ns)) \<Longrightarrow> P ps ns"
  by induction_schema (pat_completeness, lexicographic_order)

locale keyed_delta =
  fixes key :: "'r \<Rightarrow> 'k::linorder" and del :: "'r \<Rightarrow> 'o list" and ins :: "'r \<Rightarrow> 'o list"
    and upd :: "'r \<Rightarrow> 'r \<Rightarrow> 'o list" and apply_op :: "'o \<Rightarrow> ('k \<Rightarrow> 'v) \<Rightarrow> 'k \<Rightarrow> 'v"
    and val :: "'r \<Rightarrow> 'v" and none :: 'v and ok :: "'r \<Rightarrow> bool"
  assumes del_law: "ok r \<Longrightarrow> v (key r) = val r \<Longrightarrow> fold apply_op (del r) v = v(key r := none)"
    and ins_law: "ok r \<Longrightarrow> v (key r) = none \<Longrightarrow> fold apply_op (ins r) v = v(key r := val r)"
    and upd_law: "ok l \<Longrightarrow> ok r \<Longrightarrow> key l = key r \<Longrightarrow> v (key r) = val l \<Longrightarrow>
      fold apply_op (upd l r) v = v(key r := val r)"
begin

lemma fold_del:
  assumes "list_all ok ps" and "distinct (map key ps)" and "\<forall>p \<in> set ps. v (key p) = val p"
  shows "fold apply_op (concat (map del ps)) v = (\<lambda>k. if k \<in> key ` set ps then none else v k)"
  using assms
proof (induction ps arbitrary: v)
  case (Cons p ps)
  have "fold apply_op (concat (map del (p # ps))) v = fold apply_op (concat (map del ps)) (v(key p := none))"
    using Cons.prems del_law[of p v] by simp
  also have "\<dots> = (\<lambda>k. if k \<in> key ` set ps then none else (v(key p := none)) k)"
    by (rule Cons.IH) (use Cons.prems in \<open>auto simp: image_iff\<close>)
  finally show ?case by (auto simp: fun_eq_iff)
qed auto

lemma fold_ins:
  assumes "list_all ok ns" and "distinct (map key ns)" and "\<forall>n \<in> set ns. v (key n) = none"
  shows "fold apply_op (concat (map ins ns)) v = (\<lambda>k. if k \<in> key ` set ns then keyed_view key val none ns k else v k)"
  using assms
proof (induction ns arbitrary: v)
  case (Cons n ns)
  have "fold apply_op (concat (map ins (n # ns))) v = fold apply_op (concat (map ins ns)) (v(key n := val n))"
    using Cons.prems ins_law[of n v] by simp
  also have "\<dots> = (\<lambda>k. if k \<in> key ` set ns then keyed_view key val none ns k else (v(key n := val n)) k)"
  proof (rule Cons.IH)
    show "\<forall>m \<in> set ns. (v(key n := val n)) (key m) = none"
    proof
      fix m assume "m \<in> set ns"
      moreover from this have "key m \<noteq> key n" using Cons.prems(2) by (metis imageI list.set_map distinct.simps(2) list.simps(9))
      ultimately show "(v(key n := val n)) (key m) = none" using Cons.prems(3) by simp
    qed
  qed (use Cons.prems in simp_all)
  finally show ?case using Cons.prems(2) by (auto simp: fun_eq_iff)
qed auto

lemma merge_view:
  assumes "list_all ok ps" and "list_all ok ns" and "strict_keys key ps" and "strict_keys key ns"
    and "\<forall>k \<in> key ` (set ps \<union> set ns). v k = keyed_view key val none ps k"
  shows "fold apply_op (merge_ops key del ins upd ps ns) v =
    (\<lambda>k. if k \<in> key ` (set ps \<union> set ns) then keyed_view key val none ns k else v k)"
  using assms
proof (induction ps ns arbitrary: v rule: two_list_induct)
  case (both p ps n ns)
  note strict = both.prems(3,4) and v = both.prems(5)
  have vp: "v (key p) = val p" using v by simp
  show ?case
  proof (cases "key p < key n")
    case True
    then have p: "key p \<notin> key ` set ps" "key p \<notin> key ` set (n # ns)"
      using strict by (auto simp: strict_keys_Cons)
    have "fold apply_op (merge_ops key del ins upd (p # ps) (n # ns)) v =
      fold apply_op (merge_ops key del ins upd ps (n # ns)) (v(key p := none))"
      using True del_law[of p v] vp both.prems(1) by simp
    also have "\<dots> = (\<lambda>k. if k \<in> key ` (set ps \<union> set (n # ns)) then keyed_view key val none (n # ns) k
        else (v(key p := none)) k)"
    proof (rule both.IH(1))
      show "\<forall>k \<in> key ` (set ps \<union> set (n # ns)). (v(key p := none)) k = keyed_view key val none ps k"
        using v p by (force simp: image_iff)
    qed (use both.prems in \<open>auto simp: strict_keys_Cons\<close>)
    finally show ?thesis using p keyed_view_absent[OF p(2), of val none] by (auto simp: fun_eq_iff)
  next
    case notless: False
    show ?thesis
    proof (cases "key n < key p")
      case True
      then have n: "key n \<notin> key ` set ns" "key n \<notin> key ` set (p # ps)"
        using strict by (auto simp: strict_keys_Cons)
      have "v (key n) = none" using v keyed_view_absent[OF n(2), of val none] by simp
      then have "fold apply_op (merge_ops key del ins upd (p # ps) (n # ns)) v =
        fold apply_op (merge_ops key del ins upd (p # ps) ns) (v(key n := val n))"
        using True notless ins_law[of n v] both.prems(2) by simp
      also have "\<dots> = (\<lambda>k. if k \<in> key ` (set (p # ps) \<union> set ns) then keyed_view key val none ns k
          else (v(key n := val n)) k)"
      proof (rule both.IH(2))
        show "\<forall>k \<in> key ` (set (p # ps) \<union> set ns). (v(key n := val n)) k = keyed_view key val none (p # ps) k"
          using v n by (force simp: image_iff)
      qed (use both.prems in \<open>auto simp: strict_keys_Cons\<close>)
      finally show ?thesis using n by (auto simp: fun_eq_iff)
    next
      case False
      then have eq: "key p = key n" using notless by auto
      then have n: "key n \<notin> key ` set ns" "key n \<notin> key ` set ps"
        using strict by (auto simp: strict_keys_Cons)
      have "fold apply_op (merge_ops key del ins upd (p # ps) (n # ns)) v =
        fold apply_op (merge_ops key del ins upd ps ns) (v(key n := val n))"
        using notless False upd_law[of p n v] eq vp both.prems(1,2) by simp
      also have "\<dots> = (\<lambda>k. if k \<in> key ` (set ps \<union> set ns) then keyed_view key val none ns k
          else (v(key n := val n)) k)"
      proof (rule both.IH(3))
        show "\<forall>k \<in> key ` (set ps \<union> set ns). (v(key n := val n)) k = keyed_view key val none ps k"
          using v n eq by (force simp: image_iff)
      qed (use both.prems in \<open>auto simp: strict_keys_Cons\<close>)
      finally show ?thesis using n eq by (auto simp: fun_eq_iff)
    qed
  qed
next
  case (left ps)
  have "v (key p) = val p" if "p \<in> set ps" for p
  proof -
    have "map_by key ps (key p) = Some p" using that left.prems(3) by (simp add: map_by_eq_Some_iff)
    then show ?thesis using that left.prems(5) by (simp add: keyed_view_def)
  qed
  then show ?case
    using fold_del[of ps v, OF left.prems(1) strict_keys_distinct[OF left.prems(3)]] by (simp add: fun_eq_iff)
next
  case (right n ns)
  then show ?case
    using fold_ins[of "n # ns" v, OF right.prems(2) strict_keys_distinct[OF right.prems(4)]] by simp
qed

end

section \<open>Path operations at the client\<close>

text \<open>
  What a client keeps of a path: its source identity, its entity rows and its file body. Rows are
  compared without the difference between an absent and an empty list of library types, which the
  wire does not carry.
\<close>

type_synonym path_state = "SourceDigest option \<times> EntityFact list \<times> FileFact option"

definition no_rows :: path_state where "no_rows = (None, [], None)"

definition rows_state :: "wireTransitionPathRows \<Rightarrow> path_state" where
  "rows_state r = (pr_source r, map entity_view (pr_entities r), pr_file r)"

definition table_state :: "FactTable \<Rightarrow> string \<Rightarrow> path_state" where
  "table_state t p = rows_state (wireTransitionPathRowsAt t p)"

definition applyCollection :: "wireTransitionCollectionOp \<Rightarrow> 'a \<Rightarrow> 'a \<Rightarrow> 'a \<Rightarrow> 'a" where
  "applyCollection op new none old =
     (if op = wireTransitionReplace then new else if op = wireTransitionRemove then none else old)"

definition applyPathOp :: "wireTransitionPathOp \<Rightarrow> (string \<Rightarrow> path_state) \<Rightarrow> string \<Rightarrow> path_state" where
  "applyPathOp op v =
     v(po_path op :=
       (case v (po_path op) of (s, es, f) \<Rightarrow>
         (applyCollection (po_sourceOp op) (Some (po_source op)) None s,
          applyCollection (po_entityOp op) (map entity_view (po_entities op)) [] es,
          applyCollection (po_fileOp op) (Some (po_file op)) None f)))"

definition row_ok :: "wireTransitionPathRows \<Rightarrow> bool" where
  "row_ok r \<longleftrightarrow> (\<forall>s. pr_source r = Some s \<longrightarrow> dig_Path s = pr_path r) \<and> list_all entity_plain (pr_entities r)"

lemma digest_eqI: "dig_Path a = dig_Path b \<Longrightarrow> dig_SHA256 a = dig_SHA256 b \<Longrightarrow> (a :: SourceDigest) = b"
  by simp

text \<open>The operation field by field: a collection's tag and payload depend on that collection only.\<close>

definition optionOp :: "bool \<Rightarrow> ('a \<Rightarrow> 'a \<Rightarrow> bool) \<Rightarrow> 'a option \<Rightarrow> 'a option \<Rightarrow> wireTransitionCollectionOp" where
  "optionOp candidate same p n =
     (if \<not> candidate then 0
      else case (p, n) of (Some _, None) \<Rightarrow> 2 | (None, Some _) \<Rightarrow> 1
        | (Some a, Some b) \<Rightarrow> (if \<not> same a b then 1 else 0) | (None, None) \<Rightarrow> 0)"

definition listOp :: "bool \<Rightarrow> ('a list \<Rightarrow> 'a list \<Rightarrow> bool) \<Rightarrow> 'a list \<Rightarrow> 'a list \<Rightarrow> wireTransitionCollectionOp" where
  "listOp candidate same p n =
     (if \<not> candidate then 0 else if p \<noteq> [] \<and> n = [] then 2 else if n \<noteq> [] \<and> \<not> same p n then 1 else 0)"

lemma difference_fields:
  fixes p n sc ec fc
  defines "s \<equiv> optionOp sc (\<lambda>a b. dig_SHA256 a = dig_SHA256 b) (pr_source p) (pr_source n)"
    and "e \<equiv> listOp ec entityFactsEqual (pr_entities p) (pr_entities n)"
    and "f \<equiv> optionOp fc fileFactEqual (pr_file p) (pr_file n)"
  shows "wireTransitionPathRowsDifference p n sc ec fc =
    (\<lparr>po_path = pr_path n, po_sourceOp = s, po_source = (if s = 1 then the (pr_source n) else zeroSourceDigest),
      po_entityOp = e, po_entities = (if e = 1 then pr_entities n else []),
      po_fileOp = f, po_file = (if f = 1 then the (pr_file n) else zeroFileFact)\<rparr>, s \<noteq> 0 \<or> e \<noteq> 0 \<or> f \<noteq> 0)"
proof -
  let ?op1 = "(newPathOp (pr_path n))\<lparr>po_sourceOp := s, po_source := (if s = 1 then the (pr_source n) else zeroSourceDigest)\<rparr>"
  let ?op2 = "?op1\<lparr>po_entityOp := e, po_entities := (if e = 1 then pr_entities n else [])\<rparr>"
  have 1: "(if sc then (case (pr_source p, pr_source n) of
         (Some _, None) \<Rightarrow> (newPathOp (pr_path n))\<lparr>po_sourceOp := wireTransitionRemove\<rparr>
       | (None, Some m) \<Rightarrow> (newPathOp (pr_path n))\<lparr>po_sourceOp := wireTransitionReplace, po_source := m\<rparr>
       | (Some a, Some m) \<Rightarrow>
           if dig_SHA256 a \<noteq> dig_SHA256 m
           then (newPathOp (pr_path n))\<lparr>po_sourceOp := wireTransitionReplace, po_source := m\<rparr> else newPathOp (pr_path n)
       | (None, None) \<Rightarrow> newPathOp (pr_path n)) else newPathOp (pr_path n)) = ?op1"
    by (simp add: s_def optionOp_def newPathOp_def split: option.split)
  have 2: "(if ec then
      (if pr_entities p \<noteq> [] \<and> pr_entities n = [] then op\<lparr>po_entityOp := wireTransitionRemove\<rparr>
       else if pr_entities n \<noteq> [] \<and> \<not> entityFactsEqual (pr_entities p) (pr_entities n)
       then op\<lparr>po_entityOp := wireTransitionReplace, po_entities := pr_entities n\<rparr> else op) else op) =
      op\<lparr>po_entityOp := e, po_entities := (if e = 1 then pr_entities n else [])\<rparr>"
    if "po_entityOp op = 0" "po_entities op = []" for op :: wireTransitionPathOp
    using that by (cases op) (simp add: e_def listOp_def)
  have 3: "(if fc then (case (pr_file p, pr_file n) of
         (Some _, None) \<Rightarrow> op\<lparr>po_fileOp := wireTransitionRemove\<rparr>
       | (None, Some m) \<Rightarrow> op\<lparr>po_fileOp := wireTransitionReplace, po_file := m\<rparr>
       | (Some a, Some m) \<Rightarrow>
           if \<not> fileFactEqual a m then op\<lparr>po_fileOp := wireTransitionReplace, po_file := m\<rparr> else op
       | (None, None) \<Rightarrow> op) else op) =
      op\<lparr>po_fileOp := f, po_file := (if f = 1 then the (pr_file n) else zeroFileFact)\<rparr>"
    if "po_fileOp op = 0" "po_file op = zeroFileFact" for op :: wireTransitionPathOp
    using that by (cases op) (simp add: f_def optionOp_def split: option.split)
  have ops: "po_entityOp ?op1 = 0" "po_entities ?op1 = []" "po_fileOp ?op2 = 0" "po_file ?op2 = zeroFileFact"
    by (simp_all add: newPathOp_def)
  show ?thesis
    unfolding wireTransitionPathRowsDifference_def
    by (subst Let_def, subst 1, subst Let_def, subst 2[OF ops(1,2)], subst Let_def, subst 3[OF ops(3,4)], subst Let_def)
       (simp add: newPathOp_def)
qed

lemma apply_optionOp:
  assumes "\<And>a b. p = Some a \<Longrightarrow> n = Some b \<Longrightarrow> same a b \<Longrightarrow> a = b"
  shows "applyCollection (optionOp c same p n)
    (Some (if optionOp c same p n = 1 then the n else z)) None p = (if c then n else p)"
  using assms by (cases p; cases n) (auto simp: applyCollection_def optionOp_def)

lemma apply_listOp:
  assumes "same p n \<Longrightarrow> map g p = map g n"
  shows "applyCollection (listOp c same p n) (map g (if listOp c same p n = 1 then n else [])) [] (map g p) =
    map g (if c then n else p)"
  using assms by (auto simp: applyCollection_def listOp_def)

lemma apply_difference:
  assumes "row_ok p" and "row_ok n" and "pr_path p = pr_path n" and "v (pr_path n) = rows_state p"
  shows "fold applyPathOp (changedOp (wireTransitionPathRowsDifference p n sc ec fc)) v =
    v(pr_path n := (if sc then pr_source n else pr_source p,
      map entity_view (if ec then pr_entities n else pr_entities p), if fc then pr_file n else pr_file p))"
proof -
  let ?s = "optionOp sc (\<lambda>a b. dig_SHA256 a = dig_SHA256 b) (pr_source p) (pr_source n)"
  let ?e = "listOp ec entityFactsEqual (pr_entities p) (pr_entities n)"
  let ?f = "optionOp fc fileFactEqual (pr_file p) (pr_file n)"
  have s: "applyCollection ?s (Some (if ?s = 1 then the (pr_source n) else zeroSourceDigest)) None (pr_source p) =
      (if sc then pr_source n else pr_source p)"
    using assms(1-3) by (intro apply_optionOp) (auto simp: row_ok_def intro: digest_eqI)
  have e: "applyCollection ?e (map entity_view (if ?e = 1 then pr_entities n else [])) [] (map entity_view (pr_entities p)) =
      map entity_view (if ec then pr_entities n else pr_entities p)"
    using assms(1,2) by (intro apply_listOp) (simp add: row_ok_def entityFactsEqual_plain)
  have f: "applyCollection ?f (Some (if ?f = 1 then the (pr_file n) else zeroFileFact)) None (pr_file p) =
      (if fc then pr_file n else pr_file p)"
    by (intro apply_optionOp) simp
  let ?r = "wireTransitionPathRowsDifference p n sc ec fc"
  let ?w = "(if sc then pr_source n else pr_source p,
      map entity_view (if ec then pr_entities n else pr_entities p), if fc then pr_file n else pr_file p)"
  show ?thesis
  proof (cases "snd ?r")
    case True
    have "applyPathOp (fst ?r) v = v(pr_path n := ?w)"
      using s e f assms(4) unfolding difference_fields by (simp add: applyPathOp_def rows_state_def)
    then show ?thesis using True by (simp add: changedOp_def)
  next
    case False
    then have "?s = 0" "?e = 0" "?f = 0" unfolding difference_fields by simp_all
    then have "rows_state p = ?w" using s e f unfolding rows_state_def by (simp add: applyCollection_def)
    then show ?thesis using False assms(4) by (simp add: changedOp_def fun_upd_idem)
  qed
qed

lemma row_ok_noPathRows [simp]: "row_ok (noPathRows p)"
  by (simp add: row_ok_def noPathRows_def)

lemma rows_state_noPathRows [simp]: "rows_state (noPathRows p) = no_rows" "pr_path (noPathRows p) = p"
  by (simp_all add: rows_state_def noPathRows_def no_rows_def)

lemma apply_full_difference:
  assumes "row_ok p" and "row_ok n" and "pr_path p = pr_path n" and "v (pr_path n) = rows_state p"
  shows "fold applyPathOp (changedOp (wireTransitionPathRowsDifference p n True True True)) v = v(pr_path n := rows_state n)"
  using apply_difference[where v = v and sc = True and ec = True and fc = True, OF assms] by (simp add: rows_state_def)

interpretation path_rows: keyed_delta pr_path
  "\<lambda>p. changedOp (wireTransitionPathRowsDifference p (noPathRows (pr_path p)) True True True)"
  "\<lambda>n. changedOp (wireTransitionPathRowsDifference (noPathRows (pr_path n)) n True True True)"
  "\<lambda>p n. changedOp (wireTransitionPathRowsDifference p n True True True)"
  applyPathOp rows_state no_rows row_ok
proof unfold_locales
  show "fold applyPathOp (changedOp (wireTransitionPathRowsDifference r (noPathRows (pr_path r)) True True True)) v =
      v(pr_path r := no_rows)" if "row_ok r" "v (pr_path r) = rows_state r" for r v
    using apply_full_difference[of r "noPathRows (pr_path r)" v] that by simp
  show "fold applyPathOp (changedOp (wireTransitionPathRowsDifference (noPathRows (pr_path r)) r True True True)) v =
      v(pr_path r := rows_state r)" if "row_ok r" "v (pr_path r) = no_rows" for r v
    using apply_full_difference[of "noPathRows (pr_path r)" r v] that by simp
qed (rule apply_full_difference)

lemma fallbackPathLoop_merge:
  "fallbackPathLoop ps ns = merge_ops pr_path
     (\<lambda>p. changedOp (wireTransitionPathRowsDifference p (noPathRows (pr_path p)) True True True))
     (\<lambda>n. changedOp (wireTransitionPathRowsDifference (noPathRows (pr_path n)) n True True True))
     (\<lambda>p n. changedOp (wireTransitionPathRowsDifference p n True True True)) ps ns"
  by (induction ps ns rule: fallbackPathLoop.induct) simp_all

section \<open>Path deltas\<close>

definition table_plain :: "FactTable \<Rightarrow> bool" where
  "table_plain t \<longleftrightarrow> table_canonical t \<and> list_all entity_plain (wireEntities t)"

lemma row_ok_rowsAt: "table_plain t \<Longrightarrow> row_ok (wireTransitionPathRowsAt t p)"
  by (auto simp: table_plain_def row_ok_def wireTransitionPathRowsAt_def wireTransitionEntityPath_filter
      wireTransitionSource_def lookup_key_map_by table_canonical_def list_all_iff dest: map_by_SomeD)

lemma pr_path_rowsAt [simp]: "pr_path (wireTransitionPathRowsAt t p) = p"
  by (simp add: wireTransitionPathRowsAt_def)

lemma table_walk_plain:
  assumes "table_plain t"
  shows "list_all row_ok (cursor_walk t newPathCursor)"
    and "keyed_view pr_path rows_state no_rows (cursor_walk t newPathCursor) p = table_state t p"
proof -
  have can: "table_canonical t" using assms by (simp add: table_plain_def)
  have rows: "\<forall>r \<in> set (cursor_walk t newPathCursor). r = wireTransitionPathRowsAt t (pr_path r)"
    using table_walk(3)[OF can] by blast
  then show "list_all row_ok (cursor_walk t newPathCursor)"
    using row_ok_rowsAt[OF assms] unfolding list_all_iff by metis
  show "keyed_view pr_path rows_state no_rows (cursor_walk t newPathCursor) p = table_state t p"
  proof (cases "p \<in> table_paths t")
    case True
    then obtain r where r: "r \<in> set (cursor_walk t newPathCursor)" "pr_path r = p"
      using table_walk(2)[OF can] by (metis imageE)
    then have "map_by pr_path (cursor_walk t newPathCursor) p = Some r"
      using table_walk(1)[OF can] by (simp add: map_by_eq_Some_iff)
    moreover have "r = wireTransitionPathRowsAt t p" using rows r by metis
    ultimately show ?thesis by (simp add: keyed_view_def table_state_def)
  next
    case False
    then have "p \<notin> pr_path ` set (cursor_walk t newPathCursor)" using table_walk(2)[OF can] by simp
    then show ?thesis
      using rowsAt_other[OF can False] by (simp add: keyed_view_absent table_state_def)
  qed
qed

lemma exampleTables_plain: "table_plain exampleBase" "table_plain exampleTarget"
proof -
  have "table_canonical exampleBase" "table_canonical exampleTarget" by code_simp+
  moreover have "list_all entity_plain (wireEntities exampleBase)" "list_all entity_plain (wireEntities exampleTarget)"
    by (simp_all add: wireEntities_def exampleBase_def exampleTarget_def zeroFactTable_def exampleEntity_def zeroEntity_def
        entity_plain_def)
  ultimately show "table_plain exampleBase" "table_plain exampleTarget" by (simp_all add: table_plain_def)
qed

lemma table_state_other: "table_plain t \<Longrightarrow> p \<notin> table_paths t \<Longrightarrow> table_state t p = no_rows"
  by (simp add: table_state_def table_plain_def rowsAt_other)

text \<open>
  C19: the fallback path delta is correct. A client that holds the rows of the base table and applies
  the planned operations in order holds exactly the rows of the target table, for every path. The rows
  carry no NaN and no negative zero, whose comparison in the code is not that of their bits.
\<close>

theorem planFallbackPathDelta_correct:
  assumes "table_plain base" and "table_plain target"
  shows "fold applyPathOp (planFallbackPathDelta base target) (table_state base) = table_state target"
proof -
  have can: "table_canonical base" "table_canonical target" using assms by (simp_all add: table_plain_def)
  let ?b = "cursor_walk base newPathCursor" and ?t = "cursor_walk target newPathCursor"
  have keys: "pr_path ` (set ?b \<union> set ?t) = table_paths base \<union> table_paths target"
    using table_walk(2)[OF can(1)] table_walk(2)[OF can(2)] by (simp add: image_Un)
  have "fold applyPathOp (planFallbackPathDelta base target) (table_state base) =
      (\<lambda>k. if k \<in> pr_path ` (set ?b \<union> set ?t) then keyed_view pr_path rows_state no_rows ?t k else table_state base k)"
    unfolding planFallbackPathDelta_def fallbackPathLoop_merge
    by (rule path_rows.merge_view) (use assms can table_walk(1) table_walk_plain in auto)
  then show ?thesis
    unfolding keys table_walk_plain(2)[OF assms(2)] using table_state_other assms by (auto simp: fun_eq_iff)
qed

theorem planFallbackPathDelta_correct_witness:
  "fold applyPathOp (planFallbackPathDelta exampleBase exampleTarget) (table_state exampleBase) ''a'' =
     table_state exampleTarget ''a'' \<and> map po_path (planFallbackPathDelta exampleBase exampleTarget) = [''a'', ''b'', ''c'', ''d'']"
proof -
  have "map po_path (planFallbackPathDelta exampleBase exampleTarget) = [''a'', ''b'', ''c'', ''d'']" by code_simp
  then show ?thesis using planFallbackPathDelta_correct[OF exampleTables_plain] by simp
qed

text \<open>Applying operations key by key, for a duplicate-free list of keys.\<close>

lemma fold_keys:
  assumes "distinct ps" and "\<And>p v. p \<in> set ps \<Longrightarrow> v p = w p \<Longrightarrow> fold ap (g p) v = v(p := u p)"
    and "\<forall>p \<in> set ps. v p = w p"
  shows "fold ap (concat (map g ps)) v = (\<lambda>p. if p \<in> set ps then u p else v p)"
  using assms
proof (induction ps arbitrary: v)
  case (Cons p ps)
  have "fold ap (concat (map g (p # ps))) v = fold ap (concat (map g ps)) (v(p := u p))"
    using Cons.prems(2)[of p v] Cons.prems(3) by (simp add: fun_upd_def)
  also have "\<dots> = (\<lambda>q. if q \<in> set ps then u q else (v(p := u p)) q)"
    by (rule Cons.IH) (use Cons.prems in auto)
  finally show ?case using Cons.prems(1) by (auto simp: fun_eq_iff)
qed auto

lemma manifestPaths_set:
  "set (manifestPaths m) = set (tc_sourcePaths m) \<union> set (tc_entityPaths m) \<union> set (tc_filePaths m)"
  "distinct (manifestPaths m)"
  using strict_keys_distinct[OF sorted_remdups_adj_strict[of "sort (tc_sourcePaths m @ tc_entityPaths m @ tc_filePaths m)"]]
  by (auto simp: manifestPaths_def sortUniqueWireTransitionPaths_def compactPathsLoop_remdups)

definition manifest_covers :: "FactTable \<Rightarrow> FactTable \<Rightarrow> factTableTransportChanges \<Rightarrow> bool" where
  "manifest_covers base target m \<longleftrightarrow>
     (\<forall>p \<in> table_paths base \<union> table_paths target.
       case (table_state base p, table_state target p) of ((s, es, f), (s', es', f')) \<Rightarrow>
         (s \<noteq> s' \<longrightarrow> p \<in> set (tc_sourcePaths m)) \<and> (es \<noteq> es' \<longrightarrow> p \<in> set (tc_entityPaths m)) \<and>
         (f \<noteq> f' \<longrightarrow> p \<in> set (tc_filePaths m)))"

lemma manifest_coversD:
  assumes "manifest_covers base target m" and "table_plain base" and "table_plain target"
    and "table_state base p = (s, es, f)" and "table_state target p = (s', es', f')"
  shows "(s \<noteq> s' \<longrightarrow> p \<in> set (tc_sourcePaths m)) \<and> (es \<noteq> es' \<longrightarrow> p \<in> set (tc_entityPaths m)) \<and>
    (f \<noteq> f' \<longrightarrow> p \<in> set (tc_filePaths m))"
proof (cases "p \<in> table_paths base \<union> table_paths target")
  case True
  show ?thesis using bspec[OF assms(1)[unfolded manifest_covers_def] True] assms(4,5) by simp
next
  case False
  then have "table_state base p = table_state target p"
    using assms(2,3) by (simp add: table_state_other)
  then show ?thesis using assms(4,5) by simp
qed

text \<open>
  C17: the exact path delta is correct. When the manifest names every path whose source identity, entity
  rows or file body differ, a client that holds the rows of the base table and applies the planned
  operations holds the rows of the target table.
\<close>

theorem planExactPathDelta_correct:
  assumes "table_plain base" and "table_plain target"
    and "manifest_covers base target m"
  shows "fold applyPathOp (planExactPathDelta base target m) (table_state base) = table_state target"
proof -
  note covers = manifest_coversD[OF assms(3,1,2)]
  have other: "table_state target p = table_state base p" if "p \<notin> set (manifestPaths m)" for p
  proof -
    obtain s es f where b: "table_state base p = (s, es, f)" by (metis prod_cases3)
    obtain s' es' f' where t: "table_state target p = (s', es', f')" by (metis prod_cases3)
    show ?thesis using covers[OF b t] that unfolding b t manifestPaths_set(1) by blast
  qed
  have "fold applyPathOp (planExactPathDelta base target m) (table_state base) =
    (\<lambda>p. if p \<in> set (manifestPaths m) then table_state target p else table_state base p)"
    unfolding planExactPathDelta_def
  proof (rule fold_keys[OF manifestPaths_set(2)])
    fix p v assume v: "v p = table_state base p"
    let ?b = "wireTransitionPathRowsAt base p" and ?t = "wireTransitionPathRowsAt target p"
    have b: "table_state base p = (pr_source ?b, map entity_view (pr_entities ?b), pr_file ?b)"
      and t: "table_state target p = (pr_source ?t, map entity_view (pr_entities ?t), pr_file ?t)"
      by (simp_all add: table_state_def rows_state_def)
    show "fold applyPathOp (changedOp (wireTransitionPathDifference (Some base) target p
        (p \<in> set (tc_sourcePaths m)) (p \<in> set (tc_entityPaths m)) (p \<in> set (tc_filePaths m)))) v = v(p := table_state target p)"
      using apply_difference[of ?b ?t v "p \<in> set (tc_sourcePaths m)" "p \<in> set (tc_entityPaths m)" "p \<in> set (tc_filePaths m)"]
        row_ok_rowsAt[OF assms(1)] row_ok_rowsAt[OF assms(2)] v covers[OF b t]
      by (auto simp: wireTransitionPathDifference_def t table_state_def rows_state_def)
  qed simp
  then show ?thesis using other by (simp add: fun_eq_iff)
qed

theorem planExactPathDelta_correct_witness:
  "fold applyPathOp (planExactPathDelta exampleBase exampleTarget exampleManifest) (table_state exampleBase) ''b'' =
     table_state exampleTarget ''b''"
proof -
  have "manifest_covers exampleBase exampleTarget exampleManifest" by code_simp
  from planExactPathDelta_correct[OF exampleTables_plain this] show ?thesis by simp
qed

lemma sparse_delta_effect:
  "fold applyPathOp (fst (planSparseDelta base target m)) v p =
     (case (v p, table_state target p) of ((s, es, f), (s', es', f')) \<Rightarrow>
       (if p \<in> set (tc_sourcePaths m) then s' else s,
        if p \<in> set (tc_entityPaths m) then es' else es,
        if p \<in> set (tc_filePaths m) then f' else f))"
proof -
  let ?u = "\<lambda>p. case (v p, table_state target p) of ((s, es, f), (s', es', f')) \<Rightarrow>
       (if p \<in> set (tc_sourcePaths m) then s' else s,
        if p \<in> set (tc_entityPaths m) then es' else es,
        if p \<in> set (tc_filePaths m) then f' else f)"
  have one: "applyPathOp (sparsePathOp target m p) w = w(p := ?u p)" if "w p = v p" for p w
    using that
    by (cases "pr_source (wireTransitionPathRowsAt target p)"; cases "pr_file (wireTransitionPathRowsAt target p)")
       (auto simp: applyPathOp_def sparsePathOp_def Let_def newPathOp_def table_state_def rows_state_def
          applyCollection_def split: prod.splits)
  have "fold applyPathOp (concat (map (\<lambda>p. [sparsePathOp target m p]) (manifestPaths m))) v =
      (\<lambda>p. if p \<in> set (manifestPaths m) then ?u p else v p)"
    by (rule fold_keys[OF manifestPaths_set(2), where w = v]) (simp_all add: one)
  then show ?thesis
    by (cases "v p"; cases "table_state target p") (auto simp: planSparseDelta_def manifestPaths_set(1))
qed

text \<open>
  C28: the sparse path delta of the active protocol needs no base. Whatever rows a client holds, applying
  the planned operations leaves every collection the manifest names equal to the target's and every
  other collection as it was.
\<close>

theorem planSparseDelta_paths:
  "fold applyPathOp (fst (planSparseDelta base target m)) v p =
     (case (v p, table_state target p) of ((s, es, f), (s', es', f')) \<Rightarrow>
       (if p \<in> set (tc_sourcePaths m) then s' else s,
        if p \<in> set (tc_entityPaths m) then es' else es,
        if p \<in> set (tc_filePaths m) then f' else f))"
  by (rule sparse_delta_effect)

end
