(* ===== verification/Wire_Symbols.thy ===== *)
theory Wire_Symbols
  imports Wire_Delta
begin

text \<open>
  The symbol half of a wire transition: the fallback, exact and reference plans applied by a client to
  the symbol rows it holds. The client keeps a symbol's references in path order and replaces the run of
  one path at a time.
\<close>

section \<open>Symbol operations at the client\<close>

definition replaceReferencePath :: "string \<Rightarrow> Location list \<Rightarrow> Location list \<Rightarrow> Location list" where
  "replaceReferencePath path new old =
     takeWhile (\<lambda>l. loc_Path l < path) old @ new @ dropWhile (\<lambda>l. loc_Path l \<le> path) old"

definition applySymbolOp :: "wireTransitionSymbolOp \<Rightarrow> (SymbolID \<rightharpoonup> SymbolFact) \<Rightarrow> SymbolID \<rightharpoonup> SymbolFact" where
  "applySymbolOp op v =
     (if so_tag op = wireTransitionReplaceSymbol then v(so_id op \<mapsto> so_fact op)
      else if so_tag op = wireTransitionRemoveSymbol then v(so_id op := None)
      else v(so_id op := map_option (\<lambda>f. f\<lparr>sym_References :=
          replaceReferencePath (so_referencePath op) (so_references op) (sym_References f)\<rparr>) (v (so_id op))))"

lemma applySymbolOp_simps [simp]:
  "applySymbolOp (replaceSymbolOp f) v = v(sym_ID f \<mapsto> f)"
  "applySymbolOp ((replaceSymbolOp f)\<lparr>so_id := sid\<rparr>) v = v(sid \<mapsto> f)"
  "applySymbolOp (removeSymbolOp sid) v = v(sid := None)"
  "applySymbolOp (referencePathOp sid path new) v = v(sid := map_option (\<lambda>f. f\<lparr>sym_References :=
     replaceReferencePath path new (sym_References f)\<rparr>) (v sid))"
  by (simp_all add: applySymbolOp_def replaceSymbolOp_def removeSymbolOp_def referencePathOp_def)

interpretation symbol_rows: keyed_delta sym_ID "\<lambda>p. [removeSymbolOp (sym_ID p)]" "\<lambda>n. [replaceSymbolOp n]"
  "\<lambda>p n. if \<not> symbolFactEqual p n then [replaceSymbolOp n] else []"
  applySymbolOp Some None "\<lambda>_. True"
  by unfold_locales (auto simp: fun_eq_iff)

section \<open>The fallback plan\<close>

abbreviation symbol_merge :: "SymbolFact list \<Rightarrow> SymbolFact list \<Rightarrow> wireTransitionSymbolOp list" where
  "symbol_merge \<equiv> merge_ops sym_ID (\<lambda>p. [removeSymbolOp (sym_ID p)]) (\<lambda>n. [replaceSymbolOp n])
     (\<lambda>p n. if \<not> symbolFactEqual p n then [replaceSymbolOp n] else [])"

text \<open>The rows a symbol cursor has still to yield.\<close>

definition cursor_rest :: "symbolFactCursor \<Rightarrow> SymbolFact list" where
  "cursor_rest c = drop (snd c) (concat (fst c))"

definition cursor_ok :: "symbolFactCursor \<Rightarrow> bool" where
  "cursor_ok c \<longleftrightarrow> [] \<notin> set (fst c) \<and> (case fst c of [] \<Rightarrow> snd c = 0 | chunk # _ \<Rightarrow> snd c < length chunk)"

lemma cursor_ok_next:
  assumes "cursor_ok (c, r)" and "c \<noteq> []"
  shows "cursor_ok (symbolCursor_next (c, r))"
    and "cursor_rest (c, r) = hd c ! r # cursor_rest (symbolCursor_next (c, r))"
    and "r < length (hd c)"
proof -
  obtain chunk cs where c: "c = chunk # cs" using assms(2) by (cases c) auto
  have r: "r < length chunk" using assms(1) c by (simp add: cursor_ok_def)
  then show "r < length (hd c)" using c by simp
  have cons: "drop r chunk = chunk ! r # drop (Suc r) chunk" using r by (simp add: Cons_nth_drop_Suc)
  show "cursor_ok (symbolCursor_next (c, r))"
    using assms(1) c r by (cases cs) (auto simp: cursor_ok_def symbolCursor_next_def)
  show "cursor_rest (c, r) = hd c ! r # cursor_rest (symbolCursor_next (c, r))"
    using c r cons by (auto simp: cursor_rest_def symbolCursor_next_def)
qed

lemma merge_common_prefix: "symbol_merge (c @ xs) (c @ ys) = symbol_merge xs ys"
  by (induction c) auto

lemma cursor_ok_drop_chunk:
  assumes "cursor_ok (c, 0)" and "c \<noteq> []"
  shows "cursor_ok (tl c, 0)" and "cursor_rest (c, 0) = hd c @ cursor_rest (tl c, 0)"
  using assms by (cases c; auto simp: cursor_ok_def cursor_rest_def split: list.split)+

lemma fallbackSymbolLoop_merge:
  assumes "\<And>a b. shared a b \<Longrightarrow> a = b" and "cursor_ok l" and "cursor_ok r"
  shows "fallbackSymbolLoop shared l r = Inr (symbol_merge (cursor_rest l) (cursor_rest r))"
  using assms(2,3)
proof (induction "cursor_left l + cursor_left r" arbitrary: l r rule: less_induct)
  case less
  obtain lc lr rc rr where lr: "l = (lc, lr)" "r = (rc, rr)" by (metis surj_pair)
  let ?l' = "symbolCursor_next (lc, lr)" and ?r' = "symbolCursor_next (rc, rr)"
  note okl = less.prems(1)[unfolded lr] and okr = less.prems(2)[unfolded lr]
  note step = fallbackSymbolLoop.simps[of shared lc lr rc rr]
  have left: "cursor_ok ?l'" "cursor_rest (lc, lr) = hd lc ! lr # cursor_rest ?l'" "lr < length (hd lc)"
      "cursor_left ?l' < cursor_left (lc, lr)" if "lc \<noteq> []"
    using cursor_ok_next[OF okl that] cursor_left_next[OF that, of lr] by simp_all
  have right: "cursor_ok ?r'" "cursor_rest (rc, rr) = hd rc ! rr # cursor_rest ?r'" "rr < length (hd rc)"
      "cursor_left ?r' < cursor_left (rc, rr)" if "rc \<noteq> []"
    using cursor_ok_next[OF okr that] cursor_left_next[OF that, of rr] by simp_all
  note IH = less.hyps[unfolded lr]
  consider (both) "lc \<noteq> []" "rc \<noteq> []" | (left) "lc \<noteq> []" "rc = []" | (right) "lc = []" "rc \<noteq> []" | (none) "lc = []" "rc = []"
    by blast
  then show ?case
  proof cases
    case both
    show ?thesis
    proof (cases "lr = 0 \<and> rr = 0 \<and> hd lc \<noteq> [] \<and> length (hd lc) = length (hd rc) \<and> shared (hd lc) (hd rc)")
      case True
      then have eq: "hd lc = hd rc" "lr = 0" "rr = 0" using assms(1) by auto
      have okl0: "cursor_ok (lc, 0)" and okr0: "cursor_ok (rc, 0)" using okl okr eq by simp_all
      have dec: "cursor_left (tl lc, 0) + cursor_left (tl rc, 0) < cursor_left (lc, lr) + cursor_left (rc, rr)"
        using both eq by (cases lc; cases rc) (auto simp: cursor_left_def)
      have "fallbackSymbolLoop shared (tl lc, 0) (tl rc, 0) =
          Inr (symbol_merge (cursor_rest (tl lc, 0)) (cursor_rest (tl rc, 0)))"
        by (rule IH[OF dec cursor_ok_drop_chunk(1)[OF okl0 both(1)] cursor_ok_drop_chunk(1)[OF okr0 both(2)]])
      then show ?thesis
        using step both True merge_common_prefix[of "hd rc"] cursor_ok_drop_chunk(2)[OF okl0 both(1)]
          cursor_ok_drop_chunk(2)[OF okr0 both(2)] eq(1) unfolding lr by simp
    next
      case False
      note l = left[OF both(1)] and r = right[OF both(2)]
      have del: "fallbackSymbolLoop shared ?l' (rc, rr) = Inr (symbol_merge (cursor_rest ?l') (cursor_rest (rc, rr)))"
        by (rule IH) (use l okr in auto)
      have ins: "fallbackSymbolLoop shared (lc, lr) ?r' = Inr (symbol_merge (cursor_rest (lc, lr)) (cursor_rest ?r'))"
        by (rule IH) (use r okl in auto)
      have upd: "fallbackSymbolLoop shared ?l' ?r' = Inr (symbol_merge (cursor_rest ?l') (cursor_rest ?r'))"
        by (rule IH) (use l r in auto)
      show ?thesis
        using step both False l(3) r(3) del ins upd unfolding lr l(2) r(2) by (simp add: Let_def)
    qed
  next
    case left': left
    note l = left[OF left'(1)]
    have "cursor_rest (rc, rr) = []" using left'(2) by (simp add: cursor_rest_def)
    moreover have "fallbackSymbolLoop shared ?l' (rc, rr) = Inr (symbol_merge (cursor_rest ?l') (cursor_rest (rc, rr)))"
      by (rule IH) (use l okr in auto)
    ultimately show ?thesis using step left' l(3) unfolding lr l(2) by simp
  next
    case right': right
    note r = right[OF right'(2)]
    have nil: "cursor_rest (lc, lr) = []" using right'(1) by (simp add: cursor_rest_def)
    have "symbol_merge [] (n # ns) = replaceSymbolOp n # symbol_merge [] ns" for n ns by (cases ns) simp_all
    moreover have "fallbackSymbolLoop shared (lc, lr) ?r' = Inr (symbol_merge (cursor_rest (lc, lr)) (cursor_rest ?r'))"
      by (rule IH) (use r okl in auto)
    ultimately show ?thesis using step right' r(3) nil unfolding lr r(2) by simp
  next
    case none
    then show ?thesis using step unfolding lr by (simp add: cursor_rest_def)
  qed
qed

lemma newSymbolFactCursor_ok:
  assumes "table_canonical t"
  shows "cursor_ok (newSymbolFactCursor t)" and "cursor_rest (newSymbolFactCursor t) = symbolFacts t"
  using assms by (auto simp: table_canonical_def sfs_ok_def newSymbolFactCursor_def cursor_ok_def cursor_rest_def
      symbolFacts_def sfs_Range_def split: option.splits list.splits)

text \<open>
  C20: the fallback symbol delta never reads past a chunk and is correct. A client that holds the symbol
  rows of the base table and applies the planned operations holds those of the target table. That the
  planner may skip two chunks that share their rows in memory needs only that such chunks are equal.
\<close>

theorem planFallbackSymbolDelta_correct:
  assumes "table_canonical base" and "table_canonical target" and "\<And>a b. shared a b \<Longrightarrow> a = b"
  shows "\<exists>ops. planFallbackSymbolDelta shared base target = Inr ops \<and>
    fold applySymbolOp ops (canonicalSymbol base) = canonicalSymbol target"
proof -
  let ?b = "symbolFacts base" and ?t = "symbolFacts target"
  have plan: "planFallbackSymbolDelta shared base target = Inr (symbol_merge ?b ?t)"
    using fallbackSymbolLoop_merge[OF assms(3) newSymbolFactCursor_ok(1)[OF assms(1)] newSymbolFactCursor_ok(1)[OF assms(2)]]
    by (simp add: planFallbackSymbolDelta_def newSymbolFactCursor_ok(2) assms(1,2))
  have view: "keyed_view sym_ID Some None (symbolFacts t) = canonicalSymbol t" if "table_canonical t" for t
    using canonicalSymbol_map[OF that] by (auto simp: keyed_view_def fun_eq_iff split: option.split)
  have "fold applySymbolOp (symbol_merge ?b ?t) (canonicalSymbol base) =
      (\<lambda>k. if k \<in> sym_ID ` (set ?b \<union> set ?t) then keyed_view sym_ID Some None ?t k else canonicalSymbol base k)"
    by (rule symbol_rows.merge_view)
       (use assms(1,2) strict_symbolFacts in \<open>auto simp: view list_all_iff\<close>)
  also have "\<dots> = canonicalSymbol target"
    unfolding view[OF assms(2)]
    using canonicalSymbol_map[OF assms(1)] canonicalSymbol_map[OF assms(2)]
    by (auto simp: fun_eq_iff image_Un map_by_eq_None_iff[THEN iffD2])
  finally show ?thesis using plan by blast
qed

theorem planFallbackSymbolDelta_correct_witness:
  "\<exists>ops. planFallbackSymbolDelta (=) exampleBase exampleTarget = Inr ops \<and>
    fold applySymbolOp ops (canonicalSymbol exampleBase) ''s1'' = Some (exampleSymbol ''s1'' [''a'', ''c''])"
proof -
  have can: "table_canonical exampleBase" "table_canonical exampleTarget" by code_simp+
  have "canonicalSymbol exampleTarget ''s1'' = Some (exampleSymbol ''s1'' [''a'', ''c''])" by code_simp
  then show ?thesis using planFallbackSymbolDelta_correct[OF can, of "(=)"] by auto
qed

section \<open>The reference plan\<close>

abbreviation ref_sorted :: "Location list \<Rightarrow> bool" where
  "ref_sorted refs \<equiv> sorted (map loc_Path refs)"

text \<open>Splitting off the run of the least path.\<close>

lemma ref_run_split:
  assumes "ref_sorted refs" and "\<forall>l \<in> set refs. p \<le> loc_Path l"
  shows "refs = take (referencePathEnd refs p) refs @ drop (referencePathEnd refs p) refs"
    and "\<forall>l \<in> set (take (referencePathEnd refs p) refs). loc_Path l = p"
    and "\<forall>l \<in> set (drop (referencePathEnd refs p) refs). p < loc_Path l"
    and "ref_sorted (drop (referencePathEnd refs p) refs)"
proof -
  let ?P = "\<lambda>l. loc_Path l = p"
  have tk: "take (referencePathEnd refs p) refs = takeWhile ?P refs"
    unfolding referencePathEnd_def by (rule takeWhile_eq_take[symmetric])
  have dr: "drop (referencePathEnd refs p) refs = dropWhile ?P refs"
    unfolding referencePathEnd_def by (rule dropWhile_eq_drop[symmetric])
  show "refs = take (referencePathEnd refs p) refs @ drop (referencePathEnd refs p) refs" by simp
  show "\<forall>l \<in> set (take (referencePathEnd refs p) refs). loc_Path l = p"
    unfolding tk by (auto dest: set_takeWhileD)
  show sorted: "ref_sorted (drop (referencePathEnd refs p) refs)"
    using assms(1) by (simp add: drop_map[symmetric] sorted_wrt_drop)
  show "\<forall>l \<in> set (drop (referencePathEnd refs p) refs). p < loc_Path l"
  proof (cases "dropWhile ?P refs")
    case (Cons l ls)
    have "loc_Path l \<noteq> p" using hd_dropWhile[of ?P refs] Cons by simp
    moreover have "p \<le> loc_Path l" using assms(2) set_dropWhileD[of l ?P refs] Cons by simp
    ultimately show ?thesis using sorted Cons unfolding dr by (auto simp: order_less_le)
  next
    case Nil
    show ?thesis unfolding dr Nil by simp
  qed
qed

lemma replaceReferencePath_run:
  assumes "\<forall>l \<in> set pre. loc_Path l < p" and "\<forall>l \<in> set run. loc_Path l = p" and "\<forall>l \<in> set rest. p < loc_Path l"
  shows "replaceReferencePath p new (pre @ run @ rest) = pre @ new @ rest"
proof -
  have "takeWhile (\<lambda>l. loc_Path l < p) (run @ rest) = []"
    using assms(2,3) by (cases "run @ rest") (auto simp: append_eq_Cons_conv)
  moreover have "dropWhile (\<lambda>l. loc_Path l \<le> p) (pre @ run @ rest) = rest"
  proof -
    have "\<forall>l \<in> set (pre @ run). loc_Path l \<le> p" using assms(1,2) by auto
    then have "dropWhile (\<lambda>l. loc_Path l \<le> p) ((pre @ run) @ rest) = dropWhile (\<lambda>l. loc_Path l \<le> p) rest"
      by (subst dropWhile_append2) auto
    also have "\<dots> = rest" using assms(3) by (cases rest) (auto simp: not_le)
    finally show ?thesis by simp
  qed
  ultimately show ?thesis
    using assms(1) by (simp add: replaceReferencePath_def)
qed

lemma referenceStepPath_le:
  assumes "ref_sorted previous" and "ref_sorted next" and "\<not> (previous = [] \<and> next = [])"
  shows "\<forall>l \<in> set previous \<union> set next. referenceStepPath previous next \<le> loc_Path l"
  using assms by (cases previous; cases "next") (auto simp: referenceStepPath_def not_less)

lemma referenceStepPath_in:
  "\<not> (previous = [] \<and> next = []) \<Longrightarrow> \<exists>l \<in> set previous \<union> set next. referenceStepPath previous next = loc_Path l"
  by (cases previous; cases "next") (auto simp: referenceStepPath_def)

lemma planExactReferenceDelta_apply:
  assumes "ref_sorted previous" and "ref_sorted next"
    and "\<forall>l \<in> set pre. \<forall>m \<in> set previous \<union> set next. loc_Path l < loc_Path m"
    and "v sid = Some (f\<lparr>sym_References := pre @ previous\<rparr>)"
  shows "fold applySymbolOp (planExactReferenceDelta sid previous next) v =
    v(sid \<mapsto> f\<lparr>sym_References := pre @ next\<rparr>)"
  using assms
proof (induction sid previous "next" arbitrary: pre v rule: planExactReferenceDelta.induct)
  case (1 sid previous "next")
  note step = planExactReferenceDelta.simps[of sid previous "next"]
  show ?case
  proof (cases "previous = [] \<and> next = []")
    case True
    then show ?thesis using step "1.prems"(4) by (auto simp: fun_eq_iff)
  next
    case False
    let ?path = "referenceStepPath previous next"
    let ?pe = "referencePathEnd previous ?path" and ?ne = "referencePathEnd next ?path"
    note le = referenceStepPath_le[OF "1.prems"(1,2) False]
    note p = ref_run_split[OF "1.prems"(1), of ?path] and n = ref_run_split[OF "1.prems"(2), of ?path]
    have lep: "\<forall>l \<in> set previous. ?path \<le> loc_Path l" and len: "\<forall>l \<in> set next. ?path \<le> loc_Path l" using le by auto
    have pre: "\<forall>l \<in> set pre. loc_Path l < ?path"
      using referenceStepPath_in[OF False] "1.prems"(3) by metis
    let ?pre = "pre @ take ?ne next"
    let ?op = "if \<not> locationsEqual (take ?pe previous) (take ?ne next) then [referencePathOp sid ?path (take ?ne next)] else []"
    have "replaceReferencePath ?path (take ?ne next) (pre @ take ?pe previous @ drop ?pe previous) =
        pre @ take ?ne next @ drop ?pe previous"
      by (rule replaceReferencePath_run[OF pre p(2)[OF lep] p(3)[OF lep]])
    moreover have "take ?ne next @ drop ?pe previous = previous" if "take ?pe previous = take ?ne next"
      using append_take_drop_id[of ?pe previous] unfolding that .
    ultimately have first: "fold applySymbolOp ?op v = v(sid \<mapsto> f\<lparr>sym_References := ?pre @ drop ?pe previous\<rparr>)"
      using "1.prems"(4) by (auto simp: fun_eq_iff)
    have "\<forall>l \<in> set ?pre. \<forall>m \<in> set (drop ?pe previous) \<union> set (drop ?ne next). loc_Path l < loc_Path m"
      using pre n(2)[OF len] n(3)[OF len] p(3)[OF lep] by (auto intro: order_less_trans)
    then have "fold applySymbolOp (planExactReferenceDelta sid (drop ?pe previous) (drop ?ne next))
        (v(sid \<mapsto> f\<lparr>sym_References := ?pre @ drop ?pe previous\<rparr>)) =
        (v(sid \<mapsto> f\<lparr>sym_References := ?pre @ drop ?pe previous\<rparr>))(sid \<mapsto> f\<lparr>sym_References := ?pre @ drop ?ne next\<rparr>)"
      by (intro "1.IH"[OF False refl refl refl p(4)[OF lep] n(4)[OF len]]) auto
    then show ?thesis
      using step False first by (simp add: Let_def)
  qed
qed

section \<open>The exact plan\<close>

definition refs_sorted :: "FactTable \<Rightarrow> bool" where
  "refs_sorted t \<longleftrightarrow> table_canonical t \<and> list_all (\<lambda>f. ref_sorted (sym_References f)) (symbolFacts t)"

lemma refs_sortedD:
  assumes "refs_sorted t" and "canonicalSymbol t sid = Some f"
  shows "sym_ID f = sid" and "ref_sorted (sym_References f)"
  using assms map_by_SomeD[of sym_ID "symbolFacts t" sid f]
  by (auto simp: refs_sorted_def canonicalSymbol_map list_all_iff)

lemma symbol_row_eqI:
  "sym_ID p = sym_ID n \<Longrightarrow> sym_AliasTarget p = sym_AliasTarget n \<Longrightarrow> sym_Declarations p = sym_Declarations n \<Longrightarrow>
    p\<lparr>sym_References := sym_References n\<rparr> = (n :: SymbolFact)"
  by (cases p; cases n) simp

lemma exactSymbolOps_apply:
  assumes "refs_sorted base" and "refs_sorted target" and "v sid = canonicalSymbol base sid"
  shows "fold applySymbolOp (exactSymbolOps base target sid) v = v(sid := canonicalSymbol target sid)"
proof (cases "canonicalSymbol base sid"; cases "canonicalSymbol target sid")
  fix p n assume pn: "canonicalSymbol base sid = Some p" "canonicalSymbol target sid = Some n"
  show ?thesis
  proof (cases "sym_AliasTarget p \<noteq> sym_AliasTarget n \<or> sym_Declarations p \<noteq> sym_Declarations n")
    case True
    then show ?thesis using pn by (auto simp: exactSymbolOps_def)
  next
    case False
    have "p\<lparr>sym_References := sym_References n\<rparr> = n"
      using False refs_sortedD(1)[OF assms(1) pn(1)] refs_sortedD(1)[OF assms(2) pn(2)]
      by (intro symbol_row_eqI) auto
    then show ?thesis
      using False pn assms(3) refs_sortedD(2)[OF assms(1) pn(1)] refs_sortedD(2)[OF assms(2) pn(2)]
        planExactReferenceDelta_apply[of "sym_References p" "sym_References n" "[]" v sid p]
      by (simp add: exactSymbolOps_def)
  qed
qed (use assms(3) in \<open>auto simp: exactSymbolOps_def fun_eq_iff\<close>)

text \<open>
  C18: the exact symbol delta, which the sparse plan of the active protocol shares, is correct. When the
  manifest names every symbol whose row differs and both tables keep references in path order, a client
  that holds the symbol rows of the base table and applies the planned operations, reference-path
  operations included, holds those of the target table.
\<close>

theorem planExactSymbolDelta_correct:
  assumes "refs_sorted base" and "refs_sorted target" and "distinct (tc_symbolIDs m)"
    and "\<And>sid. canonicalSymbol base sid \<noteq> canonicalSymbol target sid \<Longrightarrow> sid \<in> set (tc_symbolIDs m)"
  shows "fold applySymbolOp (planExactSymbolDelta base target m) (canonicalSymbol base) = canonicalSymbol target"
proof -
  have "fold applySymbolOp (planExactSymbolDelta base target m) (canonicalSymbol base) =
    (\<lambda>sid. if sid \<in> set (sort (tc_symbolIDs m)) then canonicalSymbol target sid else canonicalSymbol base sid)"
    unfolding planExactSymbolDelta_def
    by (rule fold_keys[where w = "canonicalSymbol base"]) (use assms exactSymbolOps_apply in auto)
  then show ?thesis using assms(4) by (auto simp: fun_eq_iff)
qed

theorem planExactSymbolDelta_correct_witness:
  "fold applySymbolOp (planExactSymbolDelta exampleBase exampleTarget exampleManifest) (canonicalSymbol exampleBase) ''s1'' =
     Some (exampleSymbol ''s1'' [''a'', ''c''])"
proof -
  have ok: "refs_sorted exampleBase" "refs_sorted exampleTarget" "distinct (tc_symbolIDs exampleManifest)" by code_simp+
  then have can: "table_canonical exampleBase" "table_canonical exampleTarget" by (simp_all add: refs_sorted_def)
  have ids: "sym_ID ` set (symbolFacts exampleBase) \<union> sym_ID ` set (symbolFacts exampleTarget) \<subseteq> set (tc_symbolIDs exampleManifest)"
    by code_simp
  have "sid \<in> set (tc_symbolIDs exampleManifest)"
    if "canonicalSymbol exampleBase sid \<noteq> canonicalSymbol exampleTarget sid" for sid
    using that ids canonicalSymbol_map[OF can(1)] canonicalSymbol_map[OF can(2)] map_by_eq_None_iff[of sym_ID _ sid]
    by (metis UnI1 UnI2 subsetD)
  from planExactSymbolDelta_correct[OF ok this]
  have "fold applySymbolOp (planExactSymbolDelta exampleBase exampleTarget exampleManifest) (canonicalSymbol exampleBase) =
    canonicalSymbol exampleTarget" .
  moreover have "canonicalSymbol exampleTarget ''s1'' = Some (exampleSymbol ''s1'' [''a'', ''c''])" by code_simp
  ultimately show ?thesis by simp
qed

end
