(* ===== verification/Wire_Transition.thy ===== *)
theory Wire_Transition
  imports Wire_Rows Wire_Symbols
begin

text \<open>
  Encoding one table transition (\<^verbatim>\<open>wire_transition.go\<close>): validation of the input, the choice of the plan,
  the rows, and the frame that precedes them. The encoder is reused by its session, and its plan and
  dictionary are its state here; the backing arrays of its byte buffers are not. Rows go either into
  one detached byte slice or, chunk by chunk, into a transition arena.
\<close>

section \<open>Inputs and results\<close>

definition wireTransitionVersion :: u64 where "wireTransitionVersion = 1"
definition maxRetainedWireTransitionBuffer :: int where "maxRetainedWireTransitionBuffer = 2 ^ 20"
definition streamedWireTransitionChunk :: int where "streamedWireTransitionChunk = 64 * 2 ^ 10"

record wireTransitionInput =
  wi_ProjectID :: string
  wi_BaseStateToken :: string
  wi_Base :: "FactTable option"
  wi_Target :: "FactTable option"
  wi_Sparse :: bool

record encodedWireTransition =
  et_Bytes :: bytes
  et_Mode :: wireTransitionMode
  et_PathOperations :: nat
  et_SymbolOperations :: nat

text \<open>The arena interface: its two methods on an arena state.\<close>

record 'a TransitionArena =
  ta_AppendRows :: "'a \<Rightarrow> bytes \<Rightarrow> go_error option \<times> 'a"
  ta_Finish :: "'a \<Rightarrow> bytes \<Rightarrow> go_error option \<times> 'a"

record wireTransitionEncoder =
  we_tableSchema :: u64
  we_dict :: "stringTableV3 option"
  we_pathOps :: "wireTransitionPathOp list"
  we_symbolOps :: "wireTransitionSymbolOp list"
  we_paths :: "string list"
  we_symbolIDs :: "SymbolID list"

section \<open>Validation and plan\<close>

definition validateWireTransitionInput :: "wireTransitionInput \<Rightarrow> (wireTransitionMode \<times> u64) result" where
  "validateWireTransitionInput input =
     (case wi_Target input of
        None \<Rightarrow> Inl (Errorf ''wire transition target is nil'')
      | Some target \<Rightarrow>
          if wi_ProjectID input = [] then Inl (Errorf ''wire transition project ID is empty'')
          else if ft_Schema target \<noteq> TypeFactsSchemaVersion then Inl (Errorf ''wire transition target schema'')
          else if ft_Generation target = 0 then Inl (Errorf ''wire transition target generation is zero'')
          else
            (case wi_Base input of
               None \<Rightarrow>
                 if wi_BaseStateToken input \<noteq> []
                 then Inl (Errorf ''full wire transition carries a base state token'')
                 else Inr (wireTransitionFull, 0)
             | Some base \<Rightarrow>
                 if ft_Schema base \<noteq> TypeFactsSchemaVersion then Inl (Errorf ''wire transition base schema'')
                 else if wi_BaseStateToken input = []
                 then Inl (Errorf ''delta wire transition has no base state token'')
                 else if ft_Generation base = 0
                 then Inl (Errorf ''delta wire transition base generation is zero'')
                 else if ft_Generation target < ft_Generation base
                 then Inl (Errorf ''wire transition target generation precedes base generation'')
                 else Inr (wireTransitionDelta, ft_Generation base)))"

definition releasePlan :: "wireTransitionEncoder \<Rightarrow> wireTransitionEncoder" where
  "releasePlan e = e\<lparr>we_pathOps := [], we_symbolOps := [], we_paths := [], we_symbolIDs := []\<rparr>"

definition resetDictionary :: "wireTransitionEncoder \<Rightarrow> wireTransitionEncoder" where
  "resetDictionary e =
     (case we_dict e of
        None \<Rightarrow> e\<lparr>we_dict := Some newStringTableV3\<rparr>
      | Some dict \<Rightarrow> e\<lparr>we_dict := Some \<lparr>st_indexes = [[] \<mapsto> 0], st_values = [[]]\<rparr>\<rparr>)"

text \<open>The plan appends to the slices of a released encoder.\<close>

definition planTransition ::
    "(SymbolFact list \<Rightarrow> SymbolFact list \<Rightarrow> bool) \<Rightarrow> wireTransitionMode \<Rightarrow> bool \<Rightarrow> FactTable option \<Rightarrow> FactTable \<Rightarrow>
     wireTransitionEncoder \<Rightarrow> wireTransitionEncoder result" where
  "planTransition shared mode sparse base target e =
     (if mode = wireTransitionFull then Inr (e\<lparr>we_paths := we_paths e @ planFull target\<rparr>)
      else
        (case base of
           None \<Rightarrow> Inl (Panic ''nil base table'')
         | Some b \<Rightarrow>
             if sparse then
               (case ft_transport target of
                  None \<Rightarrow> Inl ErrSparseTransitionUnavailable
                | Some m \<Rightarrow>
                    if \<not> tc_exact m then Inl ErrSparseTransitionUnavailable
                    else (case planSparseDelta b target m of (pathOps, symbolOps) \<Rightarrow>
                      Inr (e\<lparr>we_pathOps := we_pathOps e @ pathOps, we_symbolOps := we_symbolOps e @ symbolOps\<rparr>)))
             else bind_result (planDelta shared b target) (\<lambda>(pathOps, symbolOps).
               Inr (e\<lparr>we_pathOps := we_pathOps e @ pathOps, we_symbolOps := we_symbolOps e @ symbolOps\<rparr>))))"

section \<open>Rows and frame\<close>

definition internKey :: "string \<Rightarrow> ('a, unit) action" where
  "internKey key = bindA (pw_intern key) (\<lambda>_. ret ())"

definition internOperationKeys :: "wireTransitionEncoder \<Rightarrow> ('a, unit) action" where
  "internOperationKeys e =
     run_all (map (\<lambda>op. internKey (po_path op)) (we_pathOps e) @
       map (\<lambda>op. internKey (so_id op)) (we_symbolOps e) @
       map (\<lambda>op. whenA (so_tag op = wireTransitionReplaceReferencePath) (internKey (so_referencePath op)))
         (we_symbolOps e))"

definition internFullOperationKeys :: "FactTable \<Rightarrow> wireTransitionEncoder \<Rightarrow> ('a, unit) action" where
  "internFullOperationKeys target e =
     run_all (map internKey (we_paths e) @ map (\<lambda>f. internKey (sym_ID f)) (symbolFacts target))"

definition writeFullPath :: "FactTable \<Rightarrow> u64 \<Rightarrow> string \<Rightarrow> ('a, unit) action" where
  "writeFullPath target tableSchema path =
     (case wireTransitionPathDifference None target path True True True of (operation, changed) \<Rightarrow>
        bindA (failIf (\<not> changed) ''full path has no rows'') (\<lambda>_.
          writeWireTransitionPathOp operation tableSchema))"

definition pathOperationCount :: "wireTransitionMode \<Rightarrow> wireTransitionEncoder \<Rightarrow> nat" where
  "pathOperationCount mode e =
     (if mode = wireTransitionFull then length (we_paths e) else length (we_pathOps e))"

definition symbolOperationCount :: "wireTransitionMode \<Rightarrow> FactTable \<Rightarrow> wireTransitionEncoder \<Rightarrow> nat" where
  "symbolOperationCount mode target e =
     (if mode = wireTransitionFull then symbolFactsCount target else length (we_symbolOps e))"

definition effectiveSchema :: "wireTransitionEncoder \<Rightarrow> u64" where
  "effectiveSchema e = (if we_tableSchema e = 0 then TypeFactsTableSchemaVersion else we_tableSchema e)"

definition writeRows ::
    "wireTransitionMode \<Rightarrow> string \<Rightarrow> string \<Rightarrow> FactTable \<Rightarrow> wireTransitionEncoder \<Rightarrow> ('a, unit) action" where
  "writeRows mode projectID baseStateToken target e =
     run_all
       ([pw_text projectID, pw_text baseStateToken,
         (if mode = wireTransitionFull then internFullOperationKeys target e else internOperationKeys e),
         pw_u64 (of_nat (pathOperationCount mode e))] @
        (if mode = wireTransitionFull then map (writeFullPath target (effectiveSchema e)) (we_paths e)
         else map (\<lambda>op. writeWireTransitionPathOp op (effectiveSchema e)) (we_pathOps e)) @
        [pw_u64 (of_nat (symbolOperationCount mode target e))] @
        (if mode = wireTransitionFull
         then map (\<lambda>f. writeWireTransitionSymbolOp mode (replaceSymbolOp f)) (symbolFacts target) @
           [failIf (length (symbolFacts target) \<noteq> symbolOperationCount mode target e)
              ''encoded full symbol operations differ from their count'']
         else map (writeWireTransitionSymbolOp mode) (we_symbolOps e)))"

definition frameWriter :: "'a \<Rightarrow> 'a packedWriter" where
  "frameWriter a = \<lparr>pw_bytes = [], pw_dict = newStringTableV3, pw_flush = None, pw_arena = a,
     pw_flushLimit = 0, pw_flushed = 0, pw_err = None\<rparr>"

definition writeFrame :: "wireTransitionMode \<Rightarrow> u64 \<Rightarrow> u64 \<Rightarrow> u64 \<Rightarrow> stringTableV3 \<Rightarrow> ('a, unit) action" where
  "writeFrame mode tableSchema baseGeneration targetGeneration dict =
     run_all [pw_u64 wireTransitionVersion, pw_u64 mode, pw_u64 tableSchema, pw_u64 baseGeneration,
       pw_u64 targetGeneration, appendPackedDictionary dict]"

definition rowsWriter :: "'a TransitionArena option \<Rightarrow> 'a \<Rightarrow> stringTableV3 \<Rightarrow> 'a packedWriter" where
  "rowsWriter arena a dict =
     \<lparr>pw_bytes = [], pw_dict = dict, pw_flush = map_option ta_AppendRows arena, pw_arena = a,
      pw_flushLimit = (if Option.is_none arena then 0 else streamedWireTransitionChunk), pw_flushed = 0, pw_err = None\<rparr>"

text \<open>A large cold transition drops the reusable dictionary and plan.\<close>

definition dropCold :: "nat \<Rightarrow> wireTransitionEncoder \<Rightarrow> wireTransitionEncoder" where
  "dropCold frameSize e =
     (if maxRetainedWireTransitionBuffer \<le> int frameSize
      then e\<lparr>we_dict := None, we_pathOps := [], we_symbolOps := [], we_paths := [], we_symbolIDs := []\<rparr> else e)"

definition deferredReset :: "wireTransitionEncoder \<Rightarrow> wireTransitionEncoder" where
  "deferredReset e = releasePlan (resetDictionary e)"

section \<open>Encoding\<close>

definition encodePlanned ::
    "wireTransitionInput \<Rightarrow> FactTable \<Rightarrow> wireTransitionMode \<Rightarrow> u64 \<Rightarrow> 'a TransitionArena option \<Rightarrow> 'a \<Rightarrow>
     wireTransitionEncoder \<Rightarrow> encodedWireTransition result \<times> wireTransitionEncoder \<times> 'a" where
  "encodePlanned input target mode baseGeneration arena a e =
     (let e = resetDictionary e;
          dict = (case we_dict e of Some d \<Rightarrow> d | None \<Rightarrow> newStringTableV3);
          paths = pathOperationCount mode e;
          symbols = symbolOperationCount mode target e
      in
      case writeRows mode (wi_ProjectID input) (wi_BaseStateToken input) target e (rowsWriter arena a dict) of
        (Inl err, w) \<Rightarrow> (Inl err, deferredReset (e\<lparr>we_dict := Some (pw_dict w)\<rparr>), pw_arena w)
      | (Inr _, w) \<Rightarrow>
          (case pw_finish w of
             (Some err, w) \<Rightarrow> (Inl err, deferredReset (e\<lparr>we_dict := Some (pw_dict w)\<rparr>), pw_arena w)
           | (None, w) \<Rightarrow>
               let e = e\<lparr>we_dict := Some (pw_dict w)\<rparr>;
                   frame = pw_bytes (snd (writeFrame mode (effectiveSchema e) baseGeneration (ft_Generation target)
                     (pw_dict w) (frameWriter (pw_arena w))))
               in
               case arena of
                 Some ta \<Rightarrow>
                   (case ta_Finish ta (pw_arena w) frame of
                      (Some err, a) \<Rightarrow> (Inl err, deferredReset e, a)
                    | (None, a) \<Rightarrow>
                        (Inr \<lparr>et_Bytes = [], et_Mode = mode, et_PathOperations = paths, et_SymbolOperations = symbols\<rparr>,
                         deferredReset (dropCold (pw_flushed w + length frame) e), a))
               | None \<Rightarrow>
                   (Inr \<lparr>et_Bytes = frame @ pw_bytes w, et_Mode = mode, et_PathOperations = paths,
                      et_SymbolOperations = symbols\<rparr>,
                    deferredReset (dropCold (length frame + length (pw_bytes w)) e), pw_arena w)))"

definition noopDelta :: "wireTransitionMode \<Rightarrow> u64 \<Rightarrow> FactTable \<Rightarrow> wireTransitionEncoder \<Rightarrow> bool" where
  "noopDelta mode baseGeneration target e \<longleftrightarrow>
     mode = wireTransitionDelta \<and> baseGeneration = ft_Generation target \<and>
     pathOperationCount mode e = 0 \<and> symbolOperationCount mode target e = 0"

definition encode ::
    "(SymbolFact list \<Rightarrow> SymbolFact list \<Rightarrow> bool) \<Rightarrow> wireTransitionInput \<Rightarrow> 'a TransitionArena option \<Rightarrow> 'a \<Rightarrow>
     wireTransitionEncoder \<Rightarrow> encodedWireTransition result \<times> wireTransitionEncoder \<times> 'a" where
  "encode shared input arena a e =
     (case (validateWireTransitionInput input, wi_Target input) of
        (Inr (mode, baseGeneration), Some target) \<Rightarrow>
          (case planTransition shared mode (wi_Sparse input) (wi_Base input) target (releasePlan e) of
             Inl err \<Rightarrow> (Inl err, releasePlan e, a)
           | Inr e \<Rightarrow>
               if noopDelta mode baseGeneration target e
               then (Inr \<lparr>et_Bytes = [], et_Mode = mode, et_PathOperations = 0, et_SymbolOperations = 0\<rparr>,
                     releasePlan e, a)
               else encodePlanned input target mode baseGeneration arena a e)
      | (Inl err, _) \<Rightarrow> (Inl err, e, a)
      | (Inr _, None) \<Rightarrow> (Inl (Errorf ''wire transition target is nil''), e, a))"

definition Encode ::
    "(SymbolFact list \<Rightarrow> SymbolFact list \<Rightarrow> bool) \<Rightarrow> wireTransitionInput \<Rightarrow> 'a \<Rightarrow> wireTransitionEncoder \<Rightarrow>
     encodedWireTransition result \<times> wireTransitionEncoder \<times> 'a" where
  "Encode shared input a e = encode shared input None a e"

definition EncodeInto ::
    "(SymbolFact list \<Rightarrow> SymbolFact list \<Rightarrow> bool) \<Rightarrow> wireTransitionInput \<Rightarrow> 'a TransitionArena option \<Rightarrow> 'a \<Rightarrow>
     wireTransitionEncoder \<Rightarrow> encodedWireTransition result \<times> wireTransitionEncoder \<times> 'a" where
  "EncodeInto shared input arena a e =
     (if Option.is_none arena then (Inl (Errorf ''transition arena is nil''), e, a) else encode shared input arena a e)"

end
