(* ===== verification/Wire_Streaming.thy ===== *)
theory Wire_Streaming
  imports Wire_Transition
begin

text \<open>
  Two runs of the row writers compared. A relation between writers that the primitive writes keep is
  kept by every row writer, and the two runs return the same results (locale \<open>writer_relation\<close>).
  Its instances are the streamed against the detached writer and the writer after some earlier output
  against the fresh one.
\<close>

lemma pw_u64_raw: "pw_u64 value = pw_raw (AppendUvarint value)"
  by (simp add: pw_u64_def pw_raw_def fun_eq_iff)

lemma bindA_Inr: "m w = (Inr x, w') \<Longrightarrow> bindA m k w = k x w'"
  by (simp add: bindA_def)

locale writer_relation =
  fixes R :: "'a packedWriter \<Rightarrow> 'a packedWriter \<Rightarrow> bool"
  assumes raw_law: "R w v \<Longrightarrow> R (snd (pw_raw value w)) (snd (pw_raw value v))"
    and intern_law: "R w v \<Longrightarrow> fst (pw_intern s w) = fst (pw_intern s v) \<and> R (snd (pw_intern s w)) (snd (pw_intern s v))"
begin

definition uniform :: "('a, 'v) action \<Rightarrow> bool" where
  "uniform m \<longleftrightarrow> (\<forall>w v. R w v \<longrightarrow> fst (m w) = fst (m v) \<and> R (snd (m w)) (snd (m v)))"

lemma uniformD: "uniform m \<Longrightarrow> R w v \<Longrightarrow> fst (m w) = fst (m v) \<and> R (snd (m w)) (snd (m v))"
  by (simp add: uniform_def)

lemma uniform_ret: "uniform (ret x)"
  by (simp add: uniform_def ret_def)

lemma uniform_fail: "uniform (fail e)"
  by (simp add: uniform_def fail_def)

lemma uniform_liftR: "uniform (liftR r)"
  by (simp add: uniform_def liftR_def)

lemma uniform_raw: "uniform (pw_raw value)"
  using raw_law by (simp add: uniform_def) (simp add: pw_raw_def)

lemma uniform_intern: "uniform (pw_intern s)"
  using intern_law by (simp add: uniform_def)

lemma uniform_bind:
  assumes "uniform m" and "\<And>x. uniform (k x)"
  shows "uniform (bindA m k)"
  unfolding uniform_def
proof (intro allI impI)
  fix w v assume "R w v"
  then have m: "fst (m w) = fst (m v)" "R (snd (m w)) (snd (m v))" using assms(1) by (simp_all add: uniform_def)
  show "fst (bindA m k w) = fst (bindA m k v) \<and> R (snd (bindA m k w)) (snd (bindA m k v))"
  proof (cases "fst (m v)")
    case (Inl e)
    then show ?thesis using m by (cases "m w"; cases "m v") (simp add: bindA_def)
  next
    case (Inr x)
    then show ?thesis
      using m uniformD[OF assms(2) m(2), of x] by (cases "m w"; cases "m v") (simp add: bindA_def)
  qed
qed

lemma uniform_if: "uniform m \<Longrightarrow> uniform n \<Longrightarrow> uniform (if b then m else n)"
  by simp

lemma uniform_option: "uniform m \<Longrightarrow> (\<And>x. uniform (k x)) \<Longrightarrow> uniform (case opt of None \<Rightarrow> m | Some x \<Rightarrow> k x)"
  by (cases opt) simp_all

lemma uniform_when: "uniform m \<Longrightarrow> uniform (whenA b m)"
  by (simp add: whenA_def uniform_ret)

lemma uniform_failIf: "uniform (failIf b msg)"
  by (simp add: failIf_def uniform_ret uniform_fail)

lemma uniform_run_all: "(\<And>m. m \<in> set ms \<Longrightarrow> uniform m) \<Longrightarrow> uniform (run_all ms)"
  by (induction ms) (auto intro: uniform_ret uniform_bind)

lemma uniform_loop: "(\<And>x s. x \<in> set xs \<Longrightarrow> uniform (f x s)) \<Longrightarrow> uniform (loopA f xs s)"
  by (induction xs arbitrary: s) (auto intro: uniform_ret uniform_bind)

lemma uniform_u64: "uniform (pw_u64 value)"
  by (simp add: pw_u64_raw uniform_raw)

lemmas uniform_rules = uniform_ret uniform_fail uniform_liftR uniform_raw uniform_intern uniform_bind uniform_if
  uniform_option uniform_when uniform_failIf uniform_loop uniform_u64

lemma uniform_all:
  "uniform (run_all [])" "uniform m \<Longrightarrow> uniform (run_all ms) \<Longrightarrow> uniform (run_all (m # ms))"
  "uniform (run_all ms) \<Longrightarrow> uniform (run_all ns) \<Longrightarrow> uniform (run_all (ms @ ns))"
  "(\<And>x. uniform (f x)) \<Longrightarrow> uniform (run_all (map f xs))"
proof -
  show "uniform (run_all [])" by (simp add: uniform_ret)
  show "uniform m \<Longrightarrow> uniform (run_all ms) \<Longrightarrow> uniform (run_all (m # ms))" by (simp add: uniform_bind)
  show "(\<And>x. uniform (f x)) \<Longrightarrow> uniform (run_all (map f xs))" by (rule uniform_run_all) auto
  have "run_all (ms @ ns) = bindA (run_all ms) (\<lambda>_. run_all ns)"
    by (induction ms) (auto simp: bindA_def ret_def fun_eq_iff split: sum.split prod.split)
  then show "uniform (run_all ms) \<Longrightarrow> uniform (run_all ns) \<Longrightarrow> uniform (run_all (ms @ ns))"
    by (simp add: uniform_bind)
qed

lemma uniform_signed: "uniform (pw_signed value)"
  unfolding pw_signed_def Let_def by (intro uniform_rules uniform_all)

lemma uniform_text: "uniform (pw_text s)"
  unfolding pw_text_def Let_def by (intro uniform_rules uniform_all)

lemma uniform_count: "uniform (pw_count xs)"
  unfolding pw_count_def Let_def by (intro uniform_rules uniform_all)

lemmas uniform_words = uniform_signed uniform_text uniform_count

lemma uniform_location: "uniform (internalLocation location state)"
  unfolding internalLocation_def Let_def by (intro uniform_rules uniform_all uniform_words)

lemma uniform_locations: "uniform (internalLocations locations)"
  unfolding internalLocations_def Let_def by (intro uniform_rules uniform_all uniform_words uniform_location)

lemma uniform_declaration: "uniform (internalDeclaration declaration state)"
  unfolding internalDeclaration_def Let_def by (intro uniform_rules uniform_all uniform_words uniform_location)

lemma uniform_declarations: "uniform (internalDeclarations declarations)"
  unfolding internalDeclarations_def Let_def by (intro uniform_rules uniform_all uniform_words uniform_declaration)

lemma uniform_typeDescriptor: "uniform (internalTypeDescriptor descriptor)"
  unfolding internalTypeDescriptor_def Let_def by (intro uniform_rules uniform_all uniform_words uniform_declarations)

lemma uniform_owner: "uniform (internalOwner owner state)"
  unfolding internalOwner_def Let_def by (intro uniform_rules uniform_all uniform_words uniform_location)

lemma uniform_resolvedDeclaration: "uniform (internalResolvedDeclaration declaration)"
  unfolding internalResolvedDeclaration_def Let_def by (intro uniform_rules uniform_all uniform_words uniform_location uniform_owner)

lemma uniform_sourceCall: "uniform (internalSourceCall call)"
  unfolding internalSourceCall_def Let_def by (intro uniform_rules uniform_all uniform_words uniform_location uniform_locations)

lemmas uniform_codec = uniform_words uniform_location uniform_locations uniform_declaration uniform_declarations
  uniform_typeDescriptor uniform_resolvedDeclaration uniform_sourceCall

lemma uniform_objectProperty: "uniform (writeObjectProperty property)"
  unfolding writeObjectProperty_def Let_def by (intro uniform_rules uniform_all uniform_codec)

lemma uniform_parameter: "uniform (writeWireTransitionParameter parameter schema)"
  unfolding writeWireTransitionParameter_def Let_def by (intro uniform_rules uniform_all uniform_codec uniform_objectProperty)

lemma uniform_argumentMapping: "uniform (writeArgumentMapping schema mapping)"
  unfolding writeArgumentMapping_def Let_def by (intro uniform_rules uniform_all uniform_codec uniform_parameter)

lemma uniform_targetCandidate: "uniform (writeTargetCandidate candidate)"
  unfolding writeTargetCandidate_def Let_def by (intro uniform_rules uniform_all uniform_codec)

lemma uniform_targetSet: "uniform (writeTargetSet targets)"
  unfolding writeTargetSet_def Let_def by (intro uniform_rules uniform_all uniform_codec uniform_targetCandidate)

lemma uniform_resolvedCall: "uniform (writeWireTransitionResolvedCall call schema)"
  unfolding writeWireTransitionResolvedCall_def Let_def by (intro uniform_rules uniform_all uniform_codec uniform_targetSet uniform_argumentMapping)

lemma uniform_constantValue: "uniform (writeConstantValue value)"
  unfolding writeConstantValue_def Let_def by (intro uniform_rules uniform_all uniform_codec)

lemma uniform_tupleShape: "uniform (writeTupleShape schema elementZero shape)"
  unfolding writeTupleShape_def Let_def by (intro uniform_rules uniform_all uniform_codec)

lemma uniform_literal: "uniform (writeLiteralCandidate literal)"
  unfolding writeLiteralCandidate_def Let_def by (intro uniform_rules uniform_all uniform_codec)

lemma uniform_entity: "uniform (writeEntity path schema entity previousStart)"
  unfolding writeEntity_def Let_def by (intro uniform_rules uniform_all uniform_codec uniform_resolvedCall
    uniform_constantValue uniform_tupleShape uniform_literal)

lemma uniform_entityRun: "uniform (writeWireTransitionEntityRun path entities schema)"
  unfolding writeWireTransitionEntityRun_def Let_def by (intro uniform_rules uniform_all uniform_codec uniform_entity)

lemma uniform_binding: "uniform (writeBinding binding)"
  unfolding writeBinding_def Let_def by (intro uniform_rules uniform_all uniform_codec)

lemma uniform_function: "uniform (writeFunction function)"
  unfolding writeFunction_def Let_def by (intro uniform_rules uniform_all uniform_codec)

lemma uniform_asyncFunction: "uniform (writeAsyncFunction function)"
  unfolding writeAsyncFunction_def Let_def by (intro uniform_rules uniform_all uniform_codec)

lemma uniform_fileBody: "uniform (writeWireTransitionFileBody file)"
  unfolding writeWireTransitionFileBody_def Let_def by (intro uniform_rules uniform_all uniform_codec uniform_binding
    uniform_function uniform_asyncFunction)

lemma uniform_pathOp: "uniform (writeWireTransitionPathOp operation schema)"
  unfolding writeWireTransitionPathOp_def Let_def by (intro uniform_rules uniform_all uniform_codec uniform_entityRun
    uniform_fileBody)

lemma uniform_reference: "uniform (validateReference path reference)"
  unfolding validateReference_def Let_def by (intro uniform_rules uniform_all uniform_codec)

lemma uniform_symbolOp: "uniform (writeWireTransitionSymbolOp mode operation)"
  unfolding writeWireTransitionSymbolOp_def Let_def by (intro uniform_rules uniform_all uniform_codec uniform_reference)

lemma uniform_dictionaryEntry: "uniform (dictionaryEntry value previous)"
  unfolding dictionaryEntry_def Let_def by (intro uniform_rules uniform_all)

lemma uniform_dictionary: "uniform (appendPackedDictionary dict)"
  unfolding appendPackedDictionary_def by (intro uniform_rules uniform_dictionaryEntry)

lemma uniform_frame: "uniform (writeFrame mode schema base target dict)"
  unfolding writeFrame_def by (intro uniform_rules uniform_all uniform_dictionary)

lemma uniform_writeRows: "uniform (writeRows mode projectID token target e)"
proof -
  have key: "uniform (internKey key)" for key
    unfolding internKey_def by (intro uniform_rules)
  have full: "uniform (writeFullPath target schema path)" for schema path
    unfolding writeFullPath_def by (cases "wireTransitionPathDifference None target path True True True")
      (auto intro!: uniform_rules uniform_pathOp)
  have "uniform (internOperationKeys e)" "uniform (internFullOperationKeys target e)"
    unfolding internOperationKeys_def internFullOperationKeys_def by (intro uniform_rules uniform_all key)+
  then show ?thesis
    unfolding writeRows_def
    by (cases "mode = wireTransitionFull") (auto intro!: uniform_rules uniform_all uniform_codec uniform_pathOp uniform_symbolOp full
      simp del: run_all.simps)
qed

end

section \<open>Detached writers\<close>

text \<open>Output of a detached writer follows what it held, and does not depend on it.\<close>

definition prefixed :: "bytes \<Rightarrow> 'a packedWriter \<Rightarrow> 'a packedWriter \<Rightarrow> bool" where
  "prefixed pre w v \<longleftrightarrow> pw_dict w = pw_dict v \<and> pw_flush w = None \<and> pw_flush v = None \<and> pw_bytes w = pre @ pw_bytes v"

interpretation prefixed: writer_relation "prefixed pre" for pre :: bytes
  by unfold_locales (auto simp: prefixed_def pw_raw_def pw_intern_def maybeFlush_def split: prod.split)

lemma frame_detached:
  fixes a b :: 'a
  shows "pw_bytes (snd (writeFrame mode schema base target dict (frameWriter a))) =
   pw_bytes (snd (writeFrame mode schema base target dict (frameWriter b)))"
proof -
  have "prefixed [] (frameWriter a) (frameWriter b)" by (simp add: prefixed_def frameWriter_def)
  from prefixed.uniformD[OF prefixed.uniform_frame this] show ?thesis by (simp add: prefixed_def)
qed

section \<open>The arena interface\<close>

text \<open>
  What the encoder relies on: an append that reports success has extended the arena's rows, and a
  finish that reports success publishes the header followed by the rows.
\<close>

locale transition_arena =
  fixes ta :: "'a TransitionArena" and arena_rows :: "'a \<Rightarrow> bytes" and published :: "'a \<Rightarrow> bytes option"
    and arena_ok :: "'a \<Rightarrow> bool"
  assumes append_law: "arena_ok a \<Longrightarrow> ta_AppendRows ta a chunk = (None, a') \<Longrightarrow>
      arena_ok a' \<and> arena_rows a' = arena_rows a @ chunk"
    and finish_law: "arena_ok a \<Longrightarrow> ta_Finish ta a header = (None, a') \<Longrightarrow> published a' = Some (header @ arena_rows a)"
begin

definition streaming :: "'a packedWriter \<Rightarrow> 'a packedWriter \<Rightarrow> bool" where
  "streaming w v \<longleftrightarrow> pw_dict w = pw_dict v \<and> pw_flush v = None \<and> pw_err v = None \<and> pw_flush w = Some (ta_AppendRows ta) \<and>
     (pw_err w = None \<longrightarrow> arena_ok (pw_arena w) \<and> arena_rows (pw_arena w) @ pw_bytes w = pw_bytes v)"

lemma streaming_flushNow:
  assumes "streaming w v" and "pw_err w = None"
  shows "streaming (flushNow (ta_AppendRows ta) w) v"
proof -
  obtain err a where f: "ta_AppendRows ta (pw_arena w) (pw_bytes w) = (err, a)" by fastforce
  then show ?thesis
    using assms append_law[of "pw_arena w" "pw_bytes w" a] by (auto simp: streaming_def flushNow_def)
qed

sublocale writer_relation streaming
proof
  fix w v :: "'a packedWriter" and s :: string and bs :: bytes assume sim: "streaming w v"
  have "streaming (w\<lparr>pw_bytes := pw_bytes w @ bs\<rparr>) (v\<lparr>pw_bytes := pw_bytes v @ bs\<rparr>)"
    using sim by (auto simp: streaming_def)
  moreover have "pw_flush v = None" "pw_flush w = Some (ta_AppendRows ta)" using sim by (auto simp: streaming_def)
  ultimately show "streaming (snd (pw_raw bs w)) (snd (pw_raw bs v))"
    by (auto simp: pw_raw_def maybeFlush_def intro: streaming_flushNow)
  show "fst (pw_intern s w) = fst (pw_intern s v) \<and> streaming (snd (pw_intern s w)) (snd (pw_intern s v))"
    using sim by (auto simp: pw_intern_def streaming_def split: prod.split)
qed

lemma streaming_finish:
  assumes "streaming w v" and "pw_finish w = (None, w')"
  shows "arena_ok (pw_arena w') \<and> arena_rows (pw_arena w') = pw_bytes v \<and> pw_dict w' = pw_dict v"
proof -
  have flush: "pw_flush w = Some (ta_AppendRows ta)" using assms(1) by (simp add: streaming_def)
  show ?thesis
  proof (cases "pw_err w = None \<and> pw_bytes w \<noteq> []")
    case True
    then have w': "w' = flushNow (ta_AppendRows ta) w" "pw_err w' = None"
      using assms(2) flush by (auto simp: pw_finish_def Let_def)
    have "pw_bytes w' = []" using w'(1) by (simp add: flushNow_def split: prod.splits)
    then show ?thesis
      using w' streaming_flushNow[OF assms(1)] True by (simp add: streaming_def)
  next
    case False
    then have "w' = w" "pw_err w = None" using assms(2) flush by (auto simp: pw_finish_def Let_def split: if_splits)
    then show ?thesis using assms(1) False by (simp add: streaming_def)
  qed
qed

text \<open>A detached writer has nothing to finish.\<close>

lemma finish_detached: "pw_flush v = None \<Longrightarrow> pw_err v = None \<Longrightarrow> pw_finish v = (None, v)"
  by (simp add: pw_finish_def)

lemma encodePlanned_streamed:
  assumes "arena_ok a" and "arena_rows a = []"
  shows "fst (encodePlanned input target mode base None a e) = Inl err \<Longrightarrow>
      fst (encodePlanned input target mode base (Some ta) a e) = Inl err"
    and "encodePlanned input target mode base (Some ta) a e = (Inr r, e', a') \<Longrightarrow>
      \<exists>b. fst (encodePlanned input target mode base None a e) = Inr (r\<lparr>et_Bytes := b\<rparr>) \<and> published a' = Some b"
proof -
  let ?e = "resetDictionary e"
  let ?dict = "case we_dict ?e of Some d \<Rightarrow> d | None \<Rightarrow> newStringTableV3"
  let ?rows = "writeRows mode (wi_ProjectID input) (wi_BaseStateToken input) target ?e"
  obtain rw w where w: "?rows (rowsWriter (Some ta) a ?dict) = (rw, w)" by fastforce
  obtain rv v where v: "?rows (rowsWriter None a ?dict) = (rv, v)" by fastforce
  have "streaming (rowsWriter (Some ta) a ?dict) (rowsWriter None a ?dict)"
    using assms by (simp add: streaming_def rowsWriter_def)
  from uniformD[OF uniform_writeRows[of mode "wi_ProjectID input" "wi_BaseStateToken input" target ?e] this]
  have sim: "rw = rv" "streaming w v" unfolding w v by simp_all
  have fin: "pw_finish v = (None, v)" using sim(2) by (intro finish_detached) (simp_all add: streaming_def)
  let ?frame = "\<lambda>x. pw_bytes (snd (writeFrame mode (effectiveSchema (?e\<lparr>we_dict := Some (pw_dict x)\<rparr>)) base
    (ft_Generation target) (pw_dict x) (frameWriter (pw_arena x))))"
  show "fst (encodePlanned input target mode base (Some ta) a e) = Inl err"
    if "fst (encodePlanned input target mode base None a e) = Inl err"
    using that w v sim(1) fin by (auto simp: encodePlanned_def Let_def split: sum.splits)
  show "\<exists>b. fst (encodePlanned input target mode base None a e) = Inr (r\<lparr>et_Bytes := b\<rparr>) \<and> published a' = Some b"
    if enc: "encodePlanned input target mode base (Some ta) a e = (Inr r, e', a')"
  proof -
    obtain u where rw: "rw = Inr u" using enc w by (auto simp: encodePlanned_def Let_def split: sum.splits)
    obtain w' where w': "pw_finish w = (None, w')"
      using enc w rw by (cases "pw_finish w") (auto simp: encodePlanned_def Let_def split: option.splits)
    note fin_w = streaming_finish[OF sim(2) w']
    have fr: "?frame w' = ?frame v"
      using fin_w frame_detached[of mode _ base "ft_Generation target" _ "pw_arena w'" "pw_arena v"]
      by (simp add: effectiveSchema_def)
    have finish: "ta_Finish ta (pw_arena w') (?frame w') = (None, a')"
      and r: "r = \<lparr>et_Bytes = [], et_Mode = mode, et_PathOperations = pathOperationCount mode ?e,
        et_SymbolOperations = symbolOperationCount mode target ?e\<rparr>"
      using enc w rw w' by (auto simp: encodePlanned_def Let_def split: option.splits prod.splits)
    have "published a' = Some (?frame v @ pw_bytes v)"
      using finish_law[OF _ finish] fin_w fr by simp
    moreover have "fst (encodePlanned input target mode base None a e) = Inr (r\<lparr>et_Bytes := ?frame v @ pw_bytes v\<rparr>)"
      using v rw sim(1) fin r by (simp add: encodePlanned_def Let_def)
    ultimately show ?thesis by blast
  qed
qed

lemma encode_streamed:
  assumes "arena_ok a" and "arena_rows a = []"
  shows "fst (encode shared input None a e) = Inl err \<Longrightarrow> fst (encode shared input (Some ta) a e) = Inl err"
    and "encode shared input (Some ta) a e = (Inr r, e', a') \<Longrightarrow>
      \<exists>b. fst (encode shared input None a e) = Inr (r\<lparr>et_Bytes := b\<rparr>) \<and> (published a' = Some b \<or> b = [] \<and> a' = a)"
proof -
  show "fst (encode shared input (Some ta) a e) = Inl err" if "fst (encode shared input None a e) = Inl err"
    using that encodePlanned_streamed(1)[OF assms]
    by (auto simp: encode_def split: sum.splits prod.splits option.splits if_splits)
  show "\<exists>b. fst (encode shared input None a e) = Inr (r\<lparr>et_Bytes := b\<rparr>) \<and> (published a' = Some b \<or> b = [] \<and> a' = a)"
    if enc: "encode shared input (Some ta) a e = (Inr r, e', a')"
  proof -
    obtain mode base target where valid: "validateWireTransitionInput input = Inr (mode, base)" "wi_Target input = Some target"
      using enc by (auto simp: encode_def split: sum.splits prod.splits option.splits)
    obtain e1 where plan: "planTransition shared mode (wi_Sparse input) (wi_Base input) target (releasePlan e) = Inr e1"
      using enc valid by (auto simp: encode_def split: sum.splits)
    show ?thesis
    proof (cases "noopDelta mode base target e1")
      case True
      then show ?thesis using enc valid plan by (auto simp: encode_def intro!: exI[of _ "[]"])
    next
      case False
      have step: "encode shared input arena a e = encodePlanned input target mode base arena a e1" for arena :: "'a TransitionArena option"
        by (simp only: encode_def valid plan prod.case sum.case option.case if_not_P[OF False])
      have "encodePlanned input target mode base (Some ta) a e1 = (Inr r, e', a')" using enc unfolding step .
      from encodePlanned_streamed(2)[OF assms this] show ?thesis unfolding step by blast
    qed
  qed
qed

end

section \<open>Arenas that do not fail\<close>

lemma frame_nonempty: "pw_bytes (snd (writeFrame mode schema base target dict (frameWriter a))) \<noteq> []"
proof -
  let ?ms = "[pw_u64 mode, pw_u64 schema, pw_u64 base, pw_u64 target, appendPackedDictionary dict]"
  let ?w = "snd (pw_u64 wireTransitionVersion (frameWriter a))"
  have w: "pw_u64 wireTransitionVersion (frameWriter a) = (Inr (), ?w)" "pw_bytes ?w = AppendUvarint wireTransitionVersion"
    "prefixed (pw_bytes ?w) ?w (frameWriter a)"
    by (simp_all add: pw_u64_def frameWriter_def maybeFlush_def prefixed_def)
  have "prefixed.uniform (pw_bytes ?w) (run_all ?ms)"
    by (intro prefixed.uniform_rules prefixed.uniform_all prefixed.uniform_dictionary)
  from prefixed.uniformD[OF this w(3)]
  have "pw_bytes (snd (run_all ?ms ?w)) = pw_bytes ?w @ pw_bytes (snd (run_all ?ms (frameWriter a)))"
    by (simp add: prefixed_def)
  moreover have "writeFrame mode schema base target dict (frameWriter a) = run_all ?ms ?w"
    unfolding writeFrame_def run_all.simps(2)[of "pw_u64 wireTransitionVersion" ?ms]
    by (rule bindA_Inr[of "pw_u64 wireTransitionVersion" "frameWriter a", OF w(1)])
  ultimately show ?thesis by (simp add: w(2))
qed

locale reliable_arena = transition_arena ta arena_rows published arena_ok
  for ta :: "'a TransitionArena" and arena_rows published arena_ok +
  fixes rowLimit headerLimit :: nat
  assumes append_total: "arena_ok a \<Longrightarrow> length (arena_rows a) + length chunk \<le> rowLimit \<Longrightarrow>
      fst (ta_AppendRows ta a chunk) = None"
    and finish_total: "arena_ok a \<Longrightarrow> header \<noteq> [] \<Longrightarrow> length header \<le> headerLimit \<Longrightarrow> fst (ta_Finish ta a header) = None"
begin

definition steady :: "'a packedWriter \<Rightarrow> 'a packedWriter \<Rightarrow> bool" where
  "steady w v \<longleftrightarrow> streaming w v \<and> (length (pw_bytes v) \<le> rowLimit \<longrightarrow> pw_err w = None)"

lemma steady_flushNow:
  assumes "steady w v" and "pw_err w = None"
  shows "steady (flushNow (ta_AppendRows ta) w) v"
proof -
  have "pw_err (flushNow (ta_AppendRows ta) w) = None" if "length (pw_bytes v) \<le> rowLimit"
  proof -
    have "arena_ok (pw_arena w)" "arena_rows (pw_arena w) @ pw_bytes w = pw_bytes v"
      using assms by (auto simp: steady_def streaming_def)
    then have "fst (ta_AppendRows ta (pw_arena w) (pw_bytes w)) = None"
      using that by (intro append_total) (simp_all flip: length_append)
    then show ?thesis
      by (cases "ta_AppendRows ta (pw_arena w) (pw_bytes w)") (simp add: flushNow_def)
  qed
  then show ?thesis using assms streaming_flushNow by (simp add: steady_def)
qed

lemma steady_relation: "writer_relation steady"
proof
  fix w v :: "'a packedWriter" and s :: string and bs :: bytes assume sim: "steady w v"
  have "steady (w\<lparr>pw_bytes := pw_bytes w @ bs\<rparr>) (v\<lparr>pw_bytes := pw_bytes v @ bs\<rparr>)"
    using sim by (auto simp: steady_def streaming_def)
  moreover have "pw_flush v = None" "pw_flush w = Some (ta_AppendRows ta)" using sim by (auto simp: steady_def streaming_def)
  ultimately show "steady (snd (pw_raw bs w)) (snd (pw_raw bs v))"
    by (auto simp: pw_raw_def maybeFlush_def intro: steady_flushNow)
  show "fst (pw_intern s w) = fst (pw_intern s v) \<and> steady (snd (pw_intern s w)) (snd (pw_intern s v))"
    using sim by (auto simp: pw_intern_def steady_def streaming_def split: prod.split)
qed

lemma steady_finish:
  assumes "steady w v" and "length (pw_bytes v) \<le> rowLimit"
  shows "fst (pw_finish w) = None"
proof -
  have w: "pw_err w = None" "pw_flush w = Some (ta_AppendRows ta)" using assms by (auto simp: steady_def streaming_def)
  have "pw_err (flushNow (ta_AppendRows ta) w) = None"
    using steady_flushNow[OF assms(1) w(1)] assms(2) by (simp add: steady_def)
  then show ?thesis using w by (simp add: pw_finish_def Let_def)
qed

lemma encodePlanned_total:
  assumes "arena_ok a" and "arena_rows a = []" and "fst (encodePlanned input target mode base None a e) = Inr r"
    and "length (et_Bytes r) \<le> rowLimit" and "length (et_Bytes r) \<le> headerLimit"
  shows "\<exists>r'. fst (encodePlanned input target mode base (Some ta) a e) = Inr r'"
proof -
  let ?e = "resetDictionary e"
  let ?dict = "case we_dict ?e of Some d \<Rightarrow> d | None \<Rightarrow> newStringTableV3"
  let ?rows = "writeRows mode (wi_ProjectID input) (wi_BaseStateToken input) target ?e"
  obtain rw w where w: "?rows (rowsWriter (Some ta) a ?dict) = (rw, w)" by fastforce
  obtain rv v where v: "?rows (rowsWriter None a ?dict) = (rv, v)" by fastforce
  have "steady (rowsWriter (Some ta) a ?dict) (rowsWriter None a ?dict)"
    using assms(1,2) by (simp add: steady_def streaming_def rowsWriter_def)
  from writer_relation.uniformD[OF steady_relation
      writer_relation.uniform_writeRows[OF steady_relation, of mode "wi_ProjectID input" "wi_BaseStateToken input" target ?e] this]
  have sim: "rw = rv" "steady w v" unfolding w v by simp_all
  have fin: "pw_finish v = (None, v)" using sim(2) by (intro finish_detached) (simp_all add: steady_def streaming_def)
  let ?frame = "\<lambda>x. pw_bytes (snd (writeFrame mode (effectiveSchema (?e\<lparr>we_dict := Some (pw_dict x)\<rparr>)) base
    (ft_Generation target) (pw_dict x) (frameWriter (pw_arena x))))"
  obtain u where rv: "rv = Inr u" using assms(3) v by (auto simp: encodePlanned_def Let_def split: sum.splits)
  then have bytes: "et_Bytes r = ?frame v @ pw_bytes v"
    using assms(3) v fin by (auto simp: encodePlanned_def Let_def)
  obtain w' where w': "pw_finish w = (None, w')"
    using steady_finish[OF sim(2)] assms(4) bytes by (cases "pw_finish w") simp
  note fin_w = streaming_finish[OF conjunct1[OF sim(2)[unfolded steady_def]] w']
  have fr: "?frame w' = ?frame v"
    using fin_w frame_detached[of mode _ base "ft_Generation target" _ "pw_arena w'" "pw_arena v"]
    by (simp add: effectiveSchema_def)
  have "length (?frame w') \<le> headerLimit" using assms(5) bytes unfolding fr by simp
  then have "fst (ta_Finish ta (pw_arena w') (?frame w')) = None"
    using fin_w frame_nonempty by (intro finish_total) blast+
  then obtain a' where "ta_Finish ta (pw_arena w') (?frame w') = (None, a')"
    by (cases "ta_Finish ta (pw_arena w') (?frame w')") simp
  then show ?thesis using w w' sim(1) rv by (simp add: encodePlanned_def Let_def)
qed

lemma encode_total:
  assumes "arena_ok a" and "arena_rows a = []" and "fst (encode shared input None a e) = Inr r"
    and "length (et_Bytes r) \<le> rowLimit" and "length (et_Bytes r) \<le> headerLimit"
  shows "\<exists>r'. fst (encode shared input (Some ta) a e) = Inr r'"
  using assms(3) encodePlanned_total[OF assms(1,2) _ assms(4,5)]
  by (auto simp: encode_def split: sum.splits prod.splits option.splits if_splits)

end

section \<open>Reuse of the encoder\<close>

lemma resetDictionary_new: "resetDictionary e = e\<lparr>we_dict := Some newStringTableV3\<rparr>"
  by (simp add: resetDictionary_def newStringTableV3_def split: option.split)

lemma planTransition_dict:
  "planTransition shared mode sparse base target (e\<lparr>we_dict := d\<rparr>) =
   map_sum id (\<lambda>e. e\<lparr>we_dict := d\<rparr>) (planTransition shared mode sparse base target e)"
proof (cases "base")
  case None
  then show ?thesis by (simp add: planTransition_def)
next
  case (Some b)
  then show ?thesis
    by (cases "planDelta shared b target") (auto simp: planTransition_def split: option.split prod.split)
qed

lemma encodePlanned_dict:
  "encodePlanned input target mode base arena a (e\<lparr>we_dict := d\<rparr>) = encodePlanned input target mode base arena a e"
proof -
  have "resetDictionary (e\<lparr>we_dict := d\<rparr>) = resetDictionary e" by (simp add: resetDictionary_new)
  then show ?thesis by (simp only: encodePlanned_def)
qed

lemma deferredReset_plan:
  "releasePlan (deferredReset e) = deferredReset e" "deferredReset e = releasePlan (e\<lparr>we_dict := Some newStringTableV3\<rparr>)"
  by (simp_all add: deferredReset_def releasePlan_def resetDictionary_new)

text \<open>
  C33: one encoder serves a whole session. What a call returns, to its caller and to the arena, depends on
  the encoder's table schema only, not on the plan or dictionary that earlier calls (failed ones
  included) left in it.
\<close>

theorem encode_reuse:
  assumes "we_tableSchema e = we_tableSchema e'"
  shows "fst (encode shared input arena a e) = fst (encode shared input arena a e') \<and>
    snd (snd (encode shared input arena a e)) = snd (snd (encode shared input arena a e'))"
proof -
  have rel: "releasePlan e' = (releasePlan e)\<lparr>we_dict := we_dict e'\<rparr>"
    using assms by (cases e; cases e') (simp add: releasePlan_def)
  show ?thesis
  proof (cases "validateWireTransitionInput input")
    case (Inl err)
    then show ?thesis by (simp add: encode_def)
  next
    case (Inr mb)
    then obtain mode base where mb: "validateWireTransitionInput input = Inr (mode, base)" by (cases mb) auto
    show ?thesis
    proof (cases "wi_Target input")
      case None
      then show ?thesis using mb by (simp add: encode_def)
    next
      case (Some target)
      show ?thesis
      proof (cases "planTransition shared mode (wi_Sparse input) (wi_Base input) target (releasePlan e)")
        case (Inl err)
        then show ?thesis using mb Some by (simp add: encode_def rel planTransition_dict)
      next
        case (Inr e1)
        moreover have "noopDelta mode base target (e1\<lparr>we_dict := d\<rparr>) = noopDelta mode base target e1" for d
          by (simp add: noopDelta_def pathOperationCount_def symbolOperationCount_def)
        ultimately show ?thesis using mb Some by (simp add: encode_def rel planTransition_dict encodePlanned_dict)
      qed
    qed
  qed
qed

definition exampleInput :: wireTransitionInput where
  "exampleInput = \<lparr>wi_ProjectID = ''p'', wi_BaseStateToken = [], wi_Base = None,
     wi_Target = Some (zeroFactTable\<lparr>ft_Schema := 1, ft_Generation := 1, ft_sourceDigests := [exampleDigest ''a'' 1]\<rparr>),
     wi_Sparse = False\<rparr>"

definition exampleEncoder :: wireTransitionEncoder where
  "exampleEncoder = \<lparr>we_tableSchema = 0, we_dict = None, we_pathOps = [], we_symbolOps = [], we_paths = [],
     we_symbolIDs = []\<rparr>"

theorem encode_reuse_witness:
  "fst (encode (=) exampleInput None () (exampleEncoder\<lparr>we_dict := Some (fst (intern newStringTableV3 ''left over'')),
      we_paths := [''z'']\<rparr>)) = fst (encode (=) exampleInput None () exampleEncoder)"
  using encode_reuse[of "exampleEncoder\<lparr>we_dict := Some (fst (intern newStringTableV3 ''left over'')), we_paths := [''z'']\<rparr>"
      exampleEncoder "(=)" exampleInput None "()"]
  by (simp add: exampleEncoder_def)

end
