(* ===== verification/Transition_Arena.thy ===== *)
theory Transition_Arena
  imports Wire_Streaming
begin

text \<open>
  The file-backed transition arena (\<^verbatim>\<open>cmd/solid-typefacts/transition_arena.go\<close>): rows are written from a
  fixed offset on, the dictionary prefix is written right before them, and the header that commits both
  comes last. The operating system's file is modelled with a script of write outcomes, so that short
  writes and failures at any point are covered; contents are a function of the offset, since the file
  is sparse.
\<close>

section \<open>Files\<close>

datatype outcome = Wrote nat | Failed nat

record osFile =
  fl_content :: "nat \<Rightarrow> u8"
  fl_length :: nat
  fl_pos :: nat
  fl_script :: "outcome list"

definition maxFileOffset :: nat where "maxFileOffset = 2 ^ 63"

definition put :: "nat \<Rightarrow> bytes \<Rightarrow> osFile \<Rightarrow> osFile" where
  "put at bs f = f\<lparr>fl_content := (\<lambda>i. if at \<le> i \<and> i < at + length bs then bs ! (i - at) else fl_content f i),
     fl_length := max (fl_length f) (if bs = [] then 0 else at + length bs)\<rparr>"

definition read_at :: "osFile \<Rightarrow> nat \<Rightarrow> nat \<Rightarrow> bytes" where
  "read_at f at n = map (\<lambda>i. fl_content f (at + i)) [0..<n]"

definition next_outcome :: "nat \<Rightarrow> osFile \<Rightarrow> outcome \<times> osFile" where
  "next_outcome whole f =
     (case fl_script f of [] \<Rightarrow> (Wrote whole, f) | o1 # rest \<Rightarrow> (o1, f\<lparr>fl_script := rest\<rparr>))"

text \<open>
  \<^verbatim>\<open>Write\<close> writes at the file position and may report fewer bytes; \<^verbatim>\<open>WriteAt\<close> writes all or reports an
  error and leaves the position alone; neither goes past the largest file offset.
\<close>

definition file_Write :: "bytes \<Rightarrow> osFile \<Rightarrow> nat \<times> go_error option \<times> osFile" where
  "file_Write chunk f =
     (if maxFileOffset < fl_pos f + length chunk then (0, Some (ErrBackend ''file too large''), f)
      else
        (case next_outcome (length chunk) f of
           (Wrote n, f) \<Rightarrow>
             let n = min n (length chunk) in (n, None, (put (fl_pos f) (take n chunk) f)\<lparr>fl_pos := fl_pos f + n\<rparr>)
         | (Failed n, f) \<Rightarrow>
             let n = min n (length chunk) in
             (n, Some (ErrBackend ''write''), (put (fl_pos f) (take n chunk) f)\<lparr>fl_pos := fl_pos f + n\<rparr>)))"

definition file_WriteAt :: "bytes \<Rightarrow> nat \<Rightarrow> osFile \<Rightarrow> go_error option \<times> osFile" where
  "file_WriteAt bs at f =
     (if maxFileOffset < at + length bs then (Some (ErrBackend ''file too large''), f)
      else
        (case next_outcome (length bs) f of
           (Wrote _, f) \<Rightarrow> (None, put at bs f)
         | (Failed n, f) \<Rightarrow> (Some (ErrBackend ''write at''), put at (take n bs) f)))"

definition file_Truncate :: "nat \<Rightarrow> osFile \<Rightarrow> go_error option \<times> osFile" where
  "file_Truncate n f =
     (case next_outcome n f of
        (Wrote _, f) \<Rightarrow>
          (None, f\<lparr>fl_content := (\<lambda>i. if i < n \<and> i < fl_length f then fl_content f i else 0), fl_length := n\<rparr>)
      | (Failed _, f) \<Rightarrow> (Some (ErrBackend ''truncate''), f))"

definition file_Seek :: "nat \<Rightarrow> osFile \<Rightarrow> go_error option \<times> osFile" where
  "file_Seek n f =
     (case next_outcome n f of
        (Wrote _, f) \<Rightarrow> (None, f\<lparr>fl_pos := n\<rparr>)
      | (Failed _, f) \<Rightarrow> (Some (ErrBackend ''seek''), f))"

section \<open>The arena\<close>

definition transitionArenaRowsOffset :: nat where "transitionArenaRowsOffset = 64 * 2 ^ 20"
definition transitionArenaHeaderSize :: nat where "transitionArenaHeaderSize = 32"
definition transitionArenaMagic :: bytes where "transitionArenaMagic = string_bytes ''STFARENA''"

record transitionFileArena =
  fa_path :: string
  fa_file :: "osFile option"
  fa_requestID :: u64
  fa_rowBytes :: u64
  fa_offset :: u64
  fa_length :: u64
  fa_committed :: bool

definition putUint64 :: "u64 \<Rightarrow> bytes" where
  "putUint64 v = map (\<lambda>i. ucast (drop_bit (8 * i) v)) [0..<8]"

definition arena_Begin :: "u64 \<Rightarrow> transitionFileArena option \<Rightarrow> go_error option \<times> transitionFileArena option" where
  "arena_Begin requestID arena =
     (case arena of
        None \<Rightarrow> (Some (Errorf ''transition arena is closed''), None)
      | Some a \<Rightarrow>
          (case fa_file a of
             None \<Rightarrow> (Some (Errorf ''transition arena is closed''), Some a)
           | Some f \<Rightarrow>
               let a = a\<lparr>fa_requestID := requestID, fa_rowBytes := 0, fa_offset := 0, fa_length := 0,
                 fa_committed := False\<rparr>
               in
               case file_Truncate transitionArenaRowsOffset f of
                 (Some err, f) \<Rightarrow> (Some err, Some (a\<lparr>fa_file := Some f\<rparr>))
               | (None, f) \<Rightarrow>
                   (case file_Seek transitionArenaRowsOffset f of
                      (Some err, f) \<Rightarrow> (Some err, Some (a\<lparr>fa_file := Some f\<rparr>))
                    | (None, f) \<Rightarrow>
                        (case file_WriteAt (replicate transitionArenaHeaderSize 0) 0 f of
                           (err, f) \<Rightarrow> (err, Some (a\<lparr>fa_file := Some f\<rparr>))))))"

function arena_append :: "bytes \<Rightarrow> transitionFileArena \<Rightarrow> osFile \<Rightarrow> go_error option \<times> transitionFileArena" where
  "arena_append chunk a f =
     (if chunk = [] then (None, a\<lparr>fa_file := Some f\<rparr>)
      else
        (case file_Write chunk f of
           (written, Some err, f) \<Rightarrow> (Some err, a\<lparr>fa_file := Some f\<rparr>)
         | (written, None, f) \<Rightarrow>
             if written = 0 then (Some (Errorf ''short write''), a\<lparr>fa_file := Some f\<rparr>)
             else arena_append (drop written chunk) (a\<lparr>fa_rowBytes := fa_rowBytes a + of_nat written\<rparr>) f))"
  by pat_completeness auto
termination
  by (relation "measure (\<lambda>(chunk, _, _). length chunk)") (auto simp: diff_less)

declare arena_append.simps [simp del]

definition arena_AppendRows :: "transitionFileArena \<Rightarrow> bytes \<Rightarrow> go_error option \<times> transitionFileArena" where
  "arena_AppendRows a chunk =
     (case fa_file a of
        None \<Rightarrow> if chunk = [] then (None, a) else (Some (ErrBackend ''invalid file''), a)
      | Some f \<Rightarrow> arena_append chunk a f)"

definition arena_Finish :: "transitionFileArena \<Rightarrow> bytes \<Rightarrow> go_error option \<times> transitionFileArena" where
  "arena_Finish a prefix =
     (if prefix = [] \<or> transitionArenaRowsOffset - transitionArenaHeaderSize < length prefix
      then (Some (Errorf ''transition prefix length is out of range''), a)
      else
        (case fa_file a of
           None \<Rightarrow> (Some (ErrBackend ''invalid file''), a)
         | Some f \<Rightarrow>
             let offset = transitionArenaRowsOffset - length prefix in
             case file_WriteAt prefix offset f of
               (Some err, f) \<Rightarrow> (Some err, a\<lparr>fa_file := Some f\<rparr>)
             | (None, f) \<Rightarrow>
                 let len = of_nat (length prefix) + fa_rowBytes a;
                     header = transitionArenaMagic @ putUint64 (fa_requestID a) @ putUint64 (of_nat offset) @ putUint64 len
                 in
                 case file_WriteAt header 0 f of
                   (Some err, f) \<Rightarrow> (Some err, a\<lparr>fa_file := Some f\<rparr>)
                 | (None, f) \<Rightarrow>
                     (None, a\<lparr>fa_file := Some f, fa_offset := of_nat offset, fa_length := len, fa_committed := True\<rparr>)))"

definition arena_descriptor :: "transitionFileArena option \<Rightarrow> (string \<times> u64 list) option" where
  "arena_descriptor arena =
     (case arena of
        None \<Rightarrow> None
      | Some a \<Rightarrow> if fa_committed a then Some (fa_path a, [fa_requestID a, fa_offset a, fa_length a]) else None)"

definition fileArena :: "transitionFileArena TransitionArena" where
  "fileArena = \<lparr>ta_AppendRows = arena_AppendRows, ta_Finish = arena_Finish\<rparr>"

section \<open>What a client reads\<close>

definition getUint64 :: "bytes \<Rightarrow> u64" where
  "getUint64 bs = foldr (\<lambda>b acc. push_bit 8 acc OR ucast b) bs 0"

text \<open>The client checks the magic and the request, then reads the region the header names.\<close>

definition client_read :: "u64 \<Rightarrow> osFile \<Rightarrow> bytes option" where
  "client_read requestID f =
     (if read_at f 0 8 = transitionArenaMagic \<and> getUint64 (read_at f 8 8) = requestID
      then Some (read_at f (unat (getUint64 (read_at f 16 8))) (unat (getUint64 (read_at f 24 8))))
      else None)"

lemma getUint64_step:
  "push_bit 8 (take_bit (8 * n) (drop_bit 8 x)) OR ucast (ucast x :: u8) = take_bit (8 * Suc n) (x :: u64)"
  by (rule bit_word_eqI) (auto simp: bit_simps)

lemma getUint64_bytes:
  "getUint64 (map (\<lambda>i. ucast (drop_bit (8 * i) v)) [k..<k + n]) = take_bit (8 * n) (drop_bit (8 * k) v)"
proof (induction n arbitrary: k)
  case 0
  then show ?case by (simp add: getUint64_def)
next
  case (Suc n)
  have "[k..<k + Suc n] = k # [Suc k..<Suc k + n]" by (simp add: upt_conv_Cons)
  then have "getUint64 (map (\<lambda>i. ucast (drop_bit (8 * i) v)) [k..<k + Suc n]) =
      push_bit 8 (getUint64 (map (\<lambda>i. ucast (drop_bit (8 * i) v)) [Suc k..<Suc k + n])) OR
      ucast (ucast (drop_bit (8 * k) v) :: u8)"
    by (simp add: getUint64_def)
  also have "\<dots> = take_bit (8 * Suc n) (drop_bit (8 * k) v)"
    unfolding Suc.IH using getUint64_step[of n "drop_bit (8 * k) v"] by simp
  finally show ?case .
qed

lemma getUint64_putUint64 [codec_simps]: "getUint64 (putUint64 v) = v"
  using getUint64_bytes[of v 0 8] by (simp add: putUint64_def take_bit_word_eq_self)

section \<open>The arena keeps its contract\<close>

lemma read_at_put_same: "read_at (put at bs f) at (length bs) = bs"
  by (rule nth_equalityI) (auto simp: read_at_def put_def)

lemma read_at_put_other: "at + length bs \<le> k \<or> k + n \<le> at \<Longrightarrow> read_at (put at bs f) k n = read_at f k n"
  by (auto simp: read_at_def put_def)

lemma read_at_append: "read_at f at (n + m) = read_at f at n @ read_at f (at + n) m"
proof -
  have "[0..<n + m] = [0..<n] @ map (\<lambda>i. n + i) [0..<m]"
    using upt_add_eq_append[of 0 n m] by (simp add: map_add_upt add.commute)
  then show ?thesis by (simp add: read_at_def comp_def add.assoc)
qed

lemma length_read_at [simp]: "length (read_at f at n) = n"
  by (simp add: read_at_def)

lemma put_fields [simp]: "fl_pos (put at bs f) = fl_pos f" "fl_script (put at bs f) = fl_script f"
  by (simp_all add: put_def)

lemma read_at_cong: "fl_content f = fl_content g \<Longrightarrow> read_at f at n = read_at g at n"
  by (simp add: read_at_def)

lemma read_at_fields [simp]:
  "read_at (f\<lparr>fl_pos := p\<rparr>) at n = read_at f at n" "read_at (f\<lparr>fl_script := s\<rparr>) at n = read_at f at n"
  "read_at (put k bs (f\<lparr>fl_script := s\<rparr>)) at n = read_at (put k bs f) at n"
  by (simp_all add: read_at_def put_def)

definition fa_rows :: "transitionFileArena \<Rightarrow> bytes" where
  "fa_rows a = (case fa_file a of None \<Rightarrow> []
     | Some f \<Rightarrow> read_at f transitionArenaRowsOffset (unat (fa_rowBytes a)))"

definition fa_published :: "u64 \<Rightarrow> transitionFileArena \<Rightarrow> bytes option" where
  "fa_published requestID a = (case fa_file a of None \<Rightarrow> None | Some f \<Rightarrow> client_read requestID f)"

definition fa_ok :: "u64 \<Rightarrow> transitionFileArena \<Rightarrow> bool" where
  "fa_ok requestID a \<longleftrightarrow> fa_requestID a = requestID \<and> (\<exists>f. fa_file a = Some f \<and> fl_pos f = transitionArenaRowsOffset + unat (fa_rowBytes a) \<and>
     fl_pos f \<le> maxFileOffset)"

lemma file_Write_success:
  assumes "file_Write chunk f = (written, None, f')"
  shows "written \<le> length chunk" and "fl_pos f' = fl_pos f + written" and "fl_pos f + length chunk \<le> maxFileOffset"
    and "read_at f' k n = read_at (put (fl_pos f) (take written chunk) f) k n"
  using assms
  by (auto simp: file_Write_def next_outcome_def Let_def split: if_splits list.splits outcome.splits)

lemma unat_add_rowBytes:
  assumes "transitionArenaRowsOffset + unat rowBytes + n \<le> maxFileOffset"
  shows "unat (rowBytes + of_nat n :: u64) = unat rowBytes + n"
  using assms by (simp add: maxFileOffset_def unat_word_ariths unsigned_of_nat take_bit_eq_mod mod_add_right_eq)

lemma arena_append_success:
  assumes "arena_append chunk a f = (None, a')" and "fl_pos f = transitionArenaRowsOffset + unat (fa_rowBytes a)"
    and "fl_pos f \<le> maxFileOffset"
  shows "fa_ok (fa_requestID a) a' \<and> fa_rows a' = read_at f transitionArenaRowsOffset (unat (fa_rowBytes a)) @ chunk"
  using assms
proof (induction chunk a f rule: arena_append.induct)
  case (1 chunk a f)
  note step = arena_append.simps[of chunk a f]
  show ?case
  proof (cases "chunk = []")
    case True
    then show ?thesis using "1.prems" step by (auto simp: fa_ok_def fa_rows_def)
  next
    case False
    obtain written f' where wr: "file_Write chunk f = (written, None, f')" and pos: "written \<noteq> 0"
      using False "1.prems"(1) step by (auto split: prod.splits option.splits if_splits)
    note ok = file_Write_success[OF wr]
    have sum: "unat (fa_rowBytes a + of_nat written) = unat (fa_rowBytes a) + written"
      using ok(1,3) "1.prems"(2) by (intro unat_add_rowBytes) simp
    have rest: "arena_append (drop written chunk) (a\<lparr>fa_rowBytes := fa_rowBytes a + of_nat written\<rparr>) f' = (None, a')"
      using False "1.prems"(1) step wr pos by simp
    have "read_at f' transitionArenaRowsOffset (unat (fa_rowBytes a) + written) =
        read_at f transitionArenaRowsOffset (unat (fa_rowBytes a)) @ take written chunk"
      unfolding ok(4) read_at_append
      using read_at_put_same[of "fl_pos f" "take written chunk" f] ok(1) "1.prems"(2)
      by (simp add: read_at_put_other)
    then show ?thesis
      using "1.IH"[OF False wr[symmetric] refl refl pos rest] ok(1,2,3) "1.prems"(2) sum by simp
  qed
qed

lemma file_WriteAt_success:
  assumes "file_WriteAt bs at f = (None, f')"
  shows "read_at f' k n = read_at (put at bs f) k n"
  using assms by (auto simp: file_WriteAt_def next_outcome_def split: if_splits list.splits outcome.splits)

interpretation file_arena: transition_arena fileArena fa_rows "fa_published requestID" "fa_ok requestID" for requestID
proof
  fix a a' :: transitionFileArena and chunk header :: bytes
  assume ok: "fa_ok requestID a"
  then obtain f where f: "fa_requestID a = requestID" "fa_file a = Some f" "fl_pos f = transitionArenaRowsOffset + unat (fa_rowBytes a)"
    "fl_pos f \<le> maxFileOffset" by (auto simp: fa_ok_def)
  show "fa_ok requestID a' \<and> fa_rows a' = fa_rows a @ chunk" if "ta_AppendRows fileArena a chunk = (None, a')"
    using that f arena_append_success[of chunk a f a']
    by (simp add: fileArena_def arena_AppendRows_def fa_rows_def)
  show "fa_published requestID a' = Some (header @ fa_rows a)" if fin: "ta_Finish fileArena a header = (None, a')"
  proof -
    let ?n = "length header" and ?off = "transitionArenaRowsOffset - length header"
    let ?len = "of_nat ?n + fa_rowBytes a"
    let ?head = "transitionArenaMagic @ putUint64 (fa_requestID a) @ putUint64 (of_nat ?off) @ putUint64 ?len"
    have n: "header \<noteq> []" "?n \<le> transitionArenaRowsOffset - transitionArenaHeaderSize"
      using fin by (auto simp: fileArena_def arena_Finish_def split: if_splits)
    obtain f1 f2 where w: "file_WriteAt header ?off f = (None, f1)" "file_WriteAt ?head 0 f1 = (None, f2)"
      and a': "fa_file a' = Some f2" "fa_requestID a' = fa_requestID a"
      using fin n f(2) by (auto simp: fileArena_def arena_Finish_def Let_def split: prod.splits option.splits)
    have len: "length ?head = 32" by (simp add: transitionArenaMagic_def string_bytes_def putUint64_def)
    have "read_at f2 0 (8 + (8 + (8 + 8))) = ?head"
      using read_at_put_same[of 0 ?head f1] len by (simp add: file_WriteAt_success[OF w(2)])
    then have "read_at f2 0 8 @ read_at f2 8 8 @ read_at f2 16 8 @ read_at f2 24 8 = ?head"
      unfolding read_at_append by simp
    moreover have "length transitionArenaMagic = 8" "length (putUint64 v) = 8" for v
      by (simp_all add: transitionArenaMagic_def string_bytes_def putUint64_def)
    ultimately have head: "read_at f2 0 8 = transitionArenaMagic" "read_at f2 8 8 = putUint64 (fa_requestID a)"
      "read_at f2 16 8 = putUint64 (of_nat ?off)" "read_at f2 24 8 = putUint64 ?len"
      by (simp_all add: append_eq_append_conv)
    have small: "unat (of_nat m :: u64) = m" if "m < 2 ^ 64" for m
      using that by (simp add: unsigned_of_nat take_bit_nat_eq_self)
    have off1: "unat (of_nat ?off :: u64) = ?off" by (rule small) (simp add: transitionArenaRowsOffset_def)
    have off: "32 \<le> ?off" "?off + ?n = transitionArenaRowsOffset"
      using n by (simp_all add: transitionArenaRowsOffset_def transitionArenaHeaderSize_def)
    have size: "unat ?len = ?n + unat (fa_rowBytes a)"
    proof -
      have "unat (of_nat ?n :: u64) = ?n" using n(2) by (intro small) (simp add: transitionArenaRowsOffset_def)
      moreover have "?n + unat (fa_rowBytes a) < 2 ^ LENGTH(64)"
        using f(3,4) n(2) by (simp add: transitionArenaRowsOffset_def maxFileOffset_def)
      ultimately show ?thesis using unat_add_lem[of "of_nat ?n" "fa_rowBytes a"] by simp
    qed
    have "read_at f2 ?off (?n + unat (fa_rowBytes a)) = read_at f1 ?off (?n + unat (fa_rowBytes a))"
      unfolding file_WriteAt_success[OF w(2)] using len off(1) by (intro read_at_put_other) simp
    also have "\<dots> = header @ fa_rows a"
      unfolding read_at_append off(2) file_WriteAt_success[OF w(1)]
      using read_at_put_same[of ?off header f] off(2) f(2) by (simp add: read_at_put_other fa_rows_def)
    finally show ?thesis
      using head a' f(1) off1 size by (simp add: fa_published_def client_read_def getUint64_putUint64)
  qed
qed

section \<open>A file without faults\<close>

definition fa_steady :: "u64 \<Rightarrow> transitionFileArena \<Rightarrow> bool" where
  "fa_steady requestID a \<longleftrightarrow> fa_ok requestID a \<and> (\<forall>f. fa_file a = Some f \<longrightarrow> fl_script f = [])"

definition arenaRowLimit :: nat where "arenaRowLimit = maxFileOffset - transitionArenaRowsOffset"
definition arenaHeaderLimit :: nat where "arenaHeaderLimit = transitionArenaRowsOffset - transitionArenaHeaderSize"

lemma arena_append_total:
  assumes "fl_script f = []" and "fl_pos f + length chunk \<le> maxFileOffset"
  shows "fst (arena_append chunk a f) = None \<and>
    (\<forall>f'. fa_file (snd (arena_append chunk a f)) = Some f' \<longrightarrow> fl_script f' = [])"
proof (cases "chunk = []")
  case True
  then show ?thesis using assms by (simp add: arena_append.simps)
next
  case False
  then show ?thesis
    using assms
    by (simp add: arena_append.simps[of chunk a f] file_Write_def next_outcome_def Let_def arena_append.simps[of "[]"])
qed

interpretation steady_arena: reliable_arena fileArena fa_rows "fa_published requestID" "fa_steady requestID"
  arenaRowLimit arenaHeaderLimit for requestID
proof unfold_locales
  fix a a' :: transitionFileArena and chunk header :: bytes
  assume steady: "fa_steady requestID a"
  then have ok: "fa_ok requestID a" by (simp add: fa_steady_def)
  then obtain f where f: "fa_file a = Some f" "fl_pos f = transitionArenaRowsOffset + unat (fa_rowBytes a)"
    "fl_pos f \<le> maxFileOffset" by (auto simp: fa_ok_def)
  have script: "fl_script f = []" using steady f(1) by (simp add: fa_steady_def)
  have total: "fl_pos f + length chunk \<le> maxFileOffset" if "length (fa_rows a) + length chunk \<le> arenaRowLimit"
    using that f by (simp add: fa_rows_def arenaRowLimit_def)
  show "fst (ta_AppendRows fileArena a chunk) = None" if "length (fa_rows a) + length chunk \<le> arenaRowLimit"
    using arena_append_total[OF script total[OF that]] f(1) by (simp add: fileArena_def arena_AppendRows_def)
  show "fa_steady requestID a' \<and> fa_rows a' = fa_rows a @ chunk" if app: "ta_AppendRows fileArena a chunk = (None, a')"
  proof -
    have ar: "arena_append chunk a f = (None, a')" using app f(1) by (simp add: fileArena_def arena_AppendRows_def)
    have "fl_pos f + length chunk \<le> maxFileOffset"
      using ar f(3) script by (cases "chunk = []") (auto simp: arena_append.simps[of chunk] file_Write_def split: if_splits)
    then have "\<forall>f'. fa_file a' = Some f' \<longrightarrow> fl_script f' = []"
      using arena_append_total[OF script, of chunk a] ar by simp
    then show ?thesis using file_arena.append_law[OF ok app] by (simp add: fa_steady_def)
  qed
  show "fa_published requestID a' = Some (header @ fa_rows a)" if "ta_Finish fileArena a header = (None, a')"
    by (rule file_arena.finish_law[OF ok that])
  show "fst (ta_Finish fileArena a header) = None" if "header \<noteq> []" "length header \<le> arenaHeaderLimit"
  proof -
    have "length (putUint64 v) = 8" for v by (simp add: putUint64_def)
    then show ?thesis
      using that f(1) script
      by (simp add: fileArena_def arena_Finish_def arenaHeaderLimit_def Let_def file_WriteAt_def next_outcome_def put_def
        transitionArenaMagic_def string_bytes_def transitionArenaRowsOffset_def transitionArenaHeaderSize_def
        maxFileOffset_def)
  qed
qed

lemma arena_Begin_fresh:
  assumes "arena_Begin requestID arena0 = (None, Some a)"
  shows "fa_ok requestID a" and "fa_rows a = []"
proof -
  obtain a0 f0 where a0: "arena0 = Some a0" "fa_file a0 = Some f0"
    using assms by (auto simp: arena_Begin_def split: option.splits)
  then show "fa_ok requestID a" "fa_rows a = []"
    using assms
    by (auto simp: arena_Begin_def Let_def fa_ok_def fa_rows_def read_at_def file_Seek_def file_WriteAt_def
        next_outcome_def transitionArenaRowsOffset_def maxFileOffset_def
        split: prod.splits option.splits outcome.splits list.splits if_splits)
qed

text \<open>
  C11: the arena frame is what the detached encoder returns. After a successful \<^verbatim>\<open>Begin\<close>, a transition that
  is encoded into the file arena and reported as encoded is either the empty no-op delta or, read back by
  a client through the committed header, byte for byte the frame that \<^verbatim>\<open>Encode\<close> returns for the same input,
  whatever short writes occurred.
\<close>

theorem EncodeInto_fileArena:
  assumes "arena_Begin requestID arena0 = (None, Some a)"
    and "EncodeInto shared input (Some fileArena) a e = (Inr r, e', a')"
  shows "\<exists>b. fst (Encode shared input a e) = Inr (r\<lparr>et_Bytes := b\<rparr>) \<and>
    (b = [] \<and> a' = a \<or> (\<exists>f. fa_file a' = Some f \<and> client_read requestID f = Some b))"
proof -
  have "encode shared input (Some fileArena) a e = (Inr r, e', a')"
    using assms(2) by (simp add: EncodeInto_def)
  from file_arena.encode_streamed(2)[OF arena_Begin_fresh[OF assms(1)] this] show ?thesis
    by (auto simp: Encode_def fa_published_def split: option.splits)
qed

section \<open>A transition through the arena\<close>

definition exampleArena :: transitionFileArena where
  "exampleArena = \<lparr>fa_path = ''/arena'', fa_file = Some \<lparr>fl_content = (\<lambda>_. 0), fl_length = 0, fl_pos = 0, fl_script = []\<rparr>,
     fa_requestID = 0, fa_rowBytes = 0, fa_offset = 0, fa_length = 0, fa_committed = False\<rparr>"

lemma exampleArena_begin:
  "\<exists>a. arena_Begin 7 (Some exampleArena) = (None, Some a) \<and> fa_steady 7 a"
  by (simp add: arena_Begin_def exampleArena_def file_Truncate_def file_Seek_def file_WriteAt_def next_outcome_def put_def
      fa_steady_def fa_ok_def transitionArenaHeaderSize_def maxFileOffset_def transitionArenaRowsOffset_def)

lemma exampleInput_encodes: "case fst (Encode (=) exampleInput a exampleEncoder) of Inl _ \<Rightarrow> False
    | Inr r \<Rightarrow> et_PathOperations r = 1 \<and> length (et_Bytes r) < 100"
  by code_simp

theorem EncodeInto_fileArena_witness:
  "\<exists>r b e' a a'. arena_Begin 7 (Some exampleArena) = (None, Some a) \<and>
    EncodeInto (=) exampleInput (Some fileArena) a exampleEncoder = (Inr r, e', a') \<and>
    fst (Encode (=) exampleInput a exampleEncoder) = Inr (r\<lparr>et_Bytes := b\<rparr>) \<and>
    (b = [] \<and> a' = a \<or> (\<exists>f. fa_file a' = Some f \<and> client_read 7 f = Some b))"
proof -
  obtain a where a: "arena_Begin 7 (Some exampleArena) = (None, Some a)" "fa_steady 7 a"
    using exampleArena_begin by blast
  obtain r0 where r0: "fst (Encode (=) exampleInput a exampleEncoder) = Inr r0" "length (et_Bytes r0) < 100"
    using exampleInput_encodes[of a] by (auto split: sum.splits)
  have "\<exists>r'. fst (encode (=) exampleInput (Some fileArena) a exampleEncoder) = Inr r'"
    using steady_arena.encode_total[OF a(2) arena_Begin_fresh(2)[OF a(1)] r0(1)[unfolded Encode_def]] r0(2)
    by (simp add: arenaRowLimit_def arenaHeaderLimit_def maxFileOffset_def transitionArenaRowsOffset_def
        transitionArenaHeaderSize_def)
  then obtain r e' a' where enc: "EncodeInto (=) exampleInput (Some fileArena) a exampleEncoder = (Inr r, e', a')"
    by (cases "encode (=) exampleInput (Some fileArena) a exampleEncoder") (auto simp: EncodeInto_def)
  from EncodeInto_fileArena[OF a(1) enc] show ?thesis using a(1) enc by blast
qed

end
