(* ===== verification/Packed_Reader.thy ===== *)
theory Packed_Reader
  imports Wire_Streaming
begin

text \<open>
  The client's reader of packed transitions (\<^verbatim>\<open>PackedCursor\<close> and \<^verbatim>\<open>decode_packed_strings\<close> of
  \<^verbatim>\<open>crates/typefacts/src/v3.rs\<close>), for the parts the round trips below are about: strict varints, counts,
  the dictionary, locations, declarations, file bodies and symbol operations. A cursor is the bytes that
  are left; \<^verbatim>\<open>usize\<close> has 64 bits. Strings and byte offsets of decoded rows are given in the records of the
  producer.
\<close>

type_synonym 'x reader = "bytes \<Rightarrow> ('x \<times> bytes) result"

definition retR :: "'x \<Rightarrow> 'x reader" where
  "retR x bs = Inr (x, bs)"

definition failR :: "string \<Rightarrow> 'x reader" where
  "failR msg bs = Inl (Errorf msg)"

definition bindR :: "'x reader \<Rightarrow> ('x \<Rightarrow> 'y reader) \<Rightarrow> 'y reader" where
  "bindR r k bs = bind_result (r bs) (\<lambda>(x, rest). k x rest)"

definition checkR :: "bool \<Rightarrow> string \<Rightarrow> unit reader" where
  "checkR b msg = (if b then retR () else failR msg)"

fun timesR :: "nat \<Rightarrow> ('s \<Rightarrow> ('x \<times> 's) reader) \<Rightarrow> 's \<Rightarrow> ('x list \<times> 's) reader" where
  "timesR 0 r s = retR ([], s)"
| "timesR (Suc n) r s = bindR (r s) (\<lambda>(x, s). bindR (timesR n r s) (\<lambda>(xs, s). retR (x # xs, s)))"

section \<open>Primitive reads\<close>

fun cursor_u64_loop :: "nat \<Rightarrow> u64 \<Rightarrow> u64 reader" where
  "cursor_u64_loop i x [] =
     (if i = 10 then Inl (Errorf ''packed table integer overflow'') else Inl (Errorf ''packed table is truncated''))"
| "cursor_u64_loop i x (b # bs) =
     (if i = 10 \<or> i = 9 \<and> 1 < b then Inl (Errorf ''packed table integer overflow'')
      else if b < 0x80 then
        (if i \<noteq> 0 \<and> b = 0 then Inl (Errorf ''packed table integer is not shortest-form encoded'')
         else Inr (x OR push_bit (7 * i) (ucast (b AND 0x7f)), bs))
      else cursor_u64_loop (Suc i) (x OR push_bit (7 * i) (ucast (b AND 0x7f))) bs)"

definition cursor_u64 :: "u64 reader" where
  "cursor_u64 = cursor_u64_loop 0 0"

definition unzigzag :: "u64 \<Rightarrow> u64" where
  "unzigzag value = drop_bit 1 value XOR - (value AND 1)"

definition cursor_signed :: "int reader" where
  "cursor_signed = bindR cursor_u64 (\<lambda>value. retR (sint (unzigzag value)))"

definition PACKED_COLLECTION_LIMIT :: int where
  "PACKED_COLLECTION_LIMIT = 1000000"

definition cursor_count :: "nat reader" where
  "cursor_count = bindR cursor_u64 (\<lambda>count.
     bindR (checkR (uint count \<le> PACKED_COLLECTION_LIMIT) ''packed count exceeds the limit'') (\<lambda>_.
     retR (unat count)))"

definition cursor_raw :: "nat \<Rightarrow> bytes reader" where
  "cursor_raw n bs = (if length bs < n then Inl (Errorf ''packed table is truncated'') else Inr (take n bs, drop n bs))"

definition cursor_string_index :: "string list \<Rightarrow> string reader" where
  "cursor_string_index strings = bindR cursor_u64 (\<lambda>index.
     if unat index < length strings then retR (strings ! unat index)
     else failR ''packed string index is out of range'')"

definition add_signed :: "u64 \<Rightarrow> int \<Rightarrow> u64 reader" where
  "add_signed base delta =
     (if 0 \<le> uint base + delta \<and> uint base + delta < 2 ^ 64 then retR (word_of_int (uint base + delta))
      else failR ''packed delta overflow'')"

section \<open>The dictionary\<close>

definition hexDigit :: "u8 \<Rightarrow> char" where
  "hexDigit n = ''0123456789abcdef'' ! unat n"

definition hex_lower :: "bytes \<Rightarrow> string" where
  "hex_lower bs = concat (map (\<lambda>b. [hexDigit (drop_bit 4 b), hexDigit (b AND 0x0f)]) bs)"

definition bytes_string :: "bytes \<Rightarrow> string" where
  "bytes_string bs = map (\<lambda>b. char_of (unat b)) bs"

definition packed_string :: "string \<Rightarrow> (string \<times> string) reader" where
  "packed_string previous = bindR cursor_u64 (\<lambda>tag.
     if tag = 0 then
       bindR cursor_u64 (\<lambda>prefix.
       bindR (checkR (unat prefix \<le> length previous) ''packed string prefix exceeds previous string'') (\<lambda>_.
       bindR cursor_u64 (\<lambda>suffix_length.
       bindR (cursor_raw (unat suffix_length)) (\<lambda>suffix.
         let value = take (unat prefix) previous @ bytes_string suffix in
         bindR (checkR (ValidString value) ''packed string is not UTF-8'') (\<lambda>_. retR (value, value))))))
     else if tag = 1 then
       bindR (cursor_raw 12) (\<lambda>raw. retR (hashedPrefix @ hex_lower raw, previous))
     else failR ''packed string has unknown encoding tag'')"

definition decode_packed_strings :: "string list reader" where
  "decode_packed_strings = bindR cursor_count (\<lambda>count.
     bindR (timesR count packed_string []) (\<lambda>(strings, _). retR strings))"

section \<open>Locations and declarations\<close>

definition cursor_location :: "string list \<Rightarrow> packedLocationState \<Rightarrow> (Location \<times> packedLocationState) reader" where
  "cursor_location strings state = bindR cursor_u64 (\<lambda>path_token.
     bindR (if path_token AND 1 = 1 then
              bindR (checkR (path_token = 1 \<and> ls_valid state) ''packed location has invalid repeated-path marker'') (\<lambda>_.
              bindR cursor_signed (\<lambda>delta.
              bindR (add_signed (ls_start state) delta) (\<lambda>start. retR (ls_path state, start))))
            else
              bindR (checkR (unat (drop_bit 1 path_token) < length strings) ''packed location path index is out of range'') (\<lambda>_.
              bindR cursor_u64 (\<lambda>start. retR (drop_bit 1 path_token, start)))) (\<lambda>(path, start).
     bindR cursor_u64 (\<lambda>width.
     bindR (checkR (uint start + uint width < 2 ^ 64) ''packed location end overflow'') (\<lambda>_.
     retR (\<lparr>loc_Path = strings ! unat path, loc_StartByte = uint start, loc_EndByte = uint start + uint width\<rparr>,
           \<lparr>ls_path = path, ls_start = start, ls_valid = True\<rparr>)))))"

definition cursor_locations :: "string list \<Rightarrow> Location list reader" where
  "cursor_locations strings = bindR cursor_count (\<lambda>count.
     bindR (timesR count (cursor_location strings) noLocationState) (\<lambda>(xs, _). retR xs))"

definition cursor_declaration :: "string list \<Rightarrow> packedLocationState \<Rightarrow> (Declaration \<times> packedLocationState) reader" where
  "cursor_declaration strings state =
     bindR (cursor_string_index strings) (\<lambda>name.
     bindR (cursor_string_index strings) (\<lambda>kind.
     bindR (cursor_location strings state) (\<lambda>(location, state).
     retR (\<lparr>decl_Name = name, decl_Kind = kind, decl_Location = location\<rparr>, state))))"

definition cursor_declarations :: "string list \<Rightarrow> Declaration list reader" where
  "cursor_declarations strings = bindR cursor_count (\<lambda>count.
     bindR (timesR count (cursor_declaration strings) noLocationState) (\<lambda>(xs, _). retR xs))"

section \<open>File bodies\<close>

definition cursor_source_call :: "string list \<Rightarrow> SourceCall reader" where
  "cursor_source_call strings =
     bindR (cursor_location strings noLocationState) (\<lambda>(location, state).
     bindR (cursor_location strings state) (\<lambda>(callee, _).
     bindR (cursor_locations strings) (\<lambda>arguments.
     bindR (cursor_string_index strings) (\<lambda>target.
     retR \<lparr>sc_Location = location, sc_Callee = callee, sc_Arguments = arguments, sc_Target = target\<rparr>))))"

text \<open>Flags of a row must lie within a mask.\<close>

definition cursor_flags :: "u64 \<Rightarrow> u64 reader" where
  "cursor_flags known = bindR cursor_u64 (\<lambda>flags.
     bindR (checkR (flags AND NOT known = 0) ''packed row has unknown flags'') (\<lambda>_. retR flags))"

definition cursor_binding :: "string list \<Rightarrow> SourceBinding reader" where
  "cursor_binding strings =
     bindR (cursor_flags 1) (\<lambda>flags.
     bindR (cursor_locations strings) (\<lambda>names.
     bindR (cursor_source_call strings) (\<lambda>initializer.
     retR \<lparr>sb_Array = bit flags 0, sb_Names = names, sb_Initializer = initializer\<rparr>)))"

definition cursor_function :: "string list \<Rightarrow> SourceFunction reader" where
  "cursor_function strings =
     bindR (cursor_location strings noLocationState) (\<lambda>(name, state).
     bindR (cursor_location strings state) (\<lambda>(body, _).
     bindR (cursor_locations strings) (\<lambda>parameters.
     bindR (cursor_flags 7) (\<lambda>flags.
     retR \<lparr>sf_Name = name, sf_Body = body, sf_Parameters = parameters, sf_Exported = bit flags 0,
       sf_Async = bit flags 1, sf_Arrow = bit flags 2\<rparr>))))"

definition cursor_async_function :: "string list \<Rightarrow> AsyncFunctionFact reader" where
  "cursor_async_function strings =
     bindR (cursor_location strings noLocationState) (\<lambda>(expression, _).
     bindR (cursor_string_index strings) (\<lambda>symbol.
     bindR (cursor_string_index strings) (\<lambda>target.
     bindR (cursor_flags 1) (\<lambda>flags.
     bindR (cursor_locations strings) (\<lambda>calls.
     retR \<lparr>af_Expression = expression, af_Symbol = symbol, af_Target = target, af_CanReturnAsync = bit flags 0,
       af_CallsAfterAwait = calls\<rparr>)))))"

definition cursor_list :: "'x reader \<Rightarrow> 'x list reader" where
  "cursor_list r = bindR cursor_count (\<lambda>count.
     bindR (timesR count (\<lambda>_. bindR r (\<lambda>x. retR (x, ()))) ()) (\<lambda>(xs, _). retR xs))"

definition decode_file_fact :: "string list \<Rightarrow> string \<Rightarrow> FileFact reader" where
  "decode_file_fact strings path =
     bindR (cursor_list (cursor_source_call strings)) (\<lambda>calls.
     bindR (cursor_list (cursor_binding strings)) (\<lambda>bindings.
     bindR (cursor_list (cursor_function strings)) (\<lambda>functions.
     bindR (cursor_list (cursor_async_function strings)) (\<lambda>asyncs.
     retR \<lparr>file_Path = path, file_Calls = calls, file_Bindings = bindings, file_Functions = functions,
       file_AsyncFunctions = asyncs\<rparr>))))"

section \<open>Symbol operations\<close>

datatype SymbolOp =
    Replace SymbolFact
  | Remove SymbolID
  | ReplaceReferencePath SymbolID string "Location list"

definition location_le :: "Location \<Rightarrow> Location \<Rightarrow> bool" where
  "location_le a b \<longleftrightarrow> (loc_Path a, loc_StartByte a, loc_EndByte a) \<le> (loc_Path b, loc_StartByte b, loc_EndByte b)"

fun locations_are_canonical :: "Location list \<Rightarrow> bool" where
  "locations_are_canonical (a # b # rest) \<longleftrightarrow> location_le a b \<and> locations_are_canonical (b # rest)"
| "locations_are_canonical _ \<longleftrightarrow> True"

definition decode_symbol_body :: "string list \<Rightarrow> SymbolID \<Rightarrow> u64 \<Rightarrow> SymbolOp reader" where
  "decode_symbol_body strings symbol tag =
     (if tag = 0 then
       bindR (cursor_string_index strings) (\<lambda>alias_target.
       bindR (cursor_declarations strings) (\<lambda>declarations.
       bindR (cursor_locations strings) (\<lambda>references.
       bindR (checkR (locations_are_canonical references) ''symbol replacement has non-canonical references'') (\<lambda>_.
       bindR (checkR (alias_target = [] \<or> references = []) ''alias symbol replacement carries references'') (\<lambda>_.
       retR (Replace \<lparr>sym_ID = symbol, sym_AliasTarget = alias_target, sym_Declarations = declarations,
         sym_References = references\<rparr>))))))
     else if tag = 1 then retR (Remove symbol)
     else
       bindR (cursor_string_index strings) (\<lambda>path.
       bindR (checkR (path \<noteq> []) ''symbol reference path is empty'') (\<lambda>_.
       bindR (cursor_locations strings) (\<lambda>references.
       bindR (checkR (\<forall>r \<in> set references. loc_Path r = path) ''symbol reference replacement is not canonical'') (\<lambda>_.
       bindR (checkR (locations_are_canonical references) ''symbol reference replacement is not canonical'') (\<lambda>_.
       retR (ReplaceReferencePath symbol path references)))))))"

definition decode_symbol_op :: "wireTransitionMode \<Rightarrow> string list \<Rightarrow> SymbolOp reader" where
  "decode_symbol_op mode strings = bindR cursor_u64 (\<lambda>header.
     bindR (if mode = wireTransitionFull then retR (header, 0)
            else bindR (checkR (header AND 3 \<noteq> 3) ''table transition symbol has invalid tag 3'') (\<lambda>_.
              retR (drop_bit 2 header, header AND 3))) (\<lambda>(id_index, tag).
     bindR (checkR (unat id_index < length strings) ''packed symbol id string index is out of range'') (\<lambda>_.
     bindR (checkR (strings ! unat id_index \<noteq> []) ''table transition symbol id is empty'') (\<lambda>_.
     decode_symbol_body strings (strings ! unat id_index) tag))))"

end
