(* ===== verification/Entity_Reader.thy ===== *)
theory Entity_Reader
  imports Packed_Reader Wire_Transition
begin

text \<open>
  The client's reader of entity runs and resolved calls, and of a whole transition frame
  (\<^verbatim>\<open>decode_entity_run\<close>, \<^verbatim>\<open>resolved_call\<close> and \<^verbatim>\<open>decode_table_transition\<close> of \<^verbatim>\<open>crates/typefacts/src/v3.rs\<close>).
  A Rust enumeration is given by the producer's string for it, an absent one by the empty string.
\<close>

section \<open>Enumerations\<close>

definition parse_tag :: "string list \<Rightarrow> u64 \<Rightarrow> string reader" where
  "parse_tag names tag = (if unat tag < length names then retR (names ! unat tag) else failR ''unknown tag'')"

definition cursor_tag :: "string list \<Rightarrow> string reader" where
  "cursor_tag names = bindR cursor_u64 (parse_tag names)"

definition callability_names :: "u64 \<Rightarrow> string list" where
  "callability_names table_schema =
     [CallabilityCallable, CallabilityNonCallable, CallabilityMixed, CallabilityUnknown] @
     (if TypeFactsTableSchemaVersionV15 \<le> table_schema then [CallabilityUntypedCallable] else [])"

definition validity_names :: "string list" where "validity_names = [''valid'', ''recovery'', ''unresolved'']"
definition kind_names :: "string list" where "kind_names = [''unknown'', ''call'', ''construct'']"
definition status_names :: "string list" where "status_names = [''resolved'', ''unresolved'']"
definition reason_names :: "string list" where
  "reason_names = [[], ''callUnresolved'', ''recoverySignature'', ''compositeSignature'', ''spreadArgument'',
     ''parameterUnavailable'']"
definition array_names :: "string list" where "array_names = [''array'', ''notArray'', ''mixed'', ''unknown'']"
definition space_names :: "string list" where "space_names = [''value'', ''type'', ''both'', ''neither'']"
definition witness_names :: "string list" where "witness_names = [''unknown'', ''emptyArray'', ''emptyObject'']"

definition cursor_constructability :: "Constructability reader" where
  "cursor_constructability = bindR cursor_u64 (\<lambda>tag.
     if tag = 0 then retR ConstructabilityConstructable
     else if tag = 1 then retR ConstructabilityNonConstructable
     else if tag = 2 then retR ConstructabilityMixed
     else if tag = 3 then retR ConstructabilityUnknown
     else failR ''unknown constructability tag'')"

definition cursor_value_domain :: "RuntimeValueDomain reader" where
  "cursor_value_domain = bindR (cursor_flags 15) (\<lambda>bits.
     retR \<lparr>rvd_MayBeCallable = bit bits 0, rvd_MayBeUndefined = bit bits 1, rvd_MayBeOther = bit bits 2,
       rvd_Unknown = bit bits 3\<rparr>)"

definition cursor_primitive_domain :: "PrimitiveValueDomain reader" where
  "cursor_primitive_domain = bindR (cursor_flags 1023) (\<lambda>bits.
     retR (if bit bits 8 then UnknownPrimitiveValueDomain
       else NewPrimitiveValueDomain (bit bits 0) (bit bits 1) (bit bits 2) (bit bits 3) (bit bits 4) (bit bits 5)
         (bit bits 6) (bit bits 7) (bit bits 9)))"

definition cursor_boolean :: "bool reader" where
  "cursor_boolean = bindR cursor_u64 (\<lambda>v.
     if v = 0 then retR False else if v = 1 then retR True else failR ''packed boolean'')"

definition optR :: "bool \<Rightarrow> 'x reader \<Rightarrow> 'x option reader" where
  "optR b r = (if b then bindR r (\<lambda>x. retR (Some x)) else retR None)"

definition elseR :: "bool \<Rightarrow> 'x reader \<Rightarrow> 'x \<Rightarrow> 'x reader" where
  "elseR b r d = (if b then r else retR d)"

section \<open>Resolved calls\<close>

definition cursor_type_descriptor :: "string list \<Rightarrow> TypeDescriptor reader" where
  "cursor_type_descriptor strings =
     bindR (cursor_string_index strings) (\<lambda>text.
     bindR (cursor_string_index strings) (\<lambda>origin_module.
     bindR (cursor_declarations strings) (\<lambda>alias_declarations.
     retR \<lparr>td_Text = text, td_OriginModule = origin_module, td_AliasDeclarations = alias_declarations\<rparr>)))"

definition cursor_owner :: "string list \<Rightarrow> packedLocationState \<Rightarrow> (DeclarationOwner \<times> packedLocationState) reader" where
  "cursor_owner strings state =
     bindR (cursor_string_index strings) (\<lambda>symbol.
     bindR (cursor_string_index strings) (\<lambda>name.
     bindR (cursor_string_index strings) (\<lambda>kind.
     bindR (cursor_location strings state) (\<lambda>(location, state).
     retR (\<lparr>own_Symbol = symbol, own_Name = name, own_Kind = kind, own_Location = location\<rparr>, state)))))"

definition cursor_resolved_declaration :: "string list \<Rightarrow> ResolvedDeclaration reader" where
  "cursor_resolved_declaration strings =
     bindR (cursor_string_index strings) (\<lambda>symbol.
     bindR (cursor_string_index strings) (\<lambda>name.
     bindR (cursor_string_index strings) (\<lambda>kind.
     bindR (cursor_location strings noLocationState) (\<lambda>(location, state).
     bindR cursor_count (\<lambda>owner_count.
     bindR (timesR owner_count (cursor_owner strings) state) (\<lambda>(owners, _).
     bindR (cursor_string_index strings) (\<lambda>qualified_name.
     bindR (cursor_string_index strings) (\<lambda>origin_module.
     bindR (cursor_string_index strings) (\<lambda>source_file.
     bindR cursor_boolean (\<lambda>standard_library.
     retR \<lparr>rd_Symbol = symbol, rd_Name = name, rd_Kind = kind, rd_Location = location, rd_Owners = owners,
       rd_QualifiedName = qualified_name, rd_OriginModule = origin_module, rd_SourceFile = source_file,
       rd_StandardLibrary = standard_library\<rparr>))))))))))"

definition cursor_object_property :: "string list \<Rightarrow> ObjectConstructionProperty reader" where
  "cursor_object_property strings =
     bindR (cursor_string_index strings) (\<lambda>name.
     bindR (cursor_tag witness_names) (\<lambda>wit. retR \<lparr>ocp_Name = name, ocp_Witness = wit\<rparr>))"

definition cursor_parameter :: "string list \<Rightarrow> u64 \<Rightarrow> ParameterFact reader" where
  "cursor_parameter strings table_schema =
     bindR cursor_u64 (\<lambda>index.
     bindR (cursor_string_index strings) (\<lambda>symbol.
     bindR (cursor_flags (if TypeFactsTableSchemaVersionV17 \<le> table_schema then 31 else 15)) (\<lambda>flags.
     bindR (optR (bit flags 0) (bindR (cursor_declaration strings noLocationState) (\<lambda>(d, _). retR d))) (\<lambda>declaration.
     bindR (cursor_tag (callability_names table_schema)) (\<lambda>callability.
     bindR (optR (bit flags 3) (cursor_type_descriptor strings)) (\<lambda>type_descriptor.
     bindR (optR (bit flags 4) (cursor_list (cursor_object_property strings))) (\<lambda>object_shape.
     retR \<lparr>par_Index = uint index, par_Symbol = symbol, par_Declaration = declaration, par_Rest = bit flags 1,
       par_Optional = bit flags 2, par_Callability = callability, par_TypeDescriptor = type_descriptor,
       par_ObjectShape = map_option (\<lambda>ps. \<lparr>ocs_RequiredProperties = ps\<rparr>) object_shape\<rparr>)))))))"

definition cursor_argument :: "string list \<Rightarrow> u64 \<Rightarrow> ArgumentMapping reader" where
  "cursor_argument strings table_schema =
     bindR cursor_u64 (\<lambda>argument_index.
     bindR (cursor_tag status_names) (\<lambda>status.
     bindR (cursor_tag reason_names) (\<lambda>unresolved.
     bindR (checkR ((status = ''resolved'') = (unresolved = [])) ''packed argument status and reason disagree'') (\<lambda>_.
     bindR cursor_boolean (\<lambda>present.
     bindR (optR present (cursor_parameter strings table_schema)) (\<lambda>parameter.
     retR \<lparr>am_ArgumentIndex = uint argument_index, am_Status = status, am_Unresolved = unresolved,
       am_Parameter = parameter\<rparr>))))))"

definition cursor_candidate :: "string list \<Rightarrow> ResolvedDeclaration reader" where
  "cursor_candidate strings =
     bindR (cursor_resolved_declaration strings) (\<lambda>candidate.
     bindR (checkR (rd_Symbol candidate \<noteq> []) ''packed target candidate has no symbol'') (\<lambda>_. retR candidate))"

definition cursor_target_set :: "string list \<Rightarrow> CallTargetSet reader" where
  "cursor_target_set strings =
     bindR cursor_boolean (\<lambda>exhaustive.
     bindR (cursor_list (cursor_candidate strings)) (\<lambda>candidates.
     bindR (checkR (candidates \<noteq> []) ''packed resolved-call target set has no candidates'') (\<lambda>_.
     retR \<lparr>cts_Exhaustive = exhaustive, cts_Candidates = candidates\<rparr>)))"

definition cursor_resolved_call :: "string list \<Rightarrow> u64 \<Rightarrow> Call reader" where
  "cursor_resolved_call strings table_schema =
     bindR (cursor_string_index strings) (\<lambda>target.
     bindR (cursor_string_index strings) (\<lambda>return_type_text.
     bindR (cursor_tag validity_names) (\<lambda>validity.
     bindR (cursor_tag kind_names) (\<lambda>kind.
     bindR cursor_boolean (\<lambda>declared.
     bindR (optR declared (cursor_resolved_declaration strings)) (\<lambda>declaration.
     bindR (elseR (TypeFactsTableSchemaVersionV6 \<le> table_schema) cursor_boolean False) (\<lambda>targeted.
     bindR (optR targeted (cursor_target_set strings)) (\<lambda>targets.
     bindR (cursor_list (cursor_argument strings table_schema)) (\<lambda>arguments.
     retR \<lparr>call_Target = target, call_ReturnTypeText = return_type_text, call_Validity = validity, call_Kind = kind,
       call_Declaration = declaration, call_Targets = targets, call_Arguments = arguments\<rparr>)))))))))"

section \<open>Entities\<close>

definition known_flags :: "u64 \<Rightarrow> u64" where
  "known_flags table_schema =
     (if table_schema = 16 \<or> table_schema = 17 then 32767
      else if table_schema = 15 \<or> table_schema = 14 then 16383
      else if table_schema = 13 then 8191
      else if table_schema = 12 then 4095
      else if table_schema = 11 then 2047
      else if table_schema = 9 then 1023
      else if table_schema = 8 then 511
      else if table_schema = 7 then 255
      else if table_schema = 5 \<or> table_schema = 6 then 127
      else if table_schema = 4 then 63
      else 31)"

definition cursor_constant :: "string list \<Rightarrow> ConstantValue reader" where
  "cursor_constant strings = bindR cursor_u64 (\<lambda>tag.
     if tag = 0 then bindR (cursor_string_index strings) (\<lambda>s.
       retR \<lparr>cv_Kind = ''string'', cv_String = s, cv_Number = 0\<rparr>)
     else if tag = 1 then bindR cursor_u64 (\<lambda>number.
       bindR (checkR (\<not> IsNaN number) ''packed constant number is NaN'') (\<lambda>_.
       retR \<lparr>cv_Kind = ''number'', cv_String = [], cv_Number = number\<rparr>))
     else failR ''unknown constant-value tag'')"

definition cursor_u32 :: "u64 \<Rightarrow> u64 reader" where
  "cursor_u32 v = (if uint v < 2 ^ 32 then retR v else failR ''packed tuple count overflows'')"

text \<open>The exact length is sent plus one; zero means that it is not known.\<close>

definition cursor_exact_length :: "u64 \<Rightarrow> (int \<times> bool) reader" where
  "cursor_exact_length table_schema =
     (if TypeFactsTableSchemaVersionV13 \<le> table_schema then
       bindR cursor_u64 (\<lambda>encoded.
         if encoded = 0 then retR (0, False)
         else bindR (cursor_u32 (encoded - 1)) (\<lambda>exact.
           bindR (checkR (uint exact < 2 ^ 32 - 1) ''tuple exact length overflows compact representation'') (\<lambda>_.
           retR (uint exact, True))))
      else retR (0, False))"

definition cursor_tuple :: "u64 \<Rightarrow> TupleShape reader" where
  "cursor_tuple table_schema = bindR cursor_u64 (\<lambda>packed.
     bindR (cursor_tag (callability_names table_schema)) (\<lambda>element_zero.
     bindR (bindR cursor_u64 cursor_u32) (\<lambda>parameters.
     bindR (cursor_exact_length table_schema) (\<lambda>(exact, known).
     bindR (checkR (uint (drop_bit 1 packed) < 2 ^ 28) ''tuple fixed length exceeds compact representation'') (\<lambda>_.
     retR \<lparr>ts_FixedLength = uint (drop_bit 1 packed), ts_ExactLength = exact, ts_ExactLengthKnown = known,
       ts_HasRest = bit packed 0, ts_ElementZero = element_zero, ts_ElementZeroMinimumParameters = uint parameters\<rparr>)))))"

definition cursor_literal :: "string list \<Rightarrow> PrimitiveLiteralCandidate reader" where
  "cursor_literal strings = bindR cursor_u64 (\<lambda>tag.
     if tag = 0 then bindR (cursor_string_index strings) (\<lambda>s.
       retR \<lparr>plc_Kind = ''string'', plc_String = s, plc_Number = 0, plc_Boolean = False\<rparr>)
     else if tag = 1 then bindR cursor_u64 (\<lambda>number.
       bindR (checkR (\<not> IsNaN number \<and> \<not> IsInf number) ''packed primitive literal number is not finite'') (\<lambda>_.
       retR \<lparr>plc_Kind = ''number'', plc_String = [], plc_Number = number, plc_Boolean = False\<rparr>))
     else if tag = 2 then bindR cursor_boolean (\<lambda>b.
       retR \<lparr>plc_Kind = ''boolean'', plc_String = [], plc_Number = 0, plc_Boolean = b\<rparr>)
     else failR ''unknown primitive literal tag'')"

text \<open>Lists whose count is not bounded by the collection limit: library types, and literals by 32.\<close>

definition cursor_names :: "string list \<Rightarrow> string list reader" where
  "cursor_names strings = bindR cursor_u64 (\<lambda>count.
     bindR (timesR (unat count) (\<lambda>_. bindR (cursor_string_index strings) (\<lambda>x. retR (x, ()))) ()) (\<lambda>(xs, _). retR xs))"

definition cursor_literals :: "string list \<Rightarrow> PrimitiveLiteralCandidate list reader" where
  "cursor_literals strings = bindR cursor_u64 (\<lambda>count.
     bindR (checkR (uint count \<le> 32) ''packed primitive literal candidate count exceeds 32'') (\<lambda>_.
     bindR (timesR (unat count) (\<lambda>_. bindR (cursor_literal strings) (\<lambda>x. retR (x, ()))) ()) (\<lambda>(xs, _). retR xs)))"

definition decode_entity :: "string list \<Rightarrow> string \<Rightarrow> u64 \<Rightarrow> u64 \<Rightarrow> (EntityFact \<times> u64) reader" where
  "decode_entity strings path table_schema previous_start =
     bindR cursor_signed (\<lambda>delta.
     bindR (add_signed previous_start delta) (\<lambda>start.
     bindR cursor_u64 (\<lambda>width.
     bindR (checkR (uint start + uint width < 2 ^ 64) ''packed entity end overflow'') (\<lambda>_.
     bindR (cursor_string_index strings) (\<lambda>symbol.
     bindR (cursor_flags (known_flags table_schema)) (\<lambda>flags.
     bindR (optR (bit flags 0) (cursor_type_descriptor strings)) (\<lambda>type_descriptor.
     bindR (optR (bit flags 1) (cursor_resolved_call strings table_schema)) (\<lambda>resolved_call.
     bindR (elseR (bit flags 2) (cursor_tag (callability_names table_schema)) []) (\<lambda>callability.
     bindR (elseR (bit flags 3) (cursor_tag space_names) []) (\<lambda>reference_space.
     bindR (elseR (bit flags 4) (cursor_string_index strings) []) (\<lambda>runtime_identity.
     bindR (optR (bit flags 5) cursor_value_domain) (\<lambda>runtime_value_domain.
     bindR (optR (bit flags 7) cursor_value_domain) (\<lambda>call_result_domain.
     bindR (optR (bit flags 8) (cursor_constant strings)) (\<lambda>constant_value.
     bindR (elseR (bit flags 9) (cursor_tag array_names) []) (\<lambda>array_shape.
     bindR (optR (bit flags 10) (cursor_tuple table_schema)) (\<lambda>tuple_shape.
     bindR (optR (bit flags 11) (cursor_names strings)) (\<lambda>library_types.
     bindR (elseR (bit flags 12) cursor_primitive_domain \<lparr>pvd_bits = 0\<rparr>) (\<lambda>primitive_value_domain.
     bindR (elseR (bit flags 13) cursor_constructability ConstructabilityAbsent) (\<lambda>constructability.
     bindR (elseR (bit flags 14) (cursor_literals strings) []) (\<lambda>primitive_literal_candidates.
     bindR (checkR (\<not> (bit flags 6 \<and> symbol \<noteq> [])) ''packed entity cannot be both resolved and unresolved'') (\<lambda>_.
     retR (\<lparr>ent_Location = \<lparr>loc_Path = path, loc_StartByte = uint start, loc_EndByte = uint start + uint width\<rparr>,
       ent_Symbol = symbol, ent_SymbolUnresolved = bit flags 6, ent_TypeDescriptor = type_descriptor,
       ent_ResolvedCall = resolved_call, ent_Callability = callability, ent_RuntimeValueDomain = runtime_value_domain,
       ent_PrimitiveValueDomain = primitive_value_domain,
       ent_PrimitiveLiteralCandidates = primitive_literal_candidates, ent_Constructability = constructability,
       ent_CallResultDomain = call_result_domain, ent_ConstantValue = constant_value, ent_ArrayShape = array_shape,
       ent_TupleShape = tuple_shape, ent_LibraryTypes = library_types, ent_ReferenceSpace = reference_space,
       ent_RuntimeIdentity = runtime_identity\<rparr>, start))))))))))))))))))))))"

definition decode_entity_run :: "string list \<Rightarrow> string \<Rightarrow> u64 \<Rightarrow> EntityFact list reader" where
  "decode_entity_run strings path table_schema = bindR cursor_count (\<lambda>count.
     bindR (timesR count (decode_entity strings path table_schema) 0) (\<lambda>(xs, _). retR xs))"

section \<open>Transitions\<close>

datatype 'x SlotOp = SlotUnchanged | SlotReplace 'x | SlotRemove

record PathOp =
  pop_path :: string
  pop_source :: "string SlotOp"
  pop_entities :: "EntityFact list SlotOp"
  pop_file :: "FileFact SlotOp"

record WireTableTransition =
  wtt_mode :: wireTransitionMode
  wtt_table_schema :: u64
  wtt_base_generation :: u64
  wtt_target_generation :: u64
  wtt_project_id :: string
  wtt_base_state_token :: string
  wtt_paths :: "PathOp list"
  wtt_symbols :: "SymbolOp list"

definition raw_digest :: "bytes \<Rightarrow> string" where
  "raw_digest bs = ''sha256:'' @ hex_lower bs"

fun entity_run_is_canonical :: "string \<Rightarrow> EntityFact list \<Rightarrow> bool" where
  "entity_run_is_canonical path (a # b # rest) \<longleftrightarrow> loc_Path (ent_Location a) = path \<and>
     (loc_StartByte (ent_Location a), loc_EndByte (ent_Location a)) \<le> (loc_StartByte (ent_Location b), loc_EndByte (ent_Location b)) \<and>
     entity_run_is_canonical path (b # rest)"
| "entity_run_is_canonical path [a] \<longleftrightarrow> loc_Path (ent_Location a) = path"
| "entity_run_is_canonical path [] \<longleftrightarrow> True"

definition slotR :: "u64 \<Rightarrow> 'x reader \<Rightarrow> 'x SlotOp reader" where
  "slotR tag r =
     (if tag = 0 then retR SlotUnchanged
      else if tag = 1 then bindR r (\<lambda>x. retR (SlotReplace x))
      else retR SlotRemove)"

definition decode_path_op :: "wireTransitionMode \<Rightarrow> u64 \<Rightarrow> string list \<Rightarrow> string option \<Rightarrow> (PathOp \<times> string option) reader" where
  "decode_path_op mode table_schema strings previous =
     bindR (cursor_string_index strings) (\<lambda>path.
     bindR (checkR (path \<noteq> []) ''table transition path is empty'') (\<lambda>_.
     bindR (checkR (\<forall>p \<in> set_option previous. p < path) ''table transition paths are not strictly ordered'') (\<lambda>_.
     bindR (cursor_flags 63) (\<lambda>flags.
     let source_tag = flags AND 3; entity_tag = drop_bit 2 flags AND 3; file_tag = drop_bit 4 flags AND 3 in
     bindR (checkR (source_tag \<noteq> 3 \<and> entity_tag \<noteq> 3 \<and> file_tag \<noteq> 3) ''table transition has invalid operation'') (\<lambda>_.
     bindR (checkR (source_tag \<noteq> 0 \<or> entity_tag \<noteq> 0 \<or> file_tag \<noteq> 0) ''table transition contains an empty path operation'') (\<lambda>_.
     bindR (checkR (mode = wireTransitionFull \<longrightarrow> source_tag \<noteq> 2 \<and> entity_tag \<noteq> 2 \<and> file_tag \<noteq> 2)
       ''full table transition contains a remove operation'') (\<lambda>_.
     bindR (slotR source_tag (bindR (cursor_raw 32) (\<lambda>raw. retR (raw_digest raw)))) (\<lambda>source.
     bindR (slotR entity_tag (bindR (decode_entity_run strings path table_schema) (\<lambda>es.
         bindR (checkR (es \<noteq> []) ''entity replacement is empty'') (\<lambda>_.
         bindR (checkR (entity_run_is_canonical path es) ''entity replacement is not canonical'') (\<lambda>_. retR es))))) (\<lambda>entities.
     bindR (slotR file_tag (decode_file_fact strings path)) (\<lambda>file.
     retR (\<lparr>pop_path = path, pop_source = source, pop_entities = entities, pop_file = file\<rparr>, Some path)))))))))))"

fun symbol_key :: "SymbolOp \<Rightarrow> string \<times> nat \<times> string" where
  "symbol_key (Replace f) = (sym_ID f, 0, [])"
| "symbol_key (Remove sid) = (sid, 1, [])"
| "symbol_key (ReplaceReferencePath sid path _) = (sid, 2, path)"

definition decode_symbol_row ::
    "wireTransitionMode \<Rightarrow> string list \<Rightarrow> (string \<times> nat \<times> string) option \<Rightarrow> (SymbolOp \<times> (string \<times> nat \<times> string) option) reader" where
  "decode_symbol_row mode strings previous =
     bindR (decode_symbol_op mode strings) (\<lambda>op.
     bindR (checkR (\<forall>k \<in> set_option previous. k < symbol_key op) ''table transition symbol operations are not strictly ordered'') (\<lambda>_.
     retR (op, Some (symbol_key op))))"

definition wire_table_schemas :: "u64 set" where
  "wire_table_schemas = {3, 4, 5, 6, 7, 8, 9, 11, 12, 13, 14, 15, 16, 17}"

text \<open>The part of the frame after the dictionary.\<close>

definition decode_rows :: "wireTransitionMode \<Rightarrow> u64 \<Rightarrow> u64 \<Rightarrow> u64 \<Rightarrow> string list \<Rightarrow> WireTableTransition reader" where
  "decode_rows mode table_schema base_generation target_generation strings =
     bindR (cursor_string_index strings) (\<lambda>project_id.
     bindR (checkR (project_id \<noteq> []) ''table transition project id is empty'') (\<lambda>_.
     bindR (cursor_string_index strings) (\<lambda>token.
     bindR (checkR (mode = wireTransitionFull \<longrightarrow> base_generation = 0 \<and> token = []) ''full table transition has a base identity'') (\<lambda>_.
     bindR (checkR (mode \<noteq> wireTransitionFull \<longrightarrow> base_generation \<noteq> 0 \<and> token \<noteq> []) ''delta table transition has no base identity'') (\<lambda>_.
     bindR (checkR (mode \<noteq> wireTransitionFull \<longrightarrow> base_generation \<le> target_generation) ''delta table transition target precedes its base'') (\<lambda>_.
     bindR cursor_count (\<lambda>path_count.
     bindR (timesR path_count (decode_path_op mode table_schema strings) None) (\<lambda>(paths, _).
     bindR cursor_count (\<lambda>symbol_count.
     bindR (timesR symbol_count (decode_symbol_row mode strings) None) (\<lambda>(symbols, _).
     retR \<lparr>wtt_mode = mode, wtt_table_schema = table_schema, wtt_base_generation = base_generation,
       wtt_target_generation = target_generation, wtt_project_id = project_id, wtt_base_state_token = token,
       wtt_paths = paths, wtt_symbols = symbols\<rparr>))))))))))"

definition decode_table_transition :: "bytes \<Rightarrow> WireTableTransition result" where
  "decode_table_transition input =
     bind_result (bindR cursor_u64 (\<lambda>version.
       bindR (checkR (version = wireTransitionVersion) ''unsupported table transition version'') (\<lambda>_.
       bindR cursor_u64 (\<lambda>mode.
       bindR (checkR (mode = wireTransitionFull \<or> mode = wireTransitionDelta) ''unsupported table transition mode'') (\<lambda>_.
       bindR cursor_u64 (\<lambda>table_schema.
       bindR (checkR (table_schema \<in> wire_table_schemas) ''unsupported Wire table schema'') (\<lambda>_.
       bindR cursor_u64 (\<lambda>base_generation.
       bindR cursor_u64 (\<lambda>target_generation.
       bindR (checkR (target_generation \<noteq> 0) ''table transition target generation is zero'') (\<lambda>_.
       bindR decode_packed_strings (\<lambda>strings.
       bindR (checkR (strings \<noteq> [] \<and> hd strings = []) ''table transition dictionary does not begin with the empty string'') (\<lambda>_.
       bindR (checkR (distinct strings) ''table transition dictionary contains a duplicate string'') (\<lambda>_.
       decode_rows mode table_schema base_generation target_generation strings)))))))))))) input)
     (\<lambda>(transition, rest). if rest = [] then Inr transition else Inl (Errorf ''table transition has trailing bytes''))"

end
