(* ===== verification/Wire_Roundtrip.thy ===== *)
theory Wire_Roundtrip
  imports Packed_Reader
begin

text \<open>
  What the packed rows mean to a reader. A reader has the finished dictionary and the bytes; \<open>codes\<close> says
  that an action of the writer and a reader are inverse to each other, and it composes: sequences, loops
  and counted lists of codes are codes. The zig-zag code, the prefix-coded dictionary, locations,
  declarations and symbol operations are then read back as they were written.
\<close>

section \<open>Signed numbers\<close>

lemma bit_zigzag: "bit (zigzag x) n \<longleftrightarrow> n < 64 \<and> ((0 < n \<and> bit x (n - 1)) \<noteq> bit x 63)"
proof -
  have "bit (push_bit 1 x) n \<longleftrightarrow> n < 64 \<and> 0 < n \<and> bit x (n - 1)"
    unfolding bit_push_bit_iff by auto
  moreover have "bit (signed_drop_bit 63 x) n \<longleftrightarrow> n < 64 \<and> bit x 63"
    unfolding bit_signed_drop_bit_iff by (cases n) (auto dest: bit_imp_le_length)
  ultimately show ?thesis unfolding zigzag_def bit_xor_iff by blast
qed

text \<open>
  The zig-zag code of signed differences is inverted by the client's rule on every 64-bit value, the
  most negative one included.
\<close>

lemma zigzag_inverse: "unzigzag (zigzag x) = x"
proof (rule bit_word_eqI)
  fix n assume n: "n < LENGTH(64)"
  have one: "zigzag x AND 1 = (if bit x 63 then 1 else 0)"
  proof (rule bit_word_eqI)
    fix k assume "k < LENGTH(64)"
    then show "bit (zigzag x AND 1) k = bit (if bit x 63 then 1 else 0 :: u64) k"
      by (cases k) (auto simp: bit_and_iff bit_zigzag bit_1_iff)
  qed
  have "bit (drop_bit 1 (zigzag x)) n \<longleftrightarrow> n < 63 \<and> bit x n \<noteq> bit x 63"
    unfolding bit_drop_bit_eq comp_def bit_zigzag by auto
  moreover have "bit (- (zigzag x AND 1)) n \<longleftrightarrow> bit x 63"
    unfolding one using n by (simp add: bit_minus_1_iff)
  moreover have "n = 63 \<or> n < 63" using n by auto
  ultimately show "bit (unzigzag (zigzag x)) n = bit x n"
    unfolding unzigzag_def bit_xor_iff by auto
qed


section \<open>Strict varints\<close>

lemma u8_and_0x7f: "b < 0x80 \<Longrightarrow> (b::u8) AND 0x7f = b"
proof (rule bit_word_eqI)
  fix n assume "b < 0x80" and "n < LENGTH(8)"
  then have "\<not> bit b 7" "n < 7 \<or> n = 7" by (auto simp: u8_less_0x80_iff)
  then show "bit (b AND 0x7f) n = bit b n" unfolding and_0x7f_take_bit by (auto simp: bit_take_bit_iff)
qed

lemma uvarint_loop_10: "uvarint_loop 10 x bs \<noteq> Inr r"
  by (cases bs) simp_all

lemma cursor_u64_loop_uvarint:
  "uvarint_loop i x (pre @ rest) = Inr (y, rest) \<Longrightarrow> pre \<noteq> [] \<Longrightarrow> i = 0 \<and> length pre = 1 \<or> last pre \<noteq> 0 \<Longrightarrow>
   cursor_u64_loop i x (pre @ rest) = Inr (y, rest)"
proof (induction pre arbitrary: i x)
  case (Cons b pre)
  show ?case
  proof (cases "b < 0x80")
    case True
    then have r: "pre @ rest = rest" using Cons.prems(1) by (auto split: if_splits)
    then have "pre = []" by simp
    then show ?thesis using Cons.prems True by (auto simp: u8_and_0x7f split: if_splits)
  next
    case False
    then have run: "uvarint_loop (Suc i) (x OR push_bit (7 * i) (ucast (b AND 0x7f))) (pre @ rest) = Inr (y, rest)"
      using Cons.prems(1) by (auto split: if_splits)
    have "i \<noteq> 9" using run uvarint_loop_10 by auto
    moreover have "pre \<noteq> []" using uvarint_loop_shorter[OF run] by auto
    ultimately show ?thesis
      using Cons.IH[OF run] Cons.prems False by (auto split: if_splits)
  qed
qed simp

lemma AppendUvarint_last: "v \<noteq> 0 \<Longrightarrow> last (AppendUvarint v) \<noteq> 0"
proof (induction v rule: AppendUvarint.induct)
  case (1 v)
  show ?case
  proof (cases "v < 0x80")
    case True
    then show ?thesis using ucast_small_u8[OF True] 1 by (auto simp: AppendUvarint.simps[of v])
  next
    case False
    have "drop_bit 7 v \<noteq> 0"
    proof
      assume "drop_bit 7 v = 0"
      then have "unat v div 2 ^ 7 = 0" by (simp add: drop_bit_eq_div word_eq_iff_unsigned[where 'a=nat] unat_div)
      then show False using False by (simp add: word_less_nat_alt)
    qed
    then show ?thesis using 1 False by (simp add: AppendUvarint.simps[of v])
  qed
qed

lemma cursor_u64_append [codec_simps]: "cursor_u64 (AppendUvarint v @ rest) = Inr (v, rest)"
proof -
  have "uvarint_loop 0 0 (AppendUvarint v @ rest) = Inr (v, rest)"
    using Uvarint_AppendUvarint[of v rest] by (simp add: Uvarint_def)
  moreover have "length (AppendUvarint v) = 1 \<or> last (AppendUvarint v) \<noteq> 0"
    using AppendUvarint_last[of v] by (cases "v = 0") (auto simp: AppendUvarint.simps[of 0])
  ultimately show ?thesis unfolding cursor_u64_def by (intro cursor_u64_loop_uvarint) auto
qed

section \<open>Codes\<close>

text \<open>
  A detached writer keeps everything in its buffer. Every row writer keeps it detached, only appends to
  the buffer and to the dictionary, and keeps the dictionary well formed while it fits into its indexes.
\<close>

definition detached :: "'a packedWriter \<Rightarrow> bool" where
  "detached w \<longleftrightarrow> pw_flush w = None \<and> (length (st_values (pw_dict w)) < 2 ^ 64 \<longrightarrow> table_ok (pw_dict w))"

definition after :: "bytes \<Rightarrow> string list \<Rightarrow> 'a packedWriter \<Rightarrow> bool" where
  "after bs strs w \<longleftrightarrow> detached w \<and> (\<exists>more. pw_bytes w = bs @ more) \<and> (\<exists>more. st_values (pw_dict w) = strs @ more)"

lemma after_raw: "after bs strs w \<Longrightarrow> after bs strs (snd (pw_raw v w))"
  by (auto simp: after_def detached_def pw_raw_def maybeFlush_def)

lemma after_intern: "after bs strs w \<Longrightarrow> after bs strs (snd (pw_intern s w))"
proof -
  assume w: "after bs strs w"
  let ?d = "fst (intern (pw_dict w) s)"
  obtain more where more: "st_values ?d = st_values (pw_dict w) @ more" using table.enter_extends by blast
  then have "length (st_values ?d) < 2 ^ 64 \<Longrightarrow> table_ok ?d"
    using w table_ok_intern[of "pw_dict w" s] by (auto simp: after_def detached_def)
  then show ?thesis using w more
    by (auto simp: after_def detached_def pw_intern_def split: prod.split)
qed

interpretation growing: writer_relation "\<lambda>w v. w = v \<and> after bs strs w" for bs :: bytes and strs :: "string list"
  by unfold_locales (auto simp: after_raw after_intern)

definition steady :: "('a, 'v) action \<Rightarrow> bool" where
  "steady m \<longleftrightarrow> (\<forall>bs strs w. after bs strs w \<longrightarrow> after bs strs (snd (m w)))"

lemma steadyI: "(\<And>bs strs. growing.uniform bs strs m) \<Longrightarrow> steady m"
  unfolding steady_def growing.uniform_def by blast

lemma steadyD: "steady m \<Longrightarrow> after bs strs w \<Longrightarrow> m w = (r, w') \<Longrightarrow> after bs strs w'"
  unfolding steady_def by (metis snd_conv)

lemma steady_ret: "steady (ret x)"
  by (simp add: steady_def ret_def)

lemma steady_bind: "steady m \<Longrightarrow> (\<And>x. steady (k x)) \<Longrightarrow> steady (bindA m k)"
  unfolding steady_def bindA_def by (auto split: sum.split prod.split) (metis snd_conv)+

lemma steady_u64: "steady (pw_u64 v)"
  by (rule steadyI) (rule growing.uniform_u64)

lemma steady_signed: "steady (pw_signed v)"
  by (rule steadyI) (rule growing.uniform_signed)

lemma steady_text: "steady (pw_text v)"
  by (rule steadyI) (rule growing.uniform_text)

lemma steady_raw: "steady (pw_raw v)"
  by (rule steadyI) (rule growing.uniform_raw)

lemmas steady_rules = steady_ret steady_bind steady_u64 steady_signed steady_text steady_raw

lemmas growing_rules = growing.uniform_rules growing.uniform_all growing.uniform_codec

text \<open>
  A reader decodes what an action wrote: whenever the action succeeds and the final dictionary extends the
  action's, the reader reads exactly the bytes that were appended, and its value corresponds to the result.
\<close>

definition codes :: "string list \<Rightarrow> ('a, 'v) action \<Rightarrow> 'x reader \<Rightarrow> ('v \<Rightarrow> 'x \<Rightarrow> bool) \<Rightarrow> bool" where
  "codes table m r Q \<longleftrightarrow>
     (\<forall>w v w'. detached w \<longrightarrow> m w = (Inr v, w') \<longrightarrow> table.final (pw_dict w') table \<longrightarrow>
       (\<exists>bs x. pw_bytes w' = pw_bytes w @ bs \<and> Q v x \<and> (\<forall>rest. r (bs @ rest) = Inr (x, rest))))"

lemma codes_weaken: "codes table m r P \<Longrightarrow> (\<And>v x. P v x \<Longrightarrow> Q v x) \<Longrightarrow> codes table m r Q"
  unfolding codes_def by blast

lemma codes_bind:
  assumes m: "codes table m r P" "steady m"
    and k: "\<And>v x. P v x \<Longrightarrow> codes table (k v) (q x) Q" "\<And>v. steady (k v)"
  shows "codes table (bindA m k) (bindR r q) Q"
  unfolding codes_def
proof (intro allI impI)
  fix w v w' assume w: "detached w" and run: "bindA m k w = (Inr v, w')" and fin: "table.final (pw_dict w') table"
  obtain u w1 where m1: "m w = (Inr u, w1)" and k1: "k u w1 = (Inr v, w')"
    using run by (cases "m w"; cases "fst (m w)") (auto simp: bindA_def)
  have "after (pw_bytes w) (st_values (pw_dict w)) w" using w by (simp add: after_def)
  then have w1: "after (pw_bytes w) (st_values (pw_dict w)) w1" by (rule steadyD[OF m(2) _ m1])
  then have d1: "detached w1" by (simp add: after_def)
  have "after (pw_bytes w1) (st_values (pw_dict w1)) w1" using d1 by (simp add: after_def)
  then have "after (pw_bytes w1) (st_values (pw_dict w1)) w'" by (rule steadyD[OF k(2) _ k1])
  then have fin1: "table.final (pw_dict w1) table" using fin by (auto simp: after_def table.final_def)
  obtain bs x where bs: "pw_bytes w1 = pw_bytes w @ bs" "P u x" "\<And>rest. r (bs @ rest) = Inr (x, rest)"
    using m(1) w m1 fin1 unfolding codes_def by blast
  obtain cs y where cs: "pw_bytes w' = pw_bytes w1 @ cs" "Q v y" "\<And>rest. q x (cs @ rest) = Inr (y, rest)"
    using k(1)[OF bs(2)] d1 k1 fin unfolding codes_def by blast
  have "pw_bytes w' = pw_bytes w @ bs @ cs \<and> Q v y \<and> (\<forall>rest. bindR r q ((bs @ cs) @ rest) = Inr (y, rest))"
    using bs cs by (simp add: bindR_def)
  then show "\<exists>bs x. pw_bytes w' = pw_bytes w @ bs \<and> Q v x \<and> (\<forall>rest. bindR r q (bs @ rest) = Inr (x, rest))"
    by blast
qed

lemma codes_post:
  assumes m: "codes table m r P" and q: "\<And>v x. P v x \<Longrightarrow> \<exists>y. q x = retR y \<and> Q v y"
  shows "codes table m (bindR r q) Q"
  unfolding codes_def
proof (intro allI impI)
  fix w v w' assume "detached w" "m w = (Inr v, w')" "table.final (pw_dict w') table"
  then obtain bs x where bs: "pw_bytes w' = pw_bytes w @ bs" "P v x" "\<And>rest. r (bs @ rest) = Inr (x, rest)"
    using m unfolding codes_def by blast
  from q[OF bs(2)] obtain y where "q x = retR y" "Q v y" by blast
  then have "pw_bytes w' = pw_bytes w @ bs \<and> Q v y \<and> (\<forall>rest. bindR r q (bs @ rest) = Inr (y, rest))"
    using bs by (simp add: bindR_def retR_def)
  then show "\<exists>bs x. pw_bytes w' = pw_bytes w @ bs \<and> Q v x \<and> (\<forall>rest. bindR r q (bs @ rest) = Inr (x, rest))" by blast
qed

lemma codes_ret: "Q v x \<Longrightarrow> codes table (ret v) (retR x) Q"
  by (auto simp: codes_def ret_def retR_def)

lemma codes_fail: "codes table (fail e) r Q"
  by (simp add: codes_def fail_def)

lemma codes_check: "b \<Longrightarrow> codes table m r Q \<Longrightarrow> codes table m (bindR (checkR b msg) (\<lambda>_. r)) Q"
  by (simp add: codes_def checkR_def retR_def bindR_def)

lemma codes_raw: "codes table (pw_raw v) (cursor_raw (length v)) (\<lambda>_ x. x = v)"
  by (auto simp: codes_def detached_def pw_raw_def maybeFlush_def cursor_raw_def)

lemma codes_u64: "codes table (pw_u64 v) cursor_u64 (\<lambda>_ x. x = v)"
  by (auto simp: codes_def detached_def pw_u64_def maybeFlush_def codec_simps)

lemma codes_signed: "codes table (pw_signed v) cursor_signed (\<lambda>_ x. x = sint v)"
  by (auto simp: codes_def detached_def pw_signed_def pw_u64_def maybeFlush_def codec_simps cursor_signed_def
      bindR_def retR_def zigzag_inverse)

text \<open>The index of an interned string, seen from the final dictionary.\<close>

lemma interned_index:
  assumes len: "length table < 2 ^ 63" and w: "detached w" and fin: "table.final (fst (intern (pw_dict w) s)) table"
  shows "unat (snd (intern (pw_dict w) s)) < length table" "lookup table (snd (intern (pw_dict w) s)) = Inr (sanitize s)"
proof -
  have "length (st_values (pw_dict w)) \<le> length table"
    using table.final_enter[OF fin] by (auto simp: table.final_def)
  then have room: "length (st_values (pw_dict w)) < 2 ^ 64" using len by simp
  then have ok: "table_ok (pw_dict w)" using w by (simp add: detached_def)
  show look: "lookup table (snd (intern (pw_dict w) s)) = Inr (sanitize s)" by (rule table.lookup_final[OF ok room fin])
  then show "unat (snd (intern (pw_dict w) s)) < length table" by (simp add: lookup_def not_le split: if_splits)
qed

lemma codes_text: "length table < 2 ^ 63 \<Longrightarrow> codes table (pw_text s) (cursor_string_index table) (\<lambda>_ x. x = sanitize s)"
  unfolding codes_def
proof (intro allI impI)
  fix w :: "'a packedWriter" and v w'
  assume len: "length table < 2 ^ 63" and w: "detached w" and run: "pw_text s w = (Inr v, w')"
    and fin: "table.final (pw_dict w') table"
  let ?t = "fst (intern (pw_dict w) s)" and ?i = "snd (intern (pw_dict w) s)"
  have w': "w' = w\<lparr>pw_dict := ?t, pw_bytes := pw_bytes w @ AppendUvarint ?i\<rparr>"
    using run w by (auto simp: pw_text_def pw_intern_def pw_u64_def bindA_def maybeFlush_def detached_def split: prod.splits)
  have look: "lookup table ?i = Inr (sanitize s)" by (rule interned_index(2)[OF len w]) (use fin w' in simp)
  have "\<forall>rest. cursor_string_index table (AppendUvarint ?i @ rest) = Inr (sanitize s, rest)"
    using look by (simp add: cursor_string_index_def bindR_def retR_def codec_simps lookup_def split: if_splits)
  then show "\<exists>bs x. pw_bytes w' = pw_bytes w @ bs \<and> x = sanitize s \<and> (\<forall>rest. cursor_string_index table (bs @ rest) = Inr (x, rest))"
    using w' by auto
qed

lemma codes_intern:
  assumes len: "length table < 2 ^ 63"
    and k: "\<And>i. unat i < length table \<Longrightarrow> table ! unat i = sanitize s \<Longrightarrow> codes table (k i) r Q" "\<And>i. steady (k i)"
  shows "codes table (bindA (pw_intern s) k) r Q"
  unfolding codes_def
proof (intro allI impI)
  fix w v w' assume w: "detached w" and run: "bindA (pw_intern s) k w = (Inr v, w')" and fin: "table.final (pw_dict w') table"
  let ?i = "snd (intern (pw_dict w) s)" and ?w = "snd (pw_intern s w)"
  have k1: "k ?i ?w = (Inr v, w')" using run by (auto simp: bindA_def pw_intern_def split: prod.splits)
  have "after (pw_bytes w) (st_values (pw_dict w)) w" using w by (simp add: after_def)
  from after_intern[OF this] have d: "detached ?w" by (simp add: after_def)
  then have "after (pw_bytes ?w) (st_values (pw_dict ?w)) ?w" by (simp add: after_def)
  from steadyD[OF k(2) this k1] have "table.final (pw_dict ?w) table"
    using fin by (auto simp: after_def table.final_def)
  then have "table.final (fst (intern (pw_dict w) s)) table" by (simp add: pw_intern_def split: prod.splits)
  note i = interned_index[OF len w this]
  have "table ! unat ?i = sanitize s" using i by (simp add: lookup_def)
  from k(1)[OF i(1) this] have "codes table (k ?i) r Q" .
  moreover have "pw_bytes ?w = pw_bytes w" by (simp add: pw_intern_def split: prod.splits)
  ultimately show "\<exists>bs x. pw_bytes w' = pw_bytes w @ bs \<and> Q v x \<and> (\<forall>rest. r (bs @ rest) = Inr (x, rest))"
    using d k1 fin unfolding codes_def by metis
qed

lemma bindA_assoc: "bindA (bindA m k) l = bindA m (\<lambda>x. bindA (k x) l)"
  by (auto simp: bindA_def fun_eq_iff split: sum.split prod.split)

lemma bindA_ret: "bindA (ret x) k = k x"
  by (simp add: bindA_def ret_def fun_eq_iff)

lemma bindA_ret_right: "bindA m ret = m"
  by (auto simp: bindA_def ret_def fun_eq_iff split: sum.split prod.split)

lemma bindR_assoc: "bindR (bindR r q) p = bindR r (\<lambda>x. bindR (q x) p)"
  by (auto simp: bindR_def bind_result_def fun_eq_iff split: sum.split prod.split)

lemma bindR_retR: "bindR (retR x) q = q x"
  by (simp add: bindR_def retR_def fun_eq_iff)

lemmas flat = bindA_assoc bindA_ret bindR_assoc bindR_retR run_all.simps prod.case

lemma codes_loop:
  assumes f: "\<And>x s. x \<in> set xs \<Longrightarrow> I s \<Longrightarrow> codes table (f x s) (r s) (\<lambda>s' (y, s''). y = view x \<and> s'' = s' \<and> I s')"
    and steady: "\<And>x s. steady (f x s)"
  shows "I s \<Longrightarrow> codes table (loopA f xs s) (timesR (length xs) r s) (\<lambda>s' (ys, s''). ys = map view xs \<and> s'' = s' \<and> I s')"
  using f
proof (induction xs arbitrary: s)
  case Nil
  then show ?case by (simp add: codes_ret)
next
  case (Cons x xs)
  have loop: "steady (loopA f xs s)" for s
    using steady by (induction xs arbitrary: s) (auto intro!: steady_ret steady_bind)
  have head: "codes table (f x s) (r s) (\<lambda>s' (y, s''). y = view x \<and> s'' = s' \<and> I s')" using Cons.prems by simp
  have tail: "codes table (loopA f xs v) (timesR (length xs) r v) (\<lambda>s' (ys, s''). ys = map view xs \<and> s'' = s' \<and> I s')"
    if "I v" for v using Cons.IH[OF that] Cons.prems(2) by simp
  show ?case
    unfolding loopA.simps length_Cons timesR.simps
  proof (rule codes_bind[OF head steady _ loop])
    fix v p assume p: "case p of (y, s'') \<Rightarrow> y = view x \<and> s'' = v \<and> I v"
    then have v: "I v" "p = (view x, v)" by auto
    have "codes table (loopA f xs v) (bindR (timesR (length xs) r v) (\<lambda>(xs, s). retR (view x # xs, s)))
      (\<lambda>s' (ys, s''). ys = map view (x # xs) \<and> s'' = s' \<and> I s')"
      by (rule codes_post[OF tail[OF v(1)]]) auto
    then show "codes table (loopA f xs v) (case p of (x, s) \<Rightarrow> bindR (timesR (length xs) r s) (\<lambda>(xs, s). retR (x # xs, s)))
      (\<lambda>s' (ys, s''). ys = map view (x # xs) \<and> s'' = s' \<and> I s')"
      unfolding v(2) prod.case .
  qed
qed

section \<open>Locations and declarations\<close>

definition valid_location :: "Location \<Rightarrow> bool" where
  "valid_location l \<longleftrightarrow> 0 \<le> loc_StartByte l \<and> loc_StartByte l \<le> loc_EndByte l \<and> loc_EndByte l < 2 ^ 63"

definition wire_location :: "Location \<Rightarrow> Location" where
  "wire_location l = l\<lparr>loc_Path := sanitize (loc_Path l)\<rparr>"

definition state_ok :: "packedLocationState \<Rightarrow> bool" where
  "state_ok s \<longleftrightarrow> uint (ls_start s) < 2 ^ 63"

abbreviation location_code :: "Location \<Rightarrow> packedLocationState \<Rightarrow> Location \<times> packedLocationState \<Rightarrow> bool" where
  "location_code l \<equiv> \<lambda>s' (x, s''). x = wire_location l \<and> s'' = s' \<and> state_ok s'"

lemma sint_difference:
  fixes a b :: u64
  assumes "uint a < 2 ^ 63" and "uint b < 2 ^ 63"
  shows "sint (a - b) = uint a - uint b"
proof -
  have "a - b = word_of_int (uint a - uint b)" by simp
  then have "sint (a - b) = signed_take_bit 63 (uint a - uint b)"
    by (simp only: signed_of_int) simp
  moreover have "0 \<le> uint a" "0 \<le> uint b" by simp_all
  ultimately show ?thesis using assms signed_take_bit_int_eq_self[of 63 "uint a - uint b"] by linarith
qed

text \<open>An index and a tag in one number.\<close>

lemma small_bits: "unat (p :: 'l::len word) < 2 ^ k \<Longrightarrow> bit p n \<Longrightarrow> n < k"
proof -
  assume p: "unat p < 2 ^ k" and "bit p n"
  then have "bit (unat p) n" by (simp add: bit_unsigned_iff bit_imp_le_length)
  moreover have "unat p = take_bit k (unat p)" using p by (simp add: take_bit_nat_eq_self)
  ultimately show "n < k" by (metis bit_take_bit_iff)
qed

lemma tag_index:
  fixes p :: "'l::len word"
  assumes p: "unat p < 2 ^ (LENGTH('l) - k)" and t: "unat t < 2 ^ k" and k: "k < LENGTH('l)"
  shows "drop_bit k (push_bit k p OR t) = p"
proof (rule bit_word_eqI)
  fix n assume n: "n < LENGTH('l)"
  have "bit p n \<Longrightarrow> k + n < LENGTH('l)" using small_bits[OF p, of n] k by simp
  moreover have "\<not> bit t (k + n)" using small_bits[OF t, of "k + n"] by auto
  ultimately show "bit (drop_bit k (push_bit k p OR t)) n = bit p n"
    unfolding bit_drop_bit_eq comp_def bit_or_iff bit_push_bit_iff by auto
qed

lemma tag_value:
  fixes t :: "'l::len word"
  assumes t: "unat t < 2 ^ k"
  shows "(push_bit k p OR t) AND mask k = t"
proof (rule bit_word_eqI)
  fix n assume "n < LENGTH('l)"
  then show "bit ((push_bit k p OR t) AND mask k) n = bit t n"
    using small_bits[OF t, of n] unfolding bit_and_iff bit_or_iff bit_push_bit_iff bit_mask_iff by auto
qed

lemma steady_location: "steady (internalLocation l s)"
  by (intro steadyI growing_rules)

lemma codes_location:
  assumes len: "length table < 2 ^ 63" and l: "valid_location l" and s: "state_ok s"
  shows "codes table (internalLocation l s) (cursor_location table s) (location_code l)"
  unfolding internalLocation_def Let_def
proof (rule codes_intern[OF len])
  fix path :: u64
  let ?start = "uint64 (loc_StartByte l)" and ?width = "uint64 (loc_EndByte l - loc_StartByte l)"
  assume path: "unat path < length table" "table ! unat path = sanitize (loc_Path l)"
  have start: "uint ?start = loc_StartByte l" "uint ?width = loc_EndByte l - loc_StartByte l"
    using l by (auto simp: valid_location_def intro!: uint_uint64)
  have row: "codes table (bindA (pw_u64 ?width) (\<lambda>_. ret \<lparr>ls_path = path, ls_start = ?start, ls_valid = True\<rparr>))
    (bindR cursor_u64 (\<lambda>width. bindR (checkR (uint ?start + uint width < 2 ^ 64) msg) (\<lambda>_.
      retR (\<lparr>loc_Path = table ! unat path, loc_StartByte = uint ?start, loc_EndByte = uint ?start + uint width\<rparr>,
        \<lparr>ls_path = path, ls_start = ?start, ls_valid = True\<rparr>)))) (location_code l)" for msg
  proof (rule codes_bind[OF codes_u64 steady_u64 _ steady_ret])
    fix x assume x: "x = ?width"
    show "codes table (ret \<lparr>ls_path = path, ls_start = ?start, ls_valid = True\<rparr>)
      (bindR (checkR (uint ?start + uint x < 2 ^ 64) msg) (\<lambda>_.
        retR (\<lparr>loc_Path = table ! unat path, loc_StartByte = uint ?start, loc_EndByte = uint ?start + uint x\<rparr>,
          \<lparr>ls_path = path, ls_start = ?start, ls_valid = True\<rparr>))) (location_code l)"
      unfolding x start using l path(2)
      by (intro codes_check codes_ret) (auto simp: valid_location_def wire_location_def state_ok_def start)
  qed
  have steady: "steady (bindA (pw_u64 ?width) (\<lambda>_. ret \<lparr>ls_path = path, ls_start = ?start, ls_valid = True\<rparr>))"
    by (intro steady_rules)
  show "codes table (bindA (if ls_valid s \<and> ls_path s = path
      then run_all [pw_u64 1, pw_signed (?start - ls_start s)]
      else run_all [pw_u64 (push_bit 1 path), pw_u64 ?start])
     (\<lambda>_. bindA (pw_u64 ?width) (\<lambda>_. ret \<lparr>ls_path = path, ls_start = ?start, ls_valid = True\<rparr>)))
    (cursor_location table s) (location_code l)"
  proof (cases "ls_valid s \<and> ls_path s = path")
    case True
    have add: "add_signed (ls_start s) (sint (?start - ls_start s)) = retR ?start"
      using l s start(1) sint_difference[of ?start "ls_start s"]
      by (auto simp: add_signed_def valid_location_def state_ok_def) (simp add: uint64_def)
    have "codes table (bindA (pw_signed (?start - ls_start s)) (\<lambda>_. bindA (pw_u64 ?width)
        (\<lambda>_. ret \<lparr>ls_path = path, ls_start = ?start, ls_valid = True\<rparr>)))
      (bindR cursor_signed (\<lambda>delta. bindR (add_signed (ls_start s) delta) (\<lambda>start. bindR cursor_u64 (\<lambda>width.
        bindR (checkR (uint start + uint width < 2 ^ 64) ''packed location end overflow'') (\<lambda>_.
        retR (\<lparr>loc_Path = table ! unat (ls_path s), loc_StartByte = uint start, loc_EndByte = uint start + uint width\<rparr>,
          \<lparr>ls_path = ls_path s, ls_start = start, ls_valid = True\<rparr>)))))) (location_code l)"
      by (rule codes_bind[OF codes_signed steady_signed _ steady]) (use True add row in \<open>simp add: bindR_retR\<close>)
    then show ?thesis unfolding if_P[OF True] cursor_location_def flat
      by (intro codes_bind[OF codes_u64 steady_u64 _ steady_bind[OF steady_signed steady]])
        (use True in \<open>simp add: flat checkR_def\<close>)
  next
    case False
    have token: "push_bit 1 path AND 1 = 0" "drop_bit 1 (push_bit 1 path) = path"
      using tag_index[of path 1 0] tag_value[of 0 1 path] path(1) len by (simp_all add: mask_eq_exp_minus_1)
    have "codes table (bindA (pw_u64 ?start) (\<lambda>_. bindA (pw_u64 ?width)
        (\<lambda>_. ret \<lparr>ls_path = path, ls_start = ?start, ls_valid = True\<rparr>)))
      (bindR cursor_u64 (\<lambda>start. bindR cursor_u64 (\<lambda>width.
        bindR (checkR (uint start + uint width < 2 ^ 64) ''packed location end overflow'') (\<lambda>_.
        retR (\<lparr>loc_Path = table ! unat path, loc_StartByte = uint start, loc_EndByte = uint start + uint width\<rparr>,
          \<lparr>ls_path = path, ls_start = start, ls_valid = True\<rparr>))))) (location_code l)"
      by (rule codes_bind[OF codes_u64 steady_u64 _ steady]) (use row in simp)
    then show ?thesis unfolding if_not_P[OF False] cursor_location_def flat
      by (intro codes_bind[OF codes_u64 steady_u64 _ steady_bind[OF steady_u64 steady]])
        (use path(1) token in \<open>simp add: flat checkR_def\<close>)
  qed
qed (intro steadyI growing_rules)

text \<open>Sequences whose reader values are known.\<close>

lemma codes_seq:
  assumes "codes table m r (\<lambda>_ x. x = a)" "steady m" "codes table k (q a) Q" "steady k"
  shows "codes table (bindA m (\<lambda>_. k)) (bindR r q) Q"
  by (rule codes_bind[OF assms(1,2)]) (use assms(3,4) in simp_all)

lemma codes_last:
  assumes "codes table m r (\<lambda>_ x. x = a)"
  shows "codes table m (bindR r (\<lambda>x. retR (g x))) (\<lambda>_ y. y = g a)"
  by (rule codes_post[OF assms]) simp

lemma codes_at:
  assumes "length table < 2 ^ 63" "valid_location l" "state_ok s"
    and "\<And>s'. state_ok s' \<Longrightarrow> codes table (k s') (q (wire_location l) s') Q" "\<And>s'. steady (k s')"
  shows "codes table (bindA (internalLocation l s) k) (bindR (cursor_location table s) (\<lambda>(x, s). q x s)) Q"
  by (rule codes_bind[OF codes_location[OF assms(1-3)] steady_location]) (use assms(4,5) in auto)

lemma state_ok_none: "state_ok noLocationState"
  by (simp add: state_ok_def noLocationState_def)

lemma uint_count: "int (length xs) \<le> PACKED_COLLECTION_LIMIT \<Longrightarrow> uint (of_nat (length xs) :: u64) = int (length xs)"
  by (simp add: PACKED_COLLECTION_LIMIT_def unsigned_of_nat take_bit_int_eq_self of_nat_take_bit)

lemma codes_count:
  assumes "int (length xs) \<le> PACKED_COLLECTION_LIMIT"
  shows "codes table (pw_count xs) cursor_count (\<lambda>_ n. n = length xs)"
proof -
  have "unat (of_nat (length xs) :: u64) = length xs"
    using uint_count[OF assms] by (simp add: unsigned_of_nat PACKED_COLLECTION_LIMIT_def take_bit_nat_eq_self)
  then show ?thesis
    unfolding pw_count_def cursor_count_def using uint_count[OF assms] assms
    by (intro codes_post[OF codes_u64]) (auto simp: checkR_def bindR_retR)
qed

lemma steady_count: "steady (pw_count xs)"
  by (rule steadyI) (rule growing.uniform_count)

lemma steady_loop: "(\<And>x s. steady (f x s)) \<Longrightarrow> steady (loopA f xs s)"
  by (induction xs arbitrary: s) (auto intro!: steady_ret steady_bind)

lemma codes_counted:
  assumes limit: "int (length xs) \<le> PACKED_COLLECTION_LIMIT"
    and f: "\<And>x s. x \<in> set xs \<Longrightarrow> state_ok s \<Longrightarrow> codes table (f x s) (r s) (\<lambda>s' (y, s''). y = view x \<and> s'' = s' \<and> state_ok s')"
      "\<And>x s. steady (f x s)"
  shows "codes table (bindA (pw_count xs) (\<lambda>_. bindA (loopA f xs noLocationState) (\<lambda>_. ret ())))
    (bindR cursor_count (\<lambda>n. bindR (timesR n r noLocationState) (\<lambda>(ys, _). retR ys))) (\<lambda>_ ys. ys = map view xs)"
proof (rule codes_seq[OF codes_count[OF limit] steady_count])
  show "steady (bindA (loopA f xs noLocationState) (\<lambda>_. ret ()))" by (intro steady_rules steady_loop f(2))
  have "codes table (loopA f xs noLocationState) (timesR (length xs) r noLocationState)
      (\<lambda>s' (ys, s''). ys = map view xs \<and> s'' = s' \<and> state_ok s')"
    by (rule codes_loop[OF f state_ok_none])
  then show "codes table (bindA (loopA f xs noLocationState) (\<lambda>_. ret ()))
     (bindR (timesR (length xs) r noLocationState) (\<lambda>(ys, _). retR ys)) (\<lambda>_ ys. ys = map view xs)"
    by (rule codes_bind) (auto intro!: codes_ret steady_rules steady_loop f(2))
qed

lemma codes_rows:
  assumes "\<And>x. x \<in> set xs \<Longrightarrow> codes table (f x) r (\<lambda>_ y. y = view x)" "\<And>x. steady (f x)"
  shows "codes table (run_all (map f xs)) (timesR (length xs) (\<lambda>_. bindR r (\<lambda>x. retR (x, ()))) ())
    (\<lambda>_ p. p = (map view xs, ()))"
  using assms(1)
proof (induction xs)
  case Nil
  then show ?case by (simp add: codes_ret)
next
  case (Cons x xs)
  have steady: "steady (run_all (map f xs))" by (induction xs) (auto intro!: steady_rules assms(2))
  have "codes table (run_all (map f xs)) (bindR (timesR (length xs) (\<lambda>_. bindR r (\<lambda>x. retR (x, ()))) ())
    (\<lambda>(ys, s). retR (view x # ys, s))) (\<lambda>_ p. p = (map view (x # xs), ()))"
    by (rule codes_post[OF Cons.IH]) (use Cons.prems in auto)
  then show ?case
    unfolding list.map run_all.simps length_Cons timesR.simps flat
    by (intro codes_seq[OF Cons.prems assms(2) _ steady]) auto
qed

lemma codes_list:
  assumes "int (length xs) \<le> PACKED_COLLECTION_LIMIT"
    and "\<And>x. x \<in> set xs \<Longrightarrow> codes table (f x) r (\<lambda>_ y. y = view x)" "\<And>x. steady (f x)"
  shows "codes table (run_all (pw_count xs # map f xs)) (cursor_list r) (\<lambda>_ ys. ys = map view xs)"
  unfolding run_all.simps cursor_list_def
proof (rule codes_seq[OF codes_count[OF assms(1)] steady_count])
  show "steady (run_all (map f xs))" by (induction xs) (auto intro!: steady_rules assms(3))
  show "codes table (run_all (map f xs)) (bindR (timesR (length xs) (\<lambda>_. bindR r (\<lambda>x. retR (x, ()))) ()) (\<lambda>(xs, _). retR xs))
     (\<lambda>_ ys. ys = map view xs)"
    by (rule codes_post[OF codes_rows[OF assms(2,3)]]) auto
qed

definition wire_declaration :: "Declaration \<Rightarrow> Declaration" where
  "wire_declaration d = \<lparr>decl_Name = sanitize (wireSymbolName (decl_Name d)), decl_Kind = sanitize (decl_Kind d),
     decl_Location = wire_location (decl_Location d)\<rparr>"

definition valid_locations :: "Location list \<Rightarrow> bool" where
  "valid_locations ls \<longleftrightarrow> int (length ls) \<le> PACKED_COLLECTION_LIMIT \<and> (\<forall>l \<in> set ls. valid_location l)"

definition valid_declarations :: "Declaration list \<Rightarrow> bool" where
  "valid_declarations ds \<longleftrightarrow> int (length ds) \<le> PACKED_COLLECTION_LIMIT \<and> (\<forall>d \<in> set ds. valid_location (decl_Location d))"

lemma codes_locations:
  assumes "length table < 2 ^ 63" "valid_locations ls"
  shows "codes table (internalLocations ls) (cursor_locations table) (\<lambda>_ xs. xs = map wire_location ls)"
  unfolding internalLocations_def cursor_locations_def
  by (rule codes_counted[OF _ codes_location steady_location]) (use assms in \<open>auto simp: valid_locations_def\<close>)

lemma steady_declaration: "steady (internalDeclaration d s)"
  by (rule steadyI) (rule growing.uniform_declaration)

lemma codes_declaration:
  assumes "length table < 2 ^ 63" "valid_location (decl_Location d)" "state_ok s"
  shows "codes table (internalDeclaration d s) (cursor_declaration table s)
    (\<lambda>s' (x, s''). x = wire_declaration d \<and> s'' = s' \<and> state_ok s')"
  unfolding internalDeclaration_def cursor_declaration_def
  by (intro codes_seq[OF codes_text steady_text] codes_post[OF codes_location] steady_rules steady_location assms)
    (auto simp: wire_declaration_def)

lemma codes_declarations:
  assumes "length table < 2 ^ 63" "valid_declarations ds"
  shows "codes table (internalDeclarations ds) (cursor_declarations table) (\<lambda>_ xs. xs = map wire_declaration ds)"
  unfolding internalDeclarations_def cursor_declarations_def
  by (rule codes_counted[OF _ codes_declaration steady_declaration]) (use assms in \<open>auto simp: valid_declarations_def\<close>)

section \<open>File bodies\<close>

definition wire_call :: "SourceCall \<Rightarrow> SourceCall" where
  "wire_call c = \<lparr>sc_Location = wire_location (sc_Location c), sc_Callee = wire_location (sc_Callee c),
     sc_Arguments = map wire_location (sc_Arguments c), sc_Target = sanitize (sc_Target c)\<rparr>"

definition wire_binding :: "SourceBinding \<Rightarrow> SourceBinding" where
  "wire_binding b = b\<lparr>sb_Names := map wire_location (sb_Names b), sb_Initializer := wire_call (sb_Initializer b)\<rparr>"

definition wire_function :: "SourceFunction \<Rightarrow> SourceFunction" where
  "wire_function f = f\<lparr>sf_Name := wire_location (sf_Name f), sf_Body := wire_location (sf_Body f),
     sf_Parameters := map wire_location (sf_Parameters f)\<rparr>"

definition wire_async_function :: "AsyncFunctionFact \<Rightarrow> AsyncFunctionFact" where
  "wire_async_function f = f\<lparr>af_Expression := wire_location (af_Expression f), af_Symbol := sanitize (af_Symbol f),
     af_Target := sanitize (af_Target f), af_CallsAfterAwait := map wire_location (af_CallsAfterAwait f)\<rparr>"

definition wire_file :: "FileFact \<Rightarrow> FileFact" where
  "wire_file f = f\<lparr>file_Path := sanitize (file_Path f), file_Calls := map wire_call (file_Calls f), file_Bindings := map wire_binding (file_Bindings f),
     file_Functions := map wire_function (file_Functions f),
     file_AsyncFunctions := map wire_async_function (file_AsyncFunctions f)\<rparr>"

definition valid_call :: "SourceCall \<Rightarrow> bool" where
  "valid_call c \<longleftrightarrow> valid_location (sc_Location c) \<and> valid_location (sc_Callee c) \<and> valid_locations (sc_Arguments c)"

definition valid_file :: "FileFact \<Rightarrow> bool" where
  "valid_file f \<longleftrightarrow>
     int (length (file_Calls f)) \<le> PACKED_COLLECTION_LIMIT \<and> int (length (file_Bindings f)) \<le> PACKED_COLLECTION_LIMIT \<and>
     int (length (file_Functions f)) \<le> PACKED_COLLECTION_LIMIT \<and>
     int (length (file_AsyncFunctions f)) \<le> PACKED_COLLECTION_LIMIT \<and>
     (\<forall>c \<in> set (file_Calls f). valid_call c) \<and>
     (\<forall>b \<in> set (file_Bindings f). valid_locations (sb_Names b) \<and> valid_call (sb_Initializer b)) \<and>
     (\<forall>g \<in> set (file_Functions f).
        valid_location (sf_Name g) \<and> valid_location (sf_Body g) \<and> valid_locations (sf_Parameters g)) \<and>
     (\<forall>g \<in> set (file_AsyncFunctions f). valid_location (af_Expression g) \<and> valid_locations (af_CallsAfterAwait g))"

lemma codes_flags: "v AND NOT known = 0 \<Longrightarrow> codes table (pw_u64 v) (cursor_flags known) (\<lambda>_ x. x = v)"
  unfolding cursor_flags_def by (rule codes_post[OF codes_u64]) (simp add: checkR_def bindR_retR)

lemma steady_locations: "steady (internalLocations ls)"
  by (rule steadyI) (rule growing.uniform_locations)

lemma steady_call: "steady (internalSourceCall c)"
  by (rule steadyI) (rule growing.uniform_sourceCall)

lemmas steady_rows = steady_rules steady_location steady_locations steady_call

lemmas codes_rules = codes_at codes_seq[OF codes_locations steady_locations] codes_seq[OF codes_text steady_text]
  codes_seq[OF codes_flags steady_u64] codes_ret state_ok_none

lemma codes_call:
  assumes "length table < 2 ^ 63" "valid_call c"
  shows "codes table (internalSourceCall c) (cursor_source_call table) (\<lambda>_ x. x = wire_call c)"
  using assms unfolding internalSourceCall_def cursor_source_call_def flat
  by (intro codes_rules steady_rows) (auto simp: valid_call_def wire_call_def)

lemma codes_binding:
  assumes "length table < 2 ^ 63" "valid_locations (sb_Names b)" "valid_call (sb_Initializer b)"
  shows "codes table (writeBinding b) (cursor_binding table) (\<lambda>_ x. x = wire_binding b)"
  using assms unfolding writeBinding_def cursor_binding_def flat
  by (intro codes_rules codes_seq[OF codes_call steady_call] steady_rows) (auto simp: bitIf_def wire_binding_def)

lemma codes_function:
  assumes "length table < 2 ^ 63" "valid_location (sf_Name f)" "valid_location (sf_Body f)" "valid_locations (sf_Parameters f)"
  shows "codes table (writeFunction f) (cursor_function table) (\<lambda>_ x. x = wire_function f)"
  using assms unfolding writeFunction_def cursor_function_def flat
  by (intro codes_rules steady_rows) (auto simp: bitIf_def wire_function_def)

lemma codes_asyncFunction:
  assumes "length table < 2 ^ 63" "valid_location (af_Expression f)" "valid_locations (af_CallsAfterAwait f)"
  shows "codes table (writeAsyncFunction f) (cursor_async_function table) (\<lambda>_ x. x = wire_async_function f)"
  using assms unfolding writeAsyncFunction_def cursor_async_function_def flat
  by (intro codes_rules steady_rows) (auto simp: bitIf_def wire_async_function_def)

lemma steady_file_rows:
  "steady (writeBinding b)" "steady (writeFunction f)" "steady (writeAsyncFunction g)"
  unfolding writeBinding_def writeFunction_def writeAsyncFunction_def run_all.simps by (intro steady_rows)+

lemma steady_list: "(\<And>x. steady (f x)) \<Longrightarrow> steady (run_all (pw_count xs # map f xs))"
proof -
  assume f: "\<And>x. steady (f x)"
  have "steady (run_all (map f xs))" by (induction xs) (auto intro!: steady_rules f)
  then show ?thesis by (simp add: steady_bind steady_count)
qed

lemma codes_file:
  assumes len: "length table < 2 ^ 63" and f: "valid_file f"
  shows "codes table (writeWireTransitionFileBody f) (decode_file_fact table (sanitize (file_Path f))) (\<lambda>_ x. x = wire_file f)"
proof -
  note rows = steady_list[OF steady_call] steady_list[OF steady_file_rows(1)] steady_list[OF steady_file_rows(2)]
    steady_list[OF steady_file_rows(3)]
  note lists = codes_list[OF _ codes_call[OF len] steady_call]
    codes_list[OF _ codes_binding[OF len] steady_file_rows(1)] codes_list[OF _ codes_function[OF len] steady_file_rows(2)]
    codes_list[OF _ codes_asyncFunction[OF len] steady_file_rows(3)]
  have parts:
    "codes table (run_all (pw_count (file_Calls f) # map internalSourceCall (file_Calls f)))
      (cursor_list (cursor_source_call table)) (\<lambda>_ ys. ys = map wire_call (file_Calls f))"
    "codes table (run_all (pw_count (file_Bindings f) # map writeBinding (file_Bindings f)))
      (cursor_list (cursor_binding table)) (\<lambda>_ ys. ys = map wire_binding (file_Bindings f))"
    "codes table (run_all (pw_count (file_Functions f) # map writeFunction (file_Functions f)))
      (cursor_list (cursor_function table)) (\<lambda>_ ys. ys = map wire_function (file_Functions f))"
    "codes table (run_all (pw_count (file_AsyncFunctions f) # map writeAsyncFunction (file_AsyncFunctions f)))
      (cursor_list (cursor_async_function table)) (\<lambda>_ ys. ys = map wire_async_function (file_AsyncFunctions f))"
    by (rule lists; use f in \<open>simp add: valid_file_def\<close>)+
  show ?thesis
    unfolding writeWireTransitionFileBody_def decode_file_fact_def run_all.simps(2)[of "run_all xs" for xs] run_all.simps(1)
    by (intro codes_seq[OF parts(1) rows(1)] codes_seq[OF parts(2) rows(2)] codes_seq[OF parts(3) rows(3)]
        codes_seq[OF parts(4) rows(4)] codes_ret steady_bind steady_ret rows) (simp add: wire_file_def)
qed

section \<open>Symbol operations\<close>

definition wire_symbol :: "SymbolFact \<Rightarrow> SymbolFact" where
  "wire_symbol f = \<lparr>sym_ID = sanitize (sym_ID f), sym_AliasTarget = sanitize (sym_AliasTarget f),
     sym_Declarations = map wire_declaration (sym_Declarations f),
     sym_References = (if sym_AliasTarget f = [] then map wire_location (sym_References f) else [])\<rparr>"

definition wire_symbolOp :: "wireTransitionSymbolOp \<Rightarrow> SymbolOp" where
  "wire_symbolOp op =
     (if so_tag op = wireTransitionReplaceSymbol then Replace (wire_symbol (so_fact op))
      else if so_tag op = wireTransitionRemoveSymbol then Remove (sanitize (so_id op))
      else ReplaceReferencePath (sanitize (so_id op)) (sanitize (so_referencePath op)) (map wire_location (so_references op)))"

text \<open>
  What the rows of a symbol operation have beyond the writer's own checks: locations within 63 bits,
  references in canonical order.
\<close>

definition valid_symbolOp :: "wireTransitionSymbolOp \<Rightarrow> bool" where
  "valid_symbolOp op \<longleftrightarrow>
     (so_tag op = wireTransitionReplaceSymbol \<longrightarrow> valid_declarations (sym_Declarations (so_fact op)) \<and>
       (sym_AliasTarget (so_fact op) = [] \<longrightarrow> valid_locations (sym_References (so_fact op)) \<and>
         locations_are_canonical (map wire_location (sym_References (so_fact op))))) \<and>
     (so_tag op = wireTransitionReplaceReferencePath \<longrightarrow> valid_locations (so_references op) \<and>
       locations_are_canonical (map wire_location (so_references op)))"

lemma sanitize_Nil [simp]: "sanitize s = [] \<longleftrightarrow> s = []"
proof
  assume "sanitize s = []"
  moreover have "to_valid_loop False s = [] \<Longrightarrow> s = []"
    by (subst (asm) to_valid_loop.simps) (auto simp: replacement_rune_def split: if_splits)
  ultimately show "s = []" by (auto simp: sanitize_def ToValidUTF8_def split: if_splits)
qed (simp add: sanitize_def ValidString.simps[of "[]"])

lemma codes_failIf: "(\<not> b \<Longrightarrow> codes table k r Q) \<Longrightarrow> codes table (bindA (failIf b msg) (\<lambda>_. k)) r Q"
  by (cases b) (simp_all add: failIf_def bindA_ret, simp add: codes_def bindA_def fail_def)

lemma codes_if: "(b \<Longrightarrow> codes table m r Q) \<Longrightarrow> (\<not> b \<Longrightarrow> codes table n r Q) \<Longrightarrow> codes table (if b then m else n) r Q"
  by simp

lemma steady_failIf: "steady (failIf b msg)"
  by (simp add: steady_def failIf_def fail_def ret_def)

lemma steady_liftR: "steady (liftR r)"
  by (simp add: steady_def liftR_def)

lemma steady_declarations: "steady (internalDeclarations ds)"
  by (rule steadyI) (rule growing.uniform_declarations)

lemmas tag_defs = wireTransitionReplaceSymbol_def wireTransitionRemoveSymbol_def wireTransitionReplaceReferencePath_def
  wireTransitionFull_def wireTransitionDelta_def

lemma codes_replaceBody:
  assumes len: "length table < 2 ^ 63" and f: "valid_declarations (sym_Declarations f)"
    and r: "sym_AliasTarget f = [] \<Longrightarrow> valid_locations (sym_References f) \<and>
      locations_are_canonical (map wire_location (sym_References f))"
  shows "codes table (run_all [pw_text (sym_AliasTarget f), internalDeclarations (sym_Declarations f),
      (if sym_AliasTarget f = [] then internalLocations (sym_References f) else pw_u64 0)])
    (bindR (cursor_string_index table) (\<lambda>alias_target.
       bindR (cursor_declarations table) (\<lambda>declarations.
       bindR (cursor_locations table) (\<lambda>references.
       bindR (checkR (locations_are_canonical references) m1) (\<lambda>_.
       bindR (checkR (alias_target = [] \<or> references = []) m2) (\<lambda>_.
       retR (Replace \<lparr>sym_ID = sanitize (sym_ID f), sym_AliasTarget = alias_target, sym_Declarations = declarations,
         sym_References = references\<rparr>))))))) (\<lambda>_ x. x = Replace (wire_symbol f))"
proof -
  let ?refs = "if sym_AliasTarget f = [] then map wire_location (sym_References f) else []"
  have refs: "codes table (if sym_AliasTarget f = [] then internalLocations (sym_References f) else pw_u64 0)
    (cursor_locations table) (\<lambda>_ x. x = ?refs)"
  proof (cases "sym_AliasTarget f = []")
    case True
    then show ?thesis using r by (simp add: codes_locations[OF len])
  next
    case False
    have "codes table (internalLocations []) (cursor_locations table) (\<lambda>_ x. x = map wire_location [])"
      by (rule codes_locations[OF len]) (simp add: valid_locations_def PACKED_COLLECTION_LIMIT_def)
    then show ?thesis using False by (simp add: internalLocations_def pw_count_def flat bindA_ret_right)
  qed
  show ?thesis unfolding flat
    by (intro codes_seq[OF codes_text[OF len] steady_text] codes_seq[OF codes_declarations[OF len f] steady_declarations]
        codes_seq[OF refs] codes_check codes_ret steady_rules steady_declarations)
      (use r in \<open>auto simp: wire_symbol_def intro: steady_locations steady_u64\<close>)
qed

lemma codes_validated:
  assumes "codes table k r Q"
  shows "codes table (run_all (map (validateReference path) refs @ [k])) r (\<lambda>v x. Q () x \<and> (\<forall>l \<in> set refs. loc_Path l = path))"
proof (induction refs)
  case Nil
  then show ?case using assms by (simp add: bindA_ret_right)
next
  case (Cons l refs)
  have "codes table (bindA (validateReference path l) (\<lambda>_. m)) r (\<lambda>v x. P v x \<and> loc_Path l = path)"
    if "codes table m r P" for P and m :: "('a, unit) action"
    using that unfolding validateReference_def bindA_assoc
    by (intro codes_failIf) (auto simp: codes_def bindA_def liftR_def split: sum.splits)
  from this[OF Cons.IH] show ?case by (auto elim: codes_weaken)
qed

lemma steady_validated: "steady k \<Longrightarrow> steady (run_all (map (validateReference path) refs @ [k]))"
  by (induction refs) (auto simp: validateReference_def intro!: steady_rules steady_failIf steady_liftR)

lemma codes_referencesBody:
  assumes len: "length table < 2 ^ 63" and path: "path \<noteq> []"
    and r: "valid_locations refs" "locations_are_canonical (map wire_location refs)"
  shows "codes table (run_all (pw_text path # map (validateReference path) refs @ [internalLocations refs]))
    (bindR (cursor_string_index table) (\<lambda>p.
       bindR (checkR (p \<noteq> []) m1) (\<lambda>_.
       bindR (cursor_locations table) (\<lambda>references.
       bindR (checkR (\<forall>r \<in> set references. loc_Path r = p) m2) (\<lambda>_.
       bindR (checkR (locations_are_canonical references) m3) (\<lambda>_.
       retR (ReplaceReferencePath sid p references)))))))
    (\<lambda>_ x. x = ReplaceReferencePath sid (sanitize path) (map wire_location refs))"
  unfolding run_all.simps
proof (rule codes_seq[OF codes_text[OF len] steady_text _ steady_validated[OF steady_locations]], rule codes_check)
  show "codes table (run_all (map (validateReference path) refs @ [internalLocations refs]))
    (bindR (cursor_locations table) (\<lambda>references.
       bindR (checkR (\<forall>r \<in> set references. loc_Path r = sanitize path) m2) (\<lambda>_.
       bindR (checkR (locations_are_canonical references) m3) (\<lambda>_.
       retR (ReplaceReferencePath sid (sanitize path) references)))))
    (\<lambda>_ x. x = ReplaceReferencePath sid (sanitize path) (map wire_location refs))"
    by (rule codes_post[OF codes_validated[OF codes_locations[OF len r(1)]]])
      (use r(2) in \<open>auto simp: checkR_def bindR_retR wire_location_def\<close>)
qed (use path in simp)

lemma steady_symbolOp: "steady (writeWireTransitionSymbolOp mode op)"
  by (rule steadyI) (rule growing.uniform_symbolOp)

definition symbolBody :: "wireTransitionSymbolOp \<Rightarrow> ('a, unit) action" where
  "symbolBody operation =
     (if so_tag operation = wireTransitionReplaceSymbol then
       bindA (failIf (sym_ID (so_fact operation) \<noteq> so_id operation)
         ''symbol replacement ID differs from operation ID'') (\<lambda>_.
       run_all
         [pw_text (sym_AliasTarget (so_fact operation)),
          internalDeclarations (sym_Declarations (so_fact operation)),
          (if sym_AliasTarget (so_fact operation) = []
           then internalLocations (sym_References (so_fact operation)) else pw_u64 0)])
     else if so_tag operation = wireTransitionReplaceReferencePath then
       bindA (failIf (so_referencePath operation = []) ''symbol reference operation has an empty path'') (\<lambda>_.
       run_all (pw_text (so_referencePath operation) #
         map (validateReference (so_referencePath operation)) (so_references operation) @
         [internalLocations (so_references operation)]))
     else ret ())"

lemma codes_symbolBody:
  assumes len: "length table < 2 ^ 63" and op: "valid_symbolOp op"
    and tag: "so_tag op \<in> {wireTransitionReplaceSymbol, wireTransitionRemoveSymbol, wireTransitionReplaceReferencePath}"
  shows "codes table (symbolBody op) (decode_symbol_body table (sanitize (so_id op)) (so_tag op)) (\<lambda>_ x. x = wire_symbolOp op)"
proof -
  consider (replace) "so_tag op = 0" | (remove) "so_tag op = 1" | (refs) "so_tag op = 2" using tag by (auto simp: tag_defs)
  then show ?thesis
  proof cases
    case replace
    have "codes table (bindA (failIf (sym_ID (so_fact op) \<noteq> so_id op) ''symbol replacement ID differs from operation ID'') (\<lambda>_.
       run_all [pw_text (sym_AliasTarget (so_fact op)), internalDeclarations (sym_Declarations (so_fact op)),
          (if sym_AliasTarget (so_fact op) = [] then internalLocations (sym_References (so_fact op)) else pw_u64 0)]))
      (decode_symbol_body table (sanitize (so_id op)) 0) (\<lambda>_ x. x = Replace (wire_symbol (so_fact op)))"
    proof (rule codes_failIf)
      assume "\<not> sym_ID (so_fact op) \<noteq> so_id op"
      then have sid: "so_id op = sym_ID (so_fact op)" by simp
      show "codes table (run_all [pw_text (sym_AliasTarget (so_fact op)), internalDeclarations (sym_Declarations (so_fact op)),
          (if sym_AliasTarget (so_fact op) = [] then internalLocations (sym_References (so_fact op)) else pw_u64 0)])
        (decode_symbol_body table (sanitize (so_id op)) 0) (\<lambda>_ x. x = Replace (wire_symbol (so_fact op)))"
        unfolding decode_symbol_body_def sid if_P[OF refl]
        by (rule codes_replaceBody[OF len]) (use op replace in \<open>simp_all add: valid_symbolOp_def tag_defs\<close>)
    qed
    then show ?thesis using replace by (simp add: symbolBody_def wire_symbolOp_def tag_defs)
  next
    case remove
    then show ?thesis by (simp add: symbolBody_def wire_symbolOp_def tag_defs decode_symbol_body_def codes_ret)
  next
    case refs
    have "codes table (bindA (failIf (so_referencePath op = []) ''symbol reference operation has an empty path'') (\<lambda>_.
       run_all (pw_text (so_referencePath op) # map (validateReference (so_referencePath op)) (so_references op) @
         [internalLocations (so_references op)]))) (decode_symbol_body table (sanitize (so_id op)) 2)
      (\<lambda>_ x. x = ReplaceReferencePath (sanitize (so_id op)) (sanitize (so_referencePath op)) (map wire_location (so_references op)))"
      using op refs codes_referencesBody[OF len]
      by (intro codes_failIf) (simp add: decode_symbol_body_def codes_referencesBody[OF len] valid_symbolOp_def tag_defs del: run_all.simps)
    then show ?thesis using refs by (simp add: symbolBody_def wire_symbolOp_def tag_defs del: run_all.simps)
  qed
qed

lemma steady_symbolBody: "steady (symbolBody op)"
  unfolding symbolBody_def
  by (auto intro!: steady_rules steady_failIf steady_declarations steady_locations steady_validated)

lemma codes_symbolOp:
  assumes len: "length table < 2 ^ 62" and op: "valid_symbolOp op" and mode: "mode = wireTransitionFull \<or> mode = wireTransitionDelta"
  shows "codes table (writeWireTransitionSymbolOp mode op) (decode_symbol_op mode table) (\<lambda>_ x. x = wire_symbolOp op)"
proof -
  have len': "length table < 2 ^ 63" using len by simp
  have header: "codes table (bindA (if mode = wireTransitionFull
       then bindA (failIf (so_tag op \<noteq> wireTransitionReplaceSymbol) ''full symbol operation tag, want replace'') (\<lambda>_. pw_u64 i)
       else pw_u64 (push_bit 2 i OR so_tag op)) (\<lambda>_. symbolBody op))
     (decode_symbol_op mode table) (\<lambda>_ x. x = wire_symbolOp op)"
    if id: "so_id op \<noteq> []" and i: "unat i < length table" "table ! unat i = sanitize (so_id op)"
      and tag: "so_tag op \<in> {wireTransitionReplaceSymbol, wireTransitionRemoveSymbol, wireTransitionReplaceReferencePath}" for i
  proof (cases "mode = wireTransitionFull")
    case True
    then show ?thesis
      unfolding if_P[OF True] decode_symbol_op_def flat
      using codes_symbolBody[OF len' op tag] id i
      by (intro codes_failIf codes_seq[OF codes_u64 steady_u64 _ steady_symbolBody]) (simp add: checkR_def flat tag_defs)
  next
    case False
    have small: "unat i < 2 ^ 62" using i(1) len by simp
    have t: "unat (so_tag op) < 2 ^ 2" "so_tag op \<noteq> 3" using tag by (auto simp: tag_defs)
    have "drop_bit 2 (push_bit 2 i OR so_tag op) = i" using tag_index[of i 2 "so_tag op"] small t by simp
    moreover have "(push_bit 2 i OR so_tag op) AND 3 = so_tag op"
      using tag_value[OF t(1), of i] by (simp add: mask_eq_exp_minus_1)
    ultimately show ?thesis
      unfolding if_not_P[OF False] decode_symbol_op_def
      using codes_symbolBody[OF len' op tag] id i t(2) False
      by (intro codes_seq[OF codes_u64 steady_u64 _ steady_symbolBody]) (simp add: checkR_def flat)
  qed
  show ?thesis
    unfolding writeWireTransitionSymbolOp_def symbolBody_def[symmetric]
    by (intro codes_failIf codes_intern[OF len'] header)
      (auto intro!: steady_rules steady_failIf steady_symbolBody)
qed

end
