(* ===== verification/Dictionary_Roundtrip.thy ===== *)
theory Dictionary_Roundtrip
  imports Wire_Roundtrip
begin

text \<open>
  The dictionary of a transition read back: prefix coding is inverted by the client's sliding window, and
  a hashed symbol sent as its raw digest is printed again in lower-case hexadecimal digits.
\<close>

section \<open>Hashed symbols\<close>

definition upper_hex :: "char \<Rightarrow> bool" where
  "upper_hex c \<longleftrightarrow> in_range 65 70 c"

lemma code_of_char: "code_of c = k \<Longrightarrow> c = char_of k"
  by (auto simp: code_of_def)

lemma digit_cases: "in_range 48 57 c \<Longrightarrow> c \<in> set ''0123456789''"
proof -
  assume "in_range 48 57 c"
  then have "code_of c = 48 \<or> code_of c = 49 \<or> code_of c = 50 \<or> code_of c = 51 \<or> code_of c = 52 \<or>
    code_of c = 53 \<or> code_of c = 54 \<or> code_of c = 55 \<or> code_of c = 56 \<or> code_of c = 57"
    unfolding in_range_def by presburger
  then show ?thesis by (elim disjE) (drule code_of_char; simp add: char_of_def bit_0)+
qed

lemma letter_cases: "in_range 97 102 c \<Longrightarrow> c \<in> set ''abcdef''"
proof -
  assume "in_range 97 102 c"
  then have "code_of c = 97 \<or> code_of c = 98 \<or> code_of c = 99 \<or> code_of c = 100 \<or> code_of c = 101 \<or> code_of c = 102"
    unfolding in_range_def by presburger
  then show ?thesis by (elim disjE) (drule code_of_char; simp add: char_of_def bit_0)+
qed

lemma fromHexChar_lower:
  assumes "fromHexChar c = Some n" and "\<not> upper_hex c"
  shows "unat n < 16 \<and> hexDigit n = c"
proof -
  have "c \<in> set ''0123456789'' \<or> c \<in> set ''abcdef''"
    using assms digit_cases[of c] letter_cases[of c] by (auto simp: fromHexChar_def upper_hex_def split: if_splits)
  then show ?thesis using assms(1) by (auto simp: fromHexChar_def in_range_def code_of_def hexDigit_def)
qed

lemma nibbles:
  fixes hi lo :: u8
  assumes "unat hi < 16" "unat lo < 16"
  shows "drop_bit 4 (push_bit 4 hi OR lo) = hi" "(push_bit 4 hi OR lo) AND 0x0f = lo"
  using tag_index[of hi 4 lo] tag_value[of lo 4 hi] assms by (simp_all add: mask_eq_exp_minus_1)

lemma hex_lower_Decode:
  "hex_Decode s = Some bs \<Longrightarrow> \<forall>c \<in> set s. \<not> upper_hex c \<Longrightarrow> hex_lower bs = s"
proof (induction s arbitrary: bs rule: hex_Decode.induct)
  case (3 a b rest)
  then obtain hi lo cs where h: "fromHexChar a = Some hi" "fromHexChar b = Some lo" "hex_Decode rest = Some cs"
    and bs: "bs = (push_bit 4 hi OR lo) # cs" by (auto split: option.splits)
  have "hex_lower cs = rest" using 3 h by auto
  moreover have "unat hi < 16 \<and> hexDigit hi = a" "unat lo < 16 \<and> hexDigit lo = b"
    using fromHexChar_lower h 3 by auto
  moreover note nibbles[of hi lo]
  ultimately show ?case unfolding bs hex_lower_def by (simp del: drop_bit_or)
qed (auto simp: hex_lower_def)

section \<open>Entries\<close>

text \<open>A symbol that is sent as its digest and whose digits are all lower case.\<close>

definition lower_hashed :: "string \<Rightarrow> bool" where
  "lower_hashed s \<longleftrightarrow> (packedHashedSymbol s = None \<or> (\<forall>c \<in> set (drop (length hashedPrefix) s). \<not> upper_hex c))"

lemma hex_Decode_length: "hex_Decode s = Some bs \<Longrightarrow> length s = 2 * length bs"
  by (induction s arbitrary: bs rule: hex_Decode.induct) (auto split: option.splits)

lemma packedHashedSymbol_inverse:
  assumes "packedHashedSymbol s = Some d" "lower_hashed s"
  shows "length d = 12" "hashedPrefix @ hex_lower d = s"
proof -
  have s: "take (length hashedPrefix) s = hashedPrefix" "length s = length hashedPrefix + 24"
    and dec: "hex_Decode (drop (length hashedPrefix) s) = Some d"
    using assms(1) by (auto simp: packedHashedSymbol_def split: if_splits)
  show "length d = 12" using hex_Decode_length[OF dec] s(2) by simp
  have "hex_lower d = drop (length hashedPrefix) s"
    using hex_lower_Decode[OF dec] assms by (simp add: lower_hashed_def)
  then show "hashedPrefix @ hex_lower d = s" using s(1) by (metis append_take_drop_id)
qed

lemma commonStringPrefix_take:
  "commonStringPrefix a b \<le> length a \<and> commonStringPrefix a b \<le> length b \<and>
   take (commonStringPrefix a b) a = take (commonStringPrefix a b) b"
  by (induction a b rule: commonStringPrefix.induct) auto

lemma bytes_string_bytes: "bytes_string (string_bytes s) = s"
proof -
  have "char_of (unat (of_nat (code_of c) :: u8)) = c" for c
  proof -
    have "code_of c < 256" by (simp add: code_of_def)
    then show ?thesis by (simp add: unsigned_of_nat take_bit_nat_eq_self code_of_def)
  qed
  then show ?thesis by (simp add: bytes_string_def string_bytes_def comp_def)
qed

lemma length_string_bytes [simp]: "length (string_bytes s) = length s"
  by (simp add: string_bytes_def)

lemma unat_small: "n < 2 ^ 64 \<Longrightarrow> unat (of_nat n :: u64) = n"
  by (simp add: unsigned_of_nat take_bit_nat_eq_self)

definition entry_ok :: "string \<Rightarrow> bool" where
  "entry_ok s \<longleftrightarrow> ValidString s \<and> lower_hashed s \<and> int (length s) < 2 ^ 64"

lemma codes_entry:
  assumes v: "entry_ok str"
  shows "codes table (dictionaryEntry str previous) (packed_string previous)
    (\<lambda>p (x, p'). x = str \<and> p' = p \<and> True)"
proof (cases "packedHashedSymbol str")
  case (Some d)
  have d: "length d = 12" "hashedPrefix @ hex_lower d = str"
    using packedHashedSymbol_inverse[OF Some] v by (simp_all add: entry_ok_def)
  have "codes table (pw_raw d) (cursor_raw 12) (\<lambda>_ x. x = d)"
    using codes_raw[of table d] d(1) by simp
  then have "codes table (bindA (pw_raw d) (\<lambda>_. ret previous))
    (bindR (cursor_raw 12) (\<lambda>raw. retR (hashedPrefix @ hex_lower raw, previous))) (\<lambda>p (x, p'). x = str \<and> p' = p \<and> True)"
    by (rule codes_seq) (auto simp: d(2) intro!: codes_ret steady_raw steady_ret)
  then show ?thesis
    unfolding dictionaryEntry_def packed_string_def Some option.case flat
    by (intro codes_seq[OF codes_u64 steady_u64] steady_rules) simp
next
  case None
  let ?p = "commonStringPrefix previous str"
  let ?s = "drop ?p str"
  note p = commonStringPrefix_take[of previous str]
  have small: "unat (of_nat ?p :: u64) = ?p" "unat (of_nat (length ?s) :: u64) = length ?s"
    by (rule unat_small; use p v in \<open>simp add: entry_ok_def less_imp_diff_less\<close>)+
  have raw: "codes table (pw_raw (string_bytes ?s)) (cursor_raw (unat (of_nat (length ?s) :: u64))) (\<lambda>_ x. x = string_bytes ?s)"
    unfolding small using codes_raw[of table "string_bytes ?s"] by simp
  have "codes table (bindA (pw_u64 (of_nat ?p)) (\<lambda>_. bindA (pw_u64 (of_nat (length ?s)))
      (\<lambda>_. bindA (pw_raw (string_bytes ?s)) (\<lambda>_. ret str))))
    (bindR cursor_u64 (\<lambda>prefix.
       bindR (checkR (unat prefix \<le> length previous) m1) (\<lambda>_.
       bindR cursor_u64 (\<lambda>suffix_length.
       bindR (cursor_raw (unat suffix_length)) (\<lambda>suffix.
         bindR (checkR (ValidString (take (unat prefix) previous @ bytes_string suffix)) m2) (\<lambda>_.
         retR (take (unat prefix) previous @ bytes_string suffix, take (unat prefix) previous @ bytes_string suffix)))))))
    (\<lambda>p (x, p'). x = str \<and> p' = p \<and> True)" for m1 m2
    by (intro codes_seq[OF codes_u64 steady_u64] codes_check codes_seq[OF raw steady_raw] codes_ret steady_rules)
      (use p v in \<open>auto simp: small entry_ok_def bytes_string_bytes\<close>)
  then show ?thesis
    unfolding dictionaryEntry_def packed_string_def None option.case Let_def flat
    by (intro codes_seq[OF codes_u64 steady_u64] steady_rules) simp
qed

lemma steady_entry: "steady (dictionaryEntry str previous)"
  unfolding dictionaryEntry_def Let_def flat by (auto split: option.split intro!: steady_rules)

lemma codes_dictionary:
  assumes "int (length (st_values dict)) \<le> PACKED_COLLECTION_LIMIT" "\<forall>s \<in> set (st_values dict). entry_ok s"
  shows "codes table (appendPackedDictionary dict) decode_packed_strings (\<lambda>_ xs. xs = st_values dict)"
proof -
  have "codes table (loopA dictionaryEntry (st_values dict) []) (timesR (length (st_values dict)) packed_string [])
    (\<lambda>s' (ys, s''). ys = map (\<lambda>s. s) (st_values dict) \<and> s'' = s' \<and> True)"
    by (rule codes_loop[OF codes_entry steady_entry]) (use assms in auto)
  then have "codes table (bindA (loopA dictionaryEntry (st_values dict) []) (\<lambda>_. ret ()))
     (bindR (timesR (length (st_values dict)) packed_string []) (\<lambda>(xs, _). retR xs)) (\<lambda>_ xs. xs = st_values dict)"
    by (rule codes_bind) (auto intro!: codes_ret steady_rules steady_loop steady_entry)
  then show ?thesis
    unfolding appendPackedDictionary_def decode_packed_strings_def pw_count_def[symmetric]
    by (intro codes_seq[OF codes_count[OF assms(1)] steady_count] steady_rules steady_loop steady_entry)
qed

end
