(* ===== verification/Entity_Roundtrip.thy ===== *)
theory Entity_Roundtrip
  imports Entity_Reader Dictionary_Roundtrip
begin

text \<open>
  Entity runs and resolved calls read back as they were written, at the table schema the producer speaks.
  The view of a row is what the client holds for it: strings repaired to UTF-8, the absent element zero of
  a tuple made explicit, payloads of other kinds dropped.
\<close>

section \<open>Codes with tags and options\<close>

lemma codes_lift: "(\<And>t. c = Inr t \<Longrightarrow> codes table (k t) r Q) \<Longrightarrow> codes table (bindA (liftR c) k) r Q"
  by (cases c) (simp_all add: codes_def bindA_def liftR_def)

definition names_tag :: "string list \<Rightarrow> u64 \<Rightarrow> string \<Rightarrow> bool" where
  "names_tag names t s \<longleftrightarrow> unat t < length names \<and> names ! unat t = s"

lemma codes_tag: "names_tag names t s \<Longrightarrow> codes table (pw_u64 t) (cursor_tag names) (\<lambda>_ x. x = s)"
  unfolding cursor_tag_def by (rule codes_post[OF codes_u64]) (simp add: parse_tag_def names_tag_def)

lemma names_tag_validity: "wireTransitionValidityCode s = Inr t \<Longrightarrow> names_tag validity_names t s"
  by (auto simp: wireTransitionValidityCode_def validity_names_def names_tag_def split: if_splits)

lemma names_tag_kind: "wireTransitionCallKindCode s = Inr t \<Longrightarrow> names_tag kind_names t s"
  by (auto simp: wireTransitionCallKindCode_def kind_names_def names_tag_def split: if_splits)

lemma names_tag_status: "wireTransitionMappingStatusCode s = Inr t \<Longrightarrow>
    names_tag status_names t s \<and> (t = 0 \<longleftrightarrow> s = ''resolved'')"
  by (auto simp: wireTransitionMappingStatusCode_def status_names_def names_tag_def split: if_splits)

lemma names_tag_reason: "wireTransitionMappingReasonCode s = Inr t \<Longrightarrow> names_tag reason_names t s \<and> (t = 0 \<longleftrightarrow> s = [])"
  by (auto simp: wireTransitionMappingReasonCode_def reason_names_def names_tag_def split: if_splits)

lemma names_tag_array: "wireTransitionArrayShapeCode s = Inr t \<Longrightarrow> names_tag array_names t s"
  by (auto simp: wireTransitionArrayShapeCode_def array_names_def names_tag_def split: if_splits)

lemma names_tag_space: "wireTransitionReferenceSpaceCode s = Inr t \<Longrightarrow> names_tag space_names t s"
  by (auto simp: wireTransitionReferenceSpaceCode_def space_names_def names_tag_def split: if_splits)

lemma names_tag_witness: "wireTransitionConstructionWitnessCode s = Inr t \<Longrightarrow> names_tag witness_names t s"
  by (auto simp: wireTransitionConstructionWitnessCode_def witness_names_def names_tag_def split: if_splits)

abbreviation "schema \<equiv> TypeFactsTableSchemaVersion"

lemma schema_at_least [simp]:
  "TypeFactsTableSchemaVersionV5 \<le> schema" "TypeFactsTableSchemaVersionV6 \<le> schema"
  "TypeFactsTableSchemaVersionV7 \<le> schema" "TypeFactsTableSchemaVersionV8 \<le> schema"
  "TypeFactsTableSchemaVersionV9 \<le> schema" "TypeFactsTableSchemaVersionV11 \<le> schema"
  "TypeFactsTableSchemaVersionV12 \<le> schema" "TypeFactsTableSchemaVersionV13 \<le> schema"
  "TypeFactsTableSchemaVersionV14 \<le> schema" "TypeFactsTableSchemaVersionV15 \<le> schema"
  "TypeFactsTableSchemaVersionV16 \<le> schema" "TypeFactsTableSchemaVersionV17 \<le> schema"
  by (simp_all add: schema_defs)

lemma names_tag_callability:
  "wireTransitionCallabilityCode s schema = Inr t \<Longrightarrow> names_tag (callability_names schema) t s"
  by (auto simp: wireTransitionCallabilityCode_def Let_def callability_names_def names_tag_def schema_defs
      split: if_splits)

lemma codes_constructability:
  "wireTransitionConstructabilityCode c = Inr t \<Longrightarrow> codes table (pw_u64 t) cursor_constructability (\<lambda>_ x. x = c)"
  unfolding cursor_constructability_def
  by (rule codes_post[OF codes_u64]) (cases c; auto)

lemma codes_boolean: "codes table (pw_u64 (boolBit b)) cursor_boolean (\<lambda>_ x. x = b)"
  unfolding cursor_boolean_def by (rule codes_post[OF codes_u64]) (simp add: boolBit_def)

lemma codes_optR:
  assumes "b \<Longrightarrow> codes table m r (\<lambda>_ x. x = a)" "\<not> b \<Longrightarrow> m = ret ()"
  shows "codes table m (optR b r) (\<lambda>_ y. y = (if b then Some a else None))"
proof (cases b)
  case True
  then show ?thesis unfolding optR_def using codes_last[OF assms(1), of Some] by simp
qed (use assms(2) in \<open>simp add: optR_def codes_ret\<close>)

lemma codes_elseR:
  assumes "b \<Longrightarrow> codes table m r (\<lambda>_ x. x = a)" "\<not> b \<Longrightarrow> m = ret ()"
  shows "codes table m (elseR b r d) (\<lambda>_ y. y = (if b then a else d))"
  using assms by (cases b) (simp_all add: elseR_def codes_ret)

lemma bit_bitIf: "bit (bitIf b k) n \<longleftrightarrow> b \<and> n = k \<and> k < 64"
  by (auto simp: bitIf_def bit_exp_iff possible_bit_word)

lemma codes_valueDomain:
  "codes table (pw_u64 (wireTransitionRuntimeValueDomainBits d)) cursor_value_domain (\<lambda>_ x. x = d)"
  unfolding cursor_value_domain_def
proof (rule codes_post[OF codes_flags])
  show "wireTransitionRuntimeValueDomainBits d AND NOT 15 = 0"
    by (simp add: wireTransitionRuntimeValueDomainBits_def bitIf_def)
qed (cases d; auto simp: wireTransitionRuntimeValueDomainBits_def bit_or_iff bit_bitIf)

definition wire_primitive_domain :: "PrimitiveValueDomain \<Rightarrow> PrimitiveValueDomain" where
  "wire_primitive_domain d =
     (if pvd_Unknown d then UnknownPrimitiveValueDomain
      else NewPrimitiveValueDomain (pvd_has primitiveMayBeString d) (pvd_has primitiveMayBeNumber d)
        (pvd_has primitiveMayBeBoolean d) (pvd_has primitiveMayBeBigInt d) (pvd_has primitiveMayBeSymbol d)
        (pvd_has primitiveMayBeNull d) (pvd_has primitiveMayBeUndefined d) (pvd_has primitiveMayBeObject d)
        (pvd_NumbersAreFinite d))"

lemma bit_boolBit: "bit (push_bit k (boolBit b)) n \<longleftrightarrow> b \<and> n = k \<and> k < 64" "bit (boolBit b) n \<longleftrightarrow> b \<and> n = 0"
  by (auto simp: boolBit_def bit_exp_iff possible_bit_word bit_1_iff)

lemma bit_primitiveDomain:
  "bit (wireTransitionPrimitiveValueDomainBits d) n \<longleftrightarrow>
     (n = 0 \<and> pvd_has primitiveMayBeString d) \<or> (n = 1 \<and> pvd_has primitiveMayBeNumber d) \<or>
     (n = 2 \<and> pvd_has primitiveMayBeBoolean d) \<or> (n = 3 \<and> pvd_has primitiveMayBeBigInt d) \<or>
     (n = 4 \<and> pvd_has primitiveMayBeSymbol d) \<or> (n = 5 \<and> pvd_has primitiveMayBeNull d) \<or>
     (n = 6 \<and> pvd_has primitiveMayBeUndefined d) \<or> (n = 7 \<and> pvd_has primitiveMayBeObject d) \<or>
     (n = 8 \<and> pvd_Unknown d) \<or> (n = 9 \<and> pvd_NumbersAreFinite d)"
  unfolding wireTransitionPrimitiveValueDomainBits_def bit_or_iff bit_boolBit by auto

lemma within_mask: "(\<And>n. bit (v :: u64) n \<Longrightarrow> n < k) \<Longrightarrow> v AND NOT (mask k) = 0"
  by (rule bit_word_eqI) (auto simp: bit_and_iff bit_not_iff bit_mask_iff)

lemma codes_primitiveDomain:
  "codes table (pw_u64 (wireTransitionPrimitiveValueDomainBits d)) cursor_primitive_domain (\<lambda>_ x. x = wire_primitive_domain d)"
  unfolding cursor_primitive_domain_def
proof (rule codes_post[OF codes_flags])
  have "wireTransitionPrimitiveValueDomainBits d AND NOT (mask 10) = 0"
    by (rule within_mask) (auto simp: bit_primitiveDomain)
  then show "wireTransitionPrimitiveValueDomainBits d AND NOT 1023 = 0" by (simp add: mask_eq_exp_minus_1)
qed (simp add: bit_primitiveDomain wire_primitive_domain_def)

section \<open>Resolved calls\<close>

definition wire_descriptor :: "TypeDescriptor \<Rightarrow> TypeDescriptor" where
  "wire_descriptor d = \<lparr>td_Text = sanitize (td_Text d), td_OriginModule = sanitize (td_OriginModule d),
     td_AliasDeclarations = map wire_declaration (td_AliasDeclarations d)\<rparr>"

definition wire_owner :: "DeclarationOwner \<Rightarrow> DeclarationOwner" where
  "wire_owner w = \<lparr>own_Symbol = sanitize (own_Symbol w), own_Name = sanitize (wireSymbolName (own_Name w)),
     own_Kind = sanitize (own_Kind w), own_Location = wire_location (own_Location w)\<rparr>"

definition wire_resolved :: "ResolvedDeclaration \<Rightarrow> ResolvedDeclaration" where
  "wire_resolved d = \<lparr>rd_Symbol = sanitize (rd_Symbol d), rd_Name = sanitize (wireSymbolName (rd_Name d)),
     rd_Kind = sanitize (rd_Kind d), rd_Location = wire_location (rd_Location d),
     rd_Owners = map wire_owner (rd_Owners d), rd_QualifiedName = sanitize (rd_QualifiedName d),
     rd_OriginModule = sanitize (rd_OriginModule d), rd_SourceFile = sanitize (rd_SourceFile d),
     rd_StandardLibrary = rd_StandardLibrary d\<rparr>"

definition valid_resolved :: "ResolvedDeclaration \<Rightarrow> bool" where
  "valid_resolved d \<longleftrightarrow> valid_location (rd_Location d) \<and> int (length (rd_Owners d)) \<le> PACKED_COLLECTION_LIMIT \<and>
     (\<forall>w \<in> set (rd_Owners d). valid_location (own_Location w))"

lemma steady_descriptor: "steady (internalTypeDescriptor d)"
  by (rule steadyI) (rule growing.uniform_typeDescriptor)

lemma steady_owner: "steady (internalOwner d s)"
  by (rule steadyI) (rule growing.uniform_owner)

lemma steady_resolved: "steady (internalResolvedDeclaration d)"
  by (rule steadyI) (rule growing.uniform_resolvedDeclaration)

lemma codes_descriptor:
  assumes "length table < 2 ^ 63" "valid_declarations (td_AliasDeclarations d)"
  shows "codes table (internalTypeDescriptor d) (cursor_type_descriptor table) (\<lambda>_ x. x = wire_descriptor d)"
  using assms unfolding internalTypeDescriptor_def cursor_type_descriptor_def flat
  by (intro codes_rules codes_seq[OF codes_declarations steady_declarations] steady_rows steady_declarations)
    (auto simp: wire_descriptor_def)

lemma codes_owner:
  assumes "length table < 2 ^ 63" "valid_location (own_Location d)" "state_ok s"
  shows "codes table (internalOwner d s) (cursor_owner table s) (\<lambda>s' (x, s''). x = wire_owner d \<and> s'' = s' \<and> state_ok s')"
  unfolding internalOwner_def cursor_owner_def
  by (intro codes_seq[OF codes_text steady_text] codes_post[OF codes_location] steady_rules steady_location assms)
    (auto simp: wire_owner_def)

lemma codes_resolved:
  assumes len: "length table < 2 ^ 63" and d: "valid_resolved d"
  shows "codes table (internalResolvedDeclaration d) (cursor_resolved_declaration table) (\<lambda>_ x. x = wire_resolved d)"
proof -
  have loc: "valid_location (rd_Location d)" and lim: "int (length (rd_Owners d)) \<le> PACKED_COLLECTION_LIMIT"
    and own: "\<And>x. x \<in> set (rd_Owners d) \<Longrightarrow> valid_location (own_Location x)"
    using d by (auto simp: valid_resolved_def)
  have tail: "codes table (bindA (loopA internalOwner (rd_Owners d) s) (\<lambda>_. bindA (pw_text (rd_QualifiedName d)) (\<lambda>_.
        bindA (pw_text (rd_OriginModule d)) (\<lambda>_. bindA (pw_text (rd_SourceFile d)) (\<lambda>_.
        bindA (pw_u64 (boolBit (rd_StandardLibrary d))) (\<lambda>_. ret ()))))))
     (bindR (timesR (length (rd_Owners d)) (cursor_owner table) s) (\<lambda>(owners, _).
       bindR (cursor_string_index table) (\<lambda>qualified_name. bindR (cursor_string_index table) (\<lambda>origin_module.
       bindR (cursor_string_index table) (\<lambda>source_file. bindR cursor_boolean (\<lambda>standard_library.
       retR \<lparr>rd_Symbol = sanitize (rd_Symbol d), rd_Name = sanitize (wireSymbolName (rd_Name d)),
         rd_Kind = sanitize (rd_Kind d), rd_Location = wire_location (rd_Location d), rd_Owners = owners,
         rd_QualifiedName = qualified_name, rd_OriginModule = origin_module, rd_SourceFile = source_file,
         rd_StandardLibrary = standard_library\<rparr>)))))) (\<lambda>_ x. x = wire_resolved d)" if "state_ok s" for s
  proof (rule codes_bind[OF codes_loop[OF codes_owner[OF len own] steady_owner that] steady_loop[OF steady_owner]], goal_cases)
    case (3 v x)
    then have x: "x = (map wire_owner (rd_Owners d), v)" by auto
    show ?case unfolding x prod.case
      by (intro codes_seq[OF codes_text[OF len] steady_text] codes_seq[OF codes_boolean steady_u64] codes_ret steady_rules)
        (simp add: wire_resolved_def)
  qed (auto intro!: steady_rules)
  show ?thesis
    unfolding internalResolvedDeclaration_def cursor_resolved_declaration_def flat
    by (intro codes_seq[OF codes_text[OF len] steady_text] codes_at[OF len loc state_ok_none]
        codes_seq[OF codes_count[OF lim] steady_count] tail steady_rules steady_location steady_loop steady_owner steady_count)
qed

definition wire_property :: "ObjectConstructionProperty \<Rightarrow> ObjectConstructionProperty" where
  "wire_property p = \<lparr>ocp_Name = sanitize (ocp_Name p), ocp_Witness = ocp_Witness p\<rparr>"

definition wire_shape :: "ObjectConstructionShape \<Rightarrow> ObjectConstructionShape" where
  "wire_shape s = \<lparr>ocs_RequiredProperties = map wire_property (ocs_RequiredProperties s)\<rparr>"

definition wire_parameter :: "ParameterFact \<Rightarrow> ParameterFact" where
  "wire_parameter p = \<lparr>par_Index = par_Index p, par_Symbol = sanitize (par_Symbol p),
     par_Declaration = map_option wire_declaration (par_Declaration p), par_Rest = par_Rest p,
     par_Optional = par_Optional p, par_Callability = par_Callability p,
     par_TypeDescriptor = map_option wire_descriptor (par_TypeDescriptor p),
     par_ObjectShape = map_option wire_shape (par_ObjectShape p)\<rparr>"

definition valid_parameter :: "ParameterFact \<Rightarrow> bool" where
  "valid_parameter p \<longleftrightarrow> par_Index p < 2 ^ 63 \<and>
     (\<forall>d \<in> set_option (par_Declaration p). valid_location (decl_Location d)) \<and>
     (\<forall>d \<in> set_option (par_TypeDescriptor p). valid_declarations (td_AliasDeclarations d)) \<and>
     (\<forall>s \<in> set_option (par_ObjectShape p). int (length (ocs_RequiredProperties s)) \<le> PACKED_COLLECTION_LIMIT)"

lemma codes_property:
  "length table < 2 ^ 63 \<Longrightarrow> codes table (writeObjectProperty p) (cursor_object_property table) (\<lambda>_ x. x = wire_property p)"
  unfolding writeObjectProperty_def cursor_object_property_def
  by (intro codes_seq[OF codes_text steady_text] codes_lift codes_post[OF codes_tag[OF names_tag_witness]] steady_rules steady_liftR)
    (auto simp: wire_property_def)

lemma steady_property: "steady (writeObjectProperty p)"
  unfolding writeObjectProperty_def by (intro steady_rules steady_liftR)

lemma bit_parameterFlags:
  "bit (parameterFlags p schema) n \<longleftrightarrow>
     (n = 0 \<and> par_Declaration p \<noteq> None) \<or> (n = 1 \<and> par_Rest p) \<or> (n = 2 \<and> par_Optional p) \<or>
     (n = 3 \<and> par_TypeDescriptor p \<noteq> None) \<or> (n = 4 \<and> par_ObjectShape p \<noteq> None)"
  unfolding parameterFlags_def bit_or_iff bit_bitIf by auto

lemma steady_maps: "(\<And>x. steady (f x)) \<Longrightarrow> steady (run_all (map f xs))"
  by (induction xs) (auto intro!: steady_rules)

lemma codes_optional:
  assumes "\<And>x. opt = Some x \<Longrightarrow> codes table (m x) r (\<lambda>_ y. y = view x)"
  shows "codes table (case opt of None \<Rightarrow> ret () | Some x \<Rightarrow> m x) (optR (opt \<noteq> None) r) (\<lambda>_ y. y = map_option view opt)"
proof (cases opt)
  case (Some x)
  then show ?thesis using codes_last[OF assms[OF Some], of Some] by (simp add: optR_def)
qed (simp add: optR_def codes_ret)

lemma steady_optional: "(\<And>x. steady (m x)) \<Longrightarrow> steady (case opt of None \<Rightarrow> ret () | Some x \<Rightarrow> m x)"
  by (cases opt) (simp_all add: steady_ret)

lemma codes_parameter:
  assumes len: "length table < 2 ^ 63" and p: "valid_parameter p"
  shows "codes table (writeWireTransitionParameter p schema) (cursor_parameter table schema) (\<lambda>_ x. x = wire_parameter p)"
proof -
  let ?f = "parameterFlags p schema"
  have bits: "bit ?f 0 = (par_Declaration p \<noteq> None)" "bit ?f 3 = (par_TypeDescriptor p \<noteq> None)"
    "bit ?f 4 = (par_ObjectShape p \<noteq> None)" "bit ?f 1 = par_Rest p" "bit ?f 2 = par_Optional p"
    unfolding bit_parameterFlags by simp_all
  have decl: "codes table (case par_Declaration p of None \<Rightarrow> ret () | Some d \<Rightarrow> bindA (internalDeclaration d noLocationState) (\<lambda>_. ret ()))
     (optR (bit ?f 0) (bindR (cursor_declaration table noLocationState) (\<lambda>(d, _). retR d)))
     (\<lambda>_ y. y = map_option wire_declaration (par_Declaration p))"
    unfolding bits by (rule codes_optional, rule codes_bind[OF codes_declaration[OF len _ state_ok_none] steady_declaration])
      (use p in \<open>auto simp: valid_parameter_def intro!: codes_ret steady_ret\<close>)
  have desc: "codes table (case par_TypeDescriptor p of None \<Rightarrow> ret () | Some d \<Rightarrow> internalTypeDescriptor d)
     (optR (bit ?f 3) (cursor_type_descriptor table))
     (\<lambda>_ y. y = map_option wire_descriptor (par_TypeDescriptor p))"
    unfolding bits by (rule codes_optional, rule codes_descriptor[OF len]) (use p in \<open>auto simp: valid_parameter_def\<close>)
  have shape: "codes table (case par_ObjectShape p of None \<Rightarrow> ret ()
       | Some shape \<Rightarrow> whenA (TypeFactsTableSchemaVersionV17 \<le> schema)
           (run_all (pw_count (ocs_RequiredProperties shape) # map writeObjectProperty (ocs_RequiredProperties shape))))
     (optR (bit ?f 4) (cursor_list (cursor_object_property table)))
     (\<lambda>_ y. y = map_option (\<lambda>s. map wire_property (ocs_RequiredProperties s)) (par_ObjectShape p))"
    unfolding bits whenA_def if_P[OF schema_at_least(12)]
    by (rule codes_optional, rule codes_list[OF _ codes_property[OF len] steady_property])
      (use p in \<open>auto simp: valid_parameter_def\<close>)
  have steady: "steady (case par_Declaration p of None \<Rightarrow> ret () | Some d \<Rightarrow> bindA (internalDeclaration d noLocationState) (\<lambda>_. ret ()))"
    "steady (case par_TypeDescriptor p of None \<Rightarrow> ret () | Some d \<Rightarrow> internalTypeDescriptor d)"
    "steady (case par_ObjectShape p of None \<Rightarrow> ret ()
       | Some shape \<Rightarrow> whenA (TypeFactsTableSchemaVersionV17 \<le> schema)
           (run_all (pw_count (ocs_RequiredProperties shape) # map writeObjectProperty (ocs_RequiredProperties shape))))"
    unfolding whenA_def if_P[OF schema_at_least(12)]
    by (intro steady_optional steady_rules steady_declaration steady_descriptor steady_list steady_property)+
  have mask: "parameterFlags p schema AND NOT 31 = 0"
  proof -
    have "?f AND NOT (mask 5) = 0" by (rule within_mask) (auto simp: bit_parameterFlags)
    then show ?thesis by (simp add: mask_eq_exp_minus_1)
  qed
  have index: "\<not> par_Index p < 0 \<Longrightarrow> uint (uint64 (par_Index p)) = par_Index p"
    using p by (intro uint_uint64) (auto simp: valid_parameter_def)
  show ?thesis
    unfolding writeWireTransitionParameter_def cursor_parameter_def run_all.simps if_P[OF schema_at_least(12)]
    by (intro codes_failIf codes_lift codes_seq[OF codes_u64 steady_u64] codes_seq[OF codes_text[OF len] steady_text]
        codes_seq[OF codes_flags[OF mask] steady_u64] codes_seq[OF decl steady(1)] codes_seq[OF desc steady(2)]
        codes_seq[OF shape steady(3), unfolded run_all.simps] codes_seq[OF codes_tag[OF names_tag_callability] steady_u64]
        codes_ret steady_rules steady steady(3)[unfolded run_all.simps])
      (auto simp: bits bits(4)[simplified] index wire_parameter_def wire_shape_def[abs_def] option.map_comp comp_def)
qed

definition wire_argument :: "ArgumentMapping \<Rightarrow> ArgumentMapping" where
  "wire_argument m = \<lparr>am_ArgumentIndex = am_ArgumentIndex m, am_Status = am_Status m, am_Unresolved = am_Unresolved m,
     am_Parameter = map_option wire_parameter (am_Parameter m)\<rparr>"

definition valid_argument :: "ArgumentMapping \<Rightarrow> bool" where
  "valid_argument m \<longleftrightarrow> am_ArgumentIndex m < 2 ^ 63 \<and> (\<forall>p \<in> set_option (am_Parameter m). valid_parameter p)"

definition wire_targets :: "CallTargetSet \<Rightarrow> CallTargetSet" where
  "wire_targets t = \<lparr>cts_Exhaustive = cts_Exhaustive t, cts_Candidates = map wire_resolved (cts_Candidates t)\<rparr>"

definition wire_resolvedCall :: "Call \<Rightarrow> Call" where
  "wire_resolvedCall c = \<lparr>call_Target = sanitize (call_Target c), call_ReturnTypeText = sanitize (call_ReturnTypeText c),
     call_Validity = call_Validity c, call_Kind = call_Kind c,
     call_Declaration = map_option wire_resolved (call_Declaration c),
     call_Targets = map_option wire_targets (call_Targets c), call_Arguments = map wire_argument (call_Arguments c)\<rparr>"

definition valid_resolvedCall :: "Call \<Rightarrow> bool" where
  "valid_resolvedCall c \<longleftrightarrow>
     (\<forall>d \<in> set_option (call_Declaration c). valid_resolved d) \<and>
     (\<forall>t \<in> set_option (call_Targets c). int (length (cts_Candidates t)) \<le> PACKED_COLLECTION_LIMIT \<and>
        (\<forall>d \<in> set (cts_Candidates t). valid_resolved d)) \<and>
     int (length (call_Arguments c)) \<le> PACKED_COLLECTION_LIMIT \<and> (\<forall>m \<in> set (call_Arguments c). valid_argument m)"

lemma steady_parameter: "steady (writeWireTransitionParameter p s)"
  by (rule steadyI) (rule growing.uniform_parameter)

lemma steady_argument: "steady (writeArgumentMapping s m)"
  by (rule steadyI) (rule growing.uniform_argumentMapping)

lemma codes_argument:
  assumes len: "length table < 2 ^ 63" and m: "valid_argument m"
  shows "codes table (writeArgumentMapping schema m) (cursor_argument table schema) (\<lambda>_ x. x = wire_argument m)"
proof -
  have par: "codes table (case am_Parameter m of None \<Rightarrow> ret () | Some p \<Rightarrow> writeWireTransitionParameter p schema)
     (optR (am_Parameter m \<noteq> None) (cursor_parameter table schema)) (\<lambda>_ y. y = map_option wire_parameter (am_Parameter m))"
    by (rule codes_optional, rule codes_parameter[OF len]) (use m in \<open>auto simp: valid_argument_def\<close>)
  have steady: "steady (case am_Parameter m of None \<Rightarrow> ret () | Some p \<Rightarrow> writeWireTransitionParameter p schema)"
    by (intro steady_optional steady_parameter)
  have index: "\<not> am_ArgumentIndex m < 0 \<Longrightarrow> uint (uint64 (am_ArgumentIndex m)) = am_ArgumentIndex m"
    using m by (intro uint_uint64) (auto simp: valid_argument_def)
  show ?thesis
    unfolding writeArgumentMapping_def cursor_argument_def run_all.simps
  proof (intro codes_failIf codes_lift)
    fix status reason
    assume i: "\<not> am_ArgumentIndex m < 0" and st: "wireTransitionMappingStatusCode (am_Status m) = Inr status"
      and re: "wireTransitionMappingReasonCode (am_Unresolved m) = Inr reason"
      and agree: "\<not> (status = 0) \<noteq> (reason = 0)"
    note st = names_tag_status[OF st] and re = names_tag_reason[OF re]
    have same: "(am_Status m = ''resolved'') = (am_Unresolved m = [])" using agree st re by simp
    show "codes table (bindA (pw_u64 (uint64 (am_ArgumentIndex m))) (\<lambda>_. bindA (pw_u64 status) (\<lambda>_. bindA (pw_u64 reason) (\<lambda>_.
        bindA (pw_u64 (boolBit (am_Parameter m \<noteq> None))) (\<lambda>_.
        bindA (case am_Parameter m of None \<Rightarrow> ret () | Some p \<Rightarrow> writeWireTransitionParameter p schema) (\<lambda>_. ret ()))))))
      (bindR cursor_u64 (\<lambda>argument_index. bindR (cursor_tag status_names) (\<lambda>status.
        bindR (cursor_tag reason_names) (\<lambda>unresolved.
        bindR (checkR ((status = ''resolved'') = (unresolved = [])) ''packed argument status and reason disagree'') (\<lambda>_.
        bindR cursor_boolean (\<lambda>present. bindR (optR present (cursor_parameter table schema)) (\<lambda>parameter.
        retR \<lparr>am_ArgumentIndex = uint argument_index, am_Status = status, am_Unresolved = unresolved,
          am_Parameter = parameter\<rparr>))))))) (\<lambda>_ x. x = wire_argument m)"
      by (intro codes_seq[OF codes_u64 steady_u64] codes_seq[OF codes_tag[OF conjunct1[OF st]] steady_u64]
          codes_seq[OF codes_tag[OF conjunct1[OF re]] steady_u64] codes_check[OF same] codes_seq[OF par steady]
          codes_seq[OF codes_boolean steady_u64] codes_ret steady_rules steady)
        (simp add: index[OF i] wire_argument_def)
  qed
qed

lemma codes_candidate:
  assumes len: "length table < 2 ^ 63" and d: "valid_resolved d"
  shows "codes table (writeTargetCandidate d) (cursor_candidate table) (\<lambda>_ x. x = wire_resolved d)"
  unfolding writeTargetCandidate_def cursor_candidate_def
  by (intro codes_failIf codes_post[OF codes_resolved[OF len d]]) (auto simp: checkR_def flat wire_resolved_def)

lemma steady_candidate: "steady (writeTargetCandidate d)"
  unfolding writeTargetCandidate_def by (intro steady_rules steady_failIf steady_resolved)

lemma codes_targets:
  assumes len: "length table < 2 ^ 63"
    and t: "\<And>t. ts = Some t \<Longrightarrow> int (length (cts_Candidates t)) \<le> PACKED_COLLECTION_LIMIT"
      "\<And>t d. ts = Some t \<Longrightarrow> d \<in> set (cts_Candidates t) \<Longrightarrow> valid_resolved d"
  shows "codes table (writeTargetSet ts)
    (bindR (elseR (TypeFactsTableSchemaVersionV6 \<le> schema) cursor_boolean False) (\<lambda>targeted. optR targeted (cursor_target_set table)))
    (\<lambda>_ x. x = map_option wire_targets ts)"
proof -
  have one: "codes table (bindA (failIf (cts_Candidates t = []) ''resolved-call target set has no candidates'') (\<lambda>_.
      run_all (pw_u64 (boolBit (cts_Exhaustive t)) # pw_count (cts_Candidates t) # map writeTargetCandidate (cts_Candidates t))))
    (cursor_target_set table) (\<lambda>_ y. y = wire_targets t)" if "ts = Some t" for t
    unfolding cursor_target_set_def run_all.simps(2)[of "pw_u64 v" for v]
    by (intro codes_failIf codes_seq[OF codes_boolean steady_u64] steady_list steady_candidate
        codes_post[OF codes_list[OF t(1)[OF that] codes_candidate[OF len t(2)[OF that]] steady_candidate]])
      (auto simp: wire_targets_def checkR_def flat)
  show ?thesis
    unfolding writeTargetSet_def elseR_def if_P[OF schema_at_least(2)]
    by (intro codes_seq[OF codes_boolean steady_u64] codes_optional one steady_optional steady_rules steady_failIf)
      (auto intro!: steady_rules steady_count steady_maps steady_candidate)
qed

lemma codes_seq2:
  assumes "codes table m (bindR r p) (\<lambda>_ x. x = a)" "steady m" "codes table k (q a) Q" "steady k"
  shows "codes table (bindA m (\<lambda>_. k)) (bindR r (\<lambda>x. bindR (p x) q)) Q"
proof -
  have "codes table (bindA m (\<lambda>_. k)) (bindR (bindR r p) q) Q"
    by (rule codes_seq[of table m "bindR r p" a]) (fact assms)+
  then show ?thesis unfolding bindR_assoc .
qed

lemma steady_targets: "steady (writeTargetSet ts)"
  by (rule steadyI) (rule growing.uniform_targetSet)

lemma steady_resolvedCall: "steady (writeWireTransitionResolvedCall c s)"
  by (rule steadyI) (rule growing.uniform_resolvedCall)

lemma codes_resolvedCall:
  assumes len: "length table < 2 ^ 63" and c: "valid_resolvedCall c"
  shows "codes table (writeWireTransitionResolvedCall c schema) (cursor_resolved_call table schema) (\<lambda>_ x. x = wire_resolvedCall c)"
proof -
  have decl: "codes table (case call_Declaration c of None \<Rightarrow> ret () | Some d \<Rightarrow> internalResolvedDeclaration d)
     (optR (call_Declaration c \<noteq> None) (cursor_resolved_declaration table)) (\<lambda>_ y. y = map_option wire_resolved (call_Declaration c))"
    by (rule codes_optional, rule codes_resolved[OF len]) (use c in \<open>auto simp: valid_resolvedCall_def\<close>)
  have steady: "steady (case call_Declaration c of None \<Rightarrow> ret () | Some d \<Rightarrow> internalResolvedDeclaration d)"
    by (intro steady_optional steady_resolved)
  have targets: "codes table (writeTargetSet (call_Targets c))
    (bindR (elseR (TypeFactsTableSchemaVersionV6 \<le> schema) cursor_boolean False) (\<lambda>targeted. optR targeted (cursor_target_set table)))
    (\<lambda>_ x. x = map_option wire_targets (call_Targets c))"
    by (rule codes_targets[OF len]) (use c in \<open>auto simp: valid_resolvedCall_def\<close>)
  have args: "codes table (run_all (pw_count (call_Arguments c) # map (writeArgumentMapping schema) (call_Arguments c)))
    (cursor_list (cursor_argument table schema)) (\<lambda>_ ys. ys = map wire_argument (call_Arguments c))"
    by (rule codes_list[OF _ codes_argument[OF len] steady_argument]) (use c in \<open>auto simp: valid_resolvedCall_def\<close>)
  note steady_args = steady_list[OF steady_argument, unfolded run_all.simps]
  show ?thesis
    unfolding writeWireTransitionResolvedCall_def cursor_resolved_call_def append.simps run_all.simps whenA_def if_P[OF schema_at_least(2)]
    apply (intro codes_lift)
    subgoal premises p
      by (intro codes_seq[OF codes_text[OF len] steady_text]
          codes_seq[OF codes_tag[OF names_tag_validity[OF p(1)]] steady_u64]
          codes_seq[OF codes_tag[OF names_tag_kind[OF p(2)]] steady_u64]
          codes_seq[OF codes_boolean steady_u64] codes_seq[OF decl steady] codes_seq2[OF targets steady_targets]
          codes_post[OF args[unfolded run_all.simps]] steady_rules steady steady_targets steady_args steady_count
          steady_maps steady_argument)
        (auto simp: wire_resolvedCall_def)
    done
qed

section \<open>Entities\<close>

definition wire_constant :: "ConstantValue \<Rightarrow> ConstantValue" where
  "wire_constant v =
     (if cv_Kind v = ''string'' then \<lparr>cv_Kind = ''string'', cv_String = sanitize (cv_String v), cv_Number = 0\<rparr>
      else \<lparr>cv_Kind = cv_Kind v, cv_String = [], cv_Number = cv_Number v\<rparr>)"

definition wire_tuple :: "TupleShape \<Rightarrow> TupleShape" where
  "wire_tuple t = \<lparr>ts_FixedLength = ts_FixedLength t,
     ts_ExactLength = (if ts_ExactLengthKnown t then ts_ExactLength t else 0),
     ts_ExactLengthKnown = ts_ExactLengthKnown t, ts_HasRest = ts_HasRest t,
     ts_ElementZero = (if ts_ElementZero t = [] then CallabilityUnknown else ts_ElementZero t),
     ts_ElementZeroMinimumParameters = ts_ElementZeroMinimumParameters t\<rparr>"

definition wire_literal :: "PrimitiveLiteralCandidate \<Rightarrow> PrimitiveLiteralCandidate" where
  "wire_literal c = \<lparr>plc_Kind = plc_Kind c,
     plc_String = (if plc_Kind c = ''string'' then sanitize (plc_String c) else []),
     plc_Number = (if plc_Kind c = ''number'' then plc_Number c else 0),
     plc_Boolean = (plc_Kind c = ''boolean'' \<and> plc_Boolean c)\<rparr>"

definition valid_tuple :: "TupleShape \<Rightarrow> bool" where
  "valid_tuple t \<longleftrightarrow> ts_FixedLength t < 2 ^ 28 \<and> ts_ElementZeroMinimumParameters t < 2 ^ 32 \<and>
     ts_ExactLength t < 2 ^ 32 - 1"

lemma codes_constant:
  assumes len: "length table < 2 ^ 63" and v: "cv_Kind v = ''number'' \<Longrightarrow> \<not> IsNaN (cv_Number v)"
  shows "codes table (writeConstantValue v) (cursor_constant table) (\<lambda>_ x. x = wire_constant v)"
proof -
  consider (str) "cv_Kind v = ''string''" | (num) "cv_Kind v = ''number''" | (other) "cv_Kind v \<noteq> ''string''" "cv_Kind v \<noteq> ''number''"
    by blast
  then show ?thesis
  proof cases
    case str
    have "codes table (bindA (pw_text (cv_String v)) (\<lambda>_. ret ())) (bindR (cursor_string_index table) (\<lambda>s.
       retR \<lparr>cv_Kind = ''string'', cv_String = s, cv_Number = 0\<rparr>)) (\<lambda>_ x. x = wire_constant v)"
      by (intro codes_seq[OF codes_text[OF len] steady_text] codes_ret steady_rules) (simp add: str wire_constant_def)
    then show ?thesis
      unfolding writeConstantValue_def if_P[OF str] run_all.simps cursor_constant_def
      by (intro codes_seq[OF codes_u64 steady_u64] steady_rules) simp
  next
    case num
    have "codes table (bindA (pw_u64 (cv_Number v)) (\<lambda>_. ret ())) (bindR cursor_u64 (\<lambda>number.
       bindR (checkR (\<not> IsNaN number) ''packed constant number is NaN'') (\<lambda>_.
       retR \<lparr>cv_Kind = ''number'', cv_String = [], cv_Number = number\<rparr>))) (\<lambda>_ x. x = wire_constant v)"
      by (intro codes_seq[OF codes_u64 steady_u64] codes_check codes_ret steady_rules) (simp_all add: num v wire_constant_def)
    moreover have "codes table (bindA (pw_u64 1) (\<lambda>_. bindA (pw_u64 (cv_Number v)) (\<lambda>_. ret ()))) (cursor_constant table)
      (\<lambda>_ x. x = wire_constant v)"
      unfolding cursor_constant_def by (intro codes_seq[OF codes_u64 steady_u64] steady_rules) (use calculation in simp)
    ultimately show ?thesis by (simp add: writeConstantValue_def num bindA_ret_right)
  next
    case other
    then show ?thesis by (simp add: writeConstantValue_def codes_fail)
  qed
qed

lemma codes_exactLength:
  assumes "0 \<le> ts_ExactLength t" "valid_tuple t"
  shows "codes table (pw_u64 (if ts_ExactLengthKnown t then uint64 (ts_ExactLength t) + 1 else 0)) (cursor_exact_length schema)
    (\<lambda>_ x. x = (if ts_ExactLengthKnown t then ts_ExactLength t else 0, ts_ExactLengthKnown t))"
proof -
  have exact: "uint (uint64 (ts_ExactLength t)) = ts_ExactLength t"
    using assms by (intro uint_uint64) (auto simp: valid_tuple_def)
  have nz: "uint64 (ts_ExactLength t) + 1 \<noteq> 0"
  proof
    assume "uint64 (ts_ExactLength t) + 1 = 0"
    then have "uint64 (ts_ExactLength t) = - 1" by (simp add: eq_neg_iff_add_eq_0)
    then show False using exact assms by (simp add: valid_tuple_def unsigned_minus_1_eq_mask mask_eq_exp_minus_1)
  qed
  show ?thesis
    unfolding cursor_exact_length_def if_P[OF schema_at_least(8)]
    by (rule codes_post[OF codes_u64])
      (use nz assms in \<open>auto simp: exact cursor_u32_def checkR_def flat valid_tuple_def\<close>)
qed

lemma steady_tuple: "steady (writeTupleShape s c t)"
  by (rule steadyI) (rule growing.uniform_tupleShape)

lemma codes_tuple:
  assumes t: "0 \<le> ts_FixedLength t" "0 \<le> ts_ElementZeroMinimumParameters t" "0 \<le> ts_ExactLength t" "valid_tuple t"
    and c: "names_tag (callability_names schema) code (ts_ElementZero (wire_tuple t))"
  shows "codes table (writeTupleShape schema code t) (cursor_tuple schema) (\<lambda>_ x. x = wire_tuple t)"
proof -
  let ?packed = "push_bit 1 (uint64 (ts_FixedLength t)) OR (if ts_HasRest t then 1 else 0)"
  have u: "uint (uint64 (ts_FixedLength t)) = ts_FixedLength t"
    "uint (uint64 (ts_ElementZeroMinimumParameters t)) = ts_ElementZeroMinimumParameters t"
    using t by (auto simp: valid_tuple_def intro!: uint_uint64)
  have "unat (uint64 (ts_FixedLength t)) < 2 ^ 63"
    using u(1) t by (auto simp: valid_tuple_def unat_eq_nat_uint)
  then have packed: "drop_bit 1 ?packed = uint64 (ts_FixedLength t)" by (intro tag_index) auto
  have rest: "bit ?packed 0 = ts_HasRest t" unfolding bit_or_iff bit_push_bit_iff by simp
  have parameters: "codes table (pw_u64 (uint64 (ts_ElementZeroMinimumParameters t))) (bindR cursor_u64 cursor_u32)
    (\<lambda>_ x. x = uint64 (ts_ElementZeroMinimumParameters t))"
    by (rule codes_post[OF codes_u64]) (use t u in \<open>simp add: cursor_u32_def valid_tuple_def\<close>)
  have small: "uint (drop_bit 1 ?packed) < 2 ^ 28" unfolding packed u using t by (simp add: valid_tuple_def)
  show ?thesis
    unfolding writeTupleShape_def cursor_tuple_def run_all.simps whenA_def if_P[OF schema_at_least(8)]
    by (intro codes_seq[OF codes_u64 steady_u64] codes_seq[OF codes_tag[OF c] steady_u64]
        codes_seq[OF parameters steady_u64] codes_seq[OF codes_exactLength[OF t(3,4)] steady_u64] steady_rules,
        unfold prod.case packed u rest, intro codes_check codes_ret)
      (use t in \<open>simp_all add: valid_tuple_def wire_tuple_def\<close>)
qed

lemma steady_literal: "steady (writeLiteralCandidate c)"
  by (rule steadyI) (rule growing.uniform_literal)

lemma codes_literal:
  assumes len: "length table < 2 ^ 63"
  shows "codes table (writeLiteralCandidate c) (cursor_literal table) (\<lambda>_ x. x = wire_literal c)"
proof -
  have str: "codes table (bindA (pw_u64 0) (\<lambda>_. bindA (pw_text (plc_String c)) (\<lambda>_. ret ()))) (cursor_literal table)
    (\<lambda>_ x. x = \<lparr>plc_Kind = ''string'', plc_String = sanitize (plc_String c), plc_Number = 0, plc_Boolean = False\<rparr>)"
    unfolding cursor_literal_def
    by (intro codes_seq[OF codes_u64 steady_u64] steady_rules)
      (auto intro!: codes_post[OF codes_text[OF len]] simp: bindA_ret_right)
  have num: "codes table (bindA (pw_u64 1) (\<lambda>_. bindA (pw_u64 (plc_Number c)) (\<lambda>_. ret ()))) (cursor_literal table)
    (\<lambda>_ x. x = \<lparr>plc_Kind = ''number'', plc_String = [], plc_Number = plc_Number c, plc_Boolean = False\<rparr>)"
    if "\<not> IsNaN (plc_Number c)" "\<not> IsInf (plc_Number c)"
    unfolding cursor_literal_def
    by (intro codes_seq[OF codes_u64 steady_u64] steady_rules)
      (auto intro!: codes_post[OF codes_u64] simp: bindA_ret_right checkR_def flat that)
  have boolean: "codes table (bindA (pw_u64 2) (\<lambda>_. bindA (pw_u64 (boolBit (plc_Boolean c))) (\<lambda>_. ret ()))) (cursor_literal table)
    (\<lambda>_ x. x = \<lparr>plc_Kind = ''boolean'', plc_String = [], plc_Number = 0, plc_Boolean = plc_Boolean c\<rparr>)"
    unfolding cursor_literal_def
    by (intro codes_seq[OF codes_u64 steady_u64] steady_rules)
      (auto intro!: codes_post[OF codes_boolean] simp: bindA_ret_right)
  show ?thesis
    using str num boolean
    by (auto simp: writeLiteralCandidate_def wire_literal_def codes_fail boolBit_def)
qed

lemma length_u64: "length xs < 2 ^ 64 \<Longrightarrow> unat (of_nat (length xs) :: u64) = length xs"
  by (rule unat_small)

lemma codes_libraryTypes:
  assumes len: "length table < 2 ^ 63" and n: "length names < 2 ^ 64"
  shows "codes table (run_all (pw_count names # map pw_text names)) (cursor_names table) (\<lambda>_ xs. xs = map sanitize names)"
  unfolding cursor_names_def run_all.simps pw_count_def
  by (intro codes_seq[OF codes_u64 steady_u64] steady_maps steady_text, unfold length_u64[OF n],
      rule codes_post[OF codes_rows[OF codes_text[OF len] steady_text]]) auto

lemma codes_literals:
  assumes len: "length table < 2 ^ 63" and n: "length cs \<le> 32"
  shows "codes table (run_all (pw_count cs # map writeLiteralCandidate cs)) (cursor_literals table) (\<lambda>_ xs. xs = map wire_literal cs)"
proof -
  have u: "unat (of_nat (length cs) :: u64) = length cs" using n by (intro length_u64) simp
  then have l: "uint (of_nat (length cs) :: u64) \<le> 32" using n by (metis of_nat_le_iff of_nat_numeral uint_nat)
  show ?thesis
    unfolding cursor_literals_def run_all.simps pw_count_def
    by (intro codes_seq[OF codes_u64 steady_u64] codes_check[OF l] steady_maps steady_literal, unfold u,
      rule codes_post[OF codes_rows[OF codes_literal[OF len] steady_literal]]) auto
qed

definition wire_entity :: "EntityFact \<Rightarrow> EntityFact" where
  "wire_entity e = \<lparr>ent_Location = wire_location (ent_Location e), ent_Symbol = sanitize (ent_Symbol e),
     ent_SymbolUnresolved = ent_SymbolUnresolved e,
     ent_TypeDescriptor = map_option wire_descriptor (ent_TypeDescriptor e),
     ent_ResolvedCall = map_option wire_resolvedCall (ent_ResolvedCall e), ent_Callability = ent_Callability e,
     ent_RuntimeValueDomain = ent_RuntimeValueDomain e,
     ent_PrimitiveValueDomain = (if pvd_IsPresent (ent_PrimitiveValueDomain e)
       then wire_primitive_domain (ent_PrimitiveValueDomain e) else \<lparr>pvd_bits = 0\<rparr>),
     ent_PrimitiveLiteralCandidates = map wire_literal (ent_PrimitiveLiteralCandidates e),
     ent_Constructability = ent_Constructability e, ent_CallResultDomain = ent_CallResultDomain e,
     ent_ConstantValue = map_option wire_constant (ent_ConstantValue e), ent_ArrayShape = ent_ArrayShape e,
     ent_TupleShape = map_option wire_tuple (ent_TupleShape e),
     ent_LibraryTypes = (if elems (ent_LibraryTypes e) = [] then None else Some (map sanitize (elems (ent_LibraryTypes e)))),
     ent_ReferenceSpace = ent_ReferenceSpace e, ent_RuntimeIdentity = sanitize (ent_RuntimeIdentity e)\<rparr>"

text \<open>What a decodable row has beyond what the writer checks: sizes within the client's limits and no NaN constant.\<close>

definition valid_entity :: "EntityFact \<Rightarrow> bool" where
  "valid_entity e \<longleftrightarrow> loc_EndByte (ent_Location e) < 2 ^ 63 \<and>
     (\<forall>d \<in> set_option (ent_TypeDescriptor e). valid_declarations (td_AliasDeclarations d)) \<and>
     (\<forall>c \<in> set_option (ent_ResolvedCall e). valid_resolvedCall c) \<and>
     (\<forall>v \<in> set_option (ent_ConstantValue e). cv_Kind v = ''number'' \<longrightarrow> \<not> IsNaN (cv_Number v)) \<and>
     (\<forall>t \<in> set_option (ent_TupleShape e). valid_tuple t) \<and>
     int (length (elems (ent_LibraryTypes e))) < 2 ^ 64 \<and> length (ent_PrimitiveLiteralCandidates e) \<le> 32"

lemma bit_entityFlags:
  "bit (entityFlags schema e) 0 \<longleftrightarrow> ent_TypeDescriptor e \<noteq> None" "bit (entityFlags schema e) 1 \<longleftrightarrow> ent_ResolvedCall e \<noteq> None"
  "bit (entityFlags schema e) 2 \<longleftrightarrow> ent_Callability e \<noteq> []" "bit (entityFlags schema e) 3 \<longleftrightarrow> ent_ReferenceSpace e \<noteq> []"
  "bit (entityFlags schema e) 4 \<longleftrightarrow> ent_RuntimeIdentity e \<noteq> []"
  "bit (entityFlags schema e) 5 \<longleftrightarrow> ent_RuntimeValueDomain e \<noteq> None" "bit (entityFlags schema e) 6 \<longleftrightarrow> ent_SymbolUnresolved e"
  "bit (entityFlags schema e) 7 \<longleftrightarrow> ent_CallResultDomain e \<noteq> None" "bit (entityFlags schema e) 8 \<longleftrightarrow> ent_ConstantValue e \<noteq> None"
  "bit (entityFlags schema e) 9 \<longleftrightarrow> ent_ArrayShape e \<noteq> []" "bit (entityFlags schema e) 10 \<longleftrightarrow> ent_TupleShape e \<noteq> None"
  "bit (entityFlags schema e) 11 \<longleftrightarrow> elems (ent_LibraryTypes e) \<noteq> []"
  "bit (entityFlags schema e) 12 \<longleftrightarrow> pvd_IsPresent (ent_PrimitiveValueDomain e)"
  "bit (entityFlags schema e) 13 \<longleftrightarrow> Constructability_IsPresent (ent_Constructability e)"
  "bit (entityFlags schema e) 14 \<longleftrightarrow> ent_PrimitiveLiteralCandidates e \<noteq> []"
  unfolding entityFlags_def bit_or_iff bit_bitIf by simp_all

lemma entityFlags_mask: "entityFlags schema e AND NOT (known_flags schema) = 0"
proof -
  have "entityFlags schema e AND NOT (mask 15) = 0"
    unfolding entityFlags_def by (rule within_mask) (unfold bit_or_iff bit_bitIf, elim disjE; simp)
  moreover have "known_flags schema = mask 15" by (simp add: known_flags_def schema_defs mask_eq_exp_minus_1)
  ultimately show ?thesis by simp
qed

text \<open>The codes a row was written with.\<close>

lemma encodeEntityCodes_facts:
  assumes "encodeEntityCodes path schema e = Inr ec"
  shows "entity_path e = path" "0 \<le> loc_StartByte (ent_Location e)" "loc_StartByte (ent_Location e) \<le> loc_EndByte (ent_Location e)"
    "ent_Symbol e = [] \<or> \<not> ent_SymbolUnresolved e"
    "ent_Callability e \<noteq> [] \<Longrightarrow> names_tag (callability_names schema) (ec_callability ec) (ent_Callability e)"
    "Constructability_IsPresent (ent_Constructability e) \<Longrightarrow>
      wireTransitionConstructabilityCode (ent_Constructability e) = Inr (ec_constructability ec)"
    "ent_ReferenceSpace e \<noteq> [] \<Longrightarrow> names_tag space_names (ec_referenceSpace ec) (ent_ReferenceSpace e)"
    "ent_ArrayShape e \<noteq> [] \<Longrightarrow> names_tag array_names (ec_arrayShape ec) (ent_ArrayShape e)"
    "ent_TupleShape e = Some t \<Longrightarrow> names_tag (callability_names schema) (ec_tupleElementZero ec) (ts_ElementZero (wire_tuple t)) \<and>
      0 \<le> ts_FixedLength t \<and> 0 \<le> ts_ElementZeroMinimumParameters t \<and> 0 \<le> ts_ExactLength t"
  using assms
  by (auto simp: encodeEntityCodes_def bind_result_eq_Inr_iff optionalCode_def validateWireTransitionLocation_def
      tupleElementZeroCode_def Let_def wire_tuple_def split: if_splits
      intro!: names_tag_callability names_tag_space names_tag_array)

lemma steady_entity: "steady (writeEntity path s e p)"
  by (rule steadyI) (rule growing.uniform_entity)

lemma steady_when: "steady m \<Longrightarrow> steady (whenA b m)"
  by (simp add: whenA_def steady_ret)

lemma steady_constant: "steady (writeConstantValue v)"
  by (rule steadyI) (rule growing.uniform_constantValue)

lemma steady_fields:
  "steady (case ent_TypeDescriptor e of None \<Rightarrow> ret () | Some d \<Rightarrow> internalTypeDescriptor d)"
  "steady (case ent_ResolvedCall e of None \<Rightarrow> ret () | Some c \<Rightarrow> writeWireTransitionResolvedCall c s)"
  "steady (case ent_RuntimeValueDomain e of None \<Rightarrow> ret () | Some d \<Rightarrow> pw_u64 (wireTransitionRuntimeValueDomainBits d))"
  "steady (case ent_CallResultDomain e of None \<Rightarrow> ret () | Some d \<Rightarrow> whenA b (pw_u64 (wireTransitionRuntimeValueDomainBits d)))"
  "steady (case ent_ConstantValue e of None \<Rightarrow> ret () | Some v \<Rightarrow> whenA b (writeConstantValue v))"
  "steady (case ent_TupleShape e of None \<Rightarrow> ret () | Some t \<Rightarrow> whenA b (writeTupleShape s z t))"
  by (intro steady_optional steady_when steady_descriptor steady_resolvedCall steady_u64 steady_constant steady_tuple)+

lemma steady_names: "steady (run_all (pw_count xs # map pw_text xs))" "steady (run_all (pw_count cs # map writeLiteralCandidate cs))"
  by (intro steady_list steady_text steady_literal)+

lemma codes_present:
  assumes "b \<Longrightarrow> codes table m r (\<lambda>_ x. x = a)" "\<not> b \<Longrightarrow> a = d" and "c = b"
  shows "codes table (whenA b m) (elseR c r d) (\<lambda>_ y. y = a)"
  using assms by (cases b) (simp_all add: elseR_def whenA_def codes_ret)

lemma codes_valueDomains:
  "codes table (case opt of None \<Rightarrow> ret () | Some d \<Rightarrow> pw_u64 (wireTransitionRuntimeValueDomainBits d))
    (optR (opt \<noteq> None) cursor_value_domain) (\<lambda>_ y. y = opt)"
proof (cases opt)
  case (Some d)
  then show ?thesis using codes_last[OF codes_valueDomain[of table d], of Some] by (simp add: optR_def)
qed (simp add: optR_def codes_ret)

lemma codes_fields:
  assumes len: "length table < 2 ^ 63" and e: "valid_entity e"
  shows
    "codes table (case ent_TypeDescriptor e of None \<Rightarrow> ret () | Some d \<Rightarrow> internalTypeDescriptor d)
      (optR (bit (entityFlags schema e) 0) (cursor_type_descriptor table)) (\<lambda>_ y. y = map_option wire_descriptor (ent_TypeDescriptor e))"
    "codes table (case ent_ResolvedCall e of None \<Rightarrow> ret () | Some c \<Rightarrow> writeWireTransitionResolvedCall c schema)
      (optR (bit (entityFlags schema e) 1) (cursor_resolved_call table schema)) (\<lambda>_ y. y = map_option wire_resolvedCall (ent_ResolvedCall e))"
    "codes table (whenA (ent_RuntimeIdentity e \<noteq> []) (pw_text (ent_RuntimeIdentity e)))
      (elseR (bit (entityFlags schema e) 4) (cursor_string_index table) []) (\<lambda>_ y. y = sanitize (ent_RuntimeIdentity e))"
    "codes table (case ent_RuntimeValueDomain e of None \<Rightarrow> ret () | Some d \<Rightarrow> pw_u64 (wireTransitionRuntimeValueDomainBits d))
      (optR (bit (entityFlags schema e) 5) cursor_value_domain) (\<lambda>_ y. y = ent_RuntimeValueDomain e)"
    "codes table (case ent_CallResultDomain e of None \<Rightarrow> ret ()
        | Some d \<Rightarrow> whenA (TypeFactsTableSchemaVersionV7 \<le> schema) (pw_u64 (wireTransitionRuntimeValueDomainBits d)))
      (optR (bit (entityFlags schema e) 7) cursor_value_domain) (\<lambda>_ y. y = ent_CallResultDomain e)"
    "codes table (case ent_ConstantValue e of None \<Rightarrow> ret ()
        | Some v \<Rightarrow> whenA (TypeFactsTableSchemaVersionV8 \<le> schema) (writeConstantValue v))
      (optR (bit (entityFlags schema e) 8) (cursor_constant table)) (\<lambda>_ y. y = map_option wire_constant (ent_ConstantValue e))"
    "codes table (whenA (TypeFactsTableSchemaVersionV12 \<le> schema \<and> elems (ent_LibraryTypes e) \<noteq> [])
        (run_all (pw_count (elems (ent_LibraryTypes e)) # map pw_text (elems (ent_LibraryTypes e)))))
      (optR (bit (entityFlags schema e) 11) (cursor_names table)) (\<lambda>_ y. y = ent_LibraryTypes (wire_entity e))"
    "codes table (whenA (TypeFactsTableSchemaVersionV13 \<le> schema \<and> pvd_IsPresent (ent_PrimitiveValueDomain e))
        (pw_u64 (wireTransitionPrimitiveValueDomainBits (ent_PrimitiveValueDomain e))))
      (elseR (bit (entityFlags schema e) 12) cursor_primitive_domain \<lparr>pvd_bits = 0\<rparr>)
      (\<lambda>_ y. y = ent_PrimitiveValueDomain (wire_entity e))"
    "codes table (whenA (TypeFactsTableSchemaVersionV16 \<le> schema \<and> ent_PrimitiveLiteralCandidates e \<noteq> [])
        (run_all (pw_count (ent_PrimitiveLiteralCandidates e) # map writeLiteralCandidate (ent_PrimitiveLiteralCandidates e))))
      (elseR (bit (entityFlags schema e) 14) (cursor_literals table) [])
      (\<lambda>_ y. y = map wire_literal (ent_PrimitiveLiteralCandidates e))"
proof -
  note v = e[unfolded valid_entity_def]
  show "codes table (case ent_TypeDescriptor e of None \<Rightarrow> ret () | Some d \<Rightarrow> internalTypeDescriptor d)
      (optR (bit (entityFlags schema e) 0) (cursor_type_descriptor table)) (\<lambda>_ y. y = map_option wire_descriptor (ent_TypeDescriptor e))"
    unfolding bit_entityFlags by (rule codes_optional, rule codes_descriptor[OF len]) (use v in auto)
  show "codes table (case ent_ResolvedCall e of None \<Rightarrow> ret () | Some c \<Rightarrow> writeWireTransitionResolvedCall c schema)
      (optR (bit (entityFlags schema e) 1) (cursor_resolved_call table schema)) (\<lambda>_ y. y = map_option wire_resolvedCall (ent_ResolvedCall e))"
    unfolding bit_entityFlags by (rule codes_optional, rule codes_resolvedCall[OF len]) (use v in auto)
  show "codes table (whenA (ent_RuntimeIdentity e \<noteq> []) (pw_text (ent_RuntimeIdentity e)))
      (elseR (bit (entityFlags schema e) 4) (cursor_string_index table) []) (\<lambda>_ y. y = sanitize (ent_RuntimeIdentity e))"
    by (rule codes_present[OF codes_text[OF len]]) (simp_all add: bit_entityFlags)
  show "codes table (case ent_RuntimeValueDomain e of None \<Rightarrow> ret () | Some d \<Rightarrow> pw_u64 (wireTransitionRuntimeValueDomainBits d))
      (optR (bit (entityFlags schema e) 5) cursor_value_domain) (\<lambda>_ y. y = ent_RuntimeValueDomain e)"
    unfolding bit_entityFlags by (rule codes_valueDomains)
  show "codes table (case ent_CallResultDomain e of None \<Rightarrow> ret ()
        | Some d \<Rightarrow> whenA (TypeFactsTableSchemaVersionV7 \<le> schema) (pw_u64 (wireTransitionRuntimeValueDomainBits d)))
      (optR (bit (entityFlags schema e) 7) cursor_value_domain) (\<lambda>_ y. y = ent_CallResultDomain e)"
    unfolding bit_entityFlags whenA_def if_P[OF schema_at_least(3)] by (rule codes_valueDomains)
  show "codes table (case ent_ConstantValue e of None \<Rightarrow> ret ()
        | Some v \<Rightarrow> whenA (TypeFactsTableSchemaVersionV8 \<le> schema) (writeConstantValue v))
      (optR (bit (entityFlags schema e) 8) (cursor_constant table)) (\<lambda>_ y. y = map_option wire_constant (ent_ConstantValue e))"
    unfolding bit_entityFlags whenA_def if_P[OF schema_at_least(4)]
    by (rule codes_optional, rule codes_constant[OF len]) (use v in auto)
  show "codes table (whenA (TypeFactsTableSchemaVersionV12 \<le> schema \<and> elems (ent_LibraryTypes e) \<noteq> [])
        (run_all (pw_count (elems (ent_LibraryTypes e)) # map pw_text (elems (ent_LibraryTypes e)))))
      (optR (bit (entityFlags schema e) 11) (cursor_names table)) (\<lambda>_ y. y = ent_LibraryTypes (wire_entity e))"
    by (cases "elems (ent_LibraryTypes e) = []")
      (use v codes_last[OF codes_libraryTypes[OF len], of "elems (ent_LibraryTypes e)" Some] in
        \<open>simp_all del: run_all.simps add: bit_entityFlags wire_entity_def whenA_def optR_def codes_ret\<close>)
  show "codes table (whenA (TypeFactsTableSchemaVersionV13 \<le> schema \<and> pvd_IsPresent (ent_PrimitiveValueDomain e))
        (pw_u64 (wireTransitionPrimitiveValueDomainBits (ent_PrimitiveValueDomain e))))
      (elseR (bit (entityFlags schema e) 12) cursor_primitive_domain \<lparr>pvd_bits = 0\<rparr>)
      (\<lambda>_ y. y = ent_PrimitiveValueDomain (wire_entity e))"
    by (rule codes_present) (simp_all add: bit_entityFlags wire_entity_def codes_primitiveDomain)
  show "codes table (whenA (TypeFactsTableSchemaVersionV16 \<le> schema \<and> ent_PrimitiveLiteralCandidates e \<noteq> [])
        (run_all (pw_count (ent_PrimitiveLiteralCandidates e) # map writeLiteralCandidate (ent_PrimitiveLiteralCandidates e))))
      (elseR (bit (entityFlags schema e) 14) (cursor_literals table) [])
      (\<lambda>_ y. y = map wire_literal (ent_PrimitiveLiteralCandidates e))"
    by (rule codes_present[OF codes_literals[OF len]]) (use v in \<open>simp_all add: bit_entityFlags\<close>)
qed

text \<open>The fields whose codes were looked up before the row was begun.\<close>

lemma codes_coded_fields:
  assumes len: "length table < 2 ^ 63" and e: "valid_entity e" and ec: "encodeEntityCodes path schema e = Inr ec"
  shows
    "codes table (whenA (ent_Callability e \<noteq> []) (pw_u64 (ec_callability ec)))
      (elseR (bit (entityFlags schema e) 2) (cursor_tag (callability_names schema)) []) (\<lambda>_ y. y = ent_Callability e)"
    "codes table (whenA (ent_ReferenceSpace e \<noteq> []) (pw_u64 (ec_referenceSpace ec)))
      (elseR (bit (entityFlags schema e) 3) (cursor_tag space_names) []) (\<lambda>_ y. y = ent_ReferenceSpace e)"
    "codes table (whenA (TypeFactsTableSchemaVersionV9 \<le> schema \<and> ent_ArrayShape e \<noteq> []) (pw_u64 (ec_arrayShape ec)))
      (elseR (bit (entityFlags schema e) 9) (cursor_tag array_names) []) (\<lambda>_ y. y = ent_ArrayShape e)"
    "codes table (case ent_TupleShape e of None \<Rightarrow> ret ()
        | Some t \<Rightarrow> whenA (TypeFactsTableSchemaVersionV11 \<le> schema) (writeTupleShape schema (ec_tupleElementZero ec) t))
      (optR (bit (entityFlags schema e) 10) (cursor_tuple schema)) (\<lambda>_ y. y = map_option wire_tuple (ent_TupleShape e))"
    "codes table (whenA (TypeFactsTableSchemaVersionV14 \<le> schema \<and> Constructability_IsPresent (ent_Constructability e))
        (pw_u64 (ec_constructability ec)))
      (elseR (bit (entityFlags schema e) 13) cursor_constructability ConstructabilityAbsent) (\<lambda>_ y. y = ent_Constructability e)"
proof -
  note f = encodeEntityCodes_facts[OF ec]
  show "codes table (whenA (ent_Callability e \<noteq> []) (pw_u64 (ec_callability ec)))
      (elseR (bit (entityFlags schema e) 2) (cursor_tag (callability_names schema)) []) (\<lambda>_ y. y = ent_Callability e)"
    by (rule codes_present[OF codes_tag[OF f(5)]]) (simp_all add: bit_entityFlags)
  show "codes table (whenA (ent_ReferenceSpace e \<noteq> []) (pw_u64 (ec_referenceSpace ec)))
      (elseR (bit (entityFlags schema e) 3) (cursor_tag space_names) []) (\<lambda>_ y. y = ent_ReferenceSpace e)"
    by (rule codes_present[OF codes_tag[OF f(7)]]) (simp_all add: bit_entityFlags)
  show "codes table (whenA (TypeFactsTableSchemaVersionV9 \<le> schema \<and> ent_ArrayShape e \<noteq> []) (pw_u64 (ec_arrayShape ec)))
      (elseR (bit (entityFlags schema e) 9) (cursor_tag array_names) []) (\<lambda>_ y. y = ent_ArrayShape e)"
    by (rule codes_present[OF codes_tag[OF f(8)]]) (simp_all add: bit_entityFlags)
  show "codes table (case ent_TupleShape e of None \<Rightarrow> ret ()
        | Some t \<Rightarrow> whenA (TypeFactsTableSchemaVersionV11 \<le> schema) (writeTupleShape schema (ec_tupleElementZero ec) t))
      (optR (bit (entityFlags schema e) 10) (cursor_tuple schema)) (\<lambda>_ y. y = map_option wire_tuple (ent_TupleShape e))"
    unfolding bit_entityFlags whenA_def if_P[OF schema_at_least(6)]
    by (rule codes_optional, rule codes_tuple) (use f(9) e in \<open>auto simp: valid_entity_def\<close>)
  show "codes table (whenA (TypeFactsTableSchemaVersionV14 \<le> schema \<and> Constructability_IsPresent (ent_Constructability e))
        (pw_u64 (ec_constructability ec)))
      (elseR (bit (entityFlags schema e) 13) cursor_constructability ConstructabilityAbsent) (\<lambda>_ y. y = ent_Constructability e)"
    by (rule codes_present[OF codes_constructability[OF f(6)]]) (simp_all add: bit_entityFlags Constructability_IsPresent_def)
qed

lemma codes_entity:
  assumes len: "length table < 2 ^ 63" and e: "valid_entity e" and start: "uint previous < 2 ^ 63"
  shows "codes table (writeEntity path schema e previous) (decode_entity table (sanitize path) schema previous)
    (\<lambda>s' (x, s''). x = wire_entity e \<and> s'' = s' \<and> uint s' < 2 ^ 63)"
  unfolding writeEntity_def Let_def
proof (rule codes_lift, goal_cases)
  case (1 ec)
  note f = encodeEntityCodes_facts[OF 1] and fields = codes_fields[OF len e] and coded = codes_coded_fields[OF len e 1]
  let ?start = "uint64 (loc_StartByte (ent_Location e))"
  let ?width = "uint64 (loc_EndByte (ent_Location e) - loc_StartByte (ent_Location e))"
  have u: "uint ?start = loc_StartByte (ent_Location e)" "uint ?width = loc_EndByte (ent_Location e) - loc_StartByte (ent_Location e)"
    using f e by (auto simp: valid_entity_def intro!: uint_uint64)
  have delta: "codes table (pw_signed (?start - previous)) (bindR cursor_signed (add_signed previous)) (\<lambda>_ x. x = ?start)"
    by (rule codes_post[OF codes_signed])
      (use f e start u sint_difference[of ?start previous] in \<open>auto simp: add_signed_def valid_entity_def uint64_def\<close>)
  have fits: "uint ?start + uint ?width < 2 ^ 64" unfolding u using e by (simp add: valid_entity_def)
  have small: "loc_StartByte (ent_Location e) < 9223372036854775808" using f e by (auto simp: valid_entity_def)
  have loc: "\<lparr>loc_Path = sanitize path, loc_StartByte = loc_StartByte (ent_Location e), loc_EndByte = loc_EndByte (ent_Location e)\<rparr> =
    wire_location (ent_Location e)"
    using f(1) by (cases "ent_Location e") (simp add: wire_location_def entity_path_def)
  have unresolved: "\<not> (bit (entityFlags schema e) 6 \<and> sanitize (ent_Symbol e) \<noteq> [])" using f(4) by (auto simp: bit_entityFlags)
  show ?case
    unfolding decode_entity_def run_all.simps flat
    by (intro codes_seq2[OF delta steady_signed] codes_seq[OF codes_u64 steady_u64] codes_check[OF fits]
        codes_seq[OF codes_text[OF len] steady_text] codes_seq[OF codes_flags[OF entityFlags_mask] steady_u64]
        codes_seq[OF fields(1) steady_fields(1)] codes_seq[OF fields(2) steady_fields(2)]
        codes_seq[OF coded(1) steady_when[OF steady_u64]] codes_seq[OF coded(2) steady_when[OF steady_u64]]
        codes_seq[OF fields(3) steady_when[OF steady_text]] codes_seq[OF fields(4) steady_fields(3)]
        codes_seq[OF fields(5) steady_fields(4)] codes_seq[OF fields(6) steady_fields(5)]
        codes_seq[OF coded(3) steady_when[OF steady_u64]] codes_seq[OF coded(4) steady_fields(6)]
        codes_seq[OF fields(7) steady_when[OF steady_names(1)], unfolded run_all.simps]
        codes_seq[OF fields(8) steady_when[OF steady_u64]] codes_seq[OF coded(5) steady_when[OF steady_u64]]
        codes_seq[OF fields(9) steady_when[OF steady_names(2)], unfolded run_all.simps]
        codes_check[OF unresolved] codes_ret steady_rules steady_fields steady_when steady_count steady_maps steady_literal)
      (simp_all add: u bit_entityFlags wire_entity_def loc small)
qed

lemma codes_entityRun:
  assumes len: "length table < 2 ^ 63" and n: "int (length es) \<le> PACKED_COLLECTION_LIMIT" and es: "\<And>e. e \<in> set es \<Longrightarrow> valid_entity e"
  shows "codes table (writeWireTransitionEntityRun path es schema) (decode_entity_run table (sanitize path) schema)
    (\<lambda>_ x. x = map wire_entity es)"
  unfolding writeWireTransitionEntityRun_def decode_entity_run_def
proof (rule codes_seq[OF codes_count[OF n] steady_count])
  have "codes table (loopA (writeEntity path schema) es 0) (timesR (length es) (decode_entity table (sanitize path) schema) 0)
    (\<lambda>s' (ys, s''). ys = map wire_entity es \<and> s'' = s' \<and> uint s' < 2 ^ 63)"
    by (rule codes_loop[OF codes_entity[OF len es] steady_entity]) auto
  then show "codes table (bindA (loopA (writeEntity path schema) es 0) (\<lambda>_. ret ()))
     (bindR (timesR (length es) (decode_entity table (sanitize path) schema) 0) (\<lambda>(xs, _). retR xs)) (\<lambda>_ x. x = map wire_entity es)"
    by (rule codes_bind) (auto intro!: codes_ret steady_rules steady_loop steady_entity)
qed (intro steady_rules steady_loop steady_entity)

end
