(* ===== verification/Frame_Roundtrip.thy ===== *)
theory Frame_Roundtrip
  imports Entity_Roundtrip
begin

text \<open>
  A whole transition read back. The frame that \<^verbatim>\<open>Encode\<close> returns is accepted by the client's
  \<^verbatim>\<open>decode_table_transition\<close> and decodes to the operations of the plan, row for row.
\<close>

section \<open>Path operations\<close>

definition wire_slot :: "wireTransitionCollectionOp \<Rightarrow> 'x \<Rightarrow> 'x SlotOp" where
  "wire_slot tag x = (if tag = wireTransitionUnchanged then SlotUnchanged
     else if tag = wireTransitionReplace then SlotReplace x else SlotRemove)"

definition wire_pathOp :: "wireTransitionPathOp \<Rightarrow> PathOp" where
  "wire_pathOp op = \<lparr>pop_path = sanitize (po_path op),
     pop_source = wire_slot (po_sourceOp op) (raw_digest (dig_SHA256 (po_source op))),
     pop_entities = wire_slot (po_entityOp op) (map wire_entity (po_entities op)),
     pop_file = wire_slot (po_fileOp op) (wire_file (po_file op))\<rparr>"

text \<open>
  What the rows of a path operation have beyond the writer's own checks: some change, digests of 32 bytes,
  and entity runs and files the client accepts.
\<close>

definition valid_pathOp :: "wireTransitionMode \<Rightarrow> wireTransitionPathOp \<Rightarrow> bool" where
  "valid_pathOp mode op \<longleftrightarrow>
     (po_sourceOp op \<noteq> wireTransitionUnchanged \<or> po_entityOp op \<noteq> wireTransitionUnchanged \<or> po_fileOp op \<noteq> wireTransitionUnchanged) \<and>
     (mode = wireTransitionFull \<longrightarrow>
       po_sourceOp op \<noteq> wireTransitionRemove \<and> po_entityOp op \<noteq> wireTransitionRemove \<and> po_fileOp op \<noteq> wireTransitionRemove) \<and>
     (po_sourceOp op = wireTransitionReplace \<longrightarrow> length (dig_SHA256 (po_source op)) = 32) \<and>
     (po_entityOp op = wireTransitionReplace \<longrightarrow> po_entities op \<noteq> [] \<and>
       int (length (po_entities op)) \<le> PACKED_COLLECTION_LIMIT \<and> (\<forall>e \<in> set (po_entities op). valid_entity e) \<and>
       entity_run_is_canonical (po_path op) (po_entities op)) \<and>
     (po_fileOp op = wireTransitionReplace \<longrightarrow> valid_file (po_file op))"

lemma entity_run_is_canonical_wire:
  "entity_run_is_canonical path es \<Longrightarrow> entity_run_is_canonical (sanitize path) (map wire_entity es)"
  by (induction path es rule: entity_run_is_canonical.induct) (auto simp: wire_entity_def wire_location_def)

lemma codes_slot:
  assumes "tag = wireTransitionReplace \<Longrightarrow> codes table m r (\<lambda>_ x. x = a)"
    and "tag \<noteq> wireTransitionReplace \<Longrightarrow> m = ret ()"
  shows "codes table m (slotR tag r) (\<lambda>_ x. x = wire_slot tag a)"
proof (cases "tag = wireTransitionReplace")
  case True
  then show ?thesis using codes_last[OF assms(1), of SlotReplace] by (simp add: slotR_def wire_slot_def wireTransitionUnchanged_def wireTransitionReplace_def wireTransitionRemove_def)
qed (use assms(2) in \<open>auto simp: slotR_def wire_slot_def wireTransitionUnchanged_def wireTransitionReplace_def wireTransitionRemove_def codes_ret\<close>)

lemma pathFlags_tags:
  fixes a b c :: u64
  assumes "a \<in> {0, 1, 2}" "b \<in> {0, 1, 2}" "c \<in> {0, 1, 2}"
  defines "flags \<equiv> push_bit 0 a OR push_bit 2 b OR push_bit 4 c"
  shows "flags AND 3 = a" "drop_bit 2 flags AND 3 = b" "drop_bit 4 flags AND 3 = c" "flags AND NOT 63 = 0"
  using assms by auto

lemma wireTransitionPathFlags_tags:
  assumes "wireTransitionPathFlags op = Inr flags"
  shows "flags AND 3 = po_sourceOp op" "drop_bit 2 flags AND 3 = po_entityOp op" "drop_bit 4 flags AND 3 = po_fileOp op"
    "flags AND NOT 63 = 0" "po_sourceOp op \<noteq> 3 \<and> po_entityOp op \<noteq> 3 \<and> po_fileOp op \<noteq> 3"
proof -
  have flags: "flags = push_bit 0 (po_sourceOp op) OR push_bit 2 (po_entityOp op) OR push_bit 4 (po_fileOp op)"
    and range: "po_sourceOp op \<in> {0, 1, 2}" "po_entityOp op \<in> {0, 1, 2}" "po_fileOp op \<in> {0, 1, 2}"
    using assms by (auto simp: wireTransitionPathFlags_def validateWireTransitionCollectionOp_def bind_result_eq_Inr_iff
        wireTransitionUnchanged_def wireTransitionReplace_def wireTransitionRemove_def split: if_splits)
  show "flags AND 3 = po_sourceOp op" "drop_bit 2 flags AND 3 = po_entityOp op" "drop_bit 4 flags AND 3 = po_fileOp op"
    "flags AND NOT 63 = 0" unfolding flags using pathFlags_tags[OF range] by simp_all
  show "po_sourceOp op \<noteq> 3 \<and> po_entityOp op \<noteq> 3 \<and> po_fileOp op \<noteq> 3" using range by auto
qed

lemma steady_file: "steady (writeWireTransitionFileBody f)"
  by (rule steadyI) (rule growing.uniform_fileBody)

lemma steady_entityRun: "steady (writeWireTransitionEntityRun path es s)"
  by (rule steadyI) (rule growing.uniform_entityRun)

lemma steady_pathOp: "steady (writeWireTransitionPathOp op s)"
  by (rule steadyI) (rule growing.uniform_pathOp)

lemma codes_slots:
  assumes len: "length table < 2 ^ 63" and op: "valid_pathOp mode op"
  shows
    "codes table (whenA (po_sourceOp op = wireTransitionReplace) (bindA (failIf (dig_Path (po_source op) \<noteq> po_path op) m1)
        (\<lambda>_. pw_raw (dig_SHA256 (po_source op)))))
      (slotR (po_sourceOp op) (bindR (cursor_raw 32) (\<lambda>raw. retR (raw_digest raw))))
      (\<lambda>_ x. x = wire_slot (po_sourceOp op) (raw_digest (dig_SHA256 (po_source op))))"
    "codes table (whenA (po_entityOp op = wireTransitionReplace) (writeWireTransitionEntityRun (po_path op) (po_entities op) schema))
      (slotR (po_entityOp op) (bindR (decode_entity_run table (sanitize (po_path op)) schema) (\<lambda>es.
         bindR (checkR (es \<noteq> []) m2) (\<lambda>_.
         bindR (checkR (entity_run_is_canonical (sanitize (po_path op)) es) m3) (\<lambda>_. retR es)))))
      (\<lambda>_ x. x = wire_slot (po_entityOp op) (map wire_entity (po_entities op)))"
    "codes table (whenA (po_fileOp op = wireTransitionReplace) (bindA (failIf (file_Path (po_file op) \<noteq> po_path op) m4)
        (\<lambda>_. writeWireTransitionFileBody (po_file op))))
      (slotR (po_fileOp op) (decode_file_fact table (sanitize (po_path op))))
      (\<lambda>_ x. x = wire_slot (po_fileOp op) (wire_file (po_file op)))"
proof -
  note v = op[unfolded valid_pathOp_def]
  show "codes table (whenA (po_sourceOp op = wireTransitionReplace) (bindA (failIf (dig_Path (po_source op) \<noteq> po_path op) m1)
        (\<lambda>_. pw_raw (dig_SHA256 (po_source op)))))
      (slotR (po_sourceOp op) (bindR (cursor_raw 32) (\<lambda>raw. retR (raw_digest raw))))
      (\<lambda>_ x. x = wire_slot (po_sourceOp op) (raw_digest (dig_SHA256 (po_source op))))"
  proof (rule codes_slot)
    assume r: "po_sourceOp op = wireTransitionReplace"
    then have n: "length (dig_SHA256 (po_source op)) = 32" using v by blast
    show "codes table (whenA (po_sourceOp op = wireTransitionReplace) (bindA (failIf (dig_Path (po_source op) \<noteq> po_path op) m1)
        (\<lambda>_. pw_raw (dig_SHA256 (po_source op))))) (bindR (cursor_raw 32) (\<lambda>raw. retR (raw_digest raw)))
        (\<lambda>_ x. x = raw_digest (dig_SHA256 (po_source op)))"
      unfolding whenA_def if_P[OF r]
      by (intro codes_failIf codes_last[OF codes_raw[of table "dig_SHA256 (po_source op)", unfolded n]])
  qed (simp add: whenA_def)
  show "codes table (whenA (po_entityOp op = wireTransitionReplace) (writeWireTransitionEntityRun (po_path op) (po_entities op) schema))
      (slotR (po_entityOp op) (bindR (decode_entity_run table (sanitize (po_path op)) schema) (\<lambda>es.
         bindR (checkR (es \<noteq> []) m2) (\<lambda>_.
         bindR (checkR (entity_run_is_canonical (sanitize (po_path op)) es) m3) (\<lambda>_. retR es)))))
      (\<lambda>_ x. x = wire_slot (po_entityOp op) (map wire_entity (po_entities op)))"
  proof (rule codes_slot)
    assume r: "po_entityOp op = wireTransitionReplace"
    show "codes table (whenA (po_entityOp op = wireTransitionReplace) (writeWireTransitionEntityRun (po_path op) (po_entities op) schema))
      (bindR (decode_entity_run table (sanitize (po_path op)) schema) (\<lambda>es.
         bindR (checkR (es \<noteq> []) m2) (\<lambda>_.
         bindR (checkR (entity_run_is_canonical (sanitize (po_path op)) es) m3) (\<lambda>_. retR es))))
      (\<lambda>_ x. x = map wire_entity (po_entities op))"
      unfolding whenA_def if_P[OF r]
      by (rule codes_post[OF codes_entityRun[OF len]])
        (use r v entity_run_is_canonical_wire in \<open>auto simp: checkR_def flat\<close>)
  qed (simp add: whenA_def)
  show "codes table (whenA (po_fileOp op = wireTransitionReplace) (bindA (failIf (file_Path (po_file op) \<noteq> po_path op) m4)
        (\<lambda>_. writeWireTransitionFileBody (po_file op))))
      (slotR (po_fileOp op) (decode_file_fact table (sanitize (po_path op))))
      (\<lambda>_ x. x = wire_slot (po_fileOp op) (wire_file (po_file op)))"
  proof (rule codes_slot)
    assume r: "po_fileOp op = wireTransitionReplace"
    then have f: "valid_file (po_file op)" using v by blast
    show "codes table (whenA (po_fileOp op = wireTransitionReplace) (bindA (failIf (file_Path (po_file op) \<noteq> po_path op) m4)
        (\<lambda>_. writeWireTransitionFileBody (po_file op)))) (decode_file_fact table (sanitize (po_path op)))
        (\<lambda>_ x. x = wire_file (po_file op))"
      unfolding whenA_def if_P[OF r] by (rule codes_failIf) (use codes_file[OF len f] in simp)
  qed (simp add: whenA_def)
qed

lemma codes_pathOp:
  assumes len: "length table < 2 ^ 63" and op: "valid_pathOp mode op"
    and order: "\<forall>p \<in> set_option previous. p < sanitize (po_path op)"
  shows "codes table (writeWireTransitionPathOp op schema) (decode_path_op mode schema table previous)
    (\<lambda>_ x. x = (wire_pathOp op, Some (sanitize (po_path op))))"
  unfolding writeWireTransitionPathOp_def
proof (intro codes_failIf codes_lift, goal_cases)
  case (1 flags)
  note t = wireTransitionPathFlags_tags[OF 1(2)] and slots = codes_slots[OF len op]
  have steady: "steady (whenA b (bindA (failIf c m) (\<lambda>_. pw_raw d)))" "steady (whenA b (writeWireTransitionEntityRun path es schema))"
    "steady (whenA b (bindA (failIf c m) (\<lambda>_. writeWireTransitionFileBody f)))" for b c m d path es f
    by (intro steady_when steady_rules steady_failIf steady_entityRun steady_file)+
  have checks: "po_sourceOp op \<noteq> 0 \<or> po_entityOp op \<noteq> 0 \<or> po_fileOp op \<noteq> 0"
    "mode = wireTransitionFull \<longrightarrow> po_sourceOp op \<noteq> 2 \<and> po_entityOp op \<noteq> 2 \<and> po_fileOp op \<noteq> 2"
    using op by (auto simp: valid_pathOp_def wireTransitionUnchanged_def wireTransitionRemove_def)
  show ?case
    unfolding decode_path_op_def run_all.simps Let_def
    apply (rule codes_seq[OF codes_text[OF len] steady_text])
     apply (rule codes_check)
    subgoal using 1 by simp
     apply (rule codes_check[OF order])
     apply (rule codes_seq[OF codes_flags[OF t(4)] steady_u64])
      apply (unfold t)
      apply (intro codes_check[OF t(5)] codes_check[OF checks(1)] codes_check[OF checks(2)]
        codes_seq[OF slots(1) steady(1)] codes_seq[OF slots(2) steady(2)] codes_seq[OF slots(3) steady(3)] codes_ret
        steady_rules steady)
    by (auto simp: wire_pathOp_def intro!: steady_rules steady)
qed

section \<open>Rows in strict order\<close>

lemma codes_ordered:
  assumes row: "\<And>x s. x \<in> set xs \<Longrightarrow> (\<forall>k \<in> set_option s. k < key x) \<Longrightarrow>
      codes table (f x) (r s) (\<lambda>_ p. p = (view x, Some (key x)))"
    and steady: "\<And>x. steady (f x)"
    and order: "sorted_wrt (<) (map key xs)" "\<forall>k \<in> set_option s. \<forall>x \<in> set xs. k < key x"
  shows "codes table (run_all (map f xs)) (timesR (length xs) r s) (\<lambda>_ p. fst p = map view xs)"
  using row order
proof (induction xs arbitrary: s)
  case Nil
  then show ?case by (simp add: codes_ret)
next
  case (Cons x xs)
  have head: "codes table (f x) (r s) (\<lambda>_ p. p = (view x, Some (key x)))" using Cons.prems by auto
  have tail: "codes table (run_all (map f xs)) (timesR (length xs) r (Some (key x))) (\<lambda>_ p. fst p = map view xs)"
    by (rule Cons.IH) (use Cons.prems in auto)
  have "codes table (run_all (map f xs)) (bindR (timesR (length xs) r (Some (key x))) (\<lambda>(ys, s). retR (view x # ys, s)))
    (\<lambda>_ p. fst p = map view (x # xs))"
    by (rule codes_post[OF tail]) (auto split: prod.split)
  then show ?case
    unfolding list.map run_all.simps length_Cons timesR.simps
    by (intro codes_seq[OF head steady _ steady_maps[OF steady]]) simp
qed

lemma run_all_append: "run_all (ms @ ns) = bindA (run_all ms) (\<lambda>_. run_all ns)"
  by (induction ms) (simp_all add: bindA_ret bindA_assoc)

lemma codes_silent: "codes table k r Q \<Longrightarrow> steady k \<Longrightarrow> codes table m (retR ()) (\<lambda>_ _. True) \<Longrightarrow> steady m \<Longrightarrow>
    codes table (bindA m (\<lambda>_. k)) r Q"
  using codes_bind[of table m "retR ()" "\<lambda>_ _. True" "\<lambda>_. k" "\<lambda>_. r" Q] by (simp add: bindR_retR)

lemma codes_internKey: "codes table (internKey s) (retR ()) (\<lambda>_ _. True)"
  by (auto simp: codes_def internKey_def bindA_def pw_intern_def ret_def retR_def split: prod.splits)

lemma steady_internKey: "steady (internKey s)"
  unfolding internKey_def by (intro steadyI growing_rules)

lemma codes_silent_all:
  "(\<And>m. m \<in> set ms \<Longrightarrow> codes table m (retR ()) (\<lambda>_ _. True) \<and> steady m) \<Longrightarrow>
    codes table (run_all ms) (retR ()) (\<lambda>_ _. True) \<and> steady (run_all ms)"
proof (induction ms)
  case (Cons m ms)
  then have "codes table (run_all ms) (retR ()) (\<lambda>_ _. True)" "steady (run_all ms)" by auto
  then show ?case using Cons.prems[of m] by (auto intro!: codes_silent steady_bind)
qed (simp add: codes_ret steady_ret)

lemma codes_internKeys:
  "codes table (internFullOperationKeys target e :: ('a, unit) action) (retR ()) (\<lambda>_ _. True) \<and>
    steady (internFullOperationKeys target e :: ('a, unit) action)"
  "codes table (internOperationKeys e :: ('a, unit) action) (retR ()) (\<lambda>_ _. True) \<and>
    steady (internOperationKeys e :: ('a, unit) action)"
  unfolding internFullOperationKeys_def internOperationKeys_def
  by (rule codes_silent_all; auto simp: whenA_def codes_ret steady_ret codes_internKey steady_internKey)+

lemma codes_symbolRow:
  assumes len: "length table < 2 ^ 62" and op: "valid_symbolOp op" and mode: "mode = wireTransitionFull \<or> mode = wireTransitionDelta"
    and order: "\<forall>k \<in> set_option previous. k < symbol_key (wire_symbolOp op)"
  shows "codes table (writeWireTransitionSymbolOp mode op) (decode_symbol_row mode table previous)
    (\<lambda>_ x. x = (wire_symbolOp op, Some (symbol_key (wire_symbolOp op))))"
  unfolding decode_symbol_row_def
  by (rule codes_post[OF codes_symbolOp[OF len op mode]]) (use order in \<open>simp add: checkR_def flat\<close>)

section \<open>The rows of a transition\<close>

definition planned_paths :: "wireTransitionMode \<Rightarrow> FactTable \<Rightarrow> wireTransitionEncoder \<Rightarrow> wireTransitionPathOp list" where
  "planned_paths mode target e =
     (if mode = wireTransitionFull
      then map (\<lambda>path. fst (wireTransitionPathDifference None target path True True True)) (we_paths e)
      else we_pathOps e)"

definition planned_symbols :: "wireTransitionMode \<Rightarrow> FactTable \<Rightarrow> wireTransitionEncoder \<Rightarrow> wireTransitionSymbolOp list" where
  "planned_symbols mode target e =
     (if mode = wireTransitionFull then map replaceSymbolOp (symbolFacts target) else we_symbolOps e)"

text \<open>What a plan needs to be accepted by the client.\<close>

definition decodable_plan :: "wireTransitionMode \<Rightarrow> FactTable \<Rightarrow> wireTransitionEncoder \<Rightarrow> bool" where
  "decodable_plan mode target e \<longleftrightarrow>
     int (length (planned_paths mode target e)) \<le> PACKED_COLLECTION_LIMIT \<and>
     (\<forall>op \<in> set (planned_paths mode target e). valid_pathOp mode op) \<and>
     sorted_wrt (<) (map (\<lambda>op. sanitize (po_path op)) (planned_paths mode target e)) \<and>
     int (length (planned_symbols mode target e)) \<le> PACKED_COLLECTION_LIMIT \<and>
     (\<forall>op \<in> set (planned_symbols mode target e). valid_symbolOp op) \<and>
     sorted_wrt (<) (map (\<lambda>op. symbol_key (wire_symbolOp op)) (planned_symbols mode target e))"

definition sent_transition ::
    "wireTransitionMode \<Rightarrow> u64 \<Rightarrow> string \<Rightarrow> string \<Rightarrow> FactTable \<Rightarrow> wireTransitionEncoder \<Rightarrow> WireTableTransition" where
  "sent_transition mode baseGeneration projectID baseStateToken target e =
     \<lparr>wtt_mode = mode, wtt_table_schema = schema, wtt_base_generation = baseGeneration,
      wtt_target_generation = ft_Generation target, wtt_project_id = sanitize projectID,
      wtt_base_state_token = sanitize baseStateToken,
      wtt_paths = map wire_pathOp (planned_paths mode target e),
      wtt_symbols = map wire_symbolOp (planned_symbols mode target e)\<rparr>"

lemma codes_paths:
  assumes len: "length table < 2 ^ 63" and plan: "decodable_plan mode target e" and s: "effectiveSchema e = schema"
  shows "codes table (run_all (if mode = wireTransitionFull then map (writeFullPath target (effectiveSchema e)) (we_paths e)
       else map (\<lambda>op. writeWireTransitionPathOp op (effectiveSchema e)) (we_pathOps e)))
    (timesR (length (planned_paths mode target e)) (decode_path_op mode schema table) None)
    (\<lambda>_ p. fst p = map wire_pathOp (planned_paths mode target e))"
proof -
  have row: "codes table (writeWireTransitionPathOp op schema) (decode_path_op mode schema table previous)
      (\<lambda>_ p. p = (wire_pathOp op, Some (sanitize (po_path op))))"
    if "op \<in> set (planned_paths mode target e)" "\<forall>k \<in> set_option previous. k < sanitize (po_path op)" for op previous
    using plan that by (intro codes_pathOp[OF len]) (auto simp: decodable_plan_def)
  have sorted: "sorted_wrt (<) (map (\<lambda>op. sanitize (po_path op)) (planned_paths mode target e))"
    using plan by (simp add: decodable_plan_def)
  show ?thesis
  proof (cases "mode = wireTransitionFull")
    case True
    let ?op = "\<lambda>path. fst (wireTransitionPathDifference None target path True True True)"
    have full: "codes table (writeFullPath target schema path) (decode_path_op mode schema table previous)
        (\<lambda>_ p. p = (wire_pathOp (?op path), Some (sanitize (po_path (?op path)))))"
      if "path \<in> set (we_paths e)" "\<forall>k \<in> set_option previous. k < sanitize (po_path (?op path))" for path previous
      unfolding writeFullPath_def case_prod_beta
      by (rule codes_failIf, rule row) (use that True in \<open>auto simp: planned_paths_def\<close>)
    have steady: "steady (writeFullPath target schema path)" for path
      unfolding writeFullPath_def by (auto split: prod.split intro!: steady_bind steady_failIf steady_pathOp)
    have "codes table (run_all (map (writeFullPath target schema) (we_paths e)))
      (timesR (length (we_paths e)) (decode_path_op mode schema table) None)
      (\<lambda>_ p. fst p = map (\<lambda>path. wire_pathOp (?op path)) (we_paths e))"
      by (rule codes_ordered[where key="\<lambda>path. sanitize (po_path (?op path))", OF full steady])
        (use sorted True in \<open>auto simp: planned_paths_def comp_def\<close>)
    then show ?thesis using True by (simp add: planned_paths_def s comp_def)
  next
    case False
    have "codes table (run_all (map (\<lambda>op. writeWireTransitionPathOp op schema) (we_pathOps e)))
      (timesR (length (we_pathOps e)) (decode_path_op mode schema table) None)
      (\<lambda>_ p. fst p = map wire_pathOp (we_pathOps e))"
      by (rule codes_ordered[where key="\<lambda>op. sanitize (po_path op)", OF row steady_pathOp])
        (use sorted False in \<open>auto simp: planned_paths_def\<close>)
    then show ?thesis using False by (simp add: planned_paths_def s)
  qed
qed

lemma codes_symbols:
  assumes len: "length table < 2 ^ 62" and plan: "decodable_plan mode target e"
    and mode: "mode = wireTransitionFull \<or> mode = wireTransitionDelta"
  shows "codes table (run_all (map (writeWireTransitionSymbolOp mode) (planned_symbols mode target e)))
    (timesR (length (planned_symbols mode target e)) (decode_symbol_row mode table) None)
    (\<lambda>_ p. fst p = map wire_symbolOp (planned_symbols mode target e))"
  by (rule codes_ordered[where key="\<lambda>op. symbol_key (wire_symbolOp op)", OF codes_symbolRow[OF len _ mode] steady_symbolOp])
    (use plan in \<open>auto simp: decodable_plan_def\<close>)

definition symbolRows :: "wireTransitionMode \<Rightarrow> FactTable \<Rightarrow> wireTransitionEncoder \<Rightarrow> ('a, unit) action list" where
  "symbolRows mode target e =
     map (writeWireTransitionSymbolOp mode) (planned_symbols mode target e) @
     (if mode = wireTransitionFull
      then [failIf (length (symbolFacts target) \<noteq> symbolOperationCount mode target e)
        ''encoded full symbol operations differ from their count''] else [])"

lemma writeRows_parts:
  "writeRows mode projectID token target e =
     bindA (pw_text projectID) (\<lambda>_. bindA (pw_text token) (\<lambda>_.
     bindA (if mode = wireTransitionFull then internFullOperationKeys target e else internOperationKeys e) (\<lambda>_.
     bindA (pw_u64 (of_nat (pathOperationCount mode e))) (\<lambda>_.
     bindA (run_all (if mode = wireTransitionFull then map (writeFullPath target (effectiveSchema e)) (we_paths e)
       else map (\<lambda>op. writeWireTransitionPathOp op (effectiveSchema e)) (we_pathOps e))) (\<lambda>_.
     bindA (pw_u64 (of_nat (symbolOperationCount mode target e))) (\<lambda>_. run_all (symbolRows mode target e)))))))"
proof -
  have rows: "(if mode = wireTransitionFull
         then map (\<lambda>f. writeWireTransitionSymbolOp mode (replaceSymbolOp f)) (symbolFacts target) @
           [failIf (length (symbolFacts target) \<noteq> symbolOperationCount mode target e)
              ''encoded full symbol operations differ from their count'']
         else map (writeWireTransitionSymbolOp mode) (we_symbolOps e)) = symbolRows mode target e"
    by (simp add: symbolRows_def planned_symbols_def comp_def)
  show ?thesis
    unfolding writeRows_def rows run_all_append append_Cons append_Nil run_all.simps bindA_assoc bindA_ret ..
qed

lemma codes_symbolRows:
  assumes len: "length table < 2 ^ 62" and plan: "decodable_plan mode target e"
    and mode: "mode = wireTransitionFull \<or> mode = wireTransitionDelta"
  shows "codes table (run_all (symbolRows mode target e))
    (timesR (length (planned_symbols mode target e)) (decode_symbol_row mode table) None)
    (\<lambda>_ p. fst p = map wire_symbolOp (planned_symbols mode target e) \<and>
      length (planned_symbols mode target e) = symbolOperationCount mode target e)"
proof (cases "mode = wireTransitionFull")
  case True
  let ?r = "timesR (length (planned_symbols mode target e)) (decode_symbol_row mode table) None"
  have r: "?r = bindR ?r retR" by (auto simp: bindR_def bind_result_def retR_def fun_eq_iff split: sum.split)
  have "codes table (bindA (run_all (map (writeWireTransitionSymbolOp mode) (planned_symbols mode target e)))
    (\<lambda>_. run_all [failIf (length (symbolFacts target) \<noteq> symbolOperationCount mode target e)
      ''encoded full symbol operations differ from their count'']))
    (bindR ?r retR) (\<lambda>_ p. fst p = map wire_symbolOp (planned_symbols mode target e) \<and>
      length (planned_symbols mode target e) = symbolOperationCount mode target e)"
    unfolding run_all.simps
    by (rule codes_bind[OF codes_symbols[OF len plan mode] steady_maps[OF steady_symbolOp]], rule codes_failIf, rule codes_ret)
      (use True in \<open>auto simp: planned_symbols_def intro!: steady_bind steady_failIf steady_ret\<close>)
  then show ?thesis using True r by (simp add: symbolRows_def run_all_append)
next
  case False
  then show ?thesis
    using codes_weaken[OF codes_symbols[OF len plan mode]]
    by (simp add: symbolRows_def symbolOperationCount_def planned_symbols_def)
qed

lemma steady_rowLists:
  "steady (run_all (if mode = wireTransitionFull then map (writeFullPath target s) (we_paths e)
     else map (\<lambda>op. writeWireTransitionPathOp op s) (we_pathOps e)))"
  "steady (run_all (symbolRows mode target e))"
proof -
  have full: "steady (writeFullPath target s path)" for path
    unfolding writeFullPath_def by (auto split: prod.split intro!: steady_bind steady_failIf steady_pathOp)
  show "steady (run_all (if mode = wireTransitionFull then map (writeFullPath target s) (we_paths e)
     else map (\<lambda>op. writeWireTransitionPathOp op s) (we_pathOps e)))"
    by (auto intro!: steady_maps steady_pathOp full)
  show "steady (run_all (symbolRows mode target e))"
    by (auto simp: symbolRows_def run_all_append intro!: steady_bind steady_failIf steady_ret steady_maps steady_symbolOp)
qed

definition never :: "('a, 'v) action \<Rightarrow> bool" where
  "never m \<longleftrightarrow> (\<forall>w v w'. m w \<noteq> (Inr v, w'))"

lemma never_bind: "never k \<Longrightarrow> never (bindA m (\<lambda>_. k))"
  by (auto simp: never_def bindA_def split: prod.splits sum.splits)

lemma codes_never: "never m \<Longrightarrow> codes table m r Q"
  by (simp add: never_def codes_def)

lemma codes_writeRows:
  assumes len: "length table < 2 ^ 62" and plan: "decodable_plan mode target e" and s: "effectiveSchema e = schema"
    and mode: "mode = wireTransitionFull \<or> mode = wireTransitionDelta"
    and project: "projectID \<noteq> []"
    and base: "mode = wireTransitionFull \<longrightarrow> base = 0 \<and> token = []"
      "mode \<noteq> wireTransitionFull \<longrightarrow> base \<noteq> 0 \<and> token \<noteq> []" "mode \<noteq> wireTransitionFull \<longrightarrow> base \<le> ft_Generation target"
  shows "codes table (writeRows mode projectID token target e) (decode_rows mode schema base (ft_Generation target) table)
    (\<lambda>_ x. x = sent_transition mode base projectID token target e)"
proof (cases "length (planned_symbols mode target e) = symbolOperationCount mode target e")
  case True
  have len': "length table < 2 ^ 63" using len by simp
  have counts: "int (length (planned_paths mode target e)) \<le> PACKED_COLLECTION_LIMIT"
    "int (length (planned_symbols mode target e)) \<le> PACKED_COLLECTION_LIMIT"
    using plan by (auto simp: decodable_plan_def)
  have paths: "pathOperationCount mode e = length (planned_paths mode target e)"
    by (simp add: pathOperationCount_def planned_paths_def)
  note lists = steady_rowLists
  have tail: "codes table (run_all (symbolRows mode target e))
      (bindR (timesR (length (planned_symbols mode target e)) (decode_symbol_row mode table) None) (\<lambda>(symbols, _).
        retR \<lparr>wtt_mode = mode, wtt_table_schema = schema, wtt_base_generation = base,
          wtt_target_generation = ft_Generation target, wtt_project_id = sanitize projectID, wtt_base_state_token = sanitize token,
          wtt_paths = map wire_pathOp (planned_paths mode target e), wtt_symbols = symbols\<rparr>))
      (\<lambda>_ x. x = sent_transition mode base projectID token target e)"
    by (rule codes_post[OF codes_symbolRows[OF len plan mode]]) (auto simp: sent_transition_def split: prod.split)
  have body: "codes table (bindA (run_all (if mode = wireTransitionFull then map (writeFullPath target (effectiveSchema e)) (we_paths e)
       else map (\<lambda>op. writeWireTransitionPathOp op (effectiveSchema e)) (we_pathOps e))) (\<lambda>_.
     bindA (pw_count (planned_symbols mode target e)) (\<lambda>_. run_all (symbolRows mode target e))))
    (bindR (timesR (length (planned_paths mode target e)) (decode_path_op mode schema table) None) (\<lambda>(paths, _).
     bindR cursor_count (\<lambda>symbol_count.
     bindR (timesR symbol_count (decode_symbol_row mode table) None) (\<lambda>(symbols, _).
     retR \<lparr>wtt_mode = mode, wtt_table_schema = schema, wtt_base_generation = base,
       wtt_target_generation = ft_Generation target, wtt_project_id = sanitize projectID, wtt_base_state_token = sanitize token,
       wtt_paths = paths, wtt_symbols = symbols\<rparr>))))
    (\<lambda>_ x. x = sent_transition mode base projectID token target e)"
  proof (rule codes_bind[OF codes_paths[OF len' plan s] lists(1)])
    fix v p assume p: "fst p = map wire_pathOp (planned_paths mode target e)"
    show "codes table (bindA (pw_count (planned_symbols mode target e)) (\<lambda>_. run_all (symbolRows mode target e)))
      (case p of (paths, _) \<Rightarrow> bindR cursor_count (\<lambda>symbol_count.
       bindR (timesR symbol_count (decode_symbol_row mode table) None) (\<lambda>(symbols, _).
       retR \<lparr>wtt_mode = mode, wtt_table_schema = schema, wtt_base_generation = base,
         wtt_target_generation = ft_Generation target, wtt_project_id = sanitize projectID,
         wtt_base_state_token = sanitize token, wtt_paths = paths, wtt_symbols = symbols\<rparr>)))
      (\<lambda>_ x. x = sent_transition mode base projectID token target e)"
      unfolding case_prod_beta[of _ p] p
      by (rule codes_seq[OF codes_count[OF counts(2)] steady_count _ lists(2)]) (rule tail)
  qed (intro steady_bind steady_count lists(2))
  have keys: "codes table (if mode = wireTransitionFull then internFullOperationKeys target e else internOperationKeys e) (retR ()) (\<lambda>_ _. True)"
    "steady (if mode = wireTransitionFull then internFullOperationKeys target e else internOperationKeys e)"
    by (simp_all add: codes_internKeys)
  show ?thesis
    unfolding writeRows_parts decode_rows_def paths True[symmetric] pw_count_def[symmetric]
    by (intro codes_seq[OF codes_text[OF len'] steady_text] codes_check codes_silent[OF _ _ keys]
        codes_seq[OF codes_count[OF counts(1)] steady_count] body steady_bind steady_text steady_count lists keys(2))
      (use project base in simp_all)
next
  case False
  then have full: "mode = wireTransitionFull"
    by (cases "mode = wireTransitionFull") (simp_all add: planned_symbols_def symbolOperationCount_def)
  have "never (run_all (symbolRows mode target e))"
    unfolding symbolRows_def run_all_append
    by (rule never_bind) (use False full in \<open>simp add: planned_symbols_def never_def bindA_def failIf_def fail_def\<close>)
  then show ?thesis unfolding writeRows_parts by (intro codes_never never_bind)
qed

section \<open>The frame\<close>

definition header_reader :: "(wireTransitionMode \<times> u64 \<times> u64 \<times> u64 \<times> string list) reader" where
  "header_reader = bindR cursor_u64 (\<lambda>version.
     bindR (checkR (version = wireTransitionVersion) ''unsupported table transition version'') (\<lambda>_.
     bindR cursor_u64 (\<lambda>mode.
     bindR (checkR (mode = wireTransitionFull \<or> mode = wireTransitionDelta) ''unsupported table transition mode'') (\<lambda>_.
     bindR cursor_u64 (\<lambda>table_schema.
     bindR (checkR (table_schema \<in> wire_table_schemas) ''unsupported Wire table schema'') (\<lambda>_.
     bindR cursor_u64 (\<lambda>base_generation.
     bindR cursor_u64 (\<lambda>target_generation.
     bindR (checkR (target_generation \<noteq> 0) ''table transition target generation is zero'') (\<lambda>_.
     bindR decode_packed_strings (\<lambda>strings.
     bindR (checkR (strings \<noteq> [] \<and> hd strings = []) ''table transition dictionary does not begin with the empty string'') (\<lambda>_.
     bindR (checkR (distinct strings) ''table transition dictionary contains a duplicate string'') (\<lambda>_.
     retR (mode, table_schema, base_generation, target_generation, strings)))))))))))))"

lemma decode_table_transition_parts:
  "decode_table_transition input =
     bind_result (bindR header_reader (\<lambda>(mode, table_schema, base, target, strings). decode_rows mode table_schema base target strings) input)
     (\<lambda>(transition, rest). if rest = [] then Inr transition else Inl (Errorf ''table transition has trailing bytes''))"
  unfolding decode_table_transition_def header_reader_def bindR_assoc bindR_retR prod.case ..

lemma steady_dictionary: "steady (appendPackedDictionary dict)"
  by (rule steadyI) (rule growing.uniform_dictionary)

lemma codes_frame:
  assumes dict: "table_ok dict" "int (length (st_values dict)) \<le> PACKED_COLLECTION_LIMIT" "\<forall>s \<in> set (st_values dict). entry_ok s"
    and mode: "mode = wireTransitionFull \<or> mode = wireTransitionDelta" and target: "target \<noteq> 0"
  shows "codes table (writeFrame mode schema base target dict) header_reader
    (\<lambda>_ x. x = (mode, schema, base, target, st_values dict))"
proof -
  have ok: "schema \<in> wire_table_schemas" "st_values dict \<noteq> [] \<and> hd (st_values dict) = []" "distinct (st_values dict)"
    using dict(1) by (auto simp: schema_defs wire_table_schemas_def table_ok_def)
  show ?thesis
    unfolding writeFrame_def header_reader_def run_all.simps
    by (intro codes_seq[OF codes_u64 steady_u64] codes_check codes_seq[OF codes_dictionary[OF dict(2,3)] steady_dictionary]
        codes_ret refl mode target ok steady_rules steady_dictionary)
qed

text \<open>Writing the frame cannot fail.\<close>

definition succeeds :: "('a, 'v) action \<Rightarrow> bool" where
  "succeeds m \<longleftrightarrow> (\<forall>w. \<exists>v. fst (m w) = Inr v)"

lemma succeeds_rules:
  "succeeds (ret x)" "succeeds (pw_u64 v)" "succeeds (pw_raw bs)"
  by (simp_all add: succeeds_def ret_def pw_u64_def pw_raw_def)

lemma succeeds_bind: "succeeds m \<Longrightarrow> (\<And>x. succeeds (k x)) \<Longrightarrow> succeeds (bindA m k)"
  unfolding succeeds_def
proof (intro allI)
  fix w assume m: "\<forall>w. \<exists>v. fst (m w) = Inr v" and k: "\<And>x. \<forall>w. \<exists>v. fst (k x w) = Inr v"
  obtain v where "fst (m w) = Inr v" using m by blast
  then show "\<exists>v. fst (bindA m k w) = Inr v" using k by (cases "m w") (auto simp: bindA_def)
qed

lemma succeeds_loop: "(\<And>x s. succeeds (f x s)) \<Longrightarrow> succeeds (loopA f xs s)"
  by (induction xs arbitrary: s) (auto intro!: succeeds_rules succeeds_bind)

lemma succeeds_entry: "succeeds (dictionaryEntry str previous)"
  unfolding dictionaryEntry_def Let_def by (auto split: option.split intro!: succeeds_rules succeeds_bind)

lemma succeeds_frame: "succeeds (writeFrame mode s base target dict)"
  unfolding writeFrame_def appendPackedDictionary_def run_all.simps
  by (intro succeeds_bind succeeds_rules succeeds_loop succeeds_entry)

text \<open>The dictionary at the end of the rows.\<close>

definition sent_dictionary :: "wireTransitionMode \<Rightarrow> wireTransitionInput \<Rightarrow> FactTable \<Rightarrow> 'a \<Rightarrow> wireTransitionEncoder \<Rightarrow> stringTableV3" where
  "sent_dictionary mode input target a e =
     pw_dict (snd (writeRows mode (wi_ProjectID input) (wi_BaseStateToken input) target e (rowsWriter None a newStringTableV3)))"

definition decodable_dictionary :: "stringTableV3 \<Rightarrow> bool" where
  "decodable_dictionary dict \<longleftrightarrow> int (length (st_values dict)) \<le> PACKED_COLLECTION_LIMIT \<and>
     (\<forall>s \<in> set (st_values dict). lower_hashed s \<and> int (length s) < 2 ^ 64)"

lemma detached_rowsWriter: "detached (rowsWriter None a newStringTableV3)"
  by (simp add: detached_def rowsWriter_def table_ok_new)

lemma steady_writeRows: "steady (writeRows mode projectID token target e)"
  by (rule steadyI) (rule growing.uniform_writeRows)

lemma codes_run:
  assumes "codes table m r Q" "m w = (Inr v, w')" "detached w" "table.final (pw_dict w') table"
  obtains bs x where "pw_bytes w' = pw_bytes w @ bs" "Q v x" "\<And>rest. r (bs @ rest) = Inr (x, rest)"
  using assms unfolding codes_def by blast

lemma decode_frame:
  assumes rows: "writeRows mode projectID token target e (rowsWriter None a newStringTableV3) = (Inr (), w)"
    and frame: "frame = pw_bytes (snd (writeFrame mode schema base (ft_Generation target) (pw_dict w) (frameWriter b)))"
    and plan: "decodable_plan mode target e" "decodable_dictionary (pw_dict w)" "effectiveSchema e = schema"
    and mode: "mode = wireTransitionFull \<or> mode = wireTransitionDelta" and project: "projectID \<noteq> []" and gen: "ft_Generation target \<noteq> 0"
    and base: "mode = wireTransitionFull \<longrightarrow> base = 0 \<and> token = []"
      "mode \<noteq> wireTransitionFull \<longrightarrow> base \<noteq> 0 \<and> token \<noteq> []" "mode \<noteq> wireTransitionFull \<longrightarrow> base \<le> ft_Generation target"
  shows "decode_table_transition (frame @ pw_bytes w) = Inr (sent_transition mode base projectID token target e)"
proof -
  let ?table = "st_values (pw_dict w)"
  have w: "detached w"
    using steadyD[OF steady_writeRows _ rows, of "[]" "[]"] detached_rowsWriter[of a] by (simp add: after_def)
  have small: "int (length ?table) \<le> PACKED_COLLECTION_LIMIT" using plan(2) by (simp add: decodable_dictionary_def)
  then have len: "length ?table < 2 ^ 62" by (simp add: PACKED_COLLECTION_LIMIT_def)
  then have ok: "table_ok (pw_dict w)" using w by (simp add: detached_def)
  have entries: "\<forall>s \<in> set ?table. entry_ok s"
    using ok plan(2) by (auto simp: entry_ok_def table_ok_def decodable_dictionary_def)
  obtain bs where bs: "pw_bytes w = bs"
    "\<And>rest. decode_rows mode schema base (ft_Generation target) ?table (bs @ rest) =
      Inr (sent_transition mode base projectID token target e, rest)"
    using codes_run[OF codes_writeRows[OF len plan(1,3) mode project base] rows detached_rowsWriter table.final_strings]
    by (auto simp: rowsWriter_def)
  have frame_run: "writeFrame mode schema base (ft_Generation target) (pw_dict w) (frameWriter b) =
      (Inr (), snd (writeFrame mode schema base (ft_Generation target) (pw_dict w) (frameWriter b)))"
  proof -
    have "\<exists>v. fst (writeFrame mode schema base (ft_Generation target) (pw_dict w) (frameWriter b)) = Inr v"
      using succeeds_frame unfolding succeeds_def by blast
    then show ?thesis by (cases "writeFrame mode schema base (ft_Generation target) (pw_dict w) (frameWriter b)") auto
  qed
  have det: "detached (frameWriter b)" by (simp add: detached_def frameWriter_def table_ok_new)
  obtain cs where cs: "frame = cs"
    "\<And>rest. header_reader (cs @ rest) = Inr ((mode, schema, base, ft_Generation target, ?table), rest)"
    using codes_run[OF codes_frame[OF ok small entries mode gen] frame_run det table.final_strings]
    unfolding frame by (auto simp: frameWriter_def)
  show ?thesis
    unfolding decode_table_transition_parts cs(1) bs(1) bindR_def cs(2) using bs(2)[of "[]"] by simp
qed

lemma planTransition_schema:
  "planTransition shared mode sparse base target e = Inr p \<Longrightarrow> we_tableSchema p = we_tableSchema e"
  by (auto simp: planTransition_def bind_result_eq_Inr_iff split: if_splits option.splits prod.splits)

lemma validate_facts:
  assumes "validateWireTransitionInput input = Inr (mode, base)" "wi_Target input = Some target"
  shows "mode = wireTransitionFull \<or> mode = wireTransitionDelta" "wi_ProjectID input \<noteq> []" "ft_Generation target \<noteq> 0"
    "mode = wireTransitionFull \<longrightarrow> base = 0 \<and> wi_BaseStateToken input = []"
    "mode \<noteq> wireTransitionFull \<longrightarrow> base \<noteq> 0 \<and> wi_BaseStateToken input \<noteq> []"
    "mode \<noteq> wireTransitionFull \<longrightarrow> base \<le> ft_Generation target"
  using assms by (auto simp: validateWireTransitionInput_def wireTransitionFull_def wireTransitionDelta_def
      split: if_splits option.splits)

text \<open>
  C2: the frame is the plan. For an input the encoder accepts and whose plan is not the no-op delta, the
  bytes that \<^verbatim>\<open>Encode\<close> returns at the production schema are accepted by the client's strict decoder and
  decode to exactly the planned transition: its identity, and every path and symbol operation with every
  row in it, when the rows are within the client's limits and the keys are strictly ordered.
\<close>

theorem decode_Encode:
  assumes valid: "validateWireTransitionInput input = Inr (mode, base)" "wi_Target input = Some target"
    and plan: "planTransition shared mode (wi_Sparse input) (wi_Base input) target (releasePlan e) = Inr p"
      "\<not> noopDelta mode base target p"
    and schema: "we_tableSchema e = TypeFactsTableSchemaVersion"
    and ok: "decodable_plan mode target p" "decodable_dictionary (sent_dictionary mode input target a p)"
    and run: "Encode shared input a e = (Inr r, e', a')"
  shows "decode_table_transition (et_Bytes r) =
    Inr (sent_transition mode base (wi_ProjectID input) (wi_BaseStateToken input) target p)"
proof -
  let ?q = "p\<lparr>we_dict := Some newStringTableV3\<rparr>"
  have enc: "encodePlanned input target mode base None a p = (Inr r, e', a')"
    using run valid plan by (simp add: Encode_def encode_def)
  have same: "writeRows mode x y target ?q = writeRows mode x y target p" "effectiveSchema (p\<lparr>we_dict := d\<rparr>) = effectiveSchema p" for x y d
    by (simp_all add: writeRows_def pathOperationCount_def symbolOperationCount_def internFullOperationKeys_def
        internOperationKeys_def effectiveSchema_def)
  have es: "effectiveSchema p = schema"
    using planTransition_schema[OF plan(1)] schema by (simp add: effectiveSchema_def releasePlan_def schema_defs)
  obtain w where rows: "writeRows mode (wi_ProjectID input) (wi_BaseStateToken input) target p
      (rowsWriter None a newStringTableV3) = (Inr (), w)"
    and bytes: "et_Bytes r = pw_bytes (snd (writeFrame mode schema base (ft_Generation target) (pw_dict w) (frameWriter (pw_arena w)))) @ pw_bytes w"
  proof (cases "writeRows mode (wi_ProjectID input) (wi_BaseStateToken input) target p (rowsWriter None a newStringTableV3)")
    case (Pair res w)
    have "detached w"
      using steadyD[OF steady_writeRows _ Pair, of "[]" "[]"] detached_rowsWriter[of a] by (simp add: after_def)
    then have fin: "pw_finish w = (pw_err w, w)" by (simp add: detached_def pw_finish_def)
    show ?thesis
      using enc Pair fin that[of w]
      by (cases res; cases "pw_err w")
        (auto simp: encodePlanned_def Let_def resetDictionary_new same es)
  qed
  show ?thesis
    unfolding bytes
    by (rule decode_frame[OF rows refl ok(1) _ es])
      (use validate_facts[OF valid] ok(2) rows in \<open>auto simp: sent_dictionary_def\<close>)
qed

definition frameInput :: wireTransitionInput where
  "frameInput = \<lparr>wi_ProjectID = ''p'', wi_BaseStateToken = ''t'', wi_Base = Some (exampleBase\<lparr>ft_Schema := 1\<rparr>),
     wi_Target = Some (exampleTarget\<lparr>ft_Schema := 1\<rparr>), wi_Sparse = False\<rparr>"

definition frameEncoder :: wireTransitionEncoder where
  "frameEncoder = exampleEncoder\<lparr>we_tableSchema := TypeFactsTableSchemaVersion\<rparr>"

definition framePlan :: wireTransitionEncoder where
  "framePlan =
     (case planTransition (=) wireTransitionDelta False (wi_Base frameInput) (exampleTarget\<lparr>ft_Schema := 1\<rparr>)
        (releasePlan frameEncoder) of Inr p \<Rightarrow> p | Inl _ \<Rightarrow> frameEncoder)"

lemma frameInput_valid: "validateWireTransitionInput frameInput = Inr (wireTransitionDelta, 1)"
  by code_simp

lemma frameInput_plans: "case planTransition (=) wireTransitionDelta False (wi_Base frameInput) (exampleTarget\<lparr>ft_Schema := 1\<rparr>)
    (releasePlan frameEncoder) of Inr p \<Rightarrow> length (we_pathOps p) = 4 \<and> length (we_symbolOps p) = 3 | Inl _ \<Rightarrow> False"
  by code_simp

lemma framePlan_decodable: "decodable_plan wireTransitionDelta (exampleTarget\<lparr>ft_Schema := 1\<rparr>) framePlan"
  by code_simp

lemma framePlan_dictionary:
  "decodable_dictionary (sent_dictionary wireTransitionDelta frameInput (exampleTarget\<lparr>ft_Schema := 1\<rparr>) () framePlan)"
  by code_simp

lemma frameInput_encodes: "case fst (Encode (=) frameInput () frameEncoder) of Inr _ \<Rightarrow> True | Inl _ \<Rightarrow> False"
  by code_simp

theorem decode_Encode_witness:
  "\<exists>r e'. Encode (=) frameInput () frameEncoder = (Inr r, e', ()) \<and>
    decode_table_transition (et_Bytes r) =
      Inr (sent_transition wireTransitionDelta 1 ''p'' ''t'' (exampleTarget\<lparr>ft_Schema := 1\<rparr>) framePlan)"
proof -
  have plan: "planTransition (=) wireTransitionDelta (wi_Sparse frameInput) (wi_Base frameInput)
      (exampleTarget\<lparr>ft_Schema := 1\<rparr>) (releasePlan frameEncoder) = Inr framePlan"
    and work: "\<not> noopDelta wireTransitionDelta 1 (exampleTarget\<lparr>ft_Schema := 1\<rparr>) framePlan"
    using frameInput_plans by (auto simp: framePlan_def frameInput_def noopDelta_def pathOperationCount_def
        wireTransitionDelta_def wireTransitionFull_def split: sum.splits)
  obtain r e' where run: "Encode (=) frameInput () frameEncoder = (Inr r, e', ())"
    using frameInput_encodes by (cases "Encode (=) frameInput () frameEncoder") (auto split: sum.splits)
  have target: "wi_Target frameInput = Some (exampleTarget\<lparr>ft_Schema := 1\<rparr>)" "we_tableSchema frameEncoder = TypeFactsTableSchemaVersion"
    by (simp_all add: frameInput_def frameEncoder_def)
  from decode_Encode[OF frameInput_valid target(1) plan work target(2) framePlan_decodable framePlan_dictionary run] run
  show ?thesis by (auto simp: frameInput_def)
qed

end
