(* ===== verification/Go_State.thy ===== *)
theory Go_State
  imports Prelude
begin

text \<open>
  Stateful code that can return an error. A method of a Go object is a function from the object's state
  to its result and the new state; a state change made before an error return stays, so an error also
  carries the state. The second half is the calculus of the proofs about such code: \<open>wp m Q E s\<close> says
  that \<open>m\<close>, started in \<open>s\<close>, ends with a value and a state related by \<open>Q\<close> or with an error and a state
  related by \<open>E\<close>. The rules for the primitives are equations, so \<open>simp\<close> computes weakest preconditions.
\<close>

section \<open>Sequencing\<close>

type_synonym ('s, 'v) proc = "'s \<Rightarrow> 'v result \<times> 's"

fun thenS :: "'v result \<times> 's \<Rightarrow> ('v \<Rightarrow> ('s, 'u) proc) \<Rightarrow> 'u result \<times> 's" where
  "thenS (Inl e, s) k = (Inl e, s)"
| "thenS (Inr v, s) k = k v s"

definition bindS :: "('s, 'v) proc \<Rightarrow> ('v \<Rightarrow> ('s, 'u) proc) \<Rightarrow> ('s, 'u) proc" where
  "bindS m k s = thenS (m s) k"

definition retS :: "'v \<Rightarrow> ('s, 'v) proc" where "retS v s = (Inr v, s)"
definition failS :: "go_error \<Rightarrow> ('s, 'v) proc" where "failS e s = (Inl e, s)"
definition getS :: "('s \<Rightarrow> 'v) \<Rightarrow> ('s, 'v) proc" where "getS f s = (Inr (f s), s)"
definition modS :: "('s \<Rightarrow> 's) \<Rightarrow> ('s, unit) proc" where "modS f s = (Inr (), f s)"
definition liftS :: "'v result \<Rightarrow> ('s, 'v) proc" where "liftS r s = (r, s)"

fun loopS :: "('x \<Rightarrow> 'a \<Rightarrow> ('s, 'a) proc) \<Rightarrow> 'x list \<Rightarrow> 'a \<Rightarrow> ('s, 'a) proc" where
  "loopS f [] a s = (Inr a, s)"
| "loopS f (x # xs) a s = thenS (f x a s) (loopS f xs)"

text \<open>A deferred function runs on every return path.\<close>

definition deferS :: "('v result \<Rightarrow> 's \<Rightarrow> 's) \<Rightarrow> ('s, 'v) proc \<Rightarrow> ('s, 'v) proc" where
  "deferS f m s = (case m s of (r, s') \<Rightarrow> (r, f r s'))"

text \<open>A method of a part of the state.\<close>

definition partS :: "('s \<Rightarrow> 'p) \<Rightarrow> ('p \<Rightarrow> 's \<Rightarrow> 's) \<Rightarrow> ('p, 'v) proc \<Rightarrow> ('s, 'v) proc" where
  "partS part update m s = (case m (part s) of (r, p) \<Rightarrow> (r, update p s))"

text \<open>The code that handles an error of a call.\<close>

definition catchS :: "('s, 'v) proc \<Rightarrow> (go_error \<Rightarrow> ('s, 'v) proc) \<Rightarrow> ('s, 'v) proc" where
  "catchS m h s = (case m s of (Inl e, s') \<Rightarrow> h e s' | (Inr v, s') \<Rightarrow> (Inr v, s'))"

section \<open>Weakest preconditions\<close>

definition outcome :: "('v \<Rightarrow> 's \<Rightarrow> bool) \<Rightarrow> (go_error \<Rightarrow> 's \<Rightarrow> bool) \<Rightarrow> 'v result \<times> 's \<Rightarrow> bool" where
  "outcome Q E r = (case r of (Inr v, s) \<Rightarrow> Q v s | (Inl e, s) \<Rightarrow> E e s)"

definition wp :: "('s, 'v) proc \<Rightarrow> ('v \<Rightarrow> 's \<Rightarrow> bool) \<Rightarrow> (go_error \<Rightarrow> 's \<Rightarrow> bool) \<Rightarrow> 's \<Rightarrow> bool" where
  "wp m Q E s = outcome Q E (m s)"

lemma outcome_simps [simp]: "outcome Q E (Inr v, s) = Q v s" "outcome Q E (Inl e, s) = E e s"
  by (simp_all add: outcome_def)

named_theorems wp_rules \<open>equations that compute weakest preconditions\<close>

lemma wp_bindS [wp_rules]: "wp (bindS m k) Q E = wp m (\<lambda>v. wp (k v) Q E) E"
  by (rule ext, rename_tac s, case_tac "m s"; case_tac "fst (m s)") (auto simp: wp_def bindS_def)

lemma wp_retS [wp_rules]: "wp (retS v) Q E = Q v"
  by (rule ext) (simp add: wp_def retS_def)

lemma wp_failS [wp_rules]: "wp (failS e) Q E = E e"
  by (rule ext) (simp add: wp_def failS_def)

lemma wp_getS [wp_rules]: "wp (getS f) Q E = (\<lambda>s. Q (f s) s)"
  by (rule ext) (simp add: wp_def getS_def)

lemma wp_modS [wp_rules]: "wp (modS g) Q E = (\<lambda>s. Q () (g s))"
  by (rule ext) (simp add: wp_def modS_def)

lemma wp_liftS [wp_rules]: "wp (liftS r) Q E s = (case r of Inr v \<Rightarrow> Q v s | Inl e \<Rightarrow> E e s)"
  by (cases r) (simp_all add: wp_def liftS_def)

lemma wp_if [wp_rules]: "wp (if b then m else n) Q E s = (if b then wp m Q E s else wp n Q E s)"
  by simp

lemma wp_case_prod: "wp (case x of (a, b) \<Rightarrow> f a b) Q E = (case x of (a, b) \<Rightarrow> wp (f a b) Q E)"
  by (cases x) simp

lemma wp_deferS [wp_rules]: "wp (deferS f m) Q E s = wp m (\<lambda>v s. Q v (f (Inr v) s)) (\<lambda>e s. E e (f (Inl e) s)) s"
  by (cases "m s"; cases "fst (m s)") (auto simp: wp_def deferS_def)

lemma wp_catchS [wp_rules]: "wp (catchS m h) Q E s = wp m Q (\<lambda>e. wp (h e) Q E) s"
  by (cases "m s"; cases "fst (m s)") (auto simp: wp_def catchS_def)

lemma wp_partS [wp_rules]:
  "wp (partS part update m) Q E s = wp m (\<lambda>v p. Q v (update p s)) (\<lambda>e p. E e (update p s)) (part s)"
  by (cases "m (part s)"; cases "fst (m (part s))") (auto simp: wp_def partS_def)

lemma wp_mono:
  assumes "wp m Q E s" and "\<And>v s. Q v s \<Longrightarrow> Q' v s" and "\<And>e s. E e s \<Longrightarrow> E' e s"
  shows "wp m Q' E' s"
  using assms by (cases "m s"; cases "fst (m s)") (auto simp: wp_def)

text \<open>A method whose result is known.\<close>

lemma wp_result: "m s = (Inr v, s') \<Longrightarrow> wp m Q E s \<longleftrightarrow> Q v s'"
  by (simp add: wp_def)

lemma wp_Inr: "wp m Q E s \<Longrightarrow> m s = (Inr v, s') \<Longrightarrow> Q v s'"
  by (simp add: wp_def)

lemma wp_Inl: "wp m Q E s \<Longrightarrow> m s = (Inl e, s') \<Longrightarrow> E e s'"
  by (simp add: wp_def)

lemma wp_conj: "wp m (\<lambda>v s. Q v s \<and> Q' v s) (\<lambda>e s. E e s \<and> E' e s) s \<longleftrightarrow> wp m Q E s \<and> wp m Q' E' s"
  by (cases "m s"; cases "fst (m s)") (auto simp: wp_def)

text \<open>A loop keeps an invariant that is indexed by the part of the list already visited.\<close>

lemma wp_loopS:
  assumes "I [] a s"
    and "\<And>done' x rest a s. xs = done' @ x # rest \<Longrightarrow> I done' a s \<Longrightarrow> wp (f x a) (I (done' @ [x])) E s"
  shows "wp (loopS f xs a) (I xs) E s"
proof -
  have "wp (loopS f rest a) (I xs) E s" if "xs = done' @ rest" "I done' a s" for done' rest a s
    using that
  proof (induction rest arbitrary: done' a s)
    case Nil
    then show ?case by (simp add: wp_def)
  next
    case (Cons x rest)
    have "wp (f x a) (I (done' @ [x])) E s" using Cons.prems by (rule assms(2))
    then show ?case
    proof (cases "f x a s")
      case (Pair r s')
      show ?thesis
      proof (cases r)
        case (Inl e)
        then show ?thesis using \<open>wp (f x a) (I (done' @ [x])) E s\<close> Pair by (simp add: wp_def)
      next
        case (Inr b)
        then have "I (done' @ [x]) b s'" using \<open>wp (f x a) (I (done' @ [x])) E s\<close> Pair by (simp add: wp_def)
        then have "wp (loopS f rest b) (I xs) E s'" using Cons.prems(1) by (intro Cons.IH[of "done' @ [x]"]) auto
        then show ?thesis using Pair Inr by (simp add: wp_def)
      qed
    qed
  qed
  from this[of "[]" xs a s] show ?thesis using assms(1) by simp
qed

lemma wp_loopS_simple:
  assumes "I a s" and "\<And>x a s. x \<in> set xs \<Longrightarrow> I a s \<Longrightarrow> wp (f x a) I E s"
  shows "wp (loopS f xs a) I E s"
  using assms by (intro wp_loopS[where I = "\<lambda>_. I"]) auto

section \<open>Invariants\<close>

text \<open>A method that keeps a property of the state on every return path.\<close>

definition keeps :: "('s \<Rightarrow> bool) \<Rightarrow> ('s, 'v) proc \<Rightarrow> bool" where
  "keeps I m \<longleftrightarrow> (\<forall>s. I s \<longrightarrow> wp m (\<lambda>_. I) (\<lambda>_. I) s)"

lemma keepsI: "(\<And>s. I s \<Longrightarrow> wp m (\<lambda>_. I) (\<lambda>_. I) s) \<Longrightarrow> keeps I m"
  by (simp add: keeps_def)

lemma keepsD: "keeps I m \<Longrightarrow> I s \<Longrightarrow> wp m (\<lambda>_. I) (\<lambda>_. I) s"
  by (simp add: keeps_def)

named_theorems keeps_rules \<open>introduction rules for invariants\<close>

lemma keeps_bindS [keeps_rules]: "keeps I m \<Longrightarrow> (\<And>v. keeps I (k v)) \<Longrightarrow> keeps I (bindS m k)"
  by (rule keepsI, unfold wp_bindS) (rule wp_mono[OF keepsD[of I m]], auto intro: keepsD)

lemma keeps_retS [keeps_rules]: "keeps I (retS v)"
  by (simp add: keeps_def wp_rules)

lemma keeps_failS [keeps_rules]: "keeps I (failS e)"
  by (simp add: keeps_def wp_rules)

lemma keeps_getS [keeps_rules]: "keeps I (getS f)"
  by (simp add: keeps_def wp_rules)

lemma keeps_liftS [keeps_rules]: "keeps I (liftS r)"
  by (simp add: keeps_def wp_rules split: sum.split)

lemma keeps_modS [keeps_rules]: "(\<And>s. I s \<Longrightarrow> I (f s)) \<Longrightarrow> keeps I (modS f)"
  by (simp add: keeps_def wp_rules)

lemma keeps_if [keeps_rules]: "(b \<Longrightarrow> keeps I m) \<Longrightarrow> (\<not> b \<Longrightarrow> keeps I n) \<Longrightarrow> keeps I (if b then m else n)"
  by simp

lemma keeps_case_prod [keeps_rules]: "(\<And>a b. x = (a, b) \<Longrightarrow> keeps I (f a b)) \<Longrightarrow> keeps I (case x of (a, b) \<Rightarrow> f a b)"
  by (cases x) simp

lemma keeps_case_option [keeps_rules]:
  "(x = None \<Longrightarrow> keeps I m) \<Longrightarrow> (\<And>a. x = Some a \<Longrightarrow> keeps I (f a)) \<Longrightarrow>
   keeps I (case x of None \<Rightarrow> m | Some a \<Rightarrow> f a)"
  by (cases x) simp_all

lemma keeps_Let [keeps_rules]: "keeps I (f x) \<Longrightarrow> keeps I (Let x f)"
  by simp

lemma keeps_catchS [keeps_rules]: "keeps I m \<Longrightarrow> (\<And>e. keeps I (h e)) \<Longrightarrow> keeps I (catchS m h)"
  by (rule keepsI, unfold wp_catchS) (rule wp_mono[OF keepsD[of I m]], auto intro: keepsD)

lemma keeps_loopS [keeps_rules]: "(\<And>x a. x \<in> set xs \<Longrightarrow> keeps I (f x a)) \<Longrightarrow> keeps I (loopS f xs a)"
  by (rule keepsI, rule wp_loopS_simple[where I = "\<lambda>_. I"]) (auto intro: keepsD)

lemma keeps_partS:
  assumes "\<And>s. I s \<Longrightarrow> J s (part s)" and "\<And>s. I s \<Longrightarrow> keeps (J s) m"
    and "\<And>s p. I s \<Longrightarrow> J s p \<Longrightarrow> I (update p s)"
  shows "keeps I (partS part update m)"
proof (rule keepsI, unfold wp_partS)
  fix s
  assume "I s"
  then show "wp m (\<lambda>v p. I (update p s)) (\<lambda>e p. I (update p s)) (part s)"
    by (intro wp_mono[OF keepsD[of "J s" m "part s"]]) (simp_all add: assms)
qed

lemma keeps_True: "keeps (\<lambda>_. True) m"
  by (rule keepsI) (simp add: wp_def outcome_def split: prod.split sum.split)

lemma keeps_result: "keeps I m \<Longrightarrow> I s \<Longrightarrow> m s = (r, s') \<Longrightarrow> I s'"
  using keepsD[of I m s] by (cases r) (auto simp: wp_def)

end
