(* ===== verification/Protocol.thy ===== *)
theory Protocol
  imports Compact_Demands
begin

text \<open>
  The lifecycle messages of \<^verbatim>\<open>protocolv3.go\<close> with their validation, and the data that crosses the
  project seam of \<^verbatim>\<open>typefacts.go\<close> (source files, file changes, the module graph). The duration fields
  of a response are not modelled: they are readings of the clock that nothing in the producer reads.
\<close>

section \<open>The project seam\<close>

record FileChange =
  fc_Path :: string
  fc_Version :: u64
  fc_Source :: bytes
  fc_Deleted :: bool

record SourceFile =
  sf_Path :: string
  sf_Source :: bytes

record ProjectReferenceMapping =
  prm_Source :: string
  prm_OutputDts :: string

record ModuleFact =
  mf_Path :: string
  mf_DeclarationFile :: bool
  mf_Format :: string
  mf_ProjectReference :: "ProjectReferenceMapping option"
  mf_RedirectTargets :: "string list"

record PackageIdentity =
  pi_ManifestPath :: string
  pi_Name :: string
  pi_Version :: string

record ResolverPackageID =
  rp_Name :: string
  rp_Subpath :: string
  rp_Version :: string
  rp_PeerDependencies :: string

record ModuleImportFact =
  mi_Specifier :: Location
  mi_Text :: string
  mi_Resolution :: string
  mi_ResolvedPath :: string
  mi_IncludedPath :: string
  mi_SymlinkPath :: string
  mi_Extension :: string
  mi_TSExtension :: bool
  mi_PathsPattern :: string
  mi_Package :: "PackageIdentity option"
  mi_ResolverPackage :: "ResolverPackageID option"

record ModuleInventoryDemand =
  mid_Imports :: bool
  mid_ImportPaths :: "string list"
  mid_Packages :: bool

record ModuleInventory =
  inv_Modules :: "ModuleFact list"
  inv_Imports :: "ModuleImportFact list"
  inv_UnknownImportPaths :: "string list"

record SymbolQueryV6 =
  sq_ID :: SymbolID
  sq_References :: bool
  sq_ReferencesOnly :: bool

section \<open>Requests\<close>

definition TypeFactsSchemaVersionV1 :: u64 where "TypeFactsSchemaVersionV1 = 1"

type_synonym LifecycleOperation = string

definition LifecycleOpen :: LifecycleOperation where "LifecycleOpen = ''open''"
definition LifecycleUpdate :: LifecycleOperation where "LifecycleUpdate = ''update''"
definition LifecycleAnalyze :: LifecycleOperation where "LifecycleAnalyze = ''analyze''"
definition LifecycleSymbols :: LifecycleOperation where "LifecycleSymbols = ''symbols''"
definition LifecycleSources :: LifecycleOperation where "LifecycleSources = ''sources''"
definition LifecycleModules :: LifecycleOperation where "LifecycleModules = ''modules''"
definition LifecycleCancel :: LifecycleOperation where "LifecycleCancel = ''cancel''"
definition LifecycleClose :: LifecycleOperation where "LifecycleClose = ''close''"

lemmas lifecycle_operation_defs =
  LifecycleOpen_def LifecycleUpdate_def LifecycleAnalyze_def LifecycleSymbols_def
  LifecycleSources_def LifecycleModules_def LifecycleCancel_def LifecycleClose_def

record FileChangeV3 =
  fcv_Path :: string
  fcv_Version :: u64
  fcv_Source :: bytes
  fcv_Deleted :: bool

record LifecycleRequest =
  rq_Schema :: u64
  rq_RequestID :: u64
  rq_Operation :: LifecycleOperation
  rq_ProjectID :: string
  rq_Generation :: u64
  rq_Changes :: "FileChangeV3 list"
  rq_Demands :: "EntityDemand list"
  rq_CompactDemands :: "CompactDemandsV3 option"
  rq_StateToken :: string
  rq_ResetState :: bool
  rq_RemovedDemandPaths :: "string list"
  rq_SymbolQueries :: "SymbolQueryV6 list"
  rq_ReleaseAnalysis :: bool
  rq_ReferenceChanges :: bool
  rq_ReferencePaths :: "string list"
  rq_CancelRequestID :: u64
  rq_ModuleGraph :: "ModuleInventoryDemand option"

definition ValidateLifecycleRequest :: "LifecycleRequest \<Rightarrow> go_error option" where
  "ValidateLifecycleRequest request =
     (if rq_Schema request \<noteq> TypeFactsSchemaVersionV1
      then Some (Errorf ''unsupported TypeFacts schema'')
      else if rq_RequestID request = 0 \<or> rq_ProjectID request = [] \<or> rq_Generation request = 0
      then Some ErrGenerationMismatch
      else if rq_Operation request \<in> {LifecycleOpen, LifecycleUpdate, LifecycleAnalyze, LifecycleSymbols,
          LifecycleSources, LifecycleModules, LifecycleCancel, LifecycleClose}
      then None
      else Some (Errorf ''unsupported lifecycle operation''))"

section \<open>Responses\<close>

text \<open>The message is the text of the error value; the model keeps the value.\<close>

record LifecycleError =
  le_Code :: string
  le_Message :: go_error

record SourceFileV3 =
  sfv_Path :: string
  sfv_Source :: bytes
  sfv_Local :: bool

record LifecycleTimings =
  lt_Materialized :: bool
  lt_RetainedFiles :: u64
  lt_RecomputedFiles :: u64
  lt_NonDurableFiles :: u64

record LifecycleResponse =
  rs_Schema :: u64
  rs_RequestID :: u64
  rs_ProjectID :: string
  rs_Generation :: u64
  rs_OK :: bool
  rs_TableTransition :: bytes
  rs_SymbolEvidence :: "SymbolFact list"
  rs_ReferenceEvidence :: "SymbolFact list"
  rs_ChangedReferenceSymbols :: "SymbolID list"
  rs_ReferenceChangesExact :: bool
  rs_StateToken :: string
  rs_Affected :: "string list"
  rs_Sources :: "SourceFileV3 list"
  rs_SourceArena :: string
  rs_SourceLengths :: "u64 list"
  rs_Timings :: "LifecycleTimings option"
  rs_Error :: "LifecycleError option"
  rs_Modules :: "ModuleFact list"
  rs_ModuleImports :: "ModuleImportFact list"
  rs_UnknownImportPaths :: "string list"

end
