(* ===== verification/Service_Frames.thy ===== *)
theory Service_Frames
  imports Go_State Protocol
begin

text \<open>
  The frames of the service (\<^verbatim>\<open>cmd/solid-typefacts/main.go\<close>): a payload behind a little-endian length
  of four bytes, bounded by \<^verbatim>\<open>wirecbor.MaxMessageBytes\<close>, and the response writer, which marshals a
  response in one piece or, when it carries a large transition, as the fragments of a deterministic CBOR
  map around the borrowed bytes. The CBOR library is a parameter. An \<^verbatim>\<open>io.Reader\<close> is the bytes that are
  still to arrive and the error that ends them; an \<^verbatim>\<open>io.Writer\<close> is a procedure on its state.
\<close>

unbundle bit_operations_syntax

section \<open>Integers in a byte order\<close>

definition putLE :: "nat \<Rightarrow> 'a::len word \<Rightarrow> bytes" where
  "putLE n v = map (\<lambda>i. ucast (drop_bit (8 * i) v)) [0..<n]"

definition getLE :: "bytes \<Rightarrow> 'a::len word" where
  "getLE bs = foldr (\<lambda>b acc. push_bit 8 acc OR ucast b) bs 0"

definition putBE :: "nat \<Rightarrow> 'a::len word \<Rightarrow> bytes" where
  "putBE n v = rev (putLE n v)"

definition getBE :: "bytes \<Rightarrow> 'a::len word" where
  "getBE bs = getLE (rev bs)"

lemma getLE_step:
  "8 * n \<le> LENGTH('a) \<Longrightarrow> push_bit 8 (take_bit (8 * n) (drop_bit 8 x)) OR ucast (ucast x :: u8) =
     take_bit (8 * Suc n) (x :: 'a::len word)"
  by (rule bit_word_eqI) (auto simp: bit_simps)

lemma getLE_bytes:
  "8 * n \<le> LENGTH('a) \<Longrightarrow>
   getLE (map (\<lambda>i. ucast (drop_bit (8 * i) v)) [k..<k + n]) = take_bit (8 * n) (drop_bit (8 * k) (v :: 'a::len word))"
proof (induction n arbitrary: k)
  case 0
  then show ?case by (simp add: getLE_def)
next
  case (Suc n)
  have "[k..<k + Suc n] = k # [Suc k..<Suc k + n]" by (simp add: upt_conv_Cons)
  then have "getLE (map (\<lambda>i. ucast (drop_bit (8 * i) v)) [k..<k + Suc n]) =
      push_bit 8 (getLE (map (\<lambda>i. ucast (drop_bit (8 * i) v)) [Suc k..<Suc k + n])) OR
      ucast (ucast (drop_bit (8 * k) v) :: u8)"
    by (simp add: getLE_def)
  also have "\<dots> = take_bit (8 * Suc n) (drop_bit (8 * k) v)"
    using Suc.prems Suc.IH[of "Suc k"] getLE_step[of n "drop_bit (8 * k) v"] by simp
  finally show ?case .
qed

lemma length_putLE [simp]: "length (putLE n v) = n" "length (putBE n v) = n"
  by (simp_all add: putLE_def putBE_def)

lemma getLE_putLE:
  assumes "8 * n = LENGTH('a)"
  shows "getLE (putLE n v) = (v :: 'a::len word)" and "getBE (putBE n v) = v"
proof -
  show le: "getLE (putLE n v) = v"
    using assms getLE_bytes[of n v 0] by (simp add: putLE_def take_bit_word_eq_self)
  then show "getBE (putBE n v) = v" by (simp add: getBE_def putBE_def)
qed

section \<open>Frames\<close>

definition MaxMessageBytes :: int where "MaxMessageBytes = 67108864"

definition ErrEOF :: go_error where "ErrEOF = ErrBackend ''EOF''"
definition ErrUnexpectedEOF :: go_error where "ErrUnexpectedEOF = ErrBackend ''unexpected EOF''"

record frameReader =
  rd_bytes :: bytes
  rd_end :: go_error

text \<open>\<^verbatim>\<open>io.ReadFull\<close>: the end of the input inside a read is unexpected, at its start it is passed on.\<close>

definition ReadFull :: "nat \<Rightarrow> (frameReader, bytes) proc" where
  "ReadFull n r =
     (if n \<le> length (rd_bytes r) then (Inr (take n (rd_bytes r)), r\<lparr>rd_bytes := drop n (rd_bytes r)\<rparr>)
      else (Inl (if rd_end r = ErrEOF \<and> rd_bytes r \<noteq> [] then ErrUnexpectedEOF else rd_end r), r\<lparr>rd_bytes := []\<rparr>))"

definition readFrame :: "(frameReader, bytes) proc" where
  "readFrame =
     bindS (ReadFull 4) (\<lambda>prefix.
       let len = (getLE prefix :: 32 word) in
       if MaxMessageBytes < uint len then failS (Errorf ''request exceeds the message limit'')
       else ReadFull (unat len))"

type_synonym 'o writer = "bytes \<Rightarrow> ('o, unit) proc"

definition writeFrameHeader :: "'o writer \<Rightarrow> nat \<Rightarrow> ('o, unit) proc" where
  "writeFrameHeader wr len =
     (if MaxMessageBytes < int len then failS (Errorf ''response exceeds the message limit'')
      else wr (putLE 4 (of_nat len :: 32 word)))"

definition writeFrame :: "'o writer \<Rightarrow> bytes \<Rightarrow> ('o, unit) proc" where
  "writeFrame wr payload = bindS (writeFrameHeader wr (length payload)) (\<lambda>_. wr payload)"

text \<open>The writer that appends to a buffer.\<close>

definition bufferWrite :: "bytes writer" where
  "bufferWrite chunk buffer = (Inr (), buffer @ chunk)"

section \<open>Responses\<close>

definition appendCBORByteStringHeader :: "bytes \<Rightarrow> nat \<Rightarrow> bytes" where
  "appendCBORByteStringHeader target len =
     (if len < 24 then target @ [0x40 OR of_nat len]
      else if int len \<le> 0xff then target @ [0x58, of_nat len]
      else if int len \<le> 0xffff then target @ [0x59] @ putBE 2 (of_nat len :: 16 word)
      else if int len \<le> 0xffffffff then target @ [0x5a] @ putBE 4 (of_nat len :: 32 word)
      else target @ [0x5b] @ putBE 8 (of_nat len :: 64 word))"

text \<open>The values that the fields of a response hand to the CBOR library.\<close>

datatype fieldValue =
    FieldUint u64
  | FieldText string
  | FieldBool bool
  | FieldTexts "string list"
  | FieldUints "u64 list"
  | FieldSources "SourceFileV3 list"
  | FieldSymbols "SymbolFact list"
  | FieldModules "ModuleFact list"
  | FieldImports "ModuleImportFact list"
  | FieldTimings "LifecycleTimings option"
  | FieldError "LifecycleError option"

record Marshaller =
  ms_field :: "fieldValue \<Rightarrow> bytes result"
  ms_response :: "LifecycleResponse \<Rightarrow> bytes result"

record lifecycleResponseChunk =
  ch_key :: bytes
  ch_value :: bytes

definition addField :: "Marshaller \<Rightarrow> string \<times> fieldValue \<Rightarrow> lifecycleResponseChunk result" where
  "addField m = (\<lambda>(key, field).
     bind_result (ms_field m (FieldText key)) (\<lambda>encodedKey.
     bind_result (ms_field m field) (\<lambda>encodedValue. Inr \<lparr>ch_key = encodedKey, ch_value = encodedValue\<rparr>)))"

definition requiredFields :: "LifecycleResponse \<Rightarrow> (string \<times> fieldValue) list" where
  "requiredFields r = [(''schema'', FieldUint (rs_Schema r)), (''requestId'', FieldUint (rs_RequestID r)),
     (''projectId'', FieldText (rs_ProjectID r)), (''generation'', FieldUint (rs_Generation r)),
     (''ok'', FieldBool (rs_OK r))]"

definition optionalFields :: "LifecycleResponse \<Rightarrow> (bool \<times> string \<times> fieldValue) list" where
  "optionalFields r = [
     (rs_StateToken r \<noteq> [], ''stateToken'', FieldText (rs_StateToken r)),
     (rs_Affected r \<noteq> [], ''affected'', FieldTexts (rs_Affected r)),
     (rs_Sources r \<noteq> [], ''sources'', FieldSources (rs_Sources r)),
     (rs_SourceArena r \<noteq> [], ''sourceArena'', FieldText (rs_SourceArena r)),
     (rs_SourceLengths r \<noteq> [], ''sourceLengths'', FieldUints (rs_SourceLengths r)),
     (rs_SymbolEvidence r \<noteq> [], ''symbolEvidence'', FieldSymbols (rs_SymbolEvidence r)),
     (rs_ReferenceEvidence r \<noteq> [], ''referenceEvidence'', FieldSymbols (rs_ReferenceEvidence r)),
     (rs_ChangedReferenceSymbols r \<noteq> [], ''changedReferenceSymbols'', FieldTexts (rs_ChangedReferenceSymbols r)),
     (rs_ReferenceChangesExact r, ''referenceChangesExact'', FieldBool (rs_ReferenceChangesExact r)),
     (rs_Modules r \<noteq> [], ''modules'', FieldModules (rs_Modules r)),
     (rs_ModuleImports r \<noteq> [], ''moduleImports'', FieldImports (rs_ModuleImports r)),
     (rs_UnknownImportPaths r \<noteq> [], ''unknownImportPaths'', FieldTexts (rs_UnknownImportPaths r)),
     (rs_Timings r \<noteq> None, ''timings'', FieldTimings (rs_Timings r)),
     (rs_Error r \<noteq> None, ''error'', FieldError (rs_Error r))]"

definition chunkFields :: "LifecycleResponse \<Rightarrow> (string \<times> fieldValue) list" where
  "chunkFields r = requiredFields r @ map snd (filter fst (optionalFields r))"

text \<open>The transition follows the header of its byte string without a copy.\<close>

definition fieldChunks :: "bytes \<Rightarrow> bytes \<Rightarrow> lifecycleResponseChunk \<Rightarrow> bytes list" where
  "fieldChunks transitionKey transition field =
     [ch_key field, ch_value field] @ (if ch_key field = transitionKey then [transition] else [])"

definition fieldSize :: "bytes \<Rightarrow> bytes \<Rightarrow> lifecycleResponseChunk \<Rightarrow> nat \<Rightarrow> nat" where
  "fieldSize transitionKey transition field acc =
     (let acc = acc + length (ch_key field) + length (ch_value field)
      in if ch_key field = transitionKey then acc + length transition else acc)"

definition lifecycleResponseChunks :: "Marshaller \<Rightarrow> LifecycleResponse \<Rightarrow> (bytes list \<times> nat) result" where
  "lifecycleResponseChunks m r =
     bind_result (map_result (addField m) (chunkFields r)) (\<lambda>fields.
     bind_result (ms_field m (FieldText ''tableTransition'')) (\<lambda>transitionKey.
       let transition = rs_TableTransition r;
           fields = sort_key ch_key (fields @ [\<lparr>ch_key = transitionKey,
             ch_value = appendCBORByteStringHeader [] (length transition)\<rparr>])
       in Inr ([0xa0 OR of_nat (length fields)] # concat (map (fieldChunks transitionKey transition) fields),
            fold (fieldSize transitionKey transition) fields 1)))"

definition largeTransition :: int where "largeTransition = 1048576"

record 'o bufioWriter =
  bw_Write :: "'o writer"
  bw_Flush :: "('o, unit) proc"

definition writeLifecycleResponse :: "'o bufioWriter \<Rightarrow> Marshaller \<Rightarrow> LifecycleResponse \<Rightarrow> ('o, nat) proc" where
  "writeLifecycleResponse out m r =
     (if largeTransition \<le> int (length (rs_TableTransition r))
      then
        bindS (liftS (lifecycleResponseChunks m r)) (\<lambda>(chunks, encodedSize).
        bindS (writeFrameHeader (bw_Write out) encodedSize) (\<lambda>_.
        bindS (loopS (\<lambda>chunk _. bw_Write out chunk) chunks ()) (\<lambda>_.
        bindS (bw_Flush out) (\<lambda>_. retS encodedSize))))
      else
        bindS (liftS (ms_response m r)) (\<lambda>encoded.
        bindS (writeFrame (bw_Write out) encoded) (\<lambda>_.
        bindS (bw_Flush out) (\<lambda>_. retS (length encoded)))))"

section \<open>Reading and writing\<close>

lemma writeFrame_buffer:
  "writeFrame bufferWrite p buffer =
     (if MaxMessageBytes < int (length p) then (Inl (Errorf ''response exceeds the message limit''), buffer)
      else (Inr (), buffer @ putLE 4 (of_nat (length p) :: 32 word) @ p))"
  by (simp add: writeFrame_def writeFrameHeader_def bindS_def bufferWrite_def failS_def)

lemma frame_length:
  assumes "int n \<le> MaxMessageBytes"
  shows "unat (of_nat n :: 32 word) = n" and "uint (of_nat n :: 32 word) = int n"
proof -
  have "n < 2 ^ 32" using assms by (simp add: MaxMessageBytes_def)
  then show "unat (of_nat n :: 32 word) = n" by (simp add: unat_of_nat take_bit_nat_eq_self)
  then show "uint (of_nat n :: 32 word) = int n" using uint_nat[of "of_nat n :: 32 word"] by simp
qed

lemma readFrame_frame:
  assumes "int (length p) \<le> MaxMessageBytes" and "rd_bytes r = putLE 4 (of_nat (length p) :: 32 word) @ p @ rest"
  shows "readFrame r = (Inr p, r\<lparr>rd_bytes := rest\<rparr>)"
  using assms frame_length[OF assms(1)]
  by (simp add: readFrame_def bindS_def ReadFull_def Let_def getLE_putLE failS_def)

lemma readFrame_cases:
  obtains (short) "length (rd_bytes r) < 4"
      "readFrame r = (Inl (if rd_end r = ErrEOF \<and> rd_bytes r \<noteq> [] then ErrUnexpectedEOF else rd_end r), r\<lparr>rd_bytes := []\<rparr>)"
  | (oversize) "4 \<le> length (rd_bytes r)" "MaxMessageBytes < uint (getLE (take 4 (rd_bytes r)) :: 32 word)"
      "readFrame r = (Inl (Errorf ''request exceeds the message limit''), r\<lparr>rd_bytes := drop 4 (rd_bytes r)\<rparr>)"
  | (truncated) "4 \<le> length (rd_bytes r)" "length (rd_bytes r) < 4 + unat (getLE (take 4 (rd_bytes r)) :: 32 word)"
      "readFrame r = (Inl (if rd_end r = ErrEOF \<and> drop 4 (rd_bytes r) \<noteq> [] then ErrUnexpectedEOF else rd_end r), r\<lparr>rd_bytes := []\<rparr>)"
  | (complete) p where "4 \<le> length (rd_bytes r)" "uint (getLE (take 4 (rd_bytes r)) :: 32 word) \<le> MaxMessageBytes"
      "length p = unat (getLE (take 4 (rd_bytes r)) :: 32 word)"
      "rd_bytes r = take 4 (rd_bytes r) @ p @ drop (4 + length p) (rd_bytes r)"
      "readFrame r = (Inr p, r\<lparr>rd_bytes := drop (4 + length p) (rd_bytes r)\<rparr>)"
proof (cases "4 \<le> length (rd_bytes r)")
  case False
  then show ?thesis by (intro short) (simp_all add: readFrame_def bindS_def ReadFull_def)
next
  case len: True
  let ?n = "getLE (take 4 (rd_bytes r)) :: 32 word"
  show ?thesis
  proof (cases "MaxMessageBytes < uint ?n")
    case True
    then show ?thesis using len by (intro oversize) (simp_all add: readFrame_def bindS_def ReadFull_def Let_def failS_def)
  next
    case small: False
    let ?r = "r\<lparr>rd_bytes := drop 4 (rd_bytes r)\<rparr>"
    have step: "readFrame r = ReadFull (unat ?n) ?r"
      using len small by (simp add: readFrame_def bindS_def ReadFull_def[of 4] Let_def)
    show ?thesis
    proof (cases "length (rd_bytes r) < 4 + unat ?n")
      case True
      then have "\<not> unat ?n \<le> length (rd_bytes ?r)" using len by simp
      then have "readFrame r = (Inl (if rd_end r = ErrEOF \<and> drop 4 (rd_bytes r) \<noteq> [] then ErrUnexpectedEOF else rd_end r),
          r\<lparr>rd_bytes := []\<rparr>)"
        unfolding step ReadFull_def by simp
      then show ?thesis using truncated[OF len True] by simp
    next
      case False
      let ?p = "take (unat ?n) (drop 4 (rd_bytes r))"
      have p: "length ?p = unat ?n" using False by simp
      have parts: "rd_bytes r = take 4 (rd_bytes r) @ ?p @ drop (4 + length ?p) (rd_bytes r)"
        unfolding p add.commute[of 4] drop_drop[symmetric] append_take_drop_id ..
      have whole: "readFrame r = (Inr ?p, r\<lparr>rd_bytes := drop (4 + length ?p) (rd_bytes r)\<rparr>)"
        unfolding step ReadFull_def p using False len by (simp add: add.commute)
      have "uint ?n \<le> MaxMessageBytes" using small by simp
      then show ?thesis by (rule complete[OF len _ p parts whole])
    qed
  qed
qed

lemma bit_getLE:
  "8 * length bs \<le> LENGTH('a) \<Longrightarrow> bit (getLE bs :: 'a::len word) n \<longleftrightarrow> n < 8 * length bs \<and> bit (bs ! (n div 8)) (n mod 8)"
proof (induction bs arbitrary: n)
  case Nil
  then show ?case by (simp add: getLE_def)
next
  case (Cons b bs)
  have "bit (getLE (b # bs) :: 'a word) n \<longleftrightarrow>
      8 \<le> n \<and> n < LENGTH('a) \<and> bit (getLE bs :: 'a word) (n - 8) \<or> n < LENGTH('a) \<and> bit b n"
    by (auto simp: getLE_def bit_simps)
  also have "\<dots> \<longleftrightarrow> n < 8 * length (b # bs) \<and> bit ((b # bs) ! (n div 8)) (n mod 8)"
  proof (cases "n < 8")
    case True
    then show ?thesis using Cons.prems by auto
  next
    case False
    then obtain m where m: "n = m + 8" by (metis add.commute le_Suc_ex not_less)
    have "\<not> bit b n" using False by (simp add: bit_word_def)
    moreover have "(m + 8) div 8 = Suc (m div 8)" "(m + 8) mod 8 = m mod 8" by simp_all
    ultimately show ?thesis using Cons.prems Cons.IH[of m] m by auto
  qed
  finally show ?case .
qed

lemma putLE_getLE:
  assumes "8 * length bs \<le> LENGTH('a)"
  shows "putLE (length bs) (getLE bs :: 'a::len word) = bs"
proof (rule nth_equalityI)
  fix i
  assume "i < length (putLE (length bs) (getLE bs :: 'a word))"
  then have i: "i < length bs" by simp
  have "bit (ucast (drop_bit (8 * i) (getLE bs :: 'a word)) :: u8) m \<longleftrightarrow> bit (bs ! i) m" for m
  proof (cases "m < 8")
    case True
    then have "(8 * i + m) div 8 = i" "(8 * i + m) mod 8 = m" "8 * i + m < 8 * length bs" using i by auto
    then show ?thesis using True bit_getLE[OF assms, of "8 * i + m"] by (simp add: bit_simps)
  qed (simp add: bit_word_def)
  then show "putLE (length bs) (getLE bs :: 'a word) ! i = bs ! i"
    using i by (simp add: putLE_def bit_eq_iff)
qed simp

text \<open>
  C37. A sequence of payloads within the limit, written frame by frame into a buffer, is read back frame
  by frame, whatever follows it in the stream; a payload beyond the limit is refused by the writer before
  a byte is written.
\<close>

theorem frames_roundtrip:
  assumes "\<forall>p \<in> set ps. int (length p) \<le> MaxMessageBytes" and "MaxMessageBytes < int (length big)"
  shows "(\<exists>sent. loopS (\<lambda>p _. writeFrame bufferWrite p) ps () buffer = (Inr (), buffer @ sent) \<and>
      loopS (\<lambda>_ got. bindS readFrame (\<lambda>p. retS (got @ [p]))) ps [] \<lparr>rd_bytes = sent @ rest, rd_end = e\<rparr> =
        (Inr ps, \<lparr>rd_bytes = rest, rd_end = e\<rparr>)) \<and>
    writeFrame bufferWrite big buffer = (Inl (Errorf ''response exceeds the message limit''), buffer)"
proof -
  define sent where "sent = concat (map (\<lambda>p. putLE 4 (of_nat (length p) :: 32 word) @ p) ps)"
  have "loopS (\<lambda>p _. writeFrame bufferWrite p) ps () buffer = (Inr (), buffer @ sent)"
    using assms(1) unfolding sent_def by (induction ps arbitrary: buffer) (simp_all add: writeFrame_buffer)
  moreover have "loopS (\<lambda>_ got. bindS readFrame (\<lambda>p. retS (got @ [p]))) ps got \<lparr>rd_bytes = sent @ rest, rd_end = e\<rparr> =
      (Inr (got @ ps), \<lparr>rd_bytes = rest, rd_end = e\<rparr>)" for got
    using assms(1) unfolding sent_def
  proof (induction ps arbitrary: got)
    case (Cons p ps)
    then show ?case
      using readFrame_frame[of p "\<lparr>rd_bytes = concat (map (\<lambda>p. putLE 4 (of_nat (length p) :: 32 word) @ p) (p # ps)) @ rest, rd_end = e\<rparr>"]
      by (simp add: bindS_def retS_def)
  qed simp
  ultimately show ?thesis using assms(2) by (force simp: writeFrame_buffer)
qed

theorem frames_roundtrip_witness:
  "\<exists>sent. loopS (\<lambda>p _. writeFrame bufferWrite p) [[1, 2], []] () [] = (Inr (), sent) \<and>
     loopS (\<lambda>_ got. bindS readFrame (\<lambda>p. retS (got @ [p]))) [[1, 2 :: u8], []] [] \<lparr>rd_bytes = sent @ [9], rd_end = ErrEOF\<rparr> =
       (Inr [[1, 2], []], \<lparr>rd_bytes = [9], rd_end = ErrEOF\<rparr>)"
proof -
  have "MaxMessageBytes < int (length (replicate (nat MaxMessageBytes + 1) (0 :: u8)))" by (simp add: MaxMessageBytes_def)
  moreover have "\<forall>p \<in> set [[1, 2], []]. int (length (p :: bytes)) \<le> MaxMessageBytes" by (simp add: MaxMessageBytes_def)
  ultimately show ?thesis using frames_roundtrip[of "[[1, 2], []]" _ "[]" "[9]" ErrEOF] by fastforce
qed

text \<open>
  C12. The reader accepts exactly whole frames within the limit: a payload it returns has at most
  \<open>MaxMessageBytes\<close> bytes and the stream starts with its frame, which is all that was consumed. At the
  end of an input it reports a clean end only between frames, or directly behind a length prefix.
\<close>

theorem readFrame_bounded:
  "(\<forall>p r'. readFrame r = (Inr p, r') \<longrightarrow> int (length p) \<le> MaxMessageBytes \<and> rd_end r' = rd_end r \<and>
      rd_bytes r = putLE 4 (of_nat (length p) :: 32 word) @ p @ rd_bytes r') \<and>
   (rd_end r = ErrEOF \<and> fst (readFrame r) = Inl ErrEOF \<longrightarrow> rd_bytes r = [] \<or> length (rd_bytes r) = 4)"
proof (intro conjI allI impI)
  have eof: "ErrUnexpectedEOF \<noteq> ErrEOF" "Errorf ''request exceeds the message limit'' \<noteq> ErrEOF"
    by (simp_all add: ErrEOF_def ErrUnexpectedEOF_def)
  show "rd_bytes r = [] \<or> length (rd_bytes r) = 4" if "rd_end r = ErrEOF \<and> fst (readFrame r) = Inl ErrEOF"
    using that eof by (cases rule: readFrame_cases[of r]) (auto split: if_splits)
  fix p r'
  assume run: "readFrame r = (Inr p, r')"
  have "int (length p) \<le> MaxMessageBytes \<and> rd_end r' = rd_end r \<and>
      rd_bytes r = putLE 4 (of_nat (length p) :: 32 word) @ p @ rd_bytes r'"
  proof (cases rule: readFrame_cases[of r])
    case (complete q)
    then have q: "q = p" "rd_bytes r' = drop (4 + length p) (rd_bytes r)" "rd_end r' = rd_end r" using run by auto
    have n: "of_nat (length p) = (getLE (take 4 (rd_bytes r)) :: 32 word)" using complete(3) q(1) by simp
    have "putLE 4 (of_nat (length p) :: 32 word) = take 4 (rd_bytes r)"
      using putLE_getLE[of "take 4 (rd_bytes r)", where 'a = 32] complete(1) by (simp add: n)
    moreover have "int (length p) \<le> MaxMessageBytes" using complete(2,3) q(1) by (simp flip: uint_nat)
    ultimately show ?thesis using complete(4) q by simp
  qed (use run in auto)
  then show "int (length p) \<le> MaxMessageBytes" "rd_end r' = rd_end r"
    "rd_bytes r = putLE 4 (of_nat (length p) :: 32 word) @ p @ rd_bytes r'" by blast+
qed

theorem readFrame_bounded_witness:
  "readFrame \<lparr>rd_bytes = putLE 4 (1 :: 32 word) @ [7, 8], rd_end = ErrEOF\<rparr> = (Inr [7], \<lparr>rd_bytes = [8], rd_end = ErrEOF\<rparr>) \<and>
   int (length [7 :: u8]) \<le> MaxMessageBytes"
proof -
  have run: "readFrame \<lparr>rd_bytes = putLE 4 (1 :: 32 word) @ [7, 8], rd_end = ErrEOF\<rparr> = (Inr [7], \<lparr>rd_bytes = [8], rd_end = ErrEOF\<rparr>)"
    using readFrame_frame[of "[7]" "\<lparr>rd_bytes = putLE 4 (1 :: 32 word) @ [7, 8], rd_end = ErrEOF\<rparr>" "[8]"]
    by (simp add: MaxMessageBytes_def)
  then show ?thesis using readFrame_bounded[of "\<lparr>rd_bytes = putLE 4 (1 :: 32 word) @ [7, 8], rd_end = ErrEOF\<rparr>"] by blast
qed

text \<open>A stream that breaks off behind a length prefix is taken for an orderly end.\<close>

lemma truncated_prefix_clean_end:
  "readFrame \<lparr>rd_bytes = putLE 4 (5 :: 32 word), rd_end = ErrEOF\<rparr> = (Inl ErrEOF, \<lparr>rd_bytes = [], rd_end = ErrEOF\<rparr>)"
  by (simp add: readFrame_def bindS_def ReadFull_def Let_def getLE_putLE MaxMessageBytes_def failS_def)

section \<open>CBOR byte strings\<close>

text \<open>The header of a byte string as RFC 8949 defines it.\<close>

definition cborByteString :: "bytes \<Rightarrow> (nat \<times> bytes) option" where
  "cborByteString bs = (case bs of
     [] \<Rightarrow> None
   | b # rest \<Rightarrow>
       if 0x40 \<le> b \<and> b < 0x58 then Some (unat b - 0x40, rest)
       else if b = 0x58 \<and> 1 \<le> length rest then Some (unat (getBE (take 1 rest) :: 8 word), drop 1 rest)
       else if b = 0x59 \<and> 2 \<le> length rest then Some (unat (getBE (take 2 rest) :: 16 word), drop 2 rest)
       else if b = 0x5a \<and> 4 \<le> length rest then Some (unat (getBE (take 4 rest) :: 32 word), drop 4 rest)
       else if b = 0x5b \<and> 8 \<le> length rest then Some (unat (getBE (take 8 rest) :: 64 word), drop 8 rest)
       else None)"

lemma cborByteString_range:
  assumes "cborByteString h = Some (n, [])"
  shows "length h = 1 \<and> n < 24 \<or> length h = 2 \<and> n < 2 ^ 8 \<or> length h = 3 \<and> n < 2 ^ 16 \<or>
    length h = 5 \<and> n < 2 ^ 32 \<or> length h = 9 \<and> n < 2 ^ 64"
proof -
  obtain b rest where h: "h = b # rest" using assms by (cases h) (auto simp: cborByteString_def)
  have "unat b - 64 < 24" if "0x40 \<le> b" "b < 0x58" using that by (simp add: word_le_nat_alt word_less_nat_alt)
  then show ?thesis
    using assms unsigned_less[of "getBE (take 1 rest) :: 8 word"] unsigned_less[of "getBE (take 2 rest) :: 16 word"]
      unsigned_less[of "getBE (take 4 rest) :: 32 word"] unsigned_less[of "getBE (take 8 rest) :: 64 word"]
    by (auto simp: h cborByteString_def split: if_splits)
qed

lemma cbor_header_small: "n < 24 \<Longrightarrow> cborByteString ((0x40 OR of_nat n) # rest) = Some (n, rest)"
proof -
  assume "n < 24"
  then have "n \<in> {0..<24}" by simp
  moreover have "\<forall>n \<in> {0..<24}. 0x40 \<le> (0x40 OR of_nat n :: u8) \<and> (0x40 OR of_nat n :: u8) < 0x58 \<and>
      unat (0x40 OR of_nat n :: u8) - 0x40 = n"
    by code_simp
  ultimately show ?thesis by (simp add: cborByteString_def)
qed

text \<open>
  C39. The header written before a borrowed transition is the deterministic CBOR header of a byte string:
  it decodes to the length of the transition with the bytes behind it untouched, for every length of a
  Go slice, and no shorter header does.
\<close>

theorem appendCBORByteStringHeader_deterministic:
  assumes "n < 2 ^ 64"
  shows "\<exists>h. appendCBORByteStringHeader target n = target @ h \<and> cborByteString (h @ rest) = Some (n, rest) \<and>
    (\<forall>h'. cborByteString h' = Some (n, []) \<longrightarrow> length h \<le> length h')"
proof -
  have shorter: "length h \<le> length h'" if "cborByteString h' = Some (n, [])"
    and "length h = 1 \<or> length h = 2 \<and> 24 \<le> n \<or> length h = 3 \<and> 2 ^ 8 \<le> n \<or> length h = 5 \<and> 2 ^ 16 \<le> n \<or>
      length h = 9 \<and> 2 ^ 32 \<le> n" for h h' :: bytes
    using cborByteString_range[OF that(1)] that(2) by auto
  consider "n < 24" | "24 \<le> n" "n < 2 ^ 8" | "2 ^ 8 \<le> n" "n < 2 ^ 16" | "2 ^ 16 \<le> n" "n < 2 ^ 32" | "2 ^ 32 \<le> n"
    by linarith
  then show ?thesis
  proof cases
    case 1
    then show ?thesis using shorter[of _ "[0x40 OR of_nat n]"] cbor_header_small[OF 1]
      by (intro exI[of _ "[0x40 OR of_nat n]"]) (simp add: appendCBORByteStringHeader_def)
  next
    case 2
    have "putBE 1 (of_nat n :: 8 word) = [of_nat n]" by (simp add: putBE_def putLE_def)
    then have "getBE [of_nat n] = (of_nat n :: 8 word)" using getLE_putLE(2)[of 1 "of_nat n :: 8 word"] by simp
    then show ?thesis using 2 shorter[of _ "[0x58, of_nat n]"]
      by (intro exI[of _ "[0x58, of_nat n]"])
        (simp add: appendCBORByteStringHeader_def cborByteString_def unat_of_nat take_bit_nat_eq_self)
  next
    case 3
    then show ?thesis using shorter[of _ "0x59 # putBE 2 (of_nat n :: 16 word)"]
      by (intro exI[of _ "0x59 # putBE 2 (of_nat n :: 16 word)"])
        (simp add: appendCBORByteStringHeader_def cborByteString_def getLE_putLE unat_of_nat take_bit_nat_eq_self)
  next
    case 4
    then show ?thesis using shorter[of _ "0x5a # putBE 4 (of_nat n :: 32 word)"]
      by (intro exI[of _ "0x5a # putBE 4 (of_nat n :: 32 word)"])
        (simp add: appendCBORByteStringHeader_def cborByteString_def getLE_putLE unat_of_nat take_bit_nat_eq_self)
  next
    case 5
    then show ?thesis using assms shorter[of _ "0x5b # putBE 8 (of_nat n :: 64 word)"]
      by (intro exI[of _ "0x5b # putBE 8 (of_nat n :: 64 word)"])
        (simp add: appendCBORByteStringHeader_def cborByteString_def getLE_putLE unat_of_nat take_bit_nat_eq_self)
  qed
qed

theorem appendCBORByteStringHeader_deterministic_witness:
  "\<exists>h. appendCBORByteStringHeader [1] 300 = [1] @ h \<and> cborByteString (h @ [2]) = Some (300, [2])"
proof -
  have "(300 :: nat) < 2 ^ 64" by simp
  then show ?thesis using appendCBORByteStringHeader_deterministic[of 300 "[1]" "[2]"] by blast
qed

section \<open>One response, one frame\<close>

text \<open>The buffered writer over a buffer that takes every byte.\<close>

definition bufferOut :: "bytes bufioWriter" where
  "bufferOut = \<lparr>bw_Write = bufferWrite, bw_Flush = retS ()\<rparr>"

definition fieldBytes :: "bytes \<Rightarrow> bytes \<Rightarrow> lifecycleResponseChunk \<Rightarrow> bytes" where
  "fieldBytes transitionKey transition f =
     ch_key f @ ch_value f @ (if ch_key f = transitionKey then transition else [])"

lemma loopS_bufferWrite: "loopS (\<lambda>chunk _. bufferWrite chunk) chunks () buffer = (Inr (), buffer @ concat chunks)"
  by (induction chunks arbitrary: buffer) (simp_all add: bufferWrite_def)

lemma chunk_bytes: "concat (concat (map (fieldChunks k v) rows)) = concat (map (fieldBytes k v) rows)"
  by (induction rows) (simp_all add: fieldChunks_def fieldBytes_def)

lemma fieldSize_sum: "fold (fieldSize k v) rows n = n + length (concat (map (fieldBytes k v) rows))"
  by (induction rows arbitrary: n) (simp_all add: fieldSize_def fieldBytes_def Let_def)

lemma map_result_length: "map_result f xs = Inr ys \<Longrightarrow> length ys = length xs"
  by (induction xs arbitrary: ys) (auto simp: bind_result_eq_Inr_iff)

lemma chunkFields_length: "length (chunkFields r) < 20"
proof -
  have "length (filter fst (optionalFields r)) \<le> length (optionalFields r)" by (rule length_filter_le)
  then show ?thesis by (simp add: chunkFields_def requiredFields_def optionalFields_def)
qed

text \<open>
  C38. A response is written as exactly one frame within the limit, whose reported size is the length of
  its payload, or as nothing at all. The payload of a response with a large transition is a CBOR map:
  the header of a map of fewer than 24 pairs with their exact number, then each present field once, in
  the order of the encoded keys, and the transition's bytes behind their own header.
\<close>

theorem writeLifecycleResponse_one_frame:
  "case writeLifecycleResponse bufferOut m r buffer of
     (Inl e, buffer') \<Rightarrow> buffer' = buffer
   | (Inr n, buffer') \<Rightarrow> \<exists>payload. buffer' = buffer @ putLE 4 (of_nat n :: 32 word) @ payload \<and> length payload = n \<and>
       int n \<le> MaxMessageBytes \<and>
       (if int (length (rs_TableTransition r)) < largeTransition then ms_response m r = Inr payload
        else \<exists>rows transitionKey encoded. map_result (addField m) (chunkFields r) = Inr encoded \<and>
          ms_field m (FieldText ''tableTransition'') = Inr transitionKey \<and>
          mset rows = mset encoded + {#\<lparr>ch_key = transitionKey,
            ch_value = appendCBORByteStringHeader [] (length (rs_TableTransition r))\<rparr>#} \<and>
          sorted (map ch_key rows) \<and> length rows < 24 \<and>
          payload = (0xa0 OR of_nat (length rows)) # concat (map (fieldBytes transitionKey (rs_TableTransition r)) rows))"
proof (cases "int (length (rs_TableTransition r)) < largeTransition")
  case True
  then have small: "\<not> largeTransition \<le> int (length (rs_TableTransition r))" by simp
  show ?thesis
  proof (cases "ms_response m r")
    case (Inl e)
    then show ?thesis using small by (simp add: writeLifecycleResponse_def bindS_def liftS_def)
  next
    case (Inr encoded)
    then show ?thesis using small True
      by (simp add: writeLifecycleResponse_def bindS_def liftS_def bufferOut_def writeFrame_buffer retS_def)
  qed
next
  case False
  then have large: "largeTransition \<le> int (length (rs_TableTransition r))" by simp
  show ?thesis
  proof (cases "lifecycleResponseChunks m r")
    case (Inl e)
    then show ?thesis using large by (simp add: writeLifecycleResponse_def bindS_def liftS_def)
  next
    case (Inr c)
    obtain chunks n where c: "c = (chunks, n)" by force
    let ?t = "rs_TableTransition r"
    obtain encoded key where enc: "map_result (addField m) (chunkFields r) = Inr encoded"
      and key: "ms_field m (FieldText ''tableTransition'') = Inr key"
      using Inr by (auto simp: lifecycleResponseChunks_def bind_result_eq_Inr_iff)
    define rows where "rows = sort_key ch_key (encoded @ [\<lparr>ch_key = key,
        ch_value = appendCBORByteStringHeader [] (length ?t)\<rparr>])"
    define payload where "payload = ((0xa0 OR of_nat (length rows)) :: u8) # concat (map (fieldBytes key ?t) rows)"
    have "lifecycleResponseChunks m r = Inr ([0xa0 OR of_nat (length rows)] # concat (map (fieldChunks key ?t) rows),
        fold (fieldSize key ?t) rows 1)"
      by (simp add: lifecycleResponseChunks_def enc key rows_def Let_def)
    then have chunks: "chunks = [0xa0 OR of_nat (length rows)] # concat (map (fieldChunks key ?t) rows)"
      "n = fold (fieldSize key ?t) rows 1"
      using Inr by (simp_all add: c)
    then have bytes: "concat chunks = payload" "n = length payload"
      by (simp_all add: payload_def chunk_bytes fieldSize_sum)
    have "length rows = Suc (length encoded)" unfolding rows_def by simp
    then have few: "length rows < 24"
      using map_result_length[OF enc] chunkFields_length[of r] by linarith
    have "mset rows = mset encoded + {#\<lparr>ch_key = key, ch_value = appendCBORByteStringHeader [] (length ?t)\<rparr>#}"
      "sorted (map ch_key rows)" by (simp_all add: rows_def)
    then have map_form: "\<exists>rows transitionKey encoded. map_result (addField m) (chunkFields r) = Inr encoded \<and>
          ms_field m (FieldText ''tableTransition'') = Inr transitionKey \<and>
          mset rows = mset encoded + {#\<lparr>ch_key = transitionKey,
            ch_value = appendCBORByteStringHeader [] (length ?t)\<rparr>#} \<and>
          sorted (map ch_key rows) \<and> length rows < 24 \<and>
          payload = (0xa0 OR of_nat (length rows)) # concat (map (fieldBytes transitionKey ?t) rows)"
      using enc key few payload_def by blast
    have "writeLifecycleResponse bufferOut m r buffer =
        (if MaxMessageBytes < int n then (Inl (Errorf ''response exceeds the message limit''), buffer)
         else (Inr n, buffer @ putLE 4 (of_nat n :: 32 word) @ payload))"
      using large Inr bytes(1)
      by (simp add: writeLifecycleResponse_def bindS_def liftS_def c bufferOut_def writeFrameHeader_def
        failS_def retS_def bufferWrite_def[of "putLE 4 (of_nat n :: 32 word)"] loopS_bufferWrite)
    then show ?thesis using bytes(2) map_form False by auto
  qed
qed

end
