(* ===== verification/Service_Queue.thy ===== *)
theory Service_Queue
  imports Service_Frames
begin

text \<open>
  The request loop of the service (\<^verbatim>\<open>serve\<close> of \<^verbatim>\<open>cmd/solid-typefacts/main.go\<close>). Four goroutines share two
  queues: a reader takes frames from the input, the main loop decodes them, fires cancellations and
  queues jobs, one worker answers the jobs in arrival order, and a writer encodes the answers. A step of
  the service is a step of one goroutine between two communications; every interleaving is a run.
  A context is a number, and its cancellation is seen by an operation from some poll on. The clock, the
  collector and tracing are not modelled.
\<close>

section \<open>The queue\<close>

record 'a queue =
  q_items :: "'a list"
  q_closed :: bool

definition newQueue :: "'a queue" where
  "newQueue = \<lparr>q_items = [], q_closed = False\<rparr>"

definition push :: "'a \<Rightarrow> 'a queue \<Rightarrow> 'a queue" where
  "push item q = (if q_closed q then q else q\<lparr>q_items := q_items q @ [item]\<rparr>)"

text \<open>A pop waits (the outer \<open>None\<close>) while the queue is empty and open.\<close>

definition pop :: "'a queue \<Rightarrow> ('a option \<times> 'a queue) option" where
  "pop q = (case q_items q of
     [] \<Rightarrow> if q_closed q then Some (None, q) else None
   | item # items \<Rightarrow> Some (Some item, q\<lparr>q_items := items\<rparr>))"

definition close_queue :: "'a queue \<Rightarrow> 'a queue" where
  "close_queue q = q\<lparr>q_closed := True\<rparr>"

section \<open>State\<close>

type_synonym contextID = nat

text \<open>\<open>None\<close> is the context of the service itself, which is never cancelled.\<close>

record job =
  jb_request :: LifecycleRequest
  jb_context :: "contextID option"

datatype readerPhase = ReaderReading | ReaderOffering "bytes result" | ReaderGone
datatype mainPhase = MainReading | MainDraining "go_error option" | MainAborting go_error | MainReturned "go_error option"
datatype workerPhase =
    WorkerIdle
  | WorkerComputing job bool
  | WorkerReleasing job LifecycleResponse
  | WorkerSending LifecycleResponse
  | WorkerGone
datatype writerPhase = WriterIdle | WriterWriting LifecycleResponse | WriterGone

text \<open>
  The responder sees its context as the number of polls after which it is cancelled, if it ever is.
\<close>

record ('s, 'o) serveEnv =
  sve_Unmarshal :: "bytes \<Rightarrow> LifecycleRequest result"
  sve_respond :: "nat option \<Rightarrow> LifecycleRequest \<Rightarrow> 's \<Rightarrow> LifecycleResponse \<times> 's"
  sve_marshal :: Marshaller
  sve_out :: "'o bufioWriter"

record ('s, 'o) service =
  sv_input :: frameReader
  sv_reader :: readerPhase
  sv_main :: mainPhase
  sv_jobs :: "job queue"
  sv_worker :: workerPhase
  sv_session :: 's
  sv_responses :: "LifecycleResponse queue"
  sv_writer :: writerPhase
  sv_output :: 'o
  sv_fatal :: "go_error option"
  sv_cancels :: "u64 \<Rightarrow> contextID option"
  sv_cancelled :: "contextID list"
  sv_contexts :: nat

definition startService :: "frameReader \<Rightarrow> 's \<Rightarrow> 'o \<Rightarrow> ('s, 'o) service" where
  "startService input session output = \<lparr>sv_input = input, sv_reader = ReaderReading, sv_main = MainReading,
     sv_jobs = newQueue, sv_worker = WorkerIdle, sv_session = session, sv_responses = newQueue,
     sv_writer = WriterIdle, sv_output = output, sv_fatal = None, sv_cancels = (\<lambda>_. None),
     sv_cancelled = [], sv_contexts = 0\<rparr>"

section \<open>The pieces of the loop\<close>

definition contextCancelled :: "contextID option \<Rightarrow> ('s, 'o) service \<Rightarrow> bool" where
  "contextCancelled ctx s = (case ctx of None \<Rightarrow> False | Some c \<Rightarrow> c \<in> set (sv_cancelled s))"

text \<open>What a job that ran between two instants can have seen of its context.\<close>

definition polled :: "bool \<Rightarrow> bool \<Rightarrow> nat option \<Rightarrow> bool" where
  "polled before after point =
     (if before then point = Some 0 else if after then True else point = None)"

definition acceptCancel :: "LifecycleRequest \<Rightarrow> ('s, 'o) service \<Rightarrow> ('s, 'o) service" where
  "acceptCancel request s = s\<lparr>
     sv_cancelled := (case sv_cancels s (rq_CancelRequestID request) of
        None \<Rightarrow> sv_cancelled s | Some c \<Rightarrow> c # sv_cancelled s),
     sv_jobs := push \<lparr>jb_request = request, jb_context = None\<rparr> (sv_jobs s)\<rparr>"

definition acceptJob :: "LifecycleRequest \<Rightarrow> ('s, 'o) service \<Rightarrow> ('s, 'o) service" where
  "acceptJob request s =
     (let c = sv_contexts s in s\<lparr>sv_contexts := c + 1,
        sv_cancels := (sv_cancels s)(rq_RequestID request := Some c),
        sv_jobs := push \<lparr>jb_request = request, jb_context = Some c\<rparr> (sv_jobs s)\<rparr>)"

definition releaseJob :: "job \<Rightarrow> ('s, 'o) service \<Rightarrow> ('s, 'o) service" where
  "releaseJob j s = (case jb_context j of
     None \<Rightarrow> s
   | Some c \<Rightarrow> s\<lparr>sv_cancelled := c # sv_cancelled s,
       sv_cancels := (sv_cancels s)(rq_RequestID (jb_request j) := None)\<rparr>)"

definition drain :: "go_error option \<Rightarrow> ('s, 'o) service \<Rightarrow> ('s, 'o) service" where
  "drain readErr s = s\<lparr>sv_jobs := close_queue (sv_jobs s), sv_main := MainDraining readErr\<rparr>"

definition drained :: "('s, 'o) serveEnv \<Rightarrow> go_error option \<Rightarrow> ('s, 'o) service \<Rightarrow> ('s, 'o) service" where
  "drained env readErr s = (case sv_fatal s of
     Some e \<Rightarrow> s\<lparr>sv_fatal := None, sv_main := MainReturned (Some e)\<rparr>
   | None \<Rightarrow> (case readErr of
       Some e \<Rightarrow> s\<lparr>sv_main := MainReturned (Some e)\<rparr>
     | None \<Rightarrow> (case bw_Flush (sve_out env) (sv_output s) of (r, o') \<Rightarrow>
         s\<lparr>sv_output := o', sv_main := MainReturned (case r of Inl e \<Rightarrow> Some e | Inr _ \<Rightarrow> None)\<rparr>)))"

section \<open>Steps\<close>

text \<open>What the outside can tell of a step.\<close>

datatype event =
    Internal
  | Accepted LifecycleRequest "contextID option"
  | Answered "nat option"
  | Written LifecycleResponse
  | WriteFailed

inductive service_step ::
    "('s, 'o) serveEnv \<Rightarrow> ('s, 'o) service \<Rightarrow> event \<Rightarrow> ('s, 'o) service \<Rightarrow> bool"
  for env where
  reads_frame: "sv_reader s = ReaderReading \<Longrightarrow> readFrame (sv_input s) = (r, input) \<Longrightarrow>
    service_step env s Internal (s\<lparr>sv_input := input, sv_reader := ReaderOffering r\<rparr>)"
| input_ends: "sv_main s = MainReading \<Longrightarrow> sv_reader s = ReaderOffering (Inl e) \<Longrightarrow>
    service_step env s Internal (drain (if e = ErrEOF then None else Some e) (s\<lparr>sv_reader := ReaderGone\<rparr>))"
| undecodable: "sv_main s = MainReading \<Longrightarrow> sv_reader s = ReaderOffering (Inr payload) \<Longrightarrow>
    sve_Unmarshal env payload = Inl e \<Longrightarrow>
    service_step env s Internal (drain (Some e) (s\<lparr>sv_reader := ReaderReading\<rparr>))"
| accepts_cancel: "sv_main s = MainReading \<Longrightarrow> sv_reader s = ReaderOffering (Inr payload) \<Longrightarrow>
    sve_Unmarshal env payload = Inr request \<Longrightarrow> rq_Operation request = LifecycleCancel \<Longrightarrow>
    service_step env s (Accepted request None) (acceptCancel request (s\<lparr>sv_reader := ReaderReading\<rparr>))"
| accepts_job: "sv_main s = MainReading \<Longrightarrow> sv_reader s = ReaderOffering (Inr payload) \<Longrightarrow>
    sve_Unmarshal env payload = Inr request \<Longrightarrow> rq_Operation request \<noteq> LifecycleCancel \<Longrightarrow>
    service_step env s (Accepted request (Some (sv_contexts s))) (acceptJob request (s\<lparr>sv_reader := ReaderReading\<rparr>))"
| aborts: "sv_main s = MainReading \<Longrightarrow> sv_fatal s = Some e \<Longrightarrow>
    service_step env s Internal (s\<lparr>sv_fatal := None, sv_jobs := close_queue (sv_jobs s), sv_main := MainAborting e\<rparr>)"
| returns_drained: "sv_main s = MainDraining readErr \<Longrightarrow> sv_worker s = WorkerGone \<Longrightarrow> sv_writer s = WriterGone \<Longrightarrow>
    service_step env s Internal (drained env readErr s)"
| returns_aborted: "sv_main s = MainAborting e \<Longrightarrow> sv_worker s = WorkerGone \<Longrightarrow> sv_writer s = WriterGone \<Longrightarrow>
    service_step env s Internal (s\<lparr>sv_main := MainReturned (Some e)\<rparr>)"
| takes_job: "sv_worker s = WorkerIdle \<Longrightarrow> pop (sv_jobs s) = Some (Some j, jobs) \<Longrightarrow>
    service_step env s Internal
      (s\<lparr>sv_jobs := jobs, sv_worker := WorkerComputing j (contextCancelled (jb_context j) s)\<rparr>)"
| answers: "sv_worker s = WorkerComputing j before \<Longrightarrow>
    polled before (contextCancelled (jb_context j) s) point \<Longrightarrow>
    sve_respond env point (jb_request j) (sv_session s) = (response, session) \<Longrightarrow>
    service_step env s (Answered point) (s\<lparr>sv_session := session, sv_worker := WorkerReleasing j response\<rparr>)"
| releases: "sv_worker s = WorkerReleasing j response \<Longrightarrow>
    service_step env s Internal (releaseJob j (s\<lparr>sv_worker := WorkerSending response\<rparr>))"
| sends: "sv_worker s = WorkerSending response \<Longrightarrow>
    service_step env s Internal (s\<lparr>sv_responses := push response (sv_responses s), sv_worker := WorkerIdle\<rparr>)"
| worker_ends: "sv_worker s = WorkerIdle \<Longrightarrow> pop (sv_jobs s) = Some (None, jobs) \<Longrightarrow>
    service_step env s Internal (s\<lparr>sv_responses := close_queue (sv_responses s), sv_worker := WorkerGone\<rparr>)"
| takes_response: "sv_writer s = WriterIdle \<Longrightarrow> pop (sv_responses s) = Some (Some response, responses) \<Longrightarrow>
    service_step env s Internal (s\<lparr>sv_responses := responses, sv_writer := WriterWriting response\<rparr>)"
| writes: "sv_writer s = WriterWriting response \<Longrightarrow>
    writeLifecycleResponse (sve_out env) (sve_marshal env) response (sv_output s) = (Inr n, output) \<Longrightarrow>
    service_step env s (Written response) (s\<lparr>sv_output := output, sv_writer := WriterIdle\<rparr>)"
| write_fails: "sv_writer s = WriterWriting response \<Longrightarrow>
    writeLifecycleResponse (sve_out env) (sve_marshal env) response (sv_output s) = (Inl e, output) \<Longrightarrow>
    service_step env s WriteFailed (s\<lparr>sv_output := output, sv_writer := WriterGone, sv_fatal := Some e\<rparr>)"
| writer_ends: "sv_writer s = WriterIdle \<Longrightarrow> pop (sv_responses s) = Some (None, responses) \<Longrightarrow>
    service_step env s Internal (s\<lparr>sv_writer := WriterGone\<rparr>)"

inductive service_run ::
    "('s, 'o) serveEnv \<Rightarrow> ('s, 'o) service \<Rightarrow> event list \<Rightarrow> ('s, 'o) service \<Rightarrow> bool"
  for env s where
  started: "service_run env s [] s"
| stepped: "service_run env s trace t \<Longrightarrow> service_step env t e u \<Longrightarrow> service_run env s (trace @ [e]) u"

text \<open>What a trace says of the requests.\<close>

definition accepted_in :: "event list \<Rightarrow> (LifecycleRequest \<times> contextID option) list" where
  "accepted_in = (\<lambda>trace. concat (map (\<lambda>e. case e of Accepted r c \<Rightarrow> [(r, c)] | _ \<Rightarrow> []) trace))"

definition points_in :: "event list \<Rightarrow> nat option list" where
  "points_in = (\<lambda>trace. concat (map (\<lambda>e. case e of Answered p \<Rightarrow> [p] | _ \<Rightarrow> []) trace))"

definition written_in :: "event list \<Rightarrow> LifecycleResponse list" where
  "written_in = (\<lambda>trace. concat (map (\<lambda>e. case e of Written r \<Rightarrow> [r] | _ \<Rightarrow> []) trace))"

lemma trace_Nil [simp]: "accepted_in [] = []" "points_in [] = []" "written_in [] = []"
  by (simp_all add: accepted_in_def points_in_def written_in_def)

lemma trace_snoc [simp]:
  "accepted_in (trace @ [e]) = accepted_in trace @ (case e of Accepted r c \<Rightarrow> [(r, c)] | _ \<Rightarrow> [])"
  "points_in (trace @ [e]) = points_in trace @ (case e of Answered p \<Rightarrow> [p] | _ \<Rightarrow> [])"
  "written_in (trace @ [e]) = written_in trace @ (case e of Written r \<Rightarrow> [r] | _ \<Rightarrow> [])"
  by (simp_all add: accepted_in_def points_in_def written_in_def)

section \<open>The phases of the goroutines\<close>

definition phases_ok :: "event list \<Rightarrow> ('s, 'o) service \<Rightarrow> bool" where
  "phases_ok trace s \<longleftrightarrow>
     (q_closed (sv_jobs s) \<longleftrightarrow> sv_main s \<noteq> MainReading) \<and>
     (q_closed (sv_responses s) \<longleftrightarrow> sv_worker s = WorkerGone) \<and>
     (sv_worker s = WorkerGone \<longrightarrow> q_closed (sv_jobs s) \<and> q_items (sv_jobs s) = []) \<and>
     (sv_writer s = WriterGone \<longrightarrow> WriteFailed \<in> set trace \<or> q_closed (sv_responses s) \<and> q_items (sv_responses s) = []) \<and>
     (sv_reader s = ReaderGone \<longrightarrow> sv_main s \<noteq> MainReading) \<and>
     (WriteFailed \<in> set trace \<longrightarrow> sv_writer s = WriterGone) \<and>
     (WriteFailed \<in> set trace \<longleftrightarrow> sv_fatal s \<noteq> None \<or> (\<exists>e. sv_main s = MainAborting e) \<or>
        WriteFailed \<in> set trace \<and> (\<exists>e. sv_main s = MainReturned (Some e))) \<and>
     (\<forall>r. sv_main s = MainReturned r \<longrightarrow> sv_worker s = WorkerGone \<and> sv_writer s = WriterGone)"

lemmas service_pieces = acceptCancel_def acceptJob_def releaseJob_def drain_def drained_def push_def pop_def close_queue_def

lemma phases_step:
  assumes "service_step env s e s'" and "phases_ok trace s"
  shows "phases_ok (trace @ [e]) s'"
  using assms
  by (cases rule: service_step.cases)
    (auto simp: phases_ok_def service_pieces Let_def split: option.splits list.splits if_splits prod.splits)

lemma phases_run: "service_run env (startService input session output) trace s \<Longrightarrow> phases_ok trace s"
proof (induction rule: service_run.induct)
  case started
  then show ?case by (simp add: phases_ok_def startService_def newQueue_def)
qed (rule phases_step)

section \<open>Arrival order\<close>

text \<open>The service without concurrency: one request after the other, and one response after the other.\<close>

fun serveAll ::
    "('s, 'o) serveEnv \<Rightarrow> (LifecycleRequest \<times> nat option) list \<Rightarrow> 's \<Rightarrow> LifecycleResponse list \<times> 's" where
  "serveAll env [] session = ([], session)"
| "serveAll env ((request, point) # rest) session =
     (let (response, session) = sve_respond env point request session;
          (responses, session) = serveAll env rest session
      in (response # responses, session))"

definition writeAll :: "('s, 'o) serveEnv \<Rightarrow> LifecycleResponse list \<Rightarrow> ('o, unit) proc" where
  "writeAll env responses =
     loopS (\<lambda>r _. bindS (writeLifecycleResponse (sve_out env) (sve_marshal env) r) (\<lambda>_. retS ())) responses ()"

lemma serveAll_snoc:
  assumes "serveAll env xs session = (responses, session')" and "sve_respond env point request session' = (response, session'')"
  shows "serveAll env (xs @ [(request, point)]) session = (responses @ [response], session'')"
  using assms by (induction env xs session arbitrary: responses rule: serveAll.induct) (auto split: prod.splits)

lemma loopS_snoc: "loopS f (xs @ [x]) a s = thenS (loopS f xs a s) (\<lambda>b. f x b)"
proof (induction xs arbitrary: a s)
  case Nil
  show ?case by (cases "f x a s"; cases "fst (f x a s)") auto
next
  case (Cons y ys)
  show ?case by (cases "f y a s"; cases "fst (f y a s)") (auto simp: Cons.IH)
qed

lemma writeAll_snoc:
  assumes "writeAll env rs s = (Inr (), s')" and "writeLifecycleResponse (sve_out env) (sve_marshal env) r s' = (Inr n, s'')"
  shows "writeAll env (rs @ [r]) s = (Inr (), s'')"
  using assms by (simp add: writeAll_def loopS_snoc bindS_def retS_def)

text \<open>The jobs that are not answered yet, and the answers that are not written yet.\<close>

definition waiting :: "('s, 'o) service \<Rightarrow> job list" where
  "waiting s = (case sv_worker s of WorkerComputing j _ \<Rightarrow> [j] | _ \<Rightarrow> []) @ q_items (sv_jobs s)"

definition in_flight :: "('s, 'o) service \<Rightarrow> LifecycleResponse list" where
  "in_flight s = (case sv_writer s of WriterWriting r \<Rightarrow> [r] | _ \<Rightarrow> []) @ q_items (sv_responses s) @
     (case sv_worker s of WorkerReleasing _ r \<Rightarrow> [r] | WorkerSending r \<Rightarrow> [r] | _ \<Rightarrow> [])"

definition accepted_job :: "job \<Rightarrow> LifecycleRequest \<times> contextID option" where
  "accepted_job j = (jb_request j, jb_context j)"

definition jobs_ok :: "event list \<Rightarrow> (LifecycleRequest \<times> contextID option) list \<Rightarrow> ('s, 'o) service \<Rightarrow> bool" where
  "jobs_ok trace answered s \<longleftrightarrow>
     accepted_in trace = answered @ map accepted_job (waiting s) \<and> length answered = length (points_in trace)"

definition answers_ok ::
    "('s, 'o) serveEnv \<Rightarrow> 's \<Rightarrow> event list \<Rightarrow> (LifecycleRequest \<times> contextID option) list \<Rightarrow> LifecycleResponse list \<Rightarrow>
     ('s, 'o) service \<Rightarrow> bool" where
  "answers_ok env session trace answered lost s \<longleftrightarrow>
     serveAll env (zip (map fst answered) (points_in trace)) session = (written_in trace @ lost @ in_flight s, sv_session s) \<and>
     (lost \<noteq> [] \<longrightarrow> WriteFailed \<in> set trace)"

definition output_ok :: "('s, 'o) serveEnv \<Rightarrow> 'o \<Rightarrow> event list \<Rightarrow> ('s, 'o) service \<Rightarrow> bool" where
  "output_ok env output trace s \<longleftrightarrow>
     (WriteFailed \<notin> set trace \<and> (\<forall>r. sv_main s \<noteq> MainReturned r) \<longrightarrow>
        writeAll env (written_in trace) output = (Inr (), sv_output s)) \<and>
     (sv_main s = MainReturned None \<longrightarrow> WriteFailed \<notin> set trace \<and>
        (\<exists>o'. writeAll env (written_in trace) output = (Inr (), o') \<and> bw_Flush (sve_out env) o' = (Inr (), sv_output s)))"

lemma jobs_step:
  assumes "service_step env s e s'" and "phases_ok trace s" and "jobs_ok trace answered s"
  shows "\<exists>new. jobs_ok (trace @ [e]) (answered @ new) s' \<and> (case e of Answered p \<Rightarrow> \<exists>j before. sv_worker s = WorkerComputing j before \<and>
    new = [accepted_job j] | _ \<Rightarrow> new = [])"
  using assms
  by (cases rule: service_step.cases)
    (auto simp: phases_ok_def jobs_ok_def waiting_def accepted_job_def service_pieces Let_def
      split: option.splits list.splits if_splits prod.splits workerPhase.splits)

lemma output_step:
  assumes "service_step env s e s'" and "phases_ok trace s" and "output_ok env output trace s"
  shows "output_ok env output (trace @ [e]) s'"
  using assms
  by (cases rule: service_step.cases)
    (auto simp: phases_ok_def output_ok_def service_pieces Let_def writeAll_snoc
      split: option.splits list.splits if_splits prod.splits sum.splits)

lemma answers_answered:
  assumes "answers_ok env session trace answered lost s" and "length answered = length (points_in trace)"
    and "sv_worker s = WorkerComputing j before" and "sve_respond env point (jb_request j) (sv_session s) = (response, session')"
  shows "answers_ok env session (trace @ [Answered point]) (answered @ [accepted_job j]) lost
    (s\<lparr>sv_session := session', sv_worker := WorkerReleasing j response\<rparr>)"
  using assms serveAll_snoc[OF _ assms(4), of "zip (map fst answered) (points_in trace)" session]
  by (simp add: answers_ok_def in_flight_def accepted_job_def)

lemma answers_step:
  assumes "service_step env s e s'" and "phases_ok trace s" and "jobs_ok trace answered s"
    and "answers_ok env session trace answered lost s" and "jobs_ok (trace @ [e]) (answered @ new) s'"
    and "\<forall>p. e = Answered p \<longrightarrow> (\<exists>j before. sv_worker s = WorkerComputing j before \<and> new = [accepted_job j])"
    and "(\<forall>p. e \<noteq> Answered p) \<longrightarrow> new = []"
  shows "\<exists>lost'. answers_ok env session (trace @ [e]) (answered @ new) lost' s'"
proof (cases "\<exists>p. e = Answered p")
  case True
  from assms(1) show ?thesis
  proof cases
    case (answers j before point response session)
    then show ?thesis using assms(3,6) answers_answered[OF assms(4) _ answers(3,5)] by (auto simp: jobs_ok_def)
  qed (use True in auto)
next
  case False
  then have "new = []" using assms(7) by blast
  show ?thesis
  proof (cases "\<exists>r. sv_writer s = WriterWriting r \<and> e = WriteFailed")
    case True
    then obtain r where "sv_writer s = WriterWriting r" "e = WriteFailed" by blast
    then have "answers_ok env session (trace @ [e]) answered (lost @ [r]) s'"
      using assms(2,4) by (cases rule: service_step.cases[OF assms(1)]) (auto simp: phases_ok_def answers_ok_def in_flight_def)
    then show ?thesis using \<open>new = []\<close> by auto
  next
    case nofail: False
    have "answers_ok env session (trace @ [e]) answered lost s'"
      using assms(1)
    proof cases
      case (sends response)
      then show ?thesis using assms(2,4)
        by (auto simp: phases_ok_def answers_ok_def in_flight_def push_def)
    next
      case (takes_response response responses)
      then show ?thesis using assms(2,4)
        by (auto simp: phases_ok_def answers_ok_def in_flight_def pop_def split: list.splits if_splits)
    next
      case (writes response n sink)
      then show ?thesis using assms(2,4)
        by (auto simp: phases_ok_def answers_ok_def in_flight_def)
    qed (use assms(2,4) False nofail in \<open>auto simp: phases_ok_def answers_ok_def in_flight_def service_pieces Let_def
      split: option.splits list.splits if_splits prod.splits workerPhase.splits\<close>)
    then show ?thesis using \<open>new = []\<close> by auto
  qed
qed

definition order_ok :: "('s, 'o) serveEnv \<Rightarrow> 's \<Rightarrow> 'o \<Rightarrow> event list \<Rightarrow> ('s, 'o) service \<Rightarrow> bool" where
  "order_ok env session output trace s \<longleftrightarrow> phases_ok trace s \<and> output_ok env output trace s \<and>
     (\<exists>answered lost. jobs_ok trace answered s \<and> answers_ok env session trace answered lost s)"

lemma order_step:
  assumes "service_step env s e s'" and "order_ok env session output trace s"
  shows "order_ok env session output (trace @ [e]) s'"
proof -
  obtain answered lost where ok: "phases_ok trace s" "output_ok env output trace s" "jobs_ok trace answered s"
    "answers_ok env session trace answered lost s"
    using assms(2) by (auto simp: order_ok_def)
  obtain new where new: "jobs_ok (trace @ [e]) (answered @ new) s'"
    "case e of Answered p \<Rightarrow> \<exists>j before. sv_worker s = WorkerComputing j before \<and> new = [accepted_job j] | _ \<Rightarrow> new = []"
    using jobs_step[OF assms(1) ok(1,3)] by blast
  have "\<exists>lost'. answers_ok env session (trace @ [e]) (answered @ new) lost' s'"
    by (rule answers_step[OF assms(1) ok(1,3,4) new(1)]) (use new(2) in \<open>auto split: event.splits\<close>)
  then show ?thesis
    using phases_step[OF assms(1) ok(1)] output_step[OF assms(1) ok(1,2)] new(1) unfolding order_ok_def by blast
qed

lemma order_run:
  "service_run env (startService input session output) trace s \<Longrightarrow> order_ok env session output trace s"
proof (induction rule: service_run.induct)
  case started
  have "jobs_ok [] [] (startService input session output :: ('a, 'b) service)"
    "answers_ok env session [] [] [] (startService input session output)"
    by (simp_all add: jobs_ok_def answers_ok_def startService_def newQueue_def waiting_def in_flight_def)
  moreover have "phases_ok [] (startService input session output :: ('a, 'b) service)"
    by (rule phases_run[OF service_run.started])
  moreover have "output_ok env output [] (startService input session output)"
    by (simp add: output_ok_def startService_def writeAll_def)
  ultimately show ?case unfolding order_ok_def by blast
qed (rule order_step)

end
