(* ===== verification/Service_Properties.thy ===== *)
theory Service_Properties
  imports Service_Queue
begin

text \<open>
  The properties of the request loop: answers come in arrival order, every run ends, and a cancellation
  reaches the request it names and no other.
\<close>

section \<open>Cancellation\<close>

text \<open>
  A request is cancelled when a later cancel frame names its identifier and no other request took the
  identifier over in between.
\<close>

type_synonym accepted = "(LifecycleRequest \<times> contextID option) list"

definition id_at :: "accepted \<Rightarrow> nat \<Rightarrow> u64" where
  "id_at acc i = rq_RequestID (fst (acc ! i))"

definition reused :: "accepted \<Rightarrow> nat \<Rightarrow> nat \<Rightarrow> bool" where
  "reused acc i j \<longleftrightarrow> (\<exists>k. i < k \<and> k < j \<and> snd (acc ! k) \<noteq> None \<and> id_at acc k = id_at acc i)"

definition cancelled_later :: "accepted \<Rightarrow> nat \<Rightarrow> bool" where
  "cancelled_later acc i \<longleftrightarrow> (\<exists>j < length acc. i < j \<and> rq_Operation (fst (acc ! j)) = LifecycleCancel \<and>
     rq_CancelRequestID (fst (acc ! j)) = id_at acc i \<and> \<not> reused acc i j)"

definition distinct_ids :: "accepted \<Rightarrow> bool" where
  "distinct_ids acc \<longleftrightarrow> (\<forall>i < length acc. \<forall>k < length acc. snd (acc ! i) \<noteq> None \<and> snd (acc ! k) \<noteq> None \<and>
     id_at acc i = id_at acc k \<longrightarrow> i = k)"

lemma at_snoc:
  "i < length acc \<Longrightarrow> id_at (acc @ [x]) i = id_at acc i"
  "i < length acc \<Longrightarrow> j \<le> length acc \<Longrightarrow> reused (acc @ [x]) i j = reused acc i j"
  unfolding id_at_def reused_def by (simp_all add: nth_append) (rule ex_cong1, auto)

lemma cancelled_later_snoc:
  assumes "i < length acc"
  shows "cancelled_later (acc @ [x]) i \<longleftrightarrow> cancelled_later acc i \<or>
    rq_Operation (fst x) = LifecycleCancel \<and> rq_CancelRequestID (fst x) = id_at acc i \<and> \<not> reused acc i (length acc)"
proof -
  let ?named = "\<lambda>acc j. i < j \<and> rq_Operation (fst (acc ! j)) = LifecycleCancel \<and>
      rq_CancelRequestID (fst (acc ! j)) = id_at acc i \<and> \<not> reused acc i j"
  have "?named (acc @ [x]) j = ?named acc j" if "j < length acc" for j
    using that assms by (simp add: at_snoc nth_append)
  moreover have "?named (acc @ [x]) (length acc) \<longleftrightarrow>
      rq_Operation (fst x) = LifecycleCancel \<and> rq_CancelRequestID (fst x) = id_at acc i \<and> \<not> reused acc i (length acc)"
    using assms by (simp add: at_snoc)
  moreover have "cancelled_later (acc @ [x]) i \<longleftrightarrow>
      (\<exists>j < length acc. ?named (acc @ [x]) j) \<or> ?named (acc @ [x]) (length acc)"
    unfolding cancelled_later_def length_append_singleton Ex_less_Suc by blast
  ultimately show ?thesis unfolding cancelled_later_def by meson
qed

lemma not_cancelled_later_last: "\<not> cancelled_later (acc @ [x]) (length acc)"
  by (auto simp: cancelled_later_def)

lemma distinct_ids_snoc: "distinct_ids (acc @ [x]) \<Longrightarrow> distinct_ids acc"
  by (auto simp: distinct_ids_def at_snoc nth_append less_Suc_eq)

definition numbered :: "accepted \<Rightarrow> nat \<Rightarrow> bool" where
  "numbered acc contexts \<longleftrightarrow>
     (\<forall>i < length acc. (snd (acc ! i) = None \<longleftrightarrow> rq_Operation (fst (acc ! i)) = LifecycleCancel) \<and>
        (\<forall>c. snd (acc ! i) = Some c \<longrightarrow> c < contexts)) \<and>
     (\<forall>i < length acc. \<forall>k < length acc. snd (acc ! i) = snd (acc ! k) \<and> snd (acc ! i) \<noteq> None \<longrightarrow> i = k)"

definition registered :: "accepted \<Rightarrow> (u64 \<Rightarrow> contextID option) \<Rightarrow> bool" where
  "registered acc cancels \<longleftrightarrow> (\<forall>id c. cancels id = Some c \<longrightarrow>
     (\<exists>i < length acc. snd (acc ! i) = Some c \<and> id_at acc i = id \<and> \<not> reused acc i (length acc)))"

definition only_named :: "accepted \<Rightarrow> nat \<Rightarrow> contextID list \<Rightarrow> bool" where
  "only_named acc n cancelled \<longleftrightarrow>
     (\<forall>i < length acc. \<forall>c. snd (acc ! i) = Some c \<and> c \<in> set cancelled \<longrightarrow> i < n \<or> cancelled_later acc i)"

definition all_named :: "accepted \<Rightarrow> nat \<Rightarrow> (u64 \<Rightarrow> contextID option) \<Rightarrow> contextID list \<Rightarrow> bool" where
  "all_named acc n cancels cancelled \<longleftrightarrow> (distinct_ids acc \<longrightarrow>
     (\<forall>i < length acc. \<forall>c. n \<le> i \<and> snd (acc ! i) = Some c \<longrightarrow>
        cancels (id_at acc i) = Some c \<and> (cancelled_later acc i \<longrightarrow> c \<in> set cancelled)))"

definition worker_ok :: "accepted \<Rightarrow> nat \<Rightarrow> ('s, 'o) service \<Rightarrow> bool" where
  "worker_ok acc n s \<longleftrightarrow>
     (case sv_worker s of
        WorkerComputing j before \<Rightarrow> n < length acc \<and> accepted_job j = acc ! n \<and>
          (before \<longrightarrow> contextCancelled (jb_context j) s)
      | WorkerReleasing j r \<Rightarrow> 0 < n \<and> accepted_job j = acc ! (n - 1)
      | _ \<Rightarrow> True)"

definition contexts_ok :: "event list \<Rightarrow> ('s, 'o) service \<Rightarrow> bool" where
  "contexts_ok trace s \<longleftrightarrow>
     (let acc = accepted_in trace; n = length (points_in trace)
      in n \<le> length acc \<and> numbered acc (sv_contexts s) \<and> registered acc (sv_cancels s) \<and>
         (\<forall>c \<in> set (sv_cancelled s). c < sv_contexts s) \<and> only_named acc n (sv_cancelled s) \<and> all_named acc n (sv_cancels s) (sv_cancelled s) \<and>
         worker_ok acc n s \<and> (\<forall>i < n. points_in trace ! i \<noteq> None \<longrightarrow> cancelled_later acc i))"

text \<open>A frame is accepted.\<close>

lemma numbered_cancel:
  "numbered acc contexts \<Longrightarrow> rq_Operation request = LifecycleCancel \<Longrightarrow> numbered (acc @ [(request, None)]) contexts"
  by (auto simp: numbered_def nth_append less_Suc_eq)

lemma numbered_job:
  "numbered acc contexts \<Longrightarrow> rq_Operation request \<noteq> LifecycleCancel \<Longrightarrow>
   numbered (acc @ [(request, Some contexts)]) (Suc contexts)"
  by (auto simp: numbered_def nth_append less_Suc_eq)

lemma reused_snoc:
  "i < length acc \<Longrightarrow> reused (acc @ [x]) i (Suc (length acc)) \<longleftrightarrow>
    reused acc i (length acc) \<or> snd x \<noteq> None \<and> rq_RequestID (fst x) = id_at acc i"
proof -
  assume i: "i < length acc"
  have "(acc @ [x]) ! k = (if k = length acc then x else acc ! k)" if "k < Suc (length acc)" for k
    using that by (simp add: nth_append)
  then have "reused (acc @ [x]) i (Suc (length acc)) \<longleftrightarrow> reused (acc @ [x]) i (length acc) \<or>
      snd x \<noteq> None \<and> rq_RequestID (fst x) = id_at (acc @ [x]) i"
    using i unfolding reused_def by (auto simp: id_at_def less_Suc_eq)
  then show ?thesis using i by (simp add: at_snoc)
qed

lemma registered_cancel: "registered acc cancels \<Longrightarrow> registered (acc @ [(request, None)]) cancels"
  unfolding registered_def
proof (intro allI impI)
  fix id c
  assume reg: "\<forall>id c. cancels id = Some c \<longrightarrow> (\<exists>i < length acc. snd (acc ! i) = Some c \<and> id_at acc i = id \<and> \<not> reused acc i (length acc))"
    and "cancels id = Some c"
  then obtain i where "i < length acc" "snd (acc ! i) = Some c" "id_at acc i = id" "\<not> reused acc i (length acc)" by blast
  then show "\<exists>i < length (acc @ [(request, None)]). snd ((acc @ [(request, None)]) ! i) = Some c \<and>
      id_at (acc @ [(request, None)]) i = id \<and> \<not> reused (acc @ [(request, None)]) i (length (acc @ [(request, None)]))"
    by (intro exI[of _ i]) (simp add: nth_append at_snoc reused_snoc)
qed

lemma registered_job:
  assumes "registered acc cancels"
  shows "registered (acc @ [(request, Some c)]) (cancels(rq_RequestID request := Some c))"
  unfolding registered_def
proof (intro allI impI)
  fix id d
  let ?acc = "acc @ [(request, Some c)]"
  assume entry: "(cancels(rq_RequestID request := Some c)) id = Some d"
  show "\<exists>i < length ?acc. snd (?acc ! i) = Some d \<and> id_at ?acc i = id \<and> \<not> reused ?acc i (length ?acc)"
  proof (cases "id = rq_RequestID request")
    case True
    then show ?thesis using entry by (intro exI[of _ "length acc"]) (auto simp: id_at_def reused_def)
  next
    case False
    then obtain i where "i < length acc" "snd (acc ! i) = Some d" "id_at acc i = id" "\<not> reused acc i (length acc)"
      using entry assms by (auto simp: registered_def)
    then show ?thesis using False by (intro exI[of _ i]) (auto simp: nth_append at_snoc reused_snoc)
  qed
qed

lemma registered_release: "registered acc cancels \<Longrightarrow> registered acc (cancels(key := None))"
  by (auto simp: registered_def)

lemma numbered_inj:
  "numbered acc contexts \<Longrightarrow> i < length acc \<Longrightarrow> k < length acc \<Longrightarrow> snd (acc ! i) = Some c \<Longrightarrow> snd (acc ! k) = Some c \<Longrightarrow> i = k"
  unfolding numbered_def by (metis option.distinct(1))

lemma only_named_snoc:
  assumes "only_named acc n cancelled" and "n \<le> length acc" and "\<And>c. snd x = Some c \<Longrightarrow> c \<notin> set cancelled"
  shows "only_named (acc @ [x]) n cancelled"
  unfolding only_named_def
proof (intro allI impI)
  fix i d
  assume "i < length (acc @ [x])" and d: "snd ((acc @ [x]) ! i) = Some d \<and> d \<in> set cancelled"
  then consider "i < length acc" | "i = length acc" by fastforce
  then show "i < n \<or> cancelled_later (acc @ [x]) i"
  proof cases
    case 1
    then show ?thesis using d assms(1) by (auto simp: only_named_def nth_append cancelled_later_snoc)
  qed (use d assms(3) in auto)
qed

lemma only_named_fire:
  assumes "only_named acc n cancelled" and "numbered acc contexts" and "n \<le> length acc" and "registered acc cancels"
    and "rq_Operation request = LifecycleCancel" and "cancels (rq_CancelRequestID request) = Some c"
  shows "only_named (acc @ [(request, None)]) n (c # cancelled)"
  unfolding only_named_def
proof (intro allI impI)
  fix i d
  let ?acc = "acc @ [(request, None)]"
  assume "i < length ?acc" and d: "snd (?acc ! i) = Some d \<and> d \<in> set (c # cancelled)"
  then have i: "i < length acc" "snd (acc ! i) = Some d" by (auto simp: nth_append split: if_splits)
  obtain k where k: "k < length acc" "snd (acc ! k) = Some c" "id_at acc k = rq_CancelRequestID request" "\<not> reused acc k (length acc)"
    using assms(4,6) by (auto simp: registered_def)
  show "i < n \<or> cancelled_later ?acc i"
  proof (cases "d \<in> set cancelled")
    case True
    then show ?thesis using assms(1) i by (auto simp: only_named_def cancelled_later_snoc)
  next
    case False
    then have "i = k" using d i k numbered_inj[OF assms(2)] by auto
    then show ?thesis using k assms(5) by (simp add: cancelled_later_snoc)
  qed
qed

text \<open>The converse holds while identifiers are not used twice.\<close>

lemma all_named_job:
  assumes "all_named acc n cancels cancelled" and "rq_Operation request \<noteq> LifecycleCancel"
  shows "all_named (acc @ [(request, Some c)]) n (cancels(rq_RequestID request := Some c)) cancelled"
  unfolding all_named_def
proof (intro impI allI)
  fix i d
  let ?acc = "acc @ [(request, Some c)]"
  assume ids: "distinct_ids ?acc" and "i < length ?acc" and d: "n \<le> i \<and> snd (?acc ! i) = Some d"
  then consider (old) "i < length acc" | (fresh) "i = length acc" by fastforce
  then show "(cancels(rq_RequestID request := Some c)) (id_at ?acc i) = Some d \<and> (cancelled_later ?acc i \<longrightarrow> d \<in> set cancelled)"
  proof cases
    case old
    have "id_at acc i \<noteq> rq_RequestID request"
    proof
      assume "id_at acc i = rq_RequestID request"
      then have "id_at ?acc i = id_at ?acc (length acc)" using old by (simp add: at_snoc) (simp add: id_at_def)
      then have "i = length acc" using ids d old unfolding distinct_ids_def by fastforce
      then show False using old by simp
    qed
    then show ?thesis
      using assms distinct_ids_snoc[OF ids] old d by (auto simp: all_named_def at_snoc nth_append cancelled_later_snoc)
  next
    case fresh
    then show ?thesis using d by (auto simp: id_at_def not_cancelled_later_last)
  qed
qed

lemma all_named_cancel:
  assumes "all_named acc n cancels cancelled" and "rq_Operation request = LifecycleCancel"
  shows "all_named (acc @ [(request, None)]) n cancels
    (case cancels (rq_CancelRequestID request) of None \<Rightarrow> cancelled | Some c \<Rightarrow> c # cancelled)"
  unfolding all_named_def
proof (intro impI allI)
  fix i d
  let ?acc = "acc @ [(request, None)]" and ?new = "case cancels (rq_CancelRequestID request) of None \<Rightarrow> cancelled | Some c \<Rightarrow> c # cancelled"
  assume ids: "distinct_ids ?acc" and "i < length ?acc" and d: "n \<le> i \<and> snd (?acc ! i) = Some d"
  then have i: "i < length acc" "snd (acc ! i) = Some d" by (auto simp: nth_append split: if_splits)
  then have entry: "cancels (id_at acc i) = Some d" "cancelled_later acc i \<longrightarrow> d \<in> set cancelled"
    using assms(1) distinct_ids_snoc[OF ids] d by (auto simp: all_named_def)
  have "set cancelled \<subseteq> set ?new" by (auto split: option.split)
  moreover have "d \<in> set ?new" if "rq_CancelRequestID request = id_at acc i" using that entry(1) by simp
  ultimately show "cancels (id_at ?acc i) = Some d \<and> (cancelled_later ?acc i \<longrightarrow> d \<in> set ?new)"
    using entry i(1) by (auto simp: at_snoc cancelled_later_snoc)
qed

lemma all_named_release:
  assumes "all_named acc n cancels cancelled" and "0 < n" and "n \<le> length acc" and "snd (acc ! (n - 1)) = Some c"
  shows "all_named acc n (cancels(id_at acc (n - 1) := None)) (c # cancelled)"
  unfolding all_named_def
proof (intro impI allI)
  fix i d
  assume ids: "distinct_ids acc" and i: "i < length acc" and d: "n \<le> i \<and> snd (acc ! i) = Some d"
  have "id_at acc i \<noteq> id_at acc (n - 1)"
    using ids i d assms(2-4) unfolding distinct_ids_def by (metis One_nat_def diff_Suc_less le_less_trans less_imp_diff_less not_le option.distinct(1))
  then show "(cancels(id_at acc (n - 1) := None)) (id_at acc i) = Some d \<and> (cancelled_later acc i \<longrightarrow> d \<in> set (c # cancelled))"
    using assms(1) ids i d by (auto simp: all_named_def)
qed

lemma all_named_mono: "all_named acc n cancels cancelled \<Longrightarrow> n \<le> m \<Longrightarrow> all_named acc m cancels cancelled"
  by (auto simp: all_named_def)

lemma only_named_mono: "only_named acc n cancelled \<Longrightarrow> n \<le> m \<Longrightarrow> only_named acc m cancelled"
  unfolding only_named_def by (meson less_le_trans)

lemma only_named_release:
  assumes "only_named acc n cancelled" and "numbered acc contexts" and "0 < n" and "n \<le> length acc"
    and "snd (acc ! (n - 1)) = Some c"
  shows "only_named acc n (c # cancelled)"
  using assms(1,3,4) numbered_inj[OF assms(2) _ _ _ assms(5)] unfolding only_named_def
  by (metis One_nat_def Suc_pred diff_less le_less_trans lessI not_le set_ConsD zero_less_one less_le_trans)

lemma registered_below:
  "registered acc cancels \<Longrightarrow> numbered acc contexts \<Longrightarrow> cancels key = Some c \<Longrightarrow> c < contexts"
  unfolding registered_def numbered_def by blast

lemma worker_ok_later:
  assumes "worker_ok acc n s" and "n \<le> length acc" and "sv_worker s' = sv_worker s"
    and "set (sv_cancelled s) \<subseteq> set (sv_cancelled s')"
  shows "worker_ok acc n s'" and "worker_ok (acc @ [x]) n s'"
proof -
  have "contextCancelled c s \<Longrightarrow> contextCancelled c s'" for c
    using assms(4) by (auto simp: contextCancelled_def split: option.splits)
  then show "worker_ok acc n s'" using assms(1,3) by (auto simp: worker_ok_def split: workerPhase.splits)
  then show "worker_ok (acc @ [x]) n s'" using assms(2) by (auto simp: worker_ok_def nth_append split: workerPhase.splits)
qed

text \<open>The steps that the contexts depend on.\<close>

lemma contexts_accepts_job:
  assumes "contexts_ok trace s" and "rq_Operation request \<noteq> LifecycleCancel"
  shows "contexts_ok (trace @ [Accepted request (Some (sv_contexts s))]) (acceptJob request (s\<lparr>sv_reader := ReaderReading\<rparr>))"
proof -
  let ?acc = "accepted_in trace" and ?n = "length (points_in trace)" and ?x = "(request, Some (sv_contexts s))"
  note ok = assms(1)[unfolded contexts_ok_def Let_def]
  have "only_named (?acc @ [?x]) ?n (sv_cancelled s)" using ok by (intro only_named_snoc) auto
  moreover have "worker_ok (?acc @ [?x]) ?n (acceptJob request (s\<lparr>sv_reader := ReaderReading\<rparr>))"
    using ok by (intro worker_ok_later(2)[of _ _ s]) (auto simp: acceptJob_def Let_def)
  ultimately show ?thesis
    using ok numbered_job[OF _ assms(2)] registered_job all_named_job[OF _ assms(2)]
    by (auto simp: contexts_ok_def Let_def acceptJob_def cancelled_later_snoc less_Suc_eq)
qed

lemma contexts_accepts_cancel:
  assumes "contexts_ok trace s" and "rq_Operation request = LifecycleCancel"
  shows "contexts_ok (trace @ [Accepted request None]) (acceptCancel request (s\<lparr>sv_reader := ReaderReading\<rparr>))"
proof -
  let ?acc = "accepted_in trace" and ?n = "length (points_in trace)"
  let ?new = "case sv_cancels s (rq_CancelRequestID request) of None \<Rightarrow> sv_cancelled s | Some c \<Rightarrow> c # sv_cancelled s"
  note ok = assms(1)[unfolded contexts_ok_def Let_def]
  let ?s = "acceptCancel request (s\<lparr>sv_reader := ReaderReading\<rparr>)"
  have after: "sv_cancelled ?s = ?new" "sv_contexts ?s = sv_contexts s" "sv_cancels ?s = sv_cancels s"
    by (simp_all add: acceptCancel_def split: option.split)
  have "\<forall>c \<in> set ?new. c < sv_contexts s"
    using ok registered_below[of ?acc "sv_cancels s" "sv_contexts s"] by (auto split: option.splits)
  moreover have "only_named (?acc @ [(request, None)]) ?n ?new"
    using ok only_named_snoc[of ?acc ?n "sv_cancelled s" "(request, None)"] only_named_fire[OF _ _ _ _ assms(2)]
    by (auto split: option.splits)
  moreover have "worker_ok (?acc @ [(request, None)]) ?n ?s"
    using ok by (intro worker_ok_later(2)[of _ _ s]) (auto simp: acceptCancel_def split: option.splits)
  moreover have "all_named (?acc @ [(request, None)]) ?n (sv_cancels s) ?new"
    using ok all_named_cancel[OF _ assms(2)] by blast
  ultimately show ?thesis
    using ok numbered_cancel[OF _ assms(2), of ?acc "sv_contexts s"] registered_cancel[of ?acc "sv_cancels s" request]
    by (simp add: contexts_ok_def Let_def after cancelled_later_snoc)
qed

lemma contexts_releases:
  assumes "contexts_ok trace s" and "sv_worker s = WorkerReleasing j response"
  shows "contexts_ok (trace @ [Internal]) (releaseJob j (s\<lparr>sv_worker := WorkerSending response\<rparr>))"
proof (cases "jb_context j")
  case None
  then show ?thesis using assms by (simp add: contexts_ok_def Let_def releaseJob_def worker_ok_def)
next
  case (Some c)
  let ?acc = "accepted_in trace" and ?n = "length (points_in trace)"
  note ok = assms(1)[unfolded contexts_ok_def Let_def]
  have j: "0 < ?n" "?acc ! (?n - 1) = (jb_request j, Some c)"
    using ok assms(2) Some by (auto simp: worker_ok_def accepted_job_def)
  have last: "snd (?acc ! (?n - 1)) = Some c" "id_at ?acc (?n - 1) = rq_RequestID (jb_request j)"
    using j(2) by (simp_all add: id_at_def)
  have "c < sv_contexts s"
  proof -
    have "?n - 1 < length ?acc" using ok j(1) by linarith
    then show ?thesis using ok last(1) unfolding numbered_def by blast
  qed
  moreover have "only_named ?acc ?n (c # sv_cancelled s)"
    using ok j(1) last(1) only_named_release[of ?acc ?n] by blast
  moreover have "all_named ?acc ?n ((sv_cancels s)(rq_RequestID (jb_request j) := None)) (c # sv_cancelled s)"
    using ok j(1) last all_named_release[of ?acc ?n "sv_cancels s" "sv_cancelled s" c] by simp
  ultimately show ?thesis
    using ok Some registered_release by (auto simp: contexts_ok_def Let_def releaseJob_def worker_ok_def)
qed

lemma contexts_answers:
  assumes "contexts_ok trace s" and "sv_worker s = WorkerComputing j before"
    and "polled before (contextCancelled (jb_context j) s) point"
  shows "contexts_ok (trace @ [Answered point]) (s\<lparr>sv_session := session, sv_worker := WorkerReleasing j response\<rparr>)"
proof -
  let ?acc = "accepted_in trace" and ?n = "length (points_in trace)"
  note ok = assms(1)[unfolded contexts_ok_def Let_def]
  have j: "?n < length ?acc" "?acc ! ?n = (jb_request j, jb_context j)" "before \<longrightarrow> contextCancelled (jb_context j) s"
    using ok assms(2) by (auto simp: worker_ok_def accepted_job_def)
  have "cancelled_later ?acc ?n" if "point \<noteq> None"
  proof -
    have "contextCancelled (jb_context j) s" using assms(3) j(3) that by (auto simp: polled_def split: if_splits)
    then show ?thesis using ok j(1,2) by (auto simp: contextCancelled_def only_named_def split: option.splits)
  qed
  moreover have "only_named ?acc (Suc ?n) (sv_cancelled s)" "all_named ?acc (Suc ?n) (sv_cancels s) (sv_cancelled s)"
    using ok only_named_mono all_named_mono le_SucI[OF order_refl] by blast+
  ultimately show ?thesis
    using ok j by (auto simp: contexts_ok_def Let_def worker_ok_def accepted_job_def nth_append less_Suc_eq)
qed

lemma contexts_takes:
  assumes "contexts_ok trace s" and "jobs_ok trace answered s" and "sv_worker s = WorkerIdle" and "q_items (sv_jobs s) = j # items"
  shows "contexts_ok (trace @ [Internal])
    (s\<lparr>sv_jobs := jobs, sv_worker := WorkerComputing j (contextCancelled (jb_context j) s)\<rparr>)"
proof -
  have "accepted_in trace = answered @ accepted_job j # map accepted_job items" "length answered = length (points_in trace)"
    using assms(2-4) by (simp_all add: jobs_ok_def waiting_def)
  then have "accepted_job j = accepted_in trace ! length (points_in trace)" "length (points_in trace) < length (accepted_in trace)"
    by (metis nth_append_length, simp)
  then show ?thesis
    using assms(1) by (auto simp: contexts_ok_def Let_def worker_ok_def contextCancelled_def split: option.splits)
qed

lemma contexts_step:
  assumes "service_step env s e s'" and "contexts_ok trace s" and "jobs_ok trace answered s"
  shows "contexts_ok (trace @ [e]) s'"
  using assms(1)
proof cases
  case (accepts_job payload request)
  then show ?thesis using contexts_accepts_job[OF assms(2)] by simp
next
  case (accepts_cancel payload request)
  then show ?thesis using contexts_accepts_cancel[OF assms(2)] by simp
next
  case (releases j response)
  then show ?thesis using contexts_releases[OF assms(2)] by simp
next
  case (answers j before point response session)
  then show ?thesis using contexts_answers[OF assms(2)] by simp
next
  case (takes_job j jobs)
  then have "\<exists>items. q_items (sv_jobs s) = j # items" by (auto simp: pop_def split: list.splits if_splits)
  then show ?thesis using takes_job contexts_takes[OF assms(2,3)] by auto
qed (use assms(2) in \<open>auto simp: contexts_ok_def Let_def worker_ok_def contextCancelled_def drain_def drained_def
  split: workerPhase.splits option.splits prod.splits\<close>)

lemma contexts_run:
  "service_run env (startService input session output) trace s \<Longrightarrow> contexts_ok trace s"
proof (induction rule: service_run.induct)
  case started
  then show ?case
    by (simp add: contexts_ok_def startService_def numbered_def registered_def only_named_def all_named_def worker_ok_def)
next
  case (stepped trace t e u)
  then show ?case using order_run[OF stepped.hyps(1)] contexts_step[OF stepped.hyps(2)] by (auto simp: order_ok_def)
qed

section \<open>Every run ends\<close>

text \<open>The work that is left: bytes, frames, jobs and responses on their way, and goroutines that run.\<close>

definition reader_work :: "readerPhase \<Rightarrow> nat" where
  "reader_work p = (case p of ReaderReading \<Rightarrow> 12 | ReaderOffering (Inl _) \<Rightarrow> 11 | ReaderOffering (Inr _) \<Rightarrow> 22 | ReaderGone \<Rightarrow> 0)"

definition main_work :: "mainPhase \<Rightarrow> nat" where
  "main_work p = (case p of MainReading \<Rightarrow> 5 | MainDraining _ \<Rightarrow> 1 | MainAborting _ \<Rightarrow> 1 | MainReturned _ \<Rightarrow> 0)"

definition worker_work :: "workerPhase \<Rightarrow> nat" where
  "worker_work p = (case p of WorkerIdle \<Rightarrow> 1 | WorkerComputing _ _ \<Rightarrow> 8 | WorkerReleasing _ _ \<Rightarrow> 7 | WorkerSending _ \<Rightarrow> 6 | WorkerGone \<Rightarrow> 0)"

definition writer_work :: "writerPhase \<Rightarrow> nat" where
  "writer_work p = (case p of WriterIdle \<Rightarrow> 1 | WriterWriting _ \<Rightarrow> 3 | WriterGone \<Rightarrow> 0)"

definition work_left :: "('s, 'o) service \<Rightarrow> nat" where
  "work_left s = 10 * length (rd_bytes (sv_input s)) + reader_work (sv_reader s) + main_work (sv_main s) +
     8 * length (q_items (sv_jobs s)) + worker_work (sv_worker s) + 4 * length (q_items (sv_responses s)) +
     writer_work (sv_writer s)"

lemmas work_defs = reader_work_def main_work_def worker_work_def writer_work_def

lemma readFrame_work:
  assumes "readFrame input = (r, input')"
  shows "10 * length (rd_bytes input') + reader_work (ReaderOffering r) < 10 * length (rd_bytes input) + 12"
  using assms by (cases rule: readFrame_cases[of input]) (auto simp: work_defs)

lemma work_step:
  assumes "service_step env s e s'"
  shows "work_left s' < work_left s"
  using assms
proof cases
  case (reads_frame r input)
  then show ?thesis using readFrame_work[OF reads_frame(4)] by (simp add: work_left_def) (simp add: reader_work_def)
qed (auto simp: work_left_def work_defs service_pieces Let_def split: option.splits list.splits if_splits prod.splits)

text \<open>Until the service has returned some goroutine can go on.\<close>

lemma worker_progress:
  assumes "q_closed (sv_jobs s)" and "sv_worker s \<noteq> WorkerGone"
  shows "\<exists>e s'. service_step env s e s'"
proof (cases "sv_worker s")
  case WorkerIdle
  show ?thesis
  proof (cases "q_items (sv_jobs s)")
    case Nil
    then have "pop (sv_jobs s) = Some (None, sv_jobs s)" using assms(1) by (simp add: pop_def)
    then show ?thesis using service_step.worker_ends[OF WorkerIdle] by blast
  next
    case (Cons j items)
    then have "\<exists>jobs. pop (sv_jobs s) = Some (Some j, jobs)" by (simp add: pop_def)
    then show ?thesis using service_step.takes_job[OF WorkerIdle] by blast
  qed
next
  case (WorkerComputing j before)
  have "polled before (contextCancelled (jb_context j) s) (if before then Some 0 else None)" by (simp add: polled_def)
  moreover obtain response session where "sve_respond env (if before then Some 0 else None) (jb_request j) (sv_session s) = (response, session)"
    by force
  ultimately show ?thesis using service_step.answers[OF WorkerComputing] by blast
next
  case (WorkerReleasing j r)
  then show ?thesis using service_step.releases by blast
next
  case (WorkerSending r)
  then show ?thesis using service_step.sends by blast
qed (use assms(2) in simp)

lemma writer_progress:
  assumes "q_closed (sv_responses s)" and "sv_writer s \<noteq> WriterGone"
  shows "\<exists>e s'. service_step env s e s'"
proof (cases "sv_writer s")
  case WriterIdle
  show ?thesis
  proof (cases "q_items (sv_responses s)")
    case Nil
    then have "pop (sv_responses s) = Some (None, sv_responses s)" using assms(1) by (simp add: pop_def)
    then show ?thesis using service_step.writer_ends[OF WriterIdle] by blast
  next
    case (Cons r items)
    then have "\<exists>responses. pop (sv_responses s) = Some (Some r, responses)" by (simp add: pop_def)
    then show ?thesis using service_step.takes_response[OF WriterIdle] by blast
  qed
next
  case (WriterWriting r)
  obtain x o' where run: "writeLifecycleResponse (sve_out env) (sve_marshal env) r (sv_output s) = (x, o')" by force
  show ?thesis
    by (cases x) (use service_step.write_fails[OF WriterWriting] service_step.writes[OF WriterWriting] run in blast)+
qed (use assms(2) in simp)

lemma main_progress:
  assumes "sv_main s = MainReading" and "sv_reader s \<noteq> ReaderGone"
  shows "\<exists>e s'. service_step env s e s'"
proof (cases "sv_reader s")
  case ReaderReading
  then show ?thesis using service_step.reads_frame[OF ReaderReading] by (metis surj_pair)
next
  case (ReaderOffering r)
  show ?thesis
  proof (cases r)
    case (Inl e)
    then show ?thesis using service_step.input_ends[OF assms(1)] ReaderOffering by blast
  next
    case (Inr payload)
    note offered = ReaderOffering[unfolded Inr]
    show ?thesis
    proof (cases "sve_Unmarshal env payload")
      case (Inl e)
      then show ?thesis using service_step.undecodable[OF assms(1) offered] by blast
    next
      case (Inr request)
      then show ?thesis
        using service_step.accepts_cancel[OF assms(1) offered] service_step.accepts_job[OF assms(1) offered] by blast
    qed
  qed
qed (use assms(2) in simp)

lemma service_progress:
  assumes "phases_ok trace s" and "\<forall>r. sv_main s \<noteq> MainReturned r"
  shows "\<exists>e s'. service_step env s e s'"
proof (cases "sv_main s = MainReading")
  case True
  then show ?thesis using main_progress assms(1) by (auto simp: phases_ok_def)
next
  case False
  then have closed: "q_closed (sv_jobs s)" using assms(1) by (simp add: phases_ok_def)
  show ?thesis
  proof (cases "sv_worker s = WorkerGone \<and> sv_writer s = WriterGone")
    case True
    then show ?thesis
      using False assms(2) service_step.returns_drained service_step.returns_aborted by (cases "sv_main s") blast+
  next
    case busy: False
    then show ?thesis
      using closed worker_progress writer_progress assms(1) unfolding phases_ok_def by blast
  qed
qed

lemma run_work: "service_run env s trace t \<Longrightarrow> length trace + work_left t \<le> work_left s"
proof (induction rule: service_run.induct)
  case (stepped trace t e u)
  then show ?case using work_step[OF stepped.hyps(2)] by simp
qed simp

lemma run_trans:
  "service_run env t trace' u \<Longrightarrow> service_run env s trace t \<Longrightarrow> service_run env s (trace @ trace') u"
proof (induction rule: service_run.induct)
  case (stepped trace' t' e u)
  then show ?case using service_run.stepped[of env s "trace @ trace'" t' e u] by simp
qed simp

lemma run_returns:
  assumes "service_run env (startService input session output) trace s"
  shows "\<exists>trace' t r. service_run env s trace' t \<and> sv_main t = MainReturned r"
  using assms
proof (induction "work_left s" arbitrary: s trace rule: less_induct)
  case less
  show ?case
  proof (cases "\<exists>r. sv_main s = MainReturned r")
    case True
    then show ?thesis using service_run.started by blast
  next
    case False
    then obtain e s' where step: "service_step env s e s'" using service_progress[OF phases_run[OF less.prems]] by blast
    then obtain trace' t r where "service_run env s' trace' t" "sv_main t = MainReturned r"
      using less.hyps[OF work_step[OF step] service_run.stepped[OF less.prems step]] by blast
    then show ?thesis using run_trans[OF _ service_run.stepped[OF service_run.started step]] by blast
  qed
qed

section \<open>An example\<close>

definition exampleLifecycle :: "LifecycleOperation \<Rightarrow> u64 \<Rightarrow> u64 \<Rightarrow> LifecycleRequest" where
  "exampleLifecycle operation i named = \<lparr>rq_Schema = 1, rq_RequestID = i, rq_Operation = operation, rq_ProjectID = ''p'',
     rq_Generation = 1, rq_Changes = [], rq_Demands = [], rq_CompactDemands = None, rq_StateToken = [],
     rq_ResetState = False, rq_RemovedDemandPaths = [], rq_SymbolQueries = [], rq_ReleaseAnalysis = False,
     rq_ReferenceChanges = False, rq_ReferencePaths = [], rq_CancelRequestID = named, rq_ModuleGraph = None\<rparr>"

definition exampleResponse :: LifecycleResponse where
  "exampleResponse = \<lparr>rs_Schema = 1, rs_RequestID = 1, rs_ProjectID = ''p'', rs_Generation = 1, rs_OK = True,
     rs_TableTransition = [], rs_SymbolEvidence = [], rs_ReferenceEvidence = [], rs_ChangedReferenceSymbols = [],
     rs_ReferenceChangesExact = False, rs_StateToken = [], rs_Affected = [], rs_Sources = [], rs_SourceArena = [],
     rs_SourceLengths = [], rs_Timings = None, rs_Error = None, rs_Modules = [], rs_ModuleImports = [],
     rs_UnknownImportPaths = []\<rparr>"

text \<open>The frame \<open>[1]\<close> is an analysis with identifier 7, every other frame cancels 7; a session counts requests.\<close>

definition exampleUnmarshal :: "bytes \<Rightarrow> LifecycleRequest result" where
  "exampleUnmarshal p = Inr (if p = [1] then exampleLifecycle LifecycleAnalyze 7 0 else exampleLifecycle LifecycleCancel 8 7)"

definition exampleServe :: "(nat, bytes) serveEnv" where
  "exampleServe = \<lparr>sve_Unmarshal = exampleUnmarshal,
     sve_respond = (\<lambda>point request n. (exampleResponse\<lparr>rs_OK := point = None\<rparr>, Suc n)),
     sve_marshal = \<lparr>ms_field = (\<lambda>_. Inr []), ms_response = (\<lambda>r. Inr [of_bool (rs_OK r)])\<rparr>, sve_out = bufferOut\<rparr>"

definition exampleFrames :: frameReader where
  "exampleFrames = \<lparr>rd_bytes = putLE 4 (1 :: 32 word) @ [1] @ putLE 4 (1 :: 32 word) @ [2], rd_end = ErrEOF\<rparr>"

lemma example_reads:
  "readFrame exampleFrames = (Inr [1], exampleFrames\<lparr>rd_bytes := putLE 4 (1 :: 32 word) @ [2]\<rparr>)"
  "readFrame (exampleFrames\<lparr>rd_bytes := putLE 4 (1 :: 32 word) @ [2]\<rparr>) = (Inr [2], exampleFrames\<lparr>rd_bytes := []\<rparr>)"
  using readFrame_frame[of "[1]" exampleFrames "putLE 4 (1 :: 32 word) @ [2]"]
    readFrame_frame[of "[2]" "exampleFrames\<lparr>rd_bytes := putLE 4 (1 :: 32 word) @ [2]\<rparr>" "[]"]
  by (simp_all add: exampleFrames_def MaxMessageBytes_def)

definition exampleStart :: "(nat, bytes) service" where
  "exampleStart = startService exampleFrames 0 []"

text \<open>Both frames arrive before the worker takes the analysis, which then sees its context cancelled.\<close>

lemma example_run_any:
  assumes "sve_Unmarshal env = exampleUnmarshal"
  shows "\<exists>s. service_run env (startService exampleFrames session output) [Internal, Accepted (exampleLifecycle LifecycleAnalyze 7 0) (Some 0), Internal,
     Accepted (exampleLifecycle LifecycleCancel 8 7) None, Internal, Answered (Some 0)] s"
proof -
  let ?request = "exampleLifecycle LifecycleAnalyze 7 0" and ?cancel = "exampleLifecycle LifecycleCancel 8 7"
  let ?s0 = "startService exampleFrames session output"
  let ?s1 = "?s0\<lparr>sv_input := exampleFrames\<lparr>rd_bytes := putLE 4 (1 :: 32 word) @ [2]\<rparr>, sv_reader := ReaderOffering (Inr [1])\<rparr>"
  let ?s2 = "acceptJob ?request (?s1\<lparr>sv_reader := ReaderReading\<rparr>)"
  let ?s3 = "?s2\<lparr>sv_input := exampleFrames\<lparr>rd_bytes := []\<rparr>, sv_reader := ReaderOffering (Inr [2])\<rparr>"
  let ?s4 = "acceptCancel ?cancel (?s3\<lparr>sv_reader := ReaderReading\<rparr>)"
  let ?j = "\<lparr>jb_request = ?request, jb_context = Some 0\<rparr>"
  let ?s5 = "?s4\<lparr>sv_jobs := (sv_jobs ?s4)\<lparr>q_items := [\<lparr>jb_request = ?cancel, jb_context = None\<rparr>]\<rparr>, sv_worker := WorkerComputing ?j True\<rparr>"
  note defs = startService_def assms exampleUnmarshal_def newQueue_def exampleLifecycle_def
    LifecycleCancel_def LifecycleAnalyze_def service_pieces Let_def contextCancelled_def polled_def
  have 1: "service_step env ?s0 Internal ?s1"
    by (rule service_step.reads_frame) (simp_all add: defs example_reads)
  have "service_step env ?s1 (Accepted ?request (Some (sv_contexts ?s1))) ?s2"
    by (rule service_step.accepts_job[where payload = "[1]"]) (simp_all add: defs)
  then have 2: "service_step env ?s1 (Accepted ?request (Some 0)) ?s2"
    by (simp add: startService_def)
  have 3: "service_step env ?s2 Internal ?s3"
    by (rule service_step.reads_frame) (simp_all add: defs example_reads)
  have 4: "service_step env ?s3 (Accepted ?cancel None) ?s4"
    by (rule service_step.accepts_cancel[where payload = "[2]"]) (simp_all add: defs)
  have "contextCancelled (jb_context ?j) ?s4" by (simp add: defs)
  moreover have "pop (sv_jobs ?s4) = Some (Some ?j, (sv_jobs ?s4)\<lparr>q_items := [\<lparr>jb_request = ?cancel, jb_context = None\<rparr>]\<rparr>)"
    "sv_worker ?s4 = WorkerIdle" by (simp_all add: defs)
  ultimately have 5: "service_step env ?s4 Internal ?s5"
    using service_step.takes_job[of ?s4 ?j] by simp
  obtain response session' where "sve_respond env (Some 0) (jb_request ?j) (sv_session ?s5) = (response, session')" by force
  then obtain s6 where 6: "service_step env ?s5 (Answered (Some 0)) s6"
    using service_step.answers[of ?s5 ?j True "Some 0"] by (auto simp: polled_def)
  show ?thesis
    using service_run.stepped[OF service_run.stepped[OF service_run.stepped[OF service_run.stepped[OF service_run.stepped[OF
      service_run.stepped[OF service_run.started 1] 2] 3] 4] 5] 6] by auto
qed

lemma example_run:
  "\<exists>s. service_run exampleServe exampleStart [Internal, Accepted (exampleLifecycle LifecycleAnalyze 7 0) (Some 0), Internal,
     Accepted (exampleLifecycle LifecycleCancel 8 7) None, Internal, Answered (Some 0)] s"
  unfolding exampleStart_def by (rule example_run_any) (simp add: exampleServe_def)

lemma example_closed_run:
  "\<exists>s. service_run exampleServe (startService \<lparr>rd_bytes = [], rd_end = ErrEOF\<rparr> 0 []) [Internal, Internal, Internal, Internal, Internal] s \<and>
     sv_main s = MainReturned None"
proof -
  let ?s0 = "startService \<lparr>rd_bytes = [], rd_end = ErrEOF\<rparr> 0 [] :: (nat, bytes) service"
  let ?s1 = "?s0\<lparr>sv_reader := ReaderOffering (Inl ErrEOF)\<rparr>"
  let ?s2 = "drain None (?s1\<lparr>sv_reader := ReaderGone\<rparr>)"
  let ?s3 = "?s2\<lparr>sv_responses := close_queue (sv_responses ?s2), sv_worker := WorkerGone\<rparr>"
  let ?s4 = "?s3\<lparr>sv_writer := WriterGone\<rparr>"
  note defs = startService_def exampleServe_def newQueue_def service_pieces bufferOut_def retS_def
  have "readFrame \<lparr>rd_bytes = [], rd_end = ErrEOF\<rparr> = (Inl ErrEOF, \<lparr>rd_bytes = [], rd_end = ErrEOF\<rparr>)"
    by (simp add: readFrame_def bindS_def ReadFull_def)
  then have 1: "service_step exampleServe ?s0 Internal ?s1"
    using service_step.reads_frame[of ?s0 "Inl ErrEOF" "\<lparr>rd_bytes = [], rd_end = ErrEOF\<rparr>" exampleServe] by (simp add: startService_def)
  have 2: "service_step exampleServe ?s1 Internal ?s2"
    using service_step.input_ends[of ?s1 ErrEOF] by (simp add: defs)
  have 3: "service_step exampleServe ?s2 Internal ?s3"
    by (rule service_step.worker_ends) (simp_all add: defs)
  have 4: "service_step exampleServe ?s3 Internal ?s4"
    by (rule service_step.writer_ends) (simp_all add: defs)
  have 5: "service_step exampleServe ?s4 Internal (drained exampleServe None ?s4)"
    by (rule service_step.returns_drained) (simp_all add: defs)
  have "sv_main (drained exampleServe None ?s4) = MainReturned None" by (simp add: defs)
  then show ?thesis
    using service_run.stepped[OF service_run.stepped[OF service_run.stepped[OF service_run.stepped[OF
      service_run.stepped[OF service_run.started 1] 2] 3] 4] 5] by auto
qed

section \<open>Properties\<close>

lemma answers_in_order:
  assumes "service_run env (startService input session output) trace s"
  shows "\<exists>responses. serveAll env (zip (map fst (accepted_in trace)) (points_in trace)) session = (responses, sv_session s) \<and>
    length (points_in trace) \<le> length (accepted_in trace) \<and> take (length (written_in trace)) responses = written_in trace \<and>
    (sv_main s = MainReturned None \<longrightarrow> length (points_in trace) = length (accepted_in trace) \<and> written_in trace = responses \<and>
       (\<exists>o'. writeAll env responses output = (Inr (), o') \<and> bw_Flush (sve_out env) o' = (Inr (), sv_output s)))"
proof -
  obtain answered lost where ok: "phases_ok trace s" "output_ok env output trace s" "jobs_ok trace answered s"
    "answers_ok env session trace answered lost s"
    using order_run[OF assms] by (auto simp: order_ok_def)
  have "zip (map fst (accepted_in trace)) (points_in trace) = zip (map fst answered) (points_in trace)"
    using ok(3) by (simp add: jobs_ok_def zip_append1)
  then have all: "serveAll env (zip (map fst (accepted_in trace)) (points_in trace)) session =
      (written_in trace @ lost @ in_flight s, sv_session s)"
    using ok(4) by (simp add: answers_ok_def)
  have "length (points_in trace) \<le> length (accepted_in trace)" using ok(3) by (simp add: jobs_ok_def)
  moreover have "length (points_in trace) = length (accepted_in trace) \<and> lost @ in_flight s = [] \<and>
      (\<exists>o'. writeAll env (written_in trace) output = (Inr (), o') \<and> bw_Flush (sve_out env) o' = (Inr (), sv_output s))"
    if "sv_main s = MainReturned None"
    using that ok by (auto simp: phases_ok_def output_ok_def jobs_ok_def answers_ok_def waiting_def in_flight_def)
  ultimately show ?thesis by (intro exI[of _ "written_in trace @ lost @ in_flight s"]) (auto simp: all)
qed

text \<open>
  C3. However the four goroutines interleave, the service is a sequential server: the answers computed so
  far and the session are those of serving the accepted requests one after the other in arrival order,
  the responses written are a prefix of these answers, and when the service returns without an error
  every accepted request was answered, every answer was written, in order, and the output was flushed.
\<close>

theorem serve_answers_in_order:
  assumes "service_run env (startService input session output) trace s"
  shows "\<exists>responses. serveAll env (zip (map fst (accepted_in trace)) (points_in trace)) session = (responses, sv_session s) \<and>
    length (points_in trace) \<le> length (accepted_in trace) \<and> take (length (written_in trace)) responses = written_in trace \<and>
    (sv_main s = MainReturned None \<longrightarrow> length (points_in trace) = length (accepted_in trace) \<and> written_in trace = responses \<and>
       (\<exists>o'. writeAll env responses output = (Inr (), o') \<and> bw_Flush (sve_out env) o' = (Inr (), sv_output s)))"
  by (rule answers_in_order[OF assms])

theorem serve_answers_in_order_witness:
  "(\<exists>trace s. service_run exampleServe exampleStart trace s \<and> accepted_in trace \<noteq> [] \<and> sv_session s = 1) \<and>
   (\<exists>trace s. service_run exampleServe (startService \<lparr>rd_bytes = [], rd_end = ErrEOF\<rparr> 0 []) trace s \<and>
      sv_main s = MainReturned None \<and> sv_output s = [])"
proof (intro conjI)
  obtain s where run: "service_run exampleServe exampleStart [Internal, Accepted (exampleLifecycle LifecycleAnalyze 7 0) (Some 0),
     Internal, Accepted (exampleLifecycle LifecycleCancel 8 7) None, Internal, Answered (Some 0)] s"
    using example_run by blast
  have "sv_session s = 1"
    using serve_answers_in_order[OF run[unfolded exampleStart_def]]
    by (auto simp: accepted_in_def points_in_def exampleServe_def)
  then show "\<exists>trace s. service_run exampleServe exampleStart trace s \<and> accepted_in trace \<noteq> [] \<and> sv_session s = 1"
    using run by (intro exI[of _ "[Internal, Accepted (exampleLifecycle LifecycleAnalyze 7 0) (Some 0),
     Internal, Accepted (exampleLifecycle LifecycleCancel 8 7) None, Internal, Answered (Some 0)]"]) (auto simp: accepted_in_def)
  obtain t where closed: "service_run exampleServe (startService \<lparr>rd_bytes = [], rd_end = ErrEOF\<rparr> 0 [])
      [Internal, Internal, Internal, Internal, Internal] t" "sv_main t = MainReturned None"
    using example_closed_run by blast
  have "sv_output t = []"
    using serve_answers_in_order[OF closed(1)] closed(2)
    by (auto simp: accepted_in_def points_in_def writeAll_def exampleServe_def bufferOut_def retS_def)
  then show "\<exists>trace s. service_run exampleServe (startService \<lparr>rd_bytes = [], rd_end = ErrEOF\<rparr> 0 []) trace s \<and>
      sv_main s = MainReturned None \<and> sv_output s = []" using closed by blast
qed

text \<open>
  C7. The service never deadlocks and always returns: on an input of \<open>n\<close> bytes no run has more than
  \<open>10 * n + 19\<close> steps, a run that has not returned can go on, and every run extends to one in which the
  main loop has returned and the worker and the writer have ended.
\<close>

theorem serve_always_returns:
  assumes "service_run env (startService input session output) trace s"
  shows "length trace \<le> 10 * length (rd_bytes input) + 19 \<and>
    ((\<forall>r. sv_main s \<noteq> MainReturned r) \<longrightarrow> (\<exists>e s'. service_step env s e s')) \<and>
    (\<exists>trace' t r. service_run env s trace' t \<and> sv_main t = MainReturned r \<and> sv_worker t = WorkerGone \<and> sv_writer t = WriterGone)"
proof -
  have "work_left (startService input session output) = 10 * length (rd_bytes input) + 19"
    by (simp add: work_left_def work_defs startService_def newQueue_def)
  then have "length trace \<le> 10 * length (rd_bytes input) + 19" using run_work[OF assms] by simp
  moreover have "(\<forall>r. sv_main s \<noteq> MainReturned r) \<longrightarrow> (\<exists>e s'. service_step env s e s')"
    using service_progress[OF phases_run[OF assms]] by blast
  moreover obtain trace' t r where t: "service_run env s trace' t" "sv_main t = MainReturned r"
    using run_returns[OF assms] by blast
  moreover have "sv_worker t = WorkerGone \<and> sv_writer t = WriterGone"
    using phases_run[OF run_trans[OF t(1) assms]] t(2) by (simp add: phases_ok_def)
  ultimately show ?thesis by blast
qed

theorem serve_always_returns_witness:
  "\<exists>s trace t r. service_run exampleServe exampleStart [Internal, Accepted (exampleLifecycle LifecycleAnalyze 7 0) (Some 0),
     Internal, Accepted (exampleLifecycle LifecycleCancel 8 7) None, Internal, Answered (Some 0)] s \<and>
     service_run exampleServe s trace t \<and> sv_main t = MainReturned r"
proof -
  obtain s where run: "service_run exampleServe exampleStart [Internal, Accepted (exampleLifecycle LifecycleAnalyze 7 0) (Some 0),
     Internal, Accepted (exampleLifecycle LifecycleCancel 8 7) None, Internal, Answered (Some 0)] s"
    using example_run by blast
  then show ?thesis using serve_always_returns[OF run[unfolded exampleStart_def]] by blast
qed

text \<open>
  C8. A cancel frame reaches the request it names and no other. A request whose operation saw its context
  cancelled was named, after its arrival, by a cancel frame before its identifier was used again; and
  while identifiers are not used twice, the context of every request that is not answered yet is
  cancelled exactly when a cancel frame that arrived after it names it.
\<close>

theorem serve_cancels_named:
  assumes "service_run env (startService input session output) trace s"
  shows "(\<forall>i < length (points_in trace). points_in trace ! i \<noteq> None \<longrightarrow> cancelled_later (accepted_in trace) i) \<and>
    (distinct_ids (accepted_in trace) \<longrightarrow>
       (\<forall>i. length (points_in trace) \<le> i \<and> i < length (accepted_in trace) \<longrightarrow>
          contextCancelled (snd (accepted_in trace ! i)) s =
            (snd (accepted_in trace ! i) \<noteq> None \<and> cancelled_later (accepted_in trace) i)))"
proof -
  note ok = contexts_run[OF assms, unfolded contexts_ok_def Let_def]
  have "contextCancelled (snd (accepted_in trace ! i)) s = (snd (accepted_in trace ! i) \<noteq> None \<and> cancelled_later (accepted_in trace) i)"
    if "distinct_ids (accepted_in trace)" "length (points_in trace) \<le> i" "i < length (accepted_in trace)" for i
    using that ok unfolding contextCancelled_def only_named_def all_named_def by (cases "snd (accepted_in trace ! i)") auto
  then show ?thesis using ok by blast
qed

theorem serve_cancels_named_witness:
  "\<exists>s. service_run exampleServe exampleStart [Internal, Accepted (exampleLifecycle LifecycleAnalyze 7 0) (Some 0),
     Internal, Accepted (exampleLifecycle LifecycleCancel 8 7) None, Internal, Answered (Some 0)] s \<and>
     cancelled_later [(exampleLifecycle LifecycleAnalyze 7 0, Some 0), (exampleLifecycle LifecycleCancel 8 7, None)] 0"
proof -
  obtain s where run: "service_run exampleServe exampleStart [Internal, Accepted (exampleLifecycle LifecycleAnalyze 7 0) (Some 0),
     Internal, Accepted (exampleLifecycle LifecycleCancel 8 7) None, Internal, Answered (Some 0)] s"
    using example_run by blast
  then show ?thesis
    using serve_cancels_named[OF run[unfolded exampleStart_def]] by (auto simp: accepted_in_def points_in_def)
qed

end
