(* ===== verification/Demand_Closure.thy ===== *)
theory Demand_Closure
  imports Retained_Store Fact_Table Go_State Protocol
begin

text \<open>
  The demand closure (\<^verbatim>\<open>closure.go\<close>, \<^verbatim>\<open>semantic_demand.go\<close>, \<^verbatim>\<open>semantic_retained.go\<close>): one
  generation's fact table is materialized from the retained demand groups, reusing the contribution of
  every file outside the changed paths. The compiler behind it is a parameter, a record of the methods
  of \<^verbatim>\<open>ClosureBackend\<close> on an abstract environment \<open>'w\<close>; the context of a request is observed only
  through \<^verbatim>\<open>ctx.Err()\<close>, which another goroutine may make fail at any time, so it is a method of that
  environment as well. Go sets and maps are lists and association lists whose order nothing observes.
  The scratch slices and maps that the closure keeps only to reuse memory are not part of the state,
  nor are the fields of the symbol closure that moved to the client (\<^verbatim>\<open>symbol_closure.go\<close>).
\<close>

section \<open>The environment\<close>

record SemanticDemandRun =
  sdr_Path :: string
  sdr_Demands :: "EntityDemand list"

record 'w ClosureEnv =
  env_Err :: "'w \<Rightarrow> go_error option \<times> 'w"
  env_maphash :: "bytes \<Rightarrow> u64"
  cb_SourceFiles :: "('w, SourceFile list) proc"
  cb_SourceDigests :: "('w, SourceDigest list) proc"
  cb_Update :: "FileChange list \<Rightarrow> ('w, string list) proc"
  cb_Close :: "('w, unit) proc"
  cb_SemanticDemandRuns ::
    "SemanticDemandRun list \<Rightarrow> SymbolID set \<Rightarrow> (SymbolID \<rightharpoonup> TypeDescriptor) \<Rightarrow>
     ('w, SemanticDemandRunResult list) proc"
  cb_AsyncFunctionsAt :: "Location list \<Rightarrow> ('w, AsyncFunctionFact list) proc"
  cb_SymbolEvidence :: "SymbolQueryV6 list \<Rightarrow> ('w, SymbolFact list) proc"
  cb_ChangedReferences :: "('w, SymbolID list \<times> bool) proc"
  cb_ReleaseAnalysisState :: "('w, unit) proc"
  cb_ModuleGraph :: "(ModuleInventoryDemand \<Rightarrow> ('w, ModuleInventory) proc) option"

section \<open>State\<close>

record ClosureRetention =
  cr_RetainedFiles :: nat
  cr_RecomputedFiles :: nat
  cr_RetainedAsyncFiles :: nat
  cr_RecomputedAsyncFiles :: nat
  cr_NonDurableFiles :: nat
  cr_SuppressionRecompute :: bool

record ClosureStats =
  cs_BuildSequence :: u64
  cs_Generation :: u64
  cs_Files :: nat
  cs_Entities :: nat
  cs_Symbols :: nat
  cs_FullTierSymbols :: nat
  cs_Retention :: ClosureRetention

definition zeroRetention :: ClosureRetention where
  "zeroRetention = \<lparr>cr_RetainedFiles = 0, cr_RecomputedFiles = 0, cr_RetainedAsyncFiles = 0,
     cr_RecomputedAsyncFiles = 0, cr_NonDurableFiles = 0, cr_SuppressionRecompute = False\<rparr>"

definition zeroStats :: ClosureStats where
  "zeroStats = \<lparr>cs_BuildSequence = 0, cs_Generation = 0, cs_Files = 0, cs_Entities = 0, cs_Symbols = 0,
     cs_FullTierSymbols = 0, cs_Retention = zeroRetention\<rparr>"

text \<open>
  The field \<open>cl_heap\<close> holds the contributions that the store and the demand groups share by pointer, and
  \<open>cl_backend\<close> the state of the environment.
\<close>

record 'w DemandClosure =
  cl_backend :: 'w
  cl_table :: "FactTable option"
  cl_previousTable :: "FactTable option"
  cl_recyclableTable :: "FactTable option"
  cl_transportChangedPaths :: "string list option"
  cl_stats :: ClosureStats
  cl_generation :: u64
  cl_nextTableStateID :: u64
  cl_closed :: bool
  cl_retained :: retainedContributionStore
  cl_heap :: contributionHeap
  cl_lastSuppression :: "SymbolID list option"
  cl_symbolReferences :: "(SymbolID \<times> Location list) list"
  cl_symbolsByPath :: "(string \<times> SymbolID list) list"
  cl_invalidatedSymbols :: "SymbolID list"
  cl_asyncFiles :: "(string \<times> AsyncFunctionFact list) list option"

definition emptyContributionStore :: retainedContributionStore where
  "emptyContributionStore = \<lparr>rcs_byPath = [], rcs_dependentsByPath = [], rcs_descriptorUsers = []\<rparr>"

definition newDemandClosure :: "'w \<Rightarrow> 'w DemandClosure" where
  "newDemandClosure backend = \<lparr>cl_backend = backend, cl_table = None, cl_previousTable = None,
     cl_recyclableTable = None, cl_transportChangedPaths = None, cl_stats = zeroStats, cl_generation = 1,
     cl_nextTableStateID = 0, cl_closed = False, cl_retained = emptyContributionStore, cl_heap = [],
     cl_lastSuppression = None, cl_symbolReferences = [], cl_symbolsByPath = [],
     cl_invalidatedSymbols = [], cl_asyncFiles = None\<rparr>"

definition backendS :: "('w, 'v) proc \<Rightarrow> ('w DemandClosure, 'v) proc" where
  "backendS = partS cl_backend (\<lambda>w p. p\<lparr>cl_backend := w\<rparr>)"

definition ctxCheck :: "'w ClosureEnv \<Rightarrow> ('w DemandClosure, unit) proc" where
  "ctxCheck env p =
     (case env_Err env (cl_backend p) of
        (None, w) \<Rightarrow> (Inr (), p\<lparr>cl_backend := w\<rparr>)
      | (Some e, w) \<Rightarrow> (Inl e, p\<lparr>cl_backend := w\<rparr>))"

section \<open>The reset\<close>

definition resetAnalysisStateLocked :: "'w DemandClosure \<Rightarrow> 'w DemandClosure" where
  "resetAnalysisStateLocked p = p\<lparr>cl_table := None, cl_previousTable := None, cl_recyclableTable := None,
     cl_transportChangedPaths := None, cl_symbolReferences := [], cl_symbolsByPath := [],
     cl_retained := rcs_reset (cl_retained p), cl_lastSuppression := None, cl_asyncFiles := None,
     cl_invalidatedSymbols := []\<rparr>"

definition abandonAnalysis :: "'w DemandClosure \<Rightarrow> 'w DemandClosure" where
  "abandonAnalysis = resetAnalysisStateLocked"

definition forceFullMaterialization :: "'w DemandClosure \<Rightarrow> 'w DemandClosure" where
  "forceFullMaterialization = resetAnalysisStateLocked"

text \<open>The loop over the store releases the rows behind every stored pointer.\<close>

definition releaseStoredRows :: "retainedContributionStore \<Rightarrow> contributionHeap \<Rightarrow> contributionHeap" where
  "releaseStoredRows s heap =
     fold (\<lambda>(path, ref) heap. heap[ref := releaseContributionRows (heap ! ref)]) (rcs_byPath s) heap"

definition releaseTransportRows :: "'w DemandClosure \<Rightarrow> 'w DemandClosure" where
  "releaseTransportRows p =
     (case cl_table p of
        None \<Rightarrow> p
      | Some t \<Rightarrow> p\<lparr>cl_heap := releaseStoredRows (cl_retained p) (cl_heap p),
          cl_table := Some (t\<lparr>ft_Entities := [], ft_entityRuns := map_option (\<lambda>_. []) (ft_entityRuns t),
            ft_Files := [], ft_sourceDigests := []\<rparr>)\<rparr>)"

section \<open>The index of symbols by declaring path\<close>

definition symbolsAt :: "string \<Rightarrow> (string \<times> SymbolID list) list \<Rightarrow> SymbolID list" where
  "symbolsAt path index = (case map_of index path of None \<Rightarrow> [] | Some ids \<Rightarrow> ids)"

definition declaredPaths :: "SymbolFact \<Rightarrow> string list" where
  "declaredPaths fact' = map (\<lambda>d. loc_Path (decl_Location d)) (sym_Declarations fact')"

definition indexSymbolFact ::
    "SymbolFact \<Rightarrow> (string \<times> SymbolID list) list \<Rightarrow> (string \<times> SymbolID list) list" where
  "indexSymbolFact fact' index =
     fold (\<lambda>path index.
       if sym_ID fact' \<in> set (symbolsAt path index) then index
       else AList.update path (symbolsAt path index @ [sym_ID fact']) index) (declaredPaths fact') index"

definition unindexSymbolFact ::
    "SymbolFact \<Rightarrow> (string \<times> SymbolID list) list \<Rightarrow> (string \<times> SymbolID list) list" where
  "unindexSymbolFact fact' index =
     fold (\<lambda>path index.
       let ids = remove1 (sym_ID fact') (symbolsAt path index) in
       if ids = [] then AList.delete path index else AList.update path ids index) (declaredPaths fact') index"

text \<open>
  The inner loop of \<^verbatim>\<open>Update\<close> runs until the bucket of a path is empty. It reads the table of the
  closure, which is a nil pointer dereference when there is none.
\<close>

partial_function (option) evictSymbols ::
    "string \<Rightarrow> 'w DemandClosure \<Rightarrow> (unit result \<times> 'w DemandClosure) option" where
  "evictSymbols path p =
     (let ids = symbolsAt path (cl_symbolsByPath p) in
      if ids = [] then Some (Inr (), p)
      else
        let symbol = last ids;
            p = p\<lparr>cl_invalidatedSymbols := List.insert symbol (cl_invalidatedSymbols p)\<rparr>
        in
        case cl_table p of
          None \<Rightarrow> Some (Inl (Panic ''nil pointer dereference: p.table''), p)
        | Some t \<Rightarrow>
            let index = (case canonicalSymbol t symbol of
                  Some fact' \<Rightarrow> unindexSymbolFact fact' (cl_symbolsByPath p)
                | None \<Rightarrow> AList.update path (butlast ids) (cl_symbolsByPath p))
            in evictSymbols path (p\<lparr>cl_symbolsByPath := index,
                 cl_symbolReferences := AList.delete symbol (cl_symbolReferences p)\<rparr>))"

text \<open>A loop that never ends is an error value of its own.\<close>

definition evictPath :: "string \<Rightarrow> ('w DemandClosure, unit) proc" where
  "evictPath path p =
     (case evictSymbols path p of
        None \<Rightarrow> (Inl (Panic ''the loop over symbolsByPath does not end''), p)
      | Some r \<Rightarrow> r)"

section \<open>Update and close\<close>

definition invalidPathsOf :: "string list \<Rightarrow> FileChange list \<Rightarrow> string list" where
  "invalidPathsOf affected changes =
     fold (\<lambda>change paths. List.insert (Clean (fc_Path change)) paths) changes
       (fold List.insert affected [])"

definition Update :: "'w ClosureEnv \<Rightarrow> FileChange list \<Rightarrow> ('w DemandClosure, string list) proc" where
  "Update env changes =
     bindS (backendS (cb_Update env changes)) (\<lambda>affected.
       let invalidPaths = invalidPathsOf affected changes in
     bindS (loopS (\<lambda>path _. evictPath path) invalidPaths ()) (\<lambda>_.
     bindS (modS (\<lambda>p.
       let (store, paths) = rcs_invalidate (cl_heap p) invalidPaths (cl_retained p) in
       p\<lparr>cl_previousTable := cl_table p, cl_table := None, cl_transportChangedPaths := Some paths,
         cl_retained := store, cl_generation := cl_generation p + 1\<rparr>)) (\<lambda>_.
     retS affected)))"

definition Close_closure :: "'w ClosureEnv \<Rightarrow> ('w DemandClosure, unit) proc" where
  "Close_closure env =
     bindS (modS (\<lambda>p. resetAnalysisStateLocked (p\<lparr>cl_closed := True\<rparr>))) (\<lambda>_. backendS (cb_Close env))"

section \<open>Reads of the backend\<close>

definition whenOpen :: "('w DemandClosure, 'v) proc \<Rightarrow> ('w DemandClosure, 'v) proc" where
  "whenOpen m =
     bindS (getS cl_closed) (\<lambda>closed. if closed then failS (Errorf ''closure project is closed'') else m)"

definition SourceFiles :: "'w ClosureEnv \<Rightarrow> ('w DemandClosure, SourceFile list) proc" where
  "SourceFiles env = whenOpen (backendS (cb_SourceFiles env))"

definition ModuleGraph ::
    "'w ClosureEnv \<Rightarrow> ModuleInventoryDemand \<Rightarrow> ('w DemandClosure, ModuleInventory) proc" where
  "ModuleGraph env demand =
     whenOpen (case cb_ModuleGraph env of
         None \<Rightarrow> failS ErrModuleGraphUnavailable
       | Some provider \<Rightarrow> backendS (provider demand))"

text \<open>The production backend answers a batch of queries in one call.\<close>

definition resolveSymbolEvidence ::
    "'w ClosureEnv \<Rightarrow> SymbolQueryV6 list \<Rightarrow> ('w DemandClosure, SymbolFact list) proc" where
  "resolveSymbolEvidence env batch = whenOpen (backendS (cb_SymbolEvidence env batch))"

definition releaseBackendAnalysisState :: "'w ClosureEnv \<Rightarrow> ('w DemandClosure, unit) proc" where
  "releaseBackendAnalysisState env = backendS (cb_ReleaseAnalysisState env)"

definition changedReferences :: "'w ClosureEnv \<Rightarrow> ('w DemandClosure, SymbolID list \<times> bool) proc" where
  "changedReferences env = backendS (cb_ChangedReferences env)"

end
