(* ===== verification/Materialize.thy ===== *)
theory Materialize
  imports Demand_Closure
begin

text \<open>
  Materialization (\<^verbatim>\<open>materializeSemanticDemandRetained\<close> of \<^verbatim>\<open>semantic_retained.go\<close> and its callers in
  \<^verbatim>\<open>semantic_demand.go\<close>), stage by stage: the async rows, the scan that separates retained from changed
  groups, the rebuild of contributions from the backend's results, the refresh of the groups whose
  descriptors a suppression change touches, and the assembly and commit of the table. The demand groups
  are the slice of the caller's store and are updated in place.
\<close>

section \<open>Pure helpers\<close>

text \<open>Little-endian bytes, and the bytes of a demand run that its hash reads.\<close>

definition AppendUint64 :: "u64 \<Rightarrow> bytes" where
  "AppendUint64 v = map (\<lambda>i. ucast (drop_bit (8 * i) v)) [0..<8]"

definition flagByte :: "bool \<Rightarrow> u8" where
  "flagByte value = (if value then 1 else 0)"

definition demandFlagBytes :: "EntityDemand \<Rightarrow> bytes" where
  "demandFlagBytes d = map flagByte
     [dem_Symbol d, dem_TypeDescriptor d, dem_ResolvedCall d, dem_Callability d, dem_Constructability d,
      dem_RuntimeValueDomain d, dem_PrimitiveValueDomain d, dem_PrimitiveLiteralCandidates d,
      dem_ParameterObjectShape d, dem_CallResultDomain d, dem_ConstantValue d, dem_ArrayShape d,
      dem_TupleShape d, dem_LibraryTypes d, dem_References d, dem_Async d, dem_StructuralAccessor d,
      dem_ReferenceSpace d, dem_RuntimeIdentity d]"

definition demandHashBytes :: "EntityDemand \<Rightarrow> bytes" where
  "demandHashBytes d =
     AppendUint64 (uint64 (loc_StartByte (dem_Location d))) @
     AppendUint64 (uint64 (loc_EndByte (dem_Location d))) @
     (case dem_QueryLocation d of
        Some q \<Rightarrow> 1 # AppendUint64 (uint64 (loc_StartByte q)) @ AppendUint64 (uint64 (loc_EndByte q))
      | None \<Rightarrow> [0]) @
     demandFlagBytes d"

text \<open>The seeded hash of the process is a parameter; it depends only on the bytes written to it.\<close>

definition demandListHash :: "(bytes \<Rightarrow> u64) \<Rightarrow> EntityDemand list \<Rightarrow> u64" where
  "demandListHash maphash demands = maphash (concat (map demandHashBytes demands))"

definition DurableSymbolID :: "SymbolID \<Rightarrow> bool" where
  "DurableSymbolID symbol \<longleftrightarrow> symbol = [] \<or> take 9 symbol = ''symbol:h:''"

definition durableAsyncFunctions :: "AsyncFunctionFact list \<Rightarrow> bool" where
  "durableAsyncFunctions facts \<longleftrightarrow>
     list_all (\<lambda>f. DurableSymbolID (af_Symbol f) \<and> DurableSymbolID (af_Target f)) facts"

definition symbolSetsEqual :: "SymbolID list \<Rightarrow> SymbolID list \<Rightarrow> bool" where
  "symbolSetsEqual left right \<longleftrightarrow> length left = length right \<and> list_all (\<lambda>s. s \<in> set right) left"

fun digestOrder :: "SourceDigest option \<Rightarrow> SourceDigest list \<Rightarrow> unit result" where
  "digestOrder previous [] = Inr ()"
| "digestOrder previous (d # ds) =
     (if dig_Path d = [] \<or> Clean (dig_Path d) \<noteq> dig_Path d
      then Inl (Errorf ''source digest path is not clean and non-empty'')
      else if (case previous of None \<Rightarrow> False | Some p \<Rightarrow> dig_Path d \<le> dig_Path p)
      then Inl (Errorf ''source digests are not strictly path-ordered'')
      else digestOrder (Some d) ds)"

definition semanticSourceDigests :: "'w ClosureEnv \<Rightarrow> ('w DemandClosure, SourceDigest list) proc" where
  "semanticSourceDigests env =
     bindS (backendS (cb_SourceDigests env)) (\<lambda>digests.
     bindS (liftS (digestOrder None digests)) (\<lambda>_. retS digests))"

section \<open>Async rows\<close>

type_synonym asyncFacts = "(string \<times> AsyncFunctionFact list) list"
type_synonym demandWindow = "string \<times> EntityDemand list"

definition factsAt :: "string \<Rightarrow> asyncFacts \<Rightarrow> AsyncFunctionFact list" where
  "factsAt path byPath = (case map_of byPath path of None \<Rightarrow> [] | Some facts \<Rightarrow> facts)"

definition asyncFunctionsForDemands ::
    "'w ClosureEnv \<Rightarrow> EntityDemand list \<Rightarrow> ('w DemandClosure, asyncFacts) proc" where
  "asyncFunctionsForDemands env demands =
     bindS (backendS (cb_AsyncFunctionsAt env
       (map (\<lambda>d. cleanLocation (dem_Location d)) (filter dem_Async demands)))) (\<lambda>facts.
     retS (fold (\<lambda>f byPath.
       let path = Clean (loc_Path (af_Expression f));
           f = f\<lparr>af_Expression := (af_Expression f)\<lparr>loc_Path := path\<rparr>\<rparr>
       in AList.update path (factsAt path byPath @ [f]) byPath) facts []))"

text \<open>The flat backing slice and the window of every group with async demands.\<close>

fun asyncGroups :: "demandGroup list \<Rightarrow> EntityDemand list \<Rightarrow> demandWindow list result" where
  "asyncGroups [] flat = Inr []"
| "asyncGroups (g # gs) flat =
     bind_result (appendAsyncDemands g flat) (\<lambda>flat'.
     bind_result (asyncGroups gs flat') (\<lambda>windows.
       Inr (if length flat < length flat' then (dg_path g, drop (length flat) flat') # windows else windows)))"

record asyncPlan =
  ap_refreshPaths :: "string list"
  ap_refreshDemands :: "EntityDemand list"
  ap_byPath :: asyncFacts
  ap_retained :: nat

definition planAsyncGroup ::
    "bool \<Rightarrow> string list \<Rightarrow> asyncFacts \<Rightarrow> demandWindow \<Rightarrow> asyncPlan \<Rightarrow> asyncPlan" where
  "planAsyncGroup refreshAll changedPaths cache = (\<lambda>(path, demands) plan.
     case map_of cache path of
       Some cached \<Rightarrow>
         if refreshAll \<or> path \<in> set changedPaths
         then plan\<lparr>ap_refreshPaths := List.insert path (ap_refreshPaths plan),
                ap_refreshDemands := ap_refreshDemands plan @ demands\<rparr>
         else plan\<lparr>ap_byPath := AList.update path cached (ap_byPath plan), ap_retained := ap_retained plan + 1\<rparr>
     | None \<Rightarrow> plan\<lparr>ap_refreshPaths := List.insert path (ap_refreshPaths plan),
         ap_refreshDemands := ap_refreshDemands plan @ demands\<rparr>)"

definition emptyAsyncPlan :: asyncPlan where
  "emptyAsyncPlan = \<lparr>ap_refreshPaths = [], ap_refreshDemands = [], ap_byPath = [], ap_retained = 0\<rparr>"

text \<open>The plan that refreshes every group.\<close>

definition fullAsyncPlan :: "demandWindow list \<Rightarrow> asyncPlan" where
  "fullAsyncPlan windows = emptyAsyncPlan\<lparr>ap_refreshPaths := fold (\<lambda>(path, _). List.insert path) windows [],
     ap_refreshDemands := concat (map snd windows)\<rparr>"

definition crossPath :: "asyncPlan \<Rightarrow> asyncFacts \<Rightarrow> bool" where
  "crossPath plan refreshed \<longleftrightarrow> list_ex (\<lambda>(path, _). path \<notin> set (ap_refreshPaths plan)) refreshed"

definition mergeAsync :: "asyncPlan \<Rightarrow> asyncFacts \<Rightarrow> asyncFacts" where
  "mergeAsync plan refreshed =
     fold (\<lambda>(path, facts). AList.update path facts) refreshed
       (fold (\<lambda>path. AList.update path []) (ap_refreshPaths plan) (ap_byPath plan))"

definition nextAsyncFiles :: "demandWindow list \<Rightarrow> asyncFacts \<Rightarrow> bool \<Rightarrow> asyncFacts option" where
  "nextAsyncFiles windows byPath crossed =
     (if crossed \<or> list_ex (\<lambda>(path, _). \<not> durableAsyncFunctions (factsAt path byPath)) windows then None
      else Some (fold (\<lambda>(path, _). AList.update path (factsAt path byPath)) windows []))"

definition asyncStage ::
    "'w ClosureEnv \<Rightarrow> demandWindow list \<Rightarrow> ('w DemandClosure, asyncFacts \<times> nat \<times> nat) proc" where
  "asyncStage env windows =
     bindS (getS (\<lambda>p. (cl_asyncFiles p, cl_transportChangedPaths p))) (\<lambda>(asyncFiles, changedPaths).
       let refreshAll = (asyncFiles = None \<or> changedPaths = None);
           plan = fold (planAsyncGroup refreshAll (elems changedPaths) (elems asyncFiles)) windows emptyAsyncPlan
       in
     bindS (asyncFunctionsForDemands env (ap_refreshDemands plan)) (\<lambda>refreshed.
       let crossed = crossPath plan refreshed in
     bindS (if crossed \<and> \<not> refreshAll
            then bindS (asyncFunctionsForDemands env (ap_refreshDemands (fullAsyncPlan windows)))
              (\<lambda>refreshed. retS (fullAsyncPlan windows, refreshed))
            else retS (plan, refreshed)) (\<lambda>(plan, refreshed).
       let byPath = mergeAsync plan refreshed in
     bindS (modS (\<lambda>p. p\<lparr>cl_asyncFiles := nextAsyncFiles windows byPath crossed\<rparr>)) (\<lambda>_.
     retS (byPath, ap_retained plan, length (ap_refreshPaths plan))))))"

definition asyncFile :: "string \<Rightarrow> AsyncFunctionFact list \<Rightarrow> FileFact" where
  "asyncFile path facts = \<lparr>file_Path = path, file_Calls = [], file_Bindings = [], file_Functions = [],
     file_AsyncFunctions = facts\<rparr>"

text \<open>The loop over the sources polls the context before every row.\<close>

definition fileRows ::
    "'w ClosureEnv \<Rightarrow> SourceDigest list \<Rightarrow> asyncFacts \<Rightarrow> ('w DemandClosure, FileFact list) proc" where
  "fileRows env digests byPath =
     loopS (\<lambda>source rows. bindS (ctxCheck env) (\<lambda>_.
       retS (rows @ [asyncFile (dig_Path source) (factsAt (dig_Path source) byPath)]))) digests []"

section \<open>The scan of the groups\<close>

text \<open>The state of a run: the closure and the caller's groups.\<close>

record 'w closureRun =
  run_closure :: "'w DemandClosure"
  run_groups :: "demandGroup list"

definition onClosure :: "('w DemandClosure, 'v) proc \<Rightarrow> ('w closureRun, 'v) proc" where
  "onClosure = partS run_closure (\<lambda>p r. r\<lparr>run_closure := p\<rparr>)"

definition setGroup :: "nat \<Rightarrow> demandGroup \<Rightarrow> ('w closureRun, unit) proc" where
  "setGroup index g = modS (\<lambda>r. r\<lparr>run_groups := (run_groups r)[index := g]\<rparr>)"

record scanState =
  sc_union :: "SymbolID list"
  sc_seed :: "(SymbolID \<times> TypeDescriptor) list"
  sc_changed :: "nat list"
  sc_runs :: "SemanticDemandRun list"

definition addSeed ::
    "SymbolID \<times> TypeDescriptor \<Rightarrow> (SymbolID \<times> TypeDescriptor) list \<Rightarrow> (SymbolID \<times> TypeDescriptor) list" where
  "addSeed = (\<lambda>(symbol, descriptor) seed.
     if map_of seed symbol = None then AList.update symbol descriptor seed else seed)"

definition contributionSeeds :: "retainedContribution \<Rightarrow> (SymbolID \<times> TypeDescriptor) list" where
  "contributionSeeds c =
     (case rc_entities c of Some entities \<Rightarrow> concat (map entityDescriptor entities) | None \<Rightarrow> rc_descriptors c)"

definition scanGroup :: "'w ClosureEnv \<Rightarrow> nat \<Rightarrow> scanState \<Rightarrow> ('w closureRun, scanState) proc" where
  "scanGroup env index sc =
     bindS (getS (\<lambda>r. (run_groups r ! index, run_closure r))) (\<lambda>(g, p).
       let contribution = rcs_get (cl_retained p) (dg_path g);
           changedPaths = cl_transportChangedPaths p;
           fresh = (contribution = None \<or> changedPaths = None \<or> dg_path g \<in> set (elems changedPaths))
       in
     bindS (if fresh
            then bindS (liftS (ensureExpanded g)) (\<lambda>g.
              retS (g\<lparr>dg_hash := demandListHash (env_maphash env) (elems (dg_demands g))\<rparr>))
            else retS (g\<lparr>dg_hash := rc_demandHash (cl_heap p ! the contribution)\<rparr>)) (\<lambda>g.
       if contribution \<noteq> None \<and> rc_demandHash (cl_heap p ! the contribution) = dg_hash g
       then
         let c = cl_heap p ! the contribution in
         bindS (setGroup index (g\<lparr>dg_contribution := contribution\<rparr>)) (\<lambda>_.
         retS (sc\<lparr>sc_union := fold List.insert (rc_structural c) (sc_union sc),
                sc_seed := fold addSeed (contributionSeeds c) (sc_seed sc)\<rparr>))
       else
         bindS (setGroup index g) (\<lambda>_.
         retS (sc\<lparr>sc_changed := sc_changed sc @ [index],
                sc_runs := sc_runs sc @ [\<lparr>sdr_Path = dg_path g, sdr_Demands = elems (dg_demands g)\<rparr>]\<rparr>))))"

definition emptyScan :: scanState where
  "emptyScan = \<lparr>sc_union = [], sc_seed = [], sc_changed = [], sc_runs = []\<rparr>"

section \<open>Rebuilding contributions\<close>

definition rebuildGroup ::
    "nat \<times> SemanticDemandRunResult \<Rightarrow> unit \<Rightarrow> ('w closureRun, unit) proc" where
  "rebuildGroup = (\<lambda>(index, result) _.
     bindS (getS (\<lambda>r. run_groups r ! index)) (\<lambda>g.
     bindS (liftS (prepareRetainedContribution (dg_path g) (dg_hash g) (elems (dg_demands g)) result)) (\<lambda>c.
     modS (\<lambda>r. r\<lparr>run_closure := (run_closure r)\<lparr>cl_heap := cl_heap (run_closure r) @ [c]\<rparr>,
       run_groups := (run_groups r)[index := g\<lparr>dg_contribution := Some (length (cl_heap (run_closure r)))\<rparr>]\<rparr>))))"

definition rebuildContributions ::
    "SemanticDemandRunResult list \<Rightarrow> nat list \<Rightarrow> ('w closureRun, unit) proc" where
  "rebuildContributions results indices =
     (if length results \<noteq> length indices then failS (Errorf ''semantic demand run results'')
      else loopS rebuildGroup (zip indices results) ())"

definition groupStructural :: "'w closureRun \<Rightarrow> nat \<Rightarrow> SymbolID list" where
  "groupStructural r index =
     (case dg_contribution (run_groups r ! index) of
        None \<Rightarrow> []
      | Some ref \<Rightarrow> rc_structural (cl_heap (run_closure r) ! ref))"

text \<open>The changed runs are resolved under the union of the retained groups; their durable structural
  symbols then join the union.\<close>

definition changedStage :: "'w ClosureEnv \<Rightarrow> scanState \<Rightarrow> ('w closureRun, SymbolID list) proc" where
  "changedStage env sc =
     (if sc_runs sc = [] then retS (sc_union sc)
      else
        bindS (onClosure (backendS (cb_SemanticDemandRuns env (sc_runs sc) (set (sc_union sc)) (map_of (sc_seed sc)))))
          (\<lambda>results.
        bindS (rebuildContributions results (sc_changed sc)) (\<lambda>_.
        getS (\<lambda>r. fold List.insert
          (filter DurableSymbolID (concat (map (groupStructural r) (sc_changed sc)))) (sc_union sc)))))"

section \<open>The suppression refresh\<close>

definition suppressionDelta :: "SymbolID list \<Rightarrow> SymbolID list \<Rightarrow> SymbolID list" where
  "suppressionDelta suppression previous =
     filter (\<lambda>s. s \<notin> set previous) suppression @ filter (\<lambda>s. s \<notin> set suppression) previous"

definition refreshIndex :: "'w closureRun \<Rightarrow> string \<Rightarrow> nat list" where
  "refreshIndex r path =
     (let groups = run_groups r;
          index = search_key dg_path groups path
      in if index = length groups \<or> dg_path (groups ! index) \<noteq> path \<or>
            dg_contribution (groups ! index) \<noteq> rcs_get (cl_retained (run_closure r)) path
         then [] else [index])"

definition refreshIndices :: "'w closureRun \<Rightarrow> SymbolID list \<Rightarrow> nat list" where
  "refreshIndices r delta =
     sorted_list_of_set (set (concat (map (\<lambda>symbol.
       concat (map (refreshIndex r) (rcs_descriptorUsersOf (cl_retained (run_closure r)) symbol))) delta)))"

definition expandGroup :: "nat \<Rightarrow> SemanticDemandRun list \<Rightarrow> ('w closureRun, SemanticDemandRun list) proc" where
  "expandGroup index runs =
     bindS (getS (\<lambda>r. run_groups r ! index)) (\<lambda>g.
     bindS (liftS (ensureExpanded g)) (\<lambda>g.
     bindS (setGroup index g) (\<lambda>_.
     retS (runs @ [\<lparr>sdr_Path = dg_path g, sdr_Demands = elems (dg_demands g)\<rparr>]))))"

definition refreshStage :: "'w ClosureEnv \<Rightarrow> SymbolID list \<Rightarrow> ('w closureRun, nat list) proc" where
  "refreshStage env suppression =
     bindS (getS (\<lambda>r. cl_lastSuppression (run_closure r))) (\<lambda>lastSuppression.
       case lastSuppression of
         None \<Rightarrow> retS []
       | Some previous \<Rightarrow>
           if symbolSetsEqual suppression previous then retS []
           else
             bindS (getS (\<lambda>r. refreshIndices r (suppressionDelta suppression previous))) (\<lambda>refresh.
             bindS (loopS expandGroup refresh []) (\<lambda>refreshRuns.
             if refresh = [] then retS []
             else
               bindS (onClosure (backendS (cb_SemanticDemandRuns env refreshRuns (set suppression) Map.empty))) (\<lambda>results.
               bindS (rebuildContributions results refresh) (\<lambda>_. retS refresh)))))"

section \<open>Assembly and commit\<close>

definition manifestChangedPaths ::
    "string list option \<Rightarrow> demandGroup list \<Rightarrow> nat list \<Rightarrow> string list option" where
  "manifestChangedPaths changedPaths groups changed =
     (if changed = [] then changedPaths
      else Some (fold (\<lambda>index. List.insert (dg_path (groups ! index))) changed (elems changedPaths)))"

definition groupEntities :: "contributionHeap \<Rightarrow> demandGroup \<Rightarrow> EntityFact list" where
  "groupEntities heap g =
     (case dg_contribution g of None \<Rightarrow> [] | Some ref \<Rightarrow> elems (rc_entities (heap ! ref)))"

text \<open>
  \<^verbatim>\<open>runs\<close> is a nil slice only when there are no groups and the recycled table had none.
\<close>

definition entityRunsOf ::
    "contributionHeap \<Rightarrow> EntityFact list list option \<Rightarrow> demandGroup list \<Rightarrow> EntityFact list list option" where
  "entityRunsOf heap recycled groups =
     (if groups = [] then map_option (\<lambda>_. []) recycled
      else Some (filter (\<lambda>run. run \<noteq> []) (map (groupEntities heap) groups)))"

definition nextStateID :: "u64 \<Rightarrow> u64" where
  "nextStateID n = (if n + 1 = 0 then n + 2 else n + 1)"

definition commitTable :: "FactTable \<Rightarrow> SymbolID list \<Rightarrow> string list option \<Rightarrow> 'w closureRun \<Rightarrow>
    FactTable \<times> 'w closureRun" where
  "commitTable table suppression manifestPaths r =
     (let p = run_closure r;
          groups = run_groups r;
          stateID = nextStateID (cl_nextTableStateID p);
          table = table\<lparr>ft_entityRuns := entityRunsOf (cl_heap p) (ft_entityRuns table) groups,
            ft_Entities := [], ft_Symbols := [], ft_symbols := None, ft_pathSymbols := None,
            ft_stateID := stateID,
            ft_transport := rustOwnedTransportManifest (cl_previousTable p) manifestPaths\<rparr>;
          p = p\<lparr>cl_nextTableStateID := stateID,
            cl_retained := rcs_commit (cl_heap p) groups (cl_retained p),
            cl_lastSuppression := Some suppression, cl_recyclableTable := cl_previousTable p,
            cl_previousTable := None, cl_transportChangedPaths := None\<rparr>
      in (table, r\<lparr>run_closure := p\<rparr>))"

definition startTable :: "FactTable option \<Rightarrow> u64 \<Rightarrow> SourceDigest list \<Rightarrow> FactTable" where
  "startTable recyclable generation digests =
     (let table = (case recyclable of None \<Rightarrow> zeroFactTable | Some t \<Rightarrow> t) in
      table\<lparr>ft_Schema := TypeFactsSchemaVersion, ft_Generation := generation,
        ft_ProjectID := ''semantic-demand'', ft_sourceDigests := digests, ft_Files := [], ft_Entities := [],
        ft_entityRuns := map_option (\<lambda>_. []) (ft_entityRuns table), ft_Symbols := [], ft_symbols := None,
        ft_transport := None\<rparr>)"

text \<open>The stages after the file rows: contributions, manifest and commit.\<close>

definition materializeContributions ::
    "'w ClosureEnv \<Rightarrow> FactTable \<Rightarrow> nat \<times> nat \<Rightarrow> ('w closureRun, FactTable \<times> ClosureRetention) proc" where
  "materializeContributions env table = (\<lambda>(retainedAsync, recomputedAsync).
     bindS (getS (\<lambda>r. length (run_groups r))) (\<lambda>count.
     bindS (loopS (scanGroup env) [0..<count] emptyScan) (\<lambda>sc.
     bindS (changedStage env sc) (\<lambda>suppression.
     bindS (refreshStage env suppression) (\<lambda>refresh.
       let changed = sc_changed sc @ refresh in
     bindS (getS (\<lambda>r. length (filter (\<lambda>g. \<not> durableRef (cl_heap (run_closure r)) g) (run_groups r)))) (\<lambda>nonDurable.
     bindS (getS (\<lambda>r. manifestChangedPaths (cl_transportChangedPaths (run_closure r)) (run_groups r) changed))
       (\<lambda>manifestPaths.
     bindS (getS (commitTable table suppression manifestPaths)) (\<lambda>(table, r').
     bindS (modS (\<lambda>_. r')) (\<lambda>_.
     retS (table, \<lparr>cr_RetainedFiles = count - length changed, cr_RecomputedFiles = length changed,
       cr_RetainedAsyncFiles = retainedAsync, cr_RecomputedAsyncFiles = recomputedAsync,
       cr_NonDurableFiles = nonDurable, cr_SuppressionRecompute = (refresh \<noteq> [])\<rparr>))))))))))"

definition materializeSemanticDemandRetained ::
    "'w ClosureEnv \<Rightarrow> u64 \<Rightarrow> ('w closureRun, FactTable \<times> ClosureRetention) proc" where
  "materializeSemanticDemandRetained env generation =
     deferS (\<lambda>_ r. r\<lparr>run_groups := map releaseExpanded (run_groups r)\<rparr>) (
     bindS (onClosure (semanticSourceDigests env)) (\<lambda>digests.
     bindS (getS (\<lambda>r. startTable (cl_recyclableTable (run_closure r)) generation digests)) (\<lambda>table.
     bindS (modS (\<lambda>r. r\<lparr>run_closure := (run_closure r)\<lparr>cl_recyclableTable := None\<rparr>\<rparr>)) (\<lambda>_.
     bindS (getS run_groups) (\<lambda>groups.
     bindS (liftS (asyncGroups groups [])) (\<lambda>windows.
     bindS (onClosure (asyncStage env windows)) (\<lambda>(asyncByPath, asyncCounts).
     bindS (onClosure (fileRows env digests asyncByPath)) (\<lambda>files.
     materializeContributions env (table\<lparr>ft_Files := files\<rparr>) asyncCounts))))))))"

definition materializeDemandTableLocked :: "'w ClosureEnv \<Rightarrow> u64 \<Rightarrow> ('w closureRun, unit) proc" where
  "materializeDemandTableLocked env generation =
     bindS (materializeSemanticDemandRetained env generation) (\<lambda>(table, retention).
     onClosure (modS (\<lambda>p. p\<lparr>cl_table := Some table,
       cl_stats := \<lparr>cs_BuildSequence = cs_BuildSequence (cl_stats p) + 1, cs_Generation = generation,
         cs_Files = length (ft_Files table), cs_Entities = wireEntityCount table,
         cs_Symbols = symbolFactsCount table, cs_FullTierSymbols = 0, cs_Retention = retention\<rparr>\<rparr>)))"

section \<open>The table of a demand set\<close>

definition discardChanged :: "string list \<Rightarrow> 'w DemandClosure \<Rightarrow> 'w DemandClosure" where
  "discardChanged changedPaths p =
     (if changedPaths = [] then p
      else
        let p = (case cl_table p of
              Some t \<Rightarrow> p\<lparr>cl_previousTable := Some t, cl_table := None\<rparr> | None \<Rightarrow> p);
            invalidated = cleanPaths changedPaths
        in p\<lparr>cl_retained := rcs_discard (cl_heap p) invalidated (cl_retained p),
             cl_transportChangedPaths := Some (fold List.insert invalidated (elems (cl_transportChangedPaths p)))\<rparr>)"

definition demandTableForPreparedGroups ::
    "'w ClosureEnv \<Rightarrow> u64 \<Rightarrow> string list \<Rightarrow> ('w closureRun, FactTable) proc" where
  "demandTableForPreparedGroups env generation changedPaths =
     bindS (getS (\<lambda>r. cl_generation (run_closure r))) (\<lambda>current.
     if generation \<noteq> current then failS ErrGenerationMismatch
     else
     bindS (onClosure (modS (discardChanged changedPaths))) (\<lambda>_.
     bindS (getS (\<lambda>r. cl_table (run_closure r))) (\<lambda>table.
     bindS (case table of
              Some t \<Rightarrow> retS ()
            | None \<Rightarrow>
                bindS (modS (\<lambda>r. r\<lparr>run_groups := sort_key dg_path (run_groups r)\<rparr>)) (\<lambda>_.
                bindS (getS (\<lambda>r. firstDuplicate (run_groups r))) (\<lambda>duplicate.
                if duplicate \<noteq> None then failS (Errorf ''demand groups name a path twice; each path may appear once'')
                else materializeDemandTableLocked env generation))) (\<lambda>_.
     getS (\<lambda>r. the (cl_table (run_closure r)))))))"

definition demandTableForCanonicalGroups ::
    "'w ClosureEnv \<Rightarrow> u64 \<Rightarrow> string list \<Rightarrow> ('w closureRun, FactTable) proc" where
  "demandTableForCanonicalGroups = demandTableForPreparedGroups"

end
