(* ===== verification/Session.thy ===== *)
theory Session
  imports Materialize Wire_Transition
begin

text \<open>
  The session of \<^verbatim>\<open>session.go\<close>: one retained analysis lifetime behind the lifecycle requests. A request
  is a function from the session and the caller's transition arena to the response and their new states.
  An analyze request is a transaction over three stores: the retained demands (with an undo log), the
  caches of the demand closure, and the published token and table header. The operating system is part
  of the environment; tracing, timings and the collector hint are not modelled.
\<close>

section \<open>State\<close>

record 'w SessionEnv =
  se_closure :: "'w ClosureEnv"
  se_shared :: "SymbolFact list \<Rightarrow> SymbolFact list \<Rightarrow> bool"
  os_CreateTemp :: "('w, string) proc"
  os_Write :: "string \<Rightarrow> bytes \<Rightarrow> ('w, unit) proc"
  os_Flush :: "string \<Rightarrow> ('w, unit) proc"
  os_CloseFile :: "string \<Rightarrow> ('w, unit) proc"
  os_Remove :: "string \<Rightarrow> ('w, unit) proc"

definition ErrNotExist :: go_error where "ErrNotExist = ErrBackend ''file does not exist''"

record 'w Session =
  ss_closure :: "'w DemandClosure"
  ss_projectID :: string
  ss_token :: u64
  ss_tokenText :: string
  ss_demands :: retainedDemandStore
  ss_table :: "FactTable option"
  ss_transition :: wireTransitionEncoder
  ss_sourceArenaPath :: string
  ss_closed :: bool
  ss_closeErr :: "go_error option"
  ss_schema :: u64

definition freshEncoder :: wireTransitionEncoder where
  "freshEncoder = \<lparr>we_tableSchema = TypeFactsTableSchemaVersion, we_dict = None, we_pathOps = [],
     we_symbolOps = [], we_paths = [], we_symbolIDs = []\<rparr>"

text \<open>The backend is closed when the construction fails.\<close>

definition newSession :: "'w SessionEnv \<Rightarrow> string \<Rightarrow> 'w \<Rightarrow> 'w Session result \<times> 'w" where
  "newSession env projectID backend =
     (if Clean projectID = [] \<or> Clean projectID = ''.''
      then (Inl (Errorf ''Type Facts session requires a project identity''),
            snd (cb_Close (se_closure env) backend))
      else (Inr \<lparr>ss_closure = newDemandClosure backend, ss_projectID = Clean projectID, ss_token = 0,
              ss_tokenText = [], ss_demands = \<lparr>rds_groups = []\<rparr>, ss_table = None,
              ss_transition = freshEncoder, ss_sourceArenaPath = [], ss_closed = False,
              ss_closeErr = None, ss_schema = TypeFactsSchemaVersionV1\<rparr>, backend))"

text \<open>\<^verbatim>\<open>strconv.FormatUint(n, 10)\<close>.\<close>

fun decimal :: "nat \<Rightarrow> string" where
  "decimal n = (if n < 10 then [char_of (48 + n)] else decimal (n div 10) @ [char_of (48 + n mod 10)])"

declare decimal.simps [simp del]

definition FormatUint :: "u64 \<Rightarrow> string" where
  "FormatUint n = decimal (unat n)"

section \<open>A request in progress\<close>

record ('w, 'a) exchange =
  ex_session :: "'w Session"
  ex_arena :: 'a
  ex_response :: LifecycleResponse
  ex_transaction :: retainedDemandTransaction

definition inSession :: "('w Session, 'v) proc \<Rightarrow> (('w, 'a) exchange, 'v) proc" where
  "inSession = partS ex_session (\<lambda>s x. x\<lparr>ex_session := s\<rparr>)"

definition inClosure :: "('w DemandClosure, 'v) proc \<Rightarrow> (('w, 'a) exchange, 'v) proc" where
  "inClosure = partS (\<lambda>x. ss_closure (ex_session x))
     (\<lambda>p x. x\<lparr>ex_session := (ex_session x)\<lparr>ss_closure := p\<rparr>\<rparr>)"

definition respond :: "(LifecycleResponse \<Rightarrow> LifecycleResponse) \<Rightarrow> (('w, 'a) exchange, unit) proc" where
  "respond f = modS (\<lambda>x. x\<lparr>ex_response := f (ex_response x)\<rparr>)"

text \<open>A failure sets the error of the response; the fields that are already set stay.\<close>

definition failWith :: "string \<Rightarrow> go_error \<Rightarrow> (('w, 'a) exchange, 'v) proc" where
  "failWith code err =
     bindS (respond (\<lambda>r. r\<lparr>rs_Error := Some \<lparr>le_Code = code, le_Message = err\<rparr>\<rparr>)) (\<lambda>_. failS err)"

text \<open>After an error of the backend a cancelled request reports the cancellation.\<close>

definition pollErr :: "'w ClosureEnv \<Rightarrow> ('w DemandClosure, go_error option) proc" where
  "pollErr env p = (case env_Err env (cl_backend p) of (err, w) \<Rightarrow> (Inr err, p\<lparr>cl_backend := w\<rparr>))"

definition failCancelled :: "'w SessionEnv \<Rightarrow> string \<Rightarrow> go_error \<Rightarrow> (('w, 'a) exchange, 'v) proc" where
  "failCancelled env code err =
     bindS (inClosure (pollErr (se_closure env))) (\<lambda>cancelled. case cancelled of
         Some e \<Rightarrow> failWith ''analysis-cancelled'' e
       | None \<Rightarrow> failWith code err)"

definition stopIfCancelled :: "'w SessionEnv \<Rightarrow> (('w, 'a) exchange, unit) proc" where
  "stopIfCancelled env =
     bindS (inClosure (pollErr (se_closure env))) (\<lambda>cancelled. case cancelled of
         Some e \<Rightarrow> failWith ''analysis-cancelled'' e
       | None \<Rightarrow> retS ())"

section \<open>Encoding through the session's encoder\<close>

definition sessionEncode ::
    "'w SessionEnv \<Rightarrow> 'a TransitionArena option \<Rightarrow> wireTransitionInput \<Rightarrow>
     (('w, 'a) exchange, encodedWireTransition) proc" where
  "sessionEncode env arena input x =
     (let s = ex_session x;
          (r, e, a) = (case arena of
              None \<Rightarrow> Encode (se_shared env) input (ex_arena x) (ss_transition s)
            | Some ta \<Rightarrow> EncodeInto (se_shared env) input (Some ta) (ex_arena x) (ss_transition s))
      in (r, x\<lparr>ex_session := s\<lparr>ss_transition := e\<rparr>, ex_arena := a\<rparr>))"

section \<open>Symbol evidence\<close>

definition evidenceTable :: "u64 \<Rightarrow> string \<Rightarrow> SymbolFact list \<Rightarrow> FactTable" where
  "evidenceTable generation projectID evidence = zeroFactTable\<lparr>ft_Schema := TypeFactsSchemaVersion,
     ft_Generation := generation, ft_ProjectID := projectID, ft_Symbols := evidence\<rparr>"

definition keepReferences :: "string list \<Rightarrow> SymbolFact \<Rightarrow> SymbolFact" where
  "keepReferences paths fact' =
     fact'\<lparr>sym_References := filter (\<lambda>l. loc_Path l \<in> set (map Clean paths)) (sym_References fact')\<rparr>"

definition packEvidence ::
    "'w SessionEnv \<Rightarrow> 'a TransitionArena option \<Rightarrow> LifecycleRequest \<Rightarrow> SymbolFact list \<Rightarrow>
     (('w, 'a) exchange, unit) proc" where
  "packEvidence env arena request evidence =
     bindS (getS (\<lambda>x. ss_projectID (ex_session x))) (\<lambda>projectID.
     bindS (sessionEncode env arena
       \<lparr>wi_ProjectID = projectID, wi_BaseStateToken = [], wi_Base = None,
        wi_Target = Some (evidenceTable (rq_Generation request) projectID (sort_key sym_ID evidence)),
        wi_Sparse = False\<rparr>) (\<lambda>packed.
     respond (\<lambda>r. r\<lparr>rs_TableTransition := et_Bytes packed\<rparr>)))"

definition populateReferences :: "'w SessionEnv \<Rightarrow> LifecycleRequest \<Rightarrow> (('w, 'a) exchange, unit) proc" where
  "populateReferences env request =
     bindS (inClosure (changedReferences (se_closure env))) (\<lambda>(ids, exact).
     bindS (respond (\<lambda>r. r\<lparr>rs_ChangedReferenceSymbols := ids, rs_ReferenceChangesExact := exact\<rparr>)) (\<lambda>_.
     if exact \<and> ids \<noteq> []
     then
       bindS (inClosure (resolveSymbolEvidence (se_closure env)
         (map (\<lambda>i. \<lparr>sq_ID = i, sq_References = True, sq_ReferencesOnly = False\<rparr>) ids))) (\<lambda>evidence.
       respond (\<lambda>r. r\<lparr>rs_ReferenceEvidence :=
         (if rq_ReferencePaths request \<noteq> [] then map (keepReferences (rq_ReferencePaths request)) evidence
          else evidence)\<rparr>))
     else retS ()))"

definition populateSymbolEvidence ::
    "'w SessionEnv \<Rightarrow> LifecycleRequest \<Rightarrow> 'a TransitionArena option \<Rightarrow> (('w, 'a) exchange, unit) proc" where
  "populateSymbolEvidence env request arena =
     bindS (inClosure (resolveSymbolEvidence (se_closure env) (rq_SymbolQueries request))) (\<lambda>evidence.
     bindS (if rq_Operation request = LifecycleSymbols \<and> evidence \<noteq> []
            then packEvidence env arena request evidence
            else respond (\<lambda>r. r\<lparr>rs_SymbolEvidence := evidence\<rparr>)) (\<lambda>_.
     bindS (if rq_ReferenceChanges request then populateReferences env request else retS ()) (\<lambda>_.
     if rq_ReleaseAnalysis request then inClosure (releaseBackendAnalysisState (se_closure env)) else retS ())))"

section \<open>Analyze\<close>

definition beginTransaction :: "LifecycleRequest \<Rightarrow> (('w, 'a) exchange, unit) proc" where
  "beginTransaction request x =
     (let s = ex_session x;
          begun = (case rq_CompactDemands request of
              Some compact \<Rightarrow> beginCompact compact (rq_RemovedDemandPaths request) (rq_ResetState request) (ss_demands s)
            | None \<Rightarrow> Inr (begin_demands (rq_Demands request) (rq_RemovedDemandPaths request)
                (rq_ResetState request) (ss_demands s)))
      in case begun of
           Inl err \<Rightarrow> failWith ''invalid-demands'' err x
         | Inr (demands, t) \<Rightarrow> (Inr (), x\<lparr>ex_session := s\<lparr>ss_demands := demands\<rparr>, ex_transaction := t\<rparr>))"

text \<open>The closure works in place on the groups of the store.\<close>

definition analyzedTable :: "'w SessionEnv \<Rightarrow> u64 \<Rightarrow> (('w, 'a) exchange, FactTable) proc" where
  "analyzedTable env generation x =
     partS
       (\<lambda>x. \<lparr>run_closure = ss_closure (ex_session x), run_groups = rds_groups (ss_demands (ex_session x))\<rparr>)
       (\<lambda>r x. x\<lparr>ex_session := (ex_session x)\<lparr>ss_closure := run_closure r,
          ss_demands := \<lparr>rds_groups = run_groups r\<rparr>\<rparr>\<rparr>)
       (demandTableForCanonicalGroups (se_closure env) generation (tx_changedPaths (ex_transaction x))) x"

definition timingsOf :: "u64 \<Rightarrow> ClosureStats \<Rightarrow> LifecycleTimings" where
  "timingsOf buildSequence stats =
     (let retention = cs_Retention stats in
      if cs_BuildSequence stats \<noteq> buildSequence
      then \<lparr>lt_Materialized = True, lt_RetainedFiles = of_nat (cr_RetainedFiles retention),
            lt_RecomputedFiles = of_nat (cr_RecomputedFiles retention),
            lt_NonDurableFiles = of_nat (cr_NonDurableFiles retention)\<rparr>
      else \<lparr>lt_Materialized = False, lt_RetainedFiles = 0, lt_RecomputedFiles = 0, lt_NonDurableFiles = 0\<rparr>)"

definition transitionInput :: "bool \<Rightarrow> FactTable \<Rightarrow> 'w Session \<Rightarrow> wireTransitionInput" where
  "transitionInput reset table s =
     (let input = \<lparr>wi_ProjectID = ss_projectID s, wi_BaseStateToken = [], wi_Base = None,
            wi_Target = Some table, wi_Sparse = True\<rparr>
      in if \<not> reset \<and> ss_table s \<noteq> None
         then input\<lparr>wi_Base := ss_table s, wi_BaseStateToken := ss_tokenText s\<rparr> else input)"

text \<open>An unavailable sparse transition rebuilds the table once and sends a full replacement.\<close>

definition encodeTransition ::
    "'w SessionEnv \<Rightarrow> 'a TransitionArena option \<Rightarrow> bool \<Rightarrow> u64 \<Rightarrow> FactTable \<Rightarrow>
     (('w, 'a) exchange, FactTable \<times> encodedWireTransition) proc" where
  "encodeTransition env arena reset generation table =
     bindS (getS (\<lambda>x. transitionInput reset table (ex_session x))) (\<lambda>input.
     catchS (bindS (sessionEncode env arena input) (\<lambda>transition. retS (table, transition))) (\<lambda>err.
       if err = ErrSparseTransitionUnavailable
       then
         bindS (inClosure (modS forceFullMaterialization)) (\<lambda>_.
         bindS (analyzedTable env generation) (\<lambda>table.
         bindS (sessionEncode env arena (input\<lparr>wi_Base := None, wi_BaseStateToken := [],
           wi_Target := Some table, wi_Sparse := False\<rparr>)) (\<lambda>transition. retS (table, transition))))
       else failS err))"

text \<open>Within one generation an empty delta is reuse and carries no frame.\<close>

definition attachTransition ::
    "FactTable \<Rightarrow> encodedWireTransition \<Rightarrow> (('w, 'a) exchange, unit) proc" where
  "attachTransition table transition =
     (if et_Mode transition \<noteq> wireTransitionDelta
      then respond (\<lambda>r. r\<lparr>rs_TableTransition := et_Bytes transition\<rparr>)
      else
        bindS (getS (\<lambda>x. ss_table (ex_session x))) (\<lambda>retained.
        case retained of
          None \<Rightarrow> failS (Panic ''nil pointer dereference: s.retained.table'')
        | Some base \<Rightarrow>
            if ft_Generation table \<noteq> ft_Generation base \<or> et_PathOperations transition \<noteq> 0 \<or>
               et_SymbolOperations transition \<noteq> 0
            then respond (\<lambda>r. r\<lparr>rs_TableTransition := et_Bytes transition\<rparr>)
            else retS ()))"

definition retainedHeader :: "FactTable \<Rightarrow> FactTable" where
  "retainedHeader t = t\<lparr>ft_Entities := [], ft_entityRuns := None, ft_Files := [], ft_sourceDigests := []\<rparr>"

definition publish :: "FactTable \<Rightarrow> (('w, 'a) exchange, unit) proc" where
  "publish table = modS (\<lambda>x.
     let s = ex_session x;
         (demands, t) = tx_commit (ss_demands s, ex_transaction x);
         token = ss_token s + 1
     in x\<lparr>ex_session := s\<lparr>ss_token := token, ss_tokenText := FormatUint token, ss_demands := demands,
            ss_table := Some (retainedHeader table), ss_closure := releaseTransportRows (ss_closure s)\<rparr>,
          ex_transaction := t\<rparr>)"

text \<open>The deferred functions of a request that did not publish.\<close>

definition abandon :: "('w, 'a) exchange \<Rightarrow> ('w, 'a) exchange" where
  "abandon x =
     (let s = ex_session x;
          (demands, t) = tx_rollback (ss_demands s, ex_transaction x)
      in x\<lparr>ex_session := s\<lparr>ss_closure := abandonAnalysis (ss_closure s), ss_demands := demands\<rparr>,
           ex_transaction := t\<rparr>)"

definition analyzeTransaction ::
    "'w SessionEnv \<Rightarrow> 'a TransitionArena option \<Rightarrow> LifecycleRequest \<Rightarrow> u64 \<Rightarrow> (('w, 'a) exchange, unit) proc" where
  "analyzeTransaction env arena request generation =
     deferS (\<lambda>r x. case r of Inl _ \<Rightarrow> abandon x | Inr _ \<Rightarrow> x) (
     bindS (getS (\<lambda>x. cs_BuildSequence (cl_stats (ss_closure (ex_session x))))) (\<lambda>buildSequence.
     bindS (catchS (analyzedTable env generation) (failCancelled env ''analysis-failed'')) (\<lambda>table.
     bindS (stopIfCancelled env) (\<lambda>_.
     bindS (getS (\<lambda>x. cl_stats (ss_closure (ex_session x)))) (\<lambda>stats.
     bindS (respond (\<lambda>r. r\<lparr>rs_Timings := Some (timingsOf buildSequence stats)\<rparr>)) (\<lambda>_.
     bindS (getS (\<lambda>x. FormatUint (ss_token (ex_session x) + 1))) (\<lambda>nextTokenText.
     bindS (respond (\<lambda>r. r\<lparr>rs_StateToken := nextTokenText\<rparr>)) (\<lambda>_.
     bindS (catchS (encodeTransition env arena (rq_ResetState request) generation table)
       (failWith ''assembly-failed'')) (\<lambda>(table, transition).
     bindS (attachTransition table transition) (\<lambda>_.
     bindS (stopIfCancelled env) (\<lambda>_.
     bindS (if rq_SymbolQueries request \<noteq> [] \<or> rq_ReferenceChanges request \<or> rq_ReleaseAnalysis request
            then catchS (populateSymbolEvidence env request None) (failCancelled env ''analysis-failed'')
            else retS ()) (\<lambda>_.
     bindS (stopIfCancelled env) (\<lambda>_.
     publish table)))))))))))))"

text \<open>A request with no change over a published table of the generation is answered at once.\<close>

definition nothingToAnalyze :: "LifecycleRequest \<Rightarrow> u64 \<Rightarrow> 'w Session \<Rightarrow> bool" where
  "nothingToAnalyze request generation s \<longleftrightarrow>
     \<not> rq_ResetState request \<and> rq_Demands request = [] \<and>
     (case rq_CompactDemands request of None \<Rightarrow> True | Some compact \<Rightarrow> cd_Groups compact = []) \<and>
     rq_RemovedDemandPaths request = [] \<and>
     (case ss_table s of None \<Rightarrow> False | Some t \<Rightarrow> ft_Generation t = generation)"

definition analyze ::
    "'w SessionEnv \<Rightarrow> 'a TransitionArena option \<Rightarrow> LifecycleRequest \<Rightarrow> u64 \<Rightarrow> (('w, 'a) exchange, unit) proc" where
  "analyze env arena request generation =
     bindS (getS ex_session) (\<lambda>s.
     if rq_CompactDemands request \<noteq> None \<and> rq_Demands request \<noteq> []
     then failWith ''invalid-demands'' (Errorf ''analyze carries both demands and compactDemands'')
     else if \<not> rq_ResetState request \<and> rq_StateToken request \<noteq> ss_tokenText s
     then failWith ''state-mismatch'' ErrGenerationMismatch
     else if nothingToAnalyze request generation s
     then respond (\<lambda>r. r\<lparr>rs_StateToken := ss_tokenText s, rs_Timings := Some \<lparr>lt_Materialized = False,
       lt_RetainedFiles = 0, lt_RecomputedFiles = 0, lt_NonDurableFiles = 0\<rparr>\<rparr>)
     else bindS (beginTransaction request) (\<lambda>_. analyzeTransaction env arena request generation))"

section \<open>The source arena file\<close>

definition inOS :: "('w, 'v) proc \<Rightarrow> ('w Session, 'v) proc" where
  "inOS = partS (\<lambda>s. cl_backend (ss_closure s))
     (\<lambda>w s. s\<lparr>ss_closure := (ss_closure s)\<lparr>cl_backend := w\<rparr>\<rparr>)"

definition removeSourceArena :: "'w SessionEnv \<Rightarrow> string \<Rightarrow> ('w Session, unit) proc" where
  "removeSourceArena env path =
     (if path = [] then retS ()
      else catchS (inOS (os_Remove env path)) (\<lambda>err. if err = ErrNotExist then retS () else failS err))"

definition ignoreErr :: "('s, unit) proc \<Rightarrow> ('s, unit) proc" where
  "ignoreErr m = catchS m (\<lambda>_. retS ())"

definition writeSourceArena ::
    "'w SessionEnv \<Rightarrow> SourceFile list \<Rightarrow> ('w Session, string \<times> SourceFileV3 list \<times> u64 list) proc" where
  "writeSourceArena env sources =
     bindS (getS ss_sourceArenaPath) (\<lambda>old.
     bindS (removeSourceArena env old) (\<lambda>_.
     bindS (modS (\<lambda>s. s\<lparr>ss_sourceArenaPath := []\<rparr>)) (\<lambda>_.
     bindS (inOS (os_CreateTemp env)) (\<lambda>path.
     catchS (
       bindS (loopS (\<lambda>source _. inOS (os_Write env path (sf_Source source))) sources ()) (\<lambda>_.
       bindS (inOS (os_Flush env path)) (\<lambda>_.
       bindS (inOS (os_CloseFile env path)) (\<lambda>_.
       bindS (modS (\<lambda>s. s\<lparr>ss_sourceArenaPath := path\<rparr>)) (\<lambda>_.
       retS (path, map (\<lambda>source. \<lparr>sfv_Path = sf_Path source, sfv_Source = [], sfv_Local = False\<rparr>) sources,
         map (\<lambda>source. of_nat (length (sf_Source source))) sources))))))
       (\<lambda>err. bindS (ignoreErr (inOS (os_CloseFile env path))) (\<lambda>_.
         bindS (ignoreErr (inOS (os_Remove env path))) (\<lambda>_. failS err)))))))"

section \<open>Close\<close>

text \<open>\<^verbatim>\<open>errors.Join\<close>: an error as soon as one of the two is.\<close>

definition joinErrors :: "go_error option \<Rightarrow> go_error option \<Rightarrow> go_error option" where
  "joinErrors a b = (case (a, b) of
     (None, None) \<Rightarrow> None | (Some e, None) \<Rightarrow> Some e | (None, Some e) \<Rightarrow> Some e
   | (Some e, Some _) \<Rightarrow> Some (Errorf ''joined errors''))"

definition errorOf :: "'v result \<Rightarrow> go_error option" where
  "errorOf r = (case r of Inl e \<Rightarrow> Some e | Inr _ \<Rightarrow> None)"

definition Close_session :: "'w SessionEnv \<Rightarrow> 'w Session \<Rightarrow> go_error option \<times> 'w Session" where
  "Close_session env s =
     (if ss_closed s then (ss_closeErr s, s)
      else
        let (r, p) = Close_closure (se_closure env) (ss_closure s);
            (r', s) = removeSourceArena env (ss_sourceArenaPath s) (s\<lparr>ss_closed := True, ss_closure := p\<rparr>);
            err = joinErrors (errorOf r) (errorOf r')
        in (err, s\<lparr>ss_closeErr := err\<rparr>))"

section \<open>The dispatch\<close>

definition atGeneration :: "bool \<Rightarrow> (('w, 'a) exchange, unit) proc \<Rightarrow> (('w, 'a) exchange, unit) proc" where
  "atGeneration matches m =
     (if \<not> matches then failWith ''generation-mismatch'' ErrGenerationMismatch else m)"

definition updateFiles :: "'w SessionEnv \<Rightarrow> LifecycleRequest \<Rightarrow> (('w, 'a) exchange, unit) proc" where
  "updateFiles env request =
     bindS (catchS (inClosure (Update (se_closure env) (map (\<lambda>c. \<lparr>fc_Path = fcv_Path c,
         fc_Version = fcv_Version c, fc_Source = fcv_Source c, fc_Deleted = fcv_Deleted c\<rparr>) (rq_Changes request))))
       (failWith ''update-failed'')) (\<lambda>affected.
     bindS (getS (\<lambda>x. cl_generation (ss_closure (ex_session x)))) (\<lambda>generation.
     respond (\<lambda>r. r\<lparr>rs_Generation := generation, rs_Affected := affected\<rparr>)))"

definition readSymbols ::
    "'w SessionEnv \<Rightarrow> 'a TransitionArena option \<Rightarrow> LifecycleRequest \<Rightarrow> (('w, 'a) exchange, unit) proc" where
  "readSymbols env arena request =
     bindS (getS (\<lambda>x. ss_tokenText (ex_session x))) (\<lambda>tokenText.
     if rq_StateToken request = [] \<or> rq_StateToken request \<noteq> tokenText
     then failWith ''state-mismatch'' ErrGenerationMismatch
     else catchS (populateSymbolEvidence env request arena) (failCancelled env ''analysis-failed''))"

definition readSources :: "'w SessionEnv \<Rightarrow> (('w, 'a) exchange, unit) proc" where
  "readSources env =
     bindS (catchS (inClosure (SourceFiles (se_closure env))) (failWith ''sources-failed'')) (\<lambda>sources.
     bindS (catchS (inSession (writeSourceArena env sources)) (failWith ''sources-failed''))
       (\<lambda>(path, descriptors, lengths).
     respond (\<lambda>r. r\<lparr>rs_SourceArena := path, rs_Sources := descriptors, rs_SourceLengths := lengths\<rparr>)))"

definition readModules :: "'w SessionEnv \<Rightarrow> LifecycleRequest \<Rightarrow> (('w, 'a) exchange, unit) proc" where
  "readModules env request =
     bindS (catchS (inClosure (ModuleGraph (se_closure env)
         (case rq_ModuleGraph request of
            Some demand \<Rightarrow> demand
          | None \<Rightarrow> \<lparr>mid_Imports = False, mid_ImportPaths = [], mid_Packages = False\<rparr>)))
       (failCancelled env ''modules-failed'')) (\<lambda>inventory.
     respond (\<lambda>r. r\<lparr>rs_Modules := inv_Modules inventory, rs_ModuleImports := inv_Imports inventory,
       rs_UnknownImportPaths := inv_UnknownImportPaths inventory\<rparr>))"

definition closeSession :: "'w SessionEnv \<Rightarrow> (('w, 'a) exchange, unit) proc" where
  "closeSession env x =
     (let (err, s) = Close_session env (ex_session x);
          x = x\<lparr>ex_session := s\<rparr>
      in case err of Some e \<Rightarrow> failWith ''close-failed'' e x | None \<Rightarrow> (Inr (), x))"

definition operate ::
    "'w SessionEnv \<Rightarrow> 'a TransitionArena option \<Rightarrow> LifecycleRequest \<Rightarrow> u64 \<Rightarrow> (('w, 'a) exchange, unit) proc" where
  "operate env arena request generation =
     (let same = (rq_Generation request = generation) in
      if rq_Operation request = LifecycleOpen then atGeneration same (retS ())
      else if rq_Operation request = LifecycleUpdate
      then atGeneration (rq_Generation request = generation + 1) (updateFiles env request)
      else if rq_Operation request = LifecycleAnalyze then atGeneration same (analyze env arena request generation)
      else if rq_Operation request = LifecycleSymbols then atGeneration same (readSymbols env arena request)
      else if rq_Operation request = LifecycleSources then atGeneration same (readSources env)
      else if rq_Operation request = LifecycleModules then atGeneration same (readModules env request)
      else if rq_Operation request = LifecycleClose then atGeneration same (closeSession env)
      else retS ())"

definition startResponse :: "LifecycleRequest \<Rightarrow> 'w Session \<Rightarrow> LifecycleResponse" where
  "startResponse request s = \<lparr>rs_Schema = ss_schema s, rs_RequestID = rq_RequestID request,
     rs_ProjectID = ss_projectID s, rs_Generation = cl_generation (ss_closure s), rs_OK = False,
     rs_TableTransition = [], rs_SymbolEvidence = [], rs_ReferenceEvidence = [],
     rs_ChangedReferenceSymbols = [], rs_ReferenceChangesExact = False, rs_StateToken = [],
     rs_Affected = [], rs_Sources = [], rs_SourceArena = [], rs_SourceLengths = [], rs_Timings = None,
     rs_Error = None, rs_Modules = [], rs_ModuleImports = [], rs_UnknownImportPaths = []\<rparr>"

definition noTransaction :: retainedDemandTransaction where
  "noTransaction = \<lparr>tx_undo = [], tx_changedPaths = [], tx_changedRuns = [], tx_resetOld = [],
     tx_reset = False, tx_finished = True\<rparr>"

definition admit ::
    "'w SessionEnv \<Rightarrow> 'a TransitionArena option \<Rightarrow> LifecycleRequest \<Rightarrow> (('w, 'a) exchange, unit) proc" where
  "admit env arena request =
     bindS (getS ex_session) (\<lambda>s.
     case ValidateLifecycleRequest request of
       Some err \<Rightarrow> failWith ''invalid-request'' err
     | None \<Rightarrow>
         if rq_Schema request \<noteq> ss_schema s
         then failWith ''invalid-request'' (Errorf ''unsupported TypeFacts schema'')
         else if Clean (rq_ProjectID request) \<noteq> ss_projectID s
         then failWith ''project-mismatch'' ErrGenerationMismatch
         else if ss_closed s
         then (if rq_Operation request = LifecycleClose \<and> ss_closeErr s = None then retS ()
               else failWith ''session-closed'' ErrSessionClosed)
         else operate env arena request (cl_generation (ss_closure s)))"

definition lifecycle ::
    "'w SessionEnv \<Rightarrow> 'a TransitionArena option \<Rightarrow> LifecycleRequest \<Rightarrow> 'w Session \<times> 'a \<Rightarrow>
     LifecycleResponse \<times> 'w Session \<times> 'a" where
  "lifecycle env arena request = (\<lambda>(s, a).
     let (r, x) = admit env arena request \<lparr>ex_session = s, ex_arena = a,
           ex_response = startResponse request s, ex_transaction = noTransaction\<rparr>;
         response = (case r of Inr _ \<Rightarrow> (ex_response x)\<lparr>rs_OK := True\<rparr> | Inl _ \<Rightarrow> ex_response x)
     in (response, ex_session x, ex_arena x))"

end
