(* ===== verification/Materialize_Facts.thy ===== *)
theory Materialize_Facts
  imports Materialize
begin

text \<open>
  What a materialization does to the closure and to the demand groups. Until the commit it only moves
  the environment, appends contributions to the heap and rewrites the caches of the groups; afterwards
  every group holds either the stored contribution of its path or one that was rebuilt from the
  backend's answer, whose rows all lie in the group's file.
\<close>

section \<open>The frame of a run\<close>

definition extends :: "'w DemandClosure \<Rightarrow> 'w DemandClosure \<Rightarrow> bool" where
  "extends p p' \<longleftrightarrow> cl_table p' = cl_table p \<and> cl_previousTable p' = cl_previousTable p \<and>
     cl_transportChangedPaths p' = cl_transportChangedPaths p \<and> cl_stats p' = cl_stats p \<and>
     cl_generation p' = cl_generation p \<and> cl_nextTableStateID p' = cl_nextTableStateID p \<and>
     cl_closed p' = cl_closed p \<and> cl_retained p' = cl_retained p \<and>
     cl_lastSuppression p' = cl_lastSuppression p \<and> cl_symbolsByPath p' = cl_symbolsByPath p \<and>
     (\<exists>new. cl_heap p' = cl_heap p @ new)"

lemma extends_refl [simp]: "extends p p"
  by (simp add: extends_def)

lemma extends_trans: "extends p q \<Longrightarrow> extends q r \<Longrightarrow> extends p r"
  by (auto simp: extends_def)

lemma extends_updates [simp]:
  "extends q (p\<lparr>cl_backend := w\<rparr>) = extends q p" "extends q (p\<lparr>cl_recyclableTable := t\<rparr>) = extends q p"
  "extends q (p\<lparr>cl_asyncFiles := a\<rparr>) = extends q p"
  by (simp_all add: extends_def)

lemma extends_heap: "extends q p \<Longrightarrow> extends q (p\<lparr>cl_heap := cl_heap p @ cs\<rparr>)"
  by (auto simp: extends_def)

lemma extends_nth: "extends p p' \<Longrightarrow> i < length (cl_heap p) \<Longrightarrow> cl_heap p' ! i = cl_heap p ! i"
  by (auto simp: extends_def nth_append)

lemma extends_length: "extends p p' \<Longrightarrow> length (cl_heap p) \<le> length (cl_heap p')"
  by (auto simp: extends_def)

text \<open>A group whose rows lie in its file.\<close>

definition located :: "demandGroup \<Rightarrow> bool" where
  "located g \<longleftrightarrow> (\<forall>d \<in> set (elems (dg_demands g)). loc_Path (dem_Location d) = dg_path g)"

lemma located_caches [simp]:
  "located (g\<lparr>dg_hash := h\<rparr>) = located g" "located (g\<lparr>dg_contribution := c\<rparr>) = located g"
  by (simp_all add: located_def)

lemma group_core_caches [simp]:
  "group_core (g\<lparr>dg_hash := h\<rparr>) = group_core g" "group_core (g\<lparr>dg_contribution := c\<rparr>) = group_core g"
  by (simp_all add: group_core_def isCompact_def)

lemma dg_path_core: "dg_path (group_core g) = dg_path g"
  by (simp add: group_core_def)

lemma ensureExpanded_core:
  assumes "ensureExpanded g = Inr g'" and "located g"
  shows "group_core g' = group_core g \<and> located g' \<and> dg_path g' = dg_path g \<and> dg_contribution g' = dg_contribution g"
  using assms by (auto simp: ensureExpanded_def bind_result_eq_Inr_iff group_core_def isCompact_def located_def
      canonicalizeDemandRun_def elems_def split: if_splits)

lemma releaseExpanded_core:
  "group_core (releaseExpanded g) = group_core g" "located g \<Longrightarrow> located (releaseExpanded g)"
  "dg_path (releaseExpanded g) = dg_path g" "dg_contribution (releaseExpanded g) = dg_contribution g"
  by (simp_all add: releaseExpanded_def group_core_def isCompact_def located_def elems_def)

definition framed :: "'w DemandClosure \<Rightarrow> demandGroup list \<Rightarrow> 'w closureRun \<Rightarrow> bool" where
  "framed p gs r \<longleftrightarrow> extends p (run_closure r) \<and> map group_core (run_groups r) = map group_core gs \<and>
     (\<forall>g \<in> set (run_groups r). located g)"

lemma framed_length: "framed p gs r \<Longrightarrow> length (run_groups r) = length gs"
  unfolding framed_def by (metis length_map)

lemma framed_path: "framed p gs r \<Longrightarrow> i < length gs \<Longrightarrow> dg_path (run_groups r ! i) = dg_path (gs ! i)"
  using framed_length[of p gs r] unfolding framed_def by (metis dg_path_core nth_map)

lemma framed_paths: "framed p gs r \<Longrightarrow> map dg_path (run_groups r) = map dg_path gs"
  by (intro nth_equalityI) (auto simp: framed_length framed_path)

lemma framed_update:
  assumes "framed p gs r" and "i < length gs" and "group_core g = group_core (run_groups r ! i)" and "located g"
    and "extends p q"
  shows "framed p gs \<lparr>run_closure = q, run_groups = (run_groups r)[i := g]\<rparr>"
proof -
  have "map group_core ((run_groups r)[i := g]) = map group_core (run_groups r)"
    using assms(3) by (simp add: map_update nth_map[symmetric] del: nth_map)
      (metis list_update_beyond list_update_id map_update not_less)
  then show ?thesis using assms set_update_subset_insert[of "run_groups r" i g]
    by (auto simp: framed_def)
qed

section \<open>Stages that only read\<close>

lemma wp_any: "(\<And>v s. Q v s) \<Longrightarrow> (\<And>e s. E e s) \<Longrightarrow> wp m Q E s"
  by (cases "m s"; cases "fst (m s)") (auto simp: wp_def)

lemma wp_backendS:
  "(\<And>v w. Q v (p\<lparr>cl_backend := w\<rparr>)) \<Longrightarrow> (\<And>e w. E e (p\<lparr>cl_backend := w\<rparr>)) \<Longrightarrow> wp (backendS m) Q E p"
  unfolding backendS_def wp_partS by (rule wp_any)

lemma wp_ctxCheck:
  "(\<And>w. Q () (p\<lparr>cl_backend := w\<rparr>)) \<Longrightarrow> (\<And>e w. E e (p\<lparr>cl_backend := w\<rparr>)) \<Longrightarrow> wp (ctxCheck env) Q E p"
  by (simp add: wp_def ctxCheck_def split: prod.split option.split)

lemma semanticSourceDigests_wp:
  assumes "extends q p"
  shows "wp (semanticSourceDigests env)
    (\<lambda>ds p'. extends q p' \<and> digestOrder None ds = Inr ()) (\<lambda>_. extends q) p"
  unfolding semanticSourceDigests_def wp_bindS
  by (rule wp_backendS) (use assms in \<open>auto simp: wp_rules split: sum.split\<close>)

lemma keeps_backendS [keeps_rules]: "(\<And>p w. I p \<Longrightarrow> I (p\<lparr>cl_backend := w\<rparr>)) \<Longrightarrow> keeps I (backendS m)"
  by (rule keepsI, rule wp_backendS) auto

lemma asyncStage_wp: "keeps (extends q) (asyncStage env windows)"
  unfolding asyncStage_def asyncFunctionsForDemands_def by (intro keeps_rules) auto

lemma fileRows_wp:
  assumes "extends q p"
  shows "wp (fileRows env ds byPath)
    (\<lambda>rows p'. extends q p' \<and> rows = map (\<lambda>d. asyncFile (dig_Path d) (factsAt (dig_Path d) byPath)) ds)
    (\<lambda>_. extends q) p"
  unfolding fileRows_def
  by (rule wp_loopS[where I = "\<lambda>done' rows p'. extends q p' \<and>
      rows = map (\<lambda>d. asyncFile (dig_Path d) (factsAt (dig_Path d) byPath)) done'"])
    (use assms in \<open>auto simp: wp_rules intro!: wp_ctxCheck\<close>)

section \<open>The scan\<close>

text \<open>A group that keeps the stored contribution of its path.\<close>

definition kept :: "'w closureRun \<Rightarrow> nat \<Rightarrow> bool" where
  "kept r i \<longleftrightarrow> (\<exists>ref. dg_contribution (run_groups r ! i) = Some ref \<and>
     rcs_get (cl_retained (run_closure r)) (dg_path (run_groups r ! i)) = Some ref)"

lemma kept_eq: "kept r i \<longleftrightarrow> dg_contribution (run_groups r ! i) \<noteq> None \<and>
     dg_contribution (run_groups r ! i) = rcs_get (cl_retained (run_closure r)) (dg_path (run_groups r ! i))"
  by (auto simp: kept_def)

lemma scanGroup_wp:
  assumes "framed p gs r" and "i < length gs"
  shows "wp (scanGroup env i sc)
    (\<lambda>sc' r'. framed p gs r' \<and> run_closure r' = run_closure r \<and>
       (\<forall>j. j \<noteq> i \<longrightarrow> run_groups r' ! j = run_groups r ! j) \<and>
       (if kept r' i \<and> sc_changed sc' = sc_changed sc then sc_runs sc' = sc_runs sc
        else sc_changed sc' = sc_changed sc @ [i] \<and> length (sc_runs sc') = Suc (length (sc_runs sc))))
    (\<lambda>e r'. framed p gs r' \<and> run_closure r' = run_closure r) r"
proof -
  let ?g = "run_groups r ! i" and ?p = "run_closure r"
  have len: "i < length (run_groups r)" using assms framed_length by metis
  have loc: "located ?g" using assms(1) len by (simp add: framed_def)
  have step: "framed p gs (r\<lparr>run_groups := (run_groups r)[i := g]\<rparr>)"
    if "group_core g = group_core ?g" "located g" for g
    using framed_update[OF assms(1,2) that, of "run_closure r"] assms(1)
    by (cases r) (simp add: framed_def)
  define c where "c = rcs_get (cl_retained ?p) (dg_path ?g)"
  define fresh where "fresh \<longleftrightarrow> c = None \<or> cl_transportChangedPaths ?p = None \<or>
    dg_path ?g \<in> set (elems (cl_transportChangedPaths ?p))"
  let ?Q = "\<lambda>sc' r'. framed p gs r' \<and> run_closure r' = run_closure r \<and>
       (\<forall>j. j \<noteq> i \<longrightarrow> run_groups r' ! j = run_groups r ! j) \<and>
       (if kept r' i \<and> sc_changed sc' = sc_changed sc then sc_runs sc' = sc_runs sc
        else sc_changed sc' = sc_changed sc @ [i] \<and> length (sc_runs sc') = Suc (length (sc_runs sc)))"
  let ?E = "\<lambda>e r'. framed p gs r' \<and> run_closure r' = run_closure r"
  have tail: "wp (if c \<noteq> None \<and> rc_demandHash (cl_heap ?p ! the c) = dg_hash g
       then bindS (setGroup i (g\<lparr>dg_contribution := c\<rparr>)) (\<lambda>_. retS (sc\<lparr>sc_union := un, sc_seed := se\<rparr>))
       else bindS (setGroup i g) (\<lambda>_. retS (sc\<lparr>sc_changed := sc_changed sc @ [i], sc_runs := sc_runs sc @ [run]\<rparr>)))
      ?Q ?E r" if g: "group_core g = group_core ?g" "located g" "dg_path g = dg_path ?g" for g un se run
    using step[OF g(1,2)] step[of "g\<lparr>dg_contribution := c\<rparr>"] g len
    by (simp add: wp_rules setGroup_def kept_eq c_def)
  have goal: "wp (scanGroup env i sc) ?Q ?E r =
    wp (if fresh
        then bindS (liftS (ensureExpanded ?g)) (\<lambda>g.
          retS (g\<lparr>dg_hash := demandListHash (env_maphash env) (elems (dg_demands g))\<rparr>))
        else retS (?g\<lparr>dg_hash := rc_demandHash (cl_heap ?p ! the c)\<rparr>))
      (\<lambda>g. wp (if c \<noteq> None \<and> rc_demandHash (cl_heap ?p ! the c) = dg_hash g
        then bindS (setGroup i (g\<lparr>dg_contribution := c\<rparr>)) (\<lambda>_.
          retS (sc\<lparr>sc_union := fold List.insert (rc_structural (cl_heap ?p ! the c)) (sc_union sc),
            sc_seed := fold addSeed (contributionSeeds (cl_heap ?p ! the c)) (sc_seed sc)\<rparr>))
        else bindS (setGroup i g) (\<lambda>_. retS (sc\<lparr>sc_changed := sc_changed sc @ [i],
          sc_runs := sc_runs sc @ [\<lparr>sdr_Path = dg_path g, sdr_Demands = elems (dg_demands g)\<rparr>]\<rparr>))) ?Q ?E) ?E r"
    by (simp only: scanGroup_def wp_bindS wp_getS prod.case Let_def c_def fresh_def)
  show ?thesis
  proof (cases fresh)
    case False
    then show ?thesis unfolding goal by (simp only: if_False wp_retS) (rule tail, use loc in simp_all)
  next
    case True
    show ?thesis
    proof (cases "ensureExpanded ?g")
      case (Inl e)
      then show ?thesis unfolding goal using True assms(1) by (simp add: wp_rules)
    next
      case (Inr g)
      note core = ensureExpanded_core[OF this loc]
      show ?thesis unfolding goal using True Inr
        by (simp only: if_True wp_bindS wp_liftS wp_retS sum.case) (rule tail, use core in simp_all)
    qed
  qed
qed

lemma kept_cong:
  "run_closure r' = run_closure r \<Longrightarrow> run_groups r' ! j = run_groups r ! j \<Longrightarrow> kept r' j = kept r j"
  by (simp add: kept_def)

definition scanned :: "nat list \<Rightarrow> scanState \<Rightarrow> 'w closureRun \<Rightarrow> bool" where
  "scanned visited sc r \<longleftrightarrow> distinct (sc_changed sc) \<and> set (sc_changed sc) \<subseteq> set visited \<and>
     length (sc_runs sc) = length (sc_changed sc) \<and> (\<forall>i \<in> set visited. i \<in> set (sc_changed sc) \<or> kept r i)"

lemma scanned_step:
  assumes "scanned visited sc r" and "i \<notin> set visited" and "run_closure r' = run_closure r"
    and "\<forall>j. j \<noteq> i \<longrightarrow> run_groups r' ! j = run_groups r ! j"
    and "if kept r' i \<and> sc_changed sc' = sc_changed sc then sc_runs sc' = sc_runs sc
      else sc_changed sc' = sc_changed sc @ [i] \<and> length (sc_runs sc') = Suc (length (sc_runs sc))"
  shows "scanned (visited @ [i]) sc' r'"
proof -
  have "kept r' j = kept r j" if "j \<in> set visited" for j
    using assms(2-4) that by (intro kept_cong) auto
  then show ?thesis using assms(1,2,5) by (auto simp: scanned_def split: if_splits)
qed

lemma scan_wp:
  assumes "framed p gs r"
  shows "wp (loopS (scanGroup env) [0..<length gs] emptyScan)
    (\<lambda>sc r'. framed p gs r' \<and> run_closure r' = run_closure r \<and> scanned [0..<length gs] sc r')
    (\<lambda>e r'. framed p gs r' \<and> run_closure r' = run_closure r) r"
proof (rule wp_loopS[where I = "\<lambda>visited sc r'. framed p gs r' \<and> run_closure r' = run_closure r \<and> scanned visited sc r'"])
  show "framed p gs r \<and> run_closure r = run_closure r \<and> scanned [] emptyScan r"
    using assms by (simp add: scanned_def emptyScan_def)
next
  fix visited i rest sc r'
  assume split: "[0..<length gs] = visited @ i # rest"
    and I: "framed p gs r' \<and> run_closure r' = run_closure r \<and> scanned visited sc r'"
  have "i \<in> set [0..<length gs]" unfolding split by simp
  moreover have "distinct (visited @ i # rest)" unfolding split[symmetric] by simp
  ultimately have i: "i < length gs" "i \<notin> set visited" by auto
  show "wp (scanGroup env i sc)
      (\<lambda>sc r'. framed p gs r' \<and> run_closure r' = run_closure r \<and> scanned (visited @ [i]) sc r')
      (\<lambda>e r'. framed p gs r' \<and> run_closure r' = run_closure r) r'"
    by (rule wp_mono[OF scanGroup_wp[of p gs r' i]])
      (use I i in \<open>auto intro: scanned_step simp del: if_split\<close>)
qed

section \<open>Rebuilt contributions\<close>

definition rebuilt :: "nat \<Rightarrow> 'w closureRun \<Rightarrow> nat \<Rightarrow> bool" where
  "rebuilt start r i \<longleftrightarrow> (\<exists>ref. dg_contribution (run_groups r ! i) = Some ref \<and> start \<le> ref \<and>
     ref < length (cl_heap (run_closure r)) \<and>
     (\<forall>e \<in> set (groupEntities (cl_heap (run_closure r)) (run_groups r ! i)). entity_path e = dg_path (run_groups r ! i)))"

lemma prepared_located:
  assumes "prepareRetainedContribution path h ds result = Inr c"
    and "\<forall>d \<in> set ds. loc_Path (dem_Location d) = path" and "e \<in> set (elems (rc_entities c))"
  shows "entity_path e = path"
proof -
  have "ent_Location e \<in> set (map ent_Location (elems (rc_entities c)))" using assms(3) by simp
  also have "\<dots> = dem_Location ` set ds"
    by (simp only: prepareRetainedContribution_Inr(3)[OF assms(1)] mergedRows_locations remdups_adj_set set_map)
  finally show ?thesis using assms(2) by (auto simp: entity_path_def)
qed

lemma rebuilt_mono:
  assumes "rebuilt start r i" and "run_groups r' ! i = run_groups r ! i"
    and "cl_heap (run_closure r') = cl_heap (run_closure r) @ new"
  shows "rebuilt start r' i"
  using assms by (auto simp: rebuilt_def groupEntities_def nth_append)

lemma rebuildGroup_wp:
  assumes "framed p gs r" and "i < length gs"
  shows "wp (rebuildGroup (i, result) u)
    (\<lambda>_ r'. framed p gs r' \<and> extends (run_closure r) (run_closure r') \<and>
       (\<forall>j. j \<noteq> i \<longrightarrow> run_groups r' ! j = run_groups r ! j) \<and> rebuilt (length (cl_heap (run_closure r))) r' i)
    (\<lambda>e r'. framed p gs r' \<and> extends (run_closure r) (run_closure r')) r"
proof -
  let ?g = "run_groups r ! i" and ?p = "run_closure r"
  have len: "i < length (run_groups r)" using assms framed_length by metis
  have loc: "located ?g" using assms(1) len by (simp add: framed_def)
  have ext: "extends p ?p" using assms(1) by (simp add: framed_def)
  show ?thesis
  proof (cases "prepareRetainedContribution (dg_path ?g) (dg_hash ?g) (elems (dg_demands ?g)) result")
    case (Inl e)
    then show ?thesis using assms(1) by (simp add: rebuildGroup_def wp_rules)
  next
    case (Inr c)
    let ?r = "r\<lparr>run_closure := ?p\<lparr>cl_heap := cl_heap ?p @ [c]\<rparr>,
        run_groups := (run_groups r)[i := ?g\<lparr>dg_contribution := Some (length (cl_heap ?p))\<rparr>]\<rparr>"
    have "framed p gs ?r"
      using framed_update[OF assms, of "?g\<lparr>dg_contribution := Some (length (cl_heap ?p))\<rparr>"
          "?p\<lparr>cl_heap := cl_heap ?p @ [c]\<rparr>"] loc extends_heap[OF ext] by (cases r) simp
    moreover have "extends ?p (run_closure ?r)" using extends_heap[of ?p ?p "[c]"] by simp
    moreover have "rebuilt (length (cl_heap ?p)) ?r i"
      using prepared_located[OF Inr] loc len
      by (simp add: rebuilt_def groupEntities_def nth_append located_def)
    ultimately show ?thesis using Inr by (simp add: rebuildGroup_def wp_rules)
  qed
qed

lemma rebuildContributions_wp:
  assumes "framed p gs r" and "distinct indices" and "set indices \<subseteq> {..<length gs}"
  shows "wp (rebuildContributions results indices)
    (\<lambda>_ r'. framed p gs r' \<and> extends (run_closure r) (run_closure r') \<and>
       (\<forall>j. j \<notin> set indices \<longrightarrow> run_groups r' ! j = run_groups r ! j) \<and>
       (\<forall>i \<in> set indices. rebuilt (length (cl_heap (run_closure r))) r' i))
    (\<lambda>e r'. framed p gs r' \<and> extends (run_closure r) (run_closure r')) r"
proof (cases "length results = length indices")
  case False
  then show ?thesis using assms(1) by (simp add: rebuildContributions_def wp_rules)
next
  case True
  let ?I = "\<lambda>visited (_::unit) r'. framed p gs r' \<and> extends (run_closure r) (run_closure r') \<and>
       (\<forall>j. j \<notin> set (map fst visited) \<longrightarrow> run_groups r' ! j = run_groups r ! j) \<and>
       (\<forall>i \<in> set (map fst visited). rebuilt (length (cl_heap (run_closure r))) r' i)"
  have "wp (loopS rebuildGroup (zip indices results) ()) (?I (zip indices results))
      (\<lambda>e r'. framed p gs r' \<and> extends (run_closure r) (run_closure r')) r"
  proof (rule wp_loopS[where I = ?I])
    show "?I [] () r" using assms(1) by simp
  next
    fix visited x rest u r'
    assume split: "zip indices results = visited @ x # rest" and I: "?I visited u r'"
    obtain i result where x: "x = (i, result)" by (cases x)
    have fsts: "indices = map fst visited @ i # map fst rest"
      using arg_cong[OF split, of "map fst"] True by (simp add: x)
    then have i: "i < length gs" "i \<notin> set (map fst visited)" using assms(2,3) by auto
    have step: "?I (visited @ [x]) v r''"
      if post: "framed p gs r'' \<and> extends (run_closure r') (run_closure r'') \<and>
        (\<forall>j. j \<noteq> i \<longrightarrow> run_groups r'' ! j = run_groups r' ! j) \<and>
        rebuilt (length (cl_heap (run_closure r'))) r'' i" for r'' v
    proof -
      obtain new where new: "cl_heap (run_closure r'') = cl_heap (run_closure r') @ new"
        using post by (auto simp: extends_def)
      have "length (cl_heap (run_closure r)) \<le> length (cl_heap (run_closure r'))"
        using I extends_length by blast
      then have "rebuilt (length (cl_heap (run_closure r))) r'' i" using post by (auto simp: rebuilt_def)
      moreover have "rebuilt (length (cl_heap (run_closure r))) r'' j" if "j \<in> set (map fst visited)" for j
        using I post i(2) that new by (intro rebuilt_mono[of _ r' j r'' new]) auto
      moreover have "extends (run_closure r) (run_closure r'')" using I post extends_trans by blast
      ultimately show ?thesis using I post by (auto simp: x)
    qed
    show "wp (rebuildGroup x u) (?I (visited @ [x]))
        (\<lambda>e r'. framed p gs r' \<and> extends (run_closure r) (run_closure r')) r'"
      unfolding x
      by (rule wp_mono[OF rebuildGroup_wp[of p gs r' i]])
        (use I i step[unfolded x] extends_trans in \<open>blast+\<close>)
  qed
  then show ?thesis using True by (simp add: rebuildContributions_def)
qed

section \<open>The two calls of the backend\<close>

text \<open>What a stage leaves of the groups it does not name, and what it does to the others.\<close>

definition advanced :: "'w DemandClosure \<Rightarrow> demandGroup list \<Rightarrow> nat list \<Rightarrow> 'w closureRun \<Rightarrow> 'w closureRun \<Rightarrow> bool" where
  "advanced p gs indices r r' \<longleftrightarrow> framed p gs r' \<and> extends (run_closure r) (run_closure r') \<and>
     set indices \<subseteq> {..<length gs} \<and> (\<forall>j. j \<notin> set indices \<longrightarrow> run_groups r' ! j = run_groups r ! j) \<and>
     (\<forall>i \<in> set indices. rebuilt (length (cl_heap (run_closure r))) r' i)"

lemma advanced_none: "framed p gs r \<Longrightarrow> advanced p gs [] r r"
  by (simp add: advanced_def)

lemma wp_onClosure_backend:
  assumes "\<And>v w. Q v (r\<lparr>run_closure := (run_closure r)\<lparr>cl_backend := w\<rparr>\<rparr>)"
    and "\<And>e w. E e (r\<lparr>run_closure := (run_closure r)\<lparr>cl_backend := w\<rparr>\<rparr>)"
  shows "wp (onClosure (backendS m)) Q E r"
  unfolding onClosure_def wp_partS by (rule wp_backendS) (use assms in auto)

lemma framed_backend: "framed p gs (r\<lparr>run_closure := (run_closure r)\<lparr>cl_backend := w\<rparr>\<rparr>) = framed p gs r"
  by (simp add: framed_def)

lemma advanced_backend:
  "advanced p gs is (r\<lparr>run_closure := (run_closure r)\<lparr>cl_backend := w\<rparr>\<rparr>) r' = advanced p gs is r r'"
  by (auto simp: advanced_def extends_def)

lemma extends_from_backend: "extends (p\<lparr>cl_backend := w\<rparr>) q = extends p q"
  by (simp add: extends_def)

lemma rebuild_advanced:
  assumes "framed p gs r" and "distinct indices" and "set indices \<subseteq> {..<length gs}"
  shows "wp (rebuildContributions results indices) (\<lambda>_ r'. advanced p gs indices r r')
    (\<lambda>e r'. framed p gs r' \<and> extends (run_closure r) (run_closure r')) r"
  by (rule wp_mono[OF rebuildContributions_wp[OF assms]]) (use assms in \<open>auto simp: advanced_def\<close>)

lemma changedStage_wp:
  assumes "framed p gs r" and "scanned [0..<length gs] sc r"
  shows "wp (changedStage env sc) (\<lambda>_ r'. advanced p gs (sc_changed sc) r r') (\<lambda>e r'. framed p gs r') r"
proof (cases "sc_runs sc = []")
  case True
  then have "sc_changed sc = []" using assms(2) by (auto simp: scanned_def)
  then show ?thesis using True assms(1) by (simp add: changedStage_def wp_rules advanced_none)
next
  case False
  have idx: "distinct (sc_changed sc)" "set (sc_changed sc) \<subseteq> {..<length gs}"
    using assms(2) by (auto simp: scanned_def)
  show ?thesis
    using False
    by (simp add: changedStage_def wp_rules)
      (rule wp_onClosure_backend, rule wp_mono[OF rebuild_advanced[OF _ idx]],
       use assms(1) in \<open>auto simp: framed_backend advanced_backend\<close>)
qed

lemma expandGroup_wp:
  assumes "framed p gs r" and "i < length gs"
  shows "wp (expandGroup i runs)
    (\<lambda>_ r'. framed p gs r' \<and> run_closure r' = run_closure r \<and> (\<forall>j. j \<noteq> i \<longrightarrow> run_groups r' ! j = run_groups r ! j))
    (\<lambda>e r'. framed p gs r') r"
proof -
  let ?g = "run_groups r ! i"
  have loc: "located ?g" using assms framed_length[OF assms(1)] by (simp add: framed_def)
  show ?thesis
  proof (cases "ensureExpanded ?g")
    case (Inl e)
    then show ?thesis using assms(1) by (simp add: expandGroup_def wp_rules)
  next
    case (Inr g)
    note core = ensureExpanded_core[OF this loc]
    have "framed p gs (r\<lparr>run_groups := (run_groups r)[i := g]\<rparr>)"
      using framed_update[OF assms, of g "run_closure r"] core assms(1) by (cases r) (simp add: framed_def)
    then show ?thesis using Inr by (simp add: expandGroup_def wp_rules setGroup_def)
  qed
qed

lemma refreshIndices_range:
  assumes "framed p gs r"
  shows "set (refreshIndices r delta) \<subseteq> {..<length gs}" "distinct (refreshIndices r delta)"
  using search_key_le[of dg_path "run_groups r"] framed_length[OF assms]
  by (auto simp: refreshIndices_def refreshIndex_def Let_def order_less_le split: if_splits)

lemma refreshStage_wp:
  assumes "framed p gs r"
  shows "wp (refreshStage env suppression) (\<lambda>refresh r'. advanced p gs refresh r r') (\<lambda>e r'. framed p gs r') r"
proof -
  let ?idx = "\<lambda>previous. refreshIndices r (suppressionDelta suppression previous)"
  have main: "wp (loopS expandGroup (?idx previous) [])
      (\<lambda>runs. wp (if ?idx previous = [] then retS [] else
         bindS (onClosure (backendS (cb_SemanticDemandRuns env runs (set suppression) Map.empty))) (\<lambda>results.
         bindS (rebuildContributions results (?idx previous)) (\<lambda>_. retS (?idx previous))))
        (\<lambda>refresh r'. advanced p gs refresh r r') (\<lambda>e r'. framed p gs r'))
      (\<lambda>e r'. framed p gs r') r" for previous
  proof (rule wp_mono[OF wp_loopS[where I = "\<lambda>visited _ r'. framed p gs r' \<and> run_closure r' = run_closure r \<and>
      (\<forall>j. j \<notin> set visited \<longrightarrow> run_groups r' ! j = run_groups r ! j)" and E = "\<lambda>e r'. framed p gs r'"]])
    show "framed p gs r \<and> run_closure r = run_closure r \<and> (\<forall>j. j \<notin> set [] \<longrightarrow> run_groups r ! j = run_groups r ! j)"
      using assms by simp
  next
    fix visited x rest and a :: "SemanticDemandRun list" and r'
    assume split: "?idx previous = visited @ x # rest"
      and I: "framed p gs r' \<and> run_closure r' = run_closure r \<and> (\<forall>j. j \<notin> set visited \<longrightarrow> run_groups r' ! j = run_groups r ! j)"
    have "x < length gs" using refreshIndices_range(1)[OF assms, of "suppressionDelta suppression previous"] split by auto
    then show "wp (expandGroup x a) (\<lambda>_ r'. framed p gs r' \<and> run_closure r' = run_closure r \<and>
        (\<forall>j. j \<notin> set (visited @ [x]) \<longrightarrow> run_groups r' ! j = run_groups r ! j)) (\<lambda>e r'. framed p gs r') r'"
      by (intro wp_mono[OF expandGroup_wp[of p gs r' x]]) (use I in auto)
  next
    fix runs r'
    assume I: "framed p gs r' \<and> run_closure r' = run_closure r \<and>
      (\<forall>j. j \<notin> set (?idx previous) \<longrightarrow> run_groups r' ! j = run_groups r ! j)"
    have adv: "advanced p gs (?idx previous) r r''" if "advanced p gs (?idx previous) r' r''" for r''
      using I that by (auto simp: advanced_def)
    have empty: "advanced p gs [] r r'" if "?idx previous = []" using I that by (auto simp: advanced_def)
    show "wp (if ?idx previous = [] then retS [] else
         bindS (onClosure (backendS (cb_SemanticDemandRuns env runs (set suppression) Map.empty))) (\<lambda>results.
         bindS (rebuildContributions results (?idx previous)) (\<lambda>_. retS (?idx previous))))
        (\<lambda>refresh r'. advanced p gs refresh r r') (\<lambda>e r'. framed p gs r') r'"
      using empty
      by (simp add: wp_rules, intro impI)
        (rule wp_onClosure_backend, rule wp_mono[OF rebuild_advanced[of p gs]],
         use conjunct1[OF I] adv refreshIndices_range[OF assms] in \<open>auto simp: framed_backend advanced_backend\<close>)
  qed
  show ?thesis
    using main assms
    by (auto simp: refreshStage_def wp_rules advanced_none split: option.split)
qed

section \<open>The whole run\<close>

text \<open>Every group is settled: it keeps its stored contribution, or it was rebuilt and its path is named.\<close>

definition settled :: "'w DemandClosure \<Rightarrow> demandGroup list \<Rightarrow> nat list \<Rightarrow> 'w closureRun \<Rightarrow> bool" where
  "settled p gs changed r \<longleftrightarrow> framed p gs r \<and> set changed \<subseteq> {..<length gs} \<and>
     (\<forall>i < length gs. if i \<in> set changed then rebuilt (length (cl_heap p)) r i else kept r i)"

lemma rebuilt_weaken: "rebuilt start r i \<Longrightarrow> start' \<le> start \<Longrightarrow> rebuilt start' r i"
  by (auto simp: rebuilt_def)

lemma settled_stages:
  assumes "framed p gs r1" and "scanned [0..<length gs] sc r1" and "advanced p gs (sc_changed sc) r1 r2"
    and "advanced p gs refresh r2 r3"
  shows "settled p gs (sc_changed sc @ refresh) r3"
proof -
  have e12: "extends (run_closure r1) (run_closure r2)" and e23: "extends (run_closure r2) (run_closure r3)"
    and e1: "extends p (run_closure r1)" using assms by (auto simp: advanced_def framed_def)
  obtain new where new: "cl_heap (run_closure r3) = cl_heap (run_closure r2) @ new" using e23 by (auto simp: extends_def)
  have le: "length (cl_heap p) \<le> length (cl_heap (run_closure r1))" using extends_length[OF e1] .
  have le2: "length (cl_heap p) \<le> length (cl_heap (run_closure r2))"
    using extends_length[OF e12] le by simp
  have "if i \<in> set (sc_changed sc @ refresh) then rebuilt (length (cl_heap p)) r3 i else kept r3 i"
    if i: "i < length gs" for i
  proof (cases "i \<in> set refresh")
    case True
    then show ?thesis using assms(4) rebuilt_weaken[OF _ le2, of r3 i] by (auto simp: advanced_def)
  next
    case False
    then have same: "run_groups r3 ! i = run_groups r2 ! i" using assms(4) by (auto simp: advanced_def)
    show ?thesis
    proof (cases "i \<in> set (sc_changed sc)")
      case True
      then have "rebuilt (length (cl_heap (run_closure r1))) r2 i" using assms(3) by (auto simp: advanced_def)
      then show ?thesis using rebuilt_weaken[OF rebuilt_mono[OF _ same new] le] True by simp
    next
      case out: False
      then have "run_groups r2 ! i = run_groups r1 ! i" using assms(3) by (auto simp: advanced_def)
      moreover have "kept r1 i" using assms(2) i out by (auto simp: scanned_def)
      moreover have "cl_retained (run_closure r3) = cl_retained (run_closure r1)"
        using e12 e23 by (simp add: extends_def)
      ultimately have "kept r3 i" using same unfolding kept_def by metis
      then show ?thesis using out False by simp
    qed
  qed
  then show ?thesis using assms(3,4) by (auto simp: settled_def advanced_def)
qed

definition sourcesOf :: "SourceDigest list \<Rightarrow> FileFact list \<Rightarrow> bool" where
  "sourcesOf digests files \<longleftrightarrow> digestOrder None digests = Inr () \<and> map file_Path files = map dig_Path digests"

definition materialized ::
    "'w DemandClosure \<Rightarrow> demandGroup list \<Rightarrow> u64 \<Rightarrow> FactTable \<Rightarrow> 'w closureRun \<Rightarrow> bool" where
  "materialized p gs generation t r' \<longleftrightarrow> (\<exists>r changed recyclable digests files suppression.
     settled p gs changed r \<and> sourcesOf digests files \<and>
     commitTable ((startTable recyclable generation digests)\<lparr>ft_Files := files\<rparr>) suppression
       (manifestChangedPaths (cl_transportChangedPaths (run_closure r)) (run_groups r) changed) r =
       (t, r'\<lparr>run_groups := run_groups r\<rparr>) \<and>
     run_groups r' = map releaseExpanded (run_groups r))"

lemma framed_closure: "framed p gs (r\<lparr>run_closure := q\<rparr>) \<longleftrightarrow> framed p gs r" if "extends p q" "framed p gs r"
  using that by (simp add: framed_def)

lemma wp_onClosure_extends:
  assumes "framed p gs r" and "wp m (\<lambda>v q. extends p q \<and> P v) (\<lambda>_. extends p) (run_closure r)"
    and "\<And>v q. extends p q \<Longrightarrow> P v \<Longrightarrow> framed p gs (r\<lparr>run_closure := q\<rparr>) \<Longrightarrow> Q v (r\<lparr>run_closure := q\<rparr>)"
    and "\<And>e r'. framed p gs r' \<Longrightarrow> E e r'"
  shows "wp (onClosure m) Q E r"
  unfolding onClosure_def wp_partS
  by (rule wp_mono[OF assms(2)]) (use assms(1,3,4) in \<open>auto simp: framed_def\<close>)

lemma map_releaseExpanded_framed: "framed p gs r \<Longrightarrow> framed p gs (r\<lparr>run_groups := map releaseExpanded (run_groups r)\<rparr>)"
  by (auto simp: framed_def releaseExpanded_core comp_def)

lemma wp_bindI: "wp m (\<lambda>v. wp (k v) Q E) E s \<Longrightarrow> wp (bindS m k) Q E s"
  by (simp add: wp_rules)

lemma contributions_wp:
  assumes "framed p gs r" and "sourcesOf digests files"
  shows "wp (materializeContributions env ((startTable recyclable generation digests)\<lparr>ft_Files := files\<rparr>) counts)
    (\<lambda>(t, _) r'. materialized p gs generation t (r'\<lparr>run_groups := map releaseExpanded (run_groups r')\<rparr>))
    (\<lambda>e r'. framed p gs r') r"
proof -
  let ?table = "(startTable recyclable generation digests)\<lparr>ft_Files := files\<rparr>"
  let ?paths = "\<lambda>r changed. manifestChangedPaths (cl_transportChangedPaths (run_closure r)) (run_groups r) changed"
  have commit: "materialized p gs generation t (r'\<lparr>run_groups := map releaseExpanded (run_groups r')\<rparr>)"
    if "settled p gs changed r3" "commitTable ?table suppression (?paths r3 changed) r3 = (t, r')"
    for changed r3 suppression t r'
  proof -
    have "run_groups r' = run_groups r3" using that(2) by (auto simp: commitTable_def Let_def)
    then show ?thesis
      unfolding materialized_def
      by (intro exI[of _ r3] exI[of _ changed] exI[of _ recyclable] exI[of _ digests] exI[of _ files] exI[of _ suppression])
        (use that assms(2) in \<open>simp\<close>)
  qed
  have last: "wp (refreshStage env suppression) (\<lambda>refresh r3.
      case commitTable ?table suppression (?paths r3 (sc_changed sc @ refresh)) r3 of (t, r') \<Rightarrow>
        materialized p gs generation t (r'\<lparr>run_groups := map releaseExpanded (run_groups r')\<rparr>))
      (\<lambda>e r'. framed p gs r') r2"
    if "framed p gs r1" "scanned [0..<length gs] sc r1" "advanced p gs (sc_changed sc) r1 r2" for sc r1 r2 suppression
  proof -
    have fr: "framed p gs r2" using that(3) by (simp add: advanced_def)
    show ?thesis
      by (rule wp_mono[OF refreshStage_wp[OF fr]]) (auto intro: commit[OF settled_stages[OF that]] split: prod.split)
  qed
  show ?thesis
    unfolding materializeContributions_def Let_def
    apply (simp add: wp_rules split_def framed_length[OF assms(1)])
    apply (rule wp_mono[OF scan_wp[OF assms(1)]])
     apply (rule wp_mono[OF changedStage_wp])
        apply (use last in \<open>auto simp: split_def\<close>)
    done
qed

lemma materialize_wp:
  assumes "framed p gs r"
  shows "wp (materializeSemanticDemandRetained env generation)
    (\<lambda>(t, _) r'. materialized p gs generation t r') (\<lambda>e r'. framed p gs r') r"
proof -
  let ?Q = "\<lambda>(t, _) r'. materialized p gs generation t (r'\<lparr>run_groups := map releaseExpanded (run_groups r')\<rparr>)"
  let ?E = "\<lambda>e r'. framed p gs (r'\<lparr>run_groups := map releaseExpanded (run_groups r')\<rparr>)"
  have files: "wp (onClosure (fileRows env digests byPath))
      (\<lambda>files. wp (materializeContributions env ((startTable recyclable generation digests)\<lparr>ft_Files := files\<rparr>) counts) ?Q ?E)
      ?E r" if "framed p gs r" "digestOrder None digests = Inr ()" for r byPath digests recyclable counts
  proof (rule wp_onClosure_extends[OF that(1), where P = "\<lambda>files :: FileFact list. map file_Path files = map dig_Path digests"])
    have "extends p (run_closure r)" using that(1) by (simp add: framed_def)
    from fileRows_wp[OF this]
    show "wp (fileRows env digests byPath) (\<lambda>files q. extends p q \<and> map file_Path files = map dig_Path digests)
        (\<lambda>_. extends p) (run_closure r)"
      by (rule wp_mono) (auto simp: asyncFile_def)
  next
    fix files :: "FileFact list" and q
    assume "map file_Path files = map dig_Path digests" and fr: "framed p gs (r\<lparr>run_closure := q\<rparr>)"
    then have "sourcesOf digests files" using that(2) by (simp add: sourcesOf_def)
    from contributions_wp[OF fr this]
    show "wp (materializeContributions env ((startTable recyclable generation digests)\<lparr>ft_Files := files\<rparr>) counts) ?Q ?E
        (r\<lparr>run_closure := q\<rparr>)"
      by (rule wp_mono) (auto intro: map_releaseExpanded_framed)
  qed (rule map_releaseExpanded_framed)
  have async: "wp (onClosure (asyncStage env windows)) (\<lambda>(byPath, counts). wp (onClosure (fileRows env digests byPath))
      (\<lambda>files. wp (materializeContributions env ((startTable recyclable generation digests)\<lparr>ft_Files := files\<rparr>) counts) ?Q ?E)
      ?E) ?E r" if "framed p gs r" "digestOrder None digests = Inr ()" for r windows digests recyclable
  proof (rule wp_onClosure_extends[OF that(1), where P = "\<lambda>_. True"])
    show "wp (asyncStage env windows) (\<lambda>v q. extends p q \<and> True) (\<lambda>_. extends p) (run_closure r)"
      using that(1) by (simp add: framed_def keepsD[OF asyncStage_wp])
  qed (use files[OF _ that(2)] in \<open>auto intro: map_releaseExpanded_framed split: prod.split\<close>)
  have digests: "wp (semanticSourceDigests env) (\<lambda>ds q. extends p q \<and> digestOrder None ds = Inr ()) (\<lambda>_. extends p) (run_closure r)"
    using assms by (intro semanticSourceDigests_wp) (simp add: framed_def)
  show ?thesis
    unfolding materializeSemanticDemandRetained_def wp_deferS wp_bindS wp_getS wp_modS wp_liftS wp_case_prod
  proof (rule wp_onClosure_extends[OF assms digests], goal_cases)
    case (1 ds q)
    then have fr: "framed p gs (r\<lparr>run_closure := q\<lparr>cl_recyclableTable := None\<rparr>\<rparr>)" by (simp add: framed_def)
    show ?case using async[OF fr 1(2)] map_releaseExpanded_framed[OF fr] by (simp add: split_def split: sum.split)
  qed (rule map_releaseExpanded_framed)
qed

end
