(* ===== verification/Closure_Invariant.thy ===== *)
theory Closure_Invariant
  imports Materialize_Facts Wire_Delta
begin

text \<open>
  The invariant of the demand closure and its consequences for the transport: every operation of the
  closure keeps it, a materialized table is canonical, and the sparse delta of a materialized table
  brings a client that was in step with the closure in step again.
\<close>

section \<open>The invariant\<close>

definition groups_ok :: "demandGroup list \<Rightarrow> bool" where
  "groups_ok gs \<longleftrightarrow> strict_keys dg_path gs \<and> (\<forall>g \<in> set gs. Clean (dg_path g) = dg_path g \<and> located g)"

definition rows_located :: "contributionHeap \<Rightarrow> retainedContributionStore \<Rightarrow> bool" where
  "rows_located heap s \<longleftrightarrow> (\<forall>path ref. rcs_get s path = Some ref \<longrightarrow> Clean path = path \<and>
     (\<forall>e \<in> set (elems (rc_entities (heap ! ref))). entity_path e = path))"

definition closure_ok :: "'w DemandClosure \<Rightarrow> bool" where
  "closure_ok p \<longleftrightarrow> rcs_ok (cl_heap p) (cl_retained p) \<and> refs_ok (cl_heap p) (cl_retained p) \<and>
     rows_located (cl_heap p) (cl_retained p) \<and> cl_symbolsByPath p = [] \<and>
     (\<forall>path \<in> set (elems (cl_transportChangedPaths p)). Clean path = path \<and> rcs_get (cl_retained p) path = None) \<and>
     (cl_previousTable p \<noteq> None \<longrightarrow> cl_transportChangedPaths p \<noteq> None) \<and>
     (cl_table p \<noteq> None \<longrightarrow> cl_transportChangedPaths p = None \<and> cl_previousTable p = None)"

text \<open>
  The documented contract of the backend that the invariant needs: the affected paths of an update are
  clean.
\<close>

definition clean_backend :: "'w ClosureEnv \<Rightarrow> bool" where
  "clean_backend env \<longleftrightarrow> (\<forall>changes w affected w'. cb_Update env changes w = (Inr affected, w') \<longrightarrow>
     (\<forall>path \<in> set affected. Clean path = path))"

lemma emptyContributionStore_reset: "rcs_reset s = emptyContributionStore"
  by (simp add: rcs_reset_def emptyContributionStore_def)

lemma rcs_get_reset [simp]: "rcs_get (rcs_reset s) path = None"
  by (simp add: rcs_get_def rcs_reset_def)

lemma closure_ok_new: "closure_ok (newDemandClosure w)"
  using rcs_reset_ok[of "[]" emptyContributionStore]
    rcs_get_reset[of emptyContributionStore] unfolding emptyContributionStore_reset
  by (simp add: closure_ok_def newDemandClosure_def rows_located_def elems_def)

lemma closure_ok_reset: "closure_ok (resetAnalysisStateLocked p)"
  using rcs_reset_ok[of "cl_heap p" "cl_retained p"]
  by (auto simp: closure_ok_def resetAnalysisStateLocked_def rows_located_def elems_def)

lemma closure_ok_updates [simp]:
  "closure_ok (p\<lparr>cl_backend := w\<rparr>) = closure_ok p" "closure_ok (p\<lparr>cl_asyncFiles := a\<rparr>) = closure_ok p"
  "closure_ok (p\<lparr>cl_recyclableTable := t\<rparr>) = closure_ok p" "closure_ok (p\<lparr>cl_stats := x\<rparr>) = closure_ok p"
  "closure_ok (p\<lparr>cl_generation := g\<rparr>) = closure_ok p" "closure_ok (p\<lparr>cl_closed := b\<rparr>) = closure_ok p"
  by (simp_all add: closure_ok_def)

lemma extends_ok:
  assumes "closure_ok p" and "extends p p'"
  shows "closure_ok p'"
proof -
  obtain new where new: "cl_heap p' = cl_heap p @ new" using assms(2) by (auto simp: extends_def)
  have refs: "refs_ok (cl_heap p) (cl_retained p)" using assms(1) by (simp add: closure_ok_def)
  then have nth: "cl_heap p' ! ref = cl_heap p ! ref" if "rcs_get (cl_retained p) path = Some ref" for path ref
    using that new by (auto simp: refs_ok_def nth_append)
  have "rcs_ok (cl_heap p) (cl_retained p)" using assms(1) by (simp add: closure_ok_def)
  then have "rcs_ok (cl_heap p') (cl_retained p)" by (rule rcs_ok_heap[OF _ refs]) (simp add: new nth_append)
  moreover have "refs_ok (cl_heap p') (cl_retained p)"
    using refs by (simp add: refs_ok_def new) (meson trans_less_add1)
  moreover have "rows_located (cl_heap p') (cl_retained p)"
    using assms(1) nth by (auto simp: closure_ok_def rows_located_def)
  ultimately show ?thesis using assms by (simp add: closure_ok_def extends_def)
qed

section \<open>Discarding and updating\<close>

lemma closure_ok_discard:
  assumes "closure_ok p" and "\<forall>path \<in> set changedPaths. Clean path = path"
  shows "closure_ok (discardChanged changedPaths p)"
    and "changedPaths \<noteq> [] \<Longrightarrow> rcs_get (cl_retained (discardChanged changedPaths p)) =
      rcs_get (cl_retained p) |` (- Clean ` set changedPaths)"
proof -
  note gone = fold_rcs_remove_effect[of "cl_heap p" "cl_retained p" "cleanPaths changedPaths"]
  have ok: "rcs_ok (cl_heap p) (cl_retained p)" using assms(1) by (simp add: closure_ok_def)
  have rc: "cl_heap (case cl_table p of None \<Rightarrow> p | Some t \<Rightarrow> p\<lparr>cl_previousTable := Some t, cl_table := None\<rparr>) = cl_heap p"
    "cl_retained (case cl_table p of None \<Rightarrow> p | Some t \<Rightarrow> p\<lparr>cl_previousTable := Some t, cl_table := None\<rparr>) = cl_retained p"
    by (simp_all split: option.split)
  show "rcs_get (cl_retained (discardChanged changedPaths p)) =
      rcs_get (cl_retained p) |` (- Clean ` set changedPaths)" if "changedPaths \<noteq> []"
    using gone[OF ok] that by (simp add: discardChanged_def Let_def rc rcs_discard_def)
  show "closure_ok (discardChanged changedPaths p)"
  proof (cases "changedPaths = []")
    case True
    then show ?thesis using assms(1) by (simp add: discardChanged_def)
  next
    case False
    let ?p = "discardChanged changedPaths p"
    have get: "rcs_get (cl_retained ?p) = rcs_get (cl_retained p) |` (- Clean ` set changedPaths)"
      and ok': "rcs_ok (cl_heap p) (cl_retained ?p)" and heap: "cl_heap ?p = cl_heap p"
      and paths: "set (elems (cl_transportChangedPaths ?p)) =
        Clean ` set changedPaths \<union> set (elems (cl_transportChangedPaths p))"
      and tables: "cl_table ?p = None" "cl_transportChangedPaths ?p \<noteq> None" "cl_symbolsByPath ?p = cl_symbolsByPath p"
      using gone[OF ok] False
      by (auto simp: discardChanged_def Let_def rc rcs_discard_def fold_insert_set elems_def split: option.splits)
    then show ?thesis
      using assms by (auto simp: closure_ok_def refs_ok_def rows_located_def restrict_map_def split: if_splits)
  qed
qed

lemma evictPath_empty: "cl_symbolsByPath p = [] \<Longrightarrow> evictPath path p = (Inr (), p)"
  by (subst evictPath_def, subst evictSymbols.simps) (simp add: symbolsAt_def)

lemma evictPaths_empty: "cl_symbolsByPath p = [] \<Longrightarrow> loopS (\<lambda>path _. evictPath path) paths () p = (Inr (), p)"
  by (induction paths) (simp_all add: evictPath_empty)

lemma set_invalidPathsOf: "set (invalidPathsOf affected changes) = set affected \<union> Clean ` fc_Path ` set changes"
proof -
  have "set (fold (\<lambda>c paths. List.insert (Clean (fc_Path c)) paths) changes acc) = Clean ` fc_Path ` set changes \<union> set acc" for acc
    by (induction changes arbitrary: acc) auto
  then show ?thesis by (auto simp: invalidPathsOf_def fold_insert_set)
qed

text \<open>An update is accepted with the backend's answer, or it changes nothing but the environment.\<close>

lemma Update_cases:
  assumes "cl_symbolsByPath p = []"
  obtains (rejected) e w where "Update env changes p = (Inl e, p\<lparr>cl_backend := w\<rparr>)"
  | (accepted) affected w store paths where
      "cb_Update env changes (cl_backend p) = (Inr affected, w)"
      "rcs_invalidate (cl_heap p) (invalidPathsOf affected changes) (cl_retained p) = (store, paths)"
      "Update env changes p = (Inr affected, p\<lparr>cl_backend := w, cl_previousTable := cl_table p, cl_table := None,
         cl_transportChangedPaths := Some paths, cl_retained := store, cl_generation := cl_generation p + 1\<rparr>)"
proof (cases "cb_Update env changes (cl_backend p)")
  case (Pair r w)
  show ?thesis
  proof (cases r)
    case (Inl e)
    then show ?thesis using Pair by (intro rejected[of e w]) (simp add: Update_def bindS_def backendS_def partS_def)
  next
    case (Inr affected)
    obtain store paths where inv: "rcs_invalidate (cl_heap p) (invalidPathsOf affected changes) (cl_retained p) = (store, paths)"
      by force
    have "loopS (\<lambda>path _. evictPath path) (invalidPathsOf affected changes) () (p\<lparr>cl_backend := w\<rparr>) = (Inr (), p\<lparr>cl_backend := w\<rparr>)"
      using assms by (intro evictPaths_empty) simp
    then show ?thesis
      using Pair Inr inv
      by (intro accepted[of affected w store paths])
        (simp_all add: Update_def bindS_def backendS_def partS_def Let_def modS_def retS_def)
  qed
qed

lemma closure_ok_update:
  assumes "closure_ok p" and "clean_backend env" and "Update env changes p = (r, p')"
  shows "closure_ok p'"
proof -
  have sym: "cl_symbolsByPath p = []" using assms(1) by (simp add: closure_ok_def)
  show ?thesis
  proof (cases rule: Update_cases[OF sym, of env changes])
    case (1 e w)
    then show ?thesis using assms(1,3) by auto
  next
    case (2 affected w store paths)
    have inv: "rcs_ok (cl_heap p) store" "rcs_get store = rcs_get (cl_retained p) |` (- set paths)"
      "set paths = set (invalidPathsOf affected changes) \<union> {q. \<exists>ref d. rcs_get (cl_retained p) q = Some ref \<and>
        d \<in> set (invalidPathsOf affected changes) \<and> d \<in> set (rc_dependencies (cl_heap p ! ref))}"
      using rcs_invalidate_effect[OF _ 2(2)] assms(1) by (auto simp: closure_ok_def)
    have clean: "\<forall>q \<in> set affected. Clean q = q" using assms(2) 2(1) by (auto simp: clean_backend_def)
    have "\<forall>q \<in> set paths. Clean q = q"
      using clean assms(1) unfolding inv(3) set_invalidPathsOf by (auto simp: closure_ok_def rows_located_def Clean_idem)
    moreover have "refs_ok (cl_heap p) store" "rows_located (cl_heap p) store" "\<forall>q \<in> set paths. rcs_get store q = None"
      using assms(1) by (auto simp: closure_ok_def refs_ok_def rows_located_def inv(2) restrict_map_def split: if_splits)
    ultimately show ?thesis using assms(3) inv(1) sym unfolding 2(3) by (auto simp: closure_ok_def elems_def)
  qed
qed

section \<open>Materialized tables\<close>

lemma settled_group:
  assumes "closure_ok p" and "settled p gs changed r" and "i < length gs"
  shows "\<exists>ref < length (cl_heap (run_closure r)). dg_contribution (run_groups r ! i) = Some ref"
    and "e \<in> set (groupEntities (cl_heap (run_closure r)) (run_groups r ! i)) \<Longrightarrow> entity_path e = dg_path (gs ! i)"
proof -
  have fr: "framed p gs r" using assms(2) by (simp add: settled_def)
  have ok: "closure_ok (run_closure r)" using fr extends_ok[OF assms(1)] by (simp add: framed_def)
  note path = framed_path[OF fr assms(3)]
  have "rebuilt (length (cl_heap p)) r i \<or> kept r i"
    using assms(2,3) by (auto simp: settled_def split: if_splits)
  then show "\<exists>ref < length (cl_heap (run_closure r)). dg_contribution (run_groups r ! i) = Some ref"
    using ok by (auto simp: rebuilt_def kept_def closure_ok_def refs_ok_def)
  assume "e \<in> set (groupEntities (cl_heap (run_closure r)) (run_groups r ! i))"
  then show "entity_path e = dg_path (gs ! i)"
    using \<open>rebuilt (length (cl_heap p)) r i \<or> kept r i\<close> ok path
    by (auto simp: rebuilt_def kept_def closure_ok_def rows_located_def groupEntities_def)
qed

lemma digestOrder_strict:
  "digestOrder previous ds = Inr () \<Longrightarrow> strict_keys dig_Path (case previous of None \<Rightarrow> ds | Some d \<Rightarrow> d # ds)"
proof (induction previous ds rule: digestOrder.induct)
  case (1 previous)
  then show ?case by (cases previous) simp_all
next
  case (2 previous d ds)
  then have tail: "strict_keys dig_Path (d # ds)" by (auto split: if_splits)
  show ?case
  proof (cases previous)
    case (Some p)
    then have "dig_Path p < dig_Path d" using 2(2) by (auto split: if_splits)
    then show ?thesis using tail Some by (auto simp: strict_keys_Cons dest: order.strict_trans)
  qed (use tail in simp)
qed

lemma filter_concat_located:
  assumes "\<And>g e. g \<in> set gs \<Longrightarrow> e \<in> set (f g) \<Longrightarrow> key e = k g" and "distinct (map k gs)"
  shows "filter (\<lambda>e. key e = x) (concat (map f gs)) = (case map_by k gs x of None \<Rightarrow> [] | Some g \<Rightarrow> f g)"
  using assms
proof (induction gs)
  case (Cons g gs)
  have g: "key e = k g" if "e \<in> set (f g)" for e using Cons.prems(1) that by simp
  show ?case
  proof (cases "k g = x")
    case True
    have "filter (\<lambda>e. key e = x) (concat (map f gs)) = []"
      using Cons.prems True by (auto simp: filter_empty_conv) (metis image_eqI)
    then show ?thesis using True g by (simp add: map_by_simps filter_id_conv)
  next
    case False
    then have "filter (\<lambda>e. key e = x) (f g) = []" using g by (auto simp: filter_empty_conv)
    then show ?thesis using False Cons by (simp add: map_by_simps)
  qed
qed simp

lemma concat_nonempty: "concat (filter (\<lambda>run. run \<noteq> []) xss) = concat xss"
  by (induction xss) auto

text \<open>The table and the closure that a materialization leaves.\<close>

lemma materialized_facts:
  assumes "closure_ok p" and "groups_ok gs" and "materialized p gs generation t r'"
  obtains r changed where "settled p gs changed r" "run_groups r' = map releaseExpanded (run_groups r)"
    "cl_heap (run_closure r') = cl_heap (run_closure r)"
    "cl_retained (run_closure r') = rcs_commit (cl_heap (run_closure r)) (run_groups r) (cl_retained p)"
    "cl_transportChangedPaths (run_closure r') = None" "cl_previousTable (run_closure r') = None"
    "cl_generation (run_closure r') = cl_generation p" "cl_symbolsByPath (run_closure r') = cl_symbolsByPath p"
    "cl_closed (run_closure r') = cl_closed p"
    "ft_Generation t = generation" "ft_Schema t = TypeFactsSchemaVersion"
    "ft_transport t = rustOwnedTransportManifest (cl_previousTable p)
       (manifestChangedPaths (cl_transportChangedPaths p) gs changed)"
    "table_canonical t" "symbolFacts t = []"
    "\<And>path. wireTransitionEntityPath t path =
       (case map_by dg_path (run_groups r) path of None \<Rightarrow> [] | Some g \<Rightarrow> groupEntities (cl_heap (run_closure r)) g)"
proof -
  from assms(3) obtain r changed recyclable digests files suppression where
    st: "settled p gs changed r" and src: "sourcesOf digests files"
    and com: "commitTable ((startTable recyclable generation digests)\<lparr>ft_Files := files\<rparr>) suppression
       (manifestChangedPaths (cl_transportChangedPaths (run_closure r)) (run_groups r) changed) r =
       (t, r'\<lparr>run_groups := run_groups r\<rparr>)"
    and gs': "run_groups r' = map releaseExpanded (run_groups r)"
    by (auto simp: materialized_def)
  let ?heap = "cl_heap (run_closure r)" and ?gs = "run_groups r"
  have fr: "framed p gs r" using st by (simp add: settled_def)
  have ext: "extends p (run_closure r)" using fr by (simp add: framed_def)
  have strict: "strict_keys dg_path ?gs"
    using assms(2) framed_paths[OF fr] by (simp add: groups_ok_def strict_keys_def)
  have nth_path: "dg_path (?gs ! i) = dg_path (gs ! i)" if "i < length gs" for i by (rule framed_path[OF fr that])
  have located: "entity_path e = dg_path g" if g: "g \<in> set ?gs" "e \<in> set (groupEntities ?heap g)" for g e
  proof -
    obtain i where "i < length gs" "g = ?gs ! i" using g(1) framed_length[OF fr] by (auto simp: in_set_conv_nth)
    then show ?thesis using settled_group(2)[OF assms(1) st, of i e] g(2) nth_path[of i] by simp
  qed
  have fields: "ft_sourceDigests t = digests" "ft_Files t = files" "ft_Entities t = []" "ft_Symbols t = []"
      "ft_symbols t = None" "ft_Generation t = generation" "ft_Schema t = TypeFactsSchemaVersion"
      "ft_entityRuns t = entityRunsOf ?heap (map_option (\<lambda>_. []) (ft_entityRuns (case recyclable of None \<Rightarrow> zeroFactTable | Some t \<Rightarrow> t))) ?gs"
      "ft_transport t = rustOwnedTransportManifest (cl_previousTable (run_closure r))
         (manifestChangedPaths (cl_transportChangedPaths (run_closure r)) ?gs changed)"
    using com by (auto simp: commitTable_def startTable_def Let_def)
  have post: "cl_heap (run_closure r') = ?heap"
      "cl_retained (run_closure r') = rcs_commit ?heap ?gs (cl_retained (run_closure r))"
      "cl_transportChangedPaths (run_closure r') = None" "cl_previousTable (run_closure r') = None"
      "cl_generation (run_closure r') = cl_generation (run_closure r)"
      "cl_symbolsByPath (run_closure r') = cl_symbolsByPath (run_closure r)"
      "cl_closed (run_closure r') = cl_closed (run_closure r)"
    using arg_cong[OF com[symmetric], of "\<lambda>x. run_closure (snd x)"] by (simp_all add: commitTable_def Let_def)
  let ?runs = "filter (\<lambda>run. run \<noteq> []) (map (groupEntities ?heap) ?gs)"
  have run_path_g: "run_path (groupEntities ?heap g) = dg_path g" if "g \<in> set ?gs" "groupEntities ?heap g \<noteq> []" for g
    using located[OF that(1), of "hd (groupEntities ?heap g)"] that(2) by (simp add: run_path_def)
  have "strict_keys run_path ?runs"
  proof -
    let ?full = "filter (\<lambda>g. groupEntities ?heap g \<noteq> []) ?gs"
    have same: "map (\<lambda>g. run_path (groupEntities ?heap g)) ?full = map dg_path ?full" using run_path_g by auto
    have "strict_keys run_path (map (groupEntities ?heap) ?full)"
      using strict_keys_filter[OF strict] unfolding strict_keys_map unfolding strict_keys_def same .
    then show ?thesis by (simp add: filter_map comp_def)
  qed
  then have runs: "runs_ok ?runs"
    using located run_path_g by (auto simp: runs_ok_def)
  have entities: "wireEntities t = concat (map (groupEntities ?heap) ?gs)"
    using fields(3,8) by (auto simp: wireEntities_def entityRunsOf_def concat_nonempty split: option.split)
  have canon: "table_canonical t"
    using digestOrder_strict[of None digests] src runs fields
    by (auto simp: table_canonical_def sourcesOf_def entityRunsOf_def strict_keys_def runs_ok_def split: option.split)
  have paths: "manifestChangedPaths (cl_transportChangedPaths (run_closure r)) ?gs changed =
      manifestChangedPaths (cl_transportChangedPaths p) gs changed"
  proof -
    have "fold (\<lambda>i. List.insert (dg_path (?gs ! i))) changed acc = fold (\<lambda>i. List.insert (dg_path (gs ! i))) changed acc" for acc
      using st by (intro fold_cong) (auto simp: settled_def nth_path)
    then show ?thesis using ext by (simp add: manifestChangedPaths_def extends_def)
  qed
  have rows: "wireTransitionEntityPath t path =
      (case map_by dg_path ?gs path of None \<Rightarrow> [] | Some g \<Rightarrow> groupEntities ?heap g)" for path
    unfolding wireTransitionEntityPath_filter[OF canon] entities
    by (rule filter_concat_located) (use located strict_keys_distinct[OF strict] in auto)
  show ?thesis
    by (rule that[OF st gs' post(1)])
      (use post fields paths canon rows ext in \<open>auto simp: extends_def symbolFacts_def\<close>)
qed

lemma groups_ok_framed: "groups_ok gs \<Longrightarrow> framed p gs r \<Longrightarrow> groups_ok (run_groups r)"
proof -
  assume gs: "groups_ok gs" and fr: "framed p gs r"
  have "Clean (dg_path g) = dg_path g" if "g \<in> set (run_groups r)" for g
  proof -
    have "dg_path g \<in> set (map dg_path gs)" using that unfolding framed_paths[OF fr, symmetric] by simp
    then show ?thesis using gs by (auto simp: groups_ok_def)
  qed
  then show ?thesis using gs fr framed_paths[OF fr] by (simp add: groups_ok_def framed_def strict_keys_def)
qed

lemma groups_ok_release: "groups_ok gs \<Longrightarrow> groups_ok (map releaseExpanded gs)"
  by (auto simp: groups_ok_def strict_keys_map releaseExpanded_core)

lemma materialized_store:
  assumes "closure_ok p" and "groups_ok gs" and "settled p gs changed r"
  shows "rcs_get (rcs_commit (cl_heap (run_closure r)) (run_groups r) (cl_retained p)) path =
      Option.bind (map_by dg_path (filter (durableRef (cl_heap (run_closure r))) (run_groups r)) path) dg_contribution"
    and "rcs_ok (cl_heap (run_closure r)) (rcs_commit (cl_heap (run_closure r)) (run_groups r) (cl_retained p))"
proof -
  have fr: "framed p gs r" using assms(3) by (simp add: settled_def)
  then have ext: "extends p (run_closure r)" by (simp add: framed_def)
  have "rcs_ok (cl_heap (run_closure r)) (cl_retained p)"
    using extends_ok[OF assms(1) ext] ext by (simp add: closure_ok_def extends_def)
  moreover have "distinct (map dg_path (run_groups r))"
    using groups_ok_framed[OF assms(2) fr] strict_keys_distinct by (auto simp: groups_ok_def)
  ultimately show "rcs_get (rcs_commit (cl_heap (run_closure r)) (run_groups r) (cl_retained p)) path =
      Option.bind (map_by dg_path (filter (durableRef (cl_heap (run_closure r))) (run_groups r)) path) dg_contribution"
    "rcs_ok (cl_heap (run_closure r)) (rcs_commit (cl_heap (run_closure r)) (run_groups r) (cl_retained p))"
    by (rule rcs_commit_effect(2), rule rcs_commit_effect(1))
qed

lemma closure_ok_materialized:
  assumes "closure_ok p" and "groups_ok gs" and "materialized p gs generation t r'"
  shows "closure_ok ((run_closure r')\<lparr>cl_table := x\<rparr>)" and "groups_ok (run_groups r')"
proof -
  obtain r changed where st: "settled p gs changed r" and gs': "run_groups r' = map releaseExpanded (run_groups r)"
    and heap: "cl_heap (run_closure r') = cl_heap (run_closure r)"
    and store: "cl_retained (run_closure r') = rcs_commit (cl_heap (run_closure r)) (run_groups r) (cl_retained p)"
    and rest: "cl_transportChangedPaths (run_closure r') = None" "cl_previousTable (run_closure r') = None"
      "cl_symbolsByPath (run_closure r') = cl_symbolsByPath p"
    using materialized_facts[OF assms] by metis
  have fr: "framed p gs r" using st by (simp add: settled_def)
  note gs_ok = groups_ok_framed[OF assms(2) fr]
  show "groups_ok (run_groups r')" unfolding gs' by (rule groups_ok_release[OF gs_ok])
  have stored: "\<exists>i < length gs. path = dg_path (gs ! i) \<and> dg_contribution (run_groups r ! i) = Some ref \<and> Clean path = path"
    if "rcs_get (cl_retained (run_closure r')) path = Some ref" for path ref
  proof -
    from that obtain g where g: "g \<in> set (run_groups r)" "dg_path g = path" "dg_contribution g = Some ref"
      unfolding store materialized_store(1)[OF assms(1,2) st] by (auto simp: bind_eq_Some_conv dest!: map_by_SomeD)
    then obtain i where "i < length gs" "g = run_groups r ! i" using framed_length[OF fr] by (auto simp: in_set_conv_nth)
    then show ?thesis using g gs_ok framed_path[OF fr, of i] by (intro exI[of _ i]) (simp add: groups_ok_def, metis)
  qed
  have "refs_ok (cl_heap (run_closure r)) (cl_retained (run_closure r'))"
    using stored settled_group(1)[OF assms(1) st] by (fastforce simp: refs_ok_def)
  moreover have "rows_located (cl_heap (run_closure r)) (cl_retained (run_closure r'))"
    using stored settled_group(2)[OF assms(1) st] by (fastforce simp: rows_located_def groupEntities_def)
  ultimately show "closure_ok ((run_closure r')\<lparr>cl_table := x\<rparr>)"
    using materialized_store(2)[OF assms(1,2) st] assms(1) rest heap store by (simp add: closure_ok_def elems_def)
qed

section \<open>The table of a demand set\<close>

lemma sorted_groups:
  assumes "groups_ok gs"
  shows "sort_key dg_path gs = gs" "firstDuplicate gs = None"
proof -
  have strict: "strict_keys dg_path gs" using assms by (simp add: groups_ok_def)
  then show "sort_key dg_path gs = gs"
    by (intro sort_key_id_if_sorted) (simp add: strict_keys_def strict_sorted_iff)
  show "firstDuplicate gs = None" using strict
    by (induction gs rule: firstDuplicate.induct) (auto simp: strict_keys_Cons)
qed

lemma framed_start: "groups_ok gs \<Longrightarrow> framed p gs \<lparr>run_closure = p, run_groups = gs\<rparr>"
  by (auto simp: framed_def groups_ok_def)

definition tabled ::
    "'w DemandClosure \<Rightarrow> demandGroup list \<Rightarrow> u64 \<Rightarrow> FactTable \<Rightarrow> 'w closureRun \<Rightarrow> bool" where
  "tabled p gs generation t r' \<longleftrightarrow> (case cl_table p of
       Some t' \<Rightarrow> t' = t \<and> r' = \<lparr>run_closure = p, run_groups = gs\<rparr>
     | None \<Rightarrow> (\<exists>r2 stats. materialized p gs generation t r2 \<and>
         r' = r2\<lparr>run_closure := (run_closure r2)\<lparr>cl_table := Some t, cl_stats := stats\<rparr>\<rparr>))"

lemma wp_weaken_error: "wp m Q E s \<Longrightarrow> (\<And>e s. E e s \<Longrightarrow> E' e s) \<Longrightarrow> wp m Q E' s"
  by (rule wp_mono)

lemma demandTable_wp:
  assumes "groups_ok gs"
  shows "wp (demandTableForPreparedGroups env generation changedPaths)
    (\<lambda>t r'. generation = cl_generation p \<and> tabled (discardChanged changedPaths p) gs generation t r')
    (\<lambda>e r'. (\<exists>q. framed q gs r' \<and> cl_generation q = cl_generation p \<and> cl_closed q = cl_closed p))
    \<lparr>run_closure = p, run_groups = gs\<rparr>"
proof -
  let ?p = "discardChanged changedPaths p"
  have gen: "cl_generation ?p = cl_generation p" "cl_closed ?p = cl_closed p"
    by (simp_all add: discardChanged_def Let_def split: option.split)
  have fail: "\<exists>q. framed q gs r' \<and> cl_generation q = cl_generation p \<and> cl_closed q = cl_closed p" if "framed ?p gs r'" for r'
    using that gen by blast
  note fr = framed_start[OF assms, of ?p]
  have locked: "wp (materializeDemandTableLocked env generation)
      (\<lambda>_ r'. tabled ?p gs generation (the (cl_table (run_closure r'))) r') (\<lambda>e r'. framed ?p gs r')
      \<lparr>run_closure = ?p, run_groups = gs\<rparr>" if "cl_table ?p = None"
    unfolding materializeDemandTableLocked_def wp_bindS
    by (rule wp_mono[OF materialize_wp[OF fr]])
      (use that in \<open>auto simp: wp_rules onClosure_def split_def tabled_def\<close>)
  show ?thesis
  proof (cases "generation = cl_generation p")
    case False
    then show ?thesis
      using framed_start[OF assms, of p] by (auto simp: demandTableForPreparedGroups_def wp_rules)
  next
    case True
    show ?thesis
    proof (cases "cl_table ?p")
      case None
      then show ?thesis
        using True sorted_groups[OF assms] wp_mono[OF locked[OF None] _ fail]
        by (simp add: demandTableForPreparedGroups_def wp_rules onClosure_def)
    next
      case (Some t)
      then show ?thesis
        using True by (simp add: demandTableForPreparedGroups_def wp_rules onClosure_def tabled_def)
    qed
  qed
qed

section \<open>A client in step with the closure\<close>

text \<open>
  The rows a contribution had when it was built are kept apart from the heap, which releases them after
  they were sent: \<open>rows\<close> maps a pointer to them. A client is in step when it holds those rows for every
  stored path, and rows only for demanded paths and for paths that will be named as changed.
\<close>

definition client_rows :: "(string \<Rightarrow> path_state) \<Rightarrow> string \<Rightarrow> EntityFact list" where
  "client_rows v path = fst (snd (v path))"

definition in_step ::
    "(contributionRef \<Rightarrow> EntityFact list) \<Rightarrow> (string \<Rightarrow> path_state) \<Rightarrow> 'w DemandClosure \<Rightarrow> demandGroup list \<Rightarrow> bool" where
  "in_step rows v p gs \<longleftrightarrow>
     (\<forall>path ref. rcs_get (cl_retained p) path = Some ref \<longrightarrow> client_rows v path = map entity_view (rows ref)) \<and>
     (\<forall>path. client_rows v path \<noteq> [] \<longrightarrow>
        path \<in> dg_path ` set gs \<union> set (elems (cl_transportChangedPaths p)))"

definition built ::
    "nat \<Rightarrow> (contributionRef \<Rightarrow> EntityFact list) \<Rightarrow> contributionHeap \<Rightarrow> contributionRef \<Rightarrow> EntityFact list" where
  "built start rows heap ref = (if ref < start then rows ref else elems (rc_entities (heap ! ref)))"

text \<open>Every group's rows are at the client, and nothing else is.\<close>

definition holds_groups ::
    "(contributionRef \<Rightarrow> EntityFact list) \<Rightarrow> (string \<Rightarrow> path_state) \<Rightarrow> demandGroup list \<Rightarrow> bool" where
  "holds_groups rows v gs \<longleftrightarrow>
     (\<forall>g \<in> set gs. \<exists>ref. dg_contribution g = Some ref \<and> client_rows v (dg_path g) = map entity_view (rows ref)) \<and>
     (\<forall>path. path \<notin> dg_path ` set gs \<longrightarrow> client_rows v path = [])"

lemma holds_groups_in_step:
  assumes "closure_ok p" and "groups_ok gs" and "materialized p gs generation t r'"
    and "holds_groups rows v (run_groups r')"
  shows "in_step rows v (run_closure r') (run_groups r')"
proof -
  obtain r changed where st: "settled p gs changed r" and gs': "run_groups r' = map releaseExpanded (run_groups r)"
    and store: "cl_retained (run_closure r') = rcs_commit (cl_heap (run_closure r)) (run_groups r) (cl_retained p)"
    using materialized_facts[OF assms(1-3)] by metis
  have "client_rows v path = map entity_view (rows ref)" if got: "rcs_get (cl_retained (run_closure r')) path = Some ref" for path ref
  proof -
    obtain g where "g \<in> set (run_groups r)" "dg_path g = path" "dg_contribution g = Some ref"
      using got unfolding store materialized_store(1)[OF assms(1,2) st] by (auto simp: bind_eq_Some_conv dest!: map_by_SomeD)
    then show ?thesis using assms(4) unfolding gs' by (auto simp: holds_groups_def releaseExpanded_core)
  qed
  then show ?thesis using assms(4) by (auto simp: in_step_def holds_groups_def)
qed

lemma set_manifestChangedPaths:
  assumes "manifestChangedPaths changedPaths gs changed = Some P" and "changedPaths \<noteq> None"
  shows "set P = set (elems changedPaths) \<union> (\<lambda>i. dg_path (gs ! i)) ` set changed"
proof -
  have "set (fold (\<lambda>i. List.insert (dg_path (gs ! i))) changed acc) = (\<lambda>i. dg_path (gs ! i)) ` set changed \<union> set acc" for acc
    by (induction changed arbitrary: acc) auto
  then show ?thesis using assms by (auto simp: manifestChangedPaths_def elems_def split: if_splits)
qed

text \<open>One materialization that carries an exact manifest.\<close>

lemma sparse_holds:
  assumes "closure_ok p" and "groups_ok gs" and "in_step rows v p gs" and "materialized p gs generation t r'"
    and "ft_transport t = Some m"
  shows "holds_groups (built (length (cl_heap p)) rows (cl_heap (run_closure r')))
    (fold applyPathOp (fst (planSparseDelta base t m)) v) (run_groups r')"
proof -
  let ?v = "fold applyPathOp (fst (planSparseDelta base t m)) v"
  obtain r changed where st: "settled p gs changed r" and gs': "run_groups r' = map releaseExpanded (run_groups r)"
    and heap: "cl_heap (run_closure r') = cl_heap (run_closure r)"
    and man: "ft_transport t = rustOwnedTransportManifest (cl_previousTable p)
       (manifestChangedPaths (cl_transportChangedPaths p) gs changed)"
    and entity: "\<And>path. wireTransitionEntityPath t path =
       (case map_by dg_path (run_groups r) path of None \<Rightarrow> [] | Some g \<Rightarrow> groupEntities (cl_heap (run_closure r)) g)"
    using materialized_facts[OF assms(1,2,4)] by metis
  have fr: "framed p gs r" using st by (simp add: settled_def)
  note gs_ok = groups_ok_framed[OF assms(2) fr]
  from man assms(5) obtain base' P where prev: "cl_previousTable p = Some base'"
    and P: "manifestChangedPaths (cl_transportChangedPaths p) gs changed = Some P"
    and m: "tc_entityPaths m = cleanPaths P"
    by (auto simp: rustOwnedTransportManifest_def split: option.splits)
  have chg: "cl_transportChangedPaths p \<noteq> None" using assms(1) prev by (simp add: closure_ok_def)
  note setP = set_manifestChangedPaths[OF P chg]
  have inr: "i < length gs" if "i \<in> set changed" for i using st that by (auto simp: settled_def)
  have clean: "Clean path = path" if "path \<in> set P" for path
    using that assms(1,2) inr unfolding setP by (auto simp: closure_ok_def groups_ok_def)
  have named: "path \<in> set (tc_entityPaths m) \<longleftrightarrow> path \<in> set P" for path
    using clean by (auto simp: m image_iff)
  have view: "client_rows ?v path = (if path \<in> set P then map entity_view (wireTransitionEntityPath t path) else client_rows v path)" for path
    unfolding client_rows_def sparse_delta_effect
    by (auto simp: named table_state_def rows_state_def wireTransitionPathRowsAt_def split: prod.split)
  have strict: "strict_keys dg_path (run_groups r)" using gs_ok by (simp add: groups_ok_def)
  have group: "\<exists>ref. dg_contribution (run_groups r ! i) = Some ref \<and>
      client_rows ?v (dg_path (gs ! i)) = map entity_view (built (length (cl_heap p)) rows (cl_heap (run_closure r)) ref)"
    if i: "i < length gs" for i
  proof -
    have mem: "run_groups r ! i \<in> set (run_groups r)" using i framed_length[OF fr] by simp
    have lookup: "map_by dg_path (run_groups r) (dg_path (gs ! i)) = Some (run_groups r ! i)"
      using map_by_eq_Some_iff[OF strict] mem framed_path[OF fr i] by simp
    show ?thesis
    proof (cases "i \<in> set changed")
      case True
      then have "rebuilt (length (cl_heap p)) r i" using st i by (simp add: settled_def)
      then obtain ref where "dg_contribution (run_groups r ! i) = Some ref" "length (cl_heap p) \<le> ref"
        by (auto simp: rebuilt_def)
      moreover have "dg_path (gs ! i) \<in> set P" using True setP by auto
      ultimately show ?thesis by (simp add: view entity lookup groupEntities_def built_def)
    next
      case False
      then have "kept r i" using st i by (simp add: settled_def)
      then obtain ref where ref: "dg_contribution (run_groups r ! i) = Some ref"
        "rcs_get (cl_retained p) (dg_path (gs ! i)) = Some ref"
        using framed_path[OF fr i] fr by (auto simp: kept_def framed_def extends_def)
      have "dg_path (gs ! i) \<noteq> dg_path (gs ! j)" if "j \<in> set changed" for j
        using False that inr[OF that] i strict_keys_distinct[of dg_path gs] assms(2)
        by (auto simp: groups_ok_def distinct_conv_nth)
      then have "dg_path (gs ! i) \<notin> set P" using setP ref(2) assms(1) by (auto simp: closure_ok_def)
      moreover have "ref < length (cl_heap p)" using ref(2) assms(1) by (auto simp: closure_ok_def refs_ok_def)
      ultimately show ?thesis using ref assms(3) by (auto simp: view built_def in_step_def)
    qed
  qed
  have other: "client_rows ?v path = []" if "path \<notin> dg_path ` set gs" for path
  proof -
    have "map_by dg_path (run_groups r) path = None"
    proof -
      have "path \<notin> set (map dg_path (run_groups r))" unfolding framed_paths[OF fr] using that by simp
      then show ?thesis by (simp add: map_by_eq_None_iff)
    qed
    then show ?thesis using that assms(3) setP by (auto simp: view entity in_step_def)
  qed
  have paths: "dg_path ` set (run_groups r') = dg_path ` set gs"
    unfolding gs' using arg_cong[OF framed_paths[OF fr], of set] by (simp add: image_image releaseExpanded_core)
  have "\<exists>ref. dg_contribution g = Some ref \<and>
      client_rows ?v (dg_path g) = map entity_view (built (length (cl_heap p)) rows (cl_heap (run_closure r)) ref)"
    if mem: "g \<in> set (run_groups r')" for g
  proof -
    obtain i where "i < length gs" "g = releaseExpanded (run_groups r ! i)"
      using mem framed_length[OF fr] unfolding gs' by (auto simp: in_set_conv_nth)
    then show ?thesis using group[of i] framed_path[OF fr, of i] by (simp add: releaseExpanded_core)
  qed
  then show ?thesis using other by (simp add: holds_groups_def heap paths)
qed

text \<open>A full table carries every row as soon as no group is retained.\<close>

lemma full_holds:
  assumes "closure_ok p" and "groups_ok gs" and "materialized p gs generation t r'"
    and "\<And>g. g \<in> set gs \<Longrightarrow> rcs_get (cl_retained p) (dg_path g) = None"
  shows "holds_groups (built (length (cl_heap p)) rows (cl_heap (run_closure r'))) (table_state t) (run_groups r')"
proof -
  obtain r changed where st: "settled p gs changed r" and gs': "run_groups r' = map releaseExpanded (run_groups r)"
    and heap: "cl_heap (run_closure r') = cl_heap (run_closure r)"
    and entity: "\<And>path. wireTransitionEntityPath t path =
       (case map_by dg_path (run_groups r) path of None \<Rightarrow> [] | Some g \<Rightarrow> groupEntities (cl_heap (run_closure r)) g)"
    using materialized_facts[OF assms(1-3)] by metis
  have fr: "framed p gs r" using st by (simp add: settled_def)
  have strict: "strict_keys dg_path (run_groups r)" using groups_ok_framed[OF assms(2) fr] by (simp add: groups_ok_def)
  have view: "client_rows (table_state t) path = map entity_view (wireTransitionEntityPath t path)" for path
    by (simp add: client_rows_def table_state_def rows_state_def wireTransitionPathRowsAt_def)
  have group: "\<exists>ref. dg_contribution g = Some ref \<and> client_rows (table_state t) (dg_path g) =
      map entity_view (built (length (cl_heap p)) rows (cl_heap (run_closure r)) ref)" if mem: "g \<in> set (run_groups r)" for g
  proof -
    obtain i where i: "i < length gs" "g = run_groups r ! i" using mem framed_length[OF fr] by (auto simp: in_set_conv_nth)
    have "rcs_get (cl_retained (run_closure r)) (dg_path g) = None"
      using assms(4)[of "gs ! i"] i framed_path[OF fr, of i] fr by (simp add: framed_def extends_def)
    then have "rebuilt (length (cl_heap p)) r i" using st i by (auto simp: settled_def kept_def split: if_splits)
    then obtain ref where "dg_contribution g = Some ref" "length (cl_heap p) \<le> ref"
      using i(2) by (auto simp: rebuilt_def)
    moreover have "map_by dg_path (run_groups r) (dg_path g) = Some g"
      using map_by_eq_Some_iff[OF strict] mem by simp
    ultimately show ?thesis by (simp add: view entity groupEntities_def built_def)
  qed
  have paths: "dg_path ` set (run_groups r') = dg_path ` set (run_groups r)"
    unfolding gs' by (simp add: image_image releaseExpanded_core)
  have "client_rows (table_state t) path = []" if "path \<notin> dg_path ` set (run_groups r)" for path
    using that by (auto simp: view entity split: option.split dest!: map_by_SomeD)
  then show ?thesis using group paths unfolding gs' by (auto simp: holds_groups_def heap releaseExpanded_core)
qed

lemma in_step_discard:
  assumes "in_step rows v p old" and "dg_path ` set old \<subseteq> dg_path ` set gs \<union> set changedPaths"
    and "closure_ok p" and "\<forall>path \<in> set changedPaths. Clean path = path"
  shows "in_step rows v (discardChanged changedPaths p) gs"
proof (cases "changedPaths = []")
  case True
  then show ?thesis using assms(1,2) by (auto simp: discardChanged_def in_step_def)
next
  case False
  have "set (elems (cl_transportChangedPaths (discardChanged changedPaths p))) =
      set changedPaths \<union> set (elems (cl_transportChangedPaths p))"
    using False assms(4) by (auto simp: discardChanged_def Let_def fold_insert_set elems_def image_iff split: option.splits)
  moreover have "path \<in> dg_path ` set gs \<or> path \<in> set changedPaths" if "path \<in> dg_path ` set old" for path
    using assms(2) that by blast
  ultimately show ?thesis
    using assms(1) closure_ok_discard(2)[OF assms(3,4) False]
    unfolding in_step_def by (fastforce simp: restrict_map_def split: if_splits)
qed

lemma in_step_update:
  assumes "in_step rows v p gs" and "closure_ok p" and "Update env changes p = (r, p')"
    and "cl_transportChangedPaths p = None"
  shows "in_step rows v p' gs"
proof -
  have sym: "cl_symbolsByPath p = []" using assms(2) by (simp add: closure_ok_def)
  show ?thesis
  proof (cases rule: Update_cases[OF sym, of env changes])
    case (1 e w)
    then show ?thesis using assms by (auto simp: in_step_def)
  next
    case (2 affected w store paths)
    have "rcs_get store = rcs_get (cl_retained p) |` (- set paths)"
      using rcs_invalidate_effect[OF _ 2(2)] assms(2) by (auto simp: closure_ok_def)
    then show ?thesis
      using assms(1,3,4) 2(3) by (auto simp: in_step_def restrict_map_def elems_def split: if_splits)
  qed
qed

lemma in_step_release: "in_step rows v (releaseTransportRows p) gs = in_step rows v p gs"
  by (simp add: in_step_def releaseTransportRows_def split: option.split)

section \<open>Releasing the rows\<close>

lemma releaseStoredRows_nth:
  "length (releaseStoredRows s heap) = length heap \<and>
   (\<forall>ref < length heap. releaseStoredRows s heap ! ref = heap ! ref \<or>
      releaseStoredRows s heap ! ref = releaseContributionRows (heap ! ref))"
proof -
  have idem: "releaseContributionRows (releaseContributionRows c) = releaseContributionRows c" for c
    by (simp add: releaseContributionRows_def)
  have "length (fold (\<lambda>(path, ref) heap. heap[ref := releaseContributionRows (heap ! ref)]) xs h) = length heap \<and>
    (\<forall>ref < length heap. fold (\<lambda>(path, ref) heap. heap[ref := releaseContributionRows (heap ! ref)]) xs h ! ref = heap ! ref \<or>
      fold (\<lambda>(path, ref) heap. heap[ref := releaseContributionRows (heap ! ref)]) xs h ! ref = releaseContributionRows (heap ! ref))"
    if "length h = length heap" "\<forall>ref < length heap. h ! ref = heap ! ref \<or> h ! ref = releaseContributionRows (heap ! ref)"
    for h and xs :: "(string \<times> contributionRef) list"
    using that
  proof (induction xs arbitrary: h)
    case (Cons x xs)
    let ?h = "h[snd x := releaseContributionRows (h ! snd x)]"
    have "?h ! ref = heap ! ref \<or> ?h ! ref = releaseContributionRows (heap ! ref)" if ref: "ref < length heap" for ref
    proof (cases "ref = snd x")
      case True
      then have "?h ! ref = releaseContributionRows (h ! ref)" using ref Cons.prems(1) by simp
      then show ?thesis using Cons.prems(2) ref idem by fastforce
    next
      case False
      then show ?thesis using Cons.prems(2) ref by simp
    qed
    then show ?case
      using Cons.IH[of ?h] Cons.prems(1) by (simp add: split_def)
  qed auto
  then show ?thesis unfolding releaseStoredRows_def by auto
qed

lemma closure_ok_release:
  assumes "closure_ok p"
  shows "closure_ok (releaseTransportRows p)"
proof (cases "cl_table p")
  case None
  then show ?thesis using assms by (simp add: releaseTransportRows_def)
next
  case (Some t)
  let ?heap = "releaseStoredRows (cl_retained p) (cl_heap p)"
  note nth = releaseStoredRows_nth[of "cl_retained p" "cl_heap p"]
  have refs: "refs_ok (cl_heap p) (cl_retained p)" using assms by (simp add: closure_ok_def)
  have same: "rc_dependencies (?heap ! ref) = rc_dependencies (cl_heap p ! ref) \<and>
      rc_descriptorSymbols (?heap ! ref) = rc_descriptorSymbols (cl_heap p ! ref) \<and>
      set (elems (rc_entities (?heap ! ref))) \<subseteq> set (elems (rc_entities (cl_heap p ! ref)))" if ref: "ref < length (cl_heap p)" for ref
  proof -
    consider "?heap ! ref = cl_heap p ! ref" | "?heap ! ref = releaseContributionRows (cl_heap p ! ref)"
      using nth ref by blast
    moreover have "set (elems (rc_entities (releaseContributionRows c))) \<subseteq> set (elems (rc_entities c))" for c
      by (simp add: releaseContributionRows_def elems_def)
    ultimately show ?thesis by cases auto
  qed
  have "rcs_ok (cl_heap p) (cl_retained p)" using assms by (simp add: closure_ok_def)
  then have "rcs_ok ?heap (cl_retained p)" by (rule rcs_ok_heap[OF _ refs]) (use same in blast)
  moreover have "refs_ok ?heap (cl_retained p)" using refs nth by (simp add: refs_ok_def)
  moreover have "rows_located ?heap (cl_retained p)"
    using assms same refs unfolding closure_ok_def rows_located_def refs_ok_def by blast
  ultimately show ?thesis using assms Some by (auto simp: closure_ok_def releaseTransportRows_def)
qed

end
