(* ===== verification/Closure_Properties.thy ===== *)
theory Closure_Properties
  imports Closure_Invariant
begin

text \<open>
  The properties of the demand closure: its tables are canonical and its invariant survives every
  successful analysis, a sparse transition keeps the client in step, a transition over discarded
  contributions is complete, the eviction loop of an update ends, and the bytes behind the demand hash
  determine the demand run.
\<close>

section \<open>From the run to the properties\<close>

lemma demandTable_tabled:
  assumes "groups_ok gs"
    and "demandTableForCanonicalGroups env generation changedPaths \<lparr>run_closure = p, run_groups = gs\<rparr> = (Inr t, r')"
  shows "generation = cl_generation p \<and> tabled (discardChanged changedPaths p) gs generation t r'"
  using wp_Inr[OF demandTable_wp[OF assms(1)] assms(2)[unfolded demandTableForCanonicalGroups_def]] .

lemma discard_materializes:
  "changedPaths \<noteq> [] \<or> cl_table p = None \<Longrightarrow> cl_table (discardChanged changedPaths p) = None"
  by (auto simp: discardChanged_def Let_def split: option.split)

lemma discard_heap [simp]: "cl_heap (discardChanged changedPaths p) = cl_heap p"
  by (simp add: discardChanged_def Let_def split: option.split)

lemma demandTable_materialized:
  assumes "groups_ok gs" and "changedPaths \<noteq> [] \<or> cl_table p = None"
    and "demandTableForCanonicalGroups env generation changedPaths \<lparr>run_closure = p, run_groups = gs\<rparr> = (Inr t, r')"
  obtains r2 stats where "materialized (discardChanged changedPaths p) gs generation t r2"
    "r' = r2\<lparr>run_closure := (run_closure r2)\<lparr>cl_table := Some t, cl_stats := stats\<rparr>\<rparr>"
  using demandTable_tabled[OF assms(1,3)] discard_materializes[OF assms(2)] by (auto simp: tabled_def)

section \<open>An example project\<close>

text \<open>
  Two files; the backend answers every demand with one entity row and reports the second file as
  affected by an update.
\<close>

definition exampleAnswer :: "SemanticDemandRun \<Rightarrow> SemanticDemandRunResult" where
  "exampleAnswer run = \<lparr>srr_Entities = Some (map (\<lambda>d. (zeroEntity (dem_Location d))\<lparr>ent_Symbol := ''symbol:h:1''\<rparr>)
       (sdr_Demands run)),
     srr_Structural = map (\<lambda>_. []) (sdr_Demands run), srr_Dependencies = [], srr_Durable = True\<rparr>"

definition exampleEnv :: "unit ClosureEnv" where
  "exampleEnv = \<lparr>env_Err = (\<lambda>w. (None, w)), env_maphash = (\<lambda>bs. of_nat (length bs)),
     cb_SourceFiles = retS [], cb_SourceDigests = retS [exampleDigest ''a'' 1, exampleDigest ''b'' 2],
     cb_Update = (\<lambda>_. retS [''b'']), cb_Close = retS (),
     cb_SemanticDemandRuns = (\<lambda>runs _ _. retS (map exampleAnswer runs)), cb_AsyncFunctionsAt = (\<lambda>_. retS []),
     cb_SymbolEvidence = (\<lambda>_. retS []), cb_ChangedReferences = retS ([], True),
     cb_ReleaseAnalysisState = retS (), cb_ModuleGraph = None\<rparr>"

definition exampleGroup :: "string \<Rightarrow> demandGroup" where
  "exampleGroup path = zeroDemandGroup\<lparr>dg_path := path, dg_demands := Some [demandOfFlags path 0 1 1]\<rparr>"

definition exampleStart :: "unit closureRun" where
  "exampleStart = \<lparr>run_closure = newDemandClosure (), run_groups = [exampleGroup ''a'', exampleGroup ''b'']\<rparr>"

definition exampleFirst :: "FactTable result \<times> unit closureRun" where
  "exampleFirst = demandTableForCanonicalGroups exampleEnv 1 [''a'', ''b''] exampleStart"

lemma exampleFirst_ok: "case exampleFirst of (Inr t, r) \<Rightarrow> wireEntityCount t = 2 | (Inl _, _) \<Rightarrow> False"
  by code_simp

section \<open>Canonical tables and the invariant\<close>

lemma demandTable_ok:
  assumes "closure_ok p" and "groups_ok gs" and "\<forall>path \<in> set changedPaths. Clean path = path"
    and "changedPaths \<noteq> [] \<or> cl_table p = None"
    and "demandTableForCanonicalGroups env generation changedPaths \<lparr>run_closure = p, run_groups = gs\<rparr> = (Inr t, r')"
  shows "table_canonical t \<and> ft_Generation t = generation \<and> generation = cl_generation p \<and>
    closure_ok (run_closure r') \<and> groups_ok (run_groups r') \<and> map group_core (run_groups r') = map group_core gs"
proof -
  let ?p = "discardChanged changedPaths p"
  obtain r2 stats where m: "materialized ?p gs generation t r2"
    and r': "r' = r2\<lparr>run_closure := (run_closure r2)\<lparr>cl_table := Some t, cl_stats := stats\<rparr>\<rparr>"
    using demandTable_materialized[OF assms(2,4,5)] .
  note ok = closure_ok_discard(1)[OF assms(1,3)]
  obtain r changed where st: "settled ?p gs changed r" and gs': "run_groups r2 = map releaseExpanded (run_groups r)"
    and t: "table_canonical t" "ft_Generation t = generation"
    using materialized_facts[OF ok assms(2) m] by metis
  have "map group_core (run_groups r2) = map group_core gs"
    using st unfolding gs' by (simp add: settled_def framed_def comp_def releaseExpanded_core)
  then show ?thesis
    using t demandTable_tabled[OF assms(2,5)] closure_ok_materialized[OF ok assms(2) m] by (simp add: r')
qed

text \<open>What a table of a generation looks like, and what its manifest may name.\<close>

definition manifest_ok :: "factTableTransportChanges \<Rightarrow> bool" where
  "manifest_ok m \<longleftrightarrow> tc_exact m \<and> tc_symbolIDs m = [] \<and>
     (\<forall>paths \<in> {tc_sourcePaths m, tc_entityPaths m, tc_filePaths m}. distinct paths \<and> (\<forall>path \<in> set paths. Clean path = path))"

definition table_of_generation :: "u64 \<Rightarrow> FactTable \<Rightarrow> bool" where
  "table_of_generation generation t \<longleftrightarrow> table_canonical t \<and> ft_Schema t = TypeFactsSchemaVersion \<and>
     ft_Generation t = generation \<and> (case ft_transport t of None \<Rightarrow> True | Some m \<Rightarrow> manifest_ok m)"

text \<open>
  The states a closure passes through between two analyses: new, analyzed over any well-formed demand set,
  its rows released after they were sent, updated (accepted or not), and reset, as after a failed
  analysis or before a forced rebuild.
\<close>

inductive closure_history :: "'w ClosureEnv \<Rightarrow> 'w DemandClosure \<Rightarrow> bool" for env where
  created: "closure_history env (newDemandClosure w)"
| analyzed: "closure_history env p \<Longrightarrow> groups_ok gs \<Longrightarrow> \<forall>path \<in> set changedPaths. Clean path = path \<Longrightarrow>
    demandTableForCanonicalGroups env generation changedPaths \<lparr>run_closure = p, run_groups = gs\<rparr> = (Inr t, r') \<Longrightarrow>
    closure_history env (run_closure r')"
| failed: "closure_history env p \<Longrightarrow>
    demandTableForCanonicalGroups env generation changedPaths \<lparr>run_closure = p, run_groups = gs\<rparr> = (Inl e, r') \<Longrightarrow>
    closure_history env (abandonAnalysis (run_closure r'))"
| released: "closure_history env p \<Longrightarrow> closure_history env (releaseTransportRows p)"
| updated: "closure_history env p \<Longrightarrow> Update env changes p = (r, p') \<Longrightarrow> closure_history env p'"
| forced: "closure_history env p \<Longrightarrow> closure_history env (forceFullMaterialization p)"

definition tables_ok :: "'w DemandClosure \<Rightarrow> bool" where
  "tables_ok p \<longleftrightarrow> closure_ok p \<and> (\<forall>t. cl_table p = Some t \<longrightarrow> table_of_generation (cl_generation p) t)"

lemma manifest_ok_rustOwned: "rustOwnedTransportManifest previous changedPaths = Some m \<Longrightarrow> manifest_ok m"
proof -
  have "distinct (fold (\<lambda>path acc. List.insert (Clean path) acc) paths acc)" if "distinct acc" for paths acc
    using that by (induction paths arbitrary: acc) simp_all
  then have "distinct (cleanPaths paths)" for paths by (simp add: cleanPaths_def)
  then show "rustOwnedTransportManifest previous changedPaths = Some m \<Longrightarrow> manifest_ok m"
    by (auto simp: rustOwnedTransportManifest_def manifest_ok_def split: option.splits)
qed

lemma table_of_generation_released:
  "table_of_generation generation t \<Longrightarrow> table_of_generation generation (t\<lparr>ft_Entities := [],
     ft_entityRuns := map_option (\<lambda>_. []) (ft_entityRuns t), ft_Files := [], ft_sourceDigests := []\<rparr>)"
  by (auto simp: table_of_generation_def table_canonical_def strict_keys_def runs_ok_def split: option.splits)

lemma demandTable_of_generation:
  assumes "tables_ok p" and "groups_ok gs" and "\<forall>path \<in> set changedPaths. Clean path = path"
    and "demandTableForCanonicalGroups env generation changedPaths \<lparr>run_closure = p, run_groups = gs\<rparr> = (Inr t, r')"
  shows "table_of_generation generation t \<and> generation = cl_generation p \<and>
    cl_table (run_closure r') = Some t \<and> tables_ok (run_closure r') \<and> groups_ok (run_groups r') \<and>
    map group_core (run_groups r') = map group_core gs"
proof -
  let ?p = "discardChanged changedPaths p"
  have ok: "closure_ok p" using assms(1) by (simp add: tables_ok_def)
  have tab: "generation = cl_generation p" "tabled ?p gs generation t r'"
    using demandTable_tabled[OF assms(2,4)] by blast+
  show ?thesis
  proof (cases "changedPaths \<noteq> [] \<or> cl_table p = None")
    case True
    obtain r2 stats where m: "materialized ?p gs generation t r2"
      and r': "r' = r2\<lparr>run_closure := (run_closure r2)\<lparr>cl_table := Some t, cl_stats := stats\<rparr>\<rparr>"
      using demandTable_materialized[OF assms(2) True assms(4)] .
    have gen: "cl_generation ?p = cl_generation p" by (simp add: discardChanged_def Let_def split: option.split)
    have "table_of_generation generation t" and "cl_generation (run_closure r2) = cl_generation p"
      using materialized_facts[OF closure_ok_discard(1)[OF ok assms(3)] assms(2) m] manifest_ok_rustOwned gen
      unfolding table_of_generation_def by (metis option.case_eq_if option.collapse)+
    then show ?thesis
      using demandTable_ok[OF ok assms(2,3) True assms(4)] by (simp add: r' tables_ok_def)
  next
    case False
    then have "?p = p" "t = the (cl_table p)" "r' = \<lparr>run_closure = p, run_groups = gs\<rparr>"
      using tab(2) by (auto simp: discardChanged_def tabled_def)
    then show ?thesis using False assms(1,2) tab(1) by (auto simp: tables_ok_def)
  qed
qed

lemma closure_history_ok:
  assumes "closure_history env p" and "clean_backend env"
  shows "tables_ok p"
  using assms(1)
proof induction
  case (created w)
  show ?case using closure_ok_new[of w] by (simp add: tables_ok_def newDemandClosure_def)
next
  case (analyzed p gs changedPaths generation t r')
  then show ?case using demandTable_of_generation by blast
next
  case (failed p generation changedPaths gs e r')
  show ?case using closure_ok_reset by (auto simp: tables_ok_def abandonAnalysis_def resetAnalysisStateLocked_def)
next
  case (released p)
  show ?case
  proof (cases "cl_table p")
    case None
    then show ?thesis using released.IH by (simp add: releaseTransportRows_def)
  next
    case (Some t)
    have "closure_ok (releaseTransportRows p)" using released.IH closure_ok_release[of p] by (simp add: tables_ok_def)
    moreover have "table_of_generation (cl_generation p) t" using released.IH Some by (simp add: tables_ok_def)
    note table_of_generation_released[OF this]
    ultimately show ?thesis using Some by (simp add: tables_ok_def releaseTransportRows_def)
  qed
next
  case (updated p changes r p')
  have before: "closure_ok p" using updated.IH by (simp add: tables_ok_def)
  have ok: "closure_ok p'" "cl_symbolsByPath p = []"
    using closure_ok_update[OF before assms(2) updated.hyps(2)] before by (simp_all add: closure_ok_def)
  show ?case
  proof (cases rule: Update_cases[OF ok(2), of env changes])
    case (1 e w)
    then show ?thesis using updated ok(1) by (auto simp: tables_ok_def)
  next
    case (2 affected w store paths)
    then show ?thesis using updated ok(1) by (auto simp: tables_ok_def)
  qed
next
  case (forced p)
  show ?case using closure_ok_reset by (auto simp: tables_ok_def forceFullMaterialization_def resetAnalysisStateLocked_def)
qed

text \<open>
  C21. Every table a successful analysis returns is canonical, over every history of the closure and
  whether the table is materialized or the cached one of the generation: it has the schema of the
  protocol and the requested generation, which is the closure's; its sources and file rows are in strict
  path order, its entity rows are non-empty runs in strict path order with every row in its run's file;
  and the manifest it carries, when it has one, is exact, names clean paths once each and no symbol. The
  closure holds that table, its invariant survives (the reverse indexes agree with the stored
  contributions, stored rows lie in their file, no stored path is pending as changed), and the demand
  groups stay well formed and keep their contents.
\<close>

theorem demandTable_canonical:
  assumes "closure_history env p" and "clean_backend env"
    and "groups_ok gs" and "\<forall>path \<in> set changedPaths. Clean path = path"
    and "demandTableForCanonicalGroups env generation changedPaths \<lparr>run_closure = p, run_groups = gs\<rparr> = (Inr t, r')"
  shows "table_canonical t \<and> ft_Schema t = TypeFactsSchemaVersion \<and> ft_Generation t = generation \<and>
    generation = cl_generation p \<and> (case ft_transport t of None \<Rightarrow> True | Some m \<Rightarrow> manifest_ok m) \<and>
    cl_table (run_closure r') = Some t \<and> closure_ok (run_closure r') \<and>
    groups_ok (run_groups r') \<and> map group_core (run_groups r') = map group_core gs"
  using demandTable_of_generation[OF closure_history_ok[OF assms(1,2)] assms(3-5)]
  by (simp add: table_of_generation_def tables_ok_def)

section \<open>The transport\<close>

text \<open>
  C1. A sparse transition keeps the client in step. Let a client hold, for every stored contribution,
  the rows that contribution had when it was built, and let the demand set change only at the named
  paths. When the analysis returns a table with an exact manifest, the client that applies the planned
  path operations holds for every demanded file exactly the rows of the group's current contribution
  (retained or rebuilt) and no row of any other file, and it is in step with the new closure.
\<close>

theorem sparse_transition_in_step:
  assumes "closure_ok p" and "groups_ok gs" and "\<forall>path \<in> set changedPaths. Clean path = path"
    and "in_step rows v p old" and "dg_path ` set old \<subseteq> dg_path ` set gs \<union> set changedPaths"
    and "changedPaths \<noteq> [] \<or> cl_table p = None"
    and "demandTableForCanonicalGroups env generation changedPaths \<lparr>run_closure = p, run_groups = gs\<rparr> = (Inr t, r')"
    and "ft_transport t = Some m"
  shows "let rows' = built (length (cl_heap p)) rows (cl_heap (run_closure r'));
      v' = fold applyPathOp (fst (planSparseDelta base t m)) v
    in holds_groups rows' v' (run_groups r') \<and> in_step rows' v' (run_closure r') (run_groups r')"
proof -
  let ?p = "discardChanged changedPaths p"
  obtain r2 stats where m: "materialized ?p gs generation t r2"
    and r': "r' = r2\<lparr>run_closure := (run_closure r2)\<lparr>cl_table := Some t, cl_stats := stats\<rparr>\<rparr>"
    using demandTable_materialized[OF assms(2,6,7)] .
  note ok = closure_ok_discard(1)[OF assms(1,3)]
  note step = in_step_discard[OF assms(4,5,1,3)]
  from sparse_holds[OF ok assms(2) step m assms(8), of base] holds_groups_in_step[OF ok assms(2) m]
  show ?thesis by (simp add: r' Let_def in_step_def)
qed

lemma full_table_holds:
  assumes "closure_ok p" and "groups_ok gs" and "\<forall>path \<in> set changedPaths. Clean path = path"
    and "\<forall>g \<in> set gs. dg_path g \<in> set changedPaths \<or> rcs_get (cl_retained p) (dg_path g) = None"
    and "changedPaths \<noteq> [] \<or> cl_table p = None"
    and "demandTableForCanonicalGroups env generation changedPaths \<lparr>run_closure = p, run_groups = gs\<rparr> = (Inr t, r')"
  shows "let rows' = built (length (cl_heap p)) rows (cl_heap (run_closure r'))
    in holds_groups rows' (table_state t) (run_groups r') \<and> in_step rows' (table_state t) (run_closure r') (run_groups r')"
proof -
  let ?p = "discardChanged changedPaths p"
  obtain r2 stats where m: "materialized ?p gs generation t r2"
    and r': "r' = r2\<lparr>run_closure := (run_closure r2)\<lparr>cl_table := Some t, cl_stats := stats\<rparr>\<rparr>"
    using demandTable_materialized[OF assms(2,5,6)] .
  note ok = closure_ok_discard(1)[OF assms(1,3)]
  have fresh: "rcs_get (cl_retained ?p) (dg_path g) = None" if "g \<in> set gs" for g
  proof (cases "changedPaths = []")
    case True
    then show ?thesis using assms(4) that by (simp add: discardChanged_def)
  next
    case False
    then show ?thesis using closure_ok_discard(2)[OF assms(1,3) False] assms(3,4) that
      by (auto simp: restrict_map_def image_iff)
  qed
  from full_holds[OF ok assms(2) m fresh, of rows] holds_groups_in_step[OF ok assms(2) m]
  show ?thesis by (simp add: r' Let_def in_step_def)
qed

text \<open>
  C14. A full transition is complete: when no demanded file has a stored contribution (a reset, whose
  paths are all named as changed, or a forced rebuild after the caches were dropped), the rows of the
  returned table are, for every demanded file, exactly the rows of its contribution, with no row of any
  other file, and the client that replaces its state by them is in step with the new closure.
\<close>

theorem full_transition_complete:
  assumes "closure_ok p" and "groups_ok gs" and "\<forall>path \<in> set changedPaths. Clean path = path"
    and "\<forall>g \<in> set gs. dg_path g \<in> set changedPaths \<or> rcs_get (cl_retained p) (dg_path g) = None"
    and "changedPaths \<noteq> [] \<or> cl_table p = None"
    and "demandTableForCanonicalGroups env generation changedPaths \<lparr>run_closure = p, run_groups = gs\<rparr> = (Inr t, r')"
  shows "let rows' = built (length (cl_heap p)) rows (cl_heap (run_closure r'))
    in holds_groups rows' (table_state t) (run_groups r') \<and> in_step rows' (table_state t) (run_closure r') (run_groups r')"
  using assms by (rule full_table_holds)

lemma groups_ok_example: "groups_ok [exampleGroup ''a'', exampleGroup ''b'']"
proof -
  have "Clean ''a'' = ''a''" "Clean ''b'' = ''b''" "''a'' < ''b''" by code_simp+
  then show ?thesis
    by (simp add: groups_ok_def strict_keys_def exampleGroup_def located_def demandOfFlags_def elems_def)
qed

lemma clean_example: "\<forall>path \<in> set [''a'', ''b'']. Clean path = path"
  by code_simp

text \<open>The first analysis of the example, and the second one with the second file's demands changed.\<close>

lemma exampleFirst_run:
  obtains t r where "exampleFirst = (Inr t, r)" "wireEntityCount t = 2"
    "demandTableForCanonicalGroups exampleEnv 1 [''a'', ''b'']
       \<lparr>run_closure = newDemandClosure (), run_groups = [exampleGroup ''a'', exampleGroup ''b'']\<rparr> = (Inr t, r)"
  using exampleFirst_ok by (auto simp: exampleFirst_def exampleStart_def split: prod.splits sum.splits)

lemma clean_backend_example: "clean_backend exampleEnv"
proof -
  have "Clean ''b'' = ''b''" by code_simp
  then show ?thesis by (simp add: clean_backend_def exampleEnv_def retS_def)
qed

text \<open>The first table is materialized; asked again without a change, the closure answers the cached one.\<close>

definition exampleCached :: "FactTable result \<times> unit closureRun" where
  "exampleCached = demandTableForCanonicalGroups exampleEnv 1 [] (snd exampleFirst)"

lemma exampleCached_ok: "case exampleCached of (Inr t, r) \<Rightarrow> wireEntityCount t = 2 | (Inl _, _) \<Rightarrow> False"
  by code_simp

theorem demandTable_canonical_witness:
  "\<exists>t r. exampleCached = (Inr t, r) \<and> wireEntityCount t = 2 \<and> table_canonical t \<and>
     ft_Schema t = TypeFactsSchemaVersion \<and> closure_ok (run_closure r)"
proof -
  obtain t0 r0 where first: "exampleFirst = (Inr t0, r0)"
    "demandTableForCanonicalGroups exampleEnv 1 [''a'', ''b'']
       \<lparr>run_closure = newDemandClosure (), run_groups = [exampleGroup ''a'', exampleGroup ''b'']\<rparr> = (Inr t0, r0)"
    using exampleFirst_run by metis
  note history = closure_history.created[of exampleEnv "()"]
  have once: "closure_history exampleEnv (run_closure r0)"
    by (rule closure_history.analyzed[OF history groups_ok_example clean_example first(2)])
  have groups: "groups_ok (run_groups r0)"
    using demandTable_canonical[OF history clean_backend_example groups_ok_example clean_example first(2)] by simp
  obtain t r where again: "exampleCached = (Inr t, r)" "wireEntityCount t = 2"
    using exampleCached_ok by (auto split: prod.splits sum.splits)
  then have cached: "demandTableForCanonicalGroups exampleEnv 1 [] \<lparr>run_closure = run_closure r0, run_groups = run_groups r0\<rparr> = (Inr t, r)"
    by (cases r0) (simp add: exampleCached_def first(1))
  then show ?thesis
    using demandTable_canonical[OF once clean_backend_example groups _ cached] again by auto
qed

theorem full_transition_complete_witness:
  "\<exists>t r. exampleFirst = (Inr t, r) \<and> in_step (built 0 (\<lambda>_. []) (cl_heap (run_closure r))) (table_state t) (run_closure r) (run_groups r)"
proof -
  obtain t r where run: "exampleFirst = (Inr t, r)"
    "demandTableForCanonicalGroups exampleEnv 1 [''a'', ''b'']
       \<lparr>run_closure = newDemandClosure (), run_groups = [exampleGroup ''a'', exampleGroup ''b'']\<rparr> = (Inr t, r)"
    using exampleFirst_run by metis
  have fresh: "\<forall>g \<in> set [exampleGroup ''a'', exampleGroup ''b'']. dg_path g \<in> set [''a'', ''b''] \<or>
      rcs_get (cl_retained (newDemandClosure ())) (dg_path g) = None"
    by (simp add: exampleGroup_def)
  show ?thesis
    using full_transition_complete[OF closure_ok_new groups_ok_example clean_example fresh _ run(2), of "\<lambda>_. []"] run(1)
    by (auto simp: Let_def newDemandClosure_def)
qed

definition exampleSecond :: "FactTable result \<times> unit closureRun" where
  "exampleSecond = demandTableForCanonicalGroups exampleEnv 1 [''b'']
     ((snd exampleFirst)\<lparr>run_closure := releaseTransportRows (run_closure (snd exampleFirst))\<rparr>)"

lemma exampleSecond_ok:
  "case exampleSecond of (Inr t, r) \<Rightarrow> wireEntityCount t = 1 \<and> map_option tc_entityPaths (ft_transport t) = Some [''b'']
   | (Inl _, _) \<Rightarrow> False"
  by code_simp

theorem sparse_transition_in_step_witness:
  "\<exists>t r m v rows. exampleSecond = (Inr t, r) \<and> ft_transport t = Some m \<and>
     holds_groups rows (fold applyPathOp (fst (planSparseDelta t t m)) v) (run_groups r)"
proof -
  obtain t0 r0 where first: "exampleFirst = (Inr t0, r0)"
    "demandTableForCanonicalGroups exampleEnv 1 [''a'', ''b'']
       \<lparr>run_closure = newDemandClosure (), run_groups = [exampleGroup ''a'', exampleGroup ''b'']\<rparr> = (Inr t0, r0)"
    using exampleFirst_run by metis
  let ?rows = "built 0 (\<lambda>_. []) (cl_heap (run_closure r0))"
  let ?p = "releaseTransportRows (run_closure r0)"
  have ok: "closure_ok ?p" "groups_ok (run_groups r0)"
    using demandTable_ok[OF closure_ok_new groups_ok_example clean_example _ first(2)] by (simp_all add: closure_ok_release)
  have step: "in_step ?rows (table_state t0) ?p (run_groups r0)"
    using full_table_holds[OF closure_ok_new groups_ok_example clean_example _ _ first(2), of "\<lambda>_. []"]
    by (simp add: Let_def newDemandClosure_def exampleGroup_def in_step_release)
  obtain t r m where second: "exampleSecond = (Inr t, r)" "ft_transport t = Some m"
    using exampleSecond_ok by (auto split: prod.splits sum.splits)
  have run: "demandTableForCanonicalGroups exampleEnv 1 [''b''] \<lparr>run_closure = ?p, run_groups = run_groups r0\<rparr> = (Inr t, r)"
    using second(1) unfolding exampleSecond_def first(1) by (cases r0) simp
  have clean: "\<forall>path \<in> set [''b'']. Clean path = path" using clean_example by simp
  have "holds_groups (built (length (cl_heap ?p)) ?rows (cl_heap (run_closure r)))
      (fold applyPathOp (fst (planSparseDelta t t m)) (table_state t0)) (run_groups r)"
    using sparse_transition_in_step[OF ok clean step _ _ run second(2), of t] by (simp add: Let_def subset_insertI)
  then show ?thesis using second by blast
qed

section \<open>The eviction loop of an update\<close>

lemma symbolsAt_write:
  "symbolsAt q (if ids = [] then AList.delete path index else AList.update path ids index) =
     (if q = path then ids else symbolsAt q index)"
  by (simp add: symbolsAt_def delete_conv' update_conv')

lemma symbolsAt_update: "symbolsAt q (AList.update path ids index) = (if q = path then ids else symbolsAt q index)"
  by (simp add: symbolsAt_def update_conv')

lemma unindex_shrinks:
  "set (symbolsAt q (unindexSymbolFact f index)) \<subseteq> set (symbolsAt q index) \<and>
   length (symbolsAt q (unindexSymbolFact f index)) \<le> length (symbolsAt q index) \<and>
   (q \<in> set (declaredPaths f) \<and> sym_ID f \<in> set (symbolsAt q index) \<longrightarrow>
     length (symbolsAt q (unindexSymbolFact f index)) < length (symbolsAt q index))"
proof -
  let ?step = "\<lambda>path index. let ids = remove1 (sym_ID f) (symbolsAt path index) in
       if ids = [] then AList.delete path index else AList.update path ids index"
  have at: "symbolsAt q (?step path index) =
      (if q = path then remove1 (sym_ID f) (symbolsAt q index) else symbolsAt q index)" for path index
    unfolding Let_def symbolsAt_write by simp
  have "set (symbolsAt q (fold ?step paths index)) \<subseteq> set (symbolsAt q index) \<and>
      length (symbolsAt q (fold ?step paths index)) \<le> length (symbolsAt q index) \<and>
      (q \<in> set paths \<and> sym_ID f \<in> set (symbolsAt q index) \<longrightarrow>
        length (symbolsAt q (fold ?step paths index)) < length (symbolsAt q index))" for paths
  proof (induction paths arbitrary: index)
    case (Cons path paths)
    have one: "set (symbolsAt q (?step path index)) \<subseteq> set (symbolsAt q index)"
      "length (symbolsAt q (?step path index)) \<le> length (symbolsAt q index)"
      "q = path \<Longrightarrow> sym_ID f \<in> set (symbolsAt q index) \<Longrightarrow> length (symbolsAt q (?step path index)) < length (symbolsAt q index)"
      "q \<noteq> path \<Longrightarrow> symbolsAt q (?step path index) = symbolsAt q index"
      unfolding at using set_remove1_subset[of "sym_ID f" "symbolsAt q index"]
      by (auto simp: length_remove1 dest: length_pos_if_in_set)
    show ?case
      using Cons.IH[of "?step path index"] one by (cases "q = path") fastforce+
  qed simp
  then show ?thesis by (simp add: unindexSymbolFact_def)
qed

lemma unindex_keeps:
  "set (symbolsAt q index) \<subseteq> insert (sym_ID f) (set (symbolsAt q (unindexSymbolFact f index)))"
proof -
  let ?step = "\<lambda>path index. let ids = remove1 (sym_ID f) (symbolsAt path index) in
       if ids = [] then AList.delete path index else AList.update path ids index"
  have at: "symbolsAt q (?step path index) =
      (if q = path then remove1 (sym_ID f) (symbolsAt q index) else symbolsAt q index)" for path index
    unfolding Let_def symbolsAt_write by simp
  have "set (symbolsAt q index) \<subseteq> insert (sym_ID f) (set (symbolsAt q (fold ?step paths index)))" for paths
  proof (induction paths arbitrary: index)
    case (Cons path paths)
    have "x = sym_ID f \<or> x \<in> set (remove1 (sym_ID f) xs)" if "x \<in> set xs" for x xs
      by (cases "x = sym_ID f") (simp_all add: that)
    then have "set (symbolsAt q index) \<subseteq> insert (sym_ID f) (set (symbolsAt q (?step path index)))"
      unfolding at by auto
    then show ?case using Cons.IH[of "?step path index"] by auto
  qed auto
  then show ?thesis by (simp add: unindexSymbolFact_def)
qed

text \<open>The index is sound for a table: an indexed symbol of the table is declared in the indexing path.\<close>

definition index_sound :: "FactTable \<Rightarrow> (string \<times> SymbolID list) list \<Rightarrow> bool" where
  "index_sound t index \<longleftrightarrow> (\<forall>path symbol f. symbol \<in> set (symbolsAt path index) \<longrightarrow>
     canonicalSymbol t symbol = Some f \<longrightarrow> sym_ID f = symbol \<and> path \<in> set (declaredPaths f))"

text \<open>
  C34. The loop of \<^verbatim>\<open>Update\<close> that evicts the symbols declared in an invalidated path ends. With the
  closure's table present and an index in which every symbol of the table is filed under a path that
  declares it, the loop empties the bucket of the path, records every symbol of the bucket as
  invalidated, and changes nothing but the index, that record and the reference lists.
\<close>

theorem evictSymbols_terminates:
  assumes "cl_table p = Some t" and "index_sound t (cl_symbolsByPath p)"
  shows "\<exists>p'. evictSymbols path p = Some (Inr (), p') \<and> symbolsAt path (cl_symbolsByPath p') = [] \<and>
    set (symbolsAt path (cl_symbolsByPath p)) \<subseteq> set (cl_invalidatedSymbols p') \<and>
    set (cl_invalidatedSymbols p) \<subseteq> set (cl_invalidatedSymbols p') \<and> index_sound t (cl_symbolsByPath p') \<and>
    p' = p\<lparr>cl_symbolsByPath := cl_symbolsByPath p', cl_symbolReferences := cl_symbolReferences p',
      cl_invalidatedSymbols := cl_invalidatedSymbols p'\<rparr>"
  using assms
proof (induction "length (symbolsAt path (cl_symbolsByPath p))" arbitrary: p rule: less_induct)
  case less
  let ?ids = "symbolsAt path (cl_symbolsByPath p)"
  show ?case
  proof (cases "?ids = []")
    case True
    then show ?thesis using less.prems by (subst evictSymbols.simps) simp
  next
    case False
    let ?s = "last ?ids"
    let ?index = "case canonicalSymbol t ?s of
        Some f \<Rightarrow> unindexSymbolFact f (cl_symbolsByPath p)
      | None \<Rightarrow> AList.update path (butlast ?ids) (cl_symbolsByPath p)"
    let ?p = "p\<lparr>cl_invalidatedSymbols := List.insert ?s (cl_invalidatedSymbols p), cl_symbolsByPath := ?index,
        cl_symbolReferences := AList.delete ?s (cl_symbolReferences p)\<rparr>"
    have mem: "?s \<in> set ?ids" using False by simp
    have run: "evictSymbols path p = evictSymbols path ?p"
      using False less.prems(1) by (subst evictSymbols.simps) (simp add: Let_def split: option.split)
    have sub: "set (symbolsAt q ?index) \<subseteq> set (symbolsAt q (cl_symbolsByPath p))" for q
      using unindex_shrinks[of q _ "cl_symbolsByPath p"]
      by (auto simp: symbolsAt_update dest: in_set_butlastD split: option.splits if_splits)
    have sound: "index_sound t ?index" using less.prems(2) sub unfolding index_sound_def by blast
    have shorter: "length (symbolsAt path ?index) < length ?ids"
    proof (cases "canonicalSymbol t ?s")
      case None
      then show ?thesis using False by (simp add: symbolsAt_update)
    next
      case (Some f)
      then have "sym_ID f = ?s" "path \<in> set (declaredPaths f)"
        using less.prems(2) mem by (auto simp: index_sound_def)
      then show ?thesis using Some unindex_shrinks[of path f "cl_symbolsByPath p"] mem by simp
    qed
    have kept_ids: "set ?ids \<subseteq> insert ?s (set (symbolsAt path ?index))"
    proof (cases "canonicalSymbol t ?s")
      case None
      have "?ids = butlast ?ids @ [?s]" using False by simp
      then have "set ?ids = insert ?s (set (butlast ?ids))" by (metis list.set(1,2) set_append sup_bot.right_neutral insert_is_Un Un_commute)
      then show ?thesis using None by (simp add: symbolsAt_update)
    next
      case (Some f)
      then have "sym_ID f = ?s" using less.prems(2) mem by (auto simp: index_sound_def)
      then show ?thesis using unindex_keeps[where q = path and f = f and index = "cl_symbolsByPath p"] Some by auto
    qed
    from less.hyps[of ?p] shorter less.prems(1) sound obtain p' where p':
      "evictSymbols path ?p = Some (Inr (), p')" "symbolsAt path (cl_symbolsByPath p') = []"
      "set (symbolsAt path ?index) \<subseteq> set (cl_invalidatedSymbols p')"
      "set (List.insert ?s (cl_invalidatedSymbols p)) \<subseteq> set (cl_invalidatedSymbols p')"
      "index_sound t (cl_symbolsByPath p')"
      "p' = ?p\<lparr>cl_symbolsByPath := cl_symbolsByPath p', cl_symbolReferences := cl_symbolReferences p',
        cl_invalidatedSymbols := cl_invalidatedSymbols p'\<rparr>" by auto
    have frame: "p' = p\<lparr>cl_symbolsByPath := cl_symbolsByPath p', cl_symbolReferences := cl_symbolReferences p',
        cl_invalidatedSymbols := cl_invalidatedSymbols p'\<rparr>" using p'(6) by simp
    show ?thesis
      unfolding run
      by (intro exI[of _ p'] conjI) (use p' kept_ids frame in auto)
  qed
qed

definition evictSymbol :: SymbolFact where
  "evictSymbol = \<lparr>sym_ID = ''s'', sym_AliasTarget = [],
     sym_Declarations = [\<lparr>decl_Name = ''s'', decl_Kind = ''const'',
       decl_Location = \<lparr>loc_Path = ''a'', loc_StartByte = 0, loc_EndByte = 1\<rparr>\<rparr>], sym_References = []\<rparr>"

definition evictClosure :: "unit DemandClosure" where
  "evictClosure = (newDemandClosure ())\<lparr>cl_table := Some (zeroFactTable\<lparr>ft_Symbols := [evictSymbol]\<rparr>),
     cl_symbolsByPath := indexSymbolFact evictSymbol []\<rparr>"

theorem evictSymbols_terminates_witness:
  "symbolsAt ''a'' (cl_symbolsByPath evictClosure) = [''s''] \<and>
   (\<exists>p'. evictSymbols ''a'' evictClosure = Some (Inr (), p') \<and> ''s'' \<in> set (cl_invalidatedSymbols p'))"
proof -
  have index: "cl_symbolsByPath evictClosure = [(''a'', [''s''])]"
    by (simp add: evictClosure_def indexSymbolFact_def declaredPaths_def evictSymbol_def symbolsAt_def)
  have "canonicalSymbol (zeroFactTable\<lparr>ft_Symbols := [evictSymbol]\<rparr>) ''s'' = Some evictSymbol" by code_simp
  then have "index_sound (zeroFactTable\<lparr>ft_Symbols := [evictSymbol]\<rparr>) (cl_symbolsByPath evictClosure)"
    by (simp add: index_sound_def index symbolsAt_def declaredPaths_def evictSymbol_def)
  moreover have "cl_table evictClosure = Some (zeroFactTable\<lparr>ft_Symbols := [evictSymbol]\<rparr>)"
    by (simp add: evictClosure_def)
  ultimately show ?thesis
    using evictSymbols_terminates[of evictClosure _ "''a''"] index by (auto simp: symbolsAt_def)
qed

section \<open>The demand hash\<close>

lemma length_AppendUint64 [simp]: "length (AppendUint64 v) = 8"
  by (simp add: AppendUint64_def)

lemma AppendUint64_inject: "AppendUint64 v = AppendUint64 w \<longleftrightarrow> v = w"
proof
  assume eq: "AppendUint64 v = AppendUint64 w"
  show "v = w"
  proof (rule bit_word_eqI)
    fix n
    assume n: "n < LENGTH(64)"
    then have "n div 8 < 8" by simp
    then have "AppendUint64 v ! (n div 8) = (ucast (drop_bit (8 * (n div 8)) v) :: u8)"
      "AppendUint64 w ! (n div 8) = (ucast (drop_bit (8 * (n div 8)) w) :: u8)"
      by (simp_all add: AppendUint64_def del: upt_rec_numeral)
    then have "bit (ucast (drop_bit (8 * (n div 8)) v) :: u8) (n mod 8) = bit (ucast (drop_bit (8 * (n div 8)) w) :: u8) (n mod 8)"
      using eq by metis
    then show "bit v n = bit w n" by (simp add: bit_unsigned_iff bit_drop_bit_eq)
  qed
qed simp

lemma flagByte_inject [simp]: "flagByte a = flagByte b \<longleftrightarrow> a = b"
  by (simp add: flagByte_def)

text \<open>A demand without the paths of its locations.\<close>

definition pathless :: "Location \<Rightarrow> Location" where
  "pathless l = l\<lparr>loc_Path := []\<rparr>"

definition demandShapeOf :: "EntityDemand \<Rightarrow> EntityDemand" where
  "demandShapeOf d = d\<lparr>dem_Location := pathless (dem_Location d),
     dem_QueryLocation := map_option pathless (dem_QueryLocation d)\<rparr>"

text \<open>The offsets of a Go \<^verbatim>\<open>int\<close>.\<close>

definition offsets_ok :: "Location \<Rightarrow> bool" where
  "offsets_ok l \<longleftrightarrow> - (2 ^ 63) \<le> loc_StartByte l \<and> loc_StartByte l < 2 ^ 63 \<and>
     - (2 ^ 63) \<le> loc_EndByte l \<and> loc_EndByte l < 2 ^ 63"

definition demand_int64 :: "EntityDemand \<Rightarrow> bool" where
  "demand_int64 d \<longleftrightarrow> offsets_ok (dem_Location d) \<and> pred_option offsets_ok (dem_QueryLocation d)"

lemma uint64_inject:
  assumes "- (2 ^ 63) \<le> a" "a < 2 ^ 63" "- (2 ^ 63) \<le> b" "b < 2 ^ 63"
  shows "uint64 a = uint64 b \<longleftrightarrow> a = b"
  using go_int_uint64[of a] go_int_uint64[of b] assms by metis

lemma locationBytes_inject:
  assumes "offsets_ok l" and "offsets_ok l'"
    and "AppendUint64 (uint64 (loc_StartByte l)) @ AppendUint64 (uint64 (loc_EndByte l)) @ xs =
      AppendUint64 (uint64 (loc_StartByte l')) @ AppendUint64 (uint64 (loc_EndByte l')) @ xs'"
  shows "pathless l = pathless l' \<and> xs = xs'"
  using assms by (auto simp: offsets_ok_def pathless_def AppendUint64_inject uint64_inject)

lemma demandHashBytes_inject:
  assumes "demand_int64 d" and "demand_int64 d'"
    and "demandHashBytes d @ xs = demandHashBytes d' @ xs'"
  shows "demandShapeOf d = demandShapeOf d' \<and> xs = xs'"
proof -
  have "pathless (dem_Location d) = pathless (dem_Location d') \<and>
      (case dem_QueryLocation d of
         Some q \<Rightarrow> 1 # AppendUint64 (uint64 (loc_StartByte q)) @ AppendUint64 (uint64 (loc_EndByte q))
       | None \<Rightarrow> [0]) @ demandFlagBytes d @ xs =
      (case dem_QueryLocation d' of
         Some q \<Rightarrow> 1 # AppendUint64 (uint64 (loc_StartByte q)) @ AppendUint64 (uint64 (loc_EndByte q))
       | None \<Rightarrow> [0]) @ demandFlagBytes d' @ xs'"
    using assms by (intro locationBytes_inject) (auto simp: demand_int64_def demandHashBytes_def)
  then have loc: "pathless (dem_Location d) = pathless (dem_Location d')"
    and rest: "(case dem_QueryLocation d of
         Some q \<Rightarrow> 1 # AppendUint64 (uint64 (loc_StartByte q)) @ AppendUint64 (uint64 (loc_EndByte q))
       | None \<Rightarrow> [0]) @ demandFlagBytes d @ xs =
      (case dem_QueryLocation d' of
         Some q \<Rightarrow> 1 # AppendUint64 (uint64 (loc_StartByte q)) @ AppendUint64 (uint64 (loc_EndByte q))
       | None \<Rightarrow> [0]) @ demandFlagBytes d' @ xs'" by blast+
  have "map_option pathless (dem_QueryLocation d) = map_option pathless (dem_QueryLocation d') \<and>
      demandFlagBytes d @ xs = demandFlagBytes d' @ xs'"
  proof (cases "dem_QueryLocation d")
    case None
    then show ?thesis using rest by (cases "dem_QueryLocation d'") simp_all
  next
    case (Some q)
    show ?thesis
    proof (cases "dem_QueryLocation d'")
      case None
      then show ?thesis using rest Some by simp
    next
      case (Some q')
      have "pathless q = pathless q' \<and> demandFlagBytes d @ xs = demandFlagBytes d' @ xs'"
        using rest Some \<open>dem_QueryLocation d = Some q\<close> assms(1,2)
        by (intro locationBytes_inject) (simp_all add: demand_int64_def)
      then show ?thesis using Some \<open>dem_QueryLocation d = Some q\<close> by simp
    qed
  qed
  then show ?thesis using loc by (simp add: demandShapeOf_def demandFlagBytes_def)
qed

text \<open>
  The bytes that the demand hash reads determine the demand run: two runs write the same bytes
  exactly when they have the same demands in the same order, up to the paths of their locations. A
  collision of the seeded hash apart, a retained contribution is reused only for the run it answered.
\<close>

theorem demandListHash_bytes:
  assumes "list_all demand_int64 ds" and "list_all demand_int64 ds'"
  shows "concat (map demandHashBytes ds) = concat (map demandHashBytes ds') \<longleftrightarrow>
    map demandShapeOf ds = map demandShapeOf ds'"
  using assms
proof (induction ds arbitrary: ds')
  case Nil
  then show ?case by (cases ds') (auto simp: demandHashBytes_def AppendUint64_def)
next
  case (Cons d ds)
  show ?case
  proof (cases ds')
    case Nil
    then show ?thesis by (auto simp: demandHashBytes_def AppendUint64_def)
  next
    case (Cons d' es)
    have same: "demandHashBytes d = demandHashBytes d'" if "demandShapeOf d = demandShapeOf d'"
    proof -
      have "demandHashBytes (demandShapeOf e) = demandHashBytes e" for e
        by (simp add: demandHashBytes_def demandShapeOf_def pathless_def demandFlagBytes_def split: option.split)
      then show ?thesis using that by metis
    qed
    have "demandHashBytes d @ concat (map demandHashBytes ds) = demandHashBytes d' @ concat (map demandHashBytes es) \<longleftrightarrow>
        demandShapeOf d = demandShapeOf d' \<and> concat (map demandHashBytes ds) = concat (map demandHashBytes es)"
      using demandHashBytes_inject[of d d' "concat (map demandHashBytes ds)" "concat (map demandHashBytes es)"]
        same Cons.prems by (simp only: Cons list.pred_inject) metis
    then show ?thesis using Cons.IH[of es] Cons.prems by (simp add: Cons)
  qed
qed

theorem demandListHash_bytes_witness:
  "concat (map demandHashBytes [demandOfFlags ''a'' 0 1 1]) \<noteq> concat (map demandHashBytes [demandOfFlags ''a'' 0 1 3])"
proof -
  have "list_all demand_int64 [demandOfFlags ''a'' 0 1 1]" "list_all demand_int64 [demandOfFlags ''a'' 0 1 3]"
    by (simp_all add: demand_int64_def offsets_ok_def demandOfFlags_def go_int_def)
  moreover have "map demandShapeOf [demandOfFlags ''a'' 0 1 1] \<noteq> map demandShapeOf [demandOfFlags ''a'' 0 1 3]" by code_simp
  ultimately show ?thesis using demandListHash_bytes by blast
qed

end
