(* ===== verification/Session_Invariant.thy ===== *)
theory Session_Invariant
  imports Session Closure_Properties
begin

text \<open>
  The invariant of a session and the frame of a request. Every step of an analysis before its
  publication leaves the published state (token, table header) and the contents of the demand set
  alone; a request that fails rolls the demand set back and drops the caches of the closure.
\<close>

section \<open>Steps that touch only the response, the encoder and the environment\<close>

text \<open>The updates of the response that leave its verdict, token and generation alone.\<close>

definition mild :: "(LifecycleResponse \<Rightarrow> LifecycleResponse) \<Rightarrow> bool" where
  "mild f \<longleftrightarrow> (\<forall>r. rs_OK (f r) = rs_OK r \<and> rs_StateToken (f r) = rs_StateToken r \<and>
     rs_Error (f r) = rs_Error r \<and> rs_Generation (f r) = rs_Generation r)"

definition inert :: "(('w, 'a) exchange \<Rightarrow> bool) \<Rightarrow> bool" where
  "inert I \<longleftrightarrow> (\<forall>x f. mild f \<longrightarrow> I x \<longrightarrow> I (x\<lparr>ex_response := f (ex_response x)\<rparr>)) \<and>
     (\<forall>x a e. I x \<longrightarrow> I (x\<lparr>ex_session := (ex_session x)\<lparr>ss_transition := e\<rparr>, ex_arena := a\<rparr>)) \<and>
     (\<forall>x w. I x \<longrightarrow> I (x\<lparr>ex_session := (ex_session x)\<lparr>ss_closure := (ss_closure (ex_session x))\<lparr>cl_backend := w\<rparr>\<rparr>\<rparr>))"

lemma inert_response: "inert I \<Longrightarrow> mild f \<Longrightarrow> I x \<Longrightarrow> I (x\<lparr>ex_response := f (ex_response x)\<rparr>)"
  and inert_encoder: "inert I \<Longrightarrow> I x \<Longrightarrow> I (x\<lparr>ex_session := (ex_session x)\<lparr>ss_transition := e\<rparr>, ex_arena := a\<rparr>)"
  and inert_backend:
    "inert I \<Longrightarrow> I x \<Longrightarrow> I (x\<lparr>ex_session := (ex_session x)\<lparr>ss_closure := (ss_closure (ex_session x))\<lparr>cl_backend := w\<rparr>\<rparr>\<rparr>)"
  by (auto simp: inert_def)

lemma inert_conj: "inert I \<Longrightarrow> inert J \<Longrightarrow> inert (\<lambda>x. I x \<and> J x)"
  by (simp add: inert_def)

lemma mild_updates [simp]:
  "mild (rs_TableTransition_update f)" "mild (rs_SymbolEvidence_update g)" "mild (rs_ReferenceEvidence_update g)"
  "mild (\<lambda>r. r\<lparr>rs_ChangedReferenceSymbols := ids, rs_ReferenceChangesExact := exact\<rparr>)" "mild (rs_Timings_update h)"
  "mild (\<lambda>r. r\<lparr>rs_SourceArena := path, rs_Sources := descriptors, rs_SourceLengths := lengths\<rparr>)"
  "mild (\<lambda>r. r\<lparr>rs_Modules := mods, rs_ModuleImports := imports, rs_UnknownImportPaths := unknown\<rparr>)"
  by (simp_all add: mild_def)

lemma keeps_respond: "inert I \<Longrightarrow> mild f \<Longrightarrow> keeps I (respond f)"
  unfolding respond_def by (rule keeps_modS) (rule inert_response)

text \<open>A predicate that does not read the error of the response, and what a failure leaves of it.\<close>

definition tolerant :: "(('w, 'a) exchange \<Rightarrow> bool) \<Rightarrow> bool" where
  "tolerant K \<longleftrightarrow> (\<forall>x e. K x \<longrightarrow> K (x\<lparr>ex_response := (ex_response x)\<lparr>rs_Error := Some e\<rparr>\<rparr>))"

definition reported :: "(('w, 'a) exchange \<Rightarrow> bool) \<Rightarrow> ('w, 'a) exchange \<Rightarrow> bool" where
  "reported K x \<longleftrightarrow> K x \<and> rs_Error (ex_response x) \<noteq> None"

lemma wp_failWith: "tolerant K \<Longrightarrow> K x \<Longrightarrow> wp (failWith code err) Q (\<lambda>_. reported K) x"
  by (simp add: failWith_def respond_def wp_rules reported_def tolerant_def)

lemma wp_poll: "inert I \<Longrightarrow> I x \<Longrightarrow> (\<And>r x. I x \<Longrightarrow> Q r x) \<Longrightarrow> wp (inClosure (pollErr env)) Q E x"
  unfolding inClosure_def wp_partS
  by (auto simp: wp_def pollErr_def intro: inert_backend split: prod.split)

lemma wp_failCancelled:
  assumes "inert K" and "tolerant K" and "K x"
  shows "wp (failCancelled env code err) Q (\<lambda>_. reported K) x"
  unfolding failCancelled_def wp_bindS
  by (rule wp_poll[OF assms(1,3)]) (auto split: option.split intro: wp_failWith assms(2))

lemma wp_stopIfCancelled:
  assumes "inert I" and "I x" and "tolerant K" and "\<And>x. I x \<Longrightarrow> K x"
  shows "wp (stopIfCancelled env) (\<lambda>_. I) (\<lambda>_. reported K) x"
  unfolding stopIfCancelled_def wp_bindS
  by (rule wp_poll[OF assms(1,2)]) (auto split: option.split intro: wp_failWith assms(3,4) simp: wp_retS)

lemma keeps_inClosure_backend: "inert I \<Longrightarrow> keeps I (inClosure (backendS m))"
  unfolding inClosure_def
  by (rule keepsI, unfold wp_partS, rule wp_backendS) (auto intro: inert_backend)

lemma keeps_whenOpen: "inert I \<Longrightarrow> keeps I (inClosure (backendS m)) \<Longrightarrow> keeps I (inClosure (whenOpen (backendS m)))"
  unfolding inClosure_def keeps_def wp_partS whenOpen_def
  by (auto simp: wp_rules)

lemma keeps_sessionEncode: "inert I \<Longrightarrow> keeps I (sessionEncode env arena input)"
  by (rule keepsI) (auto simp: wp_def outcome_def sessionEncode_def Let_def split: prod.split sum.split intro: inert_encoder)

lemma keeps_evidence:
  assumes "inert I"
  shows "keeps I (populateSymbolEvidence env request arena)"
  unfolding populateSymbolEvidence_def packEvidence_def populateReferences_def resolveSymbolEvidence_def
    changedReferences_def releaseBackendAnalysisState_def
  by (intro keeps_rules keeps_whenOpen keeps_inClosure_backend keeps_respond keeps_sessionEncode assms mild_updates)

lemma keeps_attachTransition: "inert I \<Longrightarrow> keeps I (attachTransition table transition)"
  unfolding attachTransition_def by (intro keeps_rules keeps_respond mild_updates)

section \<open>The demand transaction\<close>

definition cores :: "retainedDemandStore \<Rightarrow> demandGroup list" where
  "cores s = map group_core (rds_groups s)"

definition all_located :: "retainedDemandStore \<Rightarrow> bool" where
  "all_located s \<longleftrightarrow> (\<forall>g \<in> set (rds_groups s). located g)"

text \<open>The demand set is fixed by its cores, up to the caches of the groups.\<close>

lemma groups_ok_cores:
  assumes "groups_ok (rds_groups s)" and "cores s' = cores s" and "all_located s'"
  shows "groups_ok (rds_groups s')"
proof -
  have paths: "map dg_path (rds_groups s') = map dg_path (rds_groups s)"
    using arg_cong[OF assms(2), of "map dg_path"] by (simp add: cores_def dg_path_core comp_def)
  have "Clean (dg_path g) = dg_path g" if "g \<in> set (rds_groups s')" for g
  proof -
    have "dg_path g \<in> set (map dg_path (rds_groups s))" using that unfolding paths[symmetric] by simp
    then show ?thesis using assms(1) by (auto simp: groups_ok_def)
  qed
  then show ?thesis using assms(1,3) paths by (simp add: groups_ok_def strict_keys_def all_located_def)
qed

text \<open>Every group that a transaction can bring back lies in its file.\<close>

definition log_located :: "demandState \<Rightarrow> bool" where
  "log_located st \<longleftrightarrow> all_located (fst st) \<and> (\<forall>u \<in> set (tx_undo (snd st)). located (du_previous u)) \<and>
     (\<forall>g \<in> set (tx_resetOld (snd st)). located g)"

lemma located_zero [simp]: "located zeroDemandGroup"
  by (simp add: located_def zeroDemandGroup_def elems_def)

lemma log_located_replace: "log_located st \<Longrightarrow> located g \<Longrightarrow> log_located (tx_replace g st)"
  using search_key_le[of dg_path "rds_groups (fst st)" "dg_path g"]
  by (auto simp: log_located_def all_located_def tx_replace_def Let_def order_le_less split: prod.splits
    dest!: set_update_subset_insert[THEN subsetD])

lemma log_located_remove:
  assumes "log_located st"
  shows "log_located (tx_remove path st)"
proof -
  obtain s t where st: "st = (s, t)" by force
  let ?i = "search_key dg_path (rds_groups s) path"
  have gone: "\<forall>g \<in> set (delete_at ?i (rds_groups s)). located g"
    using assms set_delete_at_subset[of ?i "rds_groups s"] by (auto simp: st log_located_def all_located_def)
  have "located (rds_groups s ! ?i)" if "?i \<noteq> length (rds_groups s)"
  proof -
    have "?i < length (rds_groups s)" using that search_key_le[of dg_path "rds_groups s" path] by linarith
    then show ?thesis using assms by (simp add: st log_located_def all_located_def)
  qed
  then show ?thesis
    using assms gone
    by (auto simp: st log_located_def all_located_def tx_remove_def Let_def)
qed

lemma log_located_fold:
  "(\<And>x st. x \<in> set xs \<Longrightarrow> log_located st \<Longrightarrow> log_located (f x st)) \<Longrightarrow> log_located st \<Longrightarrow> log_located (fold f xs st)"
  by (induction xs arbitrary: st) auto

lemma log_located_beginRuns:
  assumes "all_located s" and "\<forall>g \<in> set runs. located g"
  shows "log_located (beginRuns runs removed reset s)"
  unfolding beginRuns_def Let_def
  by (intro log_located_fold log_located_remove log_located_replace)
    (use assms in \<open>auto simp: log_located_def all_located_def\<close>)

lemma all_located_undo:
  "\<forall>g \<in> set gs. located g \<Longrightarrow> \<forall>u \<in> set us. located (du_previous u) \<Longrightarrow> g \<in> set (foldr undoStep us gs) \<Longrightarrow> located g"
proof (induction us arbitrary: g)
  case (Cons u us)
  then have rest: "\<forall>g \<in> set (foldr undoStep us gs). located g" by simp
  have "set (undoStep u (foldr undoStep us gs)) \<subseteq> insert (du_previous u) (set (foldr undoStep us gs))"
    using set_delete_at_subset[of "du_index u" "foldr undoStep us gs"]
      set_update_subset_insert[of "foldr undoStep us gs" "du_index u" "du_previous u"]
    by (auto simp: undoStep_def split: demandUndoKind.split)
  then show ?case using Cons.prems rest by auto
qed simp

text \<open>What a request in progress knows of its transaction.\<close>

definition transacted :: "retainedDemandStore \<Rightarrow> retainedDemandStore \<Rightarrow> retainedDemandTransaction \<Rightarrow> bool" where
  "transacted before begun t \<longleftrightarrow> groups_ok (rds_groups begun) \<and>
     (\<forall>path \<in> set (tx_changedPaths t). Clean path = path) \<and>
     (\<forall>s. cores s = cores begun \<and> all_located s \<longrightarrow>
        cores (fst (tx_rollback (s, t))) = cores before \<and> all_located (fst (tx_rollback (s, t))))"

lemma transacted_beginRuns:
  assumes "groups_ok (rds_groups s)" and "beginRuns runs removed reset s = (s', t)"
    and "\<forall>g \<in> set runs. Clean (dg_path g) = dg_path g \<and> located g"
  shows "transacted s s' t"
proof -
  have located: "all_located s" using assms(1) by (simp add: all_located_def groups_ok_def)
  have log: "log_located (s', t)" using log_located_beginRuns[OF located, of runs removed reset] assms(2,3) by simp
  have "store_ok s" using assms(1) by (simp add: store_ok_def groups_ok_def)
  then have "store_ok s'" using beginRuns_effect[of s runs removed reset] assms(2,3) by simp
  then have "groups_ok (rds_groups s')" using log by (auto simp: store_ok_def groups_ok_def log_located_def all_located_def)
  moreover have "\<forall>path \<in> set (tx_changedPaths t). Clean path = path"
    using tx_changedPaths_beginRuns[of runs removed reset s] assms(2,3) by (auto simp: Clean_idem)
  moreover have "cores (fst (tx_rollback (x, t))) = cores s" if "cores x = cores s'" for x
    using rollback_beginRuns[OF assms(2), of x] that by (simp add: cores_def)
  moreover have "all_located (fst (tx_rollback (x, t)))" if "all_located x" for x
    using that log all_located_undo[of "rds_groups x" "tx_undo t"]
    by (auto simp: tx_rollback_def tx_finish_def log_located_def all_located_def)
  ultimately show ?thesis by (simp add: transacted_def)
qed

lemma canonicalGroup_located: "Clean path = path \<Longrightarrow> located (canonicalGroup changes path)"
  by (auto simp: located_def canonicalGroup_def elems_def cleanDemand_def cleanLocation_def demand_path_def)

lemma transacted_plain:
  assumes "groups_ok (rds_groups s)" and "begin_demands changes removed reset s = (s', t)"
  shows "transacted s s' t"
  using assms(2) unfolding begin_demands_runs
  by (rule transacted_beginRuns[OF assms(1)])
    (auto simp: canonicalGroup_located demand_path_def Clean_idem, simp add: canonicalGroup_def Clean_idem)

lemma compactGroups_located:
  "map_result (compactGroup strings) gs = Inr runs \<Longrightarrow> g \<in> set runs \<Longrightarrow> located g"
proof (induction gs arbitrary: runs)
  case (Cons c gs)
  moreover have "located (g\<lparr>dg_path := path, dg_compact := c, dg_strings := strs\<rparr>)"
    if "g = zeroDemandGroup" for g path strs using that by (simp add: located_def zeroDemandGroup_def elems_def)
  ultimately show ?case by (auto simp: bind_result_eq_Inr_iff compactGroup_def)
qed simp

lemma transacted_compact:
  assumes "groups_ok (rds_groups s)" and "beginCompact compact removed reset s = Inr (s', t)"
  shows "transacted s s' t"
proof -
  obtain runs where runs: "map_result (compactGroup (cd_Strings compact)) (cd_Groups compact) = Inr runs"
    "beginRuns (sort_key dg_path runs) removed reset s = (s', t)"
    using assms(2) by (auto simp: beginCompact_def bind_result_eq_Inr_iff Let_def split: option.splits)
  show ?thesis
    using runs(2) by (rule transacted_beginRuns[OF assms(1)])
      (auto intro: compactGroups_clean[OF runs(1)] compactGroups_located[OF runs(1)])
qed

section \<open>The frame of an analysis\<close>

text \<open>The published state of a session, which a request changes only when it succeeds.\<close>

definition same_published :: "'w Session \<Rightarrow> 'w Session \<Rightarrow> bool" where
  "same_published s s' \<longleftrightarrow> ss_token s' = ss_token s \<and> ss_tokenText s' = ss_tokenText s \<and>
     ss_table s' = ss_table s \<and> ss_projectID s' = ss_projectID s \<and> ss_schema s' = ss_schema s \<and>
     ss_sourceArenaPath s' = ss_sourceArenaPath s \<and> ss_closed s' = ss_closed s \<and> ss_closeErr s' = ss_closeErr s \<and>
     cl_generation (ss_closure s') = cl_generation (ss_closure s) \<and>
     cl_closed (ss_closure s') = cl_closed (ss_closure s)"

text \<open>An analysis in progress, and one whose closure may have been left half way.\<close>

definition pending :: "'w Session \<Rightarrow> retainedDemandStore \<Rightarrow> ('w, 'a) exchange \<Rightarrow> bool" where
  "pending s begun x \<longleftrightarrow> same_published s (ex_session x) \<and> transacted (ss_demands s) begun (ex_transaction x) \<and>
     cores (ss_demands (ex_session x)) = cores begun \<and> all_located (ss_demands (ex_session x))"

definition analyzing :: "'w Session \<Rightarrow> retainedDemandStore \<Rightarrow> ('w, 'a) exchange \<Rightarrow> bool" where
  "analyzing s begun x \<longleftrightarrow> pending s begun x \<and> closure_ok (ss_closure (ex_session x))"

lemma inert_pending: "inert (pending s begun)"
  by (simp add: inert_def pending_def same_published_def)

lemma inert_analyzing: "inert (analyzing s begun)"
  by (simp add: inert_def analyzing_def pending_def same_published_def)

lemma analyzing_groups: "analyzing s begun x \<Longrightarrow> groups_ok (rds_groups (ss_demands (ex_session x)))"
  by (auto simp: analyzing_def pending_def transacted_def intro: groups_ok_cores)

lemma tabled_frame:
  assumes "closure_ok p" and "groups_ok gs" and "tabled p gs generation t r"
  shows "closure_ok (run_closure r)" and "map group_core (run_groups r) = map group_core gs"
    and "\<forall>g \<in> set (run_groups r). located g" and "cl_generation (run_closure r) = cl_generation p"
    and "cl_closed (run_closure r) = cl_closed p"
proof -
  have "closure_ok (run_closure r) \<and> map group_core (run_groups r) = map group_core gs \<and>
    (\<forall>g \<in> set (run_groups r). located g) \<and> cl_generation (run_closure r) = cl_generation p \<and>
    cl_closed (run_closure r) = cl_closed p"
  proof (cases "cl_table p")
    case (Some t')
    then show ?thesis using assms by (simp add: tabled_def groups_ok_def)
  next
    case None
    then obtain r2 stats where m: "materialized p gs generation t r2"
      "r = r2\<lparr>run_closure := (run_closure r2)\<lparr>cl_table := Some t, cl_stats := stats\<rparr>\<rparr>"
      using assms(3) by (auto simp: tabled_def)
    obtain r3 changed where st: "settled p gs changed r3" "run_groups r2 = map releaseExpanded (run_groups r3)"
      "cl_generation (run_closure r2) = cl_generation p" "cl_closed (run_closure r2) = cl_closed p"
      using materialized_facts[OF assms(1,2) m(1)] by metis
    have fr: "framed p gs r3" using st(1) by (simp add: settled_def)
    have "closure_ok ((run_closure r2)\<lparr>cl_table := Some t\<rparr>)" by (rule closure_ok_materialized(1)[OF assms(1,2) m(1)])
    moreover have "groups_ok (run_groups r2)" by (rule closure_ok_materialized(2)[OF assms(1,2) m(1)])
    moreover have "map group_core (run_groups r2) = map group_core gs"
      using fr unfolding st(2) by (simp add: framed_def releaseExpanded_core comp_def)
    ultimately show ?thesis using st(3,4) m(2) closure_ok_updates(4)[where p = "(run_closure r2)\<lparr>cl_table := Some t\<rparr>"]
      by (simp add: groups_ok_def)
  qed
  then show "closure_ok (run_closure r)" "map group_core (run_groups r) = map group_core gs"
    "\<forall>g \<in> set (run_groups r). located g" "cl_generation (run_closure r) = cl_generation p"
    "cl_closed (run_closure r) = cl_closed p" by simp_all
qed

lemma analyzedTable_wp:
  assumes "analyzing s begun x"
  shows "wp (analyzedTable env generation) (\<lambda>t. analyzing s begun) (\<lambda>e. pending s begun) x"
proof -
  let ?p = "ss_closure (ex_session x)" and ?gs = "rds_groups (ss_demands (ex_session x))"
    and ?paths = "tx_changedPaths (ex_transaction x)"
  note gs = analyzing_groups[OF assms]
  have ok: "closure_ok (discardChanged ?paths ?p)"
    using assms by (intro closure_ok_discard(1)) (auto simp: analyzing_def pending_def transacted_def)
  have gen: "cl_generation (discardChanged ?paths ?p) = cl_generation ?p"
    "cl_closed (discardChanged ?paths ?p) = cl_closed ?p"
    by (simp_all add: discardChanged_def Let_def split: option.split)
  have "wp (demandTableForCanonicalGroups (se_closure env) generation ?paths)
      (\<lambda>t r. closure_ok (run_closure r) \<and> map group_core (run_groups r) = map group_core ?gs \<and>
        (\<forall>g \<in> set (run_groups r). located g) \<and> cl_generation (run_closure r) = cl_generation ?p \<and>
        cl_closed (run_closure r) = cl_closed ?p)
      (\<lambda>e r. map group_core (run_groups r) = map group_core ?gs \<and> (\<forall>g \<in> set (run_groups r). located g) \<and>
        cl_generation (run_closure r) = cl_generation ?p \<and> cl_closed (run_closure r) = cl_closed ?p)
      \<lparr>run_closure = ?p, run_groups = ?gs\<rparr>"
    unfolding demandTableForCanonicalGroups_def
    by (rule wp_mono[OF demandTable_wp[OF gs]])
      (use tabled_frame[OF ok gs] gen in \<open>auto simp: framed_def extends_def\<close>)
  then have "wp (partS
       (\<lambda>x. \<lparr>run_closure = ss_closure (ex_session x), run_groups = rds_groups (ss_demands (ex_session x))\<rparr>)
       (\<lambda>r x. x\<lparr>ex_session := (ex_session x)\<lparr>ss_closure := run_closure r,
          ss_demands := \<lparr>rds_groups = run_groups r\<rparr>\<rparr>\<rparr>)
       (demandTableForCanonicalGroups (se_closure env) generation ?paths)) (\<lambda>t. analyzing s begun)
     (\<lambda>e. pending s begun) x"
    unfolding wp_partS
    by (rule wp_mono)
      (use assms in \<open>auto simp: analyzing_def pending_def same_published_def cores_def all_located_def\<close>)
  then show ?thesis by (simp add: wp_def analyzedTable_def)
qed

lemma analyzing_pending: "analyzing s begun x \<Longrightarrow> pending s begun x"
  by (simp add: analyzing_def)

lemma wp_inert: "inert I \<Longrightarrow> (inert I \<Longrightarrow> keeps I m) \<Longrightarrow> I x \<Longrightarrow> wp m (\<lambda>_. I) (\<lambda>_. I) x"
  by (auto intro: keepsD)

lemma encodeTransition_wp:
  assumes "analyzing s begun x"
  shows "wp (encodeTransition env arena reset generation table) (\<lambda>_. analyzing s begun) (\<lambda>_. pending s begun) x"
proof -
  have enc: "wp (sessionEncode env arena input) (\<lambda>_. analyzing s begun) (\<lambda>_. analyzing s begun) y"
    if "analyzing s begun y" for y input
    using that by (intro keepsD keeps_sessionEncode inert_analyzing)
  have enc': "wp (sessionEncode env arena input) (\<lambda>_. analyzing s begun) (\<lambda>_. pending s begun) y"
    if "analyzing s begun y" for y input
    by (rule wp_mono[OF enc[OF that]]) (auto intro: analyzing_pending)
  have forced: "analyzing s begun (y\<lparr>ex_session := (ex_session y)\<lparr>ss_closure := forceFullMaterialization (ss_closure (ex_session y))\<rparr>\<rparr>)"
    if "analyzing s begun y" for y
    using that closure_ok_reset[of "ss_closure (ex_session y)"]
    by (auto simp: analyzing_def pending_def same_published_def forceFullMaterialization_def resetAnalysisStateLocked_def)
  have rebuild: "wp (bindS (inClosure (modS forceFullMaterialization)) (\<lambda>_.
         bindS (analyzedTable env generation) (\<lambda>table.
         bindS (sessionEncode env arena (f table)) (\<lambda>transition. retS (table, transition)))))
       (\<lambda>_. analyzing s begun) (\<lambda>_. pending s begun) y" if "analyzing s begun y" for y f
    unfolding wp_bindS inClosure_def wp_partS wp_modS wp_retS
    by (rule wp_mono[OF analyzedTable_wp[OF forced[OF that]] enc'])
  show ?thesis
    unfolding encodeTransition_def wp_bindS wp_getS wp_catchS wp_retS
    by (rule wp_mono[OF enc[OF assms]]) (use rebuild in \<open>auto simp: wp_failS intro: analyzing_pending\<close>)
qed

text \<open>Only an input with a base encodes as a delta.\<close>

lemma encodePlanned_mode:
  "fst (encodePlanned input target mode baseGeneration arena a e) = Inr transition \<Longrightarrow> et_Mode transition = mode"
  by (auto simp: encodePlanned_def Let_def split: prod.splits sum.splits option.splits)

lemma encode_mode:
  assumes "fst (encode shared input arena a e) = Inr transition" and "et_Mode transition = wireTransitionDelta"
  shows "wi_Base input \<noteq> None"
proof
  assume "wi_Base input = None"
  then have "mode = wireTransitionFull" if "validateWireTransitionInput input = Inr (mode, generation)" for mode generation
    using that by (auto simp: validateWireTransitionInput_def split: option.splits if_splits)
  then show False
    using assms
    by (auto simp: encode_def wireTransitionFull_def wireTransitionDelta_def noopDelta_def
      split: sum.splits option.splits prod.splits if_splits dest!: encodePlanned_mode)
qed

lemma sessionEncode_mode:
  "wp (sessionEncode env arena input) (\<lambda>transition _. et_Mode transition = wireTransitionDelta \<longrightarrow> wi_Base input \<noteq> None)
     (\<lambda>_ _. True) x"
proof -
  obtain r e a where run: "(case arena of
      None \<Rightarrow> Encode (se_shared env) input (ex_arena x) (ss_transition (ex_session x))
    | Some ta \<Rightarrow> EncodeInto (se_shared env) input (Some ta) (ex_arena x) (ss_transition (ex_session x))) = (r, e, a)"
    by (metis prod_cases3)
  have "r = Inr transition \<Longrightarrow> et_Mode transition = wireTransitionDelta \<Longrightarrow> wi_Base input \<noteq> None" for transition
    using run encode_mode[of "se_shared env" input None "ex_arena x" "ss_transition (ex_session x)"]
      encode_mode[of "se_shared env" input arena "ex_arena x" "ss_transition (ex_session x)"]
    by (auto simp: Encode_def EncodeInto_def split: option.splits)
  then show ?thesis by (cases r) (simp_all add: wp_def sessionEncode_def Let_def run)
qed

lemma encodeTransition_mode:
  assumes "ss_table (ex_session x) = table"
  shows "wp (encodeTransition env arena reset generation target)
    (\<lambda>(_, transition) _. et_Mode transition = wireTransitionDelta \<longrightarrow> table \<noteq> None) (\<lambda>_ _. True) x"
proof -
  have base: "wi_Base (transitionInput reset target (ex_session x)) \<noteq> None \<Longrightarrow> table \<noteq> None"
    using assms by (auto simp: transitionInput_def Let_def split: if_splits)
  have keep: "wp m (\<lambda>_ _. True) (\<lambda>_ _. True) y" for m :: "('s, 'v) proc" and y
    by (simp add: wp_def outcome_def split: prod.split sum.split)
  show ?thesis
    unfolding encodeTransition_def wp_bindS wp_getS wp_catchS wp_retS
  proof (rule wp_mono[OF sessionEncode_mode])
    fix e :: go_error and y :: "('a, 'b) exchange"
    show "wp (if e = ErrSparseTransitionUnavailable
         then bindS (inClosure (modS forceFullMaterialization)) (\<lambda>_.
           bindS (analyzedTable env generation) (\<lambda>table'. bindS (sessionEncode env arena
               (transitionInput reset target (ex_session x)\<lparr>wi_Base := None, wi_BaseStateToken := [],
                  wi_Target := Some table', wi_Sparse := False\<rparr>)) (\<lambda>transition. retS (table', transition))))
         else failS e) (\<lambda>(_, transition) _. et_Mode transition = wireTransitionDelta \<longrightarrow> table \<noteq> None) (\<lambda>_ _. True) y"
      by (auto simp: wp_failS wp_bindS wp_retS intro!: wp_mono[OF keep] wp_mono[OF sessionEncode_mode])
  qed (use base in auto)
qed

section \<open>A whole transaction\<close>

lemma wp_seq: "wp m R E s \<Longrightarrow> (\<And>v s. R v s \<Longrightarrow> wp (k v) Q E s) \<Longrightarrow> wp (bindS m k) Q E s"
  unfolding wp_bindS by (rule wp_mono)

definition answering :: "u64 \<Rightarrow> ('w, 'a) exchange \<Rightarrow> bool" where
  "answering g x \<longleftrightarrow> rs_Generation (ex_response x) = g \<and> \<not> rs_OK (ex_response x)"

definition working ::
    "'w Session \<Rightarrow> retainedDemandStore \<Rightarrow> u64 \<Rightarrow> string \<Rightarrow> ('w, 'a) exchange \<Rightarrow> bool" where
  "working s begun g token x \<longleftrightarrow> analyzing s begun x \<and> answering g x \<and> rs_Error (ex_response x) = None \<and>
     rs_StateToken (ex_response x) = token"

definition failing :: "'w Session \<Rightarrow> retainedDemandStore \<Rightarrow> u64 \<Rightarrow> ('w, 'a) exchange \<Rightarrow> bool" where
  "failing s begun g x \<longleftrightarrow> pending s begun x \<and> answering g x"

lemma inert_working: "inert (working s begun g token)"
  unfolding working_def
  by (intro inert_conj inert_analyzing) (auto simp: inert_def answering_def mild_def)

lemma inert_failing: "inert (failing s begun g)"
  unfolding failing_def by (intro inert_conj inert_pending) (auto simp: inert_def answering_def mild_def)

lemma tolerant_failing: "tolerant (failing s begun g)"
  by (simp add: tolerant_def failing_def pending_def answering_def)

lemma working_failing: "working s begun g token x \<Longrightarrow> failing s begun g x"
  by (simp add: working_def failing_def analyzing_def)

lemma working_token: "working s begun g token x \<Longrightarrow>
    working s begun g token' (x\<lparr>ex_response := (ex_response x)\<lparr>rs_StateToken := token'\<rparr>\<rparr>)"
  by (simp add: working_def analyzing_def pending_def answering_def)

text \<open>The steps that do not answer.\<close>

lemma keeps_analyzedTable_response: "keeps (\<lambda>x. ex_response x = r) (analyzedTable env generation)"
proof (rule keepsI)
  fix x :: "('a, 'b) exchange"
  show "ex_response x = r \<Longrightarrow> wp (analyzedTable env generation) (\<lambda>_ x. ex_response x = r) (\<lambda>_ x. ex_response x = r) x"
    by (simp add: wp_def outcome_def analyzedTable_def partS_def split: prod.split sum.split)
qed

lemma keeps_sessionEncode_response: "keeps (\<lambda>x. ex_response x = r) (sessionEncode env arena input)"
  by (rule keepsI) (auto simp: wp_def outcome_def sessionEncode_def Let_def split: prod.split sum.split)

lemma keeps_encodeTransition_response: "keeps (\<lambda>x. ex_response x = r) (encodeTransition env arena reset generation table)"
  unfolding encodeTransition_def inClosure_def
  by (intro keeps_rules keeps_sessionEncode_response keeps_analyzedTable_response
      keeps_partS[where J = "\<lambda>_ _. True"] keeps_True) simp_all

lemma working_step:
  assumes "working s begun g token x"
    and "wp m (\<lambda>_. analyzing s begun) (\<lambda>_. pending s begun) x" and "\<And>r. keeps (\<lambda>x. ex_response x = r) m"
  shows "wp m (\<lambda>_. working s begun g token) (\<lambda>_. failing s begun g) x"
proof -
  have "wp m (\<lambda>_ y. ex_response y = ex_response x) (\<lambda>_ y. ex_response y = ex_response x) x"
    by (rule keepsD[OF assms(3)]) simp
  then have "wp m (\<lambda>_ y. analyzing s begun y \<and> ex_response y = ex_response x)
      (\<lambda>_ y. pending s begun y \<and> ex_response y = ex_response x) x"
    using assms(2) by (simp add: wp_conj)
  then show ?thesis
    by (rule wp_mono) (use assms(1) in \<open>auto simp: working_def failing_def answering_def\<close>)
qed

lemma wp_attachTransition:
  assumes "working s begun g token x" and "et_Mode transition = wireTransitionDelta \<Longrightarrow> ss_table s \<noteq> None"
  shows "wp (attachTransition table transition) (\<lambda>_. working s begun g token) E x"
proof -
  have "ss_table (ex_session x) = ss_table s"
    using assms(1) by (simp add: working_def analyzing_def pending_def same_published_def)
  then show ?thesis
    using assms inert_response[OF inert_working[of s begun g token] mild_updates(1)]
    by (auto simp: attachTransition_def respond_def wp_rules split: option.split)
qed

text \<open>What a transaction publishes, and what an abandoned one leaves.\<close>

definition committed ::
    "'w Session \<Rightarrow> retainedDemandStore \<Rightarrow> u64 \<Rightarrow> FactTable \<Rightarrow> ('w, 'a) exchange \<Rightarrow> bool" where
  "committed s begun g table x \<longleftrightarrow>
     same_published (s\<lparr>ss_token := ss_token s + 1, ss_tokenText := FormatUint (ss_token s + 1),
       ss_table := Some (retainedHeader table)\<rparr>) (ex_session x) \<and>
     cores (ss_demands (ex_session x)) = cores begun \<and> all_located (ss_demands (ex_session x)) \<and>
     closure_ok (ss_closure (ex_session x)) \<and> answering g x \<and> rs_Error (ex_response x) = None \<and>
     rs_StateToken (ex_response x) = FormatUint (ss_token s + 1)"

definition no_caches :: "'w DemandClosure \<Rightarrow> bool" where
  "no_caches p \<longleftrightarrow> cl_table p = None \<and> cl_previousTable p = None \<and> cl_transportChangedPaths p = None \<and>
     cl_asyncFiles p = None \<and> cl_lastSuppression p = None \<and> (\<forall>path. rcs_get (cl_retained p) path = None)"

definition rolled_back :: "'w Session \<Rightarrow> u64 \<Rightarrow> ('w, 'a) exchange \<Rightarrow> bool" where
  "rolled_back s g x \<longleftrightarrow> same_published s (ex_session x) \<and> cores (ss_demands (ex_session x)) = cores (ss_demands s) \<and>
     all_located (ss_demands (ex_session x)) \<and> closure_ok (ss_closure (ex_session x)) \<and>
     no_caches (ss_closure (ex_session x)) \<and> answering g x"

lemma abandon_rolled_back:
  assumes "failing s begun g x"
  shows "rolled_back s g (abandon x)" and "ex_response (abandon x) = ex_response x"
proof -
  obtain demands t where roll: "tx_rollback (ss_demands (ex_session x), ex_transaction x) = (demands, t)" by force
  then have "cores demands = cores (ss_demands s)" "all_located demands"
    using assms by (auto simp: failing_def pending_def transacted_def)
  moreover have "no_caches (abandonAnalysis p)" for p :: "'a DemandClosure"
    by (simp add: no_caches_def abandonAnalysis_def resetAnalysisStateLocked_def)
  ultimately show "rolled_back s g (abandon x)" "ex_response (abandon x) = ex_response x"
    using assms roll closure_ok_reset[of "ss_closure (ex_session x)"]
    by (simp_all add: rolled_back_def abandon_def Let_def failing_def pending_def same_published_def answering_def
      abandonAnalysis_def resetAnalysisStateLocked_def)
qed

lemma publish_committed:
  assumes "working s begun g (FormatUint (ss_token s + 1)) x"
  shows "wp (publish table) (\<lambda>_. committed s begun g table) E x"
proof -
  have "fst (tx_commit (demands, t)) = demands" for demands t by (simp add: tx_commit_def tx_finish_def)
  moreover have "cl_generation (releaseTransportRows p) = cl_generation p" "cl_closed (releaseTransportRows p) = cl_closed p"
    for p :: "'a DemandClosure" by (simp_all add: releaseTransportRows_def split: option.split)
  ultimately show ?thesis
    using assms closure_ok_release[of "ss_closure (ex_session x)"]
    by (auto simp: publish_def wp_modS Let_def committed_def working_def analyzing_def pending_def
      same_published_def answering_def split: prod.split dest: arg_cong[where f = fst])
qed

lemma stop_working:
  "working s begun g token x \<Longrightarrow> wp (stopIfCancelled env) (\<lambda>_. working s begun g token) (\<lambda>_. reported (failing s begun g)) x"
  by (rule wp_stopIfCancelled[OF inert_working]) (auto intro: tolerant_failing working_failing)

lemma evidence_working:
  assumes "working s begun g token x"
  shows "wp (if b then catchS (populateSymbolEvidence env request arena) (failCancelled env' code) else retS ())
    (\<lambda>_. working s begun g token) (\<lambda>_. reported (failing s begun g)) x"
proof -
  have "wp (catchS (populateSymbolEvidence env request arena) (failCancelled env' code))
      (\<lambda>_. working s begun g token) (\<lambda>_. reported (failing s begun g)) x"
    unfolding wp_catchS
    by (rule wp_mono[OF keepsD[OF keeps_evidence[OF inert_working] assms]])
      (auto intro: wp_failCancelled inert_failing tolerant_failing working_failing)
  then show ?thesis using assms by (simp add: wp_rules)
qed

lemma tabling_working:
  assumes "working s begun g token x"
  shows "wp (catchS (analyzedTable env generation) (failCancelled env' code))
    (\<lambda>_. working s begun g token) (\<lambda>_. reported (failing s begun g)) x"
  unfolding wp_catchS
proof (rule wp_mono[OF working_step[OF assms _ keeps_analyzedTable_response]])
  show "wp (analyzedTable env generation) (\<lambda>_. analyzing s begun) (\<lambda>_. pending s begun) x"
    using assms by (intro analyzedTable_wp) (simp add: working_def)
qed (auto intro: wp_failCancelled inert_failing tolerant_failing)

lemma encoding_working:
  assumes "working s begun g token x"
  shows "wp (catchS (encodeTransition env arena reset generation table) (failWith code))
    (\<lambda>(_, transition) y. working s begun g token y \<and> (et_Mode transition = wireTransitionDelta \<longrightarrow> ss_table s \<noteq> None))
    (\<lambda>_. reported (failing s begun g)) x"
proof -
  have "wp (encodeTransition env arena reset generation table) (\<lambda>_. analyzing s begun) (\<lambda>_. pending s begun) x"
    using assms by (intro encodeTransition_wp) (simp add: working_def)
  note step = working_step[OF assms this keeps_encodeTransition_response]
  have "ss_table (ex_session x) = ss_table s"
    using assms by (simp add: working_def analyzing_def pending_def same_published_def)
  note mode = encodeTransition_mode[OF this, of env arena reset generation table]
  have "wp (encodeTransition env arena reset generation table)
      (\<lambda>v y. working s begun g token y \<and> (case v of (_, transition) \<Rightarrow> et_Mode transition = wireTransitionDelta \<longrightarrow> ss_table s \<noteq> None))
      (\<lambda>e y. failing s begun g y \<and> True) x"
    using iffD2[OF wp_conj conjI[OF step mode]] by (simp add: split_def)
  then show ?thesis
    unfolding wp_catchS split_def by (rule wp_mono) (auto intro: wp_failWith tolerant_failing)
qed

lemma analyzeTransaction_wp:
  assumes "working s begun g token x"
  shows "wp (analyzeTransaction env arena request generation)
    (\<lambda>_ x. \<exists>table. committed s begun g table x) (\<lambda>_. reported (rolled_back s g)) x"
proof -
  have fail: "reported (rolled_back s g) (abandon y)" if "reported (failing s begun g) y" for y
    using that abandon_rolled_back[of s begun g y] by (simp add: reported_def)
  have timings: "working s begun g token (y\<lparr>ex_response := (ex_response y)\<lparr>rs_Timings := h\<rparr>\<rparr>)"
    if "working s begun g token y" for y token h
    using inert_response[OF inert_working mild_updates(5) that] by simp
  have token: "ss_token (ex_session y) = ss_token s" if "working s begun g token y" for y token
    using that by (simp add: working_def analyzing_def pending_def same_published_def)
  have body: "wp (bindS (getS (\<lambda>x. cs_BuildSequence (cl_stats (ss_closure (ex_session x))))) (\<lambda>buildSequence.
     bindS (catchS (analyzedTable env generation) (failCancelled env ''analysis-failed'')) (\<lambda>table.
     bindS (stopIfCancelled env) (\<lambda>_.
     bindS (getS (\<lambda>x. cl_stats (ss_closure (ex_session x)))) (\<lambda>stats.
     bindS (respond (\<lambda>r. r\<lparr>rs_Timings := Some (timingsOf buildSequence stats)\<rparr>)) (\<lambda>_.
     bindS (getS (\<lambda>x. FormatUint (ss_token (ex_session x) + 1))) (\<lambda>nextTokenText.
     bindS (respond (\<lambda>r. r\<lparr>rs_StateToken := nextTokenText\<rparr>)) (\<lambda>_.
     bindS (catchS (encodeTransition env arena (rq_ResetState request) generation table)
       (failWith ''assembly-failed'')) (\<lambda>(table, transition).
     bindS (attachTransition table transition) (\<lambda>_.
     bindS (stopIfCancelled env) (\<lambda>_.
     bindS (if rq_SymbolQueries request \<noteq> [] \<or> rq_ReferenceChanges request \<or> rq_ReleaseAnalysis request
            then catchS (populateSymbolEvidence env request None) (failCancelled env ''analysis-failed'')
            else retS ()) (\<lambda>_.
     bindS (stopIfCancelled env) (\<lambda>_.
     publish table)))))))))))))
     (\<lambda>_ x. \<exists>table. committed s begun g table x) (\<lambda>_. reported (failing s begun g)) x"
    unfolding wp_bindS[of "getS f" for f] wp_getS
    apply (rule wp_seq[OF tabling_working[OF assms]])
    apply (rule wp_seq[OF stop_working], assumption)
    unfolding wp_bindS[of "getS f" for f] wp_getS respond_def wp_bindS[of "modS f" for f] wp_modS
    apply (rule wp_seq[OF encoding_working])
     apply (rule working_token, erule timings)
    apply (clarsimp simp: token split del: if_split)
    apply (rule wp_seq[OF wp_attachTransition], assumption, blast)
    apply (rule wp_seq[OF stop_working], assumption)
    apply (rule wp_seq[OF evidence_working], assumption)
    apply (rule wp_seq[OF stop_working], assumption)
    apply (rule wp_mono[OF publish_committed[where E = "\<lambda>_ _. False"]])
      apply assumption
     apply blast
    apply simp
    done
  show ?thesis
    unfolding analyzeTransaction_def wp_deferS
    by (rule wp_mono[OF body]) (auto intro: fail)
qed

end
