(* ===== verification/Session_Requests.thy ===== *)
theory Session_Requests
  imports Session_Invariant
begin

text \<open>
  The effect of one lifecycle request on a session: the invariant of a session, the outcome of every
  operation, and the classification of all requests that the properties of the session rest on.
\<close>

section \<open>The invariant of a session\<close>

definition session_ok :: "'w Session \<Rightarrow> bool" where
  "session_ok s \<longleftrightarrow> closure_ok (ss_closure s) \<and> groups_ok (rds_groups (ss_demands s)) \<and>
     ss_closed s = cl_closed (ss_closure s) \<and>
     ss_tokenText s = (if ss_table s = None then [] else FormatUint (ss_token s))"

lemma session_ok_new:
  assumes "newSession env projectID w = (Inr s, w')"
  shows "session_ok s"
  using assms closure_ok_new[of w]
  by (auto simp: newSession_def session_ok_def groups_ok_def newDemandClosure_def split: if_splits)

lemma session_ok_located: "session_ok s \<Longrightarrow> all_located (ss_demands s)"
  by (simp add: session_ok_def groups_ok_def all_located_def)

lemmas operations = LifecycleOpen_def LifecycleUpdate_def LifecycleAnalyze_def LifecycleSymbols_def
  LifecycleSources_def LifecycleModules_def LifecycleCancel_def LifecycleClose_def

section \<open>Requests that read\<close>

text \<open>A read moves the environment, the scratch state of the encoder and the source arena file only.\<close>

definition reads :: "'w Session \<Rightarrow> 'w Session \<Rightarrow> bool" where
  "reads s s' \<longleftrightarrow> (\<exists>w e path. s' = s\<lparr>ss_closure := (ss_closure s)\<lparr>cl_backend := w\<rparr>, ss_transition := e,
     ss_sourceArenaPath := path\<rparr>)"

lemma reads_refl: "reads s s"
  by (auto simp: reads_def intro!: exI[of _ "cl_backend (ss_closure s)"] exI[of _ "ss_transition s"] exI[of _ "ss_sourceArenaPath s"])

lemma reads_updates:
  assumes "reads s s'"
  shows "reads s (s'\<lparr>ss_closure := (ss_closure s')\<lparr>cl_backend := w\<rparr>\<rparr>)"
    and "reads s (s'\<lparr>ss_transition := e\<rparr>)" and "reads s (s'\<lparr>ss_sourceArenaPath := path\<rparr>)"
proof -
  obtain w' e' path' where s': "s' = s\<lparr>ss_closure := (ss_closure s)\<lparr>cl_backend := w'\<rparr>, ss_transition := e',
      ss_sourceArenaPath := path'\<rparr>"
    using assms by (auto simp: reads_def)
  show "reads s (s'\<lparr>ss_closure := (ss_closure s')\<lparr>cl_backend := w\<rparr>\<rparr>)"
    unfolding reads_def by (intro exI[of _ w] exI[of _ e'] exI[of _ path']) (simp add: s')
  show "reads s (s'\<lparr>ss_transition := e\<rparr>)"
    unfolding reads_def by (intro exI[of _ w'] exI[of _ e] exI[of _ path']) (simp add: s')
  show "reads s (s'\<lparr>ss_sourceArenaPath := path\<rparr>)"
    unfolding reads_def by (intro exI[of _ w'] exI[of _ e'] exI[of _ path]) (simp add: s')
qed

lemmas reads_backend = reads_updates(1)
  and reads_encoder = reads_updates(2)
  and reads_arena = reads_updates(3)

lemma reads_fields:
  assumes "reads s s'"
  shows "ss_token s' = ss_token s" "ss_tokenText s' = ss_tokenText s" "ss_table s' = ss_table s"
    "ss_projectID s' = ss_projectID s" "ss_schema s' = ss_schema s" "ss_demands s' = ss_demands s"
    "ss_closed s' = ss_closed s" "ss_closeErr s' = ss_closeErr s"
    "cl_generation (ss_closure s') = cl_generation (ss_closure s)" "session_ok s' = session_ok s"
  using assms by (auto simp: reads_def session_ok_def)

definition asked :: "'w Session \<Rightarrow> ('w, 'a) exchange \<Rightarrow> bool" where
  "asked s x \<longleftrightarrow> reads s (ex_session x) \<and> answering (cl_generation (ss_closure s)) x"

definition answered :: "'w Session \<Rightarrow> ('w, 'a) exchange \<Rightarrow> bool" where
  "answered s x \<longleftrightarrow> asked s x \<and> rs_Error (ex_response x) = None"

lemma inert_asked: "inert (asked s)"
  by (auto simp: inert_def asked_def answering_def mild_def reads_backend reads_encoder)

lemma inert_answered: "inert (answered s)"
  unfolding answered_def by (intro inert_conj inert_asked) (simp add: inert_def mild_def)

lemma tolerant_asked: "tolerant (asked s)"
  by (simp add: tolerant_def asked_def answering_def)

lemma answered_asked: "answered s x \<Longrightarrow> asked s x"
  by (simp add: answered_def)

lemma keeps_backend_call: "inert I \<Longrightarrow> keeps I (inClosure (whenOpen (backendS m)))"
  by (intro keeps_whenOpen keeps_inClosure_backend)


lemma exchange_same [simp]: "x\<lparr>ex_session := (ex_session x)\<lparr>ss_closure := ss_closure (ex_session x)\<rparr>\<rparr> = x"
  by simp

lemma keeps_ModuleGraph:
  assumes "inert I"
  shows "keeps I (inClosure (ModuleGraph env demand))"
proof (cases "cb_ModuleGraph env")
  case None
  then show ?thesis by (simp add: ModuleGraph_def keeps_def inClosure_def whenOpen_def wp_rules)
next
  case (Some provider)
  then show ?thesis using keeps_backend_call[OF assms] by (simp add: ModuleGraph_def)
qed

lemma keeps_os:
  "keeps (reads s) (inOS m)"
  unfolding inOS_def
proof (rule keeps_partS[where J = "\<lambda>_ _. True"])
  show "reads s s' \<Longrightarrow> reads s (s'\<lparr>ss_closure := (ss_closure s')\<lparr>cl_backend := p\<rparr>\<rparr>)" for s' p by (rule reads_backend)
qed (simp_all add: keeps_True)

lemma keeps_removeSourceArena: "keeps (reads s) (removeSourceArena env path)"
  unfolding removeSourceArena_def by (intro keeps_rules keeps_os)

lemma keeps_writeSourceArena: "keeps (reads s) (writeSourceArena env sources)"
  unfolding writeSourceArena_def ignoreErr_def
  by (intro keeps_rules keeps_os keeps_removeSourceArena) (auto intro: reads_arena)

lemma keeps_inSession: "keeps (reads s) m \<Longrightarrow> keeps (answered s) (inSession m)"
  unfolding inSession_def
  by (rule keeps_partS[where J = "\<lambda>_. reads s"]) (auto simp: answered_def asked_def answering_def)

text \<open>A read that keeps its response clean, with the error that a failing call reports.\<close>

lemma wp_reported:
  assumes "keeps (answered s) m" and "answered s x"
  shows "wp (catchS m (failWith code)) (\<lambda>_. answered s) (\<lambda>_. reported (asked s)) x"
    and "wp (catchS m (failCancelled env code)) (\<lambda>_. answered s) (\<lambda>_. reported (asked s)) x"
  unfolding wp_catchS
  by (rule wp_mono[OF keepsD[OF assms]];
      auto intro: wp_failWith wp_failCancelled inert_asked tolerant_asked answered_asked)+

lemma readSymbols_wp:
  assumes "answered s x"
  shows "wp (readSymbols env arena request) (\<lambda>_. answered s) (\<lambda>_. reported (asked s)) x"
  unfolding readSymbols_def wp_bindS wp_getS wp_if
  by (auto intro: wp_reported(2)[OF keeps_evidence[OF inert_answered] assms]
      wp_failWith[OF tolerant_asked answered_asked[OF assms]] split: if_split)

lemma respond_answered: "answered s x \<Longrightarrow> mild f \<Longrightarrow> answered s (x\<lparr>ex_response := f (ex_response x)\<rparr>)"
  by (rule inert_response[OF inert_answered])

lemma readSources_wp:
  assumes "answered s x"
  shows "wp (readSources env) (\<lambda>_. answered s) (\<lambda>_. reported (asked s)) x"
  unfolding readSources_def SourceFiles_def
  by (intro wp_seq[OF wp_reported(1)[OF keeps_backend_call[OF inert_answered] assms]]
      wp_seq[OF wp_reported(1)[OF keeps_inSession[OF keeps_writeSourceArena]]])
    (auto simp: respond_def wp_rules intro: respond_answered[OF _ mild_updates(6)])

lemma readModules_wp:
  assumes "answered s x"
  shows "wp (readModules env request) (\<lambda>_. answered s) (\<lambda>_. reported (asked s)) x"
  unfolding readModules_def
  by (rule wp_seq[OF wp_reported(2)[OF keeps_ModuleGraph[OF inert_answered] assms]])
    (auto simp: respond_def wp_rules intro: respond_answered[OF _ mild_updates(7)])

section \<open>Requests that write\<close>

text \<open>A request at its start, and the two ways it ends.\<close>

definition fresh :: "'w Session \<Rightarrow> ('w, 'a) exchange \<Rightarrow> bool" where
  "fresh s x \<longleftrightarrow> ex_session x = s \<and> answering (cl_generation (ss_closure s)) x \<and> rs_Error (ex_response x) = None"

definition succeeds :: "(LifecycleResponse \<Rightarrow> 'w Session \<Rightarrow> bool) \<Rightarrow> ('w, 'a) exchange \<Rightarrow> bool" where
  "succeeds P x \<longleftrightarrow> P (ex_response x) (ex_session x) \<and> answering (cl_generation (ss_closure (ex_session x))) x \<and>
     rs_Error (ex_response x) = None"

definition fails :: "('w Session \<Rightarrow> bool) \<Rightarrow> ('w, 'a) exchange \<Rightarrow> bool" where
  "fails P x \<longleftrightarrow> P (ex_session x) \<and> answering (cl_generation (ss_closure (ex_session x))) x \<and>
     rs_Error (ex_response x) \<noteq> None"

lemma fresh_answered: "fresh s x \<Longrightarrow> answered s x"
  by (auto simp: fresh_def answered_def asked_def reads_refl)

lemma answered_succeeds: "answered s x \<Longrightarrow> succeeds (\<lambda>_. reads s) x"
  by (auto simp: succeeds_def answered_def asked_def reads_fields)

lemma asked_fails: "reported (asked s) x \<Longrightarrow> fails (reads s) x"
  by (auto simp: fails_def reported_def asked_def reads_fields)

lemma failWith_fresh: "fresh s x \<Longrightarrow> wp (failWith code err) Q (\<lambda>_. fails (reads s)) x"
  by (rule wp_mono[OF wp_failWith[OF tolerant_asked answered_asked[OF fresh_answered]]]) (auto intro: asked_fails)

text \<open>An update.\<close>

definition changesOf :: "LifecycleRequest \<Rightarrow> FileChange list" where
  "changesOf request = map (\<lambda>c. \<lparr>fc_Path = fcv_Path c, fc_Version = fcv_Version c, fc_Source = fcv_Source c,
     fc_Deleted = fcv_Deleted c\<rparr>) (rq_Changes request)"

definition updated :: "'w SessionEnv \<Rightarrow> LifecycleRequest \<Rightarrow> 'w Session \<Rightarrow> LifecycleResponse \<Rightarrow> 'w Session \<Rightarrow> bool" where
  "updated env request s response s' \<longleftrightarrow> (\<exists>p. s' = s\<lparr>ss_closure := p\<rparr> \<and>
     Update (se_closure env) (changesOf request) (ss_closure s) = (Inr (rs_Affected response), p))"

lemma updateFiles_wp:
  assumes "fresh s x" and "session_ok s"
  shows "wp (updateFiles env request) (\<lambda>_. succeeds (updated env request s)) (\<lambda>_. fails (reads s)) x"
proof -
  have sym: "cl_symbolsByPath (ss_closure s) = []" using assms(2) by (simp add: session_ok_def closure_ok_def)
  have "wp (inClosure (Update (se_closure env) (changesOf request)))
    (\<lambda>affected y. ex_response y = ex_response x \<and>
      Update (se_closure env) (changesOf request) (ss_closure s) = (Inr affected, ss_closure (ex_session y)) \<and>
      ex_session y = s\<lparr>ss_closure := ss_closure (ex_session y)\<rparr>)
    (\<lambda>_. asked s) x"
  proof (cases rule: Update_cases[OF sym, of "se_closure env" "changesOf request"])
    case (1 e w)
    have "asked s (x\<lparr>ex_session := s\<lparr>ss_closure := (ss_closure s)\<lparr>cl_backend := w\<rparr>\<rparr>\<rparr>)"
      using assms(1) reads_backend[OF reads_refl[of s], of w] by (simp add: fresh_def asked_def answering_def)
    then show ?thesis unfolding inClosure_def wp_partS using 1 assms(1) by (simp add: wp_def fresh_def)
  next
    case (2 affected w store paths)
    then show ?thesis unfolding inClosure_def wp_partS using assms(1) by (simp add: wp_def fresh_def)
  qed
  then have "wp (catchS (inClosure (Update (se_closure env) (changesOf request))) (failWith ''update-failed''))
    (\<lambda>affected y. ex_response y = ex_response x \<and>
      Update (se_closure env) (changesOf request) (ss_closure s) = (Inr affected, ss_closure (ex_session y)) \<and>
      ex_session y = s\<lparr>ss_closure := ss_closure (ex_session y)\<rparr>)
    (\<lambda>_. reported (asked s)) x"
    unfolding wp_catchS by (rule wp_mono) (auto intro: wp_failWith tolerant_asked)
  then show ?thesis
    unfolding updateFiles_def changesOf_def[symmetric] wp_bindS wp_getS respond_def wp_modS
    by (rule wp_mono)
      (use assms(1) in \<open>auto simp: succeeds_def updated_def fresh_def answering_def intro: asked_fails\<close>)
qed

text \<open>An analysis: the demand set the request asks for, and its publication.\<close>

definition requested :: "LifecycleRequest \<Rightarrow> retainedDemandStore \<Rightarrow> retainedDemandStore \<Rightarrow> bool" where
  "requested request s s' \<longleftrightarrow> (case rq_CompactDemands request of
     Some compact \<Rightarrow> \<exists>t. beginCompact compact (rq_RemovedDemandPaths request) (rq_ResetState request) s = Inr (s', t)
   | None \<Rightarrow> s' = fst (begin_demands (rq_Demands request) (rq_RemovedDemandPaths request) (rq_ResetState request) s))"

definition published :: "LifecycleRequest \<Rightarrow> 'w Session \<Rightarrow> LifecycleResponse \<Rightarrow> 'w Session \<Rightarrow> bool" where
  "published request s response s' \<longleftrightarrow> (\<exists>begun table. requested request (ss_demands s) begun \<and>
     cores (ss_demands s') = cores begun \<and> groups_ok (rds_groups (ss_demands s')) \<and> closure_ok (ss_closure s') \<and>
     same_published (s\<lparr>ss_token := ss_token s + 1, ss_tokenText := FormatUint (ss_token s + 1),
       ss_table := Some (retainedHeader table)\<rparr>) s' \<and>
     rs_StateToken response = FormatUint (ss_token s + 1))"

definition rolled :: "'w Session \<Rightarrow> 'w Session \<Rightarrow> bool" where
  "rolled s s' \<longleftrightarrow> same_published s s' \<and> cores (ss_demands s') = cores (ss_demands s) \<and>
     all_located (ss_demands s') \<and> closure_ok (ss_closure s') \<and> no_caches (ss_closure s')"

lemma beginTransaction_wp:
  assumes "fresh s x" and "session_ok s"
  shows "wp (beginTransaction request)
    (\<lambda>_ y. \<exists>begun. requested request (ss_demands s) begun \<and>
      working s begun (cl_generation (ss_closure s)) (rs_StateToken (ex_response y)) y) (\<lambda>_. fails (reads s)) x"
proof -
  have gs: "groups_ok (rds_groups (ss_demands s))" "closure_ok (ss_closure s)"
    using assms(2) by (simp_all add: session_ok_def)
  have done': "working s demands (cl_generation (ss_closure s)) (rs_StateToken (ex_response x))
      (x\<lparr>ex_session := s\<lparr>ss_demands := demands\<rparr>, ex_transaction := t\<rparr>)"
    if "transacted (ss_demands s) demands t" for demands t
    using that assms(1) gs(2)
    by (auto simp: working_def analyzing_def pending_def same_published_def fresh_def answering_def
      transacted_def groups_ok_def all_located_def)
  have s: "ex_session x = s" using assms(1) by (simp add: fresh_def)
  show ?thesis
  proof (cases "rq_CompactDemands request")
    case None
    obtain demands t where run: "begin_demands (rq_Demands request) (rq_RemovedDemandPaths request)
        (rq_ResetState request) (ss_demands s) = (demands, t)" by force
    then show ?thesis using None done'[OF transacted_plain[OF gs(1) run]] s
      by (auto simp: wp_def beginTransaction_def Let_def requested_def)
  next
    case (Some compact)
    show ?thesis
    proof (cases "beginCompact compact (rq_RemovedDemandPaths request) (rq_ResetState request) (ss_demands s)")
      case (Inl e)
      then show ?thesis using Some s failWith_fresh[OF assms(1), where Q = "\<lambda>_ y. \<exists>begun. requested request (ss_demands s) begun \<and>
          working s begun (cl_generation (ss_closure s)) (rs_StateToken (ex_response y)) y"]
        by (simp add: wp_def beginTransaction_def Let_def)
    next
      case (Inr r)
      obtain demands t where r: "r = (demands, t)" by force
      show ?thesis using Some Inr r done'[OF transacted_compact[OF gs(1) Inr[unfolded r]]] s
        by (auto simp: wp_def beginTransaction_def Let_def requested_def)
    qed
  qed
qed

lemma committed_succeeds:
  assumes "committed s begun (cl_generation (ss_closure s)) table x" and "requested request (ss_demands s) begun"
    and "groups_ok (rds_groups begun)"
  shows "succeeds (published request s) x"
  using assms groups_ok_cores[OF assms(3), of "ss_demands (ex_session x)"]
  unfolding succeeds_def published_def committed_def
  by (auto simp: same_published_def)

lemma rolled_back_fails: "reported (rolled_back s (cl_generation (ss_closure s))) x \<Longrightarrow> fails (rolled s) x"
  by (auto simp: reported_def rolled_back_def fails_def rolled_def same_published_def)

definition analyzed :: "LifecycleRequest \<Rightarrow> 'w Session \<Rightarrow> LifecycleResponse \<Rightarrow> 'w Session \<Rightarrow> bool" where
  "analyzed request s response s' \<longleftrightarrow>
     (if nothingToAnalyze request (cl_generation (ss_closure s)) s then s' = s \<and> rs_StateToken response = ss_tokenText s
      else published request s response s')"

lemma analyze_wp:
  assumes "fresh s x" and "session_ok s"
  shows "wp (analyze env arena request (cl_generation (ss_closure s)))
    (\<lambda>_. succeeds (analyzed request s))
    (\<lambda>_. fails (\<lambda>s'. reads s s' \<or> rolled s s')) x"
proof -
  let ?g = "cl_generation (ss_closure s)" and ?Q = "succeeds (analyzed request s)"
    and ?E = "fails (\<lambda>s'. reads s s' \<or> rolled s s')"
  have s: "ex_session x = s" using assms(1) by (simp add: fresh_def)
  have stop: "wp (failWith code err) (\<lambda>_. ?Q) (\<lambda>_. ?E) x" for code err
    by (rule wp_mono[OF failWith_fresh[OF assms(1)]]) (auto simp: fails_def)
  have reuse: "succeeds (analyzed request s)
      (x\<lparr>ex_response := (ex_response x)\<lparr>rs_StateToken := ss_tokenText s, rs_Timings := h\<rparr>\<rparr>)"
    if "nothingToAnalyze request ?g s" for h
    using that assms(1) by (simp add: succeeds_def fresh_def analyzed_def answering_def)
  have run: "wp (bindS (beginTransaction request) (\<lambda>_. analyzeTransaction env arena request ?g)) (\<lambda>_. ?Q) (\<lambda>_. ?E) x"
    if new: "\<not> nothingToAnalyze request ?g s"
  proof (rule wp_seq[OF wp_mono[OF beginTransaction_wp[OF assms, of request]]])
    show "wp (analyzeTransaction env arena request ?g) (\<lambda>_. ?Q) (\<lambda>_. ?E) y"
      if some: "\<exists>begun. requested request (ss_demands s) begun \<and> working s begun ?g (rs_StateToken (ex_response y)) y" for y
    proof -
      obtain begun where b: "requested request (ss_demands s) begun" "working s begun ?g (rs_StateToken (ex_response y)) y"
        using some by blast
      then have ok: "groups_ok (rds_groups begun)" by (simp add: working_def analyzing_def pending_def transacted_def)
      show ?thesis
        by (rule wp_mono[OF analyzeTransaction_wp[OF b(2)]])
          (use new in \<open>auto dest!: committed_succeeds[OF _ b(1) ok] rolled_back_fails simp: succeeds_def fails_def analyzed_def\<close>)
    qed
  qed (auto simp: fails_def)
  show ?thesis
    using stop reuse run s by (auto simp: analyze_def wp_rules respond_def)
qed

text \<open>The end of a session.\<close>

lemma Close_session_fields:
  assumes "Close_session env s = (err, s')" and "session_ok s"
  shows "ss_closed s'" "ss_closeErr s' = err" "session_ok s'"
    "ss_token s' = ss_token s" "ss_tokenText s' = ss_tokenText s" "ss_table s' = ss_table s"
    "ss_projectID s' = ss_projectID s" "ss_schema s' = ss_schema s" "ss_demands s' = ss_demands s"
    "cl_generation (ss_closure s') = cl_generation (ss_closure s)"
proof -
  have "ss_closed s' \<and> ss_closeErr s' = err \<and> session_ok s' \<and> ss_token s' = ss_token s \<and>
    ss_tokenText s' = ss_tokenText s \<and> ss_table s' = ss_table s \<and> ss_projectID s' = ss_projectID s \<and>
    ss_schema s' = ss_schema s \<and> ss_demands s' = ss_demands s \<and>
    cl_generation (ss_closure s') = cl_generation (ss_closure s)"
  proof (cases "ss_closed s")
    case True
    then show ?thesis using assms by (auto simp: Close_session_def)
  next
    case False
    obtain w r where close: "cb_Close (se_closure env) (cl_backend (ss_closure s)) = (r, w)" by force
    let ?p = "(resetAnalysisStateLocked ((ss_closure s)\<lparr>cl_closed := True\<rparr>))\<lparr>cl_backend := w\<rparr>"
    let ?s = "s\<lparr>ss_closed := True, ss_closure := ?p\<rparr>"
    obtain r' s2 where rm: "removeSourceArena env (ss_sourceArenaPath s) ?s = (r', s2)" by force
    have closed: "Close_closure (se_closure env) (ss_closure s) = (r, ?p)"
      using close by (simp add: Close_closure_def bindS_def modS_def backendS_def partS_def resetAnalysisStateLocked_def)
    have read: "reads ?s s2"
      by (rule keeps_result[OF keeps_removeSourceArena reads_refl rm])
    have s': "s' = s2\<lparr>ss_closeErr := err\<rparr>" using assms(1) False closed rm by (auto simp: Close_session_def Let_def)
    have gen: "cl_generation ?p = cl_generation (ss_closure s)" "cl_closed ?p"
      by (simp_all add: resetAnalysisStateLocked_def)
    moreover have "closure_ok ?p" using closure_ok_reset by simp
    ultimately have "session_ok ?s" using assms(2) by (simp add: session_ok_def)
    then have "session_ok s2" using reads_fields(10)[OF read] by simp
    then show ?thesis using reads_fields[OF read] gen s' by (simp add: session_ok_def)
  qed
  then show "ss_closed s'" "ss_closeErr s' = err" "session_ok s'"
    "ss_token s' = ss_token s" "ss_tokenText s' = ss_tokenText s" "ss_table s' = ss_table s"
    "ss_projectID s' = ss_projectID s" "ss_schema s' = ss_schema s" "ss_demands s' = ss_demands s"
    "cl_generation (ss_closure s') = cl_generation (ss_closure s)" by simp_all
qed

definition closes :: "'w SessionEnv \<Rightarrow> 'w Session \<Rightarrow> bool \<Rightarrow> 'w Session \<Rightarrow> bool" where
  "closes env s clean s' \<longleftrightarrow> (\<exists>err. Close_session env s = (err, s') \<and> (err = None) = clean)"

lemma closeSession_wp:
  assumes "fresh s x" and "session_ok s"
  shows "wp (closeSession env) (\<lambda>_. succeeds (\<lambda>_. closes env s True)) (\<lambda>_. fails (closes env s False)) x"
proof -
  obtain err s' where close: "Close_session env s = (err, s')" by force
  have gen: "cl_generation (ss_closure s') = cl_generation (ss_closure s)"
    by (rule Close_session_fields(10)[OF close assms(2)])
  show ?thesis
  proof (cases err)
    case None
    then show ?thesis using assms(1) close gen
      by (simp add: wp_def closeSession_def Let_def fresh_def succeeds_def closes_def answering_def)
  next
    case (Some e)
    have "wp (failWith ''close-failed'' e) (\<lambda>_. succeeds (\<lambda>_. closes env s True)) (\<lambda>_. fails (closes env s False))
      (x\<lparr>ex_session := s'\<rparr>)"
      using assms(1) close gen Some
      by (auto simp: failWith_def respond_def wp_rules fresh_def fails_def closes_def answering_def)
    then show ?thesis using assms(1) close Some by (simp add: wp_def closeSession_def Let_def fresh_def)
  qed
qed

section \<open>Every request\<close>

definition accepted ::
    "'w SessionEnv \<Rightarrow> LifecycleRequest \<Rightarrow> 'w Session \<Rightarrow> LifecycleResponse \<Rightarrow> 'w Session \<Rightarrow> bool" where
  "accepted env request s response s' \<longleftrightarrow>
     (if rq_Operation request = LifecycleClose then closes env s True s'
      else \<not> ss_closed s \<and>
        (if rq_Operation request = LifecycleUpdate then updated env request s response s'
         else if rq_Operation request = LifecycleAnalyze then analyzed request s response s'
         else reads s s'))"

definition refused :: "'w SessionEnv \<Rightarrow> LifecycleRequest \<Rightarrow> 'w Session \<Rightarrow> 'w Session \<Rightarrow> bool" where
  "refused env request s s' \<longleftrightarrow> reads s s' \<or>
     (rq_Operation request = LifecycleAnalyze \<and> rolled s s') \<or>
     (rq_Operation request = LifecycleClose \<and> closes env s False s')"

lemma succeeds_mono: "succeeds P x \<Longrightarrow> (\<And>r s. P r s \<Longrightarrow> P' r s) \<Longrightarrow> succeeds P' x"
  by (simp add: succeeds_def)

lemma fails_mono: "fails P x \<Longrightarrow> (\<And>s. P s \<Longrightarrow> P' s) \<Longrightarrow> fails P' x"
  by (simp add: fails_def)

lemma operate_wp:
  assumes "fresh s x" and "session_ok s" and "\<not> ss_closed s"
  shows "wp (operate env arena request (cl_generation (ss_closure s)))
    (\<lambda>_. succeeds (accepted env request s)) (\<lambda>_. fails (refused env request s)) x"
proof -
  let ?Q = "\<lambda>_ :: unit. succeeds (accepted env request s)" and ?E = "\<lambda>_ :: go_error. fails (refused env request s)"
  have stop: "wp (failWith code err) ?Q ?E x" for code err
    by (rule wp_mono[OF failWith_fresh[OF assms(1)]]) (auto simp: fails_def refused_def)
  have gate: "wp (atGeneration matches m) ?Q ?E x" if "wp m ?Q ?E x" for matches m
    using that stop by (simp add: atGeneration_def)
  have read: "wp m ?Q ?E x" if m: "wp m (\<lambda>_. answered s) (\<lambda>_. reported (asked s)) x"
      and op: "rq_Operation request \<notin> {LifecycleClose, LifecycleUpdate, LifecycleAnalyze}" for m
    by (rule wp_mono[OF m])
      (use op assms(3) in \<open>auto dest!: answered_succeeds asked_fails simp: succeeds_def fails_def accepted_def refused_def\<close>)
  have noop: "wp (retS ()) (\<lambda>_. answered s) (\<lambda>_. reported (asked s)) x"
    using fresh_answered[OF assms(1)] by (simp add: wp_rules)
  have update: "wp (updateFiles env request) ?Q ?E x" if "rq_Operation request = LifecycleUpdate"
    by (rule wp_mono[OF updateFiles_wp[OF assms(1,2)]])
      (use that assms(3) in \<open>auto elim!: succeeds_mono fails_mono simp: accepted_def refused_def operations\<close>)
  have analyse: "wp (analyze env arena request (cl_generation (ss_closure s))) ?Q ?E x"
    if "rq_Operation request = LifecycleAnalyze"
    by (rule wp_mono[OF analyze_wp[OF assms(1,2)]])
      (use that assms(3) in \<open>auto elim!: succeeds_mono fails_mono simp: accepted_def refused_def operations\<close>)
  have close: "wp (closeSession env) ?Q ?E x" if "rq_Operation request = LifecycleClose"
    by (rule wp_mono[OF closeSession_wp[OF assms(1,2)]])
      (use that in \<open>auto elim!: succeeds_mono fails_mono simp: accepted_def refused_def\<close>)
  show ?thesis
    unfolding operate_def Let_def
    using gate[OF read[OF noop]] gate[OF update] gate[OF analyse] gate[OF close] read[OF noop]
      gate[OF read[OF readSymbols_wp[OF fresh_answered[OF assms(1)]]]]
      gate[OF read[OF readSources_wp[OF fresh_answered[OF assms(1)]]]]
      gate[OF read[OF readModules_wp[OF fresh_answered[OF assms(1)]]]]
    by (simp add: operations)
qed

lemma admit_wp:
  assumes "fresh s x" and "session_ok s"
  shows "wp (admit env arena request) (\<lambda>_. succeeds (accepted env request s)) (\<lambda>_. fails (refused env request s)) x"
proof -
  have s: "ex_session x = s" using assms(1) by (simp add: fresh_def)
  have stop: "wp (failWith code err) (\<lambda>_ :: unit. succeeds (accepted env request s)) (\<lambda>_. fails (refused env request s)) x"
    for code err
    by (rule wp_mono[OF failWith_fresh[OF assms(1)]]) (auto simp: fails_def refused_def)
  have again: "succeeds (accepted env request s) x"
    if "ss_closed s" "rq_Operation request = LifecycleClose" "ss_closeErr s = None"
    using that assms(1) by (auto simp: succeeds_def fresh_def accepted_def closes_def Close_session_def)
  show ?thesis
    using s stop again operate_wp[OF assms]
    by (auto simp: admit_def wp_rules split: option.split)
qed

lemma lifecycle_outcome:
  assumes "session_ok s" and "lifecycle env arena request (s, a) = (response, s', a')"
  shows "rs_Generation response = cl_generation (ss_closure s')"
    and "rs_OK response \<Longrightarrow> rs_Error response = None \<and> accepted env request s response s'"
    and "\<not> rs_OK response \<Longrightarrow> rs_Error response \<noteq> None \<and> refused env request s s'"
proof -
  let ?x = "\<lparr>ex_session = s, ex_arena = a, ex_response = startResponse request s, ex_transaction = noTransaction\<rparr>"
  have "fresh s ?x" by (simp add: fresh_def answering_def startResponse_def)
  note wp = admit_wp[OF this assms(1), of env arena request]
  obtain r x where run: "admit env arena request ?x = (r, x)" by force
  have same: "accepted env request s (q\<lparr>rs_OK := b\<rparr>) s' = accepted env request s q s'" for q b
    by (simp add: accepted_def updated_def analyzed_def published_def)
  have "rs_Generation response = cl_generation (ss_closure s') \<and>
    (if rs_OK response then rs_Error response = None \<and> accepted env request s response s'
     else rs_Error response \<noteq> None \<and> refused env request s s')"
  proof (cases r)
    case (Inl e)
    then show ?thesis using wp_Inl[OF wp run[unfolded Inl]] assms(2) run
      by (auto simp: lifecycle_def fails_def answering_def)
  next
    case (Inr u)
    then show ?thesis using wp_Inr[OF wp run[unfolded Inr]] assms(2) run same
      by (auto simp: lifecycle_def succeeds_def answering_def)
  qed
  then show "rs_Generation response = cl_generation (ss_closure s')"
    "rs_OK response \<Longrightarrow> rs_Error response = None \<and> accepted env request s response s'"
    "\<not> rs_OK response \<Longrightarrow> rs_Error response \<noteq> None \<and> refused env request s s'"
    by (simp_all split: if_splits)
qed

lemma Update_effect:
  assumes "cl_symbolsByPath p = []" and "Update env changes p = (Inr affected, p')"
  shows "cl_generation p' = cl_generation p + 1" "cl_closed p' = cl_closed p"
proof -
  have "cl_generation p' = cl_generation p + 1 \<and> cl_closed p' = cl_closed p"
  proof (cases rule: Update_cases[OF assms(1), of env changes])
    case (1 e w)
    then show ?thesis using assms(2) by simp
  next
    case (2 affected w store paths)
    then show ?thesis using assms(2) by auto
  qed
  then show "cl_generation p' = cl_generation p + 1" "cl_closed p' = cl_closed p" by simp_all
qed

lemma updated_ok:
  assumes "session_ok s" and "clean_backend (se_closure env)" and "updated env request s response s'"
  shows "session_ok s'" "cl_generation (ss_closure s') = cl_generation (ss_closure s) + 1"
    "ss_token s' = ss_token s" "ss_table s' = ss_table s"
proof -
  obtain p where p: "s' = s\<lparr>ss_closure := p\<rparr>"
    "Update (se_closure env) (changesOf request) (ss_closure s) = (Inr (rs_Affected response), p)"
    using assms(3) by (auto simp: updated_def)
  have ok: "closure_ok (ss_closure s)" "cl_symbolsByPath (ss_closure s) = []"
    using assms(1) by (simp_all add: session_ok_def closure_ok_def)
  show "session_ok s'" "cl_generation (ss_closure s') = cl_generation (ss_closure s) + 1"
    "ss_token s' = ss_token s" "ss_table s' = ss_table s"
    using assms(1) closure_ok_update[OF ok(1) assms(2) p(2)] Update_effect[OF ok(2) p(2)]
    by (simp_all add: p(1) session_ok_def)
qed

lemma published_ok:
  assumes "session_ok s" and "published request s response s'"
  shows "session_ok s'" "cl_generation (ss_closure s') = cl_generation (ss_closure s)"
    "ss_token s' = ss_token s + 1" "ss_table s' \<noteq> None" "rs_StateToken response = ss_tokenText s'"
  using assms by (auto simp: published_def session_ok_def same_published_def)

lemma rolled_ok:
  assumes "session_ok s" and "rolled s s'"
  shows "session_ok s'"
  using assms groups_ok_cores[of "ss_demands s" "ss_demands s'"]
  by (auto simp: rolled_def session_ok_def same_published_def)

lemma refused_ok:
  assumes "session_ok s" and "refused env request s s'"
  shows "session_ok s'" "cl_generation (ss_closure s') = cl_generation (ss_closure s)"
    "ss_token s' = ss_token s" "ss_tokenText s' = ss_tokenText s" "ss_table s' = ss_table s"
    "cores (ss_demands s') = cores (ss_demands s)"
  using assms rolled_ok[OF assms(1)] reads_fields[of s s'] Close_session_fields[of env s _ s']
  by (auto simp: refused_def closes_def rolled_def same_published_def)

end
