(* ===== verification/Session_Transition.thy ===== *)
theory Session_Transition
  imports Session_Requests
begin

text \<open>
  The table an analysis sends. A second frame of a request beside the one of Session_Invariant: from the
  table the closure built, over the transition that was encoded from it, to the header that is published
  and the bytes of the response. The predicates are kept by every later step of the transaction.
\<close>

section \<open>What was sent\<close>

text \<open>One call of the session's encoder, from any state of the encoder and of the arena.\<close>

definition encodeCall ::
    "'w SessionEnv \<Rightarrow> 'a TransitionArena option \<Rightarrow> wireTransitionInput \<Rightarrow> 'a \<Rightarrow> wireTransitionEncoder \<Rightarrow>
     encodedWireTransition result" where
  "encodeCall env arena input a e = fst (case arena of
       None \<Rightarrow> Encode (se_shared env) input a e
     | Some ta \<Rightarrow> EncodeInto (se_shared env) input (Some ta) a e)"

text \<open>
  The transition was encoded from the table against the header the session holds, or, when the sparse
  plan was not available, as a full replacement without a base.
\<close>

definition encodedFor ::
    "'w SessionEnv \<Rightarrow> 'a TransitionArena option \<Rightarrow> bool \<Rightarrow> 'w Session \<Rightarrow> FactTable \<Rightarrow> encodedWireTransition \<Rightarrow> bool" where
  "encodedFor env arena reset s table transition \<longleftrightarrow> (\<exists>input a e. encodeCall env arena input a e = Inr transition \<and>
     (input = transitionInput reset table s \<or>
      input = \<lparr>wi_ProjectID = ss_projectID s, wi_BaseStateToken = [], wi_Base = None, wi_Target = Some table, wi_Sparse = False\<rparr>))"

text \<open>An empty delta over a header of the same generation is reuse and has no bytes in the response.\<close>

definition sentBytes :: "'w Session \<Rightarrow> FactTable \<Rightarrow> encodedWireTransition \<Rightarrow> bytes" where
  "sentBytes s table transition =
     (if et_Mode transition = wireTransitionDelta \<and> et_PathOperations transition = 0 \<and> et_SymbolOperations transition = 0 \<and>
         map_option ft_Generation (ss_table s) = Some (ft_Generation table)
      then [] else et_Bytes transition)"

definition releasedTable :: "FactTable \<Rightarrow> FactTable" where
  "releasedTable t = t\<lparr>ft_Entities := [], ft_entityRuns := map_option (\<lambda>_. []) (ft_entityRuns t),
     ft_Files := [], ft_sourceDigests := []\<rparr>"

definition sent :: "'w SessionEnv \<Rightarrow> 'a TransitionArena option \<Rightarrow> LifecycleRequest \<Rightarrow> 'w Session \<Rightarrow>
    LifecycleResponse \<Rightarrow> 'w Session \<Rightarrow> bool" where
  "sent env arena request s response s' \<longleftrightarrow> (\<exists>table transition.
     encodedFor env arena (rq_ResetState request) s table transition \<and>
     rs_TableTransition response = sentBytes s table transition \<and>
     ss_table s' = Some (retainedHeader table) \<and> cl_table (ss_closure s') = Some (releasedTable table))"

section \<open>The frame\<close>

definition based :: "'w Session \<Rightarrow> bytes \<Rightarrow> ('w, 'a) exchange \<Rightarrow> bool" where
  "based s frame x \<longleftrightarrow> ss_projectID (ex_session x) = ss_projectID s \<and> ss_table (ex_session x) = ss_table s \<and>
     ss_tokenText (ex_session x) = ss_tokenText s \<and> rs_TableTransition (ex_response x) = frame"

definition tabledAs :: "'w Session \<Rightarrow> FactTable \<Rightarrow> bytes \<Rightarrow> ('w, 'a) exchange \<Rightarrow> bool" where
  "tabledAs s table frame x \<longleftrightarrow> based s frame x \<and> cl_table (ss_closure (ex_session x)) = Some table"

lemma wp_any_error: "wp (failWith code err) Q (\<lambda>_ _. True) x"
  by (simp add: wp_def failWith_def bindS_def respond_def modS_def failS_def)

lemma wp_failCancelled_any: "wp (failCancelled env code err) Q (\<lambda>_ _. True) x"
proof -
  have "wp (inClosure (pollErr (se_closure env))) (\<lambda>cancelled y. wp (case cancelled of
      Some e \<Rightarrow> failWith ''analysis-cancelled'' e | None \<Rightarrow> failWith code err) Q (\<lambda>_ _. True) y) (\<lambda>_ _. True) x"
    by (simp add: inClosure_def wp_partS wp_def[of "pollErr _"] pollErr_def wp_any_error split: prod.split option.split)
  then show ?thesis by (simp add: failCancelled_def wp_bindS)
qed

lemma keeps_tabledAs_closure:
  assumes "\<And>p. cl_table (snd (m p)) = cl_table p"
  shows "keeps (tabledAs s table frame) (inClosure m)"
proof (rule keepsI)
  fix x :: "('a, 'c) exchange"
  assume "tabledAs s table frame x"
  then show "wp (inClosure m) (\<lambda>_. tabledAs s table frame) (\<lambda>_. tabledAs s table frame) x"
    using assms[of "ss_closure (ex_session x)"]
    by (auto simp: inClosure_def wp_def outcome_def partS_def tabledAs_def based_def split: prod.split sum.split)
qed

lemma backendS_table: "cl_table (snd (backendS m p)) = cl_table p"
  by (simp add: backendS_def partS_def split: prod.split)

lemma whenOpen_table: "(\<And>p. cl_table (snd (m p)) = cl_table p) \<Longrightarrow> cl_table (snd (whenOpen m p)) = cl_table p"
  by (simp add: whenOpen_def bindS_def getS_def failS_def)

lemma keeps_tabledAs_respond:
  "(\<And>r. rs_TableTransition (f r) = rs_TableTransition r) \<Longrightarrow> keeps (tabledAs s table frame) (respond f)"
  by (rule keepsI) (simp add: respond_def wp_modS tabledAs_def based_def)

lemma keeps_tabledAs_poll: "keeps (tabledAs s table frame) (inClosure (pollErr env))"
  by (rule keeps_tabledAs_closure) (simp add: pollErr_def split: prod.split)

lemma keeps_tabledAs_failWith: "keeps (tabledAs s table frame) (failWith code err)"
  unfolding failWith_def by (intro keeps_rules keeps_tabledAs_respond) simp

lemmas keeps_tabledAs = keeps_tabledAs_respond keeps_tabledAs_poll keeps_tabledAs_failWith
  keeps_tabledAs_closure[OF backendS_table] keeps_tabledAs_closure[OF whenOpen_table[OF backendS_table]]

lemma keeps_tabledAs_stop: "keeps (tabledAs s table frame) (stopIfCancelled env)"
  unfolding stopIfCancelled_def by (intro keeps_rules keeps_tabledAs)

lemma keeps_tabledAs_evidence:
  assumes "rq_Operation request \<noteq> LifecycleSymbols"
  shows "keeps (tabledAs s table frame) (catchS (populateSymbolEvidence env request None) (failCancelled env' code))"
  unfolding populateSymbolEvidence_def populateReferences_def resolveSymbolEvidence_def changedReferences_def
    releaseBackendAnalysisState_def failCancelled_def
  using assms by (intro keeps_rules keeps_tabledAs) simp_all

section \<open>The steps of an analysis\<close>

lemma demandTable_table:
  "wp (demandTableForCanonicalGroups env generation paths) (\<lambda>t r. cl_table (run_closure r) = Some t) (\<lambda>_ _. True) r"
proof -
  have locked: "wp (materializeDemandTableLocked env generation) (\<lambda>_ r. cl_table (run_closure r) \<noteq> None) (\<lambda>_ _. True) r" for generation r
    unfolding materializeDemandTableLocked_def wp_bindS
    by (rule wp_mono[OF wp_any]) (auto simp: onClosure_def wp_rules)
  have read: "wp (materializeDemandTableLocked env generation)
      (\<lambda>_ r. cl_table (run_closure r) = Some (the (cl_table (run_closure r)))) (\<lambda>_ _. True) r" for generation r
    by (rule wp_mono[OF locked]) auto
  show ?thesis
    by (auto simp: demandTableForCanonicalGroups_def demandTableForPreparedGroups_def wp_rules onClosure_def read
        split: option.split)
qed

lemma analyzedTable_tabledAs:
  assumes "based s frame x"
  shows "wp (analyzedTable env generation) (\<lambda>t. tabledAs s t frame) (\<lambda>_ _. True) x"
proof -
  have "wp (partS
       (\<lambda>x. \<lparr>run_closure = ss_closure (ex_session x), run_groups = rds_groups (ss_demands (ex_session x))\<rparr>)
       (\<lambda>r x. x\<lparr>ex_session := (ex_session x)\<lparr>ss_closure := run_closure r,
          ss_demands := \<lparr>rds_groups = run_groups r\<rparr>\<rparr>\<rparr>)
       (demandTableForCanonicalGroups (se_closure env) generation (tx_changedPaths (ex_transaction x))))
     (\<lambda>t. tabledAs s t frame) (\<lambda>_ _. True) x"
    unfolding wp_partS
    by (rule wp_mono[OF demandTable_table]) (use assms in \<open>auto simp: tabledAs_def based_def\<close>)
  then show ?thesis by (simp add: wp_def analyzedTable_def)
qed

lemma sessionEncode_tabledAs:
  assumes "tabledAs s table frame x"
  shows "wp (sessionEncode env arena input)
    (\<lambda>transition y. tabledAs s table frame y \<and> (\<exists>a e. encodeCall env arena input a e = Inr transition))
    (\<lambda>_. based s frame) x"
proof -
  obtain r e a where run: "(case arena of
      None \<Rightarrow> Encode (se_shared env) input (ex_arena x) (ss_transition (ex_session x))
    | Some ta \<Rightarrow> EncodeInto (se_shared env) input (Some ta) (ex_arena x) (ss_transition (ex_session x))) = (r, e, a)"
    by (metis prod_cases3)
  then have "encodeCall env arena input (ex_arena x) (ss_transition (ex_session x)) = r"
    by (simp only: encodeCall_def fst_conv)
  then show ?thesis using assms
    by (cases r) (auto simp: wp_def sessionEncode_def Let_def run tabledAs_def based_def)
qed

lemma encodeTransition_tabledAs:
  assumes "tabledAs s table frame x"
  shows "wp (encodeTransition env arena reset generation table)
    (\<lambda>(t, transition) y. tabledAs s t frame y \<and> encodedFor env arena reset s t transition) (\<lambda>_ _. True) x"
proof -
  have input: "transitionInput reset table (ex_session x) = transitionInput reset table s"
    using assms by (simp add: transitionInput_def Let_def tabledAs_def based_def)
  have full: "(transitionInput reset table s)\<lparr>wi_Base := None, wi_BaseStateToken := [], wi_Target := Some t, wi_Sparse := False\<rparr> =
      \<lparr>wi_ProjectID = ss_projectID s, wi_BaseStateToken = [], wi_Base = None, wi_Target = Some t, wi_Sparse = False\<rparr>" for t
    by (simp add: transitionInput_def Let_def)
  have rebuild: "wp (bindS (inClosure (modS forceFullMaterialization)) (\<lambda>_.
         bindS (analyzedTable env generation) (\<lambda>t.
         bindS (sessionEncode env arena ((transitionInput reset table s)\<lparr>wi_Base := None, wi_BaseStateToken := [],
           wi_Target := Some t, wi_Sparse := False\<rparr>)) (\<lambda>transition. retS (t, transition)))))
       (\<lambda>(t, transition) y. tabledAs s t frame y \<and> encodedFor env arena reset s t transition) (\<lambda>_ _. True) y"
    if "based s frame y" for y
  proof -
    have "based s frame (y\<lparr>ex_session := (ex_session y)\<lparr>ss_closure := forceFullMaterialization (ss_closure (ex_session y))\<rparr>\<rparr>)"
      using that by (simp add: based_def)
    then show ?thesis
      unfolding wp_bindS inClosure_def wp_partS wp_modS wp_retS full
      by (rule wp_mono[OF analyzedTable_tabledAs])
        (rule wp_mono[OF sessionEncode_tabledAs], auto simp: encodedFor_def)
  qed
  show ?thesis
    unfolding encodeTransition_def wp_bindS wp_getS wp_catchS wp_retS input
    by (rule wp_mono[OF sessionEncode_tabledAs[OF assms]])
      (use rebuild in \<open>auto simp: wp_failS encodedFor_def\<close>)
qed

lemma attachTransition_tabledAs:
  assumes "tabledAs s table [] x"
  shows "wp (attachTransition table transition) (\<lambda>_. tabledAs s table (sentBytes s table transition)) (\<lambda>_ _. True) x"
  using assms
  by (auto simp: attachTransition_def respond_def wp_rules tabledAs_def based_def sentBytes_def split: option.split)

lemma publish_sent:
  assumes "tabledAs s table (sentBytes s table transition) x"
    and "encodedFor env arena (rq_ResetState request) s table transition"
  shows "wp (publish table) (\<lambda>_ y. sent env arena request s (ex_response y) (ex_session y)) E x"
  using assms
  by (auto simp: publish_def wp_modS Let_def sent_def tabledAs_def based_def releaseTransportRows_def releasedTable_def
      split: prod.split)

text \<open>A whole analysis, with any error.\<close>

lemma catch_any:
  assumes "wp m Q (\<lambda>_ _. True) x" and "\<And>e y. wp (h e) Q (\<lambda>_ _. True) y"
  shows "wp (catchS m h) Q (\<lambda>_ _. True) x"
  unfolding wp_catchS by (rule wp_mono[OF assms(1)]) (auto intro: assms(2))

lemma keeps_any: "keeps I m \<Longrightarrow> I x \<Longrightarrow> wp m (\<lambda>_. I) (\<lambda>_ _. True) x"
  by (rule wp_mono[OF keepsD]) auto

lemma analyzeTransaction_sent:
  assumes "based s [] x" and "rq_Operation request \<noteq> LifecycleSymbols"
  shows "wp (analyzeTransaction env arena request generation)
    (\<lambda>_ y. sent env arena request s (ex_response y) (ex_session y)) (\<lambda>_ _. True) x"
proof -
  have evidence: "keeps (tabledAs s table frame)
      (if b then catchS (populateSymbolEvidence env request None) (failCancelled env ''analysis-failed'') else retS ())"
    for b table frame
    by (intro keeps_if keeps_retS keeps_tabledAs_evidence[OF assms(2)])
  show ?thesis
    unfolding analyzeTransaction_def wp_deferS sum.case
    unfolding wp_bindS[of "getS f" for f] wp_getS respond_def wp_bindS[of "modS f" for f] wp_modS
    apply (rule wp_seq[OF catch_any[OF analyzedTable_tabledAs[OF assms(1)] wp_failCancelled_any]])
    apply (rule wp_seq[OF keeps_any[OF keeps_tabledAs_stop]], assumption)
    unfolding wp_bindS[of "getS f" for f] wp_getS wp_bindS[of "modS f" for f] wp_modS
    apply (rule wp_seq[OF catch_any[OF encodeTransition_tabledAs wp_any_error]])
     apply (simp add: tabledAs_def based_def)
    apply (clarsimp split del: if_split)
    apply (rule wp_seq[OF attachTransition_tabledAs], assumption)
    apply (rule wp_seq[OF keeps_any[OF keeps_tabledAs_stop]], assumption)
    apply (rule wp_seq[OF keeps_any[OF evidence]], assumption)
    apply (rule wp_seq[OF keeps_any[OF keeps_tabledAs_stop]], assumption)
    apply (rule publish_sent, assumption+)
    done
qed

lemma beginTransaction_based:
  assumes "based s frame x"
  shows "wp (beginTransaction request) (\<lambda>_. based s frame) (\<lambda>_ _. True) x"
  using assms wp_any_error[of "''invalid-demands''"]
  by (auto simp: wp_def[of "beginTransaction request"] outcome_def beginTransaction_def Let_def based_def failWith_def bindS_def
      respond_def modS_def failS_def split: option.split sum.split prod.split)

lemma analyze_sent:
  assumes "ex_session x = s" and "rs_TableTransition (ex_response x) = []"
    and "rq_Operation request \<noteq> LifecycleSymbols" and "\<not> nothingToAnalyze request generation s"
  shows "wp (analyze env arena request generation)
    (\<lambda>_ y. sent env arena request s (ex_response y) (ex_session y)) (\<lambda>_ _. True) x"
proof -
  have "based s [] x" using assms(1,2) by (simp add: based_def)
  then have "wp (bindS (beginTransaction request) (\<lambda>_. analyzeTransaction env arena request generation))
      (\<lambda>_ y. sent env arena request s (ex_response y) (ex_session y)) (\<lambda>_ _. True) x"
    by (rule wp_seq[OF beginTransaction_based analyzeTransaction_sent[OF _ assms(3)]])
  then show ?thesis
    unfolding analyze_def wp_bindS[of "getS f" for f] wp_getS
    using assms(1,4) by (simp add: wp_any_error)
qed

end
