(* ===== verification/Session_Properties.thy ===== *)
theory Session_Properties
  imports Session_Transition
begin

text \<open>
  The properties of a session over its lifecycle requests: what a refused request leaves, what an
  accepted analysis publishes, the counters of a whole history, stale requests and the closed session.
\<close>

section \<open>Histories\<close>

text \<open>
  A session that was opened and then handled requests, with the number of updates it accepted and of
  analyses it published.
\<close>

definition tookUpdate :: "LifecycleRequest \<Rightarrow> LifecycleResponse \<Rightarrow> nat" where
  "tookUpdate request response = (if rs_OK response \<and> rq_Operation request = LifecycleUpdate then 1 else 0)"

definition tookAnalysis :: "LifecycleRequest \<Rightarrow> 'w Session \<Rightarrow> LifecycleResponse \<Rightarrow> nat" where
  "tookAnalysis request s response = (if rs_OK response \<and> rq_Operation request = LifecycleAnalyze \<and>
     \<not> nothingToAnalyze request (cl_generation (ss_closure s)) s then 1 else 0)"

inductive session_history ::
    "'w SessionEnv \<Rightarrow> 'a TransitionArena option \<Rightarrow> 'w Session \<times> 'a \<Rightarrow> nat \<Rightarrow> nat \<Rightarrow> bool"
  for env arena where
  opened: "newSession env projectID w = (Inr s, w') \<Longrightarrow> session_history env arena (s, a) 0 0"
| handled: "session_history env arena (s, a) updates analyses \<Longrightarrow>
    lifecycle env arena request (s, a) = (response, s', a') \<Longrightarrow>
    session_history env arena (s', a') (updates + tookUpdate request response)
      (analyses + tookAnalysis request s response)"

lemma accepted_ok:
  assumes "session_ok s" and "clean_backend (se_closure env)" and "accepted env request s response s'"
  shows "session_ok s'"
  using assms updated_ok(1)[OF assms(1,2)] published_ok(1)[OF assms(1)] Close_session_fields(3)[OF _ assms(1)] reads_fields(10)[of s s']
  by (auto simp: accepted_def closes_def analyzed_def split: if_splits)

text \<open>One step of the counters.\<close>

lemma lifecycle_counts:
  assumes "session_ok s" and "clean_backend (se_closure env)" and "lifecycle env arena request (s, a) = (response, s', a')"
  shows "session_ok s'"
    and "cl_generation (ss_closure s') = cl_generation (ss_closure s) + of_nat (tookUpdate request response)"
    and "ss_token s' = ss_token s + of_nat (tookAnalysis request s response)"
    and "ss_table s' = None \<longleftrightarrow> ss_table s = None \<and> tookAnalysis request s response = 0"
proof -
  note out = lifecycle_outcome[OF assms(1,3)]
  have ok: "session_ok s'" using out(2,3) refused_ok(1)[OF assms(1)] accepted_ok[OF assms(1,2)] by blast
  moreover have "cl_generation (ss_closure s') = cl_generation (ss_closure s) + of_nat (tookUpdate request response) \<and>
    ss_token s' = ss_token s + of_nat (tookAnalysis request s response) \<and>
    (ss_table s' = None \<longleftrightarrow> ss_table s = None \<and> tookAnalysis request s response = 0)"
  proof (cases "rs_OK response")
    case False
    then show ?thesis using out(3) refused_ok[OF assms(1), of env request s'] by (simp add: tookUpdate_def tookAnalysis_def)
  next
    case True
    then have acc: "accepted env request s response s'" using out(2) by blast
    show ?thesis
      using True acc updated_ok[OF assms(1,2), of request response s'] published_ok[OF assms(1), of request response s']
        Close_session_fields[OF _ assms(1), of env None s'] reads_fields[of s s']
      by (auto simp: accepted_def analyzed_def closes_def tookUpdate_def tookAnalysis_def operations split: if_splits)
  qed
  ultimately show "session_ok s'"
    "cl_generation (ss_closure s') = cl_generation (ss_closure s) + of_nat (tookUpdate request response)"
    "ss_token s' = ss_token s + of_nat (tookAnalysis request s response)"
    "ss_table s' = None \<longleftrightarrow> ss_table s = None \<and> tookAnalysis request s response = 0"
    by simp_all
qed

lemma history_counts:
  assumes "session_history env arena x updates analyses" and "clean_backend (se_closure env)"
  shows "session_ok (fst x) \<and> cl_generation (ss_closure (fst x)) = 1 + of_nat updates \<and>
    ss_token (fst x) = of_nat analyses \<and> (ss_table (fst x) = None \<longleftrightarrow> analyses = 0)"
  using assms(1)
proof induction
  case (opened projectID w s w' a)
  then show ?case using session_ok_new[OF opened]
    by (auto simp: newSession_def newDemandClosure_def split: if_splits)
next
  case (handled s a updates analyses request response s' a')
  then show ?case using lifecycle_counts[OF _ assms(2) handled.hyps(2)] by auto
qed

section \<open>Accepted requests\<close>

lemma bindS_Inr_iff: "bindS m k x = (Inr v, y) \<longleftrightarrow> (\<exists>u z. m x = (Inr u, z) \<and> k u z = (Inr v, y))"
  by (cases "m x"; cases "fst (m x)") (auto simp: bindS_def)

lemma failWith_Inl [simp]: "failWith code e x \<noteq> (Inr v, y)"
  by (simp add: failWith_def bindS_def respond_def modS_def failS_def)

lemma accepted_admit:
  assumes "session_ok s" and "lifecycle env arena request (s, a) = (response, s', a')" and "rs_OK response"
  shows "\<exists>x x'. admit env arena request x = (Inr (), x') \<and> ex_session x = s \<and> rs_TableTransition (ex_response x) = [] \<and>
    s' = ex_session x' \<and> response = (ex_response x')\<lparr>rs_OK := True\<rparr>"
proof -
  let ?x = "\<lparr>ex_session = s, ex_arena = a, ex_response = startResponse request s, ex_transaction = noTransaction\<rparr>"
  have "fresh s ?x" by (simp add: fresh_def answering_def startResponse_def)
  note wp = admit_wp[OF this assms(1), of env arena request]
  obtain r x where run: "admit env arena request ?x = (r, x)" by force
  show ?thesis
  proof (cases r)
    case (Inl e)
    then show ?thesis using wp_Inl[OF wp run[unfolded Inl]] assms(2,3) run
      by (auto simp: lifecycle_def fails_def answering_def)
  next
    case (Inr u)
    then show ?thesis using run assms(2)
      by (intro exI[of _ ?x] exI[of _ x]) (simp add: lifecycle_def startResponse_def)
  qed
qed

lemma accepted_analyze:
  assumes "session_ok s" and "lifecycle env arena request (s, a) = (response, s', a')" and "rs_OK response"
    and "rq_Operation request = LifecycleAnalyze"
  obtains x x' where "analyze env arena request (cl_generation (ss_closure s)) x = (Inr (), x')" "ex_session x = s"
    "rs_TableTransition (ex_response x) = []" "s' = ex_session x'" "response = (ex_response x')\<lparr>rs_OK := True\<rparr>"
proof -
  obtain x x' where run: "admit env arena request x = (Inr (), x')" "ex_session x = s"
    "rs_TableTransition (ex_response x) = []" "s' = ex_session x'" "response = (ex_response x')\<lparr>rs_OK := True\<rparr>"
    using accepted_admit[OF assms(1,2,3)] by blast
  have "analyze env arena request (cl_generation (ss_closure s)) x = (Inr (), x')"
    using run(1,2) assms(4)
    by (auto simp: admit_def operate_def Let_def atGeneration_def bindS_Inr_iff getS_def operations retS_def
        split: option.splits if_splits)
  then show thesis using run(2-) by (rule that)
qed

lemma accepted_sent:
  assumes "session_ok s" and "lifecycle env arena request (s, a) = (response, s', a')" and "rs_OK response"
    and "rq_Operation request = LifecycleAnalyze"
  shows "if nothingToAnalyze request (cl_generation (ss_closure s)) s then rs_TableTransition response = []
    else sent env arena request s response s'"
proof -
  obtain x x' where run: "analyze env arena request (cl_generation (ss_closure s)) x = (Inr (), x')" "ex_session x = s"
    "rs_TableTransition (ex_response x) = []" "s' = ex_session x'" "response = (ex_response x')\<lparr>rs_OK := True\<rparr>"
    using accepted_analyze[OF assms] .
  show ?thesis
  proof (cases "nothingToAnalyze request (cl_generation (ss_closure s)) s")
    case True
    then show ?thesis using run
      by (auto simp: analyze_def bindS_Inr_iff getS_def respond_def modS_def split: if_splits)
  next
    case False
    then have "sent env arena request s (ex_response x') (ex_session x')"
      using wp_Inr[OF analyze_sent[OF run(2,3) _ False] run(1)] assms(4) by (simp add: operations)
    then show ?thesis using False by (simp add: run(4,5) sent_def)
  qed
qed

section \<open>An example session\<close>

definition exampleSessionEnv :: "unit SessionEnv" where
  "exampleSessionEnv = \<lparr>se_closure = exampleEnv, se_shared = (\<lambda>_ _. False), os_CreateTemp = retS ''t'',
     os_Write = (\<lambda>_ _. retS ()), os_Flush = (\<lambda>_. retS ()), os_CloseFile = (\<lambda>_. retS ()), os_Remove = (\<lambda>_. retS ())\<rparr>"

text \<open>A request is cancelled while it runs.\<close>

definition cancelledSessionEnv :: "unit SessionEnv" where
  "cancelledSessionEnv = exampleSessionEnv\<lparr>se_closure := exampleEnv\<lparr>env_Err := (\<lambda>w. (Some ErrCanceled, w))\<rparr>\<rparr>"

definition exampleRequest :: "LifecycleOperation \<Rightarrow> u64 \<Rightarrow> LifecycleRequest" where
  "exampleRequest operation generation = \<lparr>rq_Schema = 1, rq_RequestID = 1, rq_Operation = operation,
     rq_ProjectID = ''p'', rq_Generation = generation, rq_Changes = [], rq_Demands = [], rq_CompactDemands = None,
     rq_StateToken = [], rq_ResetState = False, rq_RemovedDemandPaths = [], rq_SymbolQueries = [],
     rq_ReleaseAnalysis = False, rq_ReferenceChanges = False, rq_ReferencePaths = [], rq_CancelRequestID = 0,
     rq_ModuleGraph = None\<rparr>"

definition exampleAnalysis :: LifecycleRequest where
  "exampleAnalysis = (exampleRequest LifecycleAnalyze 1)\<lparr>rq_ResetState := True, rq_Demands := [demandOfFlags ''a'' 0 1 1]\<rparr>"

definition exampleSession :: "unit Session" where
  "exampleSession = (case fst (newSession exampleSessionEnv ''p'' ()) of Inr s \<Rightarrow> s)"

definition exampleAnalyzed :: "LifecycleResponse \<times> unit Session \<times> unit" where
  "exampleAnalyzed = lifecycle exampleSessionEnv None exampleAnalysis (exampleSession, ())"

lemma exampleSession_new: "newSession exampleSessionEnv ''p'' () = (Inr exampleSession, ())"
proof -
  have "Clean ''p'' = ''p''" by code_simp
  then show ?thesis by (simp add: exampleSession_def newSession_def)
qed

lemma exampleSession_ok: "session_ok exampleSession"
  by (rule session_ok_new[OF exampleSession_new])

lemma clean_exampleEnv: "clean_backend (se_closure exampleSessionEnv)"
proof -
  have "Clean ''b'' = ''b''" by code_simp
  then show ?thesis by (simp add: clean_backend_def exampleSessionEnv_def exampleEnv_def retS_def)
qed

lemma exampleAnalyzed_OK: "rs_OK (fst exampleAnalyzed)" "rs_StateToken (fst exampleAnalyzed) = ''1''"
  by code_simp+

lemma exampleAnalyzed_run:
  obtains response s where "exampleAnalyzed = (response, s, ())" "rs_OK response" "rs_StateToken response = ''1''"
    "lifecycle exampleSessionEnv None exampleAnalysis (exampleSession, ()) = (response, s, ())"
proof -
  obtain response s where run: "exampleAnalyzed = (response, s, ())" by (metis prod_cases3 unit.exhaust)
  show thesis
    by (rule that[OF run])
      (use exampleAnalyzed_OK[unfolded run fst_conv] run in \<open>simp_all only: exampleAnalyzed_def[symmetric]\<close>)
qed

lemma exampleAnalysis_new: "\<not> nothingToAnalyze exampleAnalysis generation s"
  by (simp add: nothingToAnalyze_def exampleAnalysis_def)

lemma exampleAnalysis_fields [simp]:
  "rq_Operation exampleAnalysis = LifecycleAnalyze" "rq_Generation exampleAnalysis = 1"
  by (simp_all add: exampleAnalysis_def exampleRequest_def)

lemma exampleCancelled_fails:
  "\<not> rs_OK (fst (lifecycle cancelledSessionEnv None exampleAnalysis (exampleSession, ())))"
  by code_simp

section \<open>Properties\<close>

text \<open>
  C4. Through every history of requests the session keeps its invariant: the retained groups are in
  path order with clean paths, the closure's stores and indexes agree, the text of the token is that of
  the published token. The generation is one more than the number of accepted updates, the token counts
  the published analyses, and a table header is held exactly when one was published.
\<close>

theorem session_history_counts:
  assumes "session_history env arena (s, a) updates analyses" and "clean_backend (se_closure env)"
  shows "session_ok s \<and> cl_generation (ss_closure s) = 1 + of_nat updates \<and> ss_token s = of_nat analyses \<and>
    (ss_table s = None \<longleftrightarrow> analyses = 0)"
  using history_counts[OF assms] by simp

theorem session_history_counts_witness:
  "\<exists>response s. exampleAnalyzed = (response, s, ()) \<and> session_ok s \<and> ss_token s = 1 \<and> ss_table s \<noteq> None"
proof -
  obtain response s where run: "exampleAnalyzed = (response, s, ())" "rs_OK response"
    "lifecycle exampleSessionEnv None exampleAnalysis (exampleSession, ()) = (response, s, ())"
    using exampleAnalyzed_run by metis
  have "session_history exampleSessionEnv None (s, ()) (0 + tookUpdate exampleAnalysis response)
      (0 + tookAnalysis exampleAnalysis exampleSession response)"
    by (rule session_history.handled[OF session_history.opened[OF exampleSession_new] run(3)])
  moreover have "tookAnalysis exampleAnalysis exampleSession response = 1"
    using run(2) by (simp add: tookAnalysis_def exampleAnalysis_new)
  ultimately have "session_history exampleSessionEnv None (s, ()) (tookUpdate exampleAnalysis response) 1" by simp
  then show ?thesis using session_history_counts[OF _ clean_exampleEnv] run(1) by fastforce
qed

text \<open>
  C5. A refused request publishes nothing: it reports an error, the token, the table header, the
  generation and the demand set (up to the caches of its groups) are those before the request, the
  invariant holds, and the closure is the one before the request up to the environment, or has dropped
  every cache, so that no part of a rejected demand set can be observed later.
\<close>

theorem refused_request_publishes_nothing:
  assumes "session_ok s" and "lifecycle env arena request (s, a) = (response, s', a')" and "\<not> rs_OK response"
  shows "rs_Error response \<noteq> None \<and> session_ok s' \<and> ss_token s' = ss_token s \<and> ss_tokenText s' = ss_tokenText s \<and>
    ss_table s' = ss_table s \<and> map group_core (rds_groups (ss_demands s')) = map group_core (rds_groups (ss_demands s)) \<and>
    cl_generation (ss_closure s') = cl_generation (ss_closure s) \<and>
    (rq_Operation request \<noteq> LifecycleClose \<longrightarrow>
       (\<exists>w. ss_closure s' = (ss_closure s)\<lparr>cl_backend := w\<rparr>) \<or> no_caches (ss_closure s'))"
proof -
  have out: "rs_Error response \<noteq> None" "refused env request s s'"
    using lifecycle_outcome(3)[OF assms(1,2)] assms(3) by simp_all
  then have "rq_Operation request \<noteq> LifecycleClose \<longrightarrow>
      (\<exists>w. ss_closure s' = (ss_closure s)\<lparr>cl_backend := w\<rparr>) \<or> no_caches (ss_closure s')"
    by (auto simp: refused_def reads_def rolled_def)
  then show ?thesis using out(1) refused_ok[OF assms(1) out(2)] by (simp add: cores_def)
qed

theorem refused_request_publishes_nothing_witness:
  "\<exists>response s. lifecycle cancelledSessionEnv None exampleAnalysis (exampleSession, ()) = (response, s, ()) \<and>
     rs_Error response \<noteq> None \<and> ss_token s = 0 \<and> session_ok s"
proof -
  obtain response s where run: "lifecycle cancelledSessionEnv None exampleAnalysis (exampleSession, ()) = (response, s, ())"
    by (metis prod_cases3 unit.exhaust)
  have "ss_token exampleSession = 0" by code_simp
  then show ?thesis
    using refused_request_publishes_nothing[OF exampleSession_ok run] exampleCancelled_fails run by simp
qed

text \<open>
  C15. An accepted analysis that has something to analyze publishes exactly once: the retained demand set
  is the one the request asks for, the token advances by one and the response carries the text of the new
  token. There is one table such that the bytes of the response are the transition the encoder made of it,
  against the header and token the session held (as a full replacement when the request resets, when no
  header was held, or when the sparse plan was unavailable; no bytes for an empty delta within a
  generation), the session keeps the detached header of that very table, and the closure keeps that table
  with its rows released. An analysis with nothing to do leaves the session untouched, answers the current
  token and sends no transition.
\<close>

theorem accepted_analysis_publishes:
  assumes "session_ok s" and "lifecycle env arena request (s, a) = (response, s', a')" and "rs_OK response"
    and "rq_Operation request = LifecycleAnalyze"
  shows "rs_StateToken response = ss_tokenText s' \<and>
    (if nothingToAnalyze request (cl_generation (ss_closure s)) s then s' = s \<and> rs_TableTransition response = []
     else ss_token s' = ss_token s + 1 \<and> ss_tokenText s' = FormatUint (ss_token s') \<and>
       (\<exists>table transition. encodedFor env arena (rq_ResetState request) s table transition \<and>
          rs_TableTransition response = sentBytes s table transition \<and>
          ss_table s' = Some (retainedHeader table) \<and> cl_table (ss_closure s') = Some (releasedTable table)) \<and>
       (\<exists>begun. requested request (ss_demands s) begun \<and>
          map group_core (rds_groups (ss_demands s')) = map group_core (rds_groups begun)))"
proof -
  have "analyzed request s response s'"
    using lifecycle_outcome(2)[OF assms(1,2,3)] assms(4) by (simp add: accepted_def operations split: if_splits)
  then show ?thesis
    using accepted_sent[OF assms]
    by (auto simp: analyzed_def published_def cores_def same_published_def sent_def split: if_splits)
qed

theorem accepted_analysis_publishes_witness:
  "\<exists>response s. exampleAnalyzed = (response, s, ()) \<and> rs_StateToken response = ''1'' \<and> ss_tokenText s = ''1'' \<and>
     (\<exists>table transition. encodedFor exampleSessionEnv (None :: unit TransitionArena option) True exampleSession table transition \<and>
        rs_TableTransition response = sentBytes exampleSession table transition \<and> ss_table s = Some (retainedHeader table))"
proof -
  obtain response s where run: "exampleAnalyzed = (response, s, ())" "rs_OK response" "rs_StateToken response = ''1''"
    "lifecycle exampleSessionEnv None exampleAnalysis (exampleSession, ()) = (response, s, ())"
    using exampleAnalyzed_run by metis
  have reset: "rq_ResetState exampleAnalysis" by (simp add: exampleAnalysis_def)
  have "rs_StateToken response = ss_tokenText s \<and>
     (\<exists>table transition. encodedFor exampleSessionEnv (None :: unit TransitionArena option) True exampleSession table transition \<and>
        rs_TableTransition response = sentBytes exampleSession table transition \<and> ss_table s = Some (retainedHeader table))"
    using accepted_analysis_publishes[OF exampleSession_ok run(4,2) exampleAnalysis_fields(1),
        unfolded if_not_P[OF exampleAnalysis_new] eqTrueI[OF reset]] by blast
  then show ?thesis using run(1,3) by metis
qed

text \<open>
  C35. Every response is a verdict: it is OK exactly when it carries no error (so the reuse test of an
  analysis never reads a missing table header), and its generation is the session's after the request.
\<close>

theorem lifecycle_verdict:
  assumes "session_ok s" and "lifecycle env arena request (s, a) = (response, s', a')"
  shows "(rs_OK response \<longleftrightarrow> rs_Error response = None) \<and> rs_Generation response = cl_generation (ss_closure s')"
  using lifecycle_outcome[OF assms] by blast

theorem lifecycle_verdict_witness:
  "rs_Error (fst exampleAnalyzed) = None"
proof -
  obtain response s where run: "exampleAnalyzed = (response, s, ())" "rs_OK response"
    "lifecycle exampleSessionEnv None exampleAnalysis (exampleSession, ()) = (response, s, ())"
    using exampleAnalyzed_run by metis
  then show ?thesis using lifecycle_verdict[OF exampleSession_ok run(3)] by (simp add: run(1))
qed

text \<open>
  C13. A stale request is never accepted: what an open session accepts, other than a cancellation, names
  the session's generation (the next one for an update), an analysis that does not reset presents the
  token the session published last, and so does every request for symbols.
\<close>

theorem accepted_requests_current:
  assumes "session_ok s" and "\<not> ss_closed s" and "lifecycle env arena request (s, a) = (response, s', a')"
    and "rs_OK response"
  shows "(rq_Operation request \<noteq> LifecycleCancel \<longrightarrow> rq_Generation request =
      cl_generation (ss_closure s) + of_bool (rq_Operation request = LifecycleUpdate)) \<and>
    (rq_Operation request = LifecycleAnalyze \<and> \<not> rq_ResetState request \<longrightarrow> rq_StateToken request = ss_tokenText s) \<and>
    (rq_Operation request = LifecycleSymbols \<longrightarrow> rq_StateToken request = ss_tokenText s \<and> rq_StateToken request \<noteq> []) \<and>
    Clean (rq_ProjectID request) = ss_projectID s"
proof -
  obtain x x' where run: "admit env arena request x = (Inr (), x')" "ex_session x = s"
    using accepted_admit[OF assms(1,3,4)] by blast
  have valid: "ValidateLifecycleRequest request = None" "Clean (rq_ProjectID request) = ss_projectID s"
      "operate env arena request (cl_generation (ss_closure s)) x = (Inr (), x')"
    using run assms(2) by (auto simp: admit_def bindS_Inr_iff getS_def split: option.splits if_splits)
  have "rq_Operation request \<noteq> LifecycleCancel \<longrightarrow> rq_Generation request =
      cl_generation (ss_closure s) + of_bool (rq_Operation request = LifecycleUpdate)"
    using valid(1,3)
    by (auto simp: operate_def Let_def atGeneration_def ValidateLifecycleRequest_def operations split: if_splits)
  moreover have "rq_StateToken request = ss_tokenText s"
    if "rq_Operation request = LifecycleAnalyze" "\<not> rq_ResetState request"
    using valid(3) that run(2)
    by (auto simp: operate_def Let_def atGeneration_def analyze_def bindS_Inr_iff getS_def operations split: if_splits)
  moreover have "rq_StateToken request = ss_tokenText s \<and> rq_StateToken request \<noteq> []"
    if "rq_Operation request = LifecycleSymbols"
    using valid(3) that run(2)
    by (auto simp: operate_def Let_def atGeneration_def readSymbols_def bindS_Inr_iff getS_def operations split: if_splits)
  ultimately show ?thesis using valid(2) by blast
qed

theorem accepted_requests_current_witness:
  "rs_OK (fst exampleAnalyzed) \<and> rq_Generation exampleAnalysis = cl_generation (ss_closure exampleSession)"
proof -
  obtain response s where run: "exampleAnalyzed = (response, s, ())" "rs_OK response"
    "lifecycle exampleSessionEnv None exampleAnalysis (exampleSession, ()) = (response, s, ())"
    using exampleAnalyzed_run by metis
  have "\<not> ss_closed exampleSession" by code_simp
  then show ?thesis
    using accepted_requests_current[OF exampleSession_ok _ run(3,2)] run(2) by (simp add: operations run(1))
qed

text \<open>
  C36. A closed session is at rest: no request changes it or the arena, and only a repeated close of a
  session that closed without an error is answered OK.
\<close>

theorem closed_session_rests:
  assumes "ss_closed s" and "lifecycle env arena request (s, a) = (response, s', a')"
  shows "s' = s \<and> a' = a \<and>
    (rs_OK response \<longleftrightarrow> ValidateLifecycleRequest request = None \<and> rq_Schema request = ss_schema s \<and>
       Clean (rq_ProjectID request) = ss_projectID s \<and> rq_Operation request = LifecycleClose \<and> ss_closeErr s = None)"
proof (cases "ValidateLifecycleRequest request")
  case None
  then show ?thesis using assms
    by (auto simp: lifecycle_def admit_def bindS_def getS_def retS_def failWith_def respond_def modS_def failS_def
      startResponse_def split: if_splits)
next
  case (Some e)
  then show ?thesis using assms
    by (auto simp: lifecycle_def admit_def bindS_def getS_def retS_def failWith_def respond_def modS_def failS_def
      startResponse_def)
qed

theorem closed_session_rests_witness:
  "let s = exampleSession\<lparr>ss_closed := True\<rparr>
   in \<exists>response. lifecycle exampleSessionEnv None (exampleRequest LifecycleClose 1) (s, ()) = (response, s, ()) \<and> rs_OK response"
proof -
  let ?s = "exampleSession\<lparr>ss_closed := True\<rparr>" and ?r = "exampleRequest LifecycleClose 1"
  obtain response s' where run: "lifecycle exampleSessionEnv None ?r (?s, ()) = (response, s', ())"
    by (metis prod_cases3 unit.exhaust)
  have "ss_closed ?s" by simp
  note rests = closed_session_rests[OF this run]
  have "ValidateLifecycleRequest ?r = None" "rq_Schema ?r = ss_schema ?s" "Clean (rq_ProjectID ?r) = ss_projectID ?s"
    "rq_Operation ?r = LifecycleClose" "ss_closeErr ?s = None" by code_simp+
  then show ?thesis using rests run by simp
qed

end
