(* ===== verification/Service_Responder.thy ===== *)
theory Service_Responder
  imports Service_Properties Session_Properties Transition_Arena
begin

text \<open>
  The responder of the service (\<^verbatim>\<open>lifecycleResponder\<close> of \<^verbatim>\<open>cmd/solid-typefacts/main.go\<close>) and the whole
  service over a session. The environment of a session depends on the context of the request. The fault
  injection of the client's tests and tracing are not modelled.
\<close>

section \<open>The responder\<close>

definition responder_lifecycle ::
    "(nat option \<Rightarrow> 'w SessionEnv) \<Rightarrow> nat option \<Rightarrow> LifecycleRequest \<Rightarrow> 'w Session \<times> transitionFileArena option \<Rightarrow>
     LifecycleResponse \<times> 'w Session \<times> transitionFileArena option" where
  "responder_lifecycle envOf point request = (\<lambda>(s, arena).
     let plain = (\<lambda>arena. let (response, s, _) = lifecycle (envOf point) None request (s, ()) in (response, s, arena))
     in if arena \<noteq> None \<and> (rq_Operation request = LifecycleAnalyze \<or> rq_Operation request = LifecycleSymbols)
        then
          (case arena_Begin (rq_RequestID request) arena of
             (None, Some a) \<Rightarrow>
               let (response, s, a) = lifecycle (envOf point) (Some fileArena) request (s, a);
                   response = (case arena_descriptor (Some a) of
                       Some (path, descriptor) \<Rightarrow>
                         if rs_OK response then response\<lparr>rs_SourceArena := path, rs_SourceLengths := descriptor\<rparr> else response
                     | None \<Rightarrow> response)
               in (response, s, Some a)
           | (_, arena) \<Rightarrow> plain arena)
        else plain arena)"

section \<open>A response names its request\<close>

definition named :: "LifecycleRequest \<Rightarrow> 'w Session \<Rightarrow> LifecycleResponse \<Rightarrow> bool" where
  "named request s r \<longleftrightarrow> rs_RequestID r = rq_RequestID request \<and> rs_ProjectID r = ss_projectID s \<and> rs_Schema r = ss_schema s"

lemma keeps_part_response:
  assumes "\<And>x p. ex_response (update p x) = ex_response x"
  shows "keeps (\<lambda>x. N (ex_response x)) (partS part update m)"
  by (rule keepsI, unfold wp_partS) (simp add: wp_def outcome_def assms split: prod.split sum.split)

lemma keeps_responds: "(\<And>r. N r \<Longrightarrow> N (f r)) \<Longrightarrow> keeps (\<lambda>x. N (ex_response x)) (respond f)"
  unfolding respond_def by (rule keeps_modS) simp

lemma keeps_deferS:
  assumes "keeps I m" and "\<And>r s. I s \<Longrightarrow> I (f r s)"
  shows "keeps I (deferS f m)"
  by (rule keepsI, unfold wp_deferS) (rule wp_mono[OF keepsD[OF assms(1)]], auto intro: assms(2))

lemma keeps_failWith: "(\<And>r e. N r \<Longrightarrow> N (r\<lparr>rs_Error := Some e\<rparr>)) \<Longrightarrow> keeps (\<lambda>x. N (ex_response x)) (failWith code err)"
  unfolding failWith_def by (intro keeps_rules keeps_responds)

lemma keeps_calls:
  "keeps (\<lambda>x. N (ex_response x)) (inClosure m)"
  "keeps (\<lambda>x. N (ex_response x)) (inSession m')"
  unfolding inClosure_def inSession_def by (rule keeps_part_response, simp)+

lemma keeps_encodes: "keeps (\<lambda>x. N (ex_response x)) (sessionEncode env arena input)"
  by (rule keepsI) (auto simp: wp_def outcome_def sessionEncode_def Let_def split: prod.split sum.split)

lemma keeps_tables: "keeps (\<lambda>x. N (ex_response x)) (analyzedTable env generation)"
  by (rule keepsI) (auto simp: wp_def outcome_def analyzedTable_def partS_def split: prod.splits sum.split)

lemma keeps_begins:
  "(\<And>r e. N r \<Longrightarrow> N (r\<lparr>rs_Error := Some e\<rparr>)) \<Longrightarrow> keeps (\<lambda>x. N (ex_response x)) (beginTransaction request)"
  by (rule keepsI)
    (auto simp: wp_def outcome_def beginTransaction_def Let_def failWith_def bindS_def respond_def modS_def failS_def
      split: option.split sum.split prod.split)

lemma keeps_closes:
  "(\<And>r e. N r \<Longrightarrow> N (r\<lparr>rs_Error := Some e\<rparr>)) \<Longrightarrow> keeps (\<lambda>x. N (ex_response x)) (closeSession env)"
  by (rule keepsI)
    (auto simp: wp_def outcome_def closeSession_def Let_def failWith_def bindS_def respond_def modS_def failS_def
      split: option.split sum.split prod.split)

text \<open>Every operation is built from calls that leave the response alone and from updates of other fields.\<close>

definition neutral :: "(LifecycleResponse \<Rightarrow> bool) \<Rightarrow> bool" where
  "neutral N \<longleftrightarrow> (\<forall>r r'. rs_RequestID r' = rs_RequestID r \<and> rs_ProjectID r' = rs_ProjectID r \<and> rs_Schema r' = rs_Schema r \<longrightarrow>
     N r \<longrightarrow> N r')"

lemma neutral_update:
  "neutral N \<Longrightarrow> N r \<Longrightarrow> rs_RequestID (f r) = rs_RequestID r \<Longrightarrow> rs_ProjectID (f r) = rs_ProjectID r \<Longrightarrow>
   rs_Schema (f r) = rs_Schema r \<Longrightarrow> N (f r)"
  unfolding neutral_def by blast

lemma keeps_neutral:
  assumes "neutral N"
  shows "keeps (\<lambda>x. N (ex_response x)) (admit env arena request)"
proof -
  note updates = keeps_responds[of N, OF neutral_update[OF assms]]
  have fail: "keeps (\<lambda>x. N (ex_response x)) (failWith code err)" for code err
    by (rule keeps_failWith) (rule neutral_update[OF assms], simp_all)
  have begins: "keeps (\<lambda>x. N (ex_response x)) (beginTransaction request)"
    and closes: "keeps (\<lambda>x. N (ex_response x)) (closeSession env)"
    by (rule keeps_begins keeps_closes; rule neutral_update[OF assms], simp_all)+
  note calls = keeps_calls keeps_encodes keeps_tables fail
  have cancelled: "keeps (\<lambda>x. N (ex_response x)) (failCancelled env code err)"
    "keeps (\<lambda>x. N (ex_response x)) (stopIfCancelled env)" for code err
    unfolding failCancelled_def stopIfCancelled_def by (intro keeps_rules calls)+
  have evidence: "keeps (\<lambda>x. N (ex_response x)) (populateSymbolEvidence env request a)" for a
    unfolding populateSymbolEvidence_def packEvidence_def populateReferences_def
    by (intro keeps_rules calls updates; simp)
  have encode: "keeps (\<lambda>x. N (ex_response x)) (encodeTransition env arena reset generation table)" for reset generation table
    unfolding encodeTransition_def by (intro keeps_rules calls)
  have attach: "keeps (\<lambda>x. N (ex_response x)) (attachTransition table transition)" for table transition
    unfolding attachTransition_def by (intro keeps_rules calls updates; simp)
  have pub: "keeps (\<lambda>x. N (ex_response x)) (publish table)" for table
    unfolding publish_def by (rule keeps_modS) (simp add: Let_def split: prod.split)
  have transaction: "keeps (\<lambda>x. N (ex_response x)) (analyzeTransaction env arena request generation)" for generation
    unfolding analyzeTransaction_def
  proof (rule keeps_deferS)
    show "N (ex_response x) \<Longrightarrow> N (ex_response (case r of Inl _ \<Rightarrow> abandon x | Inr _ \<Rightarrow> x))" for r x
      by (cases r) (simp_all add: abandon_def Let_def split: prod.split)
  qed (intro keeps_rules calls cancelled evidence encode attach pub updates; simp)+
  have "keeps (\<lambda>x. N (ex_response x)) (operate env arena request generation)" for generation
    unfolding operate_def Let_def atGeneration_def updateFiles_def analyze_def readSymbols_def readSources_def readModules_def
    by (intro keeps_rules calls cancelled evidence transaction begins closes updates; simp)
  then show ?thesis
    unfolding admit_def by (intro keeps_rules calls)
qed

lemma lifecycle_named:
  assumes "lifecycle env arena request (s, a) = (response, s', a')"
  shows "named request s response"
proof -
  let ?x = "\<lparr>ex_session = s, ex_arena = a, ex_response = startResponse request s, ex_transaction = noTransaction\<rparr>"
  obtain r x where run: "admit env arena request ?x = (r, x)" by force
  have "neutral (named request s)" by (simp add: neutral_def named_def)
  from keeps_result[OF keeps_neutral[OF this] _ run] have "named request s (ex_response x)"
    by (simp add: named_def startResponse_def)
  then show ?thesis using assms run by (auto simp: lifecycle_def named_def split: sum.splits)
qed

section \<open>A served session\<close>

text \<open>Whichever way the responder takes, the session makes one lifecycle step; only the arena fields of the response differ.\<close>

definition armed :: "LifecycleResponse \<Rightarrow> LifecycleResponse \<Rightarrow> bool" where
  "armed r response \<longleftrightarrow> response = r \<or> rs_OK r \<and> (\<exists>path lengths. response = r\<lparr>rs_SourceArena := path, rs_SourceLengths := lengths\<rparr>)"

lemma armed_intros:
  "armed r r" "rs_OK r \<Longrightarrow> armed r (r\<lparr>rs_SourceArena := path, rs_SourceLengths := lengths\<rparr>)"
  unfolding armed_def by blast+

lemma responder_step:
  assumes "responder_lifecycle envOf point request (s, arena) = (response, s', arena')"
  shows "lifecycle (envOf point) None request (s, ()) = (response, s', ()) \<or>
    (\<exists>a a' r. lifecycle (envOf point) (Some fileArena) request (s, a) = (r, s', a') \<and> armed r response)"
proof -
  obtain r t where plain: "lifecycle (envOf point) None request (s, ()) = (r, t, ())" by (metis prod_cases3 unit.exhaust)
  show ?thesis
  proof (cases "\<exists>a. arena_Begin (rq_RequestID request) arena = (None, Some a) \<and> arena \<noteq> None \<and>
      (rq_Operation request = LifecycleAnalyze \<or> rq_Operation request = LifecycleSymbols)")
    case True
    then obtain a where a: "arena_Begin (rq_RequestID request) arena = (None, Some a)" "arena \<noteq> None"
      "rq_Operation request = LifecycleAnalyze \<or> rq_Operation request = LifecycleSymbols" by blast
    obtain q u a' where run: "lifecycle (envOf point) (Some fileArena) request (s, a) = (q, u, a')" by (metis prod_cases3)
    have "responder_lifecycle envOf point request (s, arena) =
        (case arena_descriptor (Some a') of
           Some (path, descriptor) \<Rightarrow> if rs_OK q then q\<lparr>rs_SourceArena := path, rs_SourceLengths := descriptor\<rparr> else q
         | None \<Rightarrow> q, u, Some a')"
      using a(2,3) by (simp add: responder_lifecycle_def a(1) run)
    then have u: "u = s'" and response: "response = (case arena_descriptor (Some a') of
           Some (path, descriptor) \<Rightarrow> if rs_OK q then q\<lparr>rs_SourceArena := path, rs_SourceLengths := descriptor\<rparr> else q
         | None \<Rightarrow> q)"
      using assms by simp_all
    have "armed q response"
      unfolding response by (simp add: armed_intros split: option.split prod.split)
    with u have "u = s' \<and> armed q response" by simp
    then show ?thesis using run by blast
  next
    case False
    then have "response = r \<and> s' = t"
      using assms plain by (auto simp: responder_lifecycle_def Let_def split: prod.splits option.splits if_splits)
    then show ?thesis using plain by simp
  qed
qed

definition step_ok :: "LifecycleRequest \<Rightarrow> 'w Session \<Rightarrow> LifecycleResponse \<Rightarrow> 'w Session \<Rightarrow> bool" where
  "step_ok request s response s' \<longleftrightarrow> session_ok s' \<and> named request s response \<and>
     cl_generation (ss_closure s') = cl_generation (ss_closure s) + of_nat (tookUpdate request response) \<and>
     rs_Generation response = cl_generation (ss_closure s') \<and> (rs_OK response \<longleftrightarrow> rs_Error response = None)"

lemma lifecycle_step_ok:
  assumes "session_ok s" and "clean_backend (se_closure env)" and "lifecycle env arena request (s, a) = (response, s', a')"
  shows "step_ok request s response s'"
proof -
  have "rs_OK response \<longleftrightarrow> rs_Error response = None" using lifecycle_outcome(2,3)[OF assms(1,3)] by blast
  then show ?thesis
    using lifecycle_counts(1,2)[OF assms] lifecycle_outcome(1)[OF assms(1,3)] lifecycle_named[OF assms(3)]
    by (simp add: step_ok_def)
qed

lemma responder_step_ok:
  assumes "session_ok s" and "clean_backend (se_closure (envOf point))"
    and "responder_lifecycle envOf point request (s, arena) = (response, s', arena')"
  shows "step_ok request s response s'"
  using responder_step[OF assms(3)]
proof (elim disjE exE conjE)
  fix a a' r
  assume "lifecycle (envOf point) (Some fileArena) request (s, a) = (r, s', a')" "armed r response"
  then show ?thesis
    using lifecycle_step_ok[OF assms(1,2), of "Some fileArena" request a r s' a']
    by (auto simp: step_ok_def armed_def named_def tookUpdate_def)
qed (rule lifecycle_step_ok[OF assms(1,2)])

text \<open>What all answers of a served session satisfy.\<close>

definition updates_in :: "LifecycleRequest list \<Rightarrow> LifecycleResponse list \<Rightarrow> nat" where
  "updates_in requests responses = (\<Sum>(request, response) \<leftarrow> zip requests responses. tookUpdate request response)"

definition verdict :: "LifecycleRequest \<Rightarrow> LifecycleResponse \<Rightarrow> bool" where
  "verdict request response \<longleftrightarrow> rs_RequestID response = rq_RequestID request \<and> (rs_OK response \<longleftrightarrow> rs_Error response = None)"

lemma served_all:
  assumes "sve_respond env = responder_lifecycle envOf" and "\<And>point. clean_backend (se_closure (envOf point))"
  shows "serveAll env requests (s, arena) = (responses, s', arena') \<Longrightarrow> session_ok s \<Longrightarrow>
    session_ok s' \<and> list_all2 verdict (map fst requests) responses \<and>
    cl_generation (ss_closure s') = cl_generation (ss_closure s) + of_nat (updates_in (map fst requests) responses)"
proof (induction requests arbitrary: s arena responses)
  case Nil
  then show ?case by (simp add: updates_in_def)
next
  case (Cons x rest)
  obtain request point where x: "x = (request, point)" by force
  obtain response t arena1 where step: "responder_lifecycle envOf point request (s, arena) = (response, t, arena1)"
    by (metis prod_cases3)
  obtain responses' where rest: "serveAll env rest (t, arena1) = (responses', s', arena')" "responses = response # responses'"
    using Cons.prems(1) step by (auto simp: x assms(1) split: prod.splits)
  have ok: "step_ok request s response t"
    by (rule responder_step_ok[where envOf = envOf, OF Cons.prems(2) assms(2) step])
  then have "session_ok t" by (simp add: step_ok_def)
  from Cons.IH[OF rest(1) this] ok show ?case
    by (simp add: x rest(2) step_ok_def verdict_def named_def updates_in_def)
qed

definition exampleSessionServe :: "(unit Session \<times> transitionFileArena option, bytes) serveEnv" where
  "exampleSessionServe = \<lparr>sve_Unmarshal = exampleUnmarshal, sve_respond = responder_lifecycle (\<lambda>_. exampleSessionEnv),
     sve_marshal = \<lparr>ms_field = (\<lambda>_. Inr []), ms_response = (\<lambda>r. Inr [of_bool (rs_OK r)])\<rparr>, sve_out = bufferOut\<rparr>"

text \<open>
  C16. The service over a fresh session: whatever the interleaving, the session keeps its invariant, each
  answer names the request at its position in arrival order and is OK exactly when it carries no error,
  the generation of the session is one more than the number of updates
  that were answered OK, and after a return without an error the client was sent the answer of
  every accepted request.
\<close>

theorem serve_session:
  assumes "newSession (envOf None) projectID w = (Inr s0, w')" and "\<And>point. clean_backend (se_closure (envOf point))"
    and "sve_respond env = responder_lifecycle envOf"
    and "service_run env (startService input (s0, arena) output) trace s"
  shows "\<exists>responses. session_ok (fst (sv_session s)) \<and>
    list_all2 verdict (take (length responses) (map fst (accepted_in trace))) responses \<and>
    take (length (written_in trace)) responses = written_in trace \<and>
    cl_generation (ss_closure (fst (sv_session s))) =
      1 + of_nat (updates_in (take (length responses) (map fst (accepted_in trace))) responses) \<and>
    (sv_main s = MainReturned None \<longrightarrow> length (accepted_in trace) = length responses \<and> written_in trace = responses)"
proof -
  obtain responses where run: "serveAll env (zip (map fst (accepted_in trace)) (points_in trace)) (s0, arena) = (responses, sv_session s)"
    "length (points_in trace) \<le> length (accepted_in trace)" "take (length (written_in trace)) responses = written_in trace"
    "sv_main s = MainReturned None \<Longrightarrow> length (points_in trace) = length (accepted_in trace) \<and> written_in trace = responses"
    using answers_in_order[OF assms(4)] by blast
  have "session_ok s0" by (rule session_ok_new[OF assms(1)])
  moreover have "cl_generation (ss_closure s0) = 1"
    using assms(1) by (auto simp: newSession_def newDemandClosure_def split: if_splits)
  ultimately have served: "session_ok (fst (sv_session s)) \<and>
      list_all2 verdict (map fst (zip (map fst (accepted_in trace)) (points_in trace))) responses \<and>
      cl_generation (ss_closure (fst (sv_session s))) =
        1 + of_nat (updates_in (map fst (zip (map fst (accepted_in trace)) (points_in trace))) responses)"
    using served_all[OF assms(3,2), of _ s0 arena responses "fst (sv_session s)" "snd (sv_session s)"] run(1) by simp
  moreover have "map fst (zip (map fst (accepted_in trace)) (points_in trace)) =
      take (length (points_in trace)) (map fst (accepted_in trace))"
    using run(2) by (simp add: map_fst_zip_take min_absorb2)
  moreover have "length responses = length (points_in trace)"
    using served run(2) by (auto dest!: list_all2_lengthD)
  ultimately show ?thesis using run(3,4) by (intro exI[of _ responses]) simp
qed

theorem serve_session_witness:
  "\<exists>s. service_run exampleSessionServe (startService exampleFrames (exampleSession, None) [])
      [Internal, Accepted (exampleLifecycle LifecycleAnalyze 7 0) (Some 0), Internal,
       Accepted (exampleLifecycle LifecycleCancel 8 7) None, Internal, Answered (Some 0)] s \<and> session_ok (fst (sv_session s))"
proof -
  obtain s where run: "service_run exampleSessionServe (startService exampleFrames (exampleSession, None) [])
      [Internal, Accepted (exampleLifecycle LifecycleAnalyze 7 0) (Some 0), Internal,
       Accepted (exampleLifecycle LifecycleCancel 8 7) None, Internal, Answered (Some 0)] s"
    using example_run_any[of exampleSessionServe "(exampleSession, None)" "[]"] by (auto simp: exampleSessionServe_def)
  have "sve_respond exampleSessionServe = responder_lifecycle (\<lambda>_. exampleSessionEnv)" by (simp add: exampleSessionServe_def)
  from serve_session[OF exampleSession_new clean_exampleEnv this run] show ?thesis using run by blast
qed

end
