(* ===== verification/Divergences.thy ===== *)
theory Divergences
  imports Session_Properties Entity_Reader
begin

text \<open>
  Two behaviours that the model exposes, each as a run of the code's model on a small project. They bound
  what the properties of the transport can say: the sparse transition speaks of the rows of the demand
  contributions, and a reset is complete only when some demanded file changes hands.
\<close>

declare evictSymbols.simps [code]

section \<open>Async rows outside the manifest\<close>

text \<open>
  A demand in file \<open>b\<close> surfaces an async function of file \<open>a\<close> until an update of \<open>b\<close> takes it away; the
  world remembers the update.
\<close>

definition crossFact :: AsyncFunctionFact where
  "crossFact = \<lparr>af_Expression = \<lparr>loc_Path = ''a'', loc_StartByte = 0, loc_EndByte = 1\<rparr>, af_Symbol = ''symbol:h:1'',
     af_Target = [], af_CanReturnAsync = True, af_CallsAfterAwait = []\<rparr>"

definition crossEnv :: "bool ClosureEnv" where
  "crossEnv = \<lparr>env_Err = (\<lambda>w. (None, w)), env_maphash = (\<lambda>bs. of_nat (length bs)),
     cb_SourceFiles = retS [], cb_SourceDigests = retS [exampleDigest ''a'' 1, exampleDigest ''b'' 2],
     cb_Update = (\<lambda>_ w. (Inr [''b''], True)), cb_Close = retS (),
     cb_SemanticDemandRuns = (\<lambda>runs _ _. retS (map exampleAnswer runs)),
     cb_AsyncFunctionsAt = (\<lambda>_ w. (Inr (if w then [] else [crossFact]), w)),
     cb_SymbolEvidence = (\<lambda>_. retS []), cb_ChangedReferences = retS ([], True),
     cb_ReleaseAnalysisState = retS (), cb_ModuleGraph = None\<rparr>"

definition crossTables :: "FactTable option \<times> FactTable option" where
  "crossTables =
    (case demandTableForCanonicalGroups crossEnv 1 [''b''] \<lparr>run_closure = newDemandClosure False,
         run_groups = [zeroDemandGroup\<lparr>dg_path := ''b'', dg_demands := Some [demandOfFlags ''b'' 0 1 16]\<rparr>]\<rparr> of
       (Inr t, r) \<Rightarrow>
         (case Update crossEnv [] (run_closure r) of
            (_, p) \<Rightarrow>
              (case demandTableForCanonicalGroups crossEnv 2 [] (r\<lparr>run_closure := p\<rparr>) of
                 (Inr t', _) \<Rightarrow> (Some t, Some t')
               | _ \<Rightarrow> (Some t, None)))
     | _ \<Rightarrow> (None, None))"

text \<open>The row of \<open>a\<close> changes between the two tables, but the exact manifest of the second does not name it.\<close>

lemma async_row_outside_manifest:
  "case crossTables of
     (Some t, Some t') \<Rightarrow> map file_Path (ft_Files t) = [''a'', ''b''] \<and> map file_Path (ft_Files t') = [''a'', ''b''] \<and>
       file_AsyncFunctions (hd (ft_Files t)) = [crossFact] \<and> file_AsyncFunctions (hd (ft_Files t')) = [] \<and>
       (case ft_transport t' of Some m \<Rightarrow> tc_exact m \<and> ''a'' \<notin> set (tc_filePaths m) | None \<Rightarrow> False)
   | _ \<Rightarrow> False"
  by code_simp

section \<open>A repeated reset without demands\<close>

definition emptyReset :: LifecycleRequest where
  "emptyReset = (exampleRequest LifecycleAnalyze 1)\<lparr>rq_ResetState := True\<rparr>"

text \<open>What the client decodes of a response: the mode of the transition and its number of path operations.\<close>

definition sentPaths :: "LifecycleResponse \<Rightarrow> (wireTransitionMode \<times> nat) option" where
  "sentPaths response = (case decode_table_transition (rs_TableTransition response) of
     Inr frame \<Rightarrow> Some (wtt_mode frame, length (wtt_paths frame)) | Inl _ \<Rightarrow> None)"

text \<open>
  The second of two resets in one generation is answered from the table whose rows were released after the
  first, so that its full transition replaces the client's two source rows by nothing.
\<close>

lemma repeated_empty_reset:
  "case lifecycle exampleSessionEnv None emptyReset (exampleSession, ()) of
     (response, x) \<Rightarrow>
       (case lifecycle exampleSessionEnv None emptyReset x of
          (response', _) \<Rightarrow> rs_OK response \<and> rs_OK response' \<and> sentPaths response = Some (wireTransitionFull, 2) \<and>
            sentPaths response' = Some (wireTransitionFull, 0))"
  by code_simp

end
