(* ===== verification/Overlay.thy ===== *)
theory Overlay
  imports Go_Std Go_State
begin

text \<open>
  The overlay file system of the project adapter (\<^verbatim>\<open>internal/typefacts/tsgo/overlay.go\<close>): unsaved
  sources and deletions of a session over the files of the disk, as the compiler reads them. The base
  file system belongs to the compiler and is a parameter. The first section models what the code uses
  of \<^verbatim>\<open>path/filepath\<close> beyond \<^verbatim>\<open>Clean\<close>: \<^verbatim>\<open>Dir\<close>, \<^verbatim>\<open>Base\<close> and \<^verbatim>\<open>Rel\<close> on Unix.
\<close>

section \<open>filepath.Dir, filepath.Base, filepath.Rel\<close>

definition Dir :: "string \<Rightarrow> string" where
  "Dir path = Clean (rev (dropWhile (\<lambda>c. c \<noteq> slash) (rev path)))"

definition Base :: "string \<Rightarrow> string" where
  "Base path =
     (if path = [] then dot
      else let element = rev (takeWhile (\<lambda>c. c \<noteq> slash) (dropWhile (\<lambda>c. c = slash) (rev path)))
           in if element = [] then [slash] else element)"

text \<open>The elements of a cleaned path.\<close>

definition path_parts :: "string \<Rightarrow> string list" where
  "path_parts path =
     (let cleaned = Clean path;
          body = (if hd cleaned = slash then tl cleaned else cleaned)
      in if body = [] \<or> body = dot then [] else split_path body)"

definition rooted :: "string \<Rightarrow> bool" where
  "rooted path \<longleftrightarrow> hd (Clean path) = slash"

fun strip_common :: "string list \<Rightarrow> string list \<Rightarrow> string list \<times> string list" where
  "strip_common (x # xs) (y # ys) = (if x = y then strip_common xs ys else (x # xs, y # ys))"
| "strip_common xs ys = (xs, ys)"

definition Rel :: "string \<Rightarrow> string \<Rightarrow> string option" where
  "Rel basepath targpath =
     (if rooted basepath \<noteq> rooted targpath then None
      else
        (case strip_common (path_parts basepath) (path_parts targpath) of
           (up, down) \<Rightarrow>
             if up \<noteq> [] \<and> hd up = dotdot then None
             else Some (let elements = replicate (length up) dotdot @ down
                        in if elements = [] then dot else join_path elements)))"

section \<open>Path facts\<close>

lemma split_path_snoc_slash: "split_path (q @ [slash]) = split_path q @ [[]]"
  by (induction q) (auto split: list.splits)

lemma Clean_snoc_slash: "q \<noteq> [] \<Longrightarrow> Clean (q @ [slash]) = Clean q"
  by (simp add: Clean_def split_path_snoc_slash clean_step_def Let_def)

lemma join_path_snoc: "es \<noteq> [] \<Longrightarrow> join_path (es @ [e]) = join_path es @ slash # e"
  by (induction es rule: join_path.induct) auto

lemma clean_stack_tl: "clean_stack r (x # xs) \<Longrightarrow> clean_stack r xs"
  using clean_stack_dotdots[of r xs] by (auto split: if_splits)

lemma clean_stack_body:
  assumes "clean_stack r out" and "out \<noteq> []"
  shows "join_path (rev out) \<noteq> []" and "hd (join_path (rev out)) \<noteq> slash" and "join_path (rev out) \<noteq> dot"
    and "split_path (join_path (rev out)) = rev out"
proof -
  note el = clean_stack_elements[OF assms(1)]
  show ne: "join_path (rev out) \<noteq> []" using assms(2) el join_path_eq_Nil[of "rev out"] by auto
  show split: "split_path (join_path (rev out)) = rev out" using assms(2) el by (intro split_join_path) auto
  have "last out \<in> set out" using assms(2) by simp
  then have "hd (rev out) \<noteq> []" "slash \<notin> set (hd (rev out))" using el[of "last out"] by (simp_all add: hd_rev)
  then show "hd (join_path (rev out)) \<noteq> slash"
    using assms(2) hd_join_path[of "rev out"] by (cases "hd (rev out)") auto
  show "join_path (rev out) \<noteq> dot"
  proof
    assume "join_path (rev out) = dot"
    then have "split_path dot = rev out" using split by (simp only:)
    then have "dot \<in> set (rev out)" by (simp flip: \<open>split_path dot = rev out\<close>)
    then show False using el[of dot] by simp
  qed
qed

lemma clean_path_cases:
  assumes "Clean p = p"
  obtains r out where "clean_stack r out" "p = render_path r out"
proof (rule Clean_eq_render_path[of p])
  fix r out
  assume "clean_stack r out" "Clean p = render_path r out"
  then show thesis using that assms by simp
qed

lemma render_hd: "clean_stack r out \<Longrightarrow> (hd (render_path r out) = slash) = r"
  using clean_stack_body[of r out] by (cases "out = []") (auto simp: render_path_def)

lemma path_parts_render:
  assumes "clean_stack r out"
  shows "path_parts (render_path r out) = rev out"
  using clean_stack_body[OF assms] unfolding path_parts_def Clean_render_path[OF assms] Let_def
  by (cases "out = []") (auto simp: render_path_def)

lemma rooted_render: "clean_stack r out \<Longrightarrow> rooted (render_path r out) = r"
  by (simp add: rooted_def Clean_render_path render_hd)

text \<open>A clean path is determined by its root and its elements.\<close>

lemma clean_path_eqI:
  assumes "Clean p = p" "Clean q = q" "rooted p = rooted q" "path_parts p = path_parts q"
  shows "p = q"
proof -
  obtain r out where p: "clean_stack r out" "p = render_path r out" using assms(1) by (rule clean_path_cases)
  obtain r' out' where q: "clean_stack r' out'" "q = render_path r' out'" using assms(2) by (rule clean_path_cases)
  show ?thesis using assms(3,4) p q by (simp add: rooted_render path_parts_render)
qed

lemma takeWhile_element: "slash \<notin> set e \<Longrightarrow> takeWhile (\<lambda>c. c \<noteq> slash) (e @ slash # s) = e"
  by (induction e) auto

lemma dropWhile_element: "slash \<notin> set e \<Longrightarrow> dropWhile (\<lambda>c. c \<noteq> slash) (e @ slash # s) = slash # s"
  by (induction e) auto

lemma whole_element: "slash \<notin> set e \<Longrightarrow> takeWhile (\<lambda>c. c \<noteq> slash) e = e \<and> dropWhile (\<lambda>c. c \<noteq> slash) e = []"
  by (induction e) auto

lemma render_path_Cons:
  assumes "clean_stack r (x # out)"
  shows "render_path r (x # out) = (if out = [] then (if r then [slash] else []) else render_path r out @ [slash]) @ x"
  using clean_stack_body[OF assms] clean_stack_body[OF clean_stack_tl[OF assms]]
  by (auto simp: render_path_def join_path_snoc)

lemma Dir_Base_render:
  assumes "clean_stack r (x # out)"
  shows "Dir (render_path r (x # out)) = render_path r out" and "Base (render_path r (x # out)) = x"
proof -
  have x: "slash \<notin> set x" "x \<noteq> []" using clean_stack_elements[OF assms, of x] by auto
  have rx: "slash \<notin> set (rev x)" "rev x \<noteq> []" "hd (rev x) \<noteq> slash"
    using x last_in_set[of x] by (auto simp: hd_rev simp del: last_in_set)
  have skip: "dropWhile (\<lambda>c. c = slash) (rev x @ s) = rev x @ s" for s
    using rx by (cases "rev x") auto
  note tl = clean_stack_tl[OF assms]
  let ?front = "if out = [] then (if r then [slash] else []) else render_path r out @ [slash]"
  have whole: "rev (render_path r (x # out)) = rev x @ rev ?front" by (simp add: render_path_Cons[OF assms])
  have front: "?front = [] \<or> (\<exists>s. rev ?front = slash # s)"
    by (cases "out = []"; cases r) (auto intro: exI[of _ "rev (render_path r out)"])
  have "Clean ?front = render_path r out"
  proof (cases "out = []")
    case True
    then show ?thesis using Clean_render_path[OF tl] by (cases r) (simp_all add: render_path_def Clean_def Let_def clean_step_def)
  next
    case False
    have "render_path r out \<noteq> []" using Clean_render_path[OF tl] Clean_nonempty[of "render_path r out"] by simp
    then show ?thesis using False Clean_render_path[OF tl] by (simp add: Clean_snoc_slash)
  qed
  moreover have "dropWhile (\<lambda>c. c \<noteq> slash) (rev x @ rev ?front) = rev ?front"
  proof (cases "?front = []")
    case True
    then have "rev ?front = []" by simp
    then show ?thesis using whole_element[OF rx(1)] by simp
  next
    case False
    then obtain s where "rev ?front = slash # s" using front by blast
    then show ?thesis using dropWhile_element[OF rx(1)] by simp
  qed
  ultimately show "Dir (render_path r (x # out)) = render_path r out"
    unfolding Dir_def whole by (simp only: rev_rev_ident)
  have "takeWhile (\<lambda>c. c \<noteq> slash) (rev x @ rev ?front) = rev x"
  proof (cases "?front = []")
    case True
    then have "rev ?front = []" by simp
    then show ?thesis using whole_element[OF rx(1)] by simp
  next
    case False
    then obtain s where "rev ?front = slash # s" using front by blast
    then show ?thesis using takeWhile_element[OF rx(1)] by simp
  qed
  moreover have "render_path r (x # out) \<noteq> []" using whole rx(2) by (metis append_is_Nil_conv rev_is_Nil_conv)
  ultimately show "Base (render_path r (x # out)) = x"
    unfolding Base_def whole skip Let_def using x(2) by simp
qed

lemma Clean_Dir [simp]: "Clean (Dir p) = Dir p"
  by (simp add: Dir_def)

lemma Dir_parts:
  assumes "Clean p = p" "path_parts p \<noteq> []"
  shows "path_parts (Dir p) = butlast (path_parts p)" and "rooted (Dir p) = rooted p" and "Base p = last (path_parts p)"
proof -
  obtain r out where p: "clean_stack r out" "p = render_path r out" using assms(1) by (rule clean_path_cases)
  obtain x rest where out: "out = x # rest" using assms(2) p by (cases out) (auto simp: path_parts_render)
  note stack = p(1)[unfolded out]
  show "path_parts (Dir p) = butlast (path_parts p)"
    by (simp add: p(2) out Dir_Base_render[OF stack] path_parts_render[OF stack] path_parts_render[OF clean_stack_tl[OF stack]])
  show "rooted (Dir p) = rooted p"
    by (simp add: p(2) out Dir_Base_render[OF stack] rooted_render[OF stack] rooted_render[OF clean_stack_tl[OF stack]])
  show "Base p = last (path_parts p)"
    by (simp add: p(2) out Dir_Base_render[OF stack] path_parts_render[OF stack])
qed

section \<open>The overlay\<close>

text \<open>What a file system answers about a file or a directory.\<close>

record fileInfo =
  fi_name :: string
  fi_size :: int
  fi_directory :: bool

record entries =
  en_Files :: "string list"
  en_Directories :: "string list"
  en_Symlinks :: "string list option"

datatype fileMode = ModeFile | ModeDir

record dirEntry =
  de_name :: string
  de_directory :: bool
  de_info :: fileInfo

text \<open>
  The base file system of the compiler. Its walk calls back with the paths below the root; what the call
  backs keep between them is the first component of the state \<open>string list \<times> 'w\<close>.
\<close>

record 'w baseFS =
  bfs_UseCaseSensitiveFileNames :: bool
  bfs_FileExists :: "string \<Rightarrow> bool"
  bfs_ReadFile :: "string \<Rightarrow> string option"
  bfs_DirectoryExists :: "string \<Rightarrow> bool"
  bfs_GetAccessibleEntries :: "string \<Rightarrow> entries"
  bfs_Stat :: "string \<Rightarrow> fileInfo option"
  bfs_Realpath :: "string \<Rightarrow> string"
  bfs_WalkDir :: "string \<Rightarrow> (string \<Rightarrow> dirEntry \<Rightarrow> go_error option \<Rightarrow> (string list \<times> 'w, unit) proc) \<Rightarrow> (string list \<times> 'w, unit) proc"

text \<open>The two maps of the overlay: an association list without repeated keys and a list without repetition.\<close>

record overlayFS =
  ofs_files :: "(string \<times> string) list"
  ofs_deleted :: "string list"

definition newOverlayFS :: overlayFS where
  "newOverlayFS = \<lparr>ofs_files = [], ofs_deleted = []\<rparr>"

text \<open>A copy of an immutable value: the model has no aliasing to break.\<close>

definition cloneOverlay :: "overlayFS \<Rightarrow> overlayFS" where
  "cloneOverlay fs = \<lparr>ofs_files = fold (\<lambda>(path, source) files. AList.update path source files) (ofs_files fs) [],
     ofs_deleted = fold List.insert (ofs_deleted fs) []\<rparr>"

fun contains_scheme :: "string \<Rightarrow> bool" where
  "contains_scheme (a # b # c # cs) = (a # b # c # [] = ''://'' \<or> contains_scheme (b # c # cs))"
| "contains_scheme cs = False"

definition cleanOverlayPath :: "string \<Rightarrow> string" where
  "cleanOverlayPath path = (if contains_scheme path then path else Clean path)"

definition overlay_set :: "string \<Rightarrow> string \<Rightarrow> overlayFS \<Rightarrow> overlayFS" where
  "overlay_set path source fs =
     (let path = cleanOverlayPath path
      in \<lparr>ofs_files = AList.update path source (ofs_files fs), ofs_deleted = removeAll path (ofs_deleted fs)\<rparr>)"

definition overlay_delete :: "string \<Rightarrow> overlayFS \<Rightarrow> overlayFS" where
  "overlay_delete path fs =
     (let path = cleanOverlayPath path
      in \<lparr>ofs_files = AList.delete path (ofs_files fs), ofs_deleted = List.insert path (ofs_deleted fs)\<rparr>)"

definition FileExists :: "'w baseFS \<Rightarrow> overlayFS \<Rightarrow> string \<Rightarrow> bool" where
  "FileExists base fs path =
     (let path = cleanOverlayPath path
      in if path \<in> set (ofs_deleted fs) then False
         else case map_of (ofs_files fs) path of Some _ \<Rightarrow> True | None \<Rightarrow> bfs_FileExists base path)"

definition ReadFile :: "'w baseFS \<Rightarrow> overlayFS \<Rightarrow> string \<Rightarrow> string option" where
  "ReadFile base fs path =
     (let path = cleanOverlayPath path
      in if path \<in> set (ofs_deleted fs) then None
         else case map_of (ofs_files fs) path of Some source \<Rightarrow> Some source | None \<Rightarrow> bfs_ReadFile base path)"

definition isDescendant :: "string \<Rightarrow> string \<Rightarrow> bool" where
  "isDescendant path directory =
     (case Rel directory path of
        None \<Rightarrow> False
      | Some relative \<Rightarrow> relative \<noteq> dot \<and> relative \<noteq> dotdot \<and> take 3 relative \<noteq> ''../'')"

definition DirectoryExists :: "'w baseFS \<Rightarrow> overlayFS \<Rightarrow> string \<Rightarrow> bool" where
  "DirectoryExists base fs path =
     (if bfs_DirectoryExists base path then True
      else let directory = cleanOverlayPath path
           in list_ex (\<lambda>(file, source). isDescendant file directory) (ofs_files fs))"

definition sortedEntryNames :: "string list \<Rightarrow> string list" where
  "sortedEntryNames names = sort (remdups names)"

text \<open>One overlaid file of a listing: a name of the directory, or the first element of a deeper path.\<close>

definition listFile :: "string \<Rightarrow> string \<Rightarrow> string list \<times> string list \<Rightarrow> string list \<times> string list" where
  "listFile directory file = (\<lambda>(files, directories).
     (case Rel directory file of
        None \<Rightarrow> (files, directories)
      | Some relative \<Rightarrow>
          if relative = dot \<or> relative = dotdot \<or> take 3 relative = ''../'' then (files, directories)
          else
            let parts = split_path relative
            in if length parts = 1 then (List.insert (hd parts) files, directories)
               else (files, List.insert (hd parts) directories)))"

definition GetAccessibleEntries :: "'w baseFS \<Rightarrow> overlayFS \<Rightarrow> string \<Rightarrow> entries" where
  "GetAccessibleEntries base fs path =
     (let listed = bfs_GetAccessibleEntries base path;
          directory = cleanOverlayPath path;
          names = fold (\<lambda>file names. if Dir file = directory then removeAll (Base file) names else names)
            (ofs_deleted fs) (remdups (en_Files listed));
          (files, directories) = fold (\<lambda>(file, source). listFile directory file) (ofs_files fs)
            (names, remdups (en_Directories listed))
      in \<lparr>en_Files = sortedEntryNames files, en_Directories = sortedEntryNames directories,
          en_Symlinks = (case en_Symlinks listed of None \<Rightarrow> None
            | Some links \<Rightarrow> Some (filter (\<lambda>name. name \<in> set files \<or> name \<in> set directories) links))\<rparr>)"

definition overlayFileInfo :: "string \<Rightarrow> string \<Rightarrow> fileInfo" where
  "overlayFileInfo path source = \<lparr>fi_name = Base path, fi_size = int (length source), fi_directory = False\<rparr>"

definition overlay_Mode :: "fileInfo \<Rightarrow> fileMode" where
  "overlay_Mode info = (if fi_directory info then ModeDir else ModeFile)"

definition overlay_Stat :: "'w baseFS \<Rightarrow> overlayFS \<Rightarrow> string \<Rightarrow> fileInfo option" where
  "overlay_Stat base fs path =
     (let path = cleanOverlayPath path
      in if path \<in> set (ofs_deleted fs) then None
         else case map_of (ofs_files fs) path of Some source \<Rightarrow> Some (overlayFileInfo path source) | None \<Rightarrow> bfs_Stat base path)"

definition Realpath :: "'w baseFS \<Rightarrow> overlayFS \<Rightarrow> string \<Rightarrow> string" where
  "Realpath base fs path =
     (let path = cleanOverlayPath path
      in case map_of (ofs_files fs) path of Some _ \<Rightarrow> path | None \<Rightarrow> bfs_Realpath base path)"

section \<open>Below a directory\<close>

lemma path_parts_element:
  assumes "e \<in> set (path_parts p)"
  shows "e \<noteq> []" "e \<noteq> dot" "slash \<notin> set e"
proof -
  obtain r out where p: "clean_stack r out" "Clean p = render_path r out" by (rule Clean_eq_render_path)
  have "path_parts p = path_parts (Clean p)" by (simp add: path_parts_def)
  then have "path_parts p = rev out" using p by (simp add: path_parts_render)
  then show "e \<noteq> []" "e \<noteq> dot" "slash \<notin> set e" using assms clean_stack_elements[OF p(1)] by auto
qed

lemma strip_common_split:
  "\<exists>pre. xs = pre @ fst (strip_common xs ys) \<and> ys = pre @ snd (strip_common xs ys)"
proof (induction xs ys rule: strip_common.induct)
  case (1 x xs y ys)
  show ?case
  proof (cases "x = y")
    case True
    then obtain pre where "xs = pre @ fst (strip_common xs ys)" "ys = pre @ snd (strip_common xs ys)"
      using "1.IH" by auto
    then show ?thesis using True by (intro exI[of _ "x # pre"]) simp
  qed simp
qed simp_all

lemma strip_common_prefix: "strip_common xs (xs @ ys) = ([], ys)"
  by (induction xs) simp_all

lemma join_path_up:
  assumes "es \<noteq> []" and "\<And>e. e \<in> set es \<Longrightarrow> e \<noteq> [] \<and> slash \<notin> set e"
  shows "(join_path es = dotdot \<or> take 3 (join_path es) = ''../'') \<longleftrightarrow> hd es = dotdot"
proof -
  obtain x xs where es: "es = x # xs" using assms(1) by (cases es) auto
  have x: "x \<noteq> []" "slash \<notin> set x" using assms(2)[of x] es by auto
  have whole: "split_path (join_path es) = es" using assms by (intro split_join_path) auto
  show ?thesis
  proof (cases xs)
    case Nil
    then show ?thesis using x es in_set_takeD[of slash 3 x] by auto
  next
    case (Cons y ys)
    then have join: "join_path es = x @ slash # join_path xs" by (simp add: es)
    have "join_path es \<noteq> dotdot"
    proof
      assume "join_path es = dotdot"
      then have "slash \<in> set dotdot" using join by (metis in_set_conv_decomp)
      then show False by simp
    qed
    moreover have "take 3 (x @ slash # s) = ''../'' \<longleftrightarrow> x = dotdot" for s
      using x by (cases x; cases "tl x"; cases "tl (tl x)"; auto)
    ultimately show ?thesis using es join by simp
  qed
qed

lemma isDescendant_iff:
  "isDescendant p d \<longleftrightarrow> rooted p = rooted d \<and>
     (\<exists>rest. rest \<noteq> [] \<and> hd rest \<noteq> dotdot \<and> path_parts p = path_parts d @ rest)"
proof (cases "rooted d = rooted p")
  case False
  then show ?thesis by (auto simp: isDescendant_def Rel_def)
next
  case True
  obtain up down where strip: "strip_common (path_parts d) (path_parts p) = (up, down)" by force
  obtain pre where pre: "path_parts d = pre @ up" "path_parts p = pre @ down"
    using strip_common_split[of "path_parts d" "path_parts p"] strip by auto
  let ?es = "replicate (length up) dotdot @ down"
  have down: "e \<noteq> [] \<and> e \<noteq> dot \<and> slash \<notin> set e" if "e \<in> set down" for e
    using path_parts_element[of e p] that pre(2) by simp
  then have es: "e \<noteq> [] \<and> e \<noteq> dot \<and> slash \<notin> set e" if "e \<in> set ?es" for e
    using that by auto
  have "join_path ?es \<noteq> dot" if "?es \<noteq> []"
  proof
    assume "join_path ?es = dot"
    moreover have "split_path (join_path ?es) = ?es" using es that by (intro split_join_path) auto
    ultimately have "?es = [dot]" by simp
    then show False using es[of dot] by auto
  qed
  then have "isDescendant p d \<longleftrightarrow> \<not> (up \<noteq> [] \<and> hd up = dotdot) \<and> ?es \<noteq> [] \<and> hd ?es \<noteq> dotdot"
    using True strip join_path_up[of ?es] es by (auto simp: isDescendant_def Rel_def Let_def)
  also have "\<dots> \<longleftrightarrow> up = [] \<and> down \<noteq> [] \<and> hd down \<noteq> dotdot"
    by (cases up) auto
  also have "\<dots> \<longleftrightarrow> (\<exists>rest. rest \<noteq> [] \<and> hd rest \<noteq> dotdot \<and> path_parts p = path_parts d @ rest)"
  proof
    assume "up = [] \<and> down \<noteq> [] \<and> hd down \<noteq> dotdot"
    then show "\<exists>rest. rest \<noteq> [] \<and> hd rest \<noteq> dotdot \<and> path_parts p = path_parts d @ rest" using pre by auto
  next
    assume "\<exists>rest. rest \<noteq> [] \<and> hd rest \<noteq> dotdot \<and> path_parts p = path_parts d @ rest"
    then obtain rest where rest: "rest \<noteq> []" "hd rest \<noteq> dotdot" "path_parts p = path_parts d @ rest" by blast
    have "(up, down) = ([], rest)"
      using strip[unfolded rest(3) strip_common_prefix] by simp
    then show "up = [] \<and> down \<noteq> [] \<and> hd down \<noteq> dotdot" using rest(1,2) by simp
  qed
  finally show ?thesis using True by simp
qed

section \<open>The walk\<close>

text \<open>\<^verbatim>\<open>fs.SkipDir\<close>.\<close>

definition SkipDir :: go_error where "SkipDir = Errorf ''skip this directory''"

text \<open>The directories of an overlaid file, up to the root of the walk.\<close>

function directoriesBelow :: "string \<Rightarrow> string \<Rightarrow> string list" where
  "directoriesBelow root directory =
     (if isDescendant directory root then directory # directoriesBelow root (Dir directory) else [])"
  by pat_completeness auto

termination
proof (relation "measure (\<lambda>(root, directory).
    if Clean directory = directory then length (path_parts directory) else Suc (length (path_parts (Dir directory))))")
  fix root directory
  assume "isDescendant directory root"
  then have "path_parts directory \<noteq> []" by (auto simp: isDescendant_iff)
  then show "((root, Dir directory), root, directory) \<in> measure (\<lambda>(root, directory).
      if Clean directory = directory then length (path_parts directory) else Suc (length (path_parts (Dir directory))))"
    using Dir_parts(1)[of directory] by simp
qed simp

declare directoriesBelow.simps [simp del]

definition fileEntry :: "string \<Rightarrow> string \<Rightarrow> dirEntry" where
  "fileEntry path source =
     \<lparr>de_name = Base path, de_directory = False, de_info = overlayFileInfo path source\<rparr>"

definition directoryEntry :: "string \<Rightarrow> dirEntry" where
  "directoryEntry directory =
     \<lparr>de_name = Base directory, de_directory = True, de_info = \<lparr>fi_name = Base directory, fi_size = 0, fi_directory = True\<rparr>\<rparr>"

definition overlayEntries :: "overlayFS \<Rightarrow> string \<Rightarrow> string list \<Rightarrow> (string \<times> dirEntry) list" where
  "overlayEntries fs root visited =
     fold (\<lambda>(path, source) entries.
       if \<not> isDescendant path root then entries
       else fold (\<lambda>directory entries. if directory \<in> set visited then entries
              else AList.update directory (directoryEntry directory) entries)
            (directoriesBelow root (Dir path)) (AList.update path (fileEntry path source) entries))
       (ofs_files fs) []"

definition WalkDir :: "'w baseFS \<Rightarrow> overlayFS \<Rightarrow> string \<Rightarrow>
    (string \<Rightarrow> dirEntry \<Rightarrow> go_error option \<Rightarrow> ('w, unit) proc) \<Rightarrow> ('w, unit) proc" where
  "WalkDir base fs root walkFn w =
     (case bfs_WalkDir base root (\<lambda>path entry err.
             let path = cleanOverlayPath path in
             if path \<in> set (ofs_deleted fs) then retS ()
             else bindS (modS (\<lambda>(visited, w). (List.insert path visited, w)))
               (\<lambda>_. partS snd (\<lambda>w (visited, _). (visited, w)) (walkFn path entry err))) ([], w) of
        (Inl e, (_, w)) \<Rightarrow> (Inl e, w)
      | (Inr _, (visited, w)) \<Rightarrow>
          let entries = overlayEntries fs (cleanOverlayPath root) visited;
              paths = sort (filter (\<lambda>path. path \<notin> set visited) (map fst entries))
          in loopS (\<lambda>path _. case map_of entries path of
               None \<Rightarrow> retS ()
             | Some entry \<Rightarrow> catchS (walkFn path entry None)
                 (\<lambda>e. if e = SkipDir \<and> de_directory entry then retS () else failS e)) paths () w)"

section \<open>The contract of an overlay\<close>

text \<open>
  What the update of the project relies on: the overlay has a source, a deletion or nothing at a path, and
  the latest edit of a path is what it has there.
\<close>

locale overlay_store =
  fixes overlay :: "'fs \<Rightarrow> string \<Rightarrow> string option option"
    and put :: "string \<Rightarrow> string \<Rightarrow> 'fs \<Rightarrow> 'fs"
    and remove :: "string \<Rightarrow> 'fs \<Rightarrow> 'fs"
    and key :: "string \<Rightarrow> string"
  assumes overlay_put: "overlay (put p source fs) q = (if q = key p then Some (Some source) else overlay fs q)"
    and overlay_remove: "overlay (remove p fs) q = (if q = key p then Some None else overlay fs q)"

text \<open>An edit: a path with its new source, or without one when it is deleted.\<close>

type_synonym overlayEdit = "string \<times> string option"

fun latest :: "(string \<Rightarrow> string) \<Rightarrow> overlayEdit list \<Rightarrow> string \<Rightarrow> string option option" where
  "latest key [] q = None"
| "latest key ((p, source) # edits) q =
     (case latest key edits q of Some found \<Rightarrow> Some found | None \<Rightarrow> if q = key p then Some source else None)"

lemma latest_snoc: "latest key (edits @ [(p, source)]) q = (if q = key p then Some source else latest key edits q)"
  by (induction edits) (auto split: option.splits)

context overlay_store
begin

definition edit :: "overlayEdit \<Rightarrow> 'fs \<Rightarrow> 'fs" where
  "edit e fs = (case e of (p, Some source) \<Rightarrow> put p source fs | (p, None) \<Rightarrow> remove p fs)"

lemma overlay_edit: "overlay (edit (p, source) fs) q = (if q = key p then Some source else overlay fs q)"
  by (cases source) (simp_all add: edit_def overlay_put overlay_remove)

lemma overlay_edits:
  "overlay (fold edit edits fs) q = (case latest key edits q of Some found \<Rightarrow> Some found | None \<Rightarrow> overlay fs q)"
proof (induction edits rule: rev_induct)
  case (snoc e edits)
  then show ?case by (cases e) (simp add: overlay_edit latest_snoc)
qed simp

end

text \<open>The overlay of the code.\<close>

definition overlaid :: "overlayFS \<Rightarrow> string \<Rightarrow> string option option" where
  "overlaid fs path =
     (if path \<in> set (ofs_deleted fs) then Some None
      else case map_of (ofs_files fs) path of Some source \<Rightarrow> Some (Some source) | None \<Rightarrow> None)"

interpretation ofs: overlay_store overlaid overlay_set overlay_delete cleanOverlayPath
  by unfold_locales (auto simp: overlaid_def overlay_set_def overlay_delete_def Let_def update_conv' delete_conv'
      split: option.splits)

definition applyEdit :: "overlayEdit \<Rightarrow> overlayFS \<Rightarrow> overlayFS" where
  "applyEdit e fs = (case e of (p, Some source) \<Rightarrow> overlay_set p source fs | (p, None) \<Rightarrow> overlay_delete p fs)"

lemma applyEdit_eq: "applyEdit = ofs.edit"
  by (intro ext) (simp add: applyEdit_def ofs.edit_def)

lemma overlaid_edits: "overlaid (fold applyEdit edits newOverlayFS) q = latest cleanOverlayPath edits q"
  unfolding applyEdit_eq ofs.overlay_edits by (simp add: overlaid_def newOverlayFS_def split: option.split)

lemma FileExists_overlaid:
  "FileExists base fs path = (case overlaid fs (cleanOverlayPath path) of None \<Rightarrow> bfs_FileExists base (cleanOverlayPath path)
     | Some found \<Rightarrow> found \<noteq> None)"
  by (simp add: FileExists_def overlaid_def Let_def split: option.split)

lemma ReadFile_overlaid:
  "ReadFile base fs path = (case overlaid fs (cleanOverlayPath path) of None \<Rightarrow> bfs_ReadFile base (cleanOverlayPath path)
     | Some found \<Rightarrow> found)"
  by (simp add: ReadFile_def overlaid_def Let_def split: option.split)

lemma Stat_overlaid:
  "overlay_Stat base fs path = (case overlaid fs (cleanOverlayPath path) of None \<Rightarrow> bfs_Stat base (cleanOverlayPath path)
     | Some found \<Rightarrow> map_option (overlayFileInfo (cleanOverlayPath path)) found)"
  by (simp add: overlay_Stat_def overlaid_def Let_def split: option.split)

lemma cleanOverlayPath_clean: "Clean p = p \<Longrightarrow> cleanOverlayPath p = p"
  by (simp add: cleanOverlayPath_def)

section \<open>Listings\<close>

text \<open>The keys of an overlay: clean when the edits are, each in one of the two maps at most.\<close>

definition overlay_ok :: "overlayFS \<Rightarrow> bool" where
  "overlay_ok fs \<longleftrightarrow> set (map fst (ofs_files fs)) \<inter> set (ofs_deleted fs) = {} \<and>
     (\<forall>path \<in> set (map fst (ofs_files fs)) \<union> set (ofs_deleted fs). Clean path = path)"

lemma set_update_keys: "set (map fst (AList.update k v al)) = insert k (set (map fst al))"
  by (simp add: dom_update)

lemma overlay_ok_edit: "overlay_ok fs \<Longrightarrow> Clean p = p \<Longrightarrow> overlay_ok (applyEdit (p, source) fs)"
  by (cases source)
     (auto simp: overlay_ok_def applyEdit_def overlay_set_def overlay_delete_def Let_def cleanOverlayPath_clean
       dom_update simp del: set_map simp add: delete_keys set_update_keys)

lemma overlay_ok_edits: "(\<And>e. e \<in> set edits \<Longrightarrow> Clean (fst e) = fst e) \<Longrightarrow> overlay_ok (fold applyEdit edits newOverlayFS)"
proof (induction edits rule: rev_induct)
  case Nil
  then show ?case by (simp add: overlay_ok_def newOverlayFS_def)
next
  case (snoc e edits)
  obtain p source where e: "e = (p, source)" by force
  have "Clean p = p" using snoc.prems[of e] e by simp
  then show ?case using snoc e by (simp add: overlay_ok_edit)
qed

text \<open>The path of a name in a directory.\<close>

definition childPath :: "string \<Rightarrow> string \<Rightarrow> string" where
  "childPath directory name = Clean (directory @ slash # name)"

lemma foldl_clean_render:
  assumes "clean_stack r out"
  shows "foldl (clean_step r) [] (split_path (render_path r out)) = out"
proof (cases "out = []")
  case True
  then show ?thesis by (cases r) (simp_all add: render_path_def clean_step_def)
next
  case False
  have "clean_step r [] [] = []" by (simp add: clean_step_def)
  then show ?thesis
    using clean_stack_body[OF assms False] foldl_clean_rev[OF assms] by (cases r) (simp_all add: render_path_def)
qed

lemma split_path_snoc_element: "slash \<notin> set e \<Longrightarrow> split_path (p @ slash # e) = split_path p @ [e]"
  by (induction p) (auto simp: split_path_single split: list.splits)

lemma childPath_parts:
  assumes "Clean d = d" "real_element name"
  shows "path_parts (childPath d name) = path_parts d @ [name]" "rooted (childPath d name) = rooted d"
    "Clean (childPath d name) = childPath d name"
proof -
  obtain r out where d: "clean_stack r out" "d = render_path r out" using assms(1) by (rule clean_path_cases)
  have name: "name \<noteq> []" "name \<noteq> dot" "name \<noteq> dotdot" "slash \<notin> set name" using assms(2) by (simp_all add: real_element_def)
  have stack: "clean_stack r (name # out)" using d(1) assms(2) name(3) by simp
  have "d \<noteq> []" using assms(1) Clean_nonempty[of d] by simp
  moreover have "(hd d = slash) = r" using render_hd[OF d(1)] d(2) by simp
  moreover have "foldl (clean_step r) [] (split_path (d @ slash # name)) = name # out"
    using name by (simp add: split_path_snoc_element d(2) foldl_clean_render[OF d(1)] clean_step_def)
  ultimately have "childPath d name = render_path r (name # out)"
    unfolding childPath_def Clean_def render_path_def Let_def by (cases r) simp_all
  then show "path_parts (childPath d name) = path_parts d @ [name]" "rooted (childPath d name) = rooted d"
    "Clean (childPath d name) = childPath d name"
    using d(2) by (simp_all add: path_parts_render[OF stack] path_parts_render[OF d(1)] rooted_render[OF stack]
        rooted_render[OF d(1)] Clean_render_path[OF stack])
qed

lemma childPath_iff:
  assumes "Clean d = d" "real_element name" "Clean p = p"
  shows "p = childPath d name \<longleftrightarrow> rooted p = rooted d \<and> path_parts p = path_parts d @ [name]"
  using childPath_parts[OF assms(1,2)] clean_path_eqI[OF assms(3)] by auto

lemma childPath_Dir_Base:
  assumes "Clean d = d" "real_element name" "Clean p = p"
  shows "Dir p = d \<and> Base p = name \<longleftrightarrow> p = childPath d name"
proof (cases "path_parts p = []")
  case True
  obtain r out where p: "clean_stack r out" "p = render_path r out" using assms(3) by (rule clean_path_cases)
  have "out = []" using True p by (simp add: path_parts_render)
  then have "p = [slash] \<or> p = dot" using p(2) by (auto simp: render_path_def)
  then have "Base p = [slash] \<or> Base p = dot" by (auto simp: Base_def)
  then have "Base p \<noteq> name" using assms(2) by (auto simp: real_element_def)
  then show ?thesis using True childPath_iff[OF assms] by auto
next
  case False
  note parts = Dir_parts[OF assms(3) False]
  have "Dir p = d \<longleftrightarrow> rooted p = rooted d \<and> butlast (path_parts p) = path_parts d"
    using clean_path_eqI[of "Dir p" d] assms(1) parts(1,2) by auto
  then have "Dir p = d \<and> Base p = name \<longleftrightarrow>
      rooted p = rooted d \<and> butlast (path_parts p) = path_parts d \<and> last (path_parts p) = name"
    by (simp add: parts(3))
  also have "\<dots> \<longleftrightarrow> rooted p = rooted d \<and> path_parts p = path_parts d @ [name]"
    using False append_butlast_last_id[of "path_parts p"] by (metis butlast_snoc last_snoc)
  finally show ?thesis by (simp add: childPath_iff[OF assms])
qed

text \<open>What one overlaid file adds to a listing.\<close>

lemma Rel_descendant:
  assumes "isDescendant f d"
  obtains rest where "rest \<noteq> []" "path_parts f = path_parts d @ rest" "Rel d f = Some (join_path rest)"
    "split_path (join_path rest) = rest"
proof -
  obtain rest where rest: "rooted f = rooted d" "rest \<noteq> []" "path_parts f = path_parts d @ rest"
    using assms by (auto simp: isDescendant_iff)
  have "slash \<notin> set e" if "e \<in> set rest" for e
    using path_parts_element[of e f] that rest(3) by simp
  then have "split_path (join_path rest) = rest" using rest(2) by (intro split_join_path) auto
  moreover have "Rel d f = Some (join_path rest)" using rest by (simp add: Rel_def strip_common_prefix Let_def)
  ultimately show thesis using rest that by blast
qed

lemma listFile_result:
  "listFile d f (F, D) =
     (if \<not> isDescendant f d then (F, D)
      else (case drop (length (path_parts d)) (path_parts f) of
              [] \<Rightarrow> (F, D) | [name] \<Rightarrow> (List.insert name F, D) | name # _ \<Rightarrow> (F, List.insert name D)))"
proof (cases "isDescendant f d")
  case True
  then obtain rest where rest: "rest \<noteq> []" "path_parts f = path_parts d @ rest" "Rel d f = Some (join_path rest)"
    "split_path (join_path rest) = rest"
    by (rule Rel_descendant)
  then show ?thesis
    using True by (cases rest; cases "tl rest") (auto simp: listFile_def isDescendant_def Let_def)
next
  case False
  then show ?thesis by (auto simp: listFile_def isDescendant_def split: option.splits)
qed

lemma path_parts_no_dotdot:
  assumes "path_parts p = front @ name # rest" and "name \<noteq> dotdot"
  shows "dotdot \<notin> set rest"
proof -
  have "dotdot \<notin> set inner" if "clean_stack r (inner @ name # outer)" for r inner outer
    using that assms(2) by (induction inner) (auto split: if_splits)
  moreover obtain r out where p: "clean_stack r out" "Clean p = render_path r out" by (rule Clean_eq_render_path)
  moreover have "path_parts p = path_parts (Clean p)" by (simp add: path_parts_def)
  then have "rev out = front @ name # rest" using \<open>clean_stack r out\<close> \<open>Clean p = _\<close> assms(1) by (simp add: path_parts_render)
  then have "rev (rev out) = rev (front @ name # rest)" by (rule arg_cong)
  then have "out = rev rest @ name # rev front" by simp
  ultimately show ?thesis by fastforce
qed

lemma listFile_sets:
  assumes "Clean d = d" "Clean f = f" "real_element name"
  shows "name \<in> set (fst (listFile d f (F, D))) \<longleftrightarrow> name \<in> set F \<or> f = childPath d name"
    and "name \<in> set (snd (listFile d f (F, D))) \<longleftrightarrow> name \<in> set D \<or> isDescendant f (childPath d name)"
proof -
  note child = childPath_parts[OF assms(1,3)] and here = childPath_iff[OF assms(1,3,2)]
  have name: "name \<noteq> dotdot" using assms(3) by (simp add: real_element_def)
  show "name \<in> set (fst (listFile d f (F, D))) \<longleftrightarrow> name \<in> set F \<or> f = childPath d name"
    unfolding listFile_result isDescendant_iff here using name by (auto split: list.split)
  show "name \<in> set (snd (listFile d f (F, D))) \<longleftrightarrow> name \<in> set D \<or> isDescendant f (childPath d name)"
  proof (cases "isDescendant f d")
    case False
    then show ?thesis using name by (auto simp: listFile_result isDescendant_iff child)
  next
    case True
    then obtain rest where rest: "rest \<noteq> []" "path_parts f = path_parts d @ rest" "rooted f = rooted d"
      by (auto simp: isDescendant_iff)
    have "isDescendant f (childPath d name) \<longleftrightarrow> (\<exists>deep. deep \<noteq> [] \<and> hd deep \<noteq> dotdot \<and> rest = name # deep)"
      using rest by (simp add: isDescendant_iff child)
    also have "\<dots> \<longleftrightarrow> hd rest = name \<and> tl rest \<noteq> []"
    proof
      assume deep: "hd rest = name \<and> tl rest \<noteq> []"
      then have "path_parts f = path_parts d @ name # tl rest" using rest by (cases rest) auto
      then have "dotdot \<notin> set (tl rest)" using name by (rule path_parts_no_dotdot)
      then show "\<exists>deep. deep \<noteq> [] \<and> hd deep \<noteq> dotdot \<and> rest = name # deep"
        using deep rest(1) hd_in_set[of "tl rest"] by (intro exI[of _ "tl rest"]) (metis list.collapse)
    qed auto
    finally show ?thesis
      using True rest by (cases rest; cases "tl rest") (auto simp: listFile_result)
  qed
qed

lemma fold_listFile:
  assumes "Clean d = d" "real_element name" "\<And>f. f \<in> fst ` set files \<Longrightarrow> Clean f = f"
  shows "(name \<in> set (fst (fold (\<lambda>(f, source). listFile d f) files (F, D))) \<longleftrightarrow>
      name \<in> set F \<or> childPath d name \<in> fst ` set files) \<and>
    (name \<in> set (snd (fold (\<lambda>(f, source). listFile d f) files (F, D))) \<longleftrightarrow>
      name \<in> set D \<or> list_ex (\<lambda>(f, source). isDescendant f (childPath d name)) files)"
  using assms(3)
proof (induction files arbitrary: F D)
  case (Cons pair files)
  obtain f source where pair: "pair = (f, source)" by force
  obtain F' D' where step: "listFile d f (F, D) = (F', D')" by force
  have sets: "name \<in> set F' \<longleftrightarrow> name \<in> set F \<or> f = childPath d name"
    "name \<in> set D' \<longleftrightarrow> name \<in> set D \<or> isDescendant f (childPath d name)"
    using listFile_sets[OF assms(1) _ assms(2), of f F D] Cons.prems[of f] step pair by simp_all
  have "f' \<in> fst ` set files \<Longrightarrow> Clean f' = f'" for f' using Cons.prems[of f'] by auto
  note IH = Cons.IH[OF this, of F' D']
  show ?case
    using IH[THEN conjunct1] IH[THEN conjunct2] step sets pair by auto
qed simp

lemma fold_unlist:
  assumes "Clean d = d" "real_element name" "\<And>f. f \<in> set deleted \<Longrightarrow> Clean f = f"
  shows "name \<in> set (fold (\<lambda>f names. if Dir f = d then removeAll (Base f) names else names) deleted names) \<longleftrightarrow>
    name \<in> set names \<and> childPath d name \<notin> set deleted"
  using assms(3)
proof (induction deleted arbitrary: names)
  case (Cons f deleted)
  have "f' \<in> set deleted \<Longrightarrow> Clean f' = f'" for f' using Cons.prems[of f'] by simp
  then show ?case using Cons.IH childPath_Dir_Base[OF assms(1,2), of f] Cons.prems[of f] by auto
qed simp

text \<open>A listing has a name exactly when the overlay has a file there, or a file below it, or leaves the base's answer.\<close>

lemma listing:
  assumes "overlay_ok fs" "Clean d = d" "real_element name"
  shows "name \<in> set (en_Files (GetAccessibleEntries base fs d)) \<longleftrightarrow>
      (case overlaid fs (childPath d name) of None \<Rightarrow> name \<in> set (en_Files (bfs_GetAccessibleEntries base d))
       | Some found \<Rightarrow> found \<noteq> None)" (is ?files)
    and "name \<in> set (en_Directories (GetAccessibleEntries base fs d)) \<longleftrightarrow>
      name \<in> set (en_Directories (bfs_GetAccessibleEntries base d)) \<or>
      list_ex (\<lambda>(f, source). isDescendant f (childPath d name)) (ofs_files fs)" (is ?directories)
proof -
  let ?names = "fold (\<lambda>f names. if Dir f = d then removeAll (Base f) names else names) (ofs_deleted fs)
    (remdups (en_Files (bfs_GetAccessibleEntries base d)))"
  let ?listed = "fold (\<lambda>(f, source). listFile d f) (ofs_files fs)
    (?names, remdups (en_Directories (bfs_GetAccessibleEntries base d)))"
  have clean: "\<And>f. f \<in> fst ` set (ofs_files fs) \<Longrightarrow> Clean f = f" "\<And>f. f \<in> set (ofs_deleted fs) \<Longrightarrow> Clean f = f"
    using assms(1) by (auto simp: overlay_ok_def)
  have entries: "set (en_Files (GetAccessibleEntries base fs d)) = set (fst ?listed)"
    "set (en_Directories (GetAccessibleEntries base fs d)) = set (snd ?listed)"
    by (simp_all add: GetAccessibleEntries_def cleanOverlayPath_clean[OF assms(2)] sortedEntryNames_def Let_def split: prod.split)
  have listed: "name \<in> set (fst ?listed) \<longleftrightarrow> name \<in> set ?names \<or> childPath d name \<in> fst ` set (ofs_files fs)"
    "name \<in> set (snd ?listed) \<longleftrightarrow> name \<in> set (remdups (en_Directories (bfs_GetAccessibleEntries base d))) \<or>
      list_ex (\<lambda>(f, source). isDescendant f (childPath d name)) (ofs_files fs)"
    using fold_listFile[OF assms(2,3) clean(1)] by blast+
  have kept: "name \<in> set ?names \<longleftrightarrow>
      name \<in> set (en_Files (bfs_GetAccessibleEntries base d)) \<and> childPath d name \<notin> set (ofs_deleted fs)"
    using fold_unlist[OF assms(2,3) clean(2)] by simp
  have "childPath d name \<in> fst ` set (ofs_files fs) \<Longrightarrow> childPath d name \<notin> set (ofs_deleted fs)"
    using assms(1) by (auto simp: overlay_ok_def)
  then show ?files
    unfolding entries listed(1) kept
    using map_of_eq_None_iff[of "ofs_files fs" "childPath d name"]
    by (cases "map_of (ofs_files fs) (childPath d name)") (auto simp: overlaid_def)
  show ?directories
    unfolding entries listed(2) by simp
qed

section \<open>What the compiler reads\<close>

text \<open>
  Whatever edits were made to a new overlay, reading, testing and inspecting a file give the latest
  edit of its cleaned path (its source, or nothing when it was deleted) and the base's answer for a path
  without one, and the size is the length of the source.
\<close>

lemma overlay_latest_edit:
  "let path = cleanOverlayPath p; found = latest cleanOverlayPath edits path;
       fs = fold applyEdit edits newOverlayFS
   in ReadFile base fs p = (case found of Some source \<Rightarrow> source | None \<Rightarrow> bfs_ReadFile base path) \<and>
      FileExists base fs p = (case found of Some source \<Rightarrow> source \<noteq> None | None \<Rightarrow> bfs_FileExists base path) \<and>
      overlay_Stat base fs p = (case found of None \<Rightarrow> bfs_Stat base path
        | Some source \<Rightarrow> map_option (\<lambda>s. \<lparr>fi_name = Base path, fi_size = int (length s), fi_directory = False\<rparr>) source)"
  by (auto simp: ReadFile_overlaid FileExists_overlaid Stat_overlaid overlaid_edits Let_def overlayFileInfo_def[abs_def]
      split: option.splits)

text \<open>
  The listing of a directory agrees with the tests for its children: over edits of clean paths, and
  for a name on which the base itself agrees, the name is a file of the listing exactly when that file
  exists, and a directory of it exactly when that directory exists. Both lists are sorted and without
  repetition.
\<close>

definition base_agrees :: "'w baseFS \<Rightarrow> string \<Rightarrow> string \<Rightarrow> bool" where
  "base_agrees base d name \<longleftrightarrow>
     (name \<in> set (en_Files (bfs_GetAccessibleEntries base d)) \<longleftrightarrow> bfs_FileExists base (childPath d name)) \<and>
     (name \<in> set (en_Directories (bfs_GetAccessibleEntries base d)) \<longleftrightarrow> bfs_DirectoryExists base (childPath d name))"

lemma overlay_listing:
  assumes "list_all (\<lambda>e. Clean (fst e) = fst e) edits" and "Clean d = d" and "real_element name"
    and "base_agrees base d name"
  shows "let fs = fold applyEdit edits newOverlayFS; listed = GetAccessibleEntries base fs d
    in (name \<in> set (en_Files listed) \<longleftrightarrow> FileExists base fs (childPath d name)) \<and>
       (name \<in> set (en_Directories listed) \<longleftrightarrow> DirectoryExists base fs (childPath d name)) \<and>
       sorted (en_Files listed) \<and> distinct (en_Files listed) \<and>
       sorted (en_Directories listed) \<and> distinct (en_Directories listed)"
proof -
  let ?fs = "fold applyEdit edits newOverlayFS"
  have ok: "overlay_ok ?fs" using assms(1) by (intro overlay_ok_edits) (simp add: list_all_iff)
  note child = cleanOverlayPath_clean[OF childPath_parts(3)[OF assms(2,3)]]
  have "sorted (en_Files (GetAccessibleEntries base ?fs d)) \<and> distinct (en_Files (GetAccessibleEntries base ?fs d)) \<and>
      sorted (en_Directories (GetAccessibleEntries base ?fs d)) \<and> distinct (en_Directories (GetAccessibleEntries base ?fs d))"
    by (simp add: GetAccessibleEntries_def sortedEntryNames_def Let_def split: prod.split)
  then show ?thesis
    using listing[where base = base, OF ok assms(2,3)] assms(4)
    unfolding Let_def by (simp add: FileExists_overlaid DirectoryExists_def Let_def child base_agrees_def split: option.split)
qed

definition exampleBase :: "unit baseFS" where
  "exampleBase = \<lparr>bfs_UseCaseSensitiveFileNames = True, bfs_FileExists = (\<lambda>p. p = ''/p/a.ts''),
     bfs_ReadFile = (\<lambda>p. if p = ''/p/a.ts'' then Some ''1'' else None), bfs_DirectoryExists = (\<lambda>p. p = ''/p''),
     bfs_GetAccessibleEntries = (\<lambda>p. \<lparr>en_Files = (if p = ''/p'' then [''a.ts''] else []),
       en_Directories = (if p = ''/'' then [''p''] else []), en_Symlinks = None\<rparr>),
     bfs_Stat = (\<lambda>_. None), bfs_Realpath = (\<lambda>p. p), bfs_WalkDir = (\<lambda>_ _. retS ())\<rparr>"

lemma overlay_listing_example:
  "let fs = fold applyEdit [(''/p/a.ts'', None), (''/p/lib/b.ts'', Some ''2'')] newOverlayFS;
       listed = GetAccessibleEntries exampleBase fs ''/p''
   in ''a.ts'' \<notin> set (en_Files listed) \<and> \<not> FileExists exampleBase fs (childPath ''/p'' ''a.ts'')"
proof -
  let ?fs = "fold applyEdit [(''/p/a.ts'', None), (''/p/lib/b.ts'', Some ''2'')] newOverlayFS"
  have "\<not> FileExists exampleBase ?fs (childPath ''/p'' ''a.ts'')" by code_simp
  moreover have "list_all (\<lambda>e. Clean (fst e) = fst e) [(''/p/a.ts'', None), (''/p/lib/b.ts'', Some ''2'')]"
    "Clean ''/p'' = ''/p''" "real_element ''a.ts''" "base_agrees exampleBase ''/p'' ''a.ts''"
    by code_simp+
  ultimately show ?thesis
    using overlay_listing[of "[(''/p/a.ts'', None), (''/p/lib/b.ts'', Some ''2'')]" "''/p''" "''a.ts''" exampleBase]
    unfolding Let_def by blast
qed

end
