(* ===== verification/Import_Graph.thy ===== *)
theory Import_Graph
  imports Go_Std
begin

text \<open>
  The retained module graph of the project adapter (\<^verbatim>\<open>internal/typefacts/tsgo/project.go\<close>): the edges of
  every file, the inverted index, the proof that a content edit keeps them, and the walk that decides
  which files an update affects. A program of the compiler is a parameter: its source files with the
  files their imports resolve to, and its lookup by path. A set of paths is a list without repetition,
  and the order of a map iteration is the order of its list; the caller sorts the result.
\<close>

section \<open>Programs\<close>

record programFile =
  pf_FileName :: string
  pf_IsDeclarationFile :: bool
  pf_IsExternalModule :: bool
  pf_Imports :: "string option list"

record program =
  pg_SourceFiles :: "programFile list"
  pg_GetSourceFile :: "string \<Rightarrow> programFile option"

definition globalScopeChange :: "string list \<Rightarrow> program list \<Rightarrow> bool" where
  "globalScopeChange changedPaths programs =
     list_ex (\<lambda>path. list_ex (\<lambda>p.
       case pg_GetSourceFile p (Clean path) of None \<Rightarrow> False | Some f \<Rightarrow> \<not> pf_IsExternalModule f) programs) changedPaths"

definition everySourcePath :: "program list \<Rightarrow> string list" where
  "everySourcePath programs =
     remdups (concat (map (\<lambda>p. map (\<lambda>f. Clean (pf_FileName f)) (pg_SourceFiles p)) programs))"

definition moduleEdges :: "programFile \<Rightarrow> string list" where
  "moduleEdges f = concat (map (\<lambda>resolved. case resolved of None \<Rightarrow> [] | Some name \<Rightarrow> [Clean name]) (pf_Imports f))"

section \<open>The retained graph\<close>

type_synonym reverseDeps = "(string \<times> string list) list"

definition importersOf :: "reverseDeps \<Rightarrow> string \<Rightarrow> string list" where
  "importersOf graph dependency = (case map_of graph dependency of None \<Rightarrow> [] | Some importers \<Rightarrow> importers)"

record importGraph =
  ig_forwardDeps :: "(string \<times> string list) list"
  ig_reverseDeps :: reverseDeps




definition patchImportGraph :: "program \<Rightarrow> string \<Rightarrow> importGraph \<Rightarrow> bool" where
  "patchImportGraph p path g =
     (case pg_GetSourceFile p (Clean path) of
        None \<Rightarrow> False
      | Some edited \<Rightarrow> \<not> pf_IsDeclarationFile edited \<and> moduleEdges edited = importersOf (ig_forwardDeps g) (Clean path))"

section \<open>The walk\<close>












section \<open>The walk is the closure\<close>






section \<open>The graph of a program\<close>






section \<open>Properties\<close>


end
