(* ===== verification/Spec2Isabelle.thy ===== *)
theory Spec2Isabelle
  imports Compact_Roundtrip Demand_Store Retained_Store Transition_Arena Frame_Roundtrip Service_Responder Divergences
    Overlay Import_Graph
begin

text \<open>
  Verification of the producer of Solid TypeFacts: the Go service \<^verbatim>\<open>solid-typefacts\<close> that keeps one
  TypeScript project open and answers a Rust client. Paths are relative to \<^verbatim>\<open>src/\<close>.

  \<^bold>\<open>The program.\<close> The client sends length-prefixed CBOR requests (\<^verbatim>\<open>cmd/solid-typefacts/main.go\<close>). Four
  goroutines read frames, dispatch them, answer them in arrival order and write the responses. A request
  goes to the session (\<^verbatim>\<open>internal/typefacts/session.go\<close>), which checks its schema, project, generation and
  state token. An update reaches the compiler adapter through the demand closure (\<^verbatim>\<open>closure.go\<close>). An
  analysis is a transaction: the session edits its retained demand set (\<^verbatim>\<open>session_demands.go\<close>) under an
  undo log, the closure materializes a fact table for it (\<^verbatim>\<open>semantic_demand.go\<close>, \<^verbatim>\<open>semantic_retained.go\<close>),
  reusing the contribution of every file whose demands and dependencies did not change
  (\<^verbatim>\<open>retained_contributions.go\<close>), and the encoder sends the difference between the previous table and
  this one as a packed transition (\<^verbatim>\<open>wire_transition*.go\<close>), in the response or through a file shared with
  the client (\<^verbatim>\<open>cmd/solid-typefacts/transition_arena.go\<close>). On success the token advances and the session
  keeps only the header of the table; on any error the demand set is rolled back and the caches dropped.

  \<^bold>\<open>The theories\<close>, bottom up. A record or datatype has the name and the fields of the Go type (with a
  prefix per record); an operation has the name of the function or method it models.
  \<^item> \<open>Prelude\<close>, \<open>Go_Std\<close>, \<open>Go_State\<close>: machine types, error values, binary search on key-ordered lists;
    the functions of Go's library the producer calls (\<^verbatim>\<open>filepath.Clean\<close>, varints, UTF-8); procedures that
    thread a state and can fail, with a calculus of weakest preconditions.
  \<^item> \<open>Facts\<close>: the fact types of \<^verbatim>\<open>model.go\<close> and \<^verbatim>\<open>typefacts.go\<close>, the primitive value domain, and the row
    equalities of \<^verbatim>\<open>facttable_equal.go\<close>.
  \<^item> \<open>String_Table\<close>, \<open>Compact_Demands\<close>, \<open>Compact_Roundtrip\<close>: the compact demand frames of
    \<^verbatim>\<open>protocolv3_compact.go\<close>, writer, expanding reader and selective reader. The lemmas show that the
    readers agree with each other and invert the writer, and that the reader's query arena never overruns.
  \<^item> \<open>Demand_Store\<close>: \<^verbatim>\<open>session_demands.go\<close> with its transactions. Editing is a map update on paths, the
    roll back restores the ordered list, the canonical run is a stable sort; a compact group is not sorted
    but expands in the order of its sender.
  \<^item> \<open>Retained_Store\<close>: \<^verbatim>\<open>retained_contributions.go\<close>. The merge of semantic results works in place on the
    arrays of the result, and every index of it is a read that can panic. The lemmas show that none does,
    and that each merged row has, field by field, the latest of the answers at its location; the reverse
    indexes stay exact through every history.
  \<^item> \<open>Symbol_Store\<close>, \<open>Fact_Table\<close>: the chunked symbol table and interner (\<^verbatim>\<open>symbol_store.go\<close>,
    \<^verbatim>\<open>symbol_intern.go\<close>), the table with its accessors (\<^verbatim>\<open>model.go\<close>, \<^verbatim>\<open>transport_manifest.go\<close>).
  \<^item> \<open>Wire_Diff\<close>, \<open>Wire_Delta\<close>, \<open>Wire_Symbols\<close>: the planner of \<^verbatim>\<open>wire_transition_diff.go\<close>. A client that
    applies a plan to the rows of the base table holds the rows of the target table; the merge of two
    ordered streams is verified once in the locale \<open>keyed_delta\<close>.
  \<^item> \<open>Wire_Codec\<close>, \<open>Wire_Rows\<close>, \<open>Wire_Transition\<close>: the packed writer (\<^verbatim>\<open>wire_transition_codec.go\<close>), the row
    writers (\<^verbatim>\<open>wire_transition_rows.go\<close>) and the encoder (\<^verbatim>\<open>wire_transition.go\<close>) with every validation
    error. \<open>Wire_Streaming\<close> compares two runs of the writers (locales \<open>writer_relation\<close> and
    \<open>transition_arena\<close>); \<open>Transition_Arena\<close> models the shared file with short and failing writes and shows
    that the client reads from it what the detached encoder returns.
  \<^item> \<open>Packed_Reader\<close>, \<open>Entity_Reader\<close>: the client's decoder (\<^verbatim>\<open>crates/typefacts/src/v3.rs\<close>).
    \<open>Wire_Roundtrip\<close>, \<open>Dictionary_Roundtrip\<close>, \<open>Entity_Roundtrip\<close> and \<open>Frame_Roundtrip\<close> show, writer by
    writer and then for whole frames, that the decoder returns the planned transition.
  \<^item> \<open>Protocol\<close>: requests, responses and their validation (\<^verbatim>\<open>protocolv3.go\<close>).
  \<^item> \<open>Demand_Closure\<close>, \<open>Materialize\<close>: the closure and one materialization, over the environment
    \<open>ClosureEnv\<close> that stands for the compiler adapter. \<open>Materialize_Facts\<close>, \<open>Closure_Invariant\<close> and
    \<open>Closure_Properties\<close> hold its invariant, the shape of every table over every history of the closure,
    and what a sparse or full transition does to a client.
  \<^item> \<open>Session\<close>: the lifecycle dispatch. \<open>Session_Invariant\<close>, \<open>Session_Requests\<close> and \<open>Session_Properties\<close>
    hold the invariant of a session, the outcome of every request and the counters of whole histories;
    \<open>Session_Transition\<close> follows the table of an analysis from the closure to the bytes of the response
    and the header that is published.
  \<^item> \<open>Service_Frames\<close>, \<open>Service_Queue\<close>, \<open>Service_Properties\<close>, \<open>Service_Responder\<close>: frames, the four
    goroutines as a step relation, order, liveness and cancellation, and the service over a session.
  \<^item> \<open>Overlay\<close>, \<open>Import_Graph\<close>: the two parts of the adapter \<^verbatim>\<open>internal/typefacts/tsgo\<close> that do not read
    the compiler's trees: the overlay of unsaved sources (\<^verbatim>\<open>overlay.go\<close>), whose reads and listings agree
    with the latest edits, and the retained module graph (\<^verbatim>\<open>project.go\<close>), whose walk finds exactly the
    importers of a change. The base file system and the program of the compiler are parameters; the
    listings and the paths the walk visits are lists where the code has maps.
  \<^item> \<open>Divergences\<close>: two runs that show where the code falls short of what its comments say.

  \<^bold>\<open>Conventions.\<close> Go \<^verbatim>\<open>int\<close>, \<^verbatim>\<open>uint64\<close> and bytes are words where they can wrap, list lengths are naturals. A
  Go slice whose nil and empty forms differ is an option. Shared contributions live in an explicit heap of
  the closure, since the code releases their rows in place. Errors are values of \<open>go_error\<close>; an index out
  of range is the error \<open>Panic\<close>, and the theorems show where it cannot occur. Loops recurse on their data or
  have a termination proof; none uses fuel, except the eviction of \<^verbatim>\<open>Update\<close>, whose loop returns an option
  and is proved to return. The steps of the service are bounded by ten times the bytes of its input.

  \<^bold>\<open>Parameters.\<close> The compiler adapter is the record \<open>ClosureEnv\<close> over an abstract world, with one hypothesis
  where it is needed: \<open>clean_backend\<close>, that the paths it reports as affected are clean. The CBOR library,
  the hash behind the demand cache and the operating system's file calls are parameters too. The
  theorems on materialization speak of the contributions a table is built from and do not assume the hash
  to be free of collisions; \<open>demandListHash_bytes\<close> says that what it reads determines the demand run.

  \<^bold>\<open>Not modelled.\<close>
  \<^item> The rest of \<^verbatim>\<open>internal/typefacts/tsgo\<close>, the adapter to the TypeScript compiler. Nearly every function
    reads the syntax trees, symbols and types of a compiler that is not part of the repository.
  \<^item> \<^verbatim>\<open>shims\<close>: re-exports of that compiler.
  \<^item> \<^verbatim>\<open>symbol_closure.go\<close>: the compiler-independent symbol closure is reached by the test adapters only, as
    are the fallbacks in \<^verbatim>\<open>closure.go\<close> and \<^verbatim>\<open>semantic_retained.go\<close> that call it and \<^verbatim>\<open>transportManifest\<close>.
  \<^item> \<^verbatim>\<open>trace.go\<close>, the durations of responses, the hints to the garbage collector: readings of the clock and
    memory advice that nothing in the producer reads.
  \<^item> The start of the process in \<^verbatim>\<open>main.go\<close> (flags, profile, handshake, fault injection for tests), and
    opening the arena file.
  \<^item> In what is modelled: the error branch of \<^verbatim>\<open>newSession\<close> for a backend without the operations of a
    closure (the record \<open>ClosureEnv\<close> always has them); values of \<^verbatim>\<open>Constructability\<close> outside its named
    constants (a closed datatype); the text around a sentinel error (\<^verbatim>\<open>readSymbols\<close> wraps
    \<^verbatim>\<open>ErrGenerationMismatch\<close> with the two tokens); and the shared backing array of the references that
    \<^verbatim>\<open>populateSymbolEvidence\<close> filters in place (the adapter builds it afresh for every call).
  \<^item> \<^verbatim>\<open>internal/wirecbor\<close> beyond its message limit: a configuration of a CBOR library.
  \<^item> The rest of the Rust client: its session, its retained table and its CBOR messages.
\<close>

end
